(* ===== verification/Prelude.thy ===== *)
theory Prelude
  imports Main "HOL-Library.Word" "HOL-Library.List_Lexorder" "HOL-Library.Product_Lexorder"
begin

text \<open>
  Shared vocabulary of the development: the machine integers and strings of the Rust
  sources, the standard-library functions on them that the sources call, the error type,
  and the generic lemmas on lists, words and step relations that the component theories
  use.

  A Rust \<open>String\<close> is a sequence of Unicode scalar values stored as UTF-8. It is modelled by
  the list of its scalar values (\<open>ustring\<close>), so that \<open>chars()\<close> is the list itself and the
  derived order (byte-wise on UTF-8, which agrees with the order on scalar values) is the
  lexicographic order of \<open>List_Lexorder\<close>; \<open>len()\<close>, which counts bytes, is \<open>utf8_len\<close>.
\<close>

section \<open>Collections of simplification rules\<close>

named_theorems order_simps \<open>the derived orders of identity types, unfolded\<close>
named_theorems inv_defs \<open>the invariants of the components, unfolded\<close>
named_theorems step_simps \<open>what each operation of a component leaves unchanged\<close>

section \<open>Machine integers\<close>

type_synonym u8 = "8 word"
type_synonym u16 = "16 word"
type_synonym u32 = "32 word"
type_synonym u64 = "64 word"

text \<open>\<open>saturating_add\<close>, \<open>saturating_sub\<close> and \<open>saturating_mul\<close> of the unsigned types.\<close>

definition saturating_add :: "'a::len word \<Rightarrow> 'a word \<Rightarrow> 'a word" where
  "saturating_add a b = (if unat a + unat b < 2 ^ LENGTH('a) then a + b else - 1)"

definition saturating_sub :: "'a::len word \<Rightarrow> 'a word \<Rightarrow> 'a word" where
  "saturating_sub a b = (if b \<le> a then a - b else 0)"

definition saturating_mul :: "'a::len word \<Rightarrow> 'a word \<Rightarrow> 'a word" where
  "saturating_mul a b = (if unat a * unat b < 2 ^ LENGTH('a) then a * b else - 1)"

lemma unat_cases: "unat (x :: 'a::len word) = 2 ^ LENGTH('a) - 1 \<or> Suc (unat x) < 2 ^ LENGTH('a)"
proof -
  have "unat x < 2 ^ LENGTH('a)" by (rule unsigned_less)
  then show ?thesis by linarith
qed

lemma unat_max_word: "unat (- 1 :: 'a::len word) = 2 ^ LENGTH('a) - 1"
  by (simp add: unsigned_minus_1_eq_mask mask_eq_exp_minus_1)

lemma eq_max_word_iff: "x = - 1 \<longleftrightarrow> unat (x :: 'a::len word) = 2 ^ LENGTH('a) - 1"
  by (metis unat_max_word word_unat_eq_iff)

lemma max_eq_max_word [simp]: "max a b = - 1 \<longleftrightarrow> a = - 1 \<or> b = (- 1 :: 'a::len word)"
  using word_order.extremum [of a] word_order.extremum [of b] by (auto simp: max_def intro: antisym)

lemma unat_Suc_word: "x \<noteq> - 1 \<Longrightarrow> unat (x + (1 :: 'a::len word)) = Suc (unat x)"
  using unat_cases [of x] by (auto simp: eq_max_word_iff unat_word_ariths)

lemma word_Suc_greater: "x \<noteq> - 1 \<Longrightarrow> x < x + (1 :: 'a::len word)"
  by (simp add: word_less_nat_alt unat_Suc_word)

lemma word_less_Suc_iff: "y \<noteq> - 1 \<Longrightarrow> (x < y + 1) = (x \<le> (y :: 'a::len word))"
  by (simp add: word_less_nat_alt word_le_nat_alt unat_Suc_word less_Suc_eq_le)

lemma unat_saturating_add:
  "unat (saturating_add a b) = min (unat a + unat b) (2 ^ LENGTH('a) - 1)"
  for a b :: "'a::len word"
  by (auto simp: saturating_add_def unat_word_ariths unat_max_word min_def)

lemma unat_saturating_mul:
  "unat (saturating_mul a b) = min (unat a * unat b) (2 ^ LENGTH('a) - 1)"
  for a b :: "'a::len word"
proof (cases "unat a * unat b < 2 ^ LENGTH('a)")
  case True
  then show ?thesis by (simp add: saturating_mul_def unat_word_ariths)
next
  case False
  then have "2 ^ LENGTH('a) - 1 \<le> unat a * unat b" by linarith
  with False show ?thesis by (simp add: saturating_mul_def unat_max_word)
qed

text \<open>Evaluation compares the sums as binary integers.\<close>

lemma saturating_add_code [code]:
  "saturating_add a b = (if uint a + uint b < 2 ^ LENGTH('a) then a + b else - 1)"
  for a b :: "'a::len word"
proof -
  have "unat a + unat b < 2 ^ LENGTH('a) \<longleftrightarrow> int (unat a + unat b) < int (2 ^ LENGTH('a))"
    by (simp only: of_nat_less_iff)
  then show ?thesis by (simp add: saturating_add_def of_nat_unat)
qed

lemma saturating_mul_code [code]:
  "saturating_mul a b = (if uint a * uint b < 2 ^ LENGTH('a) then a * b else - 1)"
  for a b :: "'a::len word"
proof -
  have "unat a * unat b < 2 ^ LENGTH('a) \<longleftrightarrow> int (unat a * unat b) < int (2 ^ LENGTH('a))"
    by (simp only: of_nat_less_iff)
  then show ?thesis by (simp add: saturating_mul_def of_nat_unat)
qed

lemma saturating_add_one:
  "saturating_add x 1 = (if x = - 1 then - 1 else x + (1 :: 'a::len word))"
  using unat_cases [of x] by (auto simp: saturating_add_def eq_max_word_iff)

lemma saturating_add_ge: "x \<le> saturating_add x (y :: 'a::len word)"
  using unat_cases [of x] by (auto simp: word_le_nat_alt unat_saturating_add)

lemma saturating_add_one_gt: "x \<noteq> - 1 \<Longrightarrow> x < saturating_add x (1 :: 'a::len word)"
  by (simp add: saturating_add_one word_Suc_greater)

lemma unat_saturating_sub: "unat (saturating_sub a b) = unat a - unat b"
  for a b :: "'a::len word"
  by (auto simp: saturating_sub_def word_le_nat_alt unat_sub not_le)

section \<open>Strings\<close>

type_synonym uchar = nat
type_synonym ustring = "uchar list"

text \<open>A string literal of the source.\<close>

definition lit :: "string \<Rightarrow> ustring" where
  "lit s = map of_char s"

text \<open>\<open>char::is_control\<close>: the general category Cc.\<close>

definition is_control :: "uchar \<Rightarrow> bool" where
  "is_control c \<longleftrightarrow> c < 32 \<or> (127 \<le> c \<and> c < 160)"

text \<open>\<open>char::is_whitespace\<close>: the property \<open>White_Space\<close>, which \<open>str::trim\<close> strips.\<close>

definition is_whitespace :: "uchar \<Rightarrow> bool" where
  "is_whitespace c \<longleftrightarrow> (9 \<le> c \<and> c \<le> 13) \<or> c = 32 \<or> c = 133 \<or> c = 160 \<or> c = 5760 \<or>
     (8192 \<le> c \<and> c \<le> 8202) \<or> c = 8232 \<or> c = 8233 \<or> c = 8239 \<or> c = 8287 \<or> c = 12288"

definition trim_start :: "ustring \<Rightarrow> ustring" where
  "trim_start s = dropWhile is_whitespace s"

definition trim_end :: "ustring \<Rightarrow> ustring" where
  "trim_end s = rev (dropWhile is_whitespace (rev s))"

definition trim :: "ustring \<Rightarrow> ustring" where
  "trim s = trim_end (trim_start s)"

definition ascii_lower :: "uchar \<Rightarrow> uchar" where
  "ascii_lower c = (if 65 \<le> c \<and> c \<le> 90 then c + 32 else c)"

definition ascii_upper :: "uchar \<Rightarrow> uchar" where
  "ascii_upper c = (if 97 \<le> c \<and> c \<le> 122 then c - 32 else c)"

definition to_ascii_lowercase :: "ustring \<Rightarrow> ustring" where
  "to_ascii_lowercase s = map ascii_lower s"

text \<open>The number of bytes a scalar value takes in UTF-8, and \<open>str::len\<close>.\<close>

definition utf8_width :: "uchar \<Rightarrow> nat" where
  "utf8_width c = (if c < 128 then 1 else if c < 2048 then 2 else if c < 65536 then 3 else 4)"

definition utf8_len :: "ustring \<Rightarrow> nat" where
  "utf8_len s = sum_list (map utf8_width s)"

text \<open>\<open>Display\<close> of the unsigned integers.\<close>

fun show_nat :: "nat \<Rightarrow> ustring" where
  "show_nat n = (if n < 10 then [48 + n] else show_nat (n div 10) @ [48 + n mod 10])"

declare show_nat.simps [simp del]

definition show_word :: "'a::len word \<Rightarrow> ustring" where
  "show_word w = show_nat (unat w)"

text \<open>\<open>str::split\<close> on the scalar values that satisfy a predicate: one more part than
  there are separators.\<close>

fun split_on :: "(uchar \<Rightarrow> bool) \<Rightarrow> ustring \<Rightarrow> ustring list" where
  "split_on p [] = [[]]"
| "split_on p (c # cs) =
     (if p c then [] # split_on p cs
      else (case split_on p cs of [] \<Rightarrow> [[c]] | part # parts \<Rightarrow> (c # part) # parts))"

lemma split_on_nonempty [simp]: "split_on p s \<noteq> []"
  by (cases s) (auto split: list.split)

lemma split_on_pure: "part \<in> set (split_on p s) \<Longrightarrow> c \<in> set part \<Longrightarrow> \<not> p c"
proof (induction s arbitrary: part)
  case Nil
  then show ?case by simp
next
  case (Cons a s)
  obtain q qs where "split_on p s = q # qs"
    by (cases "split_on p s") auto
  with Cons show ?case by (fastforce split: if_splits)
qed

lemma ascii_lower_idem [simp]: "ascii_lower (ascii_lower c) = ascii_lower c"
  by (simp add: ascii_lower_def)

lemma to_ascii_lowercase_idem [simp]:
  "to_ascii_lowercase (to_ascii_lowercase s) = to_ascii_lowercase s"
  by (simp add: to_ascii_lowercase_def)

lemma set_trim: "set (trim s) \<subseteq> set s"
  by (auto simp: trim_def trim_end_def trim_start_def dest!: set_dropWhileD)

lemma length_le_utf8_len: "length s \<le> utf8_len s"
  by (induction s) (auto simp: utf8_len_def utf8_width_def)

section \<open>Errors\<close>

text \<open>
  A fallible function returns \<open>Inl\<close> of the message that \<open>anyhow\<close>'s \<open>bail!\<close> or
  \<open>context\<close> gives it, or \<open>Inr\<close> of its value.
\<close>

type_synonym 'a result = "ustring + 'a"

definition is_ok :: "'e + 'a \<Rightarrow> bool" where
  "is_ok r = (case r of Inl _ \<Rightarrow> False | Inr _ \<Rightarrow> True)"

definition and_then :: "'e + 'a \<Rightarrow> ('a \<Rightarrow> 'e + 'b) \<Rightarrow> 'e + 'b" where
  "and_then r f = (case r of Inl e \<Rightarrow> Inl e | Inr x \<Rightarrow> f x)"

definition ok_or :: "'a option \<Rightarrow> 'e \<Rightarrow> 'e + 'a" where
  "ok_or x e = (case x of None \<Rightarrow> Inl e | Some v \<Rightarrow> Inr v)"

lemma is_ok_simps [simp]: "is_ok (Inr x)" "\<not> is_ok (Inl e)"
  by (simp_all add: is_ok_def)

lemma and_then_simps [simp]: "and_then (Inl e) f = Inl e" "and_then (Inr x) f = f x"
  by (simp_all add: and_then_def)

lemma and_then_eq_Inr: "and_then r f = Inr y \<longleftrightarrow> (\<exists>x. r = Inr x \<and> f x = Inr y)"
  by (cases r) auto

lemma ok_or_simps [simp]: "ok_or None e = Inl e" "ok_or (Some v) e = Inr v"
  by (simp_all add: ok_or_def)

lemma ok_or_eq_Inr [simp]: "ok_or x e = Inr v \<longleftrightarrow> x = Some v"
  by (cases x) auto

section \<open>Lists\<close>

text \<open>\<open>Option::or_else\<close>.\<close>

definition or_else :: "'a option \<Rightarrow> 'a option \<Rightarrow> 'a option" where
  "or_else a b = (case a of None \<Rightarrow> b | Some v \<Rightarrow> Some v)"

lemma or_else_simps [simp]: "or_else None b = b" "or_else (Some v) b = Some v"
  by (simp_all add: or_else_def)

definition unwrap_or :: "'a \<Rightarrow> 'a option \<Rightarrow> 'a" where
  "unwrap_or d x = (case x of None \<Rightarrow> d | Some v \<Rightarrow> v)"

lemma unwrap_or_simps [simp]: "unwrap_or d None = d" "unwrap_or d (Some v) = v"
  by (simp_all add: unwrap_or_def)

text \<open>\<open>drain(..len.saturating_sub(n))\<close>: keep the newest \<open>n\<close> elements of a history.\<close>

definition keep_last :: "nat \<Rightarrow> 'a list \<Rightarrow> 'a list" where
  "keep_last n xs = drop (length xs - n) xs"

lemma length_keep_last [simp]: "length (keep_last n xs) = min n (length xs)"
  by (auto simp: keep_last_def)

lemma keep_last_id: "length xs \<le> n \<Longrightarrow> keep_last n xs = xs"
  by (simp add: keep_last_def)

lemma set_keep_last: "set (keep_last n xs) \<subseteq> set xs"
  by (simp add: keep_last_def set_drop_subset)

lemma keep_last_snoc: "0 < n \<Longrightarrow> \<exists>ys. keep_last n (xs @ [x]) = ys @ [x]"
  by (auto simp: keep_last_def Suc_diff_le)

lemma sorted_wrt_keep_last: "sorted_wrt P xs \<Longrightarrow> sorted_wrt P (keep_last n xs)"
  by (simp add: keep_last_def sorted_wrt_drop)

lemma in_set_keep_lastD: "x \<in> set (keep_last n xs) \<Longrightarrow> x \<in> set xs"
  using set_keep_last [of n xs] by blast

lemma sorted_map_keep_last:
  "sorted_wrt P (map f xs) \<Longrightarrow> sorted_wrt P (map f (keep_last n xs))"
  by (simp add: keep_last_def sorted_wrt_drop flip: drop_map)

lemma distinct_map_keep_last: "distinct (map f xs) \<Longrightarrow> distinct (map f (keep_last n xs))"
  by (simp add: keep_last_def drop_map [symmetric])

lemma fold_min_in: "fold min ks k \<in> set (k # ks)"
proof (induction ks arbitrary: k)
  case Nil
  then show ?case by simp
next
  case (Cons x ks)
  from Cons [of "min x k"] show ?case by (auto simp: min_def)
qed

lemma fold_min_le: "x \<in> set (k # ks) \<Longrightarrow> fold min ks k \<le> (x :: 'a::linorder)"
proof (induction ks arbitrary: k x)
  case Nil
  then show ?case by simp
next
  case (Cons y ks)
  have "fold min ks (min y k) \<le> min y k" by (rule Cons.IH) simp
  with Cons.prems Cons.IH [of x "min y k"] show ?case by auto
qed

section \<open>Reachable states\<close>

text \<open>
  The states a step relation reaches from a start state. A component that keeps an
  invariant interprets \<open>kept_invariant\<close> on its own start state, its own steps and its own
  invariant, and every reachable state then satisfies it.
\<close>

inductive reach :: "('s \<Rightarrow> 's \<Rightarrow> bool) \<Rightarrow> 's \<Rightarrow> 's \<Rightarrow> bool" for step s0 where
  reach_start: "reach step s0 s0"
| reach_step: "reach step s0 s \<Longrightarrow> step s t \<Longrightarrow> reach step s0 t"

locale kept_invariant =
  fixes start :: 's
    and step :: "'s \<Rightarrow> 's \<Rightarrow> bool"
    and holds :: "'s \<Rightarrow> bool"
  assumes start_holds: "holds start"
    and step_holds: "holds s \<Longrightarrow> step s t \<Longrightarrow> holds t"
begin

lemma reachable_holds: "reach step start s \<Longrightarrow> holds s"
  by (induction rule: reach.induct) (auto intro: start_holds step_holds)

lemma reachable_step_holds: "reach step start s \<Longrightarrow> step s t \<Longrightarrow> holds s \<and> holds t"
  by (auto intro: reachable_holds step_holds)

end

section \<open>Persisted stores\<close>

text \<open>
  A component that writes its state to disk promises that a state it can hold is read back
  unchanged, and that whatever a file decodes to is such a state.
\<close>

locale persisted_store =
  fixes persist :: "'s \<Rightarrow> 'p"
    and restore :: "'p \<Rightarrow> 's result"
    and storable :: "'s \<Rightarrow> bool"
  assumes restore_persist: "storable s \<Longrightarrow> restore (persist s) = Inr s"
    and restored_storable: "restore p = Inr s \<Longrightarrow> storable s"
begin

lemma restore_stable: "restore p = Inr s \<Longrightarrow> restore (persist s) = Inr s"
  by (rule restore_persist) (rule restored_storable)

lemma persist_inj: "storable s \<Longrightarrow> storable t \<Longrightarrow> persist s = persist t \<Longrightarrow> s = t"
  by (metis restore_persist sum.inject(2))

lemma restorable_iff: "storable s \<longleftrightarrow> (\<exists>p. restore p = Inr s)"
  by (metis restore_persist restored_storable)

end

end
