(* ===== verification/Ordered_Map.thy ===== *)
theory Ordered_Map
  imports Prelude
begin

text \<open>
  The ordered containers of the Rust standard library. A \<open>BTreeMap\<close> is the list of its
  entries in strictly ascending key order (\<open>btmap\<close>), so that iteration order, which the
  daemon's effects expose, is part of the model; a \<open>BTreeSet\<close> is a map to \<open>unit\<close>. The
  interface the components rely on is the locale \<open>ordered_map\<close>, interpreted on \<open>btmap\<close>.
\<close>

section \<open>Ascending association lists\<close>

fun al_insert :: "'k::linorder \<Rightarrow> 'v \<Rightarrow> ('k \<times> 'v) list \<Rightarrow> ('k \<times> 'v) list" where
  "al_insert k v [] = [(k, v)]"
| "al_insert k v (e # es) =
     (if k < fst e then (k, v) # e # es
      else if fst e < k then e # al_insert k v es
      else (k, v) # es)"

lemma set_keys_al_insert: "fst ` set (al_insert k v es) = insert k (fst ` set es)"
  by (induction es) auto

lemma sorted_al_insert:
  "sorted_wrt (<) (map fst es) \<Longrightarrow> sorted_wrt (<) (map fst (al_insert k v es))"
proof (induction es)
  case Nil
  then show ?case by simp
next
  case (Cons e es)
  have "set (map fst (al_insert k v es)) = insert k (set (map fst es))"
    using set_keys_al_insert [of k v es] by simp
  with Cons show ?case by (auto simp: not_less)
qed

lemma map_of_al_insert:
  "sorted_wrt (<) (map fst es) \<Longrightarrow>
   map_of (al_insert k v es) k' = (if k' = k then Some v else map_of es k')"
  by (induction es) (auto simp: not_less)

lemma map_of_sorted_filter:
  "sorted_wrt (<) (map fst es) \<Longrightarrow>
   map_of (filter (\<lambda>e. P (fst e) (snd e)) es) k =
     (case map_of es k of Some v \<Rightarrow> if P k v then Some v else None | None \<Rightarrow> None)"
  for es :: "('k::linorder \<times> 'v) list"
proof (induction es)
  case Nil
  then show ?case by simp
next
  case (Cons e es)
  have "map_of es (fst e) = None"
    using Cons.prems by (force simp: map_of_eq_None_iff)
  then have "map_of (filter (\<lambda>e. P (fst e) (snd e)) es) (fst e) = None"
    by (auto simp: map_of_eq_None_iff)
  with Cons show ?case by (cases e) (auto split: option.splits)
qed

lemma map_of_map_snd: "map_of (map (\<lambda>e. (fst e, f (fst e) (snd e))) es) k = map_option (f k) (map_of es k)"
  by (induction es) auto

lemma sorted_map_ext:
  fixes xs ys :: "('k::linorder \<times> 'v) list"
  assumes "sorted_wrt (<) (map fst xs)" "sorted_wrt (<) (map fst ys)" "map_of xs = map_of ys"
  shows "xs = ys"
proof -
  have dx: "distinct (map fst xs)" and dy: "distinct (map fst ys)"
    using assms(1,2) by (auto simp: strict_sorted_iff)
  have "set xs = set ys"
    using map_of_inject_set [OF dx dy] assms(3) by simp
  then have keys: "map fst xs = map fst ys"
    using assms(1,2) by (metis set_map strict_sorted_equal)
  show ?thesis
  proof (rule nth_equalityI)
    show "length xs = length ys" using keys by (metis length_map)
    fix i assume i: "i < length xs"
    with keys have fst: "fst (xs ! i) = fst (ys ! i)" and j: "i < length ys"
      by (metis nth_map length_map)+
    have "map_of xs (fst (xs ! i)) = Some (snd (xs ! i))"
      by (rule map_of_is_SomeI [OF dx]) (simp add: i)
    moreover have "map_of ys (fst (ys ! i)) = Some (snd (ys ! i))"
      by (rule map_of_is_SomeI [OF dy]) (simp add: j)
    ultimately have "snd (xs ! i) = snd (ys ! i)" using fst assms(3) by simp
    with fst show "xs ! i = ys ! i" by (rule prod_eqI)
  qed
qed

section \<open>BTreeMap\<close>

typedef (overloaded) ('k::linorder, 'v) btmap =
  "{es :: ('k \<times> 'v) list. sorted_wrt (<) (map fst es)}"
  morphisms bt_entries BTMap
  by (rule exI [of _ "[]"]) simp

setup_lifting type_definition_btmap

lift_definition bt_empty :: "('k::linorder, 'v) btmap" is "[]"
  by simp

lift_definition bt_get :: "('k::linorder, 'v) btmap \<Rightarrow> 'k \<Rightarrow> 'v option" is map_of .

lift_definition bt_insert :: "'k::linorder \<Rightarrow> 'v \<Rightarrow> ('k, 'v) btmap \<Rightarrow> ('k, 'v) btmap"
  is al_insert by (rule sorted_al_insert)

lift_definition bt_retain :: "('k::linorder \<Rightarrow> 'v \<Rightarrow> bool) \<Rightarrow> ('k, 'v) btmap \<Rightarrow> ('k, 'v) btmap"
  is "\<lambda>P es. filter (\<lambda>e. P (fst e) (snd e)) es"
  by (simp add: sorted_wrt_map sorted_wrt_filter)

lift_definition bt_update :: "('k::linorder \<Rightarrow> 'v \<Rightarrow> 'w) \<Rightarrow> ('k, 'v) btmap \<Rightarrow> ('k, 'w) btmap"
  is "\<lambda>f es. map (\<lambda>e. (fst e, f (fst e) (snd e))) es"
  by (simp add: comp_def)

text \<open>\<open>remove\<close>, \<open>keys\<close>, \<open>values\<close>, \<open>len\<close>, \<open>contains_key\<close>; \<open>get_mut\<close> with an update of the
  value it finds; and \<open>collect\<close>, which keeps the last value of a repeated key.\<close>

definition bt_remove :: "'k::linorder \<Rightarrow> ('k, 'v) btmap \<Rightarrow> ('k, 'v) btmap" where
  "bt_remove k m = bt_retain (\<lambda>k' _. k' \<noteq> k) m"

definition bt_keys :: "('k::linorder, 'v) btmap \<Rightarrow> 'k list" where
  "bt_keys m = map fst (bt_entries m)"

definition bt_values :: "('k::linorder, 'v) btmap \<Rightarrow> 'v list" where
  "bt_values m = map snd (bt_entries m)"

definition bt_len :: "('k::linorder, 'v) btmap \<Rightarrow> nat" where
  "bt_len m = length (bt_entries m)"

definition bt_contains :: "'k::linorder \<Rightarrow> ('k, 'v) btmap \<Rightarrow> bool" where
  "bt_contains k m \<longleftrightarrow> bt_get m k \<noteq> None"

definition bt_adjust :: "'k::linorder \<Rightarrow> ('v \<Rightarrow> 'v) \<Rightarrow> ('k, 'v) btmap \<Rightarrow> ('k, 'v) btmap" where
  "bt_adjust k f m = bt_update (\<lambda>k' v. if k' = k then f v else v) m"

definition bt_collect :: "('k::linorder \<times> 'v) list \<Rightarrow> ('k, 'v) btmap" where
  "bt_collect es = fold (\<lambda>e m. bt_insert (fst e) (snd e) m) es bt_empty"

lemma bt_get_empty [simp]: "bt_get bt_empty k = None"
  by transfer simp

lemma bt_get_insert [simp]: "bt_get (bt_insert k v m) k' = (if k' = k then Some v else bt_get m k')"
  by transfer (rule map_of_al_insert)

lemma bt_get_retain [simp]:
  "bt_get (bt_retain P m) k =
     (case bt_get m k of Some v \<Rightarrow> if P k v then Some v else None | None \<Rightarrow> None)"
  by transfer (rule map_of_sorted_filter)

lemma bt_get_retain_Some:
  "bt_get (bt_retain P m) k = Some v \<longleftrightarrow> bt_get m k = Some v \<and> P k v"
  by (auto split: option.splits if_splits)

lemma bt_get_update [simp]: "bt_get (bt_update f m) k = map_option (f k) (bt_get m k)"
  by transfer (rule map_of_map_snd)

lemma bt_get_remove [simp]: "bt_get (bt_remove k m) k' = (if k' = k then None else bt_get m k')"
  by (auto simp: bt_remove_def split: option.split)

lemma bt_get_adjust [simp]:
  "bt_get (bt_adjust k f m) k' = (if k' = k then map_option f (bt_get m k) else bt_get m k')"
  by (cases "bt_get m k'") (auto simp: bt_adjust_def)

lemma bt_ext: "(\<And>k. bt_get m k = bt_get m' k) \<Longrightarrow> m = m'"
  by transfer (blast intro: sorted_map_ext)

lemma bt_keys_sorted: "sorted_wrt (<) (bt_keys m)"
  unfolding bt_keys_def by transfer simp

lemma bt_keys_distinct [simp]: "distinct (bt_keys m)"
  using bt_keys_sorted [of m] by (simp add: strict_sorted_iff)

lemma bt_entries_get: "(k, v) \<in> set (bt_entries m) \<longleftrightarrow> bt_get m k = Some v"
proof -
  have "distinct (map fst (bt_entries m))"
    using bt_keys_distinct [of m] by (simp add: bt_keys_def)
  then show ?thesis by (simp add: bt_get.rep_eq)
qed

lemma set_bt_keys: "set (bt_keys m) = {k. bt_get m k \<noteq> None}"
  by (force simp: bt_keys_def bt_entries_get [symmetric] image_iff)

lemma set_bt_values: "set (bt_values m) = {v. \<exists>k. bt_get m k = Some v}"
  by (force simp: bt_values_def bt_entries_get [symmetric] image_iff)

lemma ball_bt_values: "(\<forall>v \<in> set (bt_values m). P v) \<longleftrightarrow> (\<forall>k v. bt_get m k = Some v \<longrightarrow> P v)"
  by (auto simp: set_bt_values)

lemma bt_keys_iff: "k \<in> set (bt_keys m) \<longleftrightarrow> (\<exists>v. bt_get m k = Some v)"
  by (auto simp: set_bt_keys)

lemma bt_contains_iff [simp]: "bt_contains k m \<longleftrightarrow> (\<exists>v. bt_get m k = Some v)"
  by (auto simp: bt_contains_def)

lemma bt_len_card: "bt_len m = card {k. bt_get m k \<noteq> None}"
proof -
  have "bt_len m = length (bt_keys m)" by (simp add: bt_len_def bt_keys_def)
  also have "\<dots> = card (set (bt_keys m))"
    by (simp add: distinct_card)
  finally show ?thesis by (simp add: set_bt_keys)
qed

lemma finite_bt_dom [simp]: "finite {k. \<exists>v. bt_get m k = Some v}"
  using List.finite_set [of "bt_keys m"] by (simp add: set_bt_keys)

lemma bt_len_insert:
  "bt_len (bt_insert k v m) = (if bt_get m k = None then Suc (bt_len m) else bt_len m)"
proof -
  have "{k'. bt_get (bt_insert k v m) k' \<noteq> None} = insert k {k'. bt_get m k' \<noteq> None}"
    by auto
  then show ?thesis by (auto simp: bt_len_card card_insert_if)
qed

lemma bt_len_remove:
  "bt_len (bt_remove k m) = (if bt_get m k = None then bt_len m else bt_len m - 1)"
proof -
  have "{k'. bt_get (bt_remove k m) k' \<noteq> None} = {k'. bt_get m k' \<noteq> None} - {k}"
    by auto
  then show ?thesis by (auto simp: bt_len_card card_Diff_singleton)
qed

lemma bt_len_retain: "bt_len (bt_retain P m) \<le> bt_len m"
  by (simp add: bt_len_def bt_retain.rep_eq)

lemma bt_len_update [simp]: "bt_len (bt_update f m) = bt_len m"
  by (simp add: bt_len_def bt_update.rep_eq)

lemma bt_len_adjust [simp]: "bt_len (bt_adjust k f m) = bt_len m"
  by (simp add: bt_adjust_def)

lemma bt_len_empty [simp]: "bt_len bt_empty = 0"
  by (simp add: bt_len_def bt_empty.rep_eq)

lemma bt_keys_empty [simp]: "bt_keys bt_empty = []"
  by (simp add: bt_keys_def bt_empty.rep_eq)

lemma bt_entries_empty [simp]: "bt_entries bt_empty = []"
  by (simp add: bt_empty.rep_eq)

lemma bt_keys_eq_Nil: "bt_keys m = [] \<longleftrightarrow> m = bt_empty"
proof
  assume "bt_keys m = []"
  then have "{k. bt_get m k \<noteq> None} = {}" using set_bt_keys [of m] by simp
  then show "m = bt_empty" by (intro bt_ext) auto
qed simp

instantiation btmap :: (linorder, equal) equal
begin

definition equal_btmap :: "('a, 'b) btmap \<Rightarrow> ('a, 'b) btmap \<Rightarrow> bool" where
  "equal_btmap m m' \<longleftrightarrow> bt_entries m = bt_entries m'"

instance
  by standard (simp add: equal_btmap_def bt_entries_inject)

end

section \<open>The interface\<close>

text \<open>
  What the components rely on. The client lemmas speak of folds of insertions, which is
  how every persisted or received sequence of records becomes a map again.
\<close>

locale ordered_map =
  fixes empty :: 'm
    and get :: "'m \<Rightarrow> 'k::linorder \<Rightarrow> 'v option"
    and ins :: "'k \<Rightarrow> 'v \<Rightarrow> 'm \<Rightarrow> 'm"
    and del :: "'k \<Rightarrow> 'm \<Rightarrow> 'm"
    and entries :: "'m \<Rightarrow> ('k \<times> 'v) list"
  assumes get_empty: "get empty k = None"
    and get_ins: "get (ins k v m) k' = (if k' = k then Some v else get m k')"
    and get_del: "get (del k m) k' = (if k' = k then None else get m k')"
    and entries_sorted: "sorted_wrt (<) (map fst (entries m))"
    and get_entries: "get m = map_of (entries m)"
    and get_ext: "get m = get m' \<Longrightarrow> m = m'"
begin

lemma get_fold_ins:
  "get (fold (\<lambda>e m. ins (fst e) (snd e) m) es m) k =
     (case map_of (rev es) k of None \<Rightarrow> get m k | Some v \<Rightarrow> Some v)"
proof (induction es arbitrary: m)
  case Nil
  then show ?case by simp
next
  case (Cons e es)
  then show ?case
    by (cases e) (auto simp: get_ins map_of_append map_add_def split: option.splits)
qed

lemma rebuild: "fold (\<lambda>e m. ins (fst e) (snd e) m) (entries m) empty = m"
proof (rule get_ext, rule ext)
  fix k
  have "distinct (map fst (entries m))"
    using entries_sorted [of m] by (simp add: strict_sorted_iff)
  then have "map_of (rev (entries m)) = map_of (entries m)"
    using map_of_inject_set [of "rev (entries m)" "entries m"] by (simp flip: rev_map)
  then show "get (fold (\<lambda>e m. ins (fst e) (snd e) m) (entries m) empty) k = get m k"
    using get_fold_ins [of "entries m" empty k] get_entries [of m]
    by (simp add: get_empty split: option.splits)
qed

lemma ins_ins: "ins k v (ins k w m) = ins k v m"
  by (rule get_ext) (auto simp: get_ins)

lemma ins_commute: "k \<noteq> l \<Longrightarrow> ins k v (ins l w m) = ins l w (ins k v m)"
  by (rule get_ext) (auto simp: get_ins)

lemma del_ins: "del k (ins k v m) = del k m"
  by (rule get_ext) (auto simp: get_ins get_del)

end

interpretation bt: ordered_map bt_empty bt_get bt_insert bt_remove bt_entries
proof unfold_locales
  fix m m' :: "('a, 'b) btmap"
  assume "bt_get m = bt_get m'"
  then show "m = m'" by (auto intro: bt_ext)
next
  show "sorted_wrt (<) (map fst (bt_entries m))" for m :: "('a, 'b) btmap"
    using bt_keys_sorted [of m] by (simp add: bt_keys_def)
next
  show "bt_get m = map_of (bt_entries m)" for m :: "('a, 'b) btmap"
    by (rule bt_get.rep_eq)
qed simp_all

lemma bt_get_collect: "bt_get (bt_collect es) k = map_of (rev es) k"
  by (simp add: bt_collect_def bt.get_fold_ins split: option.split)

lemma bt_collect_entries [simp]: "bt_collect (bt_entries m) = m"
  by (simp add: bt_collect_def bt.rebuild)

lemma map_of_rev_entries [simp]: "map_of (rev (bt_entries m)) = bt_get m"
  using bt_get_collect [of "bt_entries m"] by (intro ext) simp

lemma bt_len_collect: "bt_len (bt_collect es) \<le> length es"
proof -
  have "{k. bt_get (bt_collect es) k \<noteq> None} = set (map fst es)"
    by (auto simp: bt_get_collect map_of_eq_None_iff simp flip: not_None_eq)
  then show ?thesis by (simp add: bt_len_card) (metis card_length length_map set_map)
qed

text \<open>Insertion of a sequence of records that refuses a repeated key.\<close>

fun collect_distinct ::
    "ustring \<Rightarrow> ('k::linorder \<times> 'v) list \<Rightarrow> ('k, 'v) btmap \<Rightarrow> ('k, 'v) btmap result" where
  "collect_distinct message [] m = Inr m"
| "collect_distinct message (e # es) m =
     (if bt_contains (fst e) m then Inl message
      else collect_distinct message es (bt_insert (fst e) (snd e) m))"

lemma collect_distinct_eq:
  "collect_distinct message es m =
     (if distinct (map fst es) \<and> (\<forall>e \<in> set es. bt_get m (fst e) = None)
      then Inr (fold (\<lambda>e. bt_insert (fst e) (snd e)) es m) else Inl message)"
  by (induction es arbitrary: m) (force split: if_splits)+

lemma collect_distinct_entries: "collect_distinct message (bt_entries m) bt_empty = Inr m"
  using bt_keys_distinct [of m] by (simp add: collect_distinct_eq bt.rebuild bt_keys_def)

section \<open>BTreeSet\<close>

type_synonym 'a btset = "('a, unit) btmap"

definition bs_mem :: "'a::linorder \<Rightarrow> 'a btset \<Rightarrow> bool" where
  "bs_mem x s \<longleftrightarrow> bt_get s x \<noteq> None"

definition bs_insert :: "'a::linorder \<Rightarrow> 'a btset \<Rightarrow> 'a btset" where
  "bs_insert x s = bt_insert x () s"

definition bs_remove :: "'a::linorder \<Rightarrow> 'a btset \<Rightarrow> 'a btset" where
  "bs_remove x s = bt_remove x s"

definition bs_collect :: "'a::linorder list \<Rightarrow> 'a btset" where
  "bs_collect xs = bt_collect (map (\<lambda>x. (x, ())) xs)"

lemma bs_mem_insert [simp]: "bs_mem x (bs_insert y s) \<longleftrightarrow> x = y \<or> bs_mem x s"
  by (simp add: bs_mem_def bs_insert_def)

lemma bs_mem_remove [simp]: "bs_mem x (bs_remove y s) \<longleftrightarrow> x \<noteq> y \<and> bs_mem x s"
  by (simp add: bs_mem_def bs_remove_def)

lemma bs_mem_empty [simp]: "\<not> bs_mem x bt_empty"
  by (simp add: bs_mem_def)

lemma bs_mem_keys: "bs_mem x s \<longleftrightarrow> x \<in> set (bt_keys s)"
  by (simp add: bs_mem_def set_bt_keys)

lemma bs_mem_collect [simp]: "bs_mem x (bs_collect xs) \<longleftrightarrow> x \<in> set xs"
  by (simp add: bs_mem_def bs_collect_def bt_get_collect map_of_eq_None_iff image_image
      del: not_None_eq)

end
