(* ===== verification/Model_Ids.thy ===== *)
theory Model_Ids
  imports Ordered_Map
begin

text \<open>
  Qualified identities, \<open>src/src/model.rs\<close>. A Herdr identifier is only unique inside one
  session, so every identity carries target, session and server-local resource. The
  resource kind is a phantom type parameter, as in the source, so that a pane identity and
  a tab identity cannot be confused.
\<close>

section \<open>Target sessions\<close>

datatype target_session = TargetSession (ts_target: ustring) (ts_session: ustring)

definition ts_key :: "target_session \<Rightarrow> ustring \<times> ustring" where
  "ts_key t = (ts_target t, ts_session t)"

lemma ts_key_inject [simp]: "ts_key t = ts_key t' \<longleftrightarrow> t = t'"
  by (cases t; cases t') (simp add: ts_key_def)

instantiation target_session :: linorder
begin

definition less_eq_target_session :: "target_session \<Rightarrow> target_session \<Rightarrow> bool" where
  "less_eq_target_session t t' \<longleftrightarrow> ts_key t \<le> ts_key t'"

definition less_target_session :: "target_session \<Rightarrow> target_session \<Rightarrow> bool" where
  "less_target_session t t' \<longleftrightarrow> ts_key t < ts_key t'"

instance
proof
  fix x y z :: target_session
  show "(x < y) = (x \<le> y \<and> \<not> y \<le> x)"
    by (simp only: less_eq_target_session_def less_target_session_def less_le_not_le)
  show "x \<le> x" by (simp add: less_eq_target_session_def)
  show "x \<le> z" if "x \<le> y" "y \<le> z"
    using that by (auto simp: less_eq_target_session_def)
  show "x = y" if "x \<le> y" "y \<le> x"
    using that by (auto simp: less_eq_target_session_def dest: order_antisym)
  show "x \<le> y \<or> y \<le> x" by (auto simp: less_eq_target_session_def)
qed

end

definition show_target_session :: "target_session \<Rightarrow> ustring" where
  "show_target_session t = ts_target t @ lit ''/'' @ ts_session t"

section \<open>Qualified identities\<close>

typedecl workspace_kind
typedecl tab_kind
typedecl pane_kind
typedecl agent_kind
typedecl terminal_kind

datatype 'r qualified_id =
  QualifiedId (qid_target: ustring) (qid_session: ustring) (qid_resource: ustring)

type_synonym workspace_id = "workspace_kind qualified_id"
type_synonym tab_id = "tab_kind qualified_id"
type_synonym pane_id = "pane_kind qualified_id"
type_synonym agent_id = "agent_kind qualified_id"
type_synonym terminal_id = "terminal_kind qualified_id"

definition qid_key :: "'r qualified_id \<Rightarrow> ustring \<times> ustring \<times> ustring" where
  "qid_key q = (qid_target q, qid_session q, qid_resource q)"

lemma qid_key_inject [simp]: "qid_key q = qid_key q' \<longleftrightarrow> q = q'"
  by (cases q; cases q') (simp add: qid_key_def)

instantiation qualified_id :: (type) linorder
begin

definition less_eq_qualified_id :: "'a qualified_id \<Rightarrow> 'a qualified_id \<Rightarrow> bool" where
  "less_eq_qualified_id q q' \<longleftrightarrow> qid_key q \<le> qid_key q'"

definition less_qualified_id :: "'a qualified_id \<Rightarrow> 'a qualified_id \<Rightarrow> bool" where
  "less_qualified_id q q' \<longleftrightarrow> qid_key q < qid_key q'"

instance
proof
  fix x y z :: "'a qualified_id"
  show "(x < y) = (x \<le> y \<and> \<not> y \<le> x)"
    by (simp only: less_eq_qualified_id_def less_qualified_id_def less_le_not_le)
  show "x \<le> x" by (simp add: less_eq_qualified_id_def)
  show "x \<le> z" if "x \<le> y" "y \<le> z"
    using that by (auto simp: less_eq_qualified_id_def)
  show "x = y" if "x \<le> y" "y \<le> x"
    using that by (auto simp: less_eq_qualified_id_def dest: order_antisym)
  show "x \<le> y \<or> y \<le> x" by (auto simp: less_eq_qualified_id_def)
qed

end

definition qid_target_session :: "'r qualified_id \<Rightarrow> target_session" where
  "qid_target_session q = TargetSession (qid_target q) (qid_session q)"

definition server_local_id :: "'r qualified_id \<Rightarrow> ustring" where
  "server_local_id q = qid_resource q"

definition show_qualified_id :: "'r qualified_id \<Rightarrow> ustring" where
  "show_qualified_id q = qid_target q @ lit ''/'' @ qid_session q @ lit ''/'' @ qid_resource q"

text \<open>
  Routing splits an identity into the session that answers and the identifier it is asked
  for; together they determine the identity, so no two resources of the federation are
  confused.
\<close>

lemma qualified_id_split:
  "qid_target_session q = qid_target_session q' \<Longrightarrow> server_local_id q = server_local_id q' \<Longrightarrow>
   q = q'"
  by (cases q; cases q') (simp add: qid_target_session_def server_local_id_def)

lemma qid_target_session_simps [simp]:
  "qid_target_session (QualifiedId t s r) = TargetSession t s"
  "server_local_id (QualifiedId t s r) = r"
  by (simp_all add: qid_target_session_def server_local_id_def)

end
