(* ===== verification/Screen.thy ===== *)
theory Screen
  imports Model_Ids
begin

text \<open>
  Rendered terminal screens, \<open>src/src/screen.rs\<close>: the run-length rendering of a row, whole
  snapshots, and the row diffs a viewer applies to the exact update they follow.

  The terminal emulator is the \<open>vt100\<close> crate, which is not part of the sources. It is a
  parameter: a record \<open>vt100\<close> of the functions the sources call on a parser of any type
  \<open>'p\<close>, whose cells are seen through their accessors (\<open>vt_cell\<close>).
\<close>

section \<open>The emulator the sources call\<close>

datatype vt_color = VtDefault | VtIdx u8 | VtRgb u8 u8 u8

record vt_cell =
  vc_contents :: ustring
  vc_has_contents :: bool
  vc_wide_continuation :: bool
  vc_fgcolor :: vt_color
  vc_bgcolor :: vt_color
  vc_bold :: bool
  vc_dim :: bool
  vc_italic :: bool
  vc_underline :: bool
  vc_inverse :: bool

text \<open>\<open>vt_new\<close> takes rows and columns (and no scrollback); \<open>vt_size\<close> and
  \<open>vt_cursor_position\<close> give rows first.\<close>

record 'p vt100 =
  vt_new :: "u16 \<Rightarrow> u16 \<Rightarrow> 'p"
  vt_process :: "u8 list \<Rightarrow> 'p \<Rightarrow> 'p"
  vt_size :: "'p \<Rightarrow> u16 \<times> u16"
  vt_cell_at :: "'p \<Rightarrow> u16 \<Rightarrow> u16 \<Rightarrow> vt_cell option"
  vt_hide_cursor :: "'p \<Rightarrow> bool"
  vt_cursor_position :: "'p \<Rightarrow> u16 \<times> u16"

section \<open>Colours, styles and runs\<close>

datatype color = ColorDefault | Indexed u8 | Rgb u8 u8 u8

definition color_specified :: "color \<Rightarrow> color option" where
  "color_specified c = (case c of ColorDefault \<Rightarrow> None | other \<Rightarrow> Some other)"

definition color_of_vt :: "vt_color \<Rightarrow> color" where
  "color_of_vt c = (case c of VtDefault \<Rightarrow> ColorDefault | VtIdx i \<Rightarrow> Indexed i
     | VtRgb r g b \<Rightarrow> Rgb r g b)"

record style =
  st_foreground :: "color option"
  st_background :: "color option"
  st_bold :: bool
  st_dim :: bool
  st_italic :: bool
  st_underline :: bool
  st_inverse :: bool

definition style_default :: style where
  "style_default = \<lparr>st_foreground = None, st_background = None, st_bold = False, st_dim = False,
     st_italic = False, st_underline = False, st_inverse = False\<rparr>"

record run =
  run_text :: ustring
  run_style :: style

definition is_plain :: "style \<Rightarrow> bool" where
  "is_plain s \<longleftrightarrow> s = style_default"

datatype cursor = Cursor (cur_row: u16) (cur_column: u16)

record snapshot =
  sn_sequence :: u64
  sn_width :: u16
  sn_height :: u16
  sn_rows :: "run list list"
  sn_cursor :: "cursor option"

section \<open>Rendering one row\<close>

text \<open>Inverse video is resolved by exchanging the two colours; where both are the
  terminal's defaults the exchange says nothing and the flag travels instead.\<close>

definition cell_style :: "vt_cell \<Rightarrow> style" where
  "cell_style c =
     (let foreground = color_of_vt (vc_fgcolor c);
          background = color_of_vt (vc_bgcolor c);
          unresolvable = vc_inverse c \<and> foreground = ColorDefault \<and> background = ColorDefault;
          (fg, bg) = (if vc_inverse c then (background, foreground) else (foreground, background))
      in \<lparr>st_foreground = color_specified fg, st_background = color_specified bg,
          st_bold = vc_bold c, st_dim = vc_dim c, st_italic = vc_italic c,
          st_underline = vc_underline c, st_inverse = unresolvable\<rparr>)"

definition cell_text :: "vt_cell \<Rightarrow> ustring" where
  "cell_text c = (if vc_has_contents c then vc_contents c else lit '' '')"

definition push_cell :: "run list \<Rightarrow> vt_cell \<Rightarrow> run list" where
  "push_cell runs c =
     (if runs \<noteq> [] \<and> run_style (last runs) = cell_style c
      then butlast runs @ [(last runs)\<lparr>run_text := run_text (last runs) @ cell_text c\<rparr>]
      else runs @ [\<lparr>run_text = cell_text c, run_style = cell_style c\<rparr>])"

text \<open>A column without a cell, and the second column of a wide character, are skipped.\<close>

definition push_column :: "(u16 \<Rightarrow> vt_cell option) \<Rightarrow> run list \<Rightarrow> u16 \<Rightarrow> run list" where
  "push_column cells runs column =
     (case cells column of
        None \<Rightarrow> runs
      | Some c \<Rightarrow> if vc_wide_continuation c then runs else push_cell runs c)"

definition blank_run :: "run \<Rightarrow> bool" where
  "blank_run r \<longleftrightarrow> is_plain (run_style r) \<and> trim_end (run_text r) = []"

definition drop_trailing_blanks :: "run list \<Rightarrow> run list" where
  "drop_trailing_blanks runs =
     (let kept = rev (dropWhile blank_run (rev runs))
      in if kept \<noteq> [] \<and> is_plain (run_style (last kept))
         then butlast kept @ [(last kept)\<lparr>run_text := trim_end (run_text (last kept))\<rparr>]
         else kept)"

definition columns_of :: "u16 \<Rightarrow> u16 list" where
  "columns_of n = map of_nat [0..<unat n]"

definition render_row :: "'p vt100 \<Rightarrow> 'p \<Rightarrow> u16 \<Rightarrow> u16 \<Rightarrow> run list" where
  "render_row vt screen row width =
     drop_trailing_blanks (foldl (push_column (vt_cell_at vt screen row)) [] (columns_of width))"

section \<open>Snapshots and diffs\<close>

definition snapshot_of :: "'p vt100 \<Rightarrow> 'p \<Rightarrow> u64 \<Rightarrow> snapshot" where
  "snapshot_of vt screen sequence =
     (let (height, width) = vt_size vt screen
      in \<lparr>sn_sequence = sequence, sn_width = width, sn_height = height,
          sn_rows = map (\<lambda>row. render_row vt screen row width) (columns_of height),
          sn_cursor = (if vt_hide_cursor vt screen then None
            else (case vt_cursor_position vt screen of (row, column) \<Rightarrow> Some (Cursor row column)))\<rparr>)"

datatype stale_screen = StaleScreen (stale_held: u64) (stale_expected: u64)

record row_update =
  ru_row :: u16
  ru_runs :: "run list"

record diff =
  df_follows :: u64
  df_sequence :: u64
  df_rows :: "row_update list"
  df_cursor :: "cursor option"

text \<open>The loop of \<open>Snapshot::apply\<close>: it stops at the first row the screen does not have,
  with the rows before it already written.\<close>

fun apply_rows :: "run list list \<Rightarrow> row_update list \<Rightarrow> run list list \<times> bool" where
  "apply_rows rows [] = (rows, True)"
| "apply_rows rows (u # us) =
     (if unat (ru_row u) < length rows
      then apply_rows (rows[unat (ru_row u) := ru_runs u]) us
      else (rows, False))"

definition snapshot_apply :: "snapshot \<Rightarrow> diff \<Rightarrow> snapshot \<times> (stale_screen + unit)" where
  "snapshot_apply s d =
     (if df_follows d \<noteq> sn_sequence s
      then (s, Inl (StaleScreen (sn_sequence s) (df_follows d)))
      else (case apply_rows (sn_rows s) (df_rows d) of
              (rows, False) \<Rightarrow>
                (s\<lparr>sn_rows := rows\<rparr>, Inl (StaleScreen (sn_sequence s) (df_follows d)))
            | (rows, True) \<Rightarrow>
                (s\<lparr>sn_rows := rows, sn_cursor := df_cursor d, sn_sequence := df_sequence d\<rparr>, Inr ())))"

definition changed_rows :: "snapshot \<Rightarrow> snapshot \<Rightarrow> u16 list" where
  "changed_rows current previous =
     (if sn_width current \<noteq> sn_width previous \<or> sn_height current \<noteq> sn_height previous
      then columns_of (sn_height current)
      else map (\<lambda>e. of_nat (fst e))
        (filter (\<lambda>e. fst (snd e) \<noteq> snd (snd e))
          (enumerate 0 (zip (sn_rows current) (sn_rows previous)))))"

definition diff_between :: "snapshot \<Rightarrow> snapshot \<Rightarrow> diff option" where
  "diff_between previous current =
     (if sn_width previous \<noteq> sn_width current \<or> sn_height previous \<noteq> sn_height current
      then None
      else Some \<lparr>df_follows = sn_sequence previous, df_sequence = sn_sequence current,
        df_rows = map (\<lambda>row. \<lparr>ru_row = row, ru_runs = sn_rows current ! unat row\<rparr>)
          (changed_rows current previous),
        df_cursor = sn_cursor current\<rparr>)"

section \<open>A screen has as many rows as its height\<close>

definition snapshot_wf :: "snapshot \<Rightarrow> bool" where
  "snapshot_wf s \<longleftrightarrow> length (sn_rows s) = unat (sn_height s)"

lemma length_columns_of [simp]: "length (columns_of n) = unat n"
  by (simp add: columns_of_def)

lemma snapshot_of_wf: "snapshot_wf (snapshot_of vt screen q)"
  by (simp add: snapshot_wf_def snapshot_of_def split: prod.split)

lemma snapshot_of_sequence [simp]: "sn_sequence (snapshot_of vt screen q) = q"
  by (simp add: snapshot_of_def split: prod.split)

section \<open>Diffs rebuild the screen they were computed from\<close>

lemma apply_rows_in_range:
  "\<forall>u\<in>set us. unat (ru_row u) < length rows \<Longrightarrow>
   apply_rows rows us = (fold (\<lambda>u rs. rs[unat (ru_row u) := ru_runs u]) us rows, True)"
  by (induction us arbitrary: rows) auto

lemma length_fold_update:
  "length (fold (\<lambda>u rs. rs[unat (ru_row u) := ru_runs u]) us rows) = length rows"
  by (induction us arbitrary: rows) auto

lemma fold_update_nth:
  assumes "i < length rows"
    and "\<And>u. u \<in> set us \<Longrightarrow> unat (ru_row u) = i \<Longrightarrow> ru_runs u = v"
  shows "fold (\<lambda>u rs. rs[unat (ru_row u) := ru_runs u]) us rows ! i =
    (if \<exists>u\<in>set us. unat (ru_row u) = i then v else rows ! i)"
  using assms by (induction us arbitrary: rows) (auto simp: nth_list_update)

lemma unat_index:
  assumes "i < n" "n = unat (h :: u16)"
  shows "unat (of_nat i :: u16) = i"
proof -
  have "unat h < 2 ^ 16" using unsigned_less [of h] by simp
  with assms show ?thesis by (simp add: unat_of_nat)
qed

lemma set_changed_rows:
  assumes "snapshot_wf previous" "snapshot_wf current"
    and "sn_width previous = sn_width current" "sn_height previous = sn_height current"
  shows "unat ` set (changed_rows current previous) =
    {i. i < unat (sn_height current) \<and> sn_rows current ! i \<noteq> sn_rows previous ! i}"
    (is "?rows = ?differ")
proof -
  let ?n = "unat (sn_height current)"
  have len: "length (sn_rows current) = ?n" "length (sn_rows previous) = ?n"
    using assms by (simp_all add: snapshot_wf_def)
  have "unat (of_nat i :: u16) = i" if "i < ?n" for i
    using that unat_index [of i ?n "sn_height current"] by simp
  then show ?thesis
    using assms len
    by (force simp: changed_rows_def in_set_enumerate_eq image_iff)
qed

lemma diff_between_applies:
  assumes wf: "snapshot_wf previous" "snapshot_wf current"
    and d: "diff_between previous current = Some d"
  shows "snapshot_apply previous d = (current, Inr ())"
proof -
  have same: "sn_width previous = sn_width current" "sn_height previous = sn_height current"
    using d by (auto simp: diff_between_def split: if_splits)
  let ?n = "unat (sn_height current)"
  let ?us = "df_rows d"
  have len: "length (sn_rows current) = ?n" "length (sn_rows previous) = ?n"
    using wf same by (simp_all add: snapshot_wf_def)
  have us: "?us = map (\<lambda>row. \<lparr>ru_row = row, ru_runs = sn_rows current ! unat row\<rparr>)
      (changed_rows current previous)"
    using d by (auto simp: diff_between_def split: if_splits)
  note rows = set_changed_rows [OF wf same]
  have inside: "\<forall>u\<in>set ?us. unat (ru_row u) < length (sn_rows previous)"
    using rows len by (auto simp: us)
  let ?new = "fold (\<lambda>u rs. rs[unat (ru_row u) := ru_runs u]) ?us (sn_rows previous)"
  have "?new = sn_rows current"
  proof (rule nth_equalityI)
    show "length ?new = length (sn_rows current)"
      by (simp add: length_fold_update len)
    fix i assume "i < length ?new"
    then have i: "i < length (sn_rows previous)" by (simp add: length_fold_update)
    have "(\<exists>u\<in>set ?us. unat (ru_row u) = i) \<longleftrightarrow> i \<in> unat ` set (changed_rows current previous)"
      by (auto simp: us image_iff)
    then have "(\<exists>u\<in>set ?us. unat (ru_row u) = i) \<longleftrightarrow>
        sn_rows current ! i \<noteq> sn_rows previous ! i"
      using rows i len by simp
    moreover have "u \<in> set ?us \<Longrightarrow> unat (ru_row u) = i \<Longrightarrow> ru_runs u = sn_rows current ! i" for u
      by (auto simp: us)
    ultimately show "?new ! i = sn_rows current ! i"
      using fold_update_nth [OF i, of ?us "sn_rows current ! i"] by auto
  qed
  with apply_rows_in_range [OF inside] d same show ?thesis
    by (auto simp: snapshot_apply_def diff_between_def split: if_splits)
qed

lemma stale_diff_refused:
  assumes "df_follows d \<noteq> sn_sequence s"
  shows "snapshot_apply s d = (s, Inl (StaleScreen (sn_sequence s) (df_follows d)))"
  using assms by (simp add: snapshot_apply_def)

section \<open>Runs carry the text of the cells\<close>

text \<open>The cells of a row that are drawn, in column order, and the text they show.\<close>

definition drawn_cells :: "(u16 \<Rightarrow> vt_cell option) \<Rightarrow> u16 list \<Rightarrow> vt_cell list" where
  "drawn_cells cells columns =
     filter (\<lambda>c. \<not> vc_wide_continuation c) (List.map_filter cells columns)"

definition runs_text :: "run list \<Rightarrow> ustring" where
  "runs_text runs = concat (map run_text runs)"

definition styles_alternate :: "run list \<Rightarrow> bool" where
  "styles_alternate runs \<longleftrightarrow> successively (\<lambda>a b. run_style a \<noteq> run_style b) runs"

lemma runs_text_append [simp]: "runs_text (xs @ ys) = runs_text xs @ runs_text ys"
  by (simp add: runs_text_def)

lemma runs_text_butlast: "runs \<noteq> [] \<Longrightarrow> runs_text runs = runs_text (butlast runs) @ run_text (last runs)"
  by (cases runs rule: rev_cases) (auto simp: runs_text_def)

lemma runs_text_push_cell: "runs_text (push_cell runs c) = runs_text runs @ cell_text c"
  using runs_text_butlast [of runs] by (auto simp: push_cell_def) (simp_all add: runs_text_def)

lemma runs_text_push_columns:
  "runs_text (foldl (push_column cells) runs columns) =
     runs_text runs @ concat (map cell_text (drawn_cells cells columns))"
  by (induction columns arbitrary: runs)
    (auto simp: push_column_def runs_text_push_cell drawn_cells_def List.map_filter_simps
      split: option.split)

lemma styles_alternate_replace_last:
  "styles_alternate (xs @ [r]) \<Longrightarrow> run_style r' = run_style r \<Longrightarrow> styles_alternate (xs @ [r'])"
  by (auto simp: styles_alternate_def successively_append_iff)

lemma styles_alternate_push_cell: "styles_alternate runs \<Longrightarrow> styles_alternate (push_cell runs c)"
proof (cases runs rule: rev_cases)
  case Nil
  then show ?thesis by (simp add: push_cell_def styles_alternate_def)
next
  case (snoc xs r)
  assume "styles_alternate runs"
  with snoc show ?thesis
    using styles_alternate_replace_last [of xs r]
    by (auto simp: push_cell_def styles_alternate_def successively_append_iff)
qed

lemma styles_alternate_columns:
  "styles_alternate runs \<Longrightarrow> styles_alternate (foldl (push_column cells) runs columns)"
  by (induction columns arbitrary: runs)
    (auto simp: push_column_def styles_alternate_push_cell split: option.split)

lemma trim_end_split: "\<exists>ws. s = trim_end s @ ws \<and> (\<forall>c\<in>set ws. is_whitespace c)"
proof -
  have "rev s = takeWhile is_whitespace (rev s) @ dropWhile is_whitespace (rev s)" by simp
  then have "s = trim_end s @ rev (takeWhile is_whitespace (rev s))"
    by (metis rev_append rev_rev_ident trim_end_def)
  moreover have "\<forall>c\<in>set (rev (takeWhile is_whitespace (rev s))). is_whitespace c"
    by (auto dest: set_takeWhileD)
  ultimately show ?thesis by blast
qed

lemma kept_runs_split:
  "\<exists>blanks. runs = rev (dropWhile blank_run (rev runs)) @ blanks \<and> (\<forall>r\<in>set blanks. blank_run r)"
proof -
  have "runs = rev (dropWhile blank_run (rev runs)) @ rev (takeWhile blank_run (rev runs))"
    by (metis rev_append rev_rev_ident takeWhile_dropWhile_id)
  moreover have "\<forall>r\<in>set (rev (takeWhile blank_run (rev runs))). blank_run r"
    by (auto dest: set_takeWhileD)
  ultimately show ?thesis by blast
qed

lemma blank_runs_text: "\<forall>r\<in>set blanks. blank_run r \<Longrightarrow> c \<in> set (runs_text blanks) \<Longrightarrow> is_whitespace c"
proof (induction blanks)
  case Nil
  then show ?case by (simp add: runs_text_def)
next
  case (Cons r blanks)
  have "\<forall>c\<in>set (run_text r). is_whitespace c"
    using Cons.prems(1) trim_end_split [of "run_text r"] by (auto simp: blank_run_def)
  with Cons show ?case by (auto simp: runs_text_def)
qed

lemma drop_trailing_blanks_text:
  "\<exists>ws. runs_text runs = runs_text (drop_trailing_blanks runs) @ ws \<and> (\<forall>c\<in>set ws. is_whitespace c)"
proof -
  define kept where "kept = rev (dropWhile blank_run (rev runs))"
  obtain blanks where runs: "runs = kept @ blanks" and blanks: "\<forall>r\<in>set blanks. blank_run r"
    using kept_runs_split [of runs] unfolding kept_def by blast
  note ws = blank_runs_text [OF blanks]
  show ?thesis
  proof (cases "kept \<noteq> [] \<and> is_plain (run_style (last kept))")
    case True
    obtain tail where tail: "run_text (last kept) = trim_end (run_text (last kept)) @ tail"
      and blank: "\<forall>c\<in>set tail. is_whitespace c"
      using trim_end_split by blast
    have "runs_text kept = runs_text (drop_trailing_blanks runs) @ tail"
      using True tail runs_text_butlast [of kept]
      by (simp add: drop_trailing_blanks_def kept_def [symmetric]) (simp add: runs_text_def)
    with runs blank ws show ?thesis
      by (intro exI [of _ "tail @ runs_text blanks"]) auto
  next
    case False
    then have "drop_trailing_blanks runs = kept"
      by (auto simp: drop_trailing_blanks_def kept_def [symmetric])
    with runs ws show ?thesis by (intro exI [of _ "runs_text blanks"]) auto
  qed
qed

lemma styles_alternate_drop_trailing:
  assumes "styles_alternate runs"
  shows "styles_alternate (drop_trailing_blanks runs)"
proof -
  define kept where "kept = rev (dropWhile blank_run (rev runs))"
  obtain blanks where "runs = kept @ blanks"
    using kept_runs_split [of runs] unfolding kept_def by blast
  with assms have kept: "styles_alternate kept"
    by (simp add: styles_alternate_def successively_append_iff)
  show ?thesis
  proof (cases "kept = []")
    case True
    with kept show ?thesis by (simp add: drop_trailing_blanks_def kept_def [symmetric])
  next
    case False
    then have "styles_alternate (butlast kept @ [last kept])" using kept by simp
    then have "styles_alternate
        (butlast kept @ [(last kept)\<lparr>run_text := trim_end (run_text (last kept))\<rparr>])"
      by (rule styles_alternate_replace_last) simp
    with kept show ?thesis
      by (simp add: drop_trailing_blanks_def kept_def [symmetric])
  qed
qed

lemma render_row_text:
  "\<exists>ws. concat (map cell_text (drawn_cells (vt_cell_at vt screen row) (columns_of width))) =
      runs_text (render_row vt screen row width) @ ws \<and> (\<forall>c\<in>set ws. is_whitespace c)"
  using drop_trailing_blanks_text
    [of "foldl (push_column (vt_cell_at vt screen row)) [] (columns_of width)"]
  by (simp add: render_row_def runs_text_push_columns) (simp add: runs_text_def)

lemma render_row_alternates: "styles_alternate (render_row vt screen row width)"
  unfolding render_row_def
  by (intro styles_alternate_drop_trailing styles_alternate_columns) (simp add: styles_alternate_def)

section \<open>Properties\<close>

text \<open>
  C33. Between any two states of the emulator, either the terminal was resized and there is
  no diff, or the diff rebuilds the later screen exactly from the earlier one: rows, cursor
  and sequence.
\<close>

theorem screen_update_roundtrip:
  "case diff_between (snapshot_of vt p n) (snapshot_of vt q m) of
     None \<Rightarrow> vt_size vt p \<noteq> vt_size vt q
   | Some d \<Rightarrow> vt_size vt p = vt_size vt q \<and>
       snapshot_apply (snapshot_of vt p n) d = (snapshot_of vt q m, Inr ())"
proof (cases "diff_between (snapshot_of vt p n) (snapshot_of vt q m)")
  case None
  then show ?thesis
    by (auto simp: diff_between_def snapshot_of_def split: if_splits prod.splits)
next
  case (Some d)
  have "vt_size vt p = vt_size vt q"
    using Some by (auto simp: diff_between_def snapshot_of_def split: if_splits prod.splits)
  with Some diff_between_applies [OF snapshot_of_wf snapshot_of_wf Some] show ?thesis by simp
qed

text \<open>
  A rendered row shows the text of the row's cells in column order, each wide character
  once, up to trailing white space, in runs of which no two neighbours have the same style.
\<close>

theorem render_row_faithful:
  "(\<exists>ws. concat (map cell_text (drawn_cells (vt_cell_at vt screen row) (columns_of width))) =
      runs_text (render_row vt screen row width) @ ws \<and> list_all is_whitespace ws) \<and>
   styles_alternate (render_row vt screen row width)"
  using render_row_text [of vt screen row width] render_row_alternates
  by (auto simp: list_all_iff)

end
