(* ===== verification/Config.thy ===== *)
theory Config
  imports Model_Ids
begin

text \<open>
  The configuration records of \<open>src/src/config.rs\<close> that the modelled components read:
  one configured target, the notification filters, and a quick reply.
\<close>

record target =
  tg_name :: ustring
  tg_ssh :: "ustring option"
  tg_discover_sessions :: bool
  tg_session :: "ustring option"
  tg_socket :: "ustring option"
  tg_herdr_bins :: "ustring list"
  tg_tags :: "ustring list"
  tg_roots :: "ustring list"

definition target_endpoint :: "target \<Rightarrow> ustring" where
  "target_endpoint t = unwrap_or (lit ''local'') (tg_ssh t)"

definition target_session_name :: "target \<Rightarrow> ustring" where
  "target_session_name t = unwrap_or (lit ''default'') (tg_session t)"

record quick_reply =
  qr_label :: ustring
  qr_send :: ustring
  qr_submit :: bool
  qr_confirm :: bool

definition quick_reply_new :: "ustring \<Rightarrow> ustring \<Rightarrow> quick_reply" where
  "quick_reply_new label send =
     \<lparr>qr_label = label, qr_send = send, qr_submit = True, qr_confirm = False\<rparr>"

definition default_quick_replies :: "quick_reply list" where
  "default_quick_replies =
     [quick_reply_new (lit ''Yes'') (lit ''y''), quick_reply_new (lit ''No'') (lit ''n''),
      quick_reply_new (lit ''Continue'') (lit ''continue''),
      quick_reply_new (lit ''Retry'') (lit ''retry'')]"

record notifications_config =
  nc_enabled :: bool
  nc_needs_attention :: bool
  nc_completed :: bool
  nc_disappeared :: bool
  nc_working :: bool
  nc_status_changed :: bool
  nc_devices :: bool
  nc_minimum_interval_seconds :: u64
  nc_command_timeout_seconds :: u64

definition notifications_default :: notifications_config where
  "notifications_default = \<lparr>nc_enabled = False, nc_needs_attention = True, nc_completed = True,
     nc_disappeared = True, nc_working = False, nc_status_changed = False, nc_devices = False,
     nc_minimum_interval_seconds = 5, nc_command_timeout_seconds = 5\<rparr>"

end
