(* ===== verification/State.thy ===== *)
theory State
  imports Config
begin

text \<open>
  The federation state, \<open>src/src/state.rs\<close>: the normalized snapshot of one target and how
  it is read off the JSON a Herdr server reports, the runtime state of a target and how
  the supervisors record successes, failures and incompatibilities in it, and the retry
  delay.

  The JSON values are those of the \<open>serde_json\<close> crate, which is not part of the sources:
  they are of any type \<open>'v\<close>, read through a record \<open>json\<close> of the accessors the sources
  call. Times are natural numbers of nanoseconds, and the clock is an argument.
\<close>

section \<open>The JSON accessors the sources call\<close>

record 'v json =
  jv_get :: "'v \<Rightarrow> ustring \<Rightarrow> 'v option"
  jv_as_str :: "'v \<Rightarrow> ustring option"
  jv_as_u64 :: "'v \<Rightarrow> u64 option"
  jv_as_bool :: "'v \<Rightarrow> bool option"
  jv_is_null :: "'v \<Rightarrow> bool"
  jv_array :: "'v \<Rightarrow> 'v list option"
  jv_object :: "'v \<Rightarrow> (ustring \<times> 'v) list option"

text \<open>A concrete document type, on which instances of the properties are evaluated.\<close>

datatype document =
    DocNull
  | DocBool bool
  | DocNumber u64
  | DocString ustring
  | DocArray "document list"
  | DocObject "(ustring \<times> document) list"

definition document_json :: "document json" where
  "document_json =
     \<lparr>jv_get = (\<lambda>v key. case v of DocObject es \<Rightarrow> map_of es key | _ \<Rightarrow> None),
      jv_as_str = (\<lambda>v. case v of DocString s \<Rightarrow> Some s | _ \<Rightarrow> None),
      jv_as_u64 = (\<lambda>v. case v of DocNumber n \<Rightarrow> Some n | _ \<Rightarrow> None),
      jv_as_bool = (\<lambda>v. case v of DocBool b \<Rightarrow> Some b | _ \<Rightarrow> None),
      jv_is_null = (\<lambda>v. v = DocNull),
      jv_array = (\<lambda>v. case v of DocArray vs \<Rightarrow> Some vs | _ \<Rightarrow> None),
      jv_object = (\<lambda>v. case v of DocObject es \<Rightarrow> Some es | _ \<Rightarrow> None)\<rparr>"

text \<open>\<open>value.get(key).and_then(Value::as_str)\<close> and its kin.\<close>

definition optional_string :: "'v json \<Rightarrow> 'v \<Rightarrow> ustring \<Rightarrow> ustring option" where
  "optional_string J v key = Option.bind (jv_get J v key) (jv_as_str J)"

definition optional_u64 :: "'v json \<Rightarrow> 'v \<Rightarrow> ustring \<Rightarrow> u64 option" where
  "optional_u64 J v key = Option.bind (jv_get J v key) (jv_as_u64 J)"

definition optional_bool :: "'v json \<Rightarrow> 'v \<Rightarrow> ustring \<Rightarrow> bool option" where
  "optional_bool J v key = Option.bind (jv_get J v key) (jv_as_bool J)"

definition json_collection :: "'v json \<Rightarrow> 'v \<Rightarrow> ustring \<Rightarrow> 'v list" where
  "json_collection J v key = unwrap_or [] (Option.bind (jv_get J v key) (jv_array J))"

definition array_len :: "'v json \<Rightarrow> 'v \<Rightarrow> ustring \<Rightarrow> nat" where
  "array_len J v key = (case Option.bind (jv_get J v key) (jv_array J) of
     None \<Rightarrow> 0 | Some vs \<Rightarrow> length vs)"

section \<open>Maps on the wire\<close>

text \<open>
  A map keyed by a qualified identity crosses the wire as the sequence of its values,
  each of which carries its own key.
\<close>

definition wire_values :: "('k::linorder, 'v) btmap \<Rightarrow> 'v list" where
  "wire_values m = bt_values m"

definition wire_collect :: "('v \<Rightarrow> 'k::linorder) \<Rightarrow> 'v list \<Rightarrow> ('k, 'v) btmap" where
  "wire_collect wire_key vs = bt_collect (map (\<lambda>v. (wire_key v, v)) vs)"

definition keyed_by :: "('v \<Rightarrow> 'k::linorder) \<Rightarrow> ('k, 'v) btmap \<Rightarrow> bool" where
  "keyed_by wire_key m \<longleftrightarrow> (\<forall>e \<in> set (bt_entries m). wire_key (snd e) = fst e)"

lemma keyed_by_get: "keyed_by key m \<Longrightarrow> bt_get m k = Some v \<Longrightarrow> key v = k"
  by (force simp: keyed_by_def bt_entries_get [symmetric])

lemma wire_collect_get:
  "bt_get (wire_collect key vs) k = Some v \<Longrightarrow> key v = k \<and> v \<in> set vs"
  by (auto simp: wire_collect_def bt_get_collect dest!: map_of_SomeD)

lemma keyed_by_collect: "keyed_by key (wire_collect key vs)"
  by (auto simp: keyed_by_def bt_entries_get dest: wire_collect_get)

lemma wire_roundtrip: "keyed_by key m \<Longrightarrow> wire_collect key (wire_values m) = m"
proof -
  assume "keyed_by key m"
  then have "map (\<lambda>v. (key v, v)) (bt_values m) = bt_entries m"
    by (auto simp: bt_values_def keyed_by_def intro!: map_idI)
  then show ?thesis by (simp add: wire_collect_def wire_values_def)
qed

section \<open>The normalized snapshot\<close>

record resource_counts =
  rc_workspaces :: nat
  rc_tabs :: nat
  rc_panes :: nat
  rc_agents :: nat

record workspace_state =
  ws_id :: workspace_id
  ws_active_tab :: "tab_id option"
  ws_label :: "ustring option"
  ws_number :: "u64 option"
  ws_focused :: bool
  ws_agent_status :: "ustring option"

record tab_state =
  tb_id :: tab_id
  tb_workspace :: "workspace_id option"
  tb_label :: "ustring option"
  tb_number :: "u64 option"
  tb_focused :: bool
  tb_agent_status :: "ustring option"

record pane_state =
  pn_id :: pane_id
  pn_workspace :: "workspace_id option"
  pn_tab :: "tab_id option"
  pn_terminal :: "terminal_id option"
  pn_label :: "ustring option"
  pn_focused :: bool
  pn_agent :: "ustring option"
  pn_agent_status :: "ustring option"
  pn_revision :: "u64 option"

record layout_rect =
  lr_x :: u16
  lr_y :: u16
  lr_width :: u16
  lr_height :: u16

record layout_pane =
  lp_pane :: pane_id
  lp_focused :: bool
  lp_rect :: layout_rect

record layout_state =
  ly_workspace :: workspace_id
  ly_tab :: tab_id
  ly_zoomed :: bool
  ly_area :: layout_rect
  ly_focused_pane :: pane_id
  ly_panes :: "layout_pane list"

definition agent_key_separator :: uchar where
  "agent_key_separator = 31"

definition max_agent_session_field_bytes :: nat where
  "max_agent_session_field_bytes = 256"

record agent_session_ref =
  sr_source :: ustring
  sr_agent :: ustring
  sr_kind :: ustring
  sr_value :: ustring

record agent_state =
  ag_pane :: pane_id
  ag_name :: "ustring option"
  ag_agent :: "ustring option"
  ag_status :: "ustring option"
  ag_interactive_ready :: "bool option"
  ag_revision :: "u64 option"
  ag_session :: "agent_session_ref option"

record normalized_snapshot =
  ns_server_version :: "ustring option"
  ns_protocol :: "u64 option"
  ns_revision :: "u64 option"
  ns_capabilities :: "ustring btset"
  ns_counts :: resource_counts
  ns_focused_workspace :: "workspace_id option"
  ns_focused_tab :: "tab_id option"
  ns_focused_pane :: "pane_id option"
  ns_workspaces :: "(workspace_id, workspace_state) btmap"
  ns_tabs :: "(tab_id, tab_state) btmap"
  ns_panes :: "(pane_id, pane_state) btmap"
  ns_layouts :: "(tab_id, layout_state) btmap"
  ns_agents :: "(pane_id, agent_state) btmap"
  ns_terminals :: "terminal_id btset"

subsection \<open>Reading a snapshot\<close>

definition qualify_id :: "target_session \<Rightarrow> ustring \<Rightarrow> 'r qualified_id" where
  "qualify_id target resource = QualifiedId (ts_target target) (ts_session target) resource"

definition json_qualified :: "'v json \<Rightarrow> 'v \<Rightarrow> ustring \<Rightarrow> target_session \<Rightarrow> 'r qualified_id option" where
  "json_qualified J v id_key target = map_option (qualify_id target) (optional_string J v id_key)"

definition qualified_ids ::
    "'v json \<Rightarrow> 'v \<Rightarrow> ustring \<Rightarrow> ustring \<Rightarrow> target_session \<Rightarrow> 'r qualified_id btset" where
  "qualified_ids J v coll id_key target =
     bs_collect (map (qualify_id target)
       (List.map_filter (\<lambda>item. optional_string J item id_key) (json_collection J v coll)))"

definition workspace_states ::
    "'v json \<Rightarrow> 'v \<Rightarrow> target_session \<Rightarrow> (workspace_id, workspace_state) btmap" where
  "workspace_states J snapshot target =
     bt_collect (List.map_filter (\<lambda>item.
       map_option (\<lambda>id. (id, \<lparr>ws_id = id,
           ws_active_tab = json_qualified J item (lit ''active_tab_id'') target,
           ws_label = optional_string J item (lit ''label''),
           ws_number = optional_u64 J item (lit ''number''),
           ws_focused = unwrap_or False (optional_bool J item (lit ''focused'')),
           ws_agent_status = optional_string J item (lit ''agent_status'')\<rparr>))
         (json_qualified J item (lit ''workspace_id'') target))
       (json_collection J snapshot (lit ''workspaces'')))"

definition tab_states ::
    "'v json \<Rightarrow> 'v \<Rightarrow> target_session \<Rightarrow> (tab_id, tab_state) btmap" where
  "tab_states J snapshot target =
     bt_collect (List.map_filter (\<lambda>item.
       map_option (\<lambda>id. (id, \<lparr>tb_id = id,
           tb_workspace = json_qualified J item (lit ''workspace_id'') target,
           tb_label = optional_string J item (lit ''label''),
           tb_number = optional_u64 J item (lit ''number''),
           tb_focused = unwrap_or False (optional_bool J item (lit ''focused'')),
           tb_agent_status = optional_string J item (lit ''agent_status'')\<rparr>))
         (json_qualified J item (lit ''tab_id'') target))
       (json_collection J snapshot (lit ''tabs'')))"

definition pane_states ::
    "'v json \<Rightarrow> 'v \<Rightarrow> target_session \<Rightarrow> (pane_id, pane_state) btmap" where
  "pane_states J snapshot target =
     bt_collect (List.map_filter (\<lambda>item.
       map_option (\<lambda>id. (id, \<lparr>pn_id = id,
           pn_workspace = json_qualified J item (lit ''workspace_id'') target,
           pn_tab = json_qualified J item (lit ''tab_id'') target,
           pn_terminal = json_qualified J item (lit ''terminal_id'') target,
           pn_label = optional_string J item (lit ''label''),
           pn_focused = unwrap_or False (optional_bool J item (lit ''focused'')),
           pn_agent = optional_string J item (lit ''agent''),
           pn_agent_status = optional_string J item (lit ''agent_status''),
           pn_revision = optional_u64 J item (lit ''revision'')\<rparr>))
         (json_qualified J item (lit ''pane_id'') target))
       (json_collection J snapshot (lit ''panes'')))"

text \<open>\<open>u16::try_from\<close> of a \<open>u64\<close>.\<close>

definition try_u16 :: "u64 \<Rightarrow> u16 option" where
  "try_u16 n = (if unat n < 2 ^ 16 then Some (ucast n) else None)"

definition json_u16 :: "'v json \<Rightarrow> 'v \<Rightarrow> ustring \<Rightarrow> u16 option" where
  "json_u16 J v key = Option.bind (optional_u64 J v key) try_u16"

definition json_rect :: "'v json \<Rightarrow> 'v \<Rightarrow> layout_rect option" where
  "json_rect J v =
     Option.bind (json_u16 J v (lit ''x'')) (\<lambda>x.
     Option.bind (json_u16 J v (lit ''y'')) (\<lambda>y.
     Option.bind (json_u16 J v (lit ''width'')) (\<lambda>w.
     Option.bind (json_u16 J v (lit ''height'')) (\<lambda>h.
       Some \<lparr>lr_x = x, lr_y = y, lr_width = w, lr_height = h\<rparr>))))"

definition json_layout_pane :: "'v json \<Rightarrow> target_session \<Rightarrow> 'v \<Rightarrow> layout_pane option" where
  "json_layout_pane J target pane =
     Option.bind (json_qualified J pane (lit ''pane_id'') target) (\<lambda>id.
     Option.bind (jv_get J pane (lit ''rect'')) (\<lambda>r.
     Option.bind (json_rect J r) (\<lambda>rect.
       Some \<lparr>lp_pane = id,
         lp_focused = unwrap_or False (optional_bool J pane (lit ''focused'')), lp_rect = rect\<rparr>)))"

definition layout_states ::
    "'v json \<Rightarrow> 'v \<Rightarrow> target_session \<Rightarrow> (tab_id, layout_state) btmap" where
  "layout_states J snapshot target =
     bt_collect (List.map_filter (\<lambda>item.
       Option.bind (json_qualified J item (lit ''workspace_id'') target) (\<lambda>workspace.
       Option.bind (json_qualified J item (lit ''tab_id'') target) (\<lambda>tab.
       Option.bind (json_qualified J item (lit ''focused_pane_id'') target) (\<lambda>focused_pane.
       Option.bind (jv_get J item (lit ''area'')) (\<lambda>a.
       Option.bind (json_rect J a) (\<lambda>area.
         Some (tab, \<lparr>ly_workspace = workspace, ly_tab = tab,
           ly_zoomed = unwrap_or False (optional_bool J item (lit ''zoomed'')),
           ly_area = area, ly_focused_pane = focused_pane,
           ly_panes = List.map_filter (json_layout_pane J target)
             (json_collection J item (lit ''panes''))\<rparr>)))))))
       (json_collection J snapshot (lit ''layouts'')))"

text \<open>An identity component crosses the boundary only if it is short, printable and free
  of the separator that agent keys are built with.\<close>

definition bounded_identity :: "ustring \<Rightarrow> ustring option" where
  "bounded_identity s =
     (if s \<noteq> [] \<and> utf8_len s \<le> max_agent_session_field_bytes
         \<and> agent_key_separator \<notin> set s \<and> \<not> (\<exists>c\<in>set s. is_control c)
      then Some s else None)"

definition session_field :: "'v json \<Rightarrow> 'v \<Rightarrow> ustring \<Rightarrow> ustring option" where
  "session_field J v key = Option.bind (optional_string J v key) bounded_identity"

definition agent_session :: "'v json \<Rightarrow> 'v option \<Rightarrow> agent_session_ref option" where
  "agent_session J value_opt =
     Option.bind value_opt (\<lambda>v.
     Option.bind (session_field J v (lit ''source'')) (\<lambda>source.
     Option.bind (session_field J v (lit ''agent'')) (\<lambda>agent.
     Option.bind (session_field J v (lit ''kind'')) (\<lambda>kind.
     Option.bind (session_field J v (lit ''value'')) (\<lambda>val.
       Some \<lparr>sr_source = source, sr_agent = agent, sr_kind = kind, sr_value = val\<rparr>)))))"

definition agent_states ::
    "'v json \<Rightarrow> 'v \<Rightarrow> target_session \<Rightarrow> (pane_id, agent_state) btmap" where
  "agent_states J snapshot target =
     bt_collect (List.map_filter (\<lambda>item.
       map_option (\<lambda>pane. (pane, \<lparr>ag_pane = pane,
           ag_name = optional_string J item (lit ''name''),
           ag_agent = optional_string J item (lit ''agent''),
           ag_status = optional_string J item (lit ''agent_status''),
           ag_interactive_ready = optional_bool J item (lit ''interactive_ready''),
           ag_revision = optional_u64 J item (lit ''revision''),
           ag_session = agent_session J (jv_get J item (lit ''agent_session''))\<rparr>))
         (json_qualified J item (lit ''pane_id'') target))
       (json_collection J snapshot (lit ''agents'')))"

definition capability_names :: "'v json \<Rightarrow> 'v option \<Rightarrow> ustring btset" where
  "capability_names J value_opt =
     (case value_opt of None \<Rightarrow> bt_empty
      | Some v \<Rightarrow>
          (case jv_array J v of
             Some vs \<Rightarrow> bs_collect (List.map_filter (jv_as_str J) vs)
           | None \<Rightarrow>
               (case jv_object J v of
                  Some members \<Rightarrow> bs_collect (map fst (filter
                    (\<lambda>f. unwrap_or (\<not> jv_is_null J (snd f)) (jv_as_bool J (snd f))) members))
                | None \<Rightarrow> bt_empty)))"

definition normalized_from_value :: "'v json \<Rightarrow> target_session \<Rightarrow> 'v \<Rightarrow> normalized_snapshot" where
  "normalized_from_value J target snapshot =
     \<lparr>ns_server_version = optional_string J snapshot (lit ''version''),
      ns_protocol = optional_u64 J snapshot (lit ''protocol''),
      ns_revision = optional_u64 J snapshot (lit ''revision''),
      ns_capabilities = capability_names J (jv_get J snapshot (lit ''capabilities'')),
      ns_counts = \<lparr>rc_workspaces = array_len J snapshot (lit ''workspaces''),
        rc_tabs = array_len J snapshot (lit ''tabs''),
        rc_panes = array_len J snapshot (lit ''panes''),
        rc_agents = array_len J snapshot (lit ''agents'')\<rparr>,
      ns_focused_workspace = json_qualified J snapshot (lit ''focused_workspace_id'') target,
      ns_focused_tab = json_qualified J snapshot (lit ''focused_tab_id'') target,
      ns_focused_pane = json_qualified J snapshot (lit ''focused_pane_id'') target,
      ns_workspaces = workspace_states J snapshot target,
      ns_tabs = tab_states J snapshot target,
      ns_panes = pane_states J snapshot target,
      ns_layouts = layout_states J snapshot target,
      ns_agents = agent_states J snapshot target,
      ns_terminals = qualified_ids J snapshot (lit ''panes'') (lit ''terminal_id'') target\<rparr>"

definition snapshot_pane_ids :: "'v json \<Rightarrow> 'v \<Rightarrow> ustring list" where
  "snapshot_pane_ids J snapshot =
     List.map_filter (\<lambda>pane. optional_string J pane (lit ''pane_id''))
       (json_collection J snapshot (lit ''panes''))"

section \<open>The runtime state of a target\<close>

datatype target_connection_state = Connecting | Live | Backoff (backoff_attempt: u32) | Incompatible

datatype target_update_mode = Polling | Events

record target_runtime_state =
  tr_key :: target_session
  tr_endpoint :: ustring
  tr_connection :: target_connection_state
  tr_update_mode :: target_update_mode
  tr_event_error :: "ustring option"
  tr_connection_generation :: u64
  tr_selected_herdr_bin :: "ustring option"
  tr_roots :: "ustring list"
  tr_snapshot :: "normalized_snapshot option"
  tr_last_error :: "ustring option"
  tr_last_success :: "nat option"
  tr_retry_at :: "nat option"

text \<open>Everything but the process's own bookkeeping, \<open>last_success\<close> and \<open>retry_at\<close>.\<close>

definition differs_for_clients :: "target_runtime_state \<Rightarrow> target_runtime_state \<Rightarrow> bool" where
  "differs_for_clients a b \<longleftrightarrow>
     tr_key a \<noteq> tr_key b \<or> tr_endpoint a \<noteq> tr_endpoint b \<or> tr_connection a \<noteq> tr_connection b \<or>
     tr_update_mode a \<noteq> tr_update_mode b \<or> tr_event_error a \<noteq> tr_event_error b \<or>
     tr_connection_generation a \<noteq> tr_connection_generation b \<or>
     tr_selected_herdr_bin a \<noteq> tr_selected_herdr_bin b \<or> tr_roots a \<noteq> tr_roots b \<or>
     tr_snapshot a \<noteq> tr_snapshot b \<or> tr_last_error a \<noteq> tr_last_error b"

definition target_key :: "target \<Rightarrow> target_session" where
  "target_key t = TargetSession (tg_name t) (target_session_name t)"

definition runtime_new :: "target \<Rightarrow> target_runtime_state" where
  "runtime_new t =
     \<lparr>tr_key = target_key t, tr_endpoint = target_endpoint t, tr_connection = Connecting,
      tr_update_mode = Polling, tr_event_error = None, tr_connection_generation = 0,
      tr_selected_herdr_bin = None, tr_roots = tg_roots t, tr_snapshot = None,
      tr_last_error = None, tr_last_success = None, tr_retry_at = None\<rparr>"

definition is_stale :: "target_runtime_state \<Rightarrow> bool" where
  "is_stale t \<longleftrightarrow> tr_snapshot t \<noteq> None \<and> tr_connection t \<noteq> Live"

definition accepts_generation :: "target_runtime_state \<Rightarrow> u64 \<Rightarrow> bool" where
  "accepts_generation t generation \<longleftrightarrow>
     tr_connection t = Live \<and> tr_connection_generation t = generation"

record federation_state =
  fs_revision :: u64
  fs_targets :: "(target_session, target_runtime_state) btmap"

definition federation_default :: federation_state where
  "federation_default = \<lparr>fs_revision = 0, fs_targets = bt_empty\<rparr>"

text \<open>The state a store starts with, before any supervisor has reported.\<close>

definition initial_state :: "target list \<Rightarrow> federation_state" where
  "initial_state targets = \<lparr>fs_revision = 0,
     fs_targets = bt_collect (map (\<lambda>t. (target_key t, runtime_new t)) targets)\<rparr>"

subsection \<open>What the supervisors record\<close>

text \<open>\<open>send_modify\<close> on one target: nothing happens when the target is not there.\<close>

definition modify_target ::
    "target_session \<Rightarrow> (target_runtime_state \<Rightarrow> target_runtime_state) \<Rightarrow> federation_state
      \<Rightarrow> federation_state" where
  "modify_target key f st =
     (case bt_get (fs_targets st) key of
        None \<Rightarrow> st
      | Some t \<Rightarrow> st\<lparr>fs_targets := bt_insert key (f t) (fs_targets st),
                    fs_revision := saturating_add (fs_revision st) 1\<rparr>)"

definition record_success ::
    "'v json \<Rightarrow> nat \<Rightarrow> target_session \<Rightarrow> u64 \<Rightarrow> ustring \<Rightarrow> 'v \<Rightarrow> federation_state \<Rightarrow> federation_state" where
  "record_success J now key generation herdr_bin snapshot st =
     modify_target key (\<lambda>t. t\<lparr>tr_connection := Live, tr_connection_generation := generation,
         tr_selected_herdr_bin := Some herdr_bin,
         tr_snapshot := Some (normalized_from_value J key snapshot),
         tr_last_error := None, tr_last_success := Some now, tr_retry_at := None\<rparr>) st"

definition record_backoff ::
    "nat \<Rightarrow> target_session \<Rightarrow> u32 \<Rightarrow> nat \<Rightarrow> ustring \<Rightarrow> federation_state \<Rightarrow> federation_state" where
  "record_backoff now key failed_attempts delay message st =
     modify_target key (\<lambda>t. t\<lparr>tr_connection := Backoff failed_attempts,
         tr_last_error := Some message, tr_retry_at := Some (now + delay)\<rparr>) st"

definition record_incompatible ::
    "target_session \<Rightarrow> ustring \<Rightarrow> federation_state \<Rightarrow> federation_state" where
  "record_incompatible key message st =
     modify_target key (\<lambda>t. t\<lparr>tr_connection := Incompatible,
         tr_last_error := Some message, tr_retry_at := None\<rparr>) st"

definition record_update_mode ::
    "target_session \<Rightarrow> target_update_mode \<Rightarrow> ustring option \<Rightarrow> federation_state \<Rightarrow> federation_state" where
  "record_update_mode key mode event_error st =
     (case bt_get (fs_targets st) key of
        None \<Rightarrow> st
      | Some t \<Rightarrow>
          if tr_update_mode t = mode \<and> tr_event_error t = event_error then st
          else modify_target key
            (\<lambda>t. t\<lparr>tr_update_mode := mode, tr_event_error := event_error\<rparr>) st)"

subsection \<open>Retry delay\<close>

text \<open>A \<open>Duration\<close> holds a \<open>u64\<close> of seconds and the nanoseconds below one; its
  \<open>saturating_mul\<close> stops at the largest such value.\<close>

definition duration_max :: nat where
  "duration_max = (2 ^ 64 - 1) * 1000000000 + 999999999"

definition duration_saturating_mul :: "nat \<Rightarrow> u32 \<Rightarrow> nat" where
  "duration_saturating_mul d n = min (d * unat n) duration_max"

record supervisor_options =
  so_command_timeout :: nat
  so_refresh_interval :: nat
  so_initial_backoff :: nat
  so_maximum_backoff :: nat

definition supervisor_options_from :: "u64 \<Rightarrow> supervisor_options" where
  "supervisor_options_from command_timeout_seconds =
     \<lparr>so_command_timeout = unat command_timeout_seconds * 1000000000,
      so_refresh_interval = 5 * 1000000000, so_initial_backoff = 1 * 1000000000,
      so_maximum_backoff = 30 * 1000000000\<rparr>"

definition retry_delay :: "supervisor_options \<Rightarrow> u32 \<Rightarrow> nat" where
  "retry_delay options failed_attempts =
     (let exponent = min (saturating_sub failed_attempts 1) 31
      in min (duration_saturating_mul (so_initial_backoff options) (push_bit (unat exponent) 1))
           (so_maximum_backoff options))"

section \<open>Normalized snapshots hold only identities of their own target\<close>

definition snapshot_of_target :: "target_session \<Rightarrow> normalized_snapshot \<Rightarrow> bool" where
  "snapshot_of_target target s \<longleftrightarrow>
     keyed_by ws_id (ns_workspaces s) \<and> keyed_by tb_id (ns_tabs s) \<and> keyed_by pn_id (ns_panes s) \<and>
     keyed_by ly_tab (ns_layouts s) \<and> keyed_by ag_pane (ns_agents s) \<and>
     (\<forall>w \<in> set (bt_keys (ns_workspaces s)). qid_target_session w = target) \<and>
     (\<forall>t \<in> set (bt_keys (ns_tabs s)). qid_target_session t = target) \<and>
     (\<forall>p \<in> set (bt_keys (ns_panes s)). qid_target_session p = target) \<and>
     (\<forall>t \<in> set (bt_keys (ns_layouts s)). qid_target_session t = target) \<and>
     (\<forall>a \<in> set (bt_keys (ns_agents s)). qid_target_session a = target) \<and>
     (\<forall>t \<in> set (bt_keys (ns_terminals s)). qid_target_session t = target)"

lemma qid_target_session_qualify [simp]: "qid_target_session (qualify_id target r) = target"
  by (cases target) (simp add: qualify_id_def)

lemma json_qualified_session:
  "json_qualified J v k target = Some q \<Longrightarrow> qid_target_session q = target"
  by (auto simp: json_qualified_def)

lemma bt_collect_get: "bt_get (bt_collect es) k = Some v \<Longrightarrow> (k, v) \<in> set es"
  by (auto simp: bt_get_collect dest!: map_of_SomeD)

lemma set_map_filter: "y \<in> set (List.map_filter f xs) \<longleftrightarrow> (\<exists>x\<in>set xs. f x = Some y)"
  by (induction xs) (auto simp: List.map_filter_simps split: option.split)

lemma keyed_by_bt_collect:
  assumes "\<And>k v. (k, v) \<in> set es \<Longrightarrow> key v = k"
  shows "keyed_by key (bt_collect es)"
  using assms [OF bt_collect_get] by (auto simp: keyed_by_def bt_entries_get)

lemma bt_collect_keys: "k \<in> set (bt_keys (bt_collect es)) \<longleftrightarrow> k \<in> fst ` set es"
proof -
  have "k \<in> set (bt_keys (bt_collect es)) \<longleftrightarrow> map_of (rev es) k \<noteq> None"
    by (simp add: set_bt_keys bt_get_collect)
  then show ?thesis by (simp add: map_of_eq_None_iff del: not_None_eq)
qed

lemma bs_collect_keys: "set (bt_keys (bs_collect xs)) = set xs"
  by (simp add: bs_mem_keys [symmetric] set_eq_iff)

lemma normalized_of_target: "snapshot_of_target target (normalized_from_value J target v)"
  unfolding snapshot_of_target_def normalized_from_value_def workspace_states_def tab_states_def
    pane_states_def layout_states_def agent_states_def qualified_ids_def
  by (auto intro!: keyed_by_bt_collect
      simp: set_map_filter bt_collect_keys bs_collect_keys bind_eq_Some_conv)
    (erule json_qualified_session)+

section \<open>Supervisors keep the federation well formed\<close>

definition federation_wf :: "federation_state \<Rightarrow> bool" where
  "federation_wf st \<longleftrightarrow> keyed_by tr_key (fs_targets st) \<and>
     (\<forall>e \<in> set (bt_entries (fs_targets st)).
        (tr_connection (snd e) = Live \<longrightarrow> tr_snapshot (snd e) \<noteq> None) \<and>
        (case tr_snapshot (snd e) of None \<Rightarrow> True | Some s \<Rightarrow> snapshot_of_target (fst e) s))"

lemma case_option_all: "(case x of None \<Rightarrow> True | Some s \<Rightarrow> P s) \<longleftrightarrow> (\<forall>s. x = Some s \<longrightarrow> P s)"
  by (cases x) simp_all

lemma federation_wf_iff:
  "federation_wf st \<longleftrightarrow> (\<forall>k t. bt_get (fs_targets st) k = Some t \<longrightarrow>
     tr_key t = k \<and> (tr_connection t = Live \<longrightarrow> tr_snapshot t \<noteq> None) \<and>
     (\<forall>s. tr_snapshot t = Some s \<longrightarrow> snapshot_of_target k s))"
  unfolding federation_wf_def keyed_by_def bt_entries_get [symmetric] case_option_all
  by auto

lemma initial_state_wf: "federation_wf (initial_state targets)"
  by (auto simp: federation_wf_iff initial_state_def runtime_new_def dest!: bt_collect_get)

lemma modify_target_wf:
  assumes "federation_wf st"
    and "\<And>t. bt_get (fs_targets st) key = Some t \<Longrightarrow> tr_key (f t) = tr_key t \<and>
      (tr_connection (f t) = Live \<longrightarrow> tr_snapshot (f t) \<noteq> None) \<and>
      (\<forall>s. tr_snapshot (f t) = Some s \<longrightarrow> snapshot_of_target key s)"
  shows "federation_wf (modify_target key f st)"
  using assms by (auto simp: federation_wf_iff modify_target_def split: option.split)

lemma record_success_wf:
  "federation_wf st \<Longrightarrow> federation_wf (record_success J now key g b v st)"
  unfolding record_success_def
  by (rule modify_target_wf) (auto simp: normalized_of_target)

lemma record_backoff_wf:
  "federation_wf st \<Longrightarrow> federation_wf (record_backoff now key n d m st)"
  unfolding record_backoff_def
  by (rule modify_target_wf) (auto simp: federation_wf_iff)

lemma record_incompatible_wf:
  "federation_wf st \<Longrightarrow> federation_wf (record_incompatible key m st)"
  unfolding record_incompatible_def
  by (rule modify_target_wf) (auto simp: federation_wf_iff)

lemma record_update_mode_wf:
  "federation_wf st \<Longrightarrow> federation_wf (record_update_mode key m e st)"
  unfolding record_update_mode_def
  by (auto split: option.split intro!: modify_target_wf) (auto simp: federation_wf_iff)

section \<open>The retry delay doubles up to its maximum\<close>

lemma unat_push_bit_one: "n < 32 \<Longrightarrow> unat (push_bit n (1 :: u32)) = 2 ^ n"
proof -
  assume "n < 32"
  have "push_bit n (1 :: u32) = of_nat (2 ^ n)" by (simp add: push_bit_eq_mult)
  moreover have "(2 :: nat) ^ n < 2 ^ 32" using \<open>n < 32\<close> by (intro power_strict_increasing) auto
  ultimately show ?thesis by (simp add: unat_of_nat del: of_nat_power)
qed

lemma unat_retry_exponent: "unat (min (saturating_sub n 1) (31 :: u32)) = min (unat n - 1) 31"
  by (simp add: min_def word_le_nat_alt unat_saturating_sub)

lemma retry_delay_eq:
  "retry_delay options n =
     min (min (so_initial_backoff options * 2 ^ min (unat n - 1) 31) duration_max)
       (so_maximum_backoff options)"
  unfolding retry_delay_def Let_def duration_saturating_mul_def unat_retry_exponent
  by (subst unat_push_bit_one) simp_all

lemma retry_delay_mono:
  assumes "a \<le> b"
  shows "retry_delay options a \<le> retry_delay options b"
proof -
  have "(2 :: nat) ^ min (unat a - 1) 31 \<le> 2 ^ min (unat b - 1) 31"
    using assms by (intro power_increasing) (auto simp: word_le_nat_alt)
  then have "so_initial_backoff options * 2 ^ min (unat a - 1) 31
      \<le> so_initial_backoff options * 2 ^ min (unat b - 1) 31"
    by (rule mult_le_mono2)
  then show ?thesis unfolding retry_delay_eq by linarith
qed

section \<open>The supervisors as a step relation\<close>

text \<open>Every supervisor updates the shared state through one of the recording functions, on
  its own target and at any time.\<close>

inductive federation_step :: "'v json \<Rightarrow> federation_state \<Rightarrow> federation_state \<Rightarrow> bool" for J where
  step_success: "federation_step J st (record_success J now key generation bin v st)"
| step_backoff: "federation_step J st (record_backoff now key attempts delay message st)"
| step_incompatible: "federation_step J st (record_incompatible key message st)"
| step_update_mode: "federation_step J st (record_update_mode key mode error st)"

lemmas record_wf = record_success_wf record_backoff_wf record_incompatible_wf record_update_mode_wf

interpretation federation_reach:
  kept_invariant "initial_state targets" "federation_step J" federation_wf for targets J
  by unfold_locales (auto elim!: federation_step.cases intro: initial_state_wf record_wf)

section \<open>Properties\<close>


definition document_snapshot :: document where
  "document_snapshot = DocObject
     [(lit ''panes'', DocArray [DocObject [(lit ''pane_id'', DocString (lit ''w1:p1''))]]),
      (lit ''agents'', DocArray [DocObject [(lit ''pane_id'', DocString (lit ''w1:p1''))]])]"


text \<open>
  Two sessions never share an identity: whatever two hosts report, the panes and the
  agents of their normalized snapshots are disjoint.
\<close>

theorem normalized_disjoint:
  assumes "target \<noteq> target'"
  shows "set (bt_keys (ns_panes (normalized_from_value J target v))) \<inter>
      set (bt_keys (ns_panes (normalized_from_value J target' v'))) = {} \<and>
    set (bt_keys (ns_agents (normalized_from_value J target v))) \<inter>
      set (bt_keys (ns_agents (normalized_from_value J target' v'))) = {}"
  using normalized_of_target [of target J v] normalized_of_target [of target' J v'] assms
  by (auto simp: snapshot_of_target_def)

theorem normalized_disjoint_witness:
  "bt_keys (ns_panes (normalized_from_value document_json (TargetSession (lit ''a'') (lit ''dev''))
       document_snapshot)) = [QualifiedId (lit ''a'') (lit ''dev'') (lit ''w1:p1'')] \<and>
   set (bt_keys (ns_panes (normalized_from_value document_json (TargetSession (lit ''a'') (lit ''dev''))
       document_snapshot))) \<inter>
   set (bt_keys (ns_panes (normalized_from_value document_json (TargetSession (lit ''b'') (lit ''dev''))
       document_snapshot))) = {}"
  by (intro conjI normalized_disjoint [THEN conjunct1]) code_simp+

text \<open>
  The delay before a retry never exceeds the configured maximum and never shrinks from
  one failed attempt to the next; with the daemon's own options it is 1, 2, 4, 8, 16 and
  then 30 seconds.
\<close>

theorem retry_delay_schedule:
  assumes "a \<le> b"
  shows "retry_delay options a \<le> retry_delay options b \<and>
    retry_delay options b \<le> so_maximum_backoff options \<and>
    retry_delay (supervisor_options_from t) b = min (2 ^ min (unat b - 1) 31) 30 * 1000000000"
proof (intro conjI)
  show "retry_delay options a \<le> retry_delay options b" using assms by (rule retry_delay_mono)
  show "retry_delay options b \<le> so_maximum_backoff options" by (simp add: retry_delay_eq)
  have "(2 :: nat) ^ min (unat b - 1) 31 \<le> 2 ^ 31" by (rule power_increasing) auto
  then have "1000000000 * 2 ^ min (unat b - 1) 31 \<le> duration_max"
    by (simp add: duration_max_def)
  then show "retry_delay (supervisor_options_from t) b = min (2 ^ min (unat b - 1) 31) 30 * 1000000000"
    by (simp add: retry_delay_eq supervisor_options_from_def min_def)
qed

theorem retry_delay_schedule_witness:
  "retry_delay (supervisor_options_from 20) 3 = 4000000000 \<and>
   retry_delay (supervisor_options_from 20) 3 \<le> retry_delay (supervisor_options_from 20) 40"
proof
  show "retry_delay (supervisor_options_from 20) 3 = 4000000000"
    using retry_delay_schedule [of 3 3 _ 20, THEN conjunct2, THEN conjunct2] by simp
  show "retry_delay (supervisor_options_from 20) 3 \<le> retry_delay (supervisor_options_from 20) 40"
    by (rule retry_delay_schedule [THEN conjunct1]) simp
qed

text \<open>
  Losing a host loses nothing that was known of it: a failed attempt, on this or on any
  other target, keeps the last snapshot and the connection generation of every target.
\<close>

theorem failure_keeps_snapshot:
  assumes "bt_get (fs_targets st) k = Some t"
    and "st' = record_backoff now key n d m st \<or> st' = record_incompatible key m st"
  shows "\<exists>t'. bt_get (fs_targets st') k = Some t' \<and> tr_snapshot t' = tr_snapshot t \<and>
    tr_connection_generation t' = tr_connection_generation t \<and>
    (k \<noteq> key \<longrightarrow> t' = t)"
  using assms by (auto simp: record_backoff_def record_incompatible_def modify_target_def
      split: option.split)

end
