(* ===== verification/Samples.thy ===== *)
theory Samples
  imports State
begin

text \<open>
  A small federation that the concrete instances of the properties are evaluated on: two
  hosts that both call a pane \<open>w1:p1\<close>, the first live, the second backing off with its
  last snapshot.
\<close>

definition sample_pane :: "ustring \<Rightarrow> pane_id" where
  "sample_pane host = QualifiedId host (lit ''dev'') (lit ''w1:p1'')"

definition sample_agent :: "ustring \<Rightarrow> ustring \<Rightarrow> agent_state" where
  "sample_agent host status =
     \<lparr>ag_pane = sample_pane host, ag_name = Some (lit ''builder''), ag_agent = Some (lit ''claude''),
      ag_status = Some status, ag_interactive_ready = None, ag_revision = None, ag_session = None\<rparr>"

definition sample_snapshot :: "ustring \<Rightarrow> agent_state list \<Rightarrow> normalized_snapshot" where
  "sample_snapshot host agents =
     \<lparr>ns_server_version = None, ns_protocol = Some 19, ns_revision = None,
      ns_capabilities = bt_empty,
      ns_counts = \<lparr>rc_workspaces = 0, rc_tabs = 0, rc_panes = 1, rc_agents = length agents\<rparr>,
      ns_focused_workspace = None, ns_focused_tab = None, ns_focused_pane = None,
      ns_workspaces = bt_empty, ns_tabs = bt_empty,
      ns_panes = bt_collect [(sample_pane host, \<lparr>pn_id = sample_pane host, pn_workspace = None,
        pn_tab = None, pn_terminal = None, pn_label = None, pn_focused = True, pn_agent = None,
        pn_agent_status = None, pn_revision = None\<rparr>)],
      ns_layouts = bt_empty, ns_agents = bt_collect (map (\<lambda>a. (ag_pane a, a)) agents),
      ns_terminals = bt_empty\<rparr>"

definition sample_runtime ::
    "ustring \<Rightarrow> target_connection_state \<Rightarrow> agent_state list \<Rightarrow> target_runtime_state" where
  "sample_runtime host connection agents =
     \<lparr>tr_key = TargetSession host (lit ''dev''), tr_endpoint = host, tr_connection = connection,
      tr_update_mode = Polling, tr_event_error = None, tr_connection_generation = 7,
      tr_selected_herdr_bin = None, tr_roots = [], tr_snapshot = Some (sample_snapshot host agents),
      tr_last_error = None, tr_last_success = None, tr_retry_at = None\<rparr>"

definition sample_federation :: "ustring \<Rightarrow> federation_state" where
  "sample_federation status =
     \<lparr>fs_revision = 3, fs_targets = bt_collect (map (\<lambda>t. (tr_key t, t))
        [sample_runtime (lit ''alpha'') Live [sample_agent (lit ''alpha'') status],
         sample_runtime (lit ''beta'') (Backoff 1) [sample_agent (lit ''beta'') (lit ''working'')]])\<rparr>"

lemma sample_federation_wf: "federation_wf (sample_federation (lit ''blocked''))"
  "federation_wf (sample_federation (lit ''working''))"
  unfolding federation_wf_def by code_simp+

theorem failure_keeps_snapshot_witness:
  "\<exists>t'. bt_get (fs_targets (record_incompatible (TargetSession (lit ''beta'') (lit ''dev''))
        (lit ''protocol 18'') (sample_federation (lit ''working''))))
      (TargetSession (lit ''alpha'') (lit ''dev'')) = Some t' \<and>
    tr_snapshot t' = Some (sample_snapshot (lit ''alpha'') [sample_agent (lit ''alpha'') (lit ''working'')])"
proof -
  have held: "bt_get (fs_targets (sample_federation (lit ''working'')))
      (TargetSession (lit ''alpha'') (lit ''dev'')) =
      Some (sample_runtime (lit ''alpha'') Live [sample_agent (lit ''alpha'') (lit ''working'')])"
    by code_simp
  from failure_keeps_snapshot [OF held disjI2 [OF refl]] show ?thesis
    by (auto simp: sample_runtime_def)
qed

end
