(* ===== verification/Attention.thy ===== *)
theory Attention
  imports Samples
begin

text \<open>
  Attention tracking, \<open>src/src/attention.rs\<close>: the durable index the daemon derives from
  authoritative snapshots (\<open>observe\<close>), the mirror a client keeps (\<open>mirror\<close>, \<open>apply\<close>), read
  state, and the persisted form. Events are numbered, bounded and deduplicated; a target
  that is not live never makes an agent disappear.

  The clock is an argument that gives the time read when the event with a given number is
  pushed.
\<close>

definition attention_state_version :: u32 where
  "attention_state_version = 1"

definition max_attention_events :: nat where
  "max_attention_events = 256"

definition max_agent_observations :: nat where
  "max_agent_observations = 4096"

datatype attention_event_kind = NeedsAttention | WorkingEvent | Completed | StatusChanged | Disappeared

definition event_kind_label :: "attention_event_kind \<Rightarrow> ustring" where
  "event_kind_label k = (case k of
     NeedsAttention \<Rightarrow> lit ''needs input'' | WorkingEvent \<Rightarrow> lit ''working''
   | Completed \<Rightarrow> lit ''completed'' | StatusChanged \<Rightarrow> lit ''status changed''
   | Disappeared \<Rightarrow> lit ''disappeared'')"

record attention_event =
  ae_id :: u64
  ae_pane :: pane_id
  ae_agent :: ustring
  ae_workspace :: ustring
  ae_status :: ustring
  ae_kind :: attention_event_kind
  ae_occurred_at_ms :: u64
  ae_unread :: bool

record agent_observation =
  ob_pane :: pane_id
  ob_agent :: ustring
  ob_workspace :: ustring
  ob_status :: ustring
  ob_interactive_ready :: bool

datatype agent_phase = PhaseAttention | PhaseWorking | PhaseIdle | PhaseUnknown

record attention_index =
  at_next_event_id :: u64
  at_observations :: "(pane_id, agent_observation) btmap"
  at_events :: "attention_event list"

definition attention_default :: attention_index where
  "attention_default = \<lparr>at_next_event_id = 0, at_observations = bt_empty, at_events = []\<rparr>"

section \<open>Phases and transitions\<close>

definition phase_of :: "ustring \<Rightarrow> bool \<Rightarrow> agent_phase" where
  "phase_of status interactive_ready =
     (let s = to_ascii_lowercase status
      in if interactive_ready \<or> s \<in> {lit ''blocked'', lit ''waiting'', lit ''waiting_for_input'',
              lit ''needs_input'', lit ''ready''}
         then PhaseAttention
         else if s \<in> {lit ''working'', lit ''running'', lit ''busy'', lit ''active''}
         then PhaseWorking
         else if s \<in> {lit ''idle'', lit ''completed'', lit ''done''}
         then PhaseIdle
         else PhaseUnknown)"

definition transition_kind ::
    "agent_observation \<Rightarrow> agent_observation \<Rightarrow> attention_event_kind option" where
  "transition_kind previous current =
     (let previous_phase = phase_of (ob_status previous) (ob_interactive_ready previous);
          current_phase = phase_of (ob_status current) (ob_interactive_ready current)
      in if previous_phase = current_phase
         then (if ob_interactive_ready current \<and> \<not> ob_interactive_ready previous
               then Some NeedsAttention else None)
         else Some (case current_phase of
             PhaseAttention \<Rightarrow> NeedsAttention
           | PhaseWorking \<Rightarrow> WorkingEvent
           | PhaseIdle \<Rightarrow> if previous_phase = PhaseAttention \<or> previous_phase = PhaseWorking
               then Completed else StatusChanged
           | PhaseUnknown \<Rightarrow> StatusChanged))"

definition bounded_metadata :: "ustring \<Rightarrow> nat \<Rightarrow> ustring" where
  "bounded_metadata s maximum_characters =
     take maximum_characters (map (\<lambda>c. if is_control c then 32 else c) s)"

section \<open>Deriving the index\<close>

definition push_event ::
    "(u64 \<Rightarrow> u64) \<Rightarrow> agent_observation \<Rightarrow> attention_event_kind \<Rightarrow> attention_index \<Rightarrow> attention_index" where
  "push_event clock ob kind idx =
     (let id = at_next_event_id idx;
          event = \<lparr>ae_id = id, ae_pane = ob_pane ob, ae_agent = ob_agent ob,
            ae_workspace = ob_workspace ob, ae_status = ob_status ob, ae_kind = kind,
            ae_occurred_at_ms = clock id, ae_unread = True\<rparr>;
          events = at_events idx @ [event]
      in idx\<lparr>at_next_event_id := saturating_add id 1,
          at_events := (if length events > max_attention_events
            then keep_last max_attention_events events else events)\<rparr>)"

text \<open>What one agent of a snapshot looks like, with its labels bounded.\<close>

definition observation_of :: "normalized_snapshot \<Rightarrow> agent_state \<Rightarrow> agent_observation" where
  "observation_of snapshot agent =
     (let pane = bt_get (ns_panes snapshot) (ag_pane agent);
          workspace = Option.bind pane pn_workspace
      in \<lparr>ob_pane = ag_pane agent,
          ob_agent = bounded_metadata
            (unwrap_or (qid_resource (ag_pane agent))
              (or_else (or_else (ag_name agent) (ag_agent agent)) (Option.bind pane pn_agent))) 128,
          ob_workspace = bounded_metadata
            (unwrap_or (lit ''unassigned'')
              (or_else
                (Option.bind (Option.bind workspace (bt_get (ns_workspaces snapshot))) ws_label)
                (map_option qid_resource workspace))) 128,
          ob_status = bounded_metadata
            (unwrap_or (lit ''unknown'')
              (or_else (ag_status agent) (Option.bind pane pn_agent_status))) 64,
          ob_interactive_ready = unwrap_or False (ag_interactive_ready agent)\<rparr>)"

text \<open>The live targets that have a snapshot, in key order.\<close>

definition live_snapshots :: "federation_state \<Rightarrow> (target_session \<times> normalized_snapshot) list" where
  "live_snapshots st = List.map_filter
     (\<lambda>t. if tr_connection t = Live then map_option (Pair (tr_key t)) (tr_snapshot t) else None)
     (bt_values (fs_targets st))"

definition current_observations :: "federation_state \<Rightarrow> (pane_id, agent_observation) btmap" where
  "current_observations st =
     bt_collect (concat (map (\<lambda>(_, snapshot).
       map (\<lambda>agent. (ag_pane agent, observation_of snapshot agent)) (bt_values (ns_agents snapshot)))
       (live_snapshots st)))"

definition live_sessions :: "federation_state \<Rightarrow> target_session btset" where
  "live_sessions st = bs_collect (map fst (live_snapshots st))"

text \<open>One iteration of the loop over the current observations.\<close>

definition observe_one ::
    "(u64 \<Rightarrow> u64) \<Rightarrow> agent_observation \<Rightarrow> attention_index \<times> bool \<Rightarrow> attention_index \<times> bool" where
  "observe_one clock ob = (\<lambda>(idx, changed).
     (case bt_get (at_observations idx) (ob_pane ob) of
        Some previous \<Rightarrow>
          (let (idx1, changed1) =
             (case transition_kind previous ob of
                Some kind \<Rightarrow> (push_event clock ob kind idx, True)
              | None \<Rightarrow> (idx, changed))
           in if previous \<noteq> ob
              then (idx1\<lparr>at_observations := bt_insert (ob_pane ob) ob (at_observations idx1)\<rparr>, True)
              else (idx1, changed1))
      | None \<Rightarrow>
          (idx\<lparr>at_observations := bt_insert (ob_pane ob) ob (at_observations idx)\<rparr>, True)))"

definition disappear_one ::
    "(u64 \<Rightarrow> u64) \<Rightarrow> pane_id \<Rightarrow> attention_index \<times> bool \<Rightarrow> attention_index \<times> bool" where
  "disappear_one clock pane = (\<lambda>(idx, changed).
     (case bt_get (at_observations idx) pane of
        None \<Rightarrow> (idx, changed)
      | Some ob \<Rightarrow>
          (push_event clock ob Disappeared
             (idx\<lparr>at_observations := bt_remove pane (at_observations idx)\<rparr>), True)))"

definition forget_one :: "pane_id \<Rightarrow> attention_index \<times> bool \<Rightarrow> attention_index \<times> bool" where
  "forget_one pane = (\<lambda>(idx, changed).
     (idx\<lparr>at_observations := bt_remove pane (at_observations idx)\<rparr>, True))"

definition observe ::
    "(u64 \<Rightarrow> u64) \<Rightarrow> federation_state \<Rightarrow> attention_index \<Rightarrow> attention_index \<times> bool" where
  "observe clock st idx =
     (let current = current_observations st;
          live = live_sessions st;
          known = bs_collect (bt_keys (fs_targets st));
          (idx1, changed1) = fold (observe_one clock) (bt_values current) (idx, False);
          disappeared = filter
            (\<lambda>pane. bs_mem (qid_target_session pane) live \<and> \<not> bt_contains pane current)
            (bt_keys (at_observations idx1));
          (idx2, changed2) = fold (disappear_one clock) disappeared (idx1, changed1);
          removed = filter (\<lambda>pane. \<not> bs_mem (qid_target_session pane) known)
            (bt_keys (at_observations idx2))
      in fold forget_one removed (idx2, changed2))"

section \<open>The mirror a client keeps\<close>

definition mirror :: "attention_event list \<Rightarrow> attention_index" where
  "mirror events =
     \<lparr>at_next_event_id = (if events = [] then 0
        else Max (set (map (\<lambda>e. saturating_add (ae_id e) 1) events))),
      at_observations = bt_empty, at_events = events\<rparr>"

text \<open>\<open>iter_mut().find\<close>: the first element that satisfies the predicate is replaced.\<close>

fun replace_first :: "('a \<Rightarrow> bool) \<Rightarrow> 'a \<Rightarrow> 'a list \<Rightarrow> 'a list" where
  "replace_first p y [] = []"
| "replace_first p y (x # xs) = (if p x then y # xs else x # replace_first p y xs)"

definition attention_apply :: "attention_event \<Rightarrow> attention_index \<Rightarrow> attention_index \<times> bool" where
  "attention_apply event idx =
     (if \<exists>held \<in> set (at_events idx). ae_id held = ae_id event
      then (idx\<lparr>at_events := replace_first (\<lambda>held. ae_id held = ae_id event) event (at_events idx)\<rparr>,
            False)
      else
        (let sorted = sort_key ae_id (at_events idx @ [event])
         in (idx\<lparr>at_next_event_id := max (at_next_event_id idx) (saturating_add (ae_id event) 1),
              at_events := (if length sorted > max_attention_events
                then keep_last max_attention_events sorted else sorted)\<rparr>,
             True)))"

section \<open>Read state\<close>

definition unread_count :: "attention_index \<Rightarrow> nat" where
  "unread_count idx = length (filter ae_unread (at_events idx))"

definition has_unread_for_pane :: "attention_index \<Rightarrow> pane_id \<Rightarrow> bool" where
  "has_unread_for_pane idx pane \<longleftrightarrow> (\<exists>e \<in> set (at_events idx). ae_unread e \<and> ae_pane e = pane)"

definition mark_seen_for_pane :: "pane_id \<Rightarrow> attention_index \<Rightarrow> attention_index \<times> bool" where
  "mark_seen_for_pane pane idx =
     (idx\<lparr>at_events := map (\<lambda>e. if ae_unread e \<and> ae_pane e = pane then e\<lparr>ae_unread := False\<rparr> else e)
        (at_events idx)\<rparr>,
      \<exists>e \<in> set (at_events idx). ae_unread e \<and> ae_pane e = pane)"

definition mark_all_seen :: "attention_index \<Rightarrow> attention_index \<times> bool" where
  "mark_all_seen idx =
     (idx\<lparr>at_events := map (\<lambda>e. if ae_unread e then e\<lparr>ae_unread := False\<rparr> else e) (at_events idx)\<rparr>,
      \<exists>e \<in> set (at_events idx). ae_unread e)"

definition clear_seen :: "attention_index \<Rightarrow> attention_index \<times> bool" where
  "clear_seen idx =
     (let kept = filter ae_unread (at_events idx)
      in (idx\<lparr>at_events := kept\<rparr>, length (at_events idx) \<noteq> length kept))"

section \<open>The persisted form\<close>

record persisted_attention =
  pa_version :: u32
  pa_next_event_id :: u64
  pa_observations :: "agent_observation list"
  pa_events :: "attention_event list"

definition persist_attention :: "attention_index \<Rightarrow> persisted_attention" where
  "persist_attention idx =
     \<lparr>pa_version = attention_state_version, pa_next_event_id = at_next_event_id idx,
      pa_observations = bt_values (at_observations idx), pa_events = at_events idx\<rparr>"

definition restore_attention :: "persisted_attention \<Rightarrow> attention_index result" where
  "restore_attention p =
     (if pa_version p \<noteq> attention_state_version
      then Inl (lit ''persisted attention state has an unsupported version'')
      else if length (pa_observations p) > max_agent_observations
      then Inl (lit ''persisted attention state has too many agent observations'')
      else if length (pa_events p) > max_attention_events
      then Inl (lit ''persisted attention state has too many events'')
      else and_then
        (collect_distinct (lit ''persisted attention state has duplicate agent observations'')
          (map (\<lambda>ob. (ob_pane ob, ob)) (pa_observations p)) bt_empty)
        (\<lambda>observations. Inr
          \<lparr>at_next_event_id = (if pa_events p = [] then pa_next_event_id p
             else max (pa_next_event_id p) (saturating_add (Max (set (map ae_id (pa_events p)))) 1)),
           at_observations = observations, at_events = pa_events p\<rparr>))"

section \<open>Bounded labels\<close>

lemma length_bounded_metadata: "length (bounded_metadata s n) \<le> n"
  by (simp add: bounded_metadata_def)

lemma bounded_metadata_printable: "c \<in> set (bounded_metadata s n) \<Longrightarrow> \<not> is_control c"
  by (auto simp: bounded_metadata_def is_control_def dest!: in_set_takeD split: if_splits)

lemma bounded_metadata_idem: "bounded_metadata (bounded_metadata s n) n = bounded_metadata s n"
  by (auto simp: bounded_metadata_def take_map is_control_def comp_def intro: take_all)

section \<open>What an observation pushes\<close>

definition event_for ::
    "(u64 \<Rightarrow> u64) \<Rightarrow> u64 \<Rightarrow> agent_observation \<times> attention_event_kind \<Rightarrow> attention_event" where
  "event_for clock n change =
     \<lparr>ae_id = n, ae_pane = ob_pane (fst change), ae_agent = ob_agent (fst change),
      ae_workspace = ob_workspace (fst change), ae_status = ob_status (fst change),
      ae_kind = snd change, ae_occurred_at_ms = clock n, ae_unread = True\<rparr>"

fun numbered ::
    "(u64 \<Rightarrow> u64) \<Rightarrow> u64 \<Rightarrow> (agent_observation \<times> attention_event_kind) list \<Rightarrow> attention_event list" where
  "numbered clock n [] = []"
| "numbered clock n (change # changes) =
     event_for clock n change # numbered clock (saturating_add n 1) changes"

definition push_all ::
    "(u64 \<Rightarrow> u64) \<Rightarrow> (agent_observation \<times> attention_event_kind) list \<Rightarrow> attention_index \<Rightarrow> attention_index" where
  "push_all clock changes idx = fold (\<lambda>change. push_event clock (fst change) (snd change)) changes idx"

definition transitions ::
    "(pane_id, agent_observation) btmap \<Rightarrow> agent_observation list
      \<Rightarrow> (agent_observation \<times> attention_event_kind) list" where
  "transitions held obs = List.map_filter
     (\<lambda>ob. Option.bind (bt_get held (ob_pane ob)) (\<lambda>previous.
        map_option (Pair ob) (transition_kind previous ob))) obs"

definition insert_all ::
    "agent_observation list \<Rightarrow> (pane_id, agent_observation) btmap \<Rightarrow> (pane_id, agent_observation) btmap" where
  "insert_all obs m = fold (\<lambda>ob. bt_insert (ob_pane ob) ob) obs m"

definition remove_all :: "pane_id list \<Rightarrow> (pane_id, 'v) btmap \<Rightarrow> (pane_id, 'v) btmap" where
  "remove_all panes m = fold bt_remove panes m"

lemma keep_last_append: "keep_last n (keep_last n xs @ ys) = keep_last n (xs @ ys)"
  by (cases "length xs \<le> n") (auto simp: keep_last_def add.commute)

lemma push_event_eq:
  "length (at_events idx) \<le> max_attention_events \<Longrightarrow>
   push_event clock ob kind idx =
     idx\<lparr>at_next_event_id := saturating_add (at_next_event_id idx) 1,
       at_events := keep_last max_attention_events
         (at_events idx @ [event_for clock (at_next_event_id idx) (ob, kind)])\<rparr>"
  by (auto simp: push_event_def Let_def event_for_def keep_last_id)

lemma push_event_observations [simp]:
  "at_observations (push_event clock ob kind idx) = at_observations idx"
  "push_event clock ob kind (idx\<lparr>at_observations := m\<rparr>) =
     (push_event clock ob kind idx)\<lparr>at_observations := m\<rparr>"
  by (simp_all add: push_event_def Let_def)

lemma push_all_simps [simp]:
  "push_all clock [] idx = idx"
  "push_all clock (c # cs) idx = push_all clock cs (push_event clock (fst c) (snd c) idx)"
  by (simp_all add: push_all_def)

lemma push_all_append: "push_all clock (xs @ ys) idx = push_all clock ys (push_all clock xs idx)"
  by (simp add: push_all_def)

lemma push_all_observations [simp]:
  "at_observations (push_all clock cs idx) = at_observations idx"
  "push_all clock cs (idx\<lparr>at_observations := m\<rparr>) = (push_all clock cs idx)\<lparr>at_observations := m\<rparr>"
  by (induction cs arbitrary: idx) simp_all

lemma push_all_events:
  "length (at_events idx) \<le> max_attention_events \<Longrightarrow>
   at_events (push_all clock cs idx) =
     keep_last max_attention_events (at_events idx @ numbered clock (at_next_event_id idx) cs)"
proof (induction cs arbitrary: idx)
  case Nil
  then show ?case by (simp add: keep_last_id)
next
  case (Cons c cs)
  then show ?case by (simp add: push_event_eq keep_last_append)
qed

section \<open>The three loops of an observation\<close>

lemma transition_kind_refl [simp]: "transition_kind ob ob = None"
  by (simp add: transition_kind_def Let_def)

lemma bt_insert_same: "bt_get m k = Some v \<Longrightarrow> bt_insert k v m = m"
  by (rule bt_ext) simp

lemma transitions_insert:
  "ob_pane ob \<notin> ob_pane ` set obs \<Longrightarrow>
   transitions (bt_insert (ob_pane ob) ob held) obs = transitions held obs"
  by (induction obs) (auto simp: transitions_def List.map_filter_simps split: option.split)

lemma observe_one_eq:
  "observe_one clock ob (idx, changed) =
     ((push_all clock (transitions (at_observations idx) [ob]) idx)
        \<lparr>at_observations := bt_insert (ob_pane ob) ob (at_observations idx)\<rparr>,
      changed \<or> bt_get (at_observations idx) (ob_pane ob) \<noteq> Some ob)"
  by (auto simp: observe_one_def transitions_def List.map_filter_simps Let_def bt_insert_same
      split: option.split)

lemma observe_loop:
  "distinct (map ob_pane obs) \<Longrightarrow>
   fold (observe_one clock) obs (idx, changed) =
     ((push_all clock (transitions (at_observations idx) obs) idx)
        \<lparr>at_observations := insert_all obs (at_observations idx)\<rparr>,
      changed \<or> (\<exists>ob\<in>set obs. bt_get (at_observations idx) (ob_pane ob) \<noteq> Some ob))"
proof (induction obs arbitrary: idx changed)
  case Nil
  then show ?case by (simp add: transitions_def List.map_filter_simps insert_all_def)
next
  case (Cons ob obs)
  let ?held = "at_observations idx"
  have tail: "transitions (bt_insert (ob_pane ob) ob ?held) obs = transitions ?held obs"
    using Cons.prems by (intro transitions_insert) simp
  have head: "transitions ?held (ob # obs) = transitions ?held [ob] @ transitions ?held obs"
    by (simp add: transitions_def List.map_filter_simps split: option.split)
  have others: "bt_get (bt_insert (ob_pane ob) ob ?held) (ob_pane x) = bt_get ?held (ob_pane x)"
    if "x \<in> set obs" for x
  proof -
    have "ob_pane ob \<notin> ob_pane ` set obs" using Cons.prems by simp
    then have "ob_pane x \<noteq> ob_pane ob" using that by (metis imageI)
    then show ?thesis by simp
  qed
  then have unseen: "(\<exists>x\<in>set obs. bt_get (bt_insert (ob_pane ob) ob ?held) (ob_pane x) \<noteq> Some x)
      \<longleftrightarrow> (\<exists>x\<in>set obs. bt_get ?held (ob_pane x) \<noteq> Some x)"
    by (intro bex_cong) (simp_all del: bt_get_insert)
  show ?case
    using Cons.prems
    by (simp add: observe_one_eq Cons.IH tail head push_all_append insert_all_def unseen
        del: bt_get_insert)
qed

lemma disappear_loop:
  assumes "distinct panes" "\<And>p. p \<in> set panes \<Longrightarrow> bt_get (at_observations idx) p = Some (ob p)"
  shows "fold (disappear_one clock) panes (idx, changed) =
     ((push_all clock (map (\<lambda>p. (ob p, Disappeared)) panes) idx)
        \<lparr>at_observations := remove_all panes (at_observations idx)\<rparr>,
      changed \<or> panes \<noteq> [])"
  using assms
proof (induction panes arbitrary: idx changed)
  case Nil
  then show ?case by (simp add: remove_all_def)
next
  case (Cons p panes)
  have "disappear_one clock p (idx, changed) =
      ((push_event clock (ob p) Disappeared idx)\<lparr>at_observations := bt_remove p (at_observations idx)\<rparr>,
       True)"
    using Cons.prems(2) [of p] by (simp add: disappear_one_def)
  moreover have "bt_get (at_observations ((push_event clock (ob p) Disappeared idx)
      \<lparr>at_observations := bt_remove p (at_observations idx)\<rparr>)) q = Some (ob q)"
    if "q \<in> set panes" for q
    using that Cons.prems by auto
  ultimately show ?case
    using Cons.IH [of "(push_event clock (ob p) Disappeared idx)
      \<lparr>at_observations := bt_remove p (at_observations idx)\<rparr>" True] Cons.prems(1)
    by (simp add: remove_all_def)
qed

lemma forget_loop:
  "fold forget_one panes (idx, changed) =
     (idx\<lparr>at_observations := remove_all panes (at_observations idx)\<rparr>, changed \<or> panes \<noteq> [])"
  by (induction panes arbitrary: idx changed) (auto simp: forget_one_def remove_all_def)

lemma bt_get_insert_all:
  "bt_get (insert_all obs m) p =
     (case map_of (rev (map (\<lambda>ob. (ob_pane ob, ob)) obs)) p of
        Some ob \<Rightarrow> Some ob | None \<Rightarrow> bt_get m p)"
proof -
  have "insert_all obs m =
      fold (\<lambda>e. bt_insert (fst e) (snd e)) (map (\<lambda>ob. (ob_pane ob, ob)) obs) m"
    by (simp add: insert_all_def fold_map comp_def)
  then show ?thesis by (simp add: bt.get_fold_ins split: option.split)
qed

lemma bt_get_remove_all:
  "bt_get (remove_all panes m) p = (if p \<in> set panes then None else bt_get m p)"
  by (induction panes arbitrary: m) (auto simp: remove_all_def)

section \<open>An observation, specified\<close>

text \<open>
  The panes that disappeared are those of a live session that the index holds and the
  session no longer reports; the changes an observation records are the transitions of
  the agents it sees and then the disappearances.
\<close>

definition vanished :: "federation_state \<Rightarrow> (pane_id, agent_observation) btmap \<Rightarrow> pane_id list" where
  "vanished st held = filter
     (\<lambda>pane. bs_mem (qid_target_session pane) (live_sessions st)
        \<and> \<not> bt_contains pane (current_observations st)) (bt_keys held)"

definition observed_changes ::
    "federation_state \<Rightarrow> (pane_id, agent_observation) btmap
      \<Rightarrow> (agent_observation \<times> attention_event_kind) list" where
  "observed_changes st held =
     transitions held (bt_values (current_observations st)) @
     map (\<lambda>pane. (the (bt_get held pane), Disappeared)) (vanished st held)"

definition next_observation ::
    "federation_state \<Rightarrow> (pane_id, agent_observation) btmap \<Rightarrow> pane_id \<Rightarrow> agent_observation option" where
  "next_observation st held pane =
     (if \<not> bt_contains (qid_target_session pane) (fs_targets st) then None
      else case bt_get (current_observations st) pane of
        Some ob \<Rightarrow> Some ob
      | None \<Rightarrow> if bs_mem (qid_target_session pane) (live_sessions st) then None else bt_get held pane)"

lemma current_observations_keyed: "keyed_by ob_pane (current_observations st)"
  unfolding current_observations_def
  by (rule keyed_by_bt_collect) (auto simp: observation_of_def Let_def)

lemma keyed_entries: "keyed_by key m \<Longrightarrow> map (\<lambda>v. (key v, v)) (bt_values m) = bt_entries m"
  by (auto simp: bt_values_def keyed_by_def intro!: map_idI)

lemma keyed_keys: "keyed_by key m \<Longrightarrow> map key (bt_values m) = bt_keys m"
  by (auto simp: bt_values_def bt_keys_def keyed_by_def)

lemma bt_get_insert_current:
  "bt_get (insert_all (bt_values (current_observations st)) held) p =
     (case bt_get (current_observations st) p of Some ob \<Rightarrow> Some ob | None \<Rightarrow> bt_get held p)"
  by (simp add: bt_get_insert_all keyed_entries [OF current_observations_keyed])

lemma vanished_after_insert:
  "vanished st (insert_all (bt_values (current_observations st)) held) = vanished st held"
proof (rule strict_sorted_equal)
  have sorted: "sorted_wrt (<) (vanished st m)" for m
    unfolding vanished_def by (intro sorted_wrt_filter bt_keys_sorted)
  show "sorted_wrt (<) (vanished st (insert_all (bt_values (current_observations st)) held))"
    by (rule sorted)
  show "sorted_wrt (<) (vanished st held)" by (rule sorted)
  show "set (vanished st (insert_all (bt_values (current_observations st)) held)) =
      set (vanished st held)"
    by (auto simp: vanished_def bt_keys_iff bt_get_insert_current split: option.splits)
qed

lemma observe_eq:
  fixes idx defines "held \<equiv> at_observations idx"
  shows "\<exists>held'. (\<forall>p. bt_get held' p = next_observation st held p) \<and>
    observe clock st idx =
      ((push_all clock (observed_changes st held) idx)\<lparr>at_observations := held'\<rparr>,
       (\<exists>ob\<in>set (bt_values (current_observations st)). bt_get held (ob_pane ob) \<noteq> Some ob) \<or>
       vanished st held \<noteq> [] \<or>
       (\<exists>p. bt_get (remove_all (vanished st held)
            (insert_all (bt_values (current_observations st)) held)) p \<noteq> None
          \<and> \<not> bt_contains (qid_target_session p) (fs_targets st)))"
proof -
  let ?obs = "bt_values (current_observations st)"
  let ?held1 = "insert_all ?obs held"
  let ?gone = "vanished st held"
  let ?held2 = "remove_all ?gone ?held1"
  define removed where "removed = filter
    (\<lambda>pane. \<not> bs_mem (qid_target_session pane) (bs_collect (bt_keys (fs_targets st)))) (bt_keys ?held2)"
  have obs: "distinct (map ob_pane ?obs)"
    by (simp add: keyed_keys [OF current_observations_keyed])
  have gone: "bt_get ?held1 p = Some (the (bt_get held p))" if "p \<in> set ?gone" for p
    using that by (auto simp: vanished_def bt_get_insert_current bt_keys_iff split: option.splits)
  have gone_eq: "filter (\<lambda>pane. bs_mem (qid_target_session pane) (live_sessions st)
      \<and> \<not> bt_contains pane (current_observations st)) (bt_keys ?held1) = ?gone"
    using vanished_after_insert [of st held] by (simp only: vanished_def)
  have disappear: "fold (disappear_one clock) ?gone (idx1\<lparr>at_observations := ?held1\<rparr>, c) =
      ((push_all clock (map (\<lambda>p. (the (bt_get held p), Disappeared)) ?gone) idx1)
         \<lparr>at_observations := ?held2\<rparr>, c \<or> ?gone \<noteq> [])" for idx1 c
    using disappear_loop [of ?gone "idx1\<lparr>at_observations := ?held1\<rparr>" "\<lambda>p. the (bt_get held p)" clock c]
      gone by (simp add: vanished_def)
  have "observe clock st idx =
      ((push_all clock (observed_changes st held) idx)\<lparr>at_observations := remove_all removed ?held2\<rparr>,
       (\<exists>ob\<in>set ?obs. bt_get held (ob_pane ob) \<noteq> Some ob) \<or> ?gone \<noteq> [] \<or> removed \<noteq> [])"
    unfolding observe_def Let_def observe_loop [OF obs] held_def [symmetric]
    by (simp add: gone_eq disappear forget_loop removed_def [symmetric] push_all_append
        observed_changes_def disj_assoc del: bs_mem_collect bt_contains_iff)
  moreover have "bt_get (remove_all removed ?held2) p = next_observation st held p" for p
    by (auto simp: bt_get_remove_all removed_def next_observation_def vanished_def bt_keys_iff
        bt_get_insert_current split: option.splits)
  moreover have "removed \<noteq> [] \<longleftrightarrow> (\<exists>p. bt_get ?held2 p \<noteq> None
      \<and> \<not> bt_contains (qid_target_session p) (fs_targets st))"
    by (auto simp: removed_def filter_empty_conv bt_keys_iff)
  ultimately show ?thesis by auto
qed

lemma observe_observations:
  "bt_get (at_observations (fst (observe clock st idx))) p =
     next_observation st (at_observations idx) p"
  using observe_eq [of st idx clock] by auto

lemma observe_next_and_events:
  "at_events (fst (observe clock st idx)) =
     at_events (push_all clock (observed_changes st (at_observations idx)) idx)"
  "at_next_event_id (fst (observe clock st idx)) =
     at_next_event_id (push_all clock (observed_changes st (at_observations idx)) idx)"
  using observe_eq [of st idx clock] by auto

section \<open>Observing the same federation twice\<close>

lemma live_snapshots_iff:
  "(k, s) \<in> set (live_snapshots st) \<longleftrightarrow>
     (\<exists>k' t. bt_get (fs_targets st) k' = Some t \<and> tr_connection t = Live \<and> tr_key t = k
        \<and> tr_snapshot t = Some s)"
  by (auto simp: live_snapshots_def set_map_filter set_bt_values split: if_splits)

lemma current_observation_session:
  assumes "federation_wf st" "bt_get (current_observations st) p = Some ob"
  shows "ob_pane ob = p" "bt_contains (qid_target_session p) (fs_targets st)"
    "bs_mem (qid_target_session p) (live_sessions st)"
proof -
  show "ob_pane ob = p" by (rule keyed_by_get [OF current_observations_keyed assms(2)])
  obtain k s a where live: "(k, s) \<in> set (live_snapshots st)" and a: "a \<in> set (bt_values (ns_agents s))"
    and p: "p = ag_pane a"
    using bt_collect_get [OF assms(2) [unfolded current_observations_def]] by auto
  from live obtain t where t: "bt_get (fs_targets st) k = Some t" "tr_snapshot t = Some s"
    using assms(1) by (auto simp: live_snapshots_iff federation_wf_iff)
  have agents: "snapshot_of_target k s"
    using assms(1) t by (auto simp: federation_wf_iff)
  have "p \<in> set (bt_keys (ns_agents s))"
    using a p agents by (auto simp: snapshot_of_target_def keyed_keys [symmetric])
  then have k: "qid_target_session p = k"
    using agents by (auto simp: snapshot_of_target_def)
  show "bt_contains (qid_target_session p) (fs_targets st)" using k t by simp
  show "bs_mem (qid_target_session p) (live_sessions st)"
    using k live by (force simp: live_sessions_def)
qed

lemma next_observation_idem:
  "next_observation st (at_observations (fst (observe clock st idx))) =
     next_observation st (at_observations idx)"
  by (rule ext) (auto simp: next_observation_def observe_observations split: option.split)

lemma no_changes_after_observe:
  assumes wf: "federation_wf st"
  shows "observed_changes st (at_observations (fst (observe clock st idx))) = []"
    and "vanished st (at_observations (fst (observe clock st idx))) = []"
    and "ob \<in> set (bt_values (current_observations st)) \<Longrightarrow>
      bt_get (at_observations (fst (observe clock st idx))) (ob_pane ob) = Some ob"
proof -
  let ?held = "at_observations (fst (observe clock st idx))"
  have same: "bt_get ?held (ob_pane ob) = Some ob"
    if member: "ob \<in> set (bt_values (current_observations st))" for ob
  proof -
    obtain p where p: "bt_get (current_observations st) p = Some ob"
      using member by (auto simp: set_bt_values)
    from current_observation_session [OF wf p] p
    show ?thesis by (auto simp: observe_observations next_observation_def)
  qed
  then have "transitions ?held (bt_values (current_observations st)) = []"
    by (force simp: transitions_def List.map_filter_def filter_empty_conv)
  moreover show gone: "vanished st ?held = []"
    by (auto simp: vanished_def filter_empty_conv bt_keys_iff observe_observations
        next_observation_def split: if_splits option.splits)
  ultimately show "observed_changes st ?held = []" by (simp add: observed_changes_def)
  show "bt_get ?held (ob_pane ob) = Some ob"
    if "ob \<in> set (bt_values (current_observations st))" using that by (rule same)
qed

section \<open>The invariant of the index\<close>

text \<open>
  The history is bounded, observations are stored under their own pane, and until the
  event counter saturates the identifiers ascend strictly and are all below it.
\<close>

definition attention_wf :: "attention_index \<Rightarrow> bool" where
  [inv_defs]: "attention_wf idx \<longleftrightarrow>
     length (at_events idx) \<le> max_attention_events \<and>
     keyed_by ob_pane (at_observations idx) \<and>
     (at_next_event_id idx \<noteq> - 1 \<longrightarrow>
        sorted_wrt (<) (map ae_id (at_events idx)) \<and>
        (\<forall>e \<in> set (at_events idx). ae_id e < at_next_event_id idx))"

inductive attention_step :: "attention_index \<Rightarrow> attention_index \<Rightarrow> bool" where
  step_observe: "attention_step idx (fst (observe clock st idx))"
| step_apply: "attention_step idx (fst (attention_apply event idx))"
| step_seen: "attention_step idx (fst (mark_seen_for_pane pane idx))"
| step_all_seen: "attention_step idx (fst (mark_all_seen idx))"
| step_clear: "attention_step idx (fst (clear_seen idx))"

inductive_cases attention_stepE: "attention_step idx idx'"

lemma keyed_by_iff: "keyed_by key m \<longleftrightarrow> (\<forall>k v. bt_get m k = Some v \<longrightarrow> key v = k)"
  by (auto simp: keyed_by_def bt_entries_get [symmetric])

lemma attention_default_wf: "attention_wf attention_default"
  by (simp add: attention_wf_def attention_default_def keyed_by_iff)

lemma push_event_wf:
  assumes "attention_wf idx"
  shows "attention_wf (push_event clock ob kind idx)"
proof -
  have len: "length (at_events idx) \<le> max_attention_events" and keyed: "keyed_by ob_pane (at_observations idx)"
    using assms by (simp_all add: attention_wf_def)
  let ?n = "at_next_event_id idx"
  have ids: "sorted_wrt (<) (map ae_id (at_events idx @ [event_for clock ?n (ob, kind)]))"
    and below: "\<forall>e \<in> set (at_events idx @ [event_for clock ?n (ob, kind)]). ae_id e < ?n + 1"
    if "?n \<noteq> - 1"
    using assms that word_Suc_greater [OF that]
    by (auto simp: attention_wf_def sorted_wrt_append event_for_def intro: order.strict_trans)
  show ?thesis
    unfolding push_event_eq [OF len] attention_wf_def
    using keyed sorted_map_keep_last [OF ids] below
    by (auto simp: saturating_add_one split: if_splits dest!: in_set_keep_lastD)
qed

lemma push_all_wf: "attention_wf idx \<Longrightarrow> attention_wf (push_all clock cs idx)"
  by (induction cs arbitrary: idx) (simp_all add: push_event_wf)

lemma observe_wf:
  assumes "attention_wf idx"
  shows "attention_wf (fst (observe clock st idx))"
proof -
  have "keyed_by ob_pane (at_observations (fst (observe clock st idx)))"
    using assms current_observations_keyed [of st]
    by (auto simp: keyed_by_iff observe_observations next_observation_def attention_wf_def
        split: if_splits option.splits)
  with push_all_wf [OF assms, of clock "observed_changes st (at_observations idx)"]
  show ?thesis by (simp add: attention_wf_def observe_next_and_events)
qed

lemma map_replace_first: "(\<And>x. p x \<Longrightarrow> f x = f y) \<Longrightarrow> map f (replace_first p y xs) = map f xs"
  by (induction xs) auto

lemma attention_apply_wf:
  assumes wf: "attention_wf idx"
  shows "attention_wf (fst (attention_apply event idx))"
proof (cases "\<exists>held \<in> set (at_events idx). ae_id held = ae_id event")
  case True
  let ?new = "replace_first (\<lambda>held. ae_id held = ae_id event) event (at_events idx)"
  have ids: "map ae_id ?new = map ae_id (at_events idx)"
    by (rule map_replace_first) simp
  then have "length ?new = length (at_events idx)" by (metis length_map)
  moreover have "(\<forall>e \<in> set ?new. ae_id e < n) \<longleftrightarrow> (\<forall>e \<in> set (at_events idx). ae_id e < n)" for n
    using arg_cong [OF ids, of "\<lambda>xs. \<forall>i \<in> set xs. i < n"] by simp
  ultimately show ?thesis using wf True ids by (simp add: attention_apply_def attention_wf_def)
next
  case False
  let ?old = "at_events idx @ [event]"
  let ?new = "sort_key ae_id ?old"
  let ?next = "max (at_next_event_id idx) (saturating_add (ae_id event) 1)"
  have sorted: "sorted_wrt (<) (map ae_id ?new)" if "at_next_event_id idx \<noteq> - 1"
  proof -
    have "distinct (map ae_id ?old)"
      using wf that False by (auto simp: attention_wf_def strict_sorted_iff)
    then have "distinct (map ae_id ?new)" by (auto simp: distinct_map)
    then show ?thesis by (simp add: strict_sorted_iff)
  qed
  have below: "\<forall>e \<in> set ?new. ae_id e < ?next" if "?next \<noteq> - 1"
  proof -
    have counter: "at_next_event_id idx \<noteq> - 1" and own: "ae_id event \<noteq> - 1"
      using that by (auto simp: saturating_add_one)
    from saturating_add_one_gt [OF own] counter wf show ?thesis
      by (auto simp: attention_wf_def max_def intro: order.strict_trans less_le_trans)
  qed
  have "at_next_event_id idx \<noteq> - 1" if "?next \<noteq> - 1" using that by simp
  with False sorted below wf show ?thesis
    by (auto simp: attention_apply_def attention_wf_def Let_def sorted_map_keep_last
        dest!: in_set_keep_lastD)
qed

lemma map_read_state [simp]:
  "map ae_id (map (\<lambda>e. if P e then e\<lparr>ae_unread := False\<rparr> else e) es) = map ae_id es"
  by simp

lemma read_state_wf:
  assumes "attention_wf idx"
  shows "attention_wf (fst (mark_seen_for_pane pane idx))"
    "attention_wf (fst (mark_all_seen idx))" "attention_wf (fst (clear_seen idx))"
  using assms
  by (auto simp: attention_wf_def mark_seen_for_pane_def mark_all_seen_def clear_seen_def Let_def
      comp_def if_distrib [of ae_id] sorted_wrt_map sorted_wrt_filter cong: if_cong
      intro: le_trans [OF length_filter_le])

lemmas attention_wf_intros =
  attention_default_wf observe_wf attention_apply_wf read_state_wf

interpretation attention_reach: kept_invariant attention_default attention_step attention_wf
  by unfold_locales (auto elim!: attention_stepE intro: attention_wf_intros)

section \<open>The persisted form is read back\<close>

definition attention_storable :: "attention_index \<Rightarrow> bool" where
  "attention_storable idx \<longleftrightarrow>
     length (at_events idx) \<le> max_attention_events \<and>
     bt_len (at_observations idx) \<le> max_agent_observations \<and>
     keyed_by ob_pane (at_observations idx) \<and>
     (\<forall>e \<in> set (at_events idx). saturating_add (ae_id e) 1 \<le> at_next_event_id idx)"

lemma saturating_add_one_mono: "a \<le> b \<Longrightarrow> saturating_add a 1 \<le> saturating_add b (1 :: 'a::len word)"
  by (simp add: word_le_nat_alt unat_saturating_add)

lemma length_bt_values: "length (bt_values m) = bt_len m"
  by (simp add: bt_values_def bt_len_def)

lemma collect_distinct_values:
  assumes "keyed_by key m"
  shows "collect_distinct message (map (\<lambda>v. (key v, v)) (bt_values m)) bt_empty = Inr m"
  by (simp add: keyed_entries [OF assms] collect_distinct_entries)

lemma restore_persist_attention:
  assumes "attention_storable idx"
  shows "restore_attention (persist_attention idx) = Inr idx"
proof -
  have "saturating_add (Max (ae_id ` set (at_events idx))) 1 \<le> at_next_event_id idx"
    if "at_events idx \<noteq> []"
  proof -
    have "Max (ae_id ` set (at_events idx)) \<in> ae_id ` set (at_events idx)"
      using that by (intro Max_in) auto
    then show ?thesis using assms by (auto simp: attention_storable_def)
  qed
  then show ?thesis
    using assms
    by (auto simp: restore_attention_def persist_attention_def attention_storable_def
        length_bt_values collect_distinct_values max_absorb1)
qed

lemma restored_attention_storable:
  assumes "restore_attention p = Inr idx"
  shows "attention_storable idx"
proof -
  let ?es = "map (\<lambda>ob. (ob_pane ob, ob)) (pa_observations p)"
  have es: "distinct (map fst ?es)" and obs: "at_observations idx = bt_collect ?es"
    and len: "length (pa_observations p) \<le> max_agent_observations"
      "length (pa_events p) \<le> max_attention_events"
    and events: "at_events idx = pa_events p"
    and counter: "at_next_event_id idx = (if pa_events p = [] then pa_next_event_id p
       else max (pa_next_event_id p) (saturating_add (Max (set (map ae_id (pa_events p)))) 1))"
    using assms
    by (auto simp: restore_attention_def and_then_eq_Inr collect_distinct_eq bt_collect_def
        split: if_splits)
  have "saturating_add (ae_id e) 1 \<le> at_next_event_id idx" if e: "e \<in> set (at_events idx)" for e
  proof -
    have "ae_id e \<le> Max (set (map ae_id (pa_events p)))" using e events by simp
    then have "saturating_add (ae_id e) 1 \<le> saturating_add (Max (set (map ae_id (pa_events p)))) 1"
      by (rule saturating_add_one_mono)
    moreover have "pa_events p \<noteq> []" using e events by auto
    ultimately show ?thesis by (simp add: counter le_max_iff_disj)
  qed
  moreover have "bt_len (bt_collect ?es) \<le> length ?es"
    using bt_len_card [of "bt_collect ?es"] card_length [of "map fst ?es"]
    by (auto simp: bt_get_collect map_of_eq_None_iff image_image cong: image_cong)
  moreover have "keyed_by ob_pane (bt_collect ?es)"
    by (rule keyed_by_bt_collect) auto
  ultimately show ?thesis using len events obs by (simp add: attention_storable_def)
qed

interpretation attention_store: persisted_store persist_attention restore_attention attention_storable
  by unfold_locales (fact restore_persist_attention, fact restored_attention_storable)

section \<open>A client's mirror\<close>

lemma length_replace_first [simp]: "length (replace_first p y xs) = length xs"
  by (induction xs) auto

lemma attention_apply_bounded:
  "length (at_events idx) \<le> max_attention_events \<Longrightarrow>
   length (at_events (fst (attention_apply event idx))) \<le> max_attention_events"
  by (simp add: attention_apply_def Let_def)

lemma attention_apply_new_iff:
  "snd (attention_apply event idx) \<longleftrightarrow> ae_id event \<notin> ae_id ` set (at_events idx)"
  by (simp add: attention_apply_def Let_def image_iff eq_commute)

text \<open>An event older than a full history is dropped again by the bound.\<close>

lemma sort_key_snoc_oldest:
  assumes "sorted (map f xs)" "\<forall>x \<in> set xs. f e < f x"
  shows "sort_key f (xs @ [e]) = e # xs"
  using assms
proof (induction xs)
  case Nil
  then show ?case by simp
next
  case (Cons x xs)
  then have "sort_key f (xs @ [e]) = e # xs" by simp
  moreover have "insort_key f x xs = x # xs"
    using Cons.prems(1) by (cases xs) auto
  ultimately show ?case using Cons.prems(2) by auto
qed

lemma not_disappeared: "transition_kind previous current \<noteq> Some Disappeared"
  by (auto simp: transition_kind_def Let_def split: agent_phase.splits if_splits)

lemma transitions_not_disappeared: "c \<in> set (transitions held obs) \<Longrightarrow> snd c \<noteq> Disappeared"
  by (auto simp: transitions_def set_map_filter bind_eq_Some_conv not_disappeared)

lemma numbered_change:
  "e \<in> set (numbered clock n cs) \<Longrightarrow> \<exists>c \<in> set cs. ae_pane e = ob_pane (fst c) \<and> ae_kind e = snd c"
  by (induction cs arbitrary: n) (auto simp: event_for_def)

lemma vanished_pane:
  assumes "attention_wf idx" "p \<in> set (vanished st (at_observations idx))"
  shows "ob_pane (the (bt_get (at_observations idx) p)) = p"
proof -
  obtain ob where ob: "bt_get (at_observations idx) p = Some ob"
    using assms(2) by (auto simp: vanished_def bt_keys_iff)
  have "keyed_by ob_pane (at_observations idx)" using assms(1) by (simp add: attention_wf_def)
  from keyed_by_get [OF this ob] show ?thesis by (simp add: ob)
qed

lemma of_nat_word_less: "i < j \<Longrightarrow> j < 2 ^ LENGTH('a) \<Longrightarrow> of_nat i < (of_nat j :: 'a::len word)"
  by (simp add: word_less_nat_alt unat_of_nat)

section \<open>Properties\<close>

definition gone_federation :: federation_state where
  "gone_federation = \<lparr>fs_revision = 4, fs_targets = bt_collect (map (\<lambda>t. (tr_key t, t))
     [sample_runtime (lit ''alpha'') Live []])\<rparr>"

definition sample_index :: attention_index where
  "sample_index = fst (observe (\<lambda>_. 4) (sample_federation (lit ''working'')) attention_default)"

lemma sample_index_wf: "attention_wf sample_index"
  unfolding sample_index_def by (intro observe_wf attention_default_wf)

text \<open>
  C32. One observation of the federation appends exactly the transitions of the agents it
  sees, in pane order, and then the disappearances, numbered consecutively, keeps the newest
  256 events, and afterwards holds for every pane what the abstract next state says: the
  current observation of a live session, the old one of a session that cannot be asked, and
  nothing for a session that is no longer configured.
\<close>

theorem observe_records:
  assumes "attention_wf idx"
  shows "at_events (fst (observe clock st idx)) =
      keep_last max_attention_events
        (at_events idx @ numbered clock (at_next_event_id idx) (observed_changes st (at_observations idx))) \<and>
    bt_get (at_observations (fst (observe clock st idx))) pane =
      next_observation st (at_observations idx) pane"
  using assms
  by (simp add: observe_next_and_events push_all_events attention_wf_def observe_observations)

theorem observe_records_witness:
  "map (\<lambda>e. (ae_id e, ae_kind e, ae_occurred_at_ms e))
     (at_events (fst (observe (\<lambda>_. 5) (sample_federation (lit ''blocked'')) sample_index))) =
   [(0, NeedsAttention, 5)]"
  by (subst observe_records [OF sample_index_wf, THEN conjunct1]) code_simp

text \<open>
  Observing the same federation again changes nothing and reports no change, whatever
  the index held before: a refresh without news never produces an event or a write.
\<close>

theorem observe_settles:
  assumes wf: "federation_wf st"
  shows "observe clock' st (fst (observe clock st idx)) = (fst (observe clock st idx), False)"
proof -
  let ?idx = "fst (observe clock st idx)"
  let ?held = "at_observations ?idx"
  note settled = no_changes_after_observe [OF wf, where clock = clock and idx = idx]
  obtain held' where get: "\<And>p. bt_get held' p = next_observation st ?held p"
    and eq: "observe clock' st ?idx = (?idx\<lparr>at_observations := held'\<rparr>,
      (\<exists>p. bt_get (insert_all (bt_values (current_observations st)) ?held) p \<noteq> None
          \<and> \<not> bt_contains (qid_target_session p) (fs_targets st)))"
    using observe_eq [of st ?idx clock'] settled by (auto simp: remove_all_def)
  have "held' = ?held"
    by (rule bt_ext) (simp add: get next_observation_idem observe_observations)
  moreover have "\<not> (bt_get (insert_all (bt_values (current_observations st)) ?held) p \<noteq> None
      \<and> \<not> bt_contains (qid_target_session p) (fs_targets st))" for p
    using current_observation_session(2) [OF wf, of p]
    by (auto simp: bt_get_insert_current observe_observations next_observation_def
        split: option.splits if_splits)
  ultimately show ?thesis using eq by auto
qed

theorem observe_settles_witness:
  "observe (\<lambda>_. 6) (sample_federation (lit ''blocked''))
     (fst (observe (\<lambda>_. 5) (sample_federation (lit ''blocked'')) sample_index)) =
   (fst (observe (\<lambda>_. 5) (sample_federation (lit ''blocked'')) sample_index), False)"
  by (rule observe_settles) (rule sample_federation_wf)

text \<open>
  An agent is only reported as disappeared by a session that is live, and only when that
  session no longer lists it although it was listed before; a host that is merely
  unreachable never makes its agents disappear.
\<close>

theorem disappearance_needs_live_session:
  assumes "attention_wf idx" "e \<in> set (at_events (fst (observe clock st idx)))" "ae_kind e = Disappeared"
  shows "e \<in> set (at_events idx) \<or>
    (bs_mem (qid_target_session (ae_pane e)) (live_sessions st) \<and>
     \<not> bt_contains (ae_pane e) (current_observations st) \<and>
     bt_contains (ae_pane e) (at_observations idx))"
proof -
  have "e \<in> set (at_events idx) \<or> e \<in> set (numbered clock (at_next_event_id idx)
      (observed_changes st (at_observations idx)))"
    using assms(1,2)
    by (auto simp: observe_next_and_events push_all_events attention_wf_def dest!: in_set_keep_lastD)
  then consider "e \<in> set (at_events idx)"
    | c where "c \<in> set (observed_changes st (at_observations idx))" "ae_pane e = ob_pane (fst c)"
        "snd c = Disappeared"
    using numbered_change [of e] assms(3) by metis
  then show ?thesis
  proof cases
    case (2 c)
    then obtain p where p: "p \<in> set (vanished st (at_observations idx))"
      and c: "c = (the (bt_get (at_observations idx) p), Disappeared)"
      using transitions_not_disappeared [of c] by (auto simp: observed_changes_def)
    then have "ae_pane e = p"
      using 2(2) vanished_pane [OF assms(1) p] by simp
    with p show ?thesis by (auto simp: vanished_def bt_keys_iff)
  qed simp
qed

theorem disappearance_needs_live_session_witness:
  "map (\<lambda>e. (ae_pane e, ae_kind e))
     (at_events (fst (observe (\<lambda>_. 5) gone_federation sample_index))) =
     [(sample_pane (lit ''alpha''), Disappeared)] \<and>
   bs_mem (TargetSession (lit ''alpha'') (lit ''dev'')) (live_sessions gone_federation)"
proof -
  let ?es = "at_events (fst (observe (\<lambda>_. 5) gone_federation sample_index))"
  have es: "map (\<lambda>e. (ae_pane e, ae_kind e)) ?es = [(sample_pane (lit ''alpha''), Disappeared)]"
    by code_simp
  then obtain e where e: "e \<in> set ?es" "ae_pane e = sample_pane (lit ''alpha'')" "ae_kind e = Disappeared"
    by (cases ?es) auto
  have "at_events sample_index = []" by code_simp
  with disappearance_needs_live_session [OF sample_index_wf e(1,3)] e(2) es show ?thesis
    by (simp add: sample_pane_def)
qed

text \<open>
  Whatever is observed, received, read and cleared, the history stays within 256 events,
  every observation is stored under its own pane, and until the event counter saturates the
  identifiers ascend strictly and stay below it.
\<close>

theorem attention_reachable_wf:
  "reach attention_step attention_default idx \<Longrightarrow> attention_wf idx"
  by (rule attention_reach.reachable_holds)

theorem attention_reachable_wf_witness:
  "attention_wf (fst (mark_all_seen sample_index))"
  unfolding sample_index_def
  by (rule attention_reachable_wf) (rule reach_step, rule reach_step, rule reach_start,
      rule step_observe, rule step_all_seen)

text \<open>
  The attention file is read back unchanged exactly for the indexes that respect its
  bounds, and everything a file decodes to respects them.
\<close>

theorem attention_file_roundtrip:
  "(attention_storable idx \<longleftrightarrow> restore_attention (persist_attention idx) = Inr idx) \<and>
   (attention_storable idx \<longleftrightarrow> (\<exists>p. restore_attention p = Inr idx))"
  using attention_store.restore_persist [of idx] attention_store.restored_storable
    attention_store.restorable_iff [of idx] by blast

text \<open>
  A client that holds a full history and receives an event older than all of it drops
  the event again at once, and still reports it as new.
\<close>

theorem attention_apply_oldest:
  assumes full: "length (at_events idx) = max_attention_events"
    and ids: "sorted_wrt (<) (map ae_id (at_events idx))"
    and older: "\<forall>held \<in> set (at_events idx). ae_id event < ae_id held"
  shows "at_events (fst (attention_apply event idx)) = at_events idx \<and>
    snd (attention_apply event idx)"
proof -
  have "sort_key ae_id (at_events idx @ [event]) = event # at_events idx"
    by (rule sort_key_snoc_oldest) (use ids older in \<open>auto simp: strict_sorted_iff\<close>)
  then have "at_events (fst (attention_apply event idx)) = at_events idx"
    using full older by (force simp: attention_apply_def Let_def keep_last_def)
  moreover have "snd (attention_apply event idx)"
    using older by (force simp: attention_apply_new_iff)
  ultimately show ?thesis by simp
qed

definition sample_event :: "u64 \<Rightarrow> attention_event" where
  "sample_event n = \<lparr>ae_id = n, ae_pane = sample_pane (lit ''alpha''), ae_agent = [], ae_workspace = [],
     ae_status = [], ae_kind = Completed, ae_occurred_at_ms = 0, ae_unread = True\<rparr>"

definition full_index :: attention_index where
  "full_index = mirror (map (\<lambda>i. sample_event (of_nat i)) [1..<257])"

theorem attention_apply_oldest_witness:
  "at_events (fst (attention_apply (sample_event 0) full_index)) = at_events full_index \<and>
   snd (attention_apply (sample_event 0) full_index)"
proof -
  have full: "length (at_events full_index) = max_attention_events"
    by (simp add: full_index_def mirror_def max_attention_events_def)
  have ids: "sorted_wrt (<) (map ae_id (at_events full_index))"
    by (auto simp: full_index_def mirror_def sample_event_def comp_def sorted_wrt_map
        intro!: sorted_wrt_mono_rel [OF _ sorted_wrt_upt] of_nat_word_less)
  have older: "\<forall>held \<in> set (at_events full_index). ae_id (sample_event 0) < ae_id held"
    using of_nat_word_less [of 0, where 'a = 64]
    by (auto simp: full_index_def mirror_def sample_event_def)
  from attention_apply_oldest [OF full ids older] show ?thesis by simp
qed

end
