(* ===== verification/Agent_Marks.thy ===== *)
theory Agent_Marks
  imports Samples
begin

text \<open>
  Pins, mutes, snoozes and notification modes of agents, \<open>src/src/agent_marks.rs\<close>. The
  number of marked agents is bounded by forgetting the least recently touched mark, a
  snooze is bounded in time, and an expired snooze is dropped. The file the store writes
  is modelled by the record it serializes.
\<close>

definition agent_marks_version :: u32 where
  "agent_marks_version = 2"

definition max_marked_agents :: nat where
  "max_marked_agents = 512"

definition max_snooze_minutes :: u32 where
  "max_snooze_minutes = 24 * 60"

datatype notify_mode = NotifyDefault | NeedsYouOnly

record agent_mark_state =
  mk_pinned :: bool
  mk_muted :: bool
  mk_snoozed_until_ms :: "u64 option"
  mk_notify :: notify_mode

definition mark_state_default :: agent_mark_state where
  "mark_state_default = \<lparr>mk_pinned = False, mk_muted = False, mk_snoozed_until_ms = None,
     mk_notify = NotifyDefault\<rparr>"

definition mark_is_default :: "agent_mark_state \<Rightarrow> bool" where
  "mark_is_default s \<longleftrightarrow> s = mark_state_default"

definition snoozed_at :: "agent_mark_state \<Rightarrow> u64 \<Rightarrow> bool" where
  "snoozed_at s now_ms = (case mk_snoozed_until_ms s of None \<Rightarrow> False | Some deadline \<Rightarrow> deadline > now_ms)"

definition quiet_at :: "agent_mark_state \<Rightarrow> u64 \<Rightarrow> bool" where
  "quiet_at s now_ms \<longleftrightarrow> mk_muted s \<or> snoozed_at s now_ms"

definition may_notify :: "agent_mark_state \<Rightarrow> bool \<Rightarrow> u64 \<Rightarrow> bool" where
  "may_notify s needs_attention now_ms =
     (if quiet_at s now_ms then False
      else (case mk_notify s of NotifyDefault \<Rightarrow> True | NeedsYouOnly \<Rightarrow> needs_attention))"

datatype agent_mark_request =
    PinRequest bool
  | MuteRequest bool
  | SnoozeRequest "u32 option"
  | NotifyRequest notify_mode

record marked =
  md_state :: agent_mark_state
  md_touched_ms :: u64

type_synonym agent_marks = "(agent_id, marked) btmap"

definition marks_state :: "agent_marks \<Rightarrow> agent_id \<Rightarrow> agent_mark_state" where
  "marks_state marks agent = unwrap_or mark_state_default (map_option md_state (bt_get marks agent))"

text \<open>The mark touched longest ago; \<open>min_by_key\<close> breaks ties by the identity.\<close>

definition oldest_mark :: "agent_marks \<Rightarrow> agent_id option" where
  "oldest_mark marks =
     (case map (\<lambda>e. (md_touched_ms (snd e), fst e)) (bt_entries marks) of
        [] \<Rightarrow> None
      | k # ks \<Rightarrow> Some (snd (fold min ks k)))"

lemma oldest_mark_SomeD:
  assumes "oldest_mark marks = Some agent"
  shows "\<exists>mark. bt_get marks agent = Some mark \<and>
    (\<forall>b other. bt_get marks b = Some other \<longrightarrow>
       (md_touched_ms mark, agent) \<le> (md_touched_ms other, b))"
proof -
  let ?key = "\<lambda>e. (md_touched_ms (snd e), fst e)"
  obtain k ks where ks: "map ?key (bt_entries marks) = k # ks" and agent: "agent = snd (fold min ks k)"
    using assms by (auto simp: oldest_mark_def split: list.splits)
  have "fold min ks k \<in> ?key ` set (bt_entries marks)"
    using fold_min_in [of ks k] unfolding ks [symmetric] set_map .
  then obtain e where e: "e \<in> set (bt_entries marks)" "fold min ks k = ?key e" by blast
  then have "fst e = agent" using agent by simp
  with e have mark: "bt_get marks agent = Some (snd e)" "fold min ks k = (md_touched_ms (snd e), agent)"
    by (auto simp flip: bt_entries_get)
  have "fold min ks k \<le> (md_touched_ms other, b)" if "bt_get marks b = Some other" for b other
  proof (rule fold_min_le)
    have "?key (b, other) \<in> set (map ?key (bt_entries marks))"
      unfolding set_map by (rule imageI) (simp add: bt_entries_get that)
    then show "(md_touched_ms other, b) \<in> set (k # ks)" by (simp add: ks)
  qed
  with mark show ?thesis by (metis (no_types, lifting))
qed

lemma oldest_mark_le:
  "oldest_mark marks = Some agent \<Longrightarrow> bt_get marks agent = Some mark \<Longrightarrow> bt_get marks b = Some other \<Longrightarrow>
   (md_touched_ms mark, agent) \<le> (md_touched_ms other, b)"
  using oldest_mark_SomeD [of marks agent] by fastforce

lemma oldest_mark_removes: "oldest_mark marks = Some agent \<Longrightarrow> bt_len (bt_remove agent marks) < bt_len marks"
proof -
  assume "oldest_mark marks = Some agent"
  then obtain mark where mark: "bt_get marks agent = Some mark"
    using oldest_mark_SomeD by blast
  then have "bt_len marks \<noteq> 0"
    by (auto simp: bt_len_card)
  with mark show ?thesis by (simp add: bt_len_remove)
qed

function enforce_cap :: "agent_marks \<Rightarrow> agent_marks" where
  "enforce_cap marks =
     (if bt_len marks > max_marked_agents
      then (case oldest_mark marks of
              None \<Rightarrow> marks
            | Some oldest \<Rightarrow> enforce_cap (bt_remove oldest marks))
      else marks)"
  by pat_completeness auto
termination
  by (relation "measure bt_len") (auto intro: oldest_mark_removes)

declare enforce_cap.simps [simp del]

definition requested_state :: "agent_mark_request \<Rightarrow> u64 \<Rightarrow> agent_mark_state \<Rightarrow> agent_mark_state" where
  "requested_state request now_ms s =
     (case request of
        PinRequest pinned \<Rightarrow> s\<lparr>mk_pinned := pinned\<rparr>
      | MuteRequest muted \<Rightarrow> s\<lparr>mk_muted := muted\<rparr>
      | NotifyRequest mode \<Rightarrow> s\<lparr>mk_notify := mode\<rparr>
      | SnoozeRequest minutes \<Rightarrow> s\<lparr>mk_snoozed_until_ms := map_option (\<lambda>minutes.
          let bounded = ucast (min minutes max_snooze_minutes) :: u64
          in saturating_add now_ms (saturating_mul bounded 60000)) minutes\<rparr>)"

definition marks_apply ::
    "agent_id \<Rightarrow> agent_mark_request \<Rightarrow> u64 \<Rightarrow> agent_marks \<Rightarrow> agent_marks \<times> bool" where
  "marks_apply agent request now_ms marks =
     (let s = requested_state request now_ms (marks_state marks agent)
      in if s = marks_state marks agent then (marks, False)
         else if mark_is_default s then (bt_remove agent marks, True)
         else (enforce_cap (bt_insert agent \<lparr>md_state = s, md_touched_ms = now_ms\<rparr> marks), True))"

definition snooze_expired :: "u64 \<Rightarrow> marked \<Rightarrow> bool" where
  "snooze_expired now_ms mark =
     (case mk_snoozed_until_ms (md_state mark) of None \<Rightarrow> False | Some deadline \<Rightarrow> deadline \<le> now_ms)"

definition expire_one :: "agent_id \<Rightarrow> agent_marks \<Rightarrow> agent_marks" where
  "expire_one agent marks =
     (case bt_get marks agent of
        None \<Rightarrow> marks
      | Some mark \<Rightarrow>
          (let s = (md_state mark)\<lparr>mk_snoozed_until_ms := None\<rparr>
           in if mark_is_default s then bt_remove agent marks
              else bt_insert agent (mark\<lparr>md_state := s\<rparr>) marks))"

definition marks_expire :: "u64 \<Rightarrow> agent_marks \<Rightarrow> agent_marks \<times> bool" where
  "marks_expire now_ms marks =
     (let expired = map fst (filter (\<lambda>e. snooze_expired now_ms (snd e)) (bt_entries marks))
      in if expired = [] then (marks, False) else (fold expire_one expired marks, True))"

section \<open>The persisted form\<close>

record persisted_mark =
  pm_agent :: agent_id
  pm_state :: agent_mark_state
  pm_touched_ms :: u64

record persisted_marks =
  pk_version :: u32
  pk_marks :: "persisted_mark list"

definition persist_marks :: "agent_marks \<Rightarrow> persisted_marks" where
  "persist_marks marks =
     \<lparr>pk_version = agent_marks_version,
      pk_marks = map (\<lambda>e. \<lparr>pm_agent = fst e, pm_state = md_state (snd e),
        pm_touched_ms = md_touched_ms (snd e)\<rparr>) (bt_entries marks)\<rparr>"

definition restore_marks :: "persisted_marks \<Rightarrow> agent_marks result" where
  "restore_marks p =
     (if pk_version p \<noteq> agent_marks_version
      then Inl (lit ''persisted agent marks have an unsupported version'')
      else if length (pk_marks p) > max_marked_agents
      then Inl (lit ''persisted agent marks name too many agents'')
      else collect_distinct (lit ''persisted agent marks name one agent twice'')
        (map (\<lambda>held. (pm_agent held, \<lparr>md_state = pm_state held, md_touched_ms = pm_touched_ms held\<rparr>))
          (pk_marks p)) bt_empty)"

section \<open>The bound on marked agents\<close>

lemma oldest_mark_None: "oldest_mark marks = None \<longleftrightarrow> bt_len marks = 0"
  by (auto simp: oldest_mark_def bt_len_def split: list.split)

lemma enforce_cap_bounded: "bt_len (enforce_cap marks) \<le> max_marked_agents"
proof (induction marks rule: enforce_cap.induct)
  case (1 marks)
  then show ?case
    by (subst enforce_cap.simps) (auto simp: oldest_mark_None split: option.split)
qed

lemma enforce_cap_id: "bt_len marks \<le> max_marked_agents \<Longrightarrow> enforce_cap marks = marks"
  by (subst enforce_cap.simps) simp

text \<open>One mark over the bound forgets exactly the oldest.\<close>

lemma enforce_cap_one_over:
  assumes "bt_len marks = Suc max_marked_agents"
  shows "\<exists>oldest. oldest_mark marks = Some oldest \<and> enforce_cap marks = bt_remove oldest marks"
proof -
  obtain oldest where oldest: "oldest_mark marks = Some oldest"
    using assms oldest_mark_None [of marks] by fastforce
  then have "bt_len (bt_remove oldest marks) \<le> max_marked_agents"
    using oldest_mark_removes [OF oldest] assms by simp
  with oldest assms show ?thesis
    by (subst enforce_cap.simps) (simp add: enforce_cap_id)
qed

lemma marks_apply_bounded:
  "bt_len marks \<le> max_marked_agents \<Longrightarrow> bt_len (fst (marks_apply agent request now_ms marks)) \<le> max_marked_agents"
  by (auto simp: marks_apply_def Let_def enforce_cap_bounded bt_len_remove)

lemma expire_one_get:
  "bt_get (expire_one agent marks) b =
     (if b = agent then Option.bind (bt_get marks agent) (\<lambda>mark.
        let s = (md_state mark)\<lparr>mk_snoozed_until_ms := None\<rparr>
        in if mark_is_default s then None else Some (mark\<lparr>md_state := s\<rparr>))
      else bt_get marks b)"
  by (auto simp: expire_one_def Let_def split: option.split)

lemma expire_one_idem: "expire_one agent (expire_one agent marks) = expire_one agent marks"
  by (rule bt_ext) (auto simp: expire_one_get Let_def split: bind_splits)

lemma fold_expire_get:
  "distinct agents \<Longrightarrow>
   bt_get (fold expire_one agents marks) b =
     (if b \<in> set agents then bt_get (expire_one b marks) b else bt_get marks b)"
  by (induction agents arbitrary: marks) (auto simp: expire_one_get)

section \<open>What a request changes\<close>

lemma snooze_bounded:
  assumes "mk_snoozed_until_ms (requested_state (SnoozeRequest (Some minutes)) now_ms s) = Some deadline"
  shows "unat deadline \<le> unat now_ms + 24 * 60 * 60000"
proof -
  have "unat (ucast (min minutes max_snooze_minutes) :: u64) \<le> 24 * 60"
    by (auto simp: max_snooze_minutes_def min_def unsigned_ucast_eq word_le_nat_alt
        intro: order_trans [OF take_bit_nat_less_eq_self])
  then have "unat (ucast (min minutes max_snooze_minutes) :: u64) * 60000 \<le> 24 * 60 * 60000"
    by linarith
  then have "unat (saturating_mul (ucast (min minutes max_snooze_minutes)) 60000 :: u64)
      \<le> 24 * 60 * 60000"
    by (simp add: unat_saturating_mul)
  then show ?thesis
    using assms by (auto simp: requested_state_def Let_def unat_saturating_add)
qed

section \<open>Expiry\<close>

lemma marks_expire_get:
  "bt_get (fst (marks_expire now_ms marks)) b =
     (case bt_get marks b of
        None \<Rightarrow> None
      | Some mark \<Rightarrow> if snooze_expired now_ms mark then bt_get (expire_one b marks) b else Some mark)"
proof -
  let ?expired = "map fst (filter (\<lambda>e. snooze_expired now_ms (snd e)) (bt_entries marks))"
  have dist: "distinct ?expired"
    using bt_keys_distinct [of marks] by (simp add: bt_keys_def distinct_map_filter)
  have mem: "b \<in> set ?expired \<longleftrightarrow> (\<exists>mark. bt_get marks b = Some mark \<and> snooze_expired now_ms mark)"
    by (force simp flip: bt_entries_get)
  have "bt_get (fold expire_one ?expired marks) b =
      (if b \<in> set ?expired then bt_get (expire_one b marks) b else bt_get marks b)"
    by (rule fold_expire_get [OF dist])
  moreover have "fst (marks_expire now_ms marks) = fold expire_one ?expired marks"
    by (simp add: marks_expire_def Let_def)
  ultimately show ?thesis using mem by (auto split: option.split)
qed

lemma marks_expire_state:
  "marks_state (fst (marks_expire now_ms marks)) agent =
     (let s = marks_state marks agent
      in if mk_snoozed_until_ms s \<noteq> None \<and> \<not> snoozed_at s now_ms
         then s\<lparr>mk_snoozed_until_ms := None\<rparr> else s)"
  by (auto simp: marks_state_def marks_expire_get expire_one_get snooze_expired_def snoozed_at_def
      mark_is_default_def mark_state_default_def Let_def split: option.splits)

lemma marks_expire_quiet:
  assumes "now_ms \<le> t"
  shows "quiet_at (marks_state (fst (marks_expire now_ms marks)) agent) t =
    quiet_at (marks_state marks agent) t"
  using assms
  by (auto simp: marks_expire_state Let_def quiet_at_def snoozed_at_def split: option.splits)

lemma marks_expire_settles:
  "marks_expire now_ms (fst (marks_expire now_ms marks)) = (fst (marks_expire now_ms marks), False)"
proof -
  have "\<not> snooze_expired now_ms mark"
    if "bt_get (fst (marks_expire now_ms marks)) b = Some mark" for b mark
    using that by (auto simp: marks_expire_get expire_one_get Let_def snooze_expired_def
        split: option.splits if_splits bind_splits)
  then have "filter (\<lambda>e. snooze_expired now_ms (snd e)) (bt_entries (fst (marks_expire now_ms marks))) = []"
    by (auto simp: filter_empty_conv bt_entries_get)
  then show ?thesis by (subst marks_expire_def) (simp add: Let_def)
qed

section \<open>The file is read back\<close>

lemma marked_eta: "\<lparr>md_state = md_state m, md_touched_ms = md_touched_ms m\<rparr> = (m :: marked)"
  by simp

definition marks_storable :: "agent_marks \<Rightarrow> bool" where
  "marks_storable marks \<longleftrightarrow> bt_len marks \<le> max_marked_agents"

interpretation marks_store: persisted_store persist_marks restore_marks marks_storable
proof unfold_locales
  show "restore_marks (persist_marks marks) = Inr marks" if "marks_storable marks" for marks
    using that
    by (simp add: restore_marks_def persist_marks_def marks_storable_def bt_len_def comp_def
        marked_eta collect_distinct_entries)
  show "marks_storable marks" if restored: "restore_marks p = Inr marks" for p marks
  proof -
    let ?es = "map (\<lambda>held. (pm_agent held, \<lparr>md_state = pm_state held, md_touched_ms = pm_touched_ms held\<rparr>))
      (pk_marks p)"
    have "length (pk_marks p) \<le> max_marked_agents" "marks = bt_collect ?es"
      using restored by (auto simp: restore_marks_def collect_distinct_eq bt_collect_def split: if_splits)
    with bt_len_collect [of ?es] show ?thesis by (simp add: marks_storable_def)
  qed
qed

inductive marks_step :: "agent_marks \<Rightarrow> agent_marks \<Rightarrow> bool" where
  marks_step_apply: "marks_step marks (fst (marks_apply agent request now_ms marks))"
| marks_step_expire: "marks_step marks (fst (marks_expire now_ms marks))"

lemma marks_expire_bounded: "bt_len (fst (marks_expire now_ms marks)) \<le> bt_len marks"
  unfolding bt_len_card
  by (rule card_mono) (auto simp: marks_expire_get split: option.splits)

interpretation marks_reach: kept_invariant bt_empty marks_step marks_storable
  by unfold_locales
    (auto simp: marks_storable_def marks_apply_bounded elim!: marks_step.cases
      intro: le_trans [OF marks_expire_bounded])

section \<open>Properties\<close>

definition sample_marked :: "ustring \<Rightarrow> agent_id" where
  "sample_marked host = QualifiedId host (lit ''dev'') (lit ''a1'')"

text \<open>
  A request sets exactly the state it asks for, and nothing is lost silently: the only
  exception is a new agent in a full table in which no other mark was touched earlier.
\<close>

theorem marks_apply_state:
  assumes "bt_len marks \<le> max_marked_agents"
    and fits: "bt_len marks < max_marked_agents \<or> bt_contains agent marks \<or>
      (\<exists>b mark. b \<noteq> agent \<and> bt_get marks b = Some mark \<and> md_touched_ms mark < now_ms)"
  shows "marks_state (fst (marks_apply agent request now_ms marks)) agent =
    requested_state request now_ms (marks_state marks agent)"
proof -
  let ?s = "requested_state request now_ms (marks_state marks agent)"
  let ?new = "bt_insert agent \<lparr>md_state = ?s, md_touched_ms = now_ms\<rparr> marks"
  have "bt_get (enforce_cap ?new) agent = Some \<lparr>md_state = ?s, md_touched_ms = now_ms\<rparr>"
  proof (cases "bt_len ?new \<le> max_marked_agents")
    case True
    then show ?thesis by (simp add: enforce_cap_id)
  next
    case False
    then have over: "bt_len ?new = Suc max_marked_agents" and absent: "bt_get marks agent = None"
      using assms(1) by (auto simp: bt_len_insert split: if_splits)
    obtain oldest where oldest: "oldest_mark ?new = Some oldest" "enforce_cap ?new = bt_remove oldest ?new"
      using enforce_cap_one_over [OF over] by blast
    obtain b mark where b: "b \<noteq> agent" "bt_get marks b = Some mark" "md_touched_ms mark < now_ms"
      using fits absent over by (auto simp: bt_len_insert)
    have "oldest \<noteq> agent"
    proof
      assume "oldest = agent"
      then have "(now_ms, agent) \<le> (md_touched_ms mark, b)"
        using oldest_mark_le [OF oldest(1), of _ b mark] b by simp
      with b(3) show False by auto
    qed
    with oldest(2) show ?thesis by simp
  qed
  then show ?thesis
    by (auto simp: marks_apply_def Let_def marks_state_def mark_is_default_def)
qed

theorem marks_apply_state_witness:
  "mk_muted (marks_state (fst (marks_apply (sample_marked (lit ''alpha'')) (MuteRequest True) 9 bt_empty))
     (sample_marked (lit ''alpha'')))"
  by (subst marks_apply_state) (simp_all add: max_marked_agents_def requested_state_def)

text \<open>
  A request for one agent leaves the mark of every other agent alone, except that a new
  agent in a full table makes the least recently touched mark be forgotten, and only that
  one.
\<close>

theorem marks_apply_others:
  assumes "bt_len marks \<le> max_marked_agents" "b \<noteq> agent"
  shows "bt_get (fst (marks_apply agent request now_ms marks)) b = bt_get marks b \<or>
    bt_len marks = max_marked_agents \<and> \<not> bt_contains agent marks \<and>
    bt_get (fst (marks_apply agent request now_ms marks)) b = None \<and>
    (\<forall>c other. bt_get marks c = Some other \<longrightarrow>
       (\<exists>mark. bt_get marks b = Some mark \<and> md_touched_ms mark \<le> md_touched_ms other))"
proof -
  let ?s = "requested_state request now_ms (marks_state marks agent)"
  let ?new = "bt_insert agent \<lparr>md_state = ?s, md_touched_ms = now_ms\<rparr> marks"
  have "bt_get (enforce_cap ?new) b = bt_get marks b \<or>
    bt_len marks = max_marked_agents \<and> \<not> bt_contains agent marks \<and>
    bt_get (enforce_cap ?new) b = None \<and>
    (\<forall>c other. bt_get marks c = Some other \<longrightarrow>
       (\<exists>mark. bt_get marks b = Some mark \<and> md_touched_ms mark \<le> md_touched_ms other))"
  proof (cases "bt_len ?new \<le> max_marked_agents")
    case True
    then show ?thesis using assms(2) by (simp add: enforce_cap_id)
  next
    case False
    then have over: "bt_len ?new = Suc max_marked_agents" and full: "bt_get marks agent = None"
        "bt_len marks = max_marked_agents"
      using assms(1) by (auto simp: bt_len_insert split: if_splits)
    obtain oldest where oldest: "oldest_mark ?new = Some oldest" "enforce_cap ?new = bt_remove oldest ?new"
      using enforce_cap_one_over [OF over] by blast
    have earliest: "md_touched_ms mark \<le> md_touched_ms other"
      if "oldest = b" "bt_get marks b = Some mark" "bt_get marks c = Some other" for c mark other
      using oldest_mark_le [OF oldest(1), of mark c other] that full(1) assms(2)
      by (cases "c = agent") (auto simp: less_eq_prod_simp)
    show ?thesis
    proof (cases "oldest = b")
      case True
      with oldest(1) obtain mark where "bt_get marks b = Some mark"
        using oldest_mark_SomeD [OF oldest(1)] assms(2) by auto
      with True full oldest(2) earliest show ?thesis by auto
    next
      case False
      then show ?thesis using oldest(2) assms(2) by simp
    qed
  qed
  then show ?thesis using assms(2) by (auto simp: marks_apply_def Let_def)
qed

theorem marks_apply_others_witness:
  "bt_get (fst (marks_apply (sample_marked (lit ''alpha'')) (MuteRequest True) 9 bt_empty))
     (sample_marked (lit ''beta'')) = None"
  using marks_apply_others [of bt_empty "sample_marked (lit ''beta'')" "sample_marked (lit ''alpha'')"
      "MuteRequest True" 9]
  by (auto simp: sample_marked_def lit_def)

text \<open>
  Expiring snoozes never changes what is quiet now or later, afterwards no expired
  deadline is left and a second pass at the same time has nothing to do; and no request can
  snooze an agent for more than a day from the time the daemon reads.
\<close>

theorem snooze_expiry:
  assumes "now_ms \<le> t"
  shows "quiet_at (marks_state (fst (marks_expire now_ms marks)) agent) t =
      quiet_at (marks_state marks agent) t \<and>
    marks_expire now_ms (fst (marks_expire now_ms marks)) = (fst (marks_expire now_ms marks), False) \<and>
    (mk_snoozed_until_ms (requested_state (SnoozeRequest (Some minutes)) now_ms s) = Some deadline \<longrightarrow>
      unat deadline \<le> unat now_ms + 24 * 60 * 60000)"
  using marks_expire_quiet [OF assms] marks_expire_settles snooze_bounded by blast

theorem snooze_expiry_witness:
  "quiet_at (marks_state (fst (marks_expire 5 (bt_insert (sample_marked (lit ''alpha''))
       \<lparr>md_state = mark_state_default\<lparr>mk_snoozed_until_ms := Some 8\<rparr>, md_touched_ms = 1\<rparr> bt_empty)))
     (sample_marked (lit ''alpha''))) 6"
  by (subst snooze_expiry [THEN conjunct1]) (simp, code_simp)

text \<open>
  Whatever requests arrive, at most 512 agents are marked, and the file of marks is read
  back unchanged exactly for such a table.
\<close>

theorem marks_reachable_storable:
  assumes "reach marks_step bt_empty marks"
  shows "bt_len marks \<le> max_marked_agents \<and> restore_marks (persist_marks marks) = Inr marks"
  using marks_reach.reachable_holds [OF assms] marks_store.restore_persist
  by (simp add: marks_storable_def)

theorem marks_reachable_storable_witness:
  "restore_marks (persist_marks
     (fst (marks_apply (sample_marked (lit ''alpha'')) (PinRequest True) 9 bt_empty))) =
   Inr (fst (marks_apply (sample_marked (lit ''alpha'')) (PinRequest True) 9 bt_empty))"
  by (rule marks_reachable_storable [THEN conjunct2]) (rule reach_step, rule reach_start, rule marks_step_apply)

end
