(* ===== verification/Aliases.thy ===== *)
theory Aliases
  imports Samples
begin

text \<open>
  Local names, favourites and jump slots, \<open>src/src/aliases.rs\<close>. Everything is keyed by a
  qualified identity; a name also records what the host called the resource, so that a
  reused identity suspends the name instead of inheriting it.
\<close>

definition aliases_version :: u32 where
  "aliases_version = 1"

definition max_aliases :: nat where
  "max_aliases = 512"

definition max_favourites :: nat where
  "max_favourites = 64"

definition max_alias_characters :: nat where
  "max_alias_characters = 48"

definition jump_slot :: "u8 \<Rightarrow> bool" where
  "jump_slot slot \<longleftrightarrow> 1 \<le> slot \<and> slot \<le> 9"

datatype resource_ref =
    RefTarget target_session
  | RefWorkspace workspace_id
  | RefTab tab_id
  | RefPane pane_id
  | RefAgent agent_id

text \<open>The derived order compares the variant first and then the identity.\<close>

definition ref_key :: "resource_ref \<Rightarrow> nat \<times> ustring \<times> ustring \<times> ustring" where
  "ref_key r = (case r of
     RefTarget t \<Rightarrow> (0, ts_target t, ts_session t, [])
   | RefWorkspace i \<Rightarrow> (1, qid_key i)
   | RefTab i \<Rightarrow> (2, qid_key i)
   | RefPane i \<Rightarrow> (3, qid_key i)
   | RefAgent i \<Rightarrow> (4, qid_key i))"

lemma ref_key_inject [simp]: "ref_key r = ref_key r' \<longleftrightarrow> r = r'"
  by (auto simp: ref_key_def split: resource_ref.splits intro: target_session.expand)

instantiation resource_ref :: linorder
begin

definition less_eq_resource_ref :: "resource_ref \<Rightarrow> resource_ref \<Rightarrow> bool" where
  "less_eq_resource_ref r r' \<longleftrightarrow> ref_key r \<le> ref_key r'"

definition less_resource_ref :: "resource_ref \<Rightarrow> resource_ref \<Rightarrow> bool" where
  "less_resource_ref r r' \<longleftrightarrow> ref_key r < ref_key r'"

instance
proof
  fix x y z :: resource_ref
  show "(x < y) = (x \<le> y \<and> \<not> y \<le> x)"
    by (simp only: less_eq_resource_ref_def less_resource_ref_def less_le_not_le)
  show "x \<le> x" by (simp add: less_eq_resource_ref_def)
  show "x \<le> z" if "x \<le> y" "y \<le> z"
    using that by (auto simp: less_eq_resource_ref_def)
  show "x = y" if "x \<le> y" "y \<le> x"
    using that by (auto simp: less_eq_resource_ref_def dest: order_antisym)
  show "x \<le> y \<or> y \<le> x" by (auto simp: less_eq_resource_ref_def)
qed

end

definition show_resource_ref :: "resource_ref \<Rightarrow> ustring" where
  "show_resource_ref r = (case r of
     RefTarget t \<Rightarrow> show_target_session t
   | RefWorkspace i \<Rightarrow> show_qualified_id i
   | RefTab i \<Rightarrow> show_qualified_id i
   | RefPane i \<Rightarrow> show_qualified_id i
   | RefAgent i \<Rightarrow> show_qualified_id i)"

record alias_name =
  al_label :: ustring
  al_observed :: ustring

datatype alias_state = AliasCurrent | AliasSuspended

record aliases =
  as_names :: "(resource_ref, alias_name) btmap"
  as_favourites :: "resource_ref list"
  as_slots :: "(u8, resource_ref) btmap"

definition aliases_default :: aliases where
  "aliases_default = \<lparr>as_names = bt_empty, as_favourites = [], as_slots = bt_empty\<rparr>"

section \<open>Operations\<close>

definition alias_set :: "resource_ref \<Rightarrow> ustring \<Rightarrow> ustring \<Rightarrow> aliases \<Rightarrow> aliases result" where
  "alias_set resource label0 observed a =
     (let label = trim label0
      in if label = [] \<or> length label > max_alias_characters
         then Inl (lit ''a name must be 1 to '' @ show_nat max_alias_characters @ lit '' characters'')
         else if list_ex is_control label
         then Inl (lit ''a name must not contain control characters'')
         else if bt_len (as_names a) \<ge> max_aliases \<and> \<not> bt_contains resource (as_names a)
         then Inl (lit ''at most '' @ show_nat max_aliases @ lit '' names can be kept'')
         else Inr (a\<lparr>as_names := bt_insert resource \<lparr>al_label = label, al_observed = observed\<rparr>
           (as_names a)\<rparr>))"

definition alias_clear :: "resource_ref \<Rightarrow> aliases \<Rightarrow> aliases \<times> bool" where
  "alias_clear resource a =
     (a\<lparr>as_names := bt_remove resource (as_names a)\<rparr>, bt_contains resource (as_names a))"

definition alias_resolve :: "aliases \<Rightarrow> resource_ref \<Rightarrow> ustring \<Rightarrow> (ustring \<times> alias_state) option" where
  "alias_resolve a resource observed =
     map_option (\<lambda>name. (al_label name,
       if al_observed name = observed then AliasCurrent else AliasSuspended))
       (bt_get (as_names a) resource)"

definition alias_confirm :: "resource_ref \<Rightarrow> ustring \<Rightarrow> aliases \<Rightarrow> aliases \<times> bool" where
  "alias_confirm resource observed a =
     (case bt_get (as_names a) resource of
        None \<Rightarrow> (a, False)
      | Some name \<Rightarrow> (a\<lparr>as_names := bt_insert resource (name\<lparr>al_observed := observed\<rparr>) (as_names a)\<rparr>, True))"

definition favourite :: "resource_ref \<Rightarrow> aliases \<Rightarrow> (aliases \<times> bool) result" where
  "favourite resource a =
     (if resource \<in> set (as_favourites a)
      then Inr (a\<lparr>as_favourites := remove1 resource (as_favourites a)\<rparr>, False)
      else if length (as_favourites a) \<ge> max_favourites
      then Inl (lit ''at most '' @ show_nat max_favourites @ lit '' favourites can be kept'')
      else Inr (a\<lparr>as_favourites := as_favourites a @ [resource]\<rparr>, True))"

definition is_favourite :: "aliases \<Rightarrow> resource_ref \<Rightarrow> bool" where
  "is_favourite a resource \<longleftrightarrow> resource \<in> set (as_favourites a)"

definition set_slot :: "u8 \<Rightarrow> resource_ref option \<Rightarrow> aliases \<Rightarrow> aliases result" where
  "set_slot slot resource a =
     (if \<not> jump_slot slot
      then Inl (lit ''a jump slot must be between '' @ show_nat 1 @ lit '' and '' @ show_nat 9)
      else Inr (case resource of
          Some r \<Rightarrow> a\<lparr>as_slots := bt_insert slot r (bt_retain (\<lambda>_ held. held \<noteq> r) (as_slots a))\<rparr>
        | None \<Rightarrow> a\<lparr>as_slots := bt_remove slot (as_slots a)\<rparr>))"

definition slot_of :: "aliases \<Rightarrow> u8 \<Rightarrow> resource_ref option" where
  "slot_of a slot = bt_get (as_slots a) slot"

definition target_of :: "resource_ref \<Rightarrow> target_session" where
  "target_of resource = (case resource of
     RefTarget t \<Rightarrow> t
   | RefWorkspace i \<Rightarrow> qid_target_session i
   | RefTab i \<Rightarrow> qid_target_session i
   | RefPane i \<Rightarrow> qid_target_session i
   | RefAgent i \<Rightarrow> qid_target_session i)"

definition belongs :: "resource_ref \<Rightarrow> target_session \<Rightarrow> bool" where
  "belongs resource target \<longleftrightarrow> target_of resource = target"

definition alias_targets :: "aliases \<Rightarrow> target_session btset" where
  "alias_targets a = bs_collect (map target_of
     (bt_keys (as_names a) @ as_favourites a @ bt_values (as_slots a)))"

definition alias_size :: "aliases \<Rightarrow> nat" where
  "alias_size a = bt_len (as_names a) + length (as_favourites a) + bt_len (as_slots a)"

definition forget_target :: "target_session \<Rightarrow> aliases \<Rightarrow> aliases \<times> bool" where
  "forget_target target a =
     (let after = a\<lparr>as_names := bt_retain (\<lambda>resource _. \<not> belongs resource target) (as_names a),
        as_favourites := filter (\<lambda>resource. \<not> belongs resource target) (as_favourites a),
        as_slots := bt_retain (\<lambda>_ resource. \<not> belongs resource target) (as_slots a)\<rparr>
      in (after, alias_size a \<noteq> alias_size after))"

section \<open>The persisted form\<close>

record persisted_aliases =
  pl_version :: u32
  pl_names :: "(resource_ref \<times> alias_name) list"
  pl_favourites :: "resource_ref list"
  pl_slots :: "(u8 \<times> resource_ref) list"

definition persist_aliases :: "aliases \<Rightarrow> persisted_aliases" where
  "persist_aliases a =
     \<lparr>pl_version = aliases_version, pl_names = bt_entries (as_names a),
      pl_favourites = as_favourites a, pl_slots = bt_entries (as_slots a)\<rparr>"

definition restore_aliases :: "persisted_aliases \<Rightarrow> aliases result" where
  "restore_aliases p =
     (if pl_version p \<noteq> aliases_version
      then Inl (lit ''persisted aliases have an unsupported version'')
      else if length (pl_names p) > max_aliases \<or> length (pl_favourites p) > max_favourites
      then Inl (lit ''persisted aliases hold more than the limits allow'')
      else Inr \<lparr>as_names = bt_collect (pl_names p), as_favourites = pl_favourites p,
        as_slots = bt_collect (filter (\<lambda>e. jump_slot (fst e)) (pl_slots p))\<rparr>)"

section \<open>The invariant\<close>

definition alias_label_ok :: "ustring \<Rightarrow> bool" where
  "alias_label_ok label \<longleftrightarrow> label \<noteq> [] \<and> length label \<le> max_alias_characters \<and>
     (\<forall>c \<in> set label. \<not> is_control c)"

definition aliases_wf :: "aliases \<Rightarrow> bool" where
  [inv_defs]: "aliases_wf a \<longleftrightarrow>
     bt_len (as_names a) \<le> max_aliases \<and>
     (\<forall>name \<in> set (bt_values (as_names a)). alias_label_ok (al_label name)) \<and>
     length (as_favourites a) \<le> max_favourites \<and> distinct (as_favourites a) \<and>
     (\<forall>slot \<in> set (bt_keys (as_slots a)). jump_slot slot) \<and>
     inj_on (bt_get (as_slots a)) (set (bt_keys (as_slots a)))"

inductive aliases_step :: "aliases \<Rightarrow> aliases \<Rightarrow> bool" where
  step_set: "alias_set resource label observed a = Inr b \<Longrightarrow> aliases_step a b"
| step_clear: "aliases_step a (fst (alias_clear resource a))"
| step_confirm: "aliases_step a (fst (alias_confirm resource observed a))"
| step_favourite: "favourite resource a = Inr (b, added) \<Longrightarrow> aliases_step a b"
| step_slot: "set_slot slot resource a = Inr b \<Longrightarrow> aliases_step a b"
| step_forget: "aliases_step a (fst (forget_target target a))"

inductive_cases aliases_stepE: "aliases_step a b"

lemma alias_set_wf:
  assumes "aliases_wf a" "alias_set resource label observed a = Inr b"
  shows "aliases_wf b"
proof -
  have "alias_label_ok (trim label)"
    using assms(2) by (auto simp: alias_set_def Let_def alias_label_ok_def list_ex_iff split: if_splits)
  with assms show ?thesis
    by (auto simp: aliases_wf_def alias_set_def Let_def bt_len_insert ball_bt_values split: if_splits)
qed

lemma alias_clear_wf: "aliases_wf a \<Longrightarrow> aliases_wf (fst (alias_clear resource a))"
  by (auto simp: aliases_wf_def alias_clear_def bt_len_remove ball_bt_values split: if_splits)

lemma alias_confirm_wf: "aliases_wf a \<Longrightarrow> aliases_wf (fst (alias_confirm resource observed a))"
  by (auto simp: aliases_wf_def alias_confirm_def bt_len_insert ball_bt_values
      split: if_splits option.split)

lemma favourite_wf: "aliases_wf a \<Longrightarrow> favourite resource a = Inr (b, added) \<Longrightarrow> aliases_wf b"
  by (auto simp: aliases_wf_def favourite_def length_remove1 split: if_splits)

lemma set_slot_wf: "aliases_wf a \<Longrightarrow> set_slot slot resource a = Inr b \<Longrightarrow> aliases_wf b"
  by (auto simp: aliases_wf_def set_slot_def set_bt_keys inj_on_def split: if_splits option.splits)

lemma forget_target_wf: "aliases_wf a \<Longrightarrow> aliases_wf (fst (forget_target target a))"
  by (auto simp: aliases_wf_def forget_target_def Let_def set_bt_keys ball_bt_values inj_on_def
      intro: order_trans [OF bt_len_retain] order_trans [OF length_filter_le]
      split: if_splits option.splits)

lemma aliases_default_wf: "aliases_wf aliases_default"
  by (simp add: aliases_wf_def aliases_default_def set_bt_values)

interpretation aliases_reach: kept_invariant aliases_default aliases_step aliases_wf
  by unfold_locales
    (auto elim!: aliases_stepE intro: aliases_default_wf alias_set_wf alias_clear_wf alias_confirm_wf
      favourite_wf set_slot_wf forget_target_wf)

section \<open>Behaviour\<close>

lemma alias_set_names:
  "alias_set resource label observed a = Inr b \<Longrightarrow>
   as_names b = bt_insert resource \<lparr>al_label = trim label, al_observed = observed\<rparr> (as_names a)"
  by (auto simp: alias_set_def Let_def split: if_splits)

lemma alias_reused_suspended:
  assumes "alias_set resource label observed a = Inr b"
  shows "alias_resolve b resource now =
    Some (trim label, if now = observed then AliasCurrent else AliasSuspended)"
  by (simp add: alias_resolve_def alias_set_names [OF assms])

lemma alias_set_others:
  assumes "alias_set resource label observed a = Inr b" "other \<noteq> resource"
  shows "alias_resolve b other now = alias_resolve a other now"
  using assms(2) by (simp add: alias_resolve_def alias_set_names [OF assms(1)])

lemma alias_confirm_current:
  "bt_get (as_names a) resource = Some name \<Longrightarrow>
   alias_resolve (fst (alias_confirm resource observed a)) resource observed =
     Some (al_label name, AliasCurrent)"
  by (simp add: alias_confirm_def alias_resolve_def)

lemma alias_targets_iff:
  "bs_mem t (alias_targets a) \<longleftrightarrow>
     (\<exists>r. target_of r = t \<and> (bt_contains r (as_names a) \<or> is_favourite a r \<or> (\<exists>s. slot_of a s = Some r)))"
  by (auto simp: alias_targets_def is_favourite_def slot_of_def image_iff bt_keys_iff set_bt_values)

section \<open>The file is read back\<close>

definition aliases_storable :: "aliases \<Rightarrow> bool" where
  "aliases_storable a \<longleftrightarrow>
     bt_len (as_names a) \<le> max_aliases \<and> length (as_favourites a) \<le> max_favourites \<and>
     (\<forall>slot \<in> set (bt_keys (as_slots a)). jump_slot slot)"

interpretation aliases_store: persisted_store persist_aliases restore_aliases aliases_storable
proof unfold_locales
  show "restore_aliases (persist_aliases a) = Inr a" if ok: "aliases_storable a" for a
  proof -
    have "filter (\<lambda>e. jump_slot (fst e)) (bt_entries (as_slots a)) = bt_entries (as_slots a)"
      using ok by (auto simp: aliases_storable_def bt_keys_def intro: filter_True)
    with ok show ?thesis
      by (simp add: restore_aliases_def persist_aliases_def aliases_storable_def bt_len_def)
  qed
  show "aliases_storable a" if "restore_aliases p = Inr a" for p a
    using that bt_len_collect [of "pl_names p"]
    by (auto simp: restore_aliases_def aliases_storable_def bt_collect_keys split: if_splits)
qed

lemma aliases_wf_storable: "aliases_wf a \<Longrightarrow> aliases_storable a"
  by (simp add: aliases_wf_def aliases_storable_def)

section \<open>Properties\<close>

text \<open>
  A name is never inherited by a reused identity: after a resource was named, it is
  shown as current exactly while the host calls the resource what it was called then, and
  suspended otherwise; no other resource's name changes, and confirming makes it current.
\<close>

theorem alias_needs_evidence:
  assumes "alias_set resource label observed a = Inr b"
  shows "alias_resolve b resource now =
      Some (trim label, if now = observed then AliasCurrent else AliasSuspended) \<and>
    (other \<noteq> resource \<longrightarrow> alias_resolve b other now = alias_resolve a other now) \<and>
    alias_resolve (fst (alias_confirm resource now b)) resource now = Some (trim label, AliasCurrent)"
  using alias_reused_suspended [OF assms] alias_set_others [OF assms]
    alias_confirm_current [of b resource] alias_set_names [OF assms] by simp

definition sample_ref :: resource_ref where
  "sample_ref = RefPane (sample_pane (lit ''alpha''))"

theorem alias_needs_evidence_witness:
  "\<exists>b. alias_set sample_ref (lit '' compiler '') (lit ''w1'') aliases_default = Inr b \<and>
     alias_resolve b sample_ref (lit ''w9'') = Some (lit ''compiler'', AliasSuspended)"
proof -
  have "is_ok (alias_set sample_ref (lit '' compiler '') (lit ''w1'') aliases_default)" by code_simp
  then obtain b where b: "alias_set sample_ref (lit '' compiler '') (lit ''w1'') aliases_default = Inr b"
    by (cases "alias_set sample_ref (lit '' compiler '') (lit ''w1'') aliases_default") auto
  have "trim (lit '' compiler '') = lit ''compiler''" "lit ''w9'' \<noteq> lit ''w1''" by code_simp+
  with alias_needs_evidence [OF b, of "lit ''w9''", THEN conjunct1] b show ?thesis by simp
qed

text \<open>
  A slot holds one thing and a thing answers to one slot: after an assignment the
  resource is in that slot and in no other, and every other slot keeps what it held.
\<close>

theorem set_slot_slots:
  assumes "aliases_wf a" "set_slot slot (Some resource) a = Inr b"
  shows "(slot_of b s = Some resource \<longleftrightarrow> s = slot) \<and>
    (s \<noteq> slot \<longrightarrow> slot_of a s \<noteq> Some resource \<longrightarrow> slot_of b s = slot_of a s)"
  using assms by (auto simp: set_slot_def slot_of_def split: if_splits option.splits)

theorem set_slot_slots_witness:
  "\<exists>b. set_slot 3 (Some sample_ref) aliases_default = Inr b \<and> slot_of b 3 = Some sample_ref"
proof -
  obtain b where b: "set_slot 3 (Some sample_ref) aliases_default = Inr b"
    by (simp add: set_slot_def jump_slot_def)
  with set_slot_slots [OF aliases_default_wf b, of 3] show ?thesis by simp
qed

text \<open>
  Whatever sequence of requests is accepted, names, favourites and slots stay within
  their bounds, no favourite is listed twice, no resource sits in two slots, every name is 1
  to 48 printable characters, and the file of aliases is read back unchanged.
\<close>

theorem aliases_reachable_wf:
  assumes "reach aliases_step aliases_default a"
  shows "aliases_wf a \<and> restore_aliases (persist_aliases a) = Inr a"
proof
  show wf: "aliases_wf a" by (rule aliases_reach.reachable_holds [OF assms])
  show "restore_aliases (persist_aliases a) = Inr a"
    by (rule aliases_store.restore_persist) (rule aliases_wf_storable [OF wf])
qed

theorem aliases_reachable_wf_witness:
  "restore_aliases (persist_aliases (fst (forget_target (TargetSession [] []) aliases_default))) =
   Inr (fst (forget_target (TargetSession [] []) aliases_default))"
  by (rule aliases_reachable_wf [THEN conjunct2]) (rule reach_step, rule reach_start, rule step_forget)

text \<open>
  Forgetting a target removes exactly what belongs to it: afterwards the targets that
  names, favourites and slots refer to are the ones before, less that target.
\<close>

theorem forget_target_exact:
  "bs_mem t (alias_targets (fst (forget_target target a))) \<longleftrightarrow> t \<noteq> target \<and> bs_mem t (alias_targets a)"
  by (auto simp: alias_targets_iff forget_target_def Let_def is_favourite_def slot_of_def belongs_def
      bt_get_retain_Some simp del: bt_get_retain)

end
