(* ===== verification/Agent_Card.thy ===== *)
theory Agent_Card
  imports Attention Agent_Marks Aliases
begin

text \<open>
  Agent cards, \<open>src/src/agent_card.rs\<close>: the inbox projection the daemon computes from the
  federation, the attention history and the local marks and names, and the resolution of a
  card into a live route. The projection is a state machine: ranks, history and the
  revision describe the change from what was published before.
\<close>

definition agent_card_projection_version :: u32 where
  "agent_card_projection_version = 2"

definition max_history_cards :: nat where
  "max_history_cards = 64"

definition max_label_characters :: nat where
  "max_label_characters = 128"

definition max_status_characters :: nat where
  "max_status_characters = 64"

datatype agent_card_section = NeedsYou | WorkingSection | Recent

datatype agent_activity = NeedsInput | WorkingActivity | IdleActivity | UnknownActivity | Gone

definition activity_of_phase :: "agent_phase \<Rightarrow> agent_activity" where
  "activity_of_phase phase = (case phase of
     PhaseAttention \<Rightarrow> NeedsInput | PhaseWorking \<Rightarrow> WorkingActivity
   | PhaseIdle \<Rightarrow> IdleActivity | PhaseUnknown \<Rightarrow> UnknownActivity)"

record agent_card =
  ac_agent :: agent_id
  ac_pane :: "pane_id option"
  ac_title :: ustring
  ac_workspace :: ustring
  ac_tab :: ustring
  ac_pane_label :: ustring
  ac_provider :: "ustring option"
  ac_activity :: agent_activity
  ac_status :: ustring
  ac_section :: agent_card_section
  ac_unread :: bool
  ac_stale :: bool
  ac_actionable :: bool
  ac_last_change_ms :: "u64 option"
  ac_marks :: agent_mark_state
  ac_alias :: "ustring option"
  ac_alias_suspended :: bool
  ac_favourite :: bool

record agent_card_projection =
  cp_version :: u32
  cp_revision :: u64
  cp_needs_you :: "agent_card list"
  cp_working :: "agent_card list"
  cp_recent :: "agent_card list"

definition projection_cards :: "agent_card_projection \<Rightarrow> agent_card list" where
  "projection_cards p = cp_needs_you p @ cp_working p @ cp_recent p"

definition projection_card :: "agent_card_projection \<Rightarrow> agent_id \<Rightarrow> agent_card option" where
  "projection_card p agent = find (\<lambda>card. ac_agent card = agent) (projection_cards p)"

record local_view =
  lv_marks :: agent_marks
  lv_aliases :: aliases
  lv_now_ms :: u64

record card_route =
  cr_pane :: pane_id
  cr_generation :: u64

datatype card_route_error = UnknownTarget | TargetUnavailable | AgentGone | PaneMissing | Ambiguous

definition card_route_error_message :: "card_route_error \<Rightarrow> ustring" where
  "card_route_error_message e = (case e of
     UnknownTarget \<Rightarrow> lit ''that agent's target is no longer in the federation''
   | TargetUnavailable \<Rightarrow> lit ''that agent's target is not connected''
   | AgentGone \<Rightarrow> lit ''that agent is no longer running''
   | PaneMissing \<Rightarrow> lit ''that agent's pane is no longer open''
   | Ambiguous \<Rightarrow> lit ''that agent's location is ambiguous'')"

record tracked =
  tk_rank :: u64
  tk_section :: agent_card_section
  tk_card :: agent_card

record published =
  pb_needs_you :: "agent_card list"
  pb_working :: "agent_card list"
  pb_recent :: "agent_card list"

record agent_card_index =
  ci_tracked :: "(agent_id, tracked) btmap"
  ci_history :: "agent_card list"
  ci_next_rank :: u64
  ci_revision :: u64
  ci_published :: "published option"

definition card_index_default :: agent_card_index where
  "card_index_default = \<lparr>ci_tracked = bt_empty, ci_history = [], ci_next_rank = 0,
     ci_revision = 0, ci_published = None\<rparr>"

section \<open>Identities\<close>

definition pane_agent_key :: "pane_id \<Rightarrow> agent_id" where
  "pane_agent_key pane = QualifiedId (qid_target pane) (qid_session pane)
     (lit ''pane'' @ [agent_key_separator] @ qid_resource pane)"

definition agent_key :: "agent_state \<Rightarrow> agent_id" where
  "agent_key agent = (case ag_session agent of
     Some s \<Rightarrow> QualifiedId (qid_target (ag_pane agent)) (qid_session (ag_pane agent))
       (lit ''session'' @ [agent_key_separator] @ sr_kind s @ [agent_key_separator] @ sr_value s
         @ [agent_key_separator] @ sr_source s @ [agent_key_separator] @ sr_agent s)
   | None \<Rightarrow> pane_agent_key (ag_pane agent))"

definition agent_key_for_pane :: "federation_state \<Rightarrow> pane_id \<Rightarrow> agent_id" where
  "agent_key_for_pane st pane =
     unwrap_or (pane_agent_key pane) (map_option agent_key
       (Option.bind (Option.bind (bt_get (fs_targets st) (qid_target_session pane)) tr_snapshot)
          (\<lambda>snapshot. bt_get (ns_agents snapshot) pane)))"

section \<open>Building a card\<close>

definition card_section :: "agent_mark_state \<Rightarrow> u64 \<Rightarrow> agent_activity \<Rightarrow> agent_card_section" where
  "card_section marks now_ms activity =
     (if quiet_at marks now_ms then Recent
      else (case activity of
          NeedsInput \<Rightarrow> NeedsYou | WorkingActivity \<Rightarrow> WorkingSection
        | IdleActivity \<Rightarrow> Recent | UnknownActivity \<Rightarrow> Recent | Gone \<Rightarrow> Recent))"

definition last_change :: "attention_index \<Rightarrow> pane_id \<Rightarrow> u64 option" where
  "last_change attention pane =
     map_option ae_occurred_at_ms (find (\<lambda>event. ae_pane event = pane) (rev (at_events attention)))"

definition build_card ::
    "agent_state \<Rightarrow> normalized_snapshot \<Rightarrow> attention_index \<Rightarrow> bool \<Rightarrow> local_view \<Rightarrow> agent_card" where
  "build_card agent snapshot attention live locally =
     (let pane = bt_get (ns_panes snapshot) (ag_pane agent);
          status = bounded_metadata (unwrap_or (lit ''unknown'')
            (or_else (ag_status agent) (Option.bind pane pn_agent_status))) max_status_characters;
          activity = activity_of_phase (phase_of status (unwrap_or False (ag_interactive_ready agent)));
          key = agent_key agent;
          marked = marks_state (lv_marks locally) key;
          reference = RefAgent key;
          section = card_section marked (lv_now_ms locally) activity;
          workspace = unwrap_or (lit ''unassigned'') (map_option (\<lambda>workspace.
            unwrap_or (qid_resource workspace)
              (Option.bind (bt_get (ns_workspaces snapshot) workspace) ws_label))
            (Option.bind pane pn_workspace));
          tab = unwrap_or (lit ''unassigned'') (map_option (\<lambda>tab.
            unwrap_or (qid_resource tab) (Option.bind (bt_get (ns_tabs snapshot) tab) tb_label))
            (Option.bind pane pn_tab));
          title = bounded_metadata (unwrap_or (qid_resource (ag_pane agent))
            (or_else (or_else (ag_name agent) (Option.bind pane pn_agent)) (Option.bind pane pn_label)))
            max_label_characters;
          (alias_label, alias_suspended) =
            (case alias_resolve (lv_aliases locally) reference title of
               Some (label, AliasCurrent) \<Rightarrow> (Some label, False)
             | Some (_, AliasSuspended) \<Rightarrow> (None, True)
             | None \<Rightarrow> (None, False))
      in \<lparr>ac_agent = key, ac_pane = Some (ag_pane agent), ac_title = title,
          ac_workspace = bounded_metadata workspace max_label_characters,
          ac_tab = bounded_metadata tab max_label_characters,
          ac_pane_label = bounded_metadata
            (unwrap_or (qid_resource (ag_pane agent)) (Option.bind pane pn_label)) max_label_characters,
          ac_provider = map_option (\<lambda>provider. bounded_metadata provider max_label_characters)
            (ag_agent agent),
          ac_activity = activity, ac_status = status, ac_section = section,
          ac_unread = has_unread_for_pane attention (ag_pane agent), ac_stale = \<not> live,
          ac_actionable = (live \<and> pane \<noteq> None),
          ac_last_change_ms = last_change attention (ag_pane agent),
          ac_marks = marked, ac_alias = alias_label, ac_alias_suspended = alias_suspended,
          ac_favourite = is_favourite (lv_aliases locally) reference\<rparr>)"

section \<open>The projection\<close>

text \<open>Every agent of every target that has a snapshot, with whether the target is live.\<close>

definition target_agents ::
    "target_runtime_state \<Rightarrow> (agent_state \<times> normalized_snapshot \<times> bool) list" where
  "target_agents target =
     (case tr_snapshot target of
        None \<Rightarrow> []
      | Some snapshot \<Rightarrow> map (\<lambda>agent. (agent, snapshot, tr_connection target = Live))
          (bt_values (ns_agents snapshot)))"

definition snapshot_agents ::
    "federation_state \<Rightarrow> (agent_state \<times> normalized_snapshot \<times> bool) list" where
  "snapshot_agents st = concat (map target_agents (bt_values (fs_targets st)))"

definition see_one ::
    "attention_index \<Rightarrow> local_view \<Rightarrow> agent_state \<times> normalized_snapshot \<times> bool
      \<Rightarrow> (agent_id, agent_card) btmap \<times> agent_id btset \<Rightarrow> (agent_id, agent_card) btmap \<times> agent_id btset" where
  "see_one attention locally = (\<lambda>(agent, snapshot, live) (seen, ambiguous).
     (let key = agent_key agent
      in (bt_insert key (build_card agent snapshot attention live locally) seen,
          if bt_contains key seen then bs_insert key ambiguous else ambiguous)))"

definition seen_cards ::
    "federation_state \<Rightarrow> attention_index \<Rightarrow> local_view \<Rightarrow> (agent_id, agent_card) btmap" where
  "seen_cards st attention locally =
     (let (seen, ambiguous) = fold (see_one attention locally) (snapshot_agents st) (bt_empty, bt_empty)
      in fold (\<lambda>key. bt_adjust key (\<lambda>card. card\<lparr>ac_actionable := False\<rparr>)) (bt_keys ambiguous) seen)"

definition retire :: "agent_card \<Rightarrow> agent_card_index \<Rightarrow> agent_card_index" where
  "retire gone idx = idx\<lparr>ci_history := take max_history_cards
     (gone\<lparr>ac_pane := None, ac_activity := Gone, ac_section := Recent, ac_actionable := False,
        ac_stale := False\<rparr> # ci_history idx)\<rparr>"

definition target_is_live :: "federation_state \<Rightarrow> target_session \<Rightarrow> bool option" where
  "target_is_live st key = map_option (\<lambda>target. tr_connection target = Live) (bt_get (fs_targets st) key)"

text \<open>What each tracked card becomes before the cards that were seen are filed.\<close>

definition vanished_cards ::
    "federation_state \<Rightarrow> (agent_id, agent_card) btmap \<Rightarrow> (agent_id, tracked) btmap \<Rightarrow> agent_card list" where
  "vanished_cards st seen held =
     map (\<lambda>e. tk_card (snd e)) (filter (\<lambda>e. \<not> bt_contains (fst e) seen
       \<and> target_is_live st (qid_target_session (fst e)) = Some True) (bt_entries held))"

definition retained_cards ::
    "federation_state \<Rightarrow> (agent_id, agent_card) btmap \<Rightarrow> (agent_id, tracked) btmap
      \<Rightarrow> (agent_id, tracked) btmap" where
  "retained_cards st seen held =
     bt_update (\<lambda>key t. if bt_contains key seen then t
         else t\<lparr>tk_card := (tk_card t)\<lparr>ac_stale := True, ac_actionable := False\<rparr>\<rparr>)
       (bt_retain (\<lambda>key _. bt_contains key seen
          \<or> target_is_live st (qid_target_session key) = Some False) held)"

definition track_one :: "agent_id \<times> agent_card \<Rightarrow> agent_card_index \<Rightarrow> agent_card_index" where
  "track_one = (\<lambda>(key, card) idx.
     (case bt_get (ci_tracked idx) key of
        Some t \<Rightarrow>
          if tk_section t = ac_section card
          then idx\<lparr>ci_tracked := bt_insert key (t\<lparr>tk_card := card\<rparr>) (ci_tracked idx)\<rparr>
          else idx\<lparr>ci_tracked := bt_insert key
                 \<lparr>tk_rank = ci_next_rank idx, tk_section = ac_section card, tk_card = card\<rparr> (ci_tracked idx),
               ci_next_rank := saturating_add (ci_next_rank idx) 1\<rparr>
      | None \<Rightarrow>
          idx\<lparr>ci_tracked := bt_insert key
                 \<lparr>tk_rank = ci_next_rank idx, tk_section = ac_section card, tk_card = card\<rparr> (ci_tracked idx),
              ci_next_rank := saturating_add (ci_next_rank idx) 1\<rparr>))"

text \<open>Pinned first, then the rank, then the identity.\<close>

definition section_order :: "tracked \<Rightarrow> bool \<times> u64 \<times> agent_id" where
  "section_order t = (\<not> mk_pinned (ac_marks (tk_card t)), tk_rank t, ac_agent (tk_card t))"

definition section_cards :: "(agent_id, tracked) btmap \<Rightarrow> agent_card_section \<Rightarrow> agent_card list" where
  "section_cards held section =
     map tk_card (sort_key section_order (filter (\<lambda>t. tk_section t = section) (bt_values held)))"

definition publish :: "agent_card_index \<Rightarrow> agent_card_index \<times> agent_card_projection" where
  "publish idx =
     (let now = \<lparr>pb_needs_you = section_cards (ci_tracked idx) NeedsYou,
            pb_working = section_cards (ci_tracked idx) WorkingSection,
            pb_recent = section_cards (ci_tracked idx) Recent @ ci_history idx\<rparr>;
          revision = (if ci_published idx \<noteq> Some now then saturating_add (ci_revision idx) 1
            else ci_revision idx)
      in (idx\<lparr>ci_revision := revision, ci_published := Some now\<rparr>,
          \<lparr>cp_version = agent_card_projection_version, cp_revision = revision,
           cp_needs_you = pb_needs_you now, cp_working = pb_working now, cp_recent = pb_recent now\<rparr>))"

definition project ::
    "federation_state \<Rightarrow> attention_index \<Rightarrow> local_view \<Rightarrow> agent_card_index
      \<Rightarrow> agent_card_index \<times> agent_card_projection" where
  "project st attention locally idx =
     (let seen = seen_cards st attention locally;
          vanished = vanished_cards st seen (ci_tracked idx);
          idx1 = idx\<lparr>ci_tracked := retained_cards st seen (ci_tracked idx)\<rparr>;
          idx2 = fold retire vanished idx1;
          idx3 = fold track_one (bt_entries seen) idx2
      in publish idx3)"

section \<open>Routes\<close>

definition resolve :: "agent_id \<Rightarrow> federation_state \<Rightarrow> card_route_error + card_route" where
  "resolve agent st =
     and_then (ok_or (bt_get (fs_targets st) (qid_target_session agent)) UnknownTarget) (\<lambda>target.
     if tr_connection target \<noteq> Live then Inl TargetUnavailable
     else and_then (ok_or (tr_snapshot target) TargetUnavailable) (\<lambda>snapshot.
       (case filter (\<lambda>held. agent_key held = agent) (bt_values (ns_agents snapshot)) of
          [] \<Rightarrow> Inl AgentGone
        | found # others \<Rightarrow>
            if others \<noteq> [] then Inl Ambiguous
            else if \<not> bt_contains (ag_pane found) (ns_panes snapshot) then Inl PaneMissing
            else Inr \<lparr>cr_pane = ag_pane found, cr_generation = tr_connection_generation target\<rparr>)))"

section \<open>Identities are told apart\<close>

text \<open>An agent whose session identity was admitted has no separator in its fields.\<close>

definition session_clean :: "agent_session_ref \<Rightarrow> bool" where
  "session_clean s \<longleftrightarrow> (\<forall>f \<in> {sr_kind s, sr_value s, sr_source s, sr_agent s}. agent_key_separator \<notin> set f)"

definition agent_clean :: "agent_state \<Rightarrow> bool" where
  "agent_clean agent \<longleftrightarrow> (\<forall>s. ag_session agent = Some s \<longrightarrow> session_clean s)"

lemma agent_key_session [simp]: "qid_target_session (agent_key agent) = qid_target_session (ag_pane agent)"
  by (simp add: agent_key_def pane_agent_key_def qid_target_session_def split: option.split)

lemma pane_agent_key_inject [simp]: "pane_agent_key p = pane_agent_key q \<longleftrightarrow> p = q"
  by (cases p; cases q) (simp add: pane_agent_key_def)

lemma append_separator_inject:
  "c \<notin> set xs \<Longrightarrow> c \<notin> set xs' \<Longrightarrow> xs @ c # ys = xs' @ c # ys' \<longleftrightarrow> xs = xs' \<and> ys = ys'"
proof (induction xs arbitrary: xs')
  case Nil
  then show ?case by (cases xs') auto
next
  case (Cons x xs)
  then show ?case by (cases xs') auto
qed

lemma agent_key_tagged:
  "pane_agent_key p \<noteq> QualifiedId t s (lit ''session'' @ rest)"
  by (simp add: pane_agent_key_def lit_def)

lemma session_field_clean: "session_field J v key = Some f \<Longrightarrow> agent_key_separator \<notin> set f"
  by (auto simp: session_field_def bounded_identity_def split: bind_splits if_splits)

lemma agent_session_clean: "agent_session J v = Some s \<Longrightarrow> session_clean s"
  by (auto simp: agent_session_def session_clean_def bind_eq_Some_conv dest!: session_field_clean)

lemma agent_states_clean:
  assumes "a \<in> set (bt_values (ns_agents (normalized_from_value J target v)))"
  shows "agent_clean a"
proof -
  obtain w where "ag_session a = agent_session J w"
    using assms
    by (auto simp: normalized_from_value_def agent_states_def set_bt_values set_map_filter Let_def
        dest!: bt_collect_get)
  then show ?thesis by (auto simp: agent_clean_def intro: agent_session_clean)
qed

section \<open>A route is the agent's own\<close>

lemma resolve_Inr:
  "resolve agent st = Inr route \<longleftrightarrow>
     (\<exists>target snapshot found. bt_get (fs_targets st) (qid_target_session agent) = Some target \<and>
        tr_connection target = Live \<and> tr_snapshot target = Some snapshot \<and>
        filter (\<lambda>held. agent_key held = agent) (bt_values (ns_agents snapshot)) = [found] \<and>
        bt_contains (ag_pane found) (ns_panes snapshot) \<and>
        route = \<lparr>cr_pane = ag_pane found, cr_generation = tr_connection_generation target\<rparr>)"
proof (cases "bt_get (fs_targets st) (qid_target_session agent)")
  case None
  then show ?thesis by (simp add: resolve_def)
next
  case target: (Some target)
  show ?thesis
  proof (cases "tr_snapshot target")
    case None
    with target show ?thesis by (simp add: resolve_def)
  next
    case (Some snapshot)
    with target show ?thesis
      by (cases "filter (\<lambda>held. agent_key held = agent) (bt_values (ns_agents snapshot))")
        (auto simp: resolve_def)
  qed
qed

section \<open>What the projection sees\<close>

lemma build_card_simps [simp]:
  "ac_agent (build_card agent s att live v) = agent_key agent"
  "ac_pane (build_card agent s att live v) = Some (ag_pane agent)"
  "ac_actionable (build_card agent s att live v) \<longleftrightarrow> live \<and> bt_contains (ag_pane agent) (ns_panes s)"
  "ac_stale (build_card agent s att live v) \<longleftrightarrow> \<not> live"
  "ac_section (build_card agent s att live v) =
     card_section (marks_state (lv_marks v) (agent_key agent)) (lv_now_ms v)
       (ac_activity (build_card agent s att live v))"
  by (simp_all add: build_card_def Let_def split: prod.split)

text \<open>The fold of \<open>see_one\<close>: the last agent with a key is shown, and a key that occurs twice
  is ambiguous.\<close>

definition seen_key :: "agent_state \<times> normalized_snapshot \<times> bool \<Rightarrow> agent_id" where
  "seen_key x = agent_key (fst x)"

definition seen_card :: "attention_index \<Rightarrow> local_view \<Rightarrow> agent_state \<times> normalized_snapshot \<times> bool \<Rightarrow> agent_card" where
  "seen_card att v x = build_card (fst x) (fst (snd x)) att (snd (snd x)) v"

lemma see_one_eq:
  "see_one att v x (seen, amb) =
     (bt_insert (seen_key x) (seen_card att v x) seen,
      if bt_contains (seen_key x) seen then bs_insert (seen_key x) amb else amb)"
  by (cases x) (simp add: see_one_def seen_key_def seen_card_def Let_def)

lemma see_loop_seen:
  "fst (fold (see_one att v) xs (seen, amb)) =
     fold (\<lambda>x. bt_insert (seen_key x) (seen_card att v x)) xs seen"
  by (induction xs arbitrary: seen amb) (simp_all add: see_one_eq)

definition key_count :: "federation_state \<Rightarrow> agent_id \<Rightarrow> nat" where
  "key_count st key = length (filter (\<lambda>x. seen_key x = key) (snapshot_agents st))"

lemma see_loop_ambiguous:
  "bs_mem key (snd (fold (see_one att v) xs (seen, amb))) \<longleftrightarrow>
     bs_mem key amb \<or>
     2 \<le> length (filter (\<lambda>x. seen_key x = key) xs) + (if bt_contains key seen then 1 else 0)"
  by (induction xs arbitrary: seen amb) (auto simp: see_one_eq)

lemma fold_adjust_get:
  assumes "\<And>x. f (f x) = f x"
  shows "bt_get (fold (\<lambda>key. bt_adjust key f) ks m) k =
    (if k \<in> set ks then map_option f (bt_get m k) else bt_get m k)"
  by (induction ks arbitrary: m) (auto simp: option.map_comp comp_def assms)

lemma seen_cards_get:
  "bt_get (seen_cards st att v) key =
     map_option (\<lambda>c. if 2 \<le> key_count st key then c\<lparr>ac_actionable := False\<rparr> else c)
       (map_of (rev (map (\<lambda>x. (seen_key x, seen_card att v x)) (snapshot_agents st))) key)"
proof -
  let ?r = "fold (see_one att v) (snapshot_agents st) (bt_empty, bt_empty)"
  have amb: "key \<in> set (bt_keys (snd ?r)) \<longleftrightarrow> 2 \<le> key_count st key"
    using see_loop_ambiguous [of key att v "snapshot_agents st" bt_empty bt_empty]
    by (simp add: bs_mem_keys key_count_def)
  have seen: "fst ?r = bt_collect (map (\<lambda>x. (seen_key x, seen_card att v x)) (snapshot_agents st))"
    by (simp add: see_loop_seen bt_collect_def fold_map comp_def)
  have "bt_get (seen_cards st att v) key =
      (if 2 \<le> key_count st key then map_option (\<lambda>c. c\<lparr>ac_actionable := False\<rparr>) (bt_get (fst ?r) key)
       else bt_get (fst ?r) key)"
    using amb by (simp add: seen_cards_def split_beta fold_adjust_get)
  then show ?thesis by (simp add: seen bt_get_collect option.map_ident)
qed

lemma seen_cards_Some:
  assumes "bt_get (seen_cards st att v) key = Some c"
  obtains x where "x \<in> set (snapshot_agents st)" "seen_key x = key"
    "c = (if 2 \<le> key_count st key then (seen_card att v x)\<lparr>ac_actionable := False\<rparr> else seen_card att v x)"
proof -
  obtain c0 where c0: "map_of (rev (map (\<lambda>x. (seen_key x, seen_card att v x)) (snapshot_agents st))) key
      = Some c0"
    and c: "c = (if 2 \<le> key_count st key then c0\<lparr>ac_actionable := False\<rparr> else c0)"
    using assms by (auto simp: seen_cards_get)
  from map_of_SomeD [OF c0] obtain x where "x \<in> set (snapshot_agents st)" "seen_key x = key"
    "c0 = seen_card att v x" by auto
  with that c show ?thesis by blast
qed

lemma seen_cards_keyed: "keyed_by ac_agent (seen_cards st att v)"
  unfolding keyed_by_iff
  by (auto elim!: seen_cards_Some simp: seen_key_def seen_card_def)

lemma snapshot_agents_iff:
  "(agent, snapshot, live) \<in> set (snapshot_agents st) \<longleftrightarrow>
     (\<exists>k target. bt_get (fs_targets st) k = Some target \<and> tr_snapshot target = Some snapshot \<and>
        agent \<in> set (bt_values (ns_agents snapshot)) \<and> live = (tr_connection target = Live))"
proof -
  have "(agent, snapshot, live) \<in> set (snapshot_agents st) \<longleftrightarrow>
      (\<exists>target \<in> set (bt_values (fs_targets st)). tr_snapshot target = Some snapshot \<and>
        agent \<in> set (bt_values (ns_agents snapshot)) \<and> live = (tr_connection target = Live))"
    by (force simp: snapshot_agents_def target_agents_def split: option.splits)
  then show ?thesis by (simp only: set_bt_values mem_Collect_eq bex_simps) blast
qed

text \<open>An agent of one target's snapshot carries that target in its key.\<close>

lemma agent_key_in_target:
  assumes "federation_wf st" "bt_get (fs_targets st) k = Some target" "tr_snapshot target = Some snapshot"
    "agent \<in> set (bt_values (ns_agents snapshot))"
  shows "qid_target_session (agent_key agent) = k"
proof -
  have of_target: "snapshot_of_target k snapshot" using assms by (auto simp: federation_wf_iff)
  then have "ag_pane agent \<in> set (bt_keys (ns_agents snapshot))"
    using assms(4) by (auto simp: snapshot_of_target_def keyed_keys [symmetric])
  with of_target show ?thesis by (simp add: snapshot_of_target_def)
qed

text \<open>The agents that answer to a key are those of one snapshot.\<close>

lemma key_count_target:
  assumes wf: "federation_wf st" and target: "bt_get (fs_targets st) (qid_target_session key) = Some target"
    "tr_snapshot target = Some snapshot"
  shows "key_count st key =
    length (filter (\<lambda>agent. agent_key agent = key) (bt_values (ns_agents snapshot)))"
proof -
  have part: "filter (\<lambda>x. seen_key x = key) (target_agents t) = []"
    if "bt_get (fs_targets st) k = Some t" "k \<noteq> qid_target_session key" for k t
    using that agent_key_in_target [OF wf that(1)]
    by (cases "tr_snapshot t") (auto simp: target_agents_def filter_empty_conv seen_key_def)
  have "length (filter (\<lambda>x. seen_key x = key) (concat (map (\<lambda>e. target_agents (snd e)) es))) =
      (case map_of es (qid_target_session key) of None \<Rightarrow> 0
       | Some t \<Rightarrow> length (filter (\<lambda>x. seen_key x = key) (target_agents t)))"
    if "set es \<subseteq> set (bt_entries (fs_targets st))" "distinct (map fst es)" for es
    using that
  proof (induction es)
    case Nil
    then show ?case by simp
  next
    case (Cons e es)
    have e: "bt_get (fs_targets st) (fst e) = Some (snd e)"
      using Cons.prems(1) by (simp flip: bt_entries_get)
    show ?case
    proof (cases "fst e = qid_target_session key")
      case True
      then have "map_of es (qid_target_session key) = None"
        using Cons.prems(2) by (auto simp: map_of_eq_None_iff)
      with True Cons show ?thesis by (cases e) auto
    next
      case False
      with Cons part [OF e] show ?thesis by (cases e) auto
    qed
  qed
  from this [of "bt_entries (fs_targets st)"] target bt_keys_distinct [of "fs_targets st"]
  show ?thesis
    by (simp add: key_count_def snapshot_agents_def bt_values_def [of "fs_targets st"] comp_def target_agents_def
        bt_keys_def filter_map seen_key_def flip: bt_get.rep_eq)
qed

section \<open>What the projection keeps\<close>

definition retired :: "agent_card \<Rightarrow> agent_card" where
  "retired c = c\<lparr>ac_pane := None, ac_activity := Gone, ac_section := Recent, ac_actionable := False,
     ac_stale := False\<rparr>"

lemma retired_simps [simp]:
  "ac_agent (retired c) = ac_agent c" "\<not> ac_actionable (retired c)" "ac_pane (retired c) = None"
  "ac_section (retired c) = Recent" "ac_activity (retired c) = Gone"
  by (simp_all add: retired_def)

lemma retire_eq: "retire c idx = idx\<lparr>ci_history := take max_history_cards (retired c # ci_history idx)\<rparr>"
  by (simp add: retire_def retired_def)

lemma take_append_take: "take n (xs @ take n ys) = take n (xs @ ys)"
  by (simp add: min_def)

lemma retire_loop:
  "length (ci_history idx) \<le> max_history_cards \<Longrightarrow>
   fold retire cs idx =
     idx\<lparr>ci_history := take max_history_cards (rev (map retired cs) @ ci_history idx)\<rparr>"
proof (induction cs arbitrary: idx)
  case Nil
  then show ?case by simp
next
  case (Cons c cs)
  then show ?case
    by (simp add: retire_eq take_append_take del: take_append)
qed

text \<open>Filing the cards that were seen replaces card and section, keeps the rank of a card that
  stays in its section, and touches nothing else.\<close>

definition filed :: "tracked \<Rightarrow> agent_card_section \<times> agent_card" where
  "filed t = (tk_section t, tk_card t)"

lemma track_one_fields [simp]:
  "ci_history (track_one e idx) = ci_history idx"
  "ci_revision (track_one e idx) = ci_revision idx"
  "ci_published (track_one e idx) = ci_published idx"
  by (cases e; simp add: track_one_def split: option.split)+

lemma track_loop_fields [simp]:
  "ci_history (fold track_one es idx) = ci_history idx"
  "ci_revision (fold track_one es idx) = ci_revision idx"
  "ci_published (fold track_one es idx) = ci_published idx"
  by (induction es arbitrary: idx) simp_all

lemma track_one_get:
  "map_option filed (bt_get (ci_tracked (track_one (key, c) idx)) k) =
     (if k = key then Some (ac_section c, c) else map_option filed (bt_get (ci_tracked idx) k))"
  by (auto simp: track_one_def filed_def split: option.split)

lemma track_loop_get:
  assumes "distinct (map fst es)"
  shows "map_option filed (bt_get (ci_tracked (fold track_one es idx)) k) =
    (case map_of es k of
       Some c \<Rightarrow> Some (ac_section c, c)
     | None \<Rightarrow> map_option filed (bt_get (ci_tracked idx) k))"
  using assms
proof (induction es arbitrary: idx)
  case Nil
  then show ?case by simp
next
  case (Cons e es)
  obtain key c where e: "e = (key, c)" by (cases e)
  from Cons.prems e have "map_of es key = None" by (auto simp: map_of_eq_None_iff)
  with Cons e show ?case by (auto simp: track_one_get split: option.split)
qed

lemma track_one_rank:
  assumes "bt_get (ci_tracked idx) k = Some t" "fst e = k \<Longrightarrow> ac_section (snd e) = tk_section t"
  shows "\<exists>t'. bt_get (ci_tracked (track_one e idx)) k = Some t' \<and> tk_rank t' = tk_rank t
    \<and> tk_section t' = tk_section t"
  using assms by (cases e) (auto simp: track_one_def split: option.split)

lemma track_loop_rank:
  assumes "bt_get (ci_tracked idx) k = Some t" "\<And>c. (k, c) \<in> set es \<Longrightarrow> ac_section c = tk_section t"
  shows "\<exists>t'. bt_get (ci_tracked (fold track_one es idx)) k = Some t' \<and> tk_rank t' = tk_rank t
    \<and> tk_section t' = tk_section t"
  using assms
proof (induction es arbitrary: idx t)
  case Nil
  then show ?case by auto
next
  case (Cons e es)
  obtain t1 where t1: "bt_get (ci_tracked (track_one e idx)) k = Some t1" "tk_rank t1 = tk_rank t"
    "tk_section t1 = tk_section t"
    using track_one_rank [OF Cons.prems(1), of e] Cons.prems(2) [of "snd e"] by (cases e) auto
  with Cons.IH [OF t1(1)] Cons.prems(2) show ?case by auto
qed

lemma track_loop_same:
  assumes "\<And>k c. (k, c) \<in> set es \<Longrightarrow>
    \<exists>t. bt_get (ci_tracked idx) k = Some t \<and> filed t = (ac_section c, c)"
  shows "fold track_one es idx = idx"
  using assms
proof (induction es)
  case Nil
  then show ?case by simp
next
  case (Cons e es)
  obtain k c where e: "e = (k, c)" by (cases e)
  from Cons.prems [of k c] e obtain t where "bt_get (ci_tracked idx) k = Some t"
    "tk_section t = ac_section c" "tk_card t = c" by (auto simp: filed_def)
  then have "track_one e idx = idx"
    by (auto simp: e track_one_def bt_insert_same)
  with Cons show ?case by simp
qed

lemma retained_get:
  "bt_get (retained_cards st seen held) k =
     (case bt_get held k of
        None \<Rightarrow> None
      | Some t \<Rightarrow>
          if bt_contains k seen then Some t
          else if target_is_live st (qid_target_session k) = Some False
          then Some (t\<lparr>tk_card := (tk_card t)\<lparr>ac_stale := True, ac_actionable := False\<rparr>\<rparr>)
          else None)"
  by (auto simp: retained_cards_def split: option.split)

section \<open>The invariant of the card index\<close>

definition card_index_wf :: "agent_card_index \<Rightarrow> bool" where
  [inv_defs]: "card_index_wf idx \<longleftrightarrow>
     (\<forall>e \<in> set (bt_entries (ci_tracked idx)). ac_agent (tk_card (snd e)) = fst e
        \<and> ac_section (tk_card (snd e)) = tk_section (snd e)) \<and>
     length (ci_history idx) \<le> max_history_cards \<and>
     (\<forall>c \<in> set (ci_history idx). ac_pane c = None \<and> \<not> ac_actionable c \<and> ac_section c = Recent
        \<and> ac_activity c = Gone)"

lemma card_index_wf_iff:
  "card_index_wf idx \<longleftrightarrow>
     (\<forall>k t. bt_get (ci_tracked idx) k = Some t \<longrightarrow> ac_agent (tk_card t) = k
        \<and> ac_section (tk_card t) = tk_section t) \<and>
     length (ci_history idx) \<le> max_history_cards \<and>
     (\<forall>c \<in> set (ci_history idx). ac_pane c = None \<and> \<not> ac_actionable c \<and> ac_section c = Recent
        \<and> ac_activity c = Gone)"
  unfolding card_index_wf_def bt_entries_get [symmetric] by auto

lemma publish_fields [simp]:
  "ci_tracked (fst (publish idx)) = ci_tracked idx" "ci_history (fst (publish idx)) = ci_history idx"
  by (simp_all add: publish_def Let_def)

text \<open>The tracked cards and the history after a projection.\<close>

lemma project_tracked:
  assumes "card_index_wf idx"
  shows "map_option filed (bt_get (ci_tracked (fst (project st att v idx))) k) =
    (case bt_get (seen_cards st att v) k of
       Some c \<Rightarrow> Some (ac_section c, c)
     | None \<Rightarrow> map_option filed (bt_get (retained_cards st (seen_cards st att v) (ci_tracked idx)) k))"
  using assms bt_keys_distinct [of "seen_cards st att v"]
  by (simp add: project_def Let_def track_loop_get retire_loop card_index_wf_def bt_keys_def
      flip: bt_get.rep_eq split: option.split)

lemma project_history:
  assumes "card_index_wf idx"
  shows "ci_history (fst (project st att v idx)) = take max_history_cards
    (rev (map retired (vanished_cards st (seen_cards st att v) (ci_tracked idx))) @ ci_history idx)"
  using assms by (simp add: project_def Let_def retire_loop card_index_wf_def)

lemma project_wf:
  assumes wf: "card_index_wf idx"
  shows "card_index_wf (fst (project st att v idx))"
proof -
  let ?idx = "fst (project st att v idx)"
  have tracked: "ac_agent (tk_card t) = k \<and> ac_section (tk_card t) = tk_section t"
    if "bt_get (ci_tracked ?idx) k = Some t" for k t
    using that project_tracked [OF wf, of st att v k] wf keyed_by_get [OF seen_cards_keyed, of st att v k]
    by (auto simp: filed_def retained_get card_index_wf_iff split: option.splits if_splits)
  have "\<forall>c \<in> set (ci_history ?idx). ac_pane c = None \<and> \<not> ac_actionable c \<and> ac_section c = Recent
      \<and> ac_activity c = Gone"
    using wf by (auto simp: project_history [OF wf] card_index_wf_def dest!: in_set_takeD)
  moreover have "length (ci_history ?idx) \<le> max_history_cards"
    by (simp add: project_history [OF wf])
  ultimately show ?thesis using tracked by (simp add: card_index_wf_iff)
qed

lemma card_index_default_wf: "card_index_wf card_index_default"
  by (simp add: card_index_wf_def card_index_default_def)

inductive card_step :: "agent_card_index \<Rightarrow> agent_card_index \<Rightarrow> bool" where
  card_step_project: "card_step idx (fst (project st att v idx))"

interpretation card_reach: kept_invariant card_index_default card_step card_index_wf
  by unfold_locales (auto elim!: card_step.cases intro: card_index_default_wf project_wf)

section \<open>Actionable cards are exactly the resolvable agents\<close>

lemma section_cards_set:
  "set (section_cards held section) = {c. \<exists>k t. bt_get held k = Some t \<and> tk_section t = section \<and> c = tk_card t}"
  by (auto simp: section_cards_def set_bt_values)

lemma project_cards:
  "set (projection_cards (snd (project st att v idx))) =
     {c. \<exists>k t. bt_get (ci_tracked (fst (project st att v idx))) k = Some t \<and> c = tk_card t} \<union>
     set (ci_history (fst (project st att v idx)))"
proof -
  have "set (projection_cards (snd (publish idx))) =
      {c. \<exists>k t. bt_get (ci_tracked idx) k = Some t \<and> c = tk_card t} \<union> set (ci_history idx)" for idx
  proof -
    have sections: "{c. \<exists>k t. bt_get (ci_tracked idx) k = Some t \<and> c = tk_card t} =
        (\<Union>s \<in> {NeedsYou, WorkingSection, Recent}. set (section_cards (ci_tracked idx) s))"
      by (auto simp: section_cards_set) (metis agent_card_section.exhaust)
    show ?thesis
      unfolding sections by (auto simp: publish_def Let_def projection_cards_def)
  qed
  then show ?thesis unfolding project_def Let_def by simp
qed

lemma live_agent_found:
  assumes wf: "federation_wf st" and x: "x \<in> set (snapshot_agents st)" "seen_key x = key"
    and live: "snd (snd x)"
  shows "\<exists>target. bt_get (fs_targets st) (qid_target_session key) = Some target \<and>
    tr_connection target = Live \<and> tr_snapshot target = Some (fst (snd x)) \<and>
    fst x \<in> set (bt_values (ns_agents (fst (snd x))))"
proof -
  obtain agent snapshot l where xe: "x = (agent, snapshot, l)" by (cases x)
  with x(1) live obtain k target where t: "bt_get (fs_targets st) k = Some target"
    "tr_snapshot target = Some snapshot" "agent \<in> set (bt_values (ns_agents snapshot))"
    "tr_connection target = Live"
    by (auto simp: snapshot_agents_iff)
  have "agent_key agent = key" using x(2) xe by (simp add: seen_key_def)
  then have "qid_target_session key = k" using agent_key_in_target [OF wf t(1-3)] by simp
  with t xe show ?thesis by auto
qed

lemma seen_actionable_resolves:
  assumes wf: "federation_wf st"
  shows "(\<exists>c. bt_get (seen_cards st att v) key = Some c \<and> ac_actionable c \<and> ac_pane c = Some pane) \<longleftrightarrow>
    (\<exists>route. resolve key st = Inr route \<and> cr_pane route = pane)"
    (is "?card \<longleftrightarrow> ?route")
proof
  assume ?card
  then obtain c where c: "bt_get (seen_cards st att v) key = Some c" "ac_actionable c"
    "ac_pane c = Some pane" by blast
  obtain x where x: "x \<in> set (snapshot_agents st)" "seen_key x = key" and one: "key_count st key < 2"
    and cx: "c = seen_card att v x"
    using c(2) by (rule_tac seen_cards_Some [OF c(1)]) (auto split: if_splits)
  have act: "snd (snd x)" "bt_contains (ag_pane (fst x)) (ns_panes (fst (snd x)))"
    "pane = ag_pane (fst x)"
    using c cx by (simp_all add: seen_card_def)
  obtain target where t: "bt_get (fs_targets st) (qid_target_session key) = Some target"
    "tr_connection target = Live" "tr_snapshot target = Some (fst (snd x))"
    "fst x \<in> set (bt_values (ns_agents (fst (snd x))))"
    using live_agent_found [OF wf x act(1)] by blast
  let ?found = "filter (\<lambda>a. agent_key a = key) (bt_values (ns_agents (fst (snd x))))"
  have "length ?found < 2" using one key_count_target [OF wf t(1,3)] by simp
  moreover have "fst x \<in> set ?found" using t(4) x(2) by (simp add: seen_key_def)
  ultimately have "?found = [fst x]"
    by (cases ?found) (auto simp: less_Suc_eq numeral_2_eq_2)
  with t act show ?route by (auto simp: resolve_Inr)
next
  assume ?route
  then obtain target snapshot found where t: "bt_get (fs_targets st) (qid_target_session key) = Some target"
    "tr_connection target = Live" "tr_snapshot target = Some snapshot"
    and only: "filter (\<lambda>a. agent_key a = key) (bt_values (ns_agents snapshot)) = [found]"
    and pane: "bt_contains (ag_pane found) (ns_panes snapshot)" "pane = ag_pane found"
    unfolding resolve_Inr by auto
  have "found \<in> set (filter (\<lambda>a. agent_key a = key) (bt_values (ns_agents snapshot)))"
    unfolding only by simp
  then have found: "(found, snapshot, True) \<in> set (snapshot_agents st)" "agent_key found = key"
    using t by (auto simp: snapshot_agents_iff)
  then have "key \<in> fst ` set (map (\<lambda>x. (seen_key x, seen_card att v x)) (snapshot_agents st))"
    by (force simp: seen_key_def)
  then obtain c where c: "bt_get (seen_cards st att v) key = Some c"
    by (cases "bt_get (seen_cards st att v) key") (auto simp: seen_cards_get map_of_eq_None_iff)
  have one: "key_count st key = 1" using key_count_target [OF wf t(1,3)] only by simp
  obtain x where x: "x \<in> set (snapshot_agents st)" "seen_key x = key" "c = seen_card att v x"
    using one by (rule_tac seen_cards_Some [OF c]) auto
  obtain y where "filter (\<lambda>x. seen_key x = key) (snapshot_agents st) = [y]"
    using one by (auto simp: key_count_def length_Suc_conv)
  then have "{x \<in> set (snapshot_agents st). seen_key x = key} = {y}"
    by (metis set_filter list.set(1,2))
  then have y: "z = y" if "z \<in> set (snapshot_agents st)" "seen_key z = key" for z
    using that by blast
  have "seen_key (found, snapshot, True) = key" using found by (simp add: seen_key_def)
  from y [OF found(1) this] y [OF x(1,2)] have "x = (found, snapshot, True)" by simp
  with c x(3) pane show ?card by (auto simp: seen_card_def)
qed

section \<open>Projecting the same inputs again\<close>

lemma tracked_after_project:
  assumes idx: "card_index_wf idx" and t: "bt_get (ci_tracked (fst (project st att v idx))) k = Some t"
    and unseen: "bt_get (seen_cards st att v) k = None"
  shows "target_is_live st (qid_target_session k) = Some False"
    "ac_stale (tk_card t)" "\<not> ac_actionable (tk_card t)"
  using project_tracked [OF idx, of st att v k] t unseen
  by (auto simp: retained_get filed_def split: option.splits if_splits)

section \<open>One card per identity\<close>

definition current_cards :: "agent_card_projection \<Rightarrow> agent_card list" where
  "current_cards p = filter (\<lambda>c. ac_activity c \<noteq> Gone) (projection_cards p)"

lemma filter_sections:
  assumes "\<forall>c \<in> set hist. ac_activity c = Gone"
  shows "filter (\<lambda>c. ac_activity c \<noteq> Gone) (xs @ hist) = filter (\<lambda>c. ac_activity c \<noteq> Gone) xs"
  using assms by simp

lemma distinct_section_agents:
  assumes "\<And>k t. bt_get held k = Some t \<Longrightarrow> ac_agent (tk_card t) = k"
  shows "distinct (map ac_agent (section_cards held section))"
proof -
  have keys: "map (\<lambda>t. ac_agent (tk_card t)) (bt_values held) = bt_keys held"
    using assms by (auto simp: bt_values_def bt_keys_def bt_entries_get)
  have inj: "distinct (map (\<lambda>t. ac_agent (tk_card t)) (filter P (bt_values held)))" for P
    by (rule distinct_map_filter) (simp add: keys)
  have "distinct (map (\<lambda>t. ac_agent (tk_card t)) (sort_key section_order ts)) =
      distinct (map (\<lambda>t. ac_agent (tk_card t)) ts)" for ts
    by (simp add: distinct_map)
  then show ?thesis using inj by (simp add: section_cards_def comp_def)
qed

lemma distinct_current_cards:
  assumes "card_index_wf idx"
  shows "distinct (map ac_agent (current_cards (snd (publish idx))))"
proof -
  let ?held = "ci_tracked idx"
  have key: "ac_agent (tk_card t) = k" if "bt_get ?held k = Some t" for k t
    using assms that by (auto simp: card_index_wf_iff)
  have sections: "distinct (map ac_agent (section_cards ?held s))" for s
    by (rule distinct_section_agents) (rule key)
  have apart: "ac_agent c \<noteq> ac_agent c'" if "c \<in> set (section_cards ?held s)"
    "c' \<in> set (section_cards ?held s')" "s \<noteq> s'" for c c' s s'
    using that key by (force simp: section_cards_set)
  have "distinct (map ac_agent (section_cards ?held NeedsYou @ section_cards ?held WorkingSection @
      section_cards ?held Recent))"
    using sections apart by fastforce
  then have "distinct (map ac_agent (filter (\<lambda>c. ac_activity c \<noteq> Gone)
      (section_cards ?held NeedsYou @ section_cards ?held WorkingSection @ section_cards ?held Recent)))"
    by (rule distinct_map_filter)
  then show ?thesis
    using assms filter_sections [of "ci_history idx"]
    by (simp add: current_cards_def publish_def Let_def projection_cards_def card_index_wf_def)
qed

section \<open>Properties\<close>

definition sample_view :: local_view where
  "sample_view = \<lparr>lv_marks = bt_empty, lv_aliases = aliases_default, lv_now_ms = 10\<rparr>"

text \<open>
  C4. A card offers itself as a destination exactly when resolving its identity against the
  same federation succeeds, and then it shows the very pane the route leads to: every
  actionable card resolves, every resolvable agent has an actionable card, and an ambiguous,
  stale, paneless or vanished agent has none.
\<close>

theorem actionable_iff_resolves:
  assumes wf: "federation_wf st" and idx: "card_index_wf idx"
  shows "(\<exists>c \<in> set (projection_cards (snd (project st att v idx))).
      ac_agent c = key \<and> ac_actionable c \<and> ac_pane c = Some pane) \<longleftrightarrow>
    (\<exists>route. resolve key st = Inr route \<and> cr_pane route = pane)"
proof -
  let ?idx = "fst (project st att v idx)"
  have wf': "card_index_wf ?idx" by (rule project_wf [OF idx])
  have "(\<exists>c \<in> set (projection_cards (snd (project st att v idx))).
      ac_agent c = key \<and> ac_actionable c \<and> ac_pane c = Some pane) \<longleftrightarrow>
    (\<exists>t. bt_get (ci_tracked ?idx) key = Some t \<and> ac_actionable (tk_card t) \<and> ac_pane (tk_card t) = Some pane)"
    unfolding project_cards using wf' by (auto simp: card_index_wf_iff)
  also have "\<dots> \<longleftrightarrow> (\<exists>f. map_option filed (bt_get (ci_tracked ?idx) key) = Some f \<and>
      ac_actionable (snd f) \<and> ac_pane (snd f) = Some pane)"
    by (auto simp: filed_def)
  also have "\<dots> \<longleftrightarrow>
      (\<exists>c. bt_get (seen_cards st att v) key = Some c \<and> ac_actionable c \<and> ac_pane c = Some pane)"
    unfolding project_tracked [OF idx]
    by (auto simp: retained_get filed_def split: option.splits if_splits)
  finally show ?thesis using seen_actionable_resolves [OF wf] by simp
qed

definition sample_card_key :: agent_id where
  "sample_card_key = agent_key (sample_agent (lit ''alpha'') (lit ''blocked''))"

theorem actionable_iff_resolves_witness:
  "\<exists>c \<in> set (projection_cards (snd (project (sample_federation (lit ''blocked'')) attention_default
       sample_view card_index_default))).
     ac_agent c = sample_card_key \<and> ac_actionable c \<and> ac_pane c = Some (sample_pane (lit ''alpha''))"
proof -
  have "resolve sample_card_key (sample_federation (lit ''blocked'')) =
      Inr \<lparr>cr_pane = sample_pane (lit ''alpha''), cr_generation = 7\<rparr>"
    by code_simp
  then show ?thesis
    using actionable_iff_resolves [OF sample_federation_wf(1) card_index_default_wf,
        of attention_default sample_view sample_card_key "sample_pane (lit ''alpha'')"] by simp
qed

text \<open>
  Projecting the same inputs again publishes the same inbox under the same revision and
  leaves the index as it is: a refresh without news repaints nothing.
\<close>

theorem project_settles:
  assumes idx: "card_index_wf idx"
  shows "project st att v (fst (project st att v idx)) = project st att v idx"
proof -
  let ?seen = "seen_cards st att v"
  let ?idx = "fst (project st att v idx)"
  note after = tracked_after_project [OF idx]
  have gone: "vanished_cards st ?seen (ci_tracked ?idx) = []"
    using after(1) by (fastforce simp: vanished_cards_def filter_empty_conv bt_entries_get)
  have kept: "retained_cards st ?seen (ci_tracked ?idx) = ci_tracked ?idx"
  proof (rule bt_ext)
    fix k show "bt_get (retained_cards st ?seen (ci_tracked ?idx)) k = bt_get (ci_tracked ?idx) k"
      using after [of st att v k]
      by (cases "bt_get (ci_tracked ?idx) k"; cases "bt_get ?seen k") (auto simp: retained_get)
  qed
  have same: "fold track_one (bt_entries ?seen) ?idx = ?idx"
  proof (rule track_loop_same)
    fix k c assume "(k, c) \<in> set (bt_entries ?seen)"
    then show "\<exists>t. bt_get (ci_tracked ?idx) k = Some t \<and> filed t = (ac_section c, c)"
      using project_tracked [OF idx, of st att v k] by (auto simp: bt_entries_get)
  qed
  have "project st att v ?idx = publish ?idx"
    unfolding project_def [of st att v ?idx] Let_def by (simp add: gone kept same)
  moreover have "publish (fst (publish i)) = publish i" for i
    by (simp add: publish_def Let_def)
  ultimately show ?thesis by (simp add: project_def Let_def)
qed

theorem project_settles_witness:
  "project (sample_federation (lit ''blocked'')) attention_default sample_view
     (fst (project (sample_federation (lit ''blocked'')) attention_default sample_view card_index_default)) =
   project (sample_federation (lit ''blocked'')) attention_default sample_view card_index_default"
  by (rule project_settles) (rule card_index_default_wf)

text \<open>
  A card that stays in its section keeps its rank, whatever else changes: unrelated
  targets that appear, disappear or refresh never reorder the inbox.
\<close>

theorem project_keeps_rank:
  assumes idx: "card_index_wf idx" and t: "bt_get (ci_tracked idx) k = Some t"
    and c: "bt_get (seen_cards st att v) k = Some c" "ac_section c = tk_section t"
  shows "\<exists>t'. bt_get (ci_tracked (fst (project st att v idx))) k = Some t' \<and> tk_rank t' = tk_rank t
    \<and> tk_card t' = c"
proof -
  have "bt_get (retained_cards st (seen_cards st att v) (ci_tracked idx)) k = Some t"
    using t c(1) by (simp add: retained_get)
  with track_loop_rank [of "idx\<lparr>ci_tracked := retained_cards st (seen_cards st att v) (ci_tracked idx),
      ci_history := take max_history_cards (rev (map retired
        (vanished_cards st (seen_cards st att v) (ci_tracked idx))) @ ci_history idx)\<rparr>"
      k t "bt_entries (seen_cards st att v)"] c idx
  obtain t' where "bt_get (ci_tracked (fst (project st att v idx))) k = Some t'" "tk_rank t' = tk_rank t"
    by (auto simp: project_def Let_def retire_loop card_index_wf_def bt_entries_get)
  moreover have "map_option filed (bt_get (ci_tracked (fst (project st att v idx))) k) =
      Some (ac_section c, c)"
    by (simp add: project_tracked [OF idx] c(1))
  ultimately show ?thesis by (auto simp: filed_def)
qed

theorem project_keeps_rank_witness:
  "\<exists>t'. bt_get (ci_tracked (fst (project (sample_federation (lit ''blocked'')) attention_default sample_view
       (fst (project (sample_federation (lit ''blocked'')) attention_default sample_view
          card_index_default))))) sample_card_key = Some t' \<and> tk_rank t' = 0"
proof -
  let ?p = "fst (project (sample_federation (lit ''blocked'')) attention_default sample_view card_index_default)"
  have "map_option (\<lambda>t. (tk_rank t, tk_section t)) (bt_get (ci_tracked ?p) sample_card_key) = Some (0, NeedsYou)"
    "map_option ac_section (bt_get (seen_cards (sample_federation (lit ''blocked'')) attention_default
       sample_view) sample_card_key) = Some NeedsYou"
    by code_simp+
  then show ?thesis
    using project_keeps_rank [OF project_wf [OF card_index_default_wf], of "sample_federation (lit ''blocked'')"
        attention_default sample_view sample_card_key] by fastforce
qed

text \<open>
  Two admitted agents have the same identity exactly when they belong to the same
  target and session and report the same agent session, or report none and share the pane;
  a session identity never collides with a pane identity.
\<close>

theorem agent_key_eq_iff:
  assumes "agent_clean a" "agent_clean b"
  shows "agent_key a = agent_key b \<longleftrightarrow>
    qid_target_session (ag_pane a) = qid_target_session (ag_pane b) \<and>
    ag_session a = ag_session b \<and> (ag_session a = None \<longrightarrow> ag_pane a = ag_pane b)"
proof (cases "ag_session a"; cases "ag_session b")
  fix s r assume sr: "ag_session a = Some s" "ag_session b = Some r"
  then have clean: "session_clean s" "session_clean r"
    using assms by (simp_all add: agent_clean_def)
  have "s = r \<longleftrightarrow> sr_kind s = sr_kind r \<and> sr_value s = sr_value r \<and> sr_source s = sr_source r \<and>
      sr_agent s = sr_agent r" by auto
  then show ?thesis
    using clean by (auto simp: agent_key_def sr append_separator_inject session_clean_def
        qid_target_session_def)
qed (auto simp: agent_key_def agent_key_tagged agent_key_tagged [symmetric] qid_target_session_def)

theorem agent_key_eq_iff_witness:
  "agent_key (sample_agent (lit ''alpha'') (lit ''blocked'')) \<noteq>
   agent_key (sample_agent (lit ''beta'') (lit ''blocked''))"
  by (subst agent_key_eq_iff) (auto simp: agent_clean_def sample_agent_def sample_pane_def lit_def)

text \<open>
  No two current cards of a projection share an identity, in any state the daemon
  reaches: agents that answer to one identity are shown as a single card, which is not
  actionable.
\<close>

theorem one_card_per_identity:
  assumes "reach card_step card_index_default idx"
  shows "distinct (map ac_agent (current_cards (snd (project st att v idx)))) \<and>
    (2 \<le> key_count st key \<longrightarrow> bt_get (seen_cards st att v) key = Some c \<longrightarrow> \<not> ac_actionable c)"
proof -
  let ?seen = "seen_cards st att v"
  have wf: "card_index_wf idx" by (rule card_reach.reachable_holds [OF assms])
  obtain idx' where "project st att v idx = publish idx'" by (simp add: project_def Let_def)
  moreover have "card_index_wf (fst (publish idx'))"
    using project_wf [OF wf, of st att v] calculation by simp
  then have "card_index_wf idx'" by (simp add: card_index_wf_def)
  ultimately have "distinct (map ac_agent (current_cards (snd (project st att v idx))))"
    using distinct_current_cards by simp
  moreover have "\<not> ac_actionable c" if "2 \<le> key_count st key" "bt_get ?seen key = Some c"
    using that by (auto elim!: seen_cards_Some)
  ultimately show ?thesis by blast
qed

definition twin_agents :: "agent_state list" where
  "twin_agents = (let a = (sample_agent (lit ''alpha'') (lit ''working''))\<lparr>ag_session := Some
       \<lparr>sr_source = lit ''s'', sr_agent = lit ''claude'', sr_kind = lit ''id'', sr_value = lit ''42''\<rparr>\<rparr>
     in [a, a\<lparr>ag_pane := QualifiedId (lit ''alpha'') (lit ''dev'') (lit ''w1:p2'')\<rparr>])"

definition twin_federation :: federation_state where
  "twin_federation = \<lparr>fs_revision = 4, fs_targets = bt_collect (map (\<lambda>t. (tr_key t, t))
     [sample_runtime (lit ''alpha'') Live twin_agents])\<rparr>"

theorem one_card_per_identity_witness:
  "map ac_pane (current_cards (snd (project twin_federation attention_default sample_view
     card_index_default))) = [Some (QualifiedId (lit ''alpha'') (lit ''dev'') (lit ''w1:p2''))] \<and>
   distinct (map ac_agent (current_cards (snd (project twin_federation attention_default sample_view
     card_index_default))))"
proof
  show "map ac_pane (current_cards (snd (project twin_federation attention_default sample_view
      card_index_default))) = [Some (QualifiedId (lit ''alpha'') (lit ''dev'') (lit ''w1:p2''))]"
    by code_simp
  show "distinct (map ac_agent (current_cards (snd (project twin_federation attention_default sample_view
      card_index_default))))"
    by (rule one_card_per_identity [THEN conjunct1]) (rule reach_start)
qed

text \<open>
  A card never resolves onto a host it did not come from.
\<close>

theorem resolve_session:
  assumes "resolve agent st = Inr route"
  shows "qid_target_session (cr_pane route) = qid_target_session agent"
proof -
  obtain snapshot :: normalized_snapshot and found where
    only: "filter (\<lambda>held. agent_key held = agent) (bt_values (ns_agents snapshot)) = [found]"
    and route: "cr_pane route = ag_pane found"
    using assms unfolding resolve_Inr by auto
  have "found \<in> set (filter (\<lambda>held. agent_key held = agent) (bt_values (ns_agents snapshot)))"
    unfolding only by simp
  then have "agent_key found = agent" by simp
  with agent_key_session [of found] route show ?thesis by simp
qed

theorem resolve_session_witness:
  "\<exists>route. resolve sample_card_key (sample_federation (lit ''blocked'')) = Inr route \<and>
     qid_target_session (cr_pane route) = qid_target_session sample_card_key"
proof -
  have "resolve sample_card_key (sample_federation (lit ''blocked'')) =
      Inr \<lparr>cr_pane = sample_pane (lit ''alpha''), cr_generation = 7\<rparr>"
    by code_simp
  from resolve_session [OF this] this show ?thesis by blast
qed

end
