(* ===== verification/Protocol.thy ===== *)
theory Protocol
  imports Screen Agent_Card
begin

text \<open>
  The vocabulary the daemon and its clients share: terminal access
  (\<open>src/src/terminal.rs\<close>), plugin identities (\<open>src/src/plugin.rs\<close>), operations
  (\<open>src/src/operation.rs\<close>), remote listings (\<open>src/src/remote_files.rs\<close>) and the messages of
  \<open>src/src/protocol.rs\<close>. Every resource a message names is a qualified identity.
\<close>

section \<open>Terminals\<close>

datatype terminal_access = Observe | Control

datatype terminal_scroll_direction = ScrollUp | ScrollDown

section \<open>Plugins\<close>

datatype plugin_action_context =
  GlobalContext | WorkspaceContext | TabContext | PaneContext | SelectionContext | UnsupportedContext

record plugin_action_id =
  pi_target :: target_session
  pi_plugin_id :: ustring
  pi_action_id :: ustring

record plugin_action =
  pg_id :: plugin_action_id
  pg_title :: ustring
  pg_description :: "ustring option"
  pg_contexts :: "plugin_action_context list"

record plugin_run_id =
  pr_target :: target_session
  pr_plugin_id :: ustring
  pr_log_id :: ustring

datatype plugin_run_status = RunRunning | RunSucceeded | RunFailed

record plugin_run =
  px_id :: plugin_run_id
  px_action_id :: "ustring option"
  px_status :: plugin_run_status

definition plugin_supports :: "plugin_action \<Rightarrow> plugin_action_context \<Rightarrow> bool" where
  "plugin_supports action context_kind =
     (if pg_contexts action = [] then context_kind = GlobalContext
      else context_kind \<in> set (pg_contexts action))"

datatype plugin_invocation_target =
    InvokeSession target_session
  | InvokeWorkspace workspace_id
  | InvokeTab tab_id
  | InvokePane pane_id

definition invocation_session :: "plugin_invocation_target \<Rightarrow> target_session" where
  "invocation_session t = (case t of
     InvokeSession target \<Rightarrow> target
   | InvokeWorkspace workspace \<Rightarrow> qid_target_session workspace
   | InvokeTab tab \<Rightarrow> qid_target_session tab
   | InvokePane pane \<Rightarrow> qid_target_session pane)"

section \<open>Operations\<close>

datatype split_direction = SplitRight | SplitDown

definition split_cli_value :: "split_direction \<Rightarrow> ustring" where
  "split_cli_value d = (case d of SplitRight \<Rightarrow> lit ''right'' | SplitDown \<Rightarrow> lit ''down'')"

definition split_from_api_value :: "ustring \<Rightarrow> split_direction option" where
  "split_from_api_value s = (if s = lit ''right'' then Some SplitRight
     else if s = lit ''down'' then Some SplitDown else None)"

datatype operation =
    CreateWorkspace target_session ustring
  | RenameWorkspace workspace_id ustring
  | CloseWorkspace workspace_id
  | MoveWorkspace workspace_id workspace_id
  | RecreateWorkspace workspace_id target_session "ustring option"
  | CreateTab workspace_id
  | RenameTab tab_id ustring
  | CloseTab tab_id
  | SplitPane pane_id split_direction
  | TogglePaneZoom pane_id
  | ClosePane pane_id
  | InvokePluginAction plugin_action_id plugin_invocation_target ustring

definition operation_session :: "operation \<Rightarrow> target_session" where
  "operation_session op = (case op of
     CreateWorkspace target _ \<Rightarrow> target
   | RenameWorkspace workspace _ \<Rightarrow> qid_target_session workspace
   | CloseWorkspace workspace \<Rightarrow> qid_target_session workspace
   | MoveWorkspace workspace _ \<Rightarrow> qid_target_session workspace
   | RecreateWorkspace workspace _ _ \<Rightarrow> qid_target_session workspace
   | CreateTab workspace \<Rightarrow> qid_target_session workspace
   | RenameTab tab _ \<Rightarrow> qid_target_session tab
   | CloseTab tab \<Rightarrow> qid_target_session tab
   | SplitPane pane _ \<Rightarrow> qid_target_session pane
   | TogglePaneZoom pane \<Rightarrow> qid_target_session pane
   | ClosePane pane \<Rightarrow> qid_target_session pane
   | InvokePluginAction action _ _ \<Rightarrow> pi_target action)"

definition destination_session :: "operation \<Rightarrow> target_session" where
  "destination_session op = (case op of
     RecreateWorkspace _ destination _ \<Rightarrow> destination
   | other \<Rightarrow> operation_session other)"

definition is_destructive :: "operation \<Rightarrow> bool" where
  "is_destructive op = (case op of
     CloseWorkspace _ \<Rightarrow> True | CloseTab _ \<Rightarrow> True | ClosePane _ \<Rightarrow> True | _ \<Rightarrow> False)"

text \<open>The arguments of the Herdr command line; the operations that take several requests
  have none.\<close>

definition herdr_args :: "operation \<Rightarrow> ustring list option" where
  "herdr_args op = (case op of
     CreateWorkspace _ label \<Rightarrow> Some [lit ''workspace'', lit ''create'', lit ''--label'', label, lit ''--focus'']
   | RenameWorkspace workspace label \<Rightarrow>
       Some [lit ''workspace'', lit ''rename'', server_local_id workspace, label]
   | CloseWorkspace workspace \<Rightarrow> Some [lit ''workspace'', lit ''close'', server_local_id workspace]
   | MoveWorkspace _ _ \<Rightarrow> None
   | RecreateWorkspace _ _ _ \<Rightarrow> None
   | InvokePluginAction _ _ _ \<Rightarrow> None
   | CreateTab workspace \<Rightarrow>
       Some [lit ''tab'', lit ''create'', lit ''--workspace'', server_local_id workspace, lit ''--focus'']
   | RenameTab tab label \<Rightarrow> Some [lit ''tab'', lit ''rename'', server_local_id tab, label]
   | CloseTab tab \<Rightarrow> Some [lit ''tab'', lit ''close'', server_local_id tab]
   | SplitPane pane direction \<Rightarrow>
       Some [lit ''pane'', lit ''split'', server_local_id pane, lit ''--direction'',
         split_cli_value direction, lit ''--focus'']
   | TogglePaneZoom pane \<Rightarrow> Some [lit ''pane'', lit ''zoom'', server_local_id pane, lit ''--toggle'']
   | ClosePane pane \<Rightarrow> Some [lit ''pane'', lit ''close'', server_local_id pane])"

section \<open>Remote listings\<close>

datatype remote_entry_kind = DirectoryEntry | FileEntry | OtherEntry

record remote_entry =
  re_kind :: remote_entry_kind
  re_name :: ustring

record remote_listing =
  rl_root :: ustring
  rl_path :: ustring
  rl_entries :: "remote_entry list"
  rl_truncated :: bool

section \<open>Messages\<close>

definition protocol_version :: u32 where
  "protocol_version = 3"

definition max_message_bytes :: nat where
  "max_message_bytes = 4 * 1024 * 1024"

datatype pane_representation = Frames | ScreenRepresentation

type_synonym request_id = u64

datatype (plugins del: quickcheck_random quickcheck_exhaustive quickcheck_full_exhaustive
  quickcheck_narrowing size lifting transfer extraction) client_message =
    ClientHello u32 ustring
  | SubscribeState
  | SubscribePane pane_id terminal_access u16 u16 pane_representation
  | AckPaneScreen pane_id u64
  | UnsubscribePane pane_id
  | TakePaneControl pane_id bool
  | PaneInput pane_id "u8 list"
  | PaneResize pane_id u16 u16
  | PaneScroll pane_id terminal_scroll_direction u16 u16 u16 u8
  | RunOperation request_id operation
  | ListPluginActions request_id target_session
  | GetPluginRun request_id plugin_run_id
  | PastePaneText request_id pane_id ustring
  | BeginUpload request_id pane_id ustring "ustring option" u64
  | ResumeUpload request_id ustring pane_id u64
  | UploadChunk request_id "u8 list"
  | FinishUpload request_id ustring
  | CancelUpload request_id
  | BeginDownload request_id pane_id ustring
  | PullDownload request_id u32
  | CancelDownload request_id
  | TransferBetween request_id pane_id ustring pane_id "ustring option"
  | MarkAttentionSeen pane_id
  | MarkAllAttentionSeen
  | RequestPairingCode request_id
  | DecidePairing ustring bool
  | ClearSeenAttention
  | SubscribeAgentCards
  | MarkAgent request_id agent_id agent_mark_request
  | SubscribeNotifications
  | UnsubscribeNotifications
  | ListRemoteDirectory request_id target_session ustring ustring
  | NameResource request_id resource_ref "ustring option" ustring
  | ConfirmResourceName request_id resource_ref ustring
  | FavouriteResource request_id resource_ref
  | SetJumpSlot request_id u8 "resource_ref option"
  | SearchRemoteFiles request_id target_session ustring ustring bool

datatype (plugins del: quickcheck_random quickcheck_exhaustive quickcheck_full_exhaustive
  quickcheck_narrowing size lifting transfer extraction) server_message =
    ServerHello u32 ustring "ustring list" "quick_reply list"
  | FederationStateMsg federation_state
  | TargetStateMsg target_session "target_runtime_state option"
  | PaneFrame pane_id u64 u16 u16 bool "u8 list"
  | PaneScreen pane_id snapshot
  | PaneScreenDiff pane_id diff
  | PaneClosed pane_id
  | PaneLease pane_id terminal_access
  | OperationResult request_id bool ustring "plugin_run option"
  | PluginActions request_id target_session u64 "plugin_action list"
  | PluginRunMsg request_id plugin_run
  | AgentCards agent_card_projection
  | RemoteFiles request_id target_session remote_listing
  | NotificationMsg agent_id ustring ustring
  | PairingCode request_id ustring u64 "ustring option"
  | PairingApprovalRequired ustring ustring ustring u64
  | PairingDecision ustring bool ustring
  | UploadAccepted request_id ustring u64
  | UploadInterrupted request_id ustring u64
  | DownloadOffer request_id ustring u64 ustring
  | DownloadChunk request_id "u8 list"
  | DownloadFinished request_id
  | UploadComplete request_id ustring u64
  | AttentionMsg attention_event
  | AttentionHistory "attention_event list"
  | ErrorMsg "request_id option" ustring

section \<open>Framing\<close>

text \<open>
  Messages travel as lines of at most \<open>max_message_bytes\<close> bytes, the newline included. The
  JSON writer and reader are those of \<open>serde_json\<close>: parameters that give the bytes of a
  message and the message of some bytes, or an error.
\<close>

definition encode :: "('m \<Rightarrow> u8 list result) \<Rightarrow> 'm \<Rightarrow> u8 list result" where
  "encode to_vec message = and_then (to_vec message) (\<lambda>line.
     if length line \<ge> max_message_bytes
     then Inl (lit ''refusing to send a '' @ show_nat (length line)
       @ lit '' byte protocol message; the limit is '' @ show_nat max_message_bytes)
     else Inr (line @ [10]))"

definition decode :: "(u8 list \<Rightarrow> 'm result) \<Rightarrow> u8 list \<Rightarrow> 'm result" where
  "decode from_slice line =
     (if length line \<ge> max_message_bytes
      then Inl (lit ''refusing to parse a '' @ show_nat (length line)
        @ lit '' byte protocol message; the limit is '' @ show_nat max_message_bytes)
      else from_slice line)"

lemma encode_eq_Inr:
  "encode to_vec m = Inr bs \<longleftrightarrow>
     (\<exists>line. to_vec m = Inr line \<and> length line < max_message_bytes \<and> bs = line @ [10])"
  by (auto simp: encode_def and_then_eq_Inr not_le split: if_splits)

lemma decode_encode:
  assumes "to_vec m = Inr line" "from_slice line = Inr m" "encode to_vec m = Inr bs"
  shows "decode from_slice (butlast bs) = Inr m"
  using assms by (auto simp: encode_eq_Inr decode_def)

end
