(* ===== verification/Broker.thy ===== *)
theory Broker
  imports Protocol
begin

text \<open>
  The daemon's connection state machine, \<open>src/src/daemon/broker.rs\<close>: one route per pane
  shared by its subscribers, one control lease per route, and rendered screens for the
  subscribers that ask for them. As in the source everything is pure: an operation takes
  the broker and returns it with the effects the I/O layer performs, in order.

  The terminal emulator is a parameter (\<open>'p vt100\<close>); a screen holds a parser of type \<open>'p\<close>.
  Client identities and screen sequences are \<open>u64\<close> and their increments wrap.
\<close>

section \<open>Effects\<close>

type_synonym client_id = u64

datatype local_change =
    ChangeName resource_ref "ustring option" ustring
  | ChangeConfirmName resource_ref ustring
  | ChangeFavourite resource_ref
  | ChangeSlot u8 "resource_ref option"

datatype (plugins del: quickcheck_random quickcheck_exhaustive quickcheck_full_exhaustive
  quickcheck_narrowing size lifting transfer extraction) effect =
    Send client_id server_message
  | Disconnect client_id ustring
  | OpenRoute pane_id terminal_access u16 u16
  | CloseRoute pane_id
  | RouteUnclaimed pane_id
  | RouteInput pane_id "u8 list"
  | RouteResize pane_id u16 u16
  | RouteScroll pane_id terminal_scroll_direction u16 u16 u16 u8
  | RunOperationEffect client_id request_id operation
  | ListPluginActionsEffect client_id request_id target_session
  | GetPluginRunEffect client_id request_id plugin_run_id
  | PastePaneTextEffect client_id request_id pane_id ustring
  | BeginUploadEffect client_id request_id pane_id ustring "ustring option" u64
  | ResumeUploadEffect client_id request_id ustring pane_id u64
  | UploadChunkEffect client_id request_id "u8 list"
  | FinishUploadEffect client_id request_id ustring
  | CancelUploadEffect client_id request_id
  | BeginDownloadEffect client_id request_id pane_id ustring
  | PullDownloadEffect client_id request_id u32
  | CancelDownloadEffect client_id request_id
  | TransferBetweenEffect client_id request_id pane_id ustring pane_id "ustring option"
  | MarkAgentEffect client_id request_id agent_id agent_mark_request
  | LocalNaming client_id request_id local_change
  | ListRemoteDirectoryEffect client_id request_id target_session ustring ustring
  | SearchRemoteFilesEffect client_id request_id target_session ustring ustring bool
  | MarkAttentionSeenEffect pane_id
  | MarkAllAttentionSeenEffect
  | ClearSeenAttentionEffect
  | IssuePairingCode client_id request_id
  | DecidePairingEffect ustring bool
  | SendAttentionHistory client_id

section \<open>State\<close>

record pane_subscription =
  sb_requested :: terminal_access
  sb_cols :: u16
  sb_rows :: u16
  sb_representation :: pane_representation
  sb_sent :: "u64 option"
  sb_outstanding :: "u64 list"

record route =
  rt_access :: terminal_access
  rt_cols :: u16
  rt_rows :: u16
  rt_control :: "client_id option"
  rt_subscribers :: "client_id btset"
  rt_unclaimed :: bool

record client =
  cl_greeted :: bool
  cl_state_subscribed :: bool
  cl_agent_cards_subscribed :: bool
  cl_notifications_subscribed :: bool
  cl_panes :: "(pane_id, pane_subscription) btmap"

definition client_new :: client where
  "client_new = \<lparr>cl_greeted = False, cl_state_subscribed = False, cl_agent_cards_subscribed = False,
     cl_notifications_subscribed = False, cl_panes = bt_empty\<rparr>"

definition max_outstanding_screen_updates :: nat where
  "max_outstanding_screen_updates = 4"

record 'p screen_state =
  ss_parser :: 'p
  ss_last :: snapshot

record rendered =
  rd_screen :: snapshot
  rd_diff :: "diff option"
  rd_changed :: bool

record 'p broker =
  bk_server_version :: ustring
  bk_features :: "ustring list"
  bk_quick_replies :: "quick_reply list"
  bk_clients :: "(client_id, client) btmap"
  bk_routes :: "(pane_id, route) btmap"
  bk_screens :: "(pane_id, 'p screen_state) btmap"
  bk_state :: federation_state
  bk_agent_cards :: "agent_card_projection option"
  bk_next_client :: u64

type_synonym 'p step_result = "'p broker \<times> effect list"

section \<open>Rendered screens\<close>

definition screen_state_new :: "'p vt100 \<Rightarrow> u16 \<Rightarrow> u16 \<Rightarrow> 'p screen_state" where
  "screen_state_new vt width height =
     (let parser = vt_new vt height width
      in \<lparr>ss_parser = parser, ss_last = snapshot_of vt parser 0\<rparr>)"

definition screen_advance ::
    "'p vt100 \<Rightarrow> u16 \<Rightarrow> u16 \<Rightarrow> bool \<Rightarrow> u8 list \<Rightarrow> 'p screen_state \<Rightarrow> 'p screen_state \<times> rendered" where
  "screen_advance vt width height full bytes st =
     (let (rows, cols) = vt_size vt (ss_parser st);
          parser0 = (if full \<or> rows \<noteq> height \<or> cols \<noteq> width then vt_new vt height width
            else ss_parser st);
          parser = vt_process vt bytes parser0;
          candidate = snapshot_of vt parser (sn_sequence (ss_last st) + 1);
          unchanged = (sn_width candidate = sn_width (ss_last st) \<and>
            sn_height candidate = sn_height (ss_last st) \<and>
            sn_rows candidate = sn_rows (ss_last st) \<and>
            sn_cursor candidate = sn_cursor (ss_last st))
      in if unchanged
         then (\<lparr>ss_parser = parser, ss_last = ss_last st\<rparr>,
               \<lparr>rd_screen = ss_last st, rd_diff = None, rd_changed = False\<rparr>)
         else (\<lparr>ss_parser = parser, ss_last = candidate\<rparr>,
               \<lparr>rd_screen = candidate, rd_diff = diff_between (ss_last st) candidate,
                rd_changed = True\<rparr>))"

section \<open>Small operations on the state\<close>

definition broker_new :: "ustring \<Rightarrow> ustring list \<Rightarrow> quick_reply list \<Rightarrow> 'p broker" where
  "broker_new server_version features quick_replies =
     \<lparr>bk_server_version = server_version, bk_features = features, bk_quick_replies = quick_replies,
      bk_clients = bt_empty, bk_routes = bt_empty, bk_screens = bt_empty,
      bk_state = federation_default, bk_agent_cards = None, bk_next_client = 0\<rparr>"

text \<open>\<open>clients.get_mut(&client)\<close> and then \<open>session.panes.get_mut(pane)\<close>.\<close>

definition on_client :: "client_id \<Rightarrow> (client \<Rightarrow> client) \<Rightarrow> 'p broker \<Rightarrow> 'p broker" where
  "on_client c f b = b\<lparr>bk_clients := bt_adjust c f (bk_clients b)\<rparr>"

definition subscription_of :: "'p broker \<Rightarrow> client_id \<Rightarrow> pane_id \<Rightarrow> pane_subscription option" where
  "subscription_of b c pane = Option.bind (bt_get (bk_clients b) c) (\<lambda>session. bt_get (cl_panes session) pane)"

definition on_subscription ::
    "client_id \<Rightarrow> pane_id \<Rightarrow> (pane_subscription \<Rightarrow> pane_subscription) \<Rightarrow> 'p broker \<Rightarrow> 'p broker" where
  "on_subscription c pane f b =
     on_client c (\<lambda>session. session\<lparr>cl_panes := bt_adjust pane f (cl_panes session)\<rparr>) b"

definition on_route :: "pane_id \<Rightarrow> (route \<Rightarrow> route) \<Rightarrow> 'p broker \<Rightarrow> 'p broker" where
  "on_route pane f b = b\<lparr>bk_routes := bt_adjust pane f (bk_routes b)\<rparr>"

definition drop_screen :: "pane_id \<Rightarrow> 'p broker \<Rightarrow> 'p broker" where
  "drop_screen pane b = b\<lparr>bk_screens := bt_remove pane (bk_screens b)\<rparr>"

definition connect :: "'p broker \<Rightarrow> 'p broker \<times> client_id" where
  "connect b =
     (let c = bk_next_client b
      in (b\<lparr>bk_next_client := c + 1, bk_clients := bt_insert c client_new (bk_clients b)\<rparr>, c))"

definition representation_of :: "'p broker \<Rightarrow> client_id \<Rightarrow> pane_id \<Rightarrow> pane_representation" where
  "representation_of b c pane =
     (case subscription_of b c pane of None \<Rightarrow> Frames | Some s \<Rightarrow> sb_representation s)"

definition screen_subscribers :: "'p broker \<Rightarrow> pane_id \<Rightarrow> route \<Rightarrow> client_id list" where
  "screen_subscribers b pane r =
     filter (\<lambda>c. representation_of b c pane = ScreenRepresentation) (bt_keys (rt_subscribers r))"

definition release_screen_if_unwatched :: "pane_id \<Rightarrow> 'p broker \<Rightarrow> 'p broker" where
  "release_screen_if_unwatched pane b =
     (let watched = (case bt_get (bk_routes b) pane of
            None \<Rightarrow> False
          | Some r \<Rightarrow> screen_subscribers b pane r \<noteq> [])
      in if watched then b else drop_screen pane b)"

definition broadcast_state :: "server_message \<Rightarrow> 'p broker \<Rightarrow> effect list" where
  "broadcast_state message b =
     map (\<lambda>e. Send (fst e) message) (filter (\<lambda>e. cl_state_subscribed (snd e)) (bt_entries (bk_clients b)))"

section \<open>Leases\<close>

text \<open>The size a route takes on when its lease moves, and the effect that tells the host.\<close>

definition resize_for_control :: "pane_id \<Rightarrow> u16 \<Rightarrow> u16 \<Rightarrow> route \<Rightarrow> route \<times> effect list" where
  "resize_for_control pane cols rows r =
     (if rt_cols r = cols \<and> rt_rows r = rows then (r, [])
      else (r\<lparr>rt_cols := cols, rt_rows := rows\<rparr>, [RouteResize pane cols rows]))"

definition lease_error :: "pane_id \<Rightarrow> ustring" where
  "lease_error pane = lit ''this connection does not hold the control lease for '' @ show_qualified_id pane"

definition holds_control :: "client_id \<Rightarrow> pane_id \<Rightarrow> 'p broker \<Rightarrow> bool \<times> effect list" where
  "holds_control c pane b =
     (if Option.bind (bt_get (bk_routes b) pane) rt_control = Some c then (True, [])
      else (False, [Send c (ErrorMsg None (lease_error pane))]))"

definition take_control :: "client_id \<Rightarrow> pane_id \<Rightarrow> bool \<Rightarrow> 'p broker \<Rightarrow> 'p step_result" where
  "take_control c pane only_if_free b =
     (case bt_get (bk_clients b) c of
        None \<Rightarrow> (b, [])
      | Some session \<Rightarrow>
        (case bt_get (cl_panes session) pane of
           None \<Rightarrow> (b, [Send c (ErrorMsg None (lit ''cannot take control of '' @ show_qualified_id pane
             @ lit '' without subscribing to it''))])
         | Some subscription \<Rightarrow>
           (case bt_get (bk_routes b) pane of
              None \<Rightarrow> (b, [])
            | Some r \<Rightarrow>
                if rt_control r = Some c then (b, [])
                else if only_if_free \<and> rt_control r \<noteq> None
                then (b, [Send c (PaneLease pane Observe)])
                else
                  (let previous = rt_control r;
                       (r1, resized) = resize_for_control pane (sb_cols subscription)
                         (sb_rows subscription) (r\<lparr>rt_control := Some c\<rparr>);
                       (r2, reopened) = (if rt_access r1 \<noteq> Control
                         then (r1\<lparr>rt_access := Control\<rparr>,
                               [CloseRoute pane, OpenRoute pane Control (rt_cols r1) (rt_rows r1)])
                         else (r1, []))
                   in (b\<lparr>bk_routes := bt_insert pane r2 (bk_routes b)\<rparr>,
                       resized @ reopened
                       @ (case previous of None \<Rightarrow> [] | Some p \<Rightarrow> [Send p (PaneLease pane Observe)])
                       @ [Send c (PaneLease pane Control)])))))"

definition release_pane :: "client_id \<Rightarrow> pane_id \<Rightarrow> 'p broker \<Rightarrow> 'p step_result" where
  "release_pane c pane b =
     (case bt_get (bk_routes b) pane of
        None \<Rightarrow> (b, [])
      | Some r0 \<Rightarrow>
        (let r = r0\<lparr>rt_subscribers := bs_remove c (rt_subscribers r0)\<rparr>;
             emptied = (bt_keys (rt_subscribers r) = []);
             held_control = (rt_control r = Some c)
         in if emptied
            then (b\<lparr>bk_routes := bt_insert pane (r\<lparr>rt_unclaimed := True, rt_control := None\<rparr>)
                    (bk_routes b)\<rparr>, [RouteUnclaimed pane])
            else
              (let b1 = release_screen_if_unwatched pane
                     (b\<lparr>bk_routes := bt_insert pane r (bk_routes b)\<rparr>)
               in if \<not> held_control then (b1, [])
                  else
                    (let downgrade = (rt_access r = Control);
                         r1 = r\<lparr>rt_control := None,
                           rt_access := (if downgrade then Observe else rt_access r)\<rparr>
                     in (b1\<lparr>bk_routes := bt_insert pane r1 (bk_routes b1)\<rparr>,
                         (if downgrade
                          then [CloseRoute pane, OpenRoute pane Observe (rt_cols r1) (rt_rows r1)]
                          else [])
                         @ map (\<lambda>s. Send s (PaneLease pane Observe)) (bt_keys (rt_subscribers r1)))))))"

fun release_panes :: "client_id \<Rightarrow> pane_id list \<Rightarrow> 'p broker \<Rightarrow> 'p step_result" where
  "release_panes c [] b = (b, [])"
| "release_panes c (pane # panes) b =
     (let (b1, es1) = release_pane c pane b; (b2, es2) = release_panes c panes b1 in (b2, es1 @ es2))"

definition disconnect :: "client_id \<Rightarrow> 'p broker \<Rightarrow> 'p step_result" where
  "disconnect c b =
     (case bt_get (bk_clients b) c of
        None \<Rightarrow> (b, [])
      | Some departing \<Rightarrow>
          release_panes c (bt_keys (cl_panes departing)) (b\<lparr>bk_clients := bt_remove c (bk_clients b)\<rparr>))"

section \<open>Subscribing\<close>

text \<open>The route a subscription ends up on, the effects that takes, and what it grants.\<close>

definition subscribe_route ::
    "client_id \<Rightarrow> pane_id \<Rightarrow> terminal_access \<Rightarrow> u16 \<Rightarrow> u16 \<Rightarrow> route option
      \<Rightarrow> route \<times> effect list \<times> terminal_access" where
  "subscribe_route c pane access cols rows held =
     (case held of
        Some r0 \<Rightarrow>
          (let r = r0\<lparr>rt_unclaimed := False, rt_subscribers := bs_insert c (rt_subscribers r0)\<rparr>
           in if access = Control \<and> rt_control r = None
              then (let (r1, es) = resize_for_control pane cols rows (r\<lparr>rt_control := Some c\<rparr>)
                    in (r1, es, Control))
              else if rt_control r = Some c then (r, [], Control)
              else (r, [], Observe))
      | None \<Rightarrow>
          (\<lparr>rt_access = access, rt_cols = cols, rt_rows = rows,
            rt_control = (if access = Control then Some c else None),
            rt_subscribers = bs_insert c bt_empty, rt_unclaimed = False\<rparr>,
           [OpenRoute pane access cols rows], access))"

definition subscribe_pane ::
    "client_id \<Rightarrow> pane_id \<Rightarrow> terminal_access \<Rightarrow> u16 \<Rightarrow> u16 \<Rightarrow> pane_representation \<Rightarrow> 'p broker
      \<Rightarrow> 'p step_result" where
  "subscribe_pane c pane access cols rows representation b =
     (case bt_get (bk_clients b) c of
        None \<Rightarrow> (b, [])
      | Some session \<Rightarrow>
        (let b1 = on_client c (\<lambda>session. session\<lparr>cl_panes := bt_insert pane
               \<lparr>sb_requested = access, sb_cols = cols, sb_rows = rows, sb_representation = representation,
                sb_sent = None, sb_outstanding = []\<rparr> (cl_panes session)\<rparr>) b;
             (r, opened, granted) = subscribe_route c pane access cols rows (bt_get (bk_routes b1) pane);
             b2 = b1\<lparr>bk_routes := bt_insert pane r (bk_routes b1)\<rparr>;
             (b3, caught_up) =
               (if representation = ScreenRepresentation
                then (case bt_get (bk_screens b2) pane of
                        None \<Rightarrow> (b2, [])
                      | Some st \<Rightarrow>
                          (on_subscription c pane (\<lambda>s. s\<lparr>sb_sent := Some (sn_sequence (ss_last st)),
                             sb_outstanding := sb_outstanding s @ [sn_sequence (ss_last st)]\<rparr>) b2,
                           [Send c (PaneScreen pane (ss_last st))]))
                else (b2, []))
         in (b3, opened @ caught_up @ [Send c (PaneLease pane granted)])))"

section \<open>Screen updates\<close>

definition update_for :: "pane_subscription \<Rightarrow> pane_id \<Rightarrow> rendered \<Rightarrow> server_message" where
  "update_for s pane r =
     (case (rd_diff r, sb_sent s) of
        (Some d, Some sent) \<Rightarrow> if sent = df_follows d then PaneScreenDiff pane d
          else PaneScreen pane (rd_screen r)
      | _ \<Rightarrow> PaneScreen pane (rd_screen r))"

definition note_sent :: "rendered \<Rightarrow> pane_subscription \<Rightarrow> pane_subscription" where
  "note_sent r s = s\<lparr>sb_sent := Some (sn_sequence (rd_screen r)),
     sb_outstanding := sb_outstanding s @ [sn_sequence (rd_screen r)]\<rparr>"

text \<open>Whether a screen subscriber is sent a rendered frame: not when it is up to date and
  nothing moved, and not when it already has as many updates as it may.\<close>

definition wants_update :: "rendered \<Rightarrow> pane_subscription \<Rightarrow> bool" where
  "wants_update r s \<longleftrightarrow>
     \<not> (\<not> rd_changed r \<and> sb_sent s = Some (sn_sequence (rd_screen r))) \<and>
     \<not> length (sb_outstanding s) \<ge> max_outstanding_screen_updates"

fun render_to :: "pane_id \<Rightarrow> rendered \<Rightarrow> client_id list \<Rightarrow> 'p broker \<Rightarrow> 'p step_result" where
  "render_to pane r [] b = (b, [])"
| "render_to pane r (c # cs) b =
     (case subscription_of b c pane of
        None \<Rightarrow> render_to pane r cs b
      | Some s \<Rightarrow>
          if \<not> wants_update r s then render_to pane r cs b
          else (let (b1, es) = render_to pane r cs (on_subscription c pane (note_sent r) b)
                in (b1, Send c (update_for s pane r) # es)))"

definition render_for ::
    "'p vt100 \<Rightarrow> pane_id \<Rightarrow> u16 \<Rightarrow> u16 \<Rightarrow> bool \<Rightarrow> u8 list \<Rightarrow> client_id list \<Rightarrow> 'p broker \<Rightarrow> 'p step_result" where
  "render_for vt pane width height full bytes subscribers b =
     (let st0 = unwrap_or (screen_state_new vt width height) (bt_get (bk_screens b) pane);
          (st, r) = screen_advance vt width height full bytes st0
      in render_to pane r subscribers (b\<lparr>bk_screens := bt_insert pane st (bk_screens b)\<rparr>))"

definition pane_frame ::
    "'p vt100 \<Rightarrow> pane_id \<Rightarrow> u64 \<Rightarrow> u16 \<Rightarrow> u16 \<Rightarrow> bool \<Rightarrow> u8 list \<Rightarrow> 'p broker \<Rightarrow> 'p step_result" where
  "pane_frame vt pane sequence width height full bytes b =
     (case bt_get (bk_routes b) pane of
        None \<Rightarrow> (b, [])
      | Some r \<Rightarrow>
        (let screens = screen_subscribers b pane r;
             frames = filter (\<lambda>c. representation_of b c pane \<noteq> ScreenRepresentation)
               (bt_keys (rt_subscribers r));
             sends = map (\<lambda>c. Send c (PaneFrame pane sequence width height full bytes)) frames
         in if screens = [] then (drop_screen pane b, sends)
            else (let (b1, es) = render_for vt pane width height full bytes screens b
                  in (b1, sends @ es))))"

definition ack_pane_screen :: "client_id \<Rightarrow> pane_id \<Rightarrow> u64 \<Rightarrow> 'p broker \<Rightarrow> 'p step_result" where
  "ack_pane_screen c pane sequence b =
     (case subscription_of b c pane of
        None \<Rightarrow> (b, [])
      | Some s0 \<Rightarrow>
        if sequence \<notin> set (sb_outstanding s0) then (b, [])
        else
          (let settle = (\<lambda>s. s\<lparr>sb_outstanding := dropWhile (\<lambda>held. held \<le> sequence) (sb_outstanding s)\<rparr>);
               s = settle s0;
               b1 = on_subscription c pane settle b
           in (case bt_get (bk_screens b) pane of
                 None \<Rightarrow> (b1, [])
               | Some st \<Rightarrow>
                   if sb_sent s = Some (sn_sequence (ss_last st))
                      \<or> length (sb_outstanding s) \<ge> max_outstanding_screen_updates
                   then (b1, [])
                   else
                     (let r = \<lparr>rd_screen = ss_last st, rd_diff = None, rd_changed = True\<rparr>
                      in (on_subscription c pane (note_sent r) b1, [Send c (update_for s pane r)])))))"

section \<open>Routes that end\<close>

definition close_if_unclaimed :: "pane_id \<Rightarrow> 'p broker \<Rightarrow> 'p step_result" where
  "close_if_unclaimed pane b =
     (case bt_get (bk_routes b) pane of
        None \<Rightarrow> (b, [])
      | Some r \<Rightarrow>
          if \<not> rt_unclaimed r then (b, [])
          else (drop_screen pane (b\<lparr>bk_routes := bt_remove pane (bk_routes b)\<rparr>), [CloseRoute pane]))"

definition forget_pane :: "pane_id \<Rightarrow> client_id \<Rightarrow> 'p broker \<Rightarrow> 'p broker" where
  "forget_pane pane c b = on_client c (\<lambda>session. session\<lparr>cl_panes := bt_remove pane (cl_panes session)\<rparr>) b"

definition pane_route_closed :: "pane_id \<Rightarrow> 'p broker \<Rightarrow> 'p step_result" where
  "pane_route_closed pane b =
     (case bt_get (bk_routes b) pane of
        None \<Rightarrow> (b, [])
      | Some r \<Rightarrow>
          (fold (forget_pane pane) (bt_keys (rt_subscribers r))
             (drop_screen pane (b\<lparr>bk_routes := bt_remove pane (bk_routes b)\<rparr>)),
           map (\<lambda>c. Send c (PaneClosed pane)) (bt_keys (rt_subscribers r))))"

definition route_downgraded :: "pane_id \<Rightarrow> 'p broker \<Rightarrow> 'p step_result" where
  "route_downgraded pane b =
     (case bt_get (bk_routes b) pane of
        None \<Rightarrow> (b, [])
      | Some r \<Rightarrow>
          if rt_access r = Observe \<and> rt_control r = None then (b, [])
          else (b\<lparr>bk_routes := bt_insert pane (r\<lparr>rt_access := Observe, rt_control := None\<rparr>) (bk_routes b)\<rparr>,
                map (\<lambda>c. Send c (PaneLease pane Observe)) (bt_keys (rt_subscribers r))))"

definition pane_is_gone :: "'p broker \<Rightarrow> pane_id \<Rightarrow> bool" where
  "pane_is_gone b pane =
     (case bt_get (fs_targets (bk_state b)) (qid_target_session pane) of
        None \<Rightarrow> True
      | Some target \<Rightarrow>
          if tr_connection target \<noteq> Live then False
          else (case tr_snapshot target of
                  None \<Rightarrow> False
                | Some snapshot \<Rightarrow> \<not> bt_contains pane (ns_panes snapshot)))"

fun close_routes :: "pane_id list \<Rightarrow> 'p broker \<Rightarrow> 'p step_result" where
  "close_routes [] b = (b, [])"
| "close_routes (pane # panes) b =
     (let (b1, es1) = pane_route_closed pane b; (b2, es2) = close_routes panes b1 in (b2, es1 @ es2))"

definition close_vanished_routes :: "'p broker \<Rightarrow> 'p step_result" where
  "close_vanished_routes b = close_routes (filter (pane_is_gone b) (bt_keys (bk_routes b))) b"

section \<open>What the daemon publishes\<close>

definition federation_changes :: "federation_state \<Rightarrow> federation_state \<Rightarrow> server_message list" where
  "federation_changes old new =
     map (\<lambda>e. TargetStateMsg (fst e) (Some (snd e)))
       (filter (\<lambda>e. case bt_get (fs_targets old) (fst e) of
          Some previous \<Rightarrow> differs_for_clients previous (snd e) | None \<Rightarrow> True) (bt_entries (fs_targets new)))
     @ map (\<lambda>key. TargetStateMsg key None)
         (filter (\<lambda>key. \<not> bt_contains key (fs_targets new)) (bt_keys (fs_targets old)))"

definition federation_updated :: "federation_state \<Rightarrow> 'p broker \<Rightarrow> 'p step_result" where
  "federation_updated st b =
     (let changes = federation_changes (bk_state b) st;
          b1 = b\<lparr>bk_state := st\<rparr>;
          sends = concat (map (\<lambda>message. broadcast_state message b1) changes);
          (b2, closed) = close_vanished_routes b1
      in (b2, sends @ closed))"

definition agent_cards_updated :: "agent_card_projection \<Rightarrow> 'p broker \<Rightarrow> 'p step_result" where
  "agent_cards_updated projection b =
     (if bk_agent_cards b = Some projection then (b, [])
      else (b\<lparr>bk_agent_cards := Some projection\<rparr>,
            map (\<lambda>e. Send (fst e) (AgentCards projection))
              (filter (\<lambda>e. cl_agent_cards_subscribed (snd e)) (bt_entries (bk_clients b)))))"

definition notify_devices :: "server_message \<Rightarrow> 'p broker \<Rightarrow> 'p step_result" where
  "notify_devices notification b =
     (b, map (\<lambda>e. Send (fst e) notification)
           (filter (\<lambda>e. cl_notifications_subscribed (snd e)) (bt_entries (bk_clients b))))"

definition attention_observed :: "attention_event \<Rightarrow> 'p broker \<Rightarrow> 'p step_result" where
  "attention_observed event b = (b, broadcast_state (AttentionMsg event) b)"

definition attention_changed :: "attention_event list \<Rightarrow> 'p broker \<Rightarrow> 'p step_result" where
  "attention_changed events b = (b, broadcast_state (AttentionHistory events) b)"

definition pairing_approval_required ::
    "ustring \<Rightarrow> ustring \<Rightarrow> ustring \<Rightarrow> u64 \<Rightarrow> 'p broker \<Rightarrow> effect list" where
  "pairing_approval_required attempt name confirmation expires_in_seconds b =
     broadcast_state (PairingApprovalRequired attempt name confirmation expires_in_seconds) b"

definition pairing_decided :: "ustring \<Rightarrow> bool \<Rightarrow> ustring \<Rightarrow> 'p broker \<Rightarrow> effect list" where
  "pairing_decided attempt approved message b =
     broadcast_state (PairingDecision attempt approved message) b"

definition operation_completed ::
    "client_id \<Rightarrow> request_id \<Rightarrow> bool \<Rightarrow> ustring \<Rightarrow> plugin_run option \<Rightarrow> 'p broker \<Rightarrow> effect list" where
  "operation_completed c request applied message plugin_run b =
     (if \<not> bt_contains c (bk_clients b) then []
      else [Send c (OperationResult request applied message plugin_run)])"

section \<open>Handling a message\<close>

definition refuse :: "client_id \<Rightarrow> ustring \<Rightarrow> effect list" where
  "refuse c reason = [Send c (ErrorMsg None reason), Disconnect c reason]"

text \<open>The handshake: nothing else is answered before it.\<close>

definition handle_ungreeted :: "client_id \<Rightarrow> client_message \<Rightarrow> 'p broker \<Rightarrow> 'p step_result" where
  "handle_ungreeted c message b =
     (case message of
        ClientHello protocol _ \<Rightarrow>
          if protocol = protocol_version
          then (on_client c (\<lambda>session. session\<lparr>cl_greeted := True\<rparr>) b,
                [Send c (ServerHello protocol_version (bk_server_version b) (bk_features b)
                  (bk_quick_replies b))])
          else (b, refuse c (lit ''protocol '' @ show_word protocol
                 @ lit '' is not supported; this daemon speaks '' @ show_word protocol_version))
      | _ \<Rightarrow> (b, refuse c (lit ''the first message must be client.hello'')))"

text \<open>An effect that only the holder of a pane's lease may cause.\<close>

definition with_lease :: "client_id \<Rightarrow> pane_id \<Rightarrow> effect \<Rightarrow> 'p broker \<Rightarrow> 'p step_result" where
  "with_lease c pane e b =
     (let (held, refused) = holds_control c pane b in if held then (b, [e]) else (b, refused))"

definition handle_greeted :: "client_id \<Rightarrow> client_message \<Rightarrow> 'p broker \<Rightarrow> 'p step_result" where
  "handle_greeted c message b =
     (case message of
        ClientHello _ _ \<Rightarrow> (b, refuse c (lit ''client.hello was already accepted on this connection''))
      | SubscribeState \<Rightarrow>
          (on_client c (\<lambda>session. session\<lparr>cl_state_subscribed := True\<rparr>) b,
           [Send c (FederationStateMsg (bk_state b)), SendAttentionHistory c])
      | MarkAgent request agent mark \<Rightarrow> (b, [MarkAgentEffect c request agent mark])
      | SubscribeNotifications \<Rightarrow>
          (on_client c (\<lambda>session. session\<lparr>cl_notifications_subscribed := True\<rparr>) b, [])
      | NameResource request resource label observed \<Rightarrow>
          (b, [LocalNaming c request (ChangeName resource label observed)])
      | ConfirmResourceName request resource observed \<Rightarrow>
          (b, [LocalNaming c request (ChangeConfirmName resource observed)])
      | FavouriteResource request resource \<Rightarrow> (b, [LocalNaming c request (ChangeFavourite resource)])
      | SetJumpSlot request slot resource \<Rightarrow> (b, [LocalNaming c request (ChangeSlot slot resource)])
      | ListRemoteDirectory request target root path \<Rightarrow>
          (b, [ListRemoteDirectoryEffect c request target root path])
      | SearchRemoteFiles request target root query glob \<Rightarrow>
          (b, [SearchRemoteFilesEffect c request target root query glob])
      | UnsubscribeNotifications \<Rightarrow>
          (on_client c (\<lambda>session. session\<lparr>cl_notifications_subscribed := False\<rparr>) b, [])
      | SubscribeAgentCards \<Rightarrow>
          (on_client c (\<lambda>session. session\<lparr>cl_agent_cards_subscribed := True\<rparr>) b,
           (case bk_agent_cards b of None \<Rightarrow> [] | Some projection \<Rightarrow> [Send c (AgentCards projection)]))
      | SubscribePane pane access cols rows representation \<Rightarrow>
          subscribe_pane c pane access cols rows representation b
      | AckPaneScreen pane sequence \<Rightarrow> ack_pane_screen c pane sequence b
      | UnsubscribePane pane \<Rightarrow>
          if subscription_of b c pane \<noteq> None then release_pane c pane (forget_pane pane c b) else (b, [])
      | TakePaneControl pane only_if_free \<Rightarrow> take_control c pane only_if_free b
      | PaneInput pane bytes \<Rightarrow> with_lease c pane (RouteInput pane bytes) b
      | PaneResize pane cols rows \<Rightarrow>
          (let (held, refused) = holds_control c pane b
           in if held
              then (on_route pane (\<lambda>r. r\<lparr>rt_cols := cols, rt_rows := rows\<rparr>)
                      (on_subscription c pane (\<lambda>s. s\<lparr>sb_cols := cols, sb_rows := rows\<rparr>) b),
                    [RouteResize pane cols rows])
              else (b, refused))
      | PaneScroll pane direction lines column row modifiers \<Rightarrow>
          with_lease c pane (RouteScroll pane direction lines column row modifiers) b
      | RunOperation request operation \<Rightarrow> (b, [RunOperationEffect c request operation])
      | ListPluginActions request target \<Rightarrow> (b, [ListPluginActionsEffect c request target])
      | GetPluginRun request run \<Rightarrow> (b, [GetPluginRunEffect c request run])
      | PastePaneText request pane text \<Rightarrow> with_lease c pane (PastePaneTextEffect c request pane text) b
      | BeginUpload request pane mime name len \<Rightarrow>
          with_lease c pane (BeginUploadEffect c request pane mime name len) b
      | ResumeUpload request transfer pane len \<Rightarrow>
          with_lease c pane (ResumeUploadEffect c request transfer pane len) b
      | UploadChunk request bytes \<Rightarrow> (b, [UploadChunkEffect c request bytes])
      | FinishUpload request digest \<Rightarrow> (b, [FinishUploadEffect c request digest])
      | CancelUpload request \<Rightarrow> (b, [CancelUploadEffect c request])
      | BeginDownload request pane path \<Rightarrow> with_lease c pane (BeginDownloadEffect c request pane path) b
      | PullDownload request chunks \<Rightarrow> (b, [PullDownloadEffect c request chunks])
      | CancelDownload request \<Rightarrow> (b, [CancelDownloadEffect c request])
      | TransferBetween request source path destination name \<Rightarrow>
          (let (reads, refused) = holds_control c source b
           in if \<not> reads then (b, refused)
              else with_lease c destination
                (TransferBetweenEffect c request source path destination name) b)
      | MarkAttentionSeen pane \<Rightarrow> (b, [MarkAttentionSeenEffect pane])
      | MarkAllAttentionSeen \<Rightarrow> (b, [MarkAllAttentionSeenEffect])
      | ClearSeenAttention \<Rightarrow> (b, [ClearSeenAttentionEffect])
      | RequestPairingCode request \<Rightarrow> (b, [IssuePairingCode c request])
      | DecidePairing attempt approve \<Rightarrow> (b, [DecidePairingEffect attempt approve]))"

definition handle :: "client_id \<Rightarrow> client_message \<Rightarrow> 'p broker \<Rightarrow> 'p step_result" where
  "handle c message b =
     (case bt_get (bk_clients b) c of
        None \<Rightarrow> (b, [])
      | Some session \<Rightarrow>
          if \<not> cl_greeted session then handle_ungreeted c message b else handle_greeted c message b)"

end
