(* ===== verification/Broker_Invariant.thy ===== *)
theory Broker_Invariant
  imports Broker
begin

text \<open>
  The invariant of the broker and its preservation by every operation: routes and
  subscriptions describe each other, a lease is held by a subscriber, exactly the routes
  without subscribers are unclaimed, a screen is only kept for a route, no subscription has
  more updates outstanding than allowed, and a connection that has not said hello holds
  nothing.
\<close>

section \<open>Looking at the state\<close>

definition linked :: "'p broker \<Rightarrow> client_id \<Rightarrow> pane_id \<Rightarrow> bool" where
  "linked b c pane \<longleftrightarrow> subscription_of b c pane \<noteq> None"

definition listed :: "'p broker \<Rightarrow> client_id \<Rightarrow> pane_id \<Rightarrow> bool" where
  "listed b c pane \<longleftrightarrow> (\<exists>r. bt_get (bk_routes b) pane = Some r \<and> bs_mem c (rt_subscribers r))"

definition route_ok :: "route \<Rightarrow> bool" where
  "route_ok r \<longleftrightarrow>
     (\<forall>h. rt_control r = Some h \<longrightarrow> bs_mem h (rt_subscribers r)) \<and>
     (rt_unclaimed r \<longleftrightarrow> bt_keys (rt_subscribers r) = [])"

text \<open>The routes agree with the subscriptions up to a set of pairs that are being
  released.\<close>

definition routes_upto :: "(client_id \<Rightarrow> pane_id \<Rightarrow> bool) \<Rightarrow> 'p broker \<Rightarrow> bool" where
  "routes_upto P b \<longleftrightarrow>
     (\<forall>c pane. listed b c pane \<longleftrightarrow> linked b c pane \<or> P c pane) \<and>
     (\<forall>pane r. bt_get (bk_routes b) pane = Some r \<longrightarrow> route_ok r) \<and>
     (\<forall>pane. bt_contains pane (bk_screens b) \<longrightarrow> bt_contains pane (bk_routes b))"

definition session_ok :: "client \<Rightarrow> bool" where
  "session_ok session \<longleftrightarrow>
     (\<forall>pane s. bt_get (cl_panes session) pane = Some s \<longrightarrow>
        length (sb_outstanding s) \<le> max_outstanding_screen_updates) \<and>
     (\<not> cl_greeted session \<longrightarrow> session = client_new)"

definition clients_ok :: "'p broker \<Rightarrow> bool" where
  "clients_ok b \<longleftrightarrow>
     (\<forall>c session. bt_get (bk_clients b) c = Some session \<longrightarrow> c < bk_next_client b \<and> session_ok session)"

definition broker_wf :: "'p broker \<Rightarrow> bool" where
  [inv_defs]: "broker_wf b \<longleftrightarrow> routes_upto (\<lambda>_ _. False) b \<and> clients_ok b"

lemma subscription_on_client:
  "subscription_of (on_client c f b) c' pane =
     (if c' = c then Option.bind (bt_get (bk_clients b) c) (\<lambda>session. bt_get (cl_panes (f session)) pane)
      else subscription_of b c' pane)"
  by (cases "bt_get (bk_clients b) c") (auto simp: subscription_of_def on_client_def)

lemma subscription_on_subscription [simp]:
  "subscription_of (on_subscription c pane f b) c' pane' =
     (if c' = c \<and> pane' = pane then map_option f (subscription_of b c pane)
      else subscription_of b c' pane')"
  by (cases "bt_get (bk_clients b) c")
    (auto simp: on_subscription_def on_client_def subscription_of_def)

lemma subscription_of_updates [simp]:
  "subscription_of (b\<lparr>bk_routes := rs\<rparr>) = subscription_of b"
  "subscription_of (b\<lparr>bk_screens := ss\<rparr>) = subscription_of b"
  "subscription_of (b\<lparr>bk_state := st\<rparr>) = subscription_of b"
  "subscription_of (b\<lparr>bk_agent_cards := ac\<rparr>) = subscription_of b"
  "subscription_of (drop_screen pane b) = subscription_of b"
  "subscription_of (on_route pane g b) = subscription_of b"
  by (auto simp: subscription_of_def drop_screen_def on_route_def intro!: ext)

lemma broker_fields [simp]:
  "bk_routes (on_client c f b) = bk_routes b" "bk_screens (on_client c f b) = bk_screens b"
  "bk_state (on_client c f b) = bk_state b" "bk_next_client (on_client c f b) = bk_next_client b"
  "bk_routes (on_subscription c pane g b) = bk_routes b"
  "bk_screens (on_subscription c pane g b) = bk_screens b"
  "bk_state (on_subscription c pane g b) = bk_state b"
  "bk_next_client (on_subscription c pane g b) = bk_next_client b"
  "bk_routes (drop_screen pane b) = bk_routes b" "bk_clients (drop_screen pane b) = bk_clients b"
  "bk_screens (drop_screen pane b) = bt_remove pane (bk_screens b)"
  "bk_state (drop_screen pane b) = bk_state b"
  "bk_next_client (drop_screen pane b) = bk_next_client b"
  "bk_clients (on_route pane h b) = bk_clients b" "bk_screens (on_route pane h b) = bk_screens b"
  "bk_state (on_route pane h b) = bk_state b" "bk_next_client (on_route pane h b) = bk_next_client b"
  "bk_routes (on_route pane h b) = bt_adjust pane h (bk_routes b)"
  "bk_clients (on_client c f b) = bt_adjust c f (bk_clients b)"
  by (simp_all add: on_client_def on_subscription_def drop_screen_def on_route_def)

lemma broker_fields_more [simp]:
  "bk_server_version (on_client c f b) = bk_server_version b"
  "bk_agent_cards (on_client c f b) = bk_agent_cards b"
  "bk_agent_cards (on_subscription c pane g b) = bk_agent_cards b"
  by (simp_all add: on_client_def on_subscription_def)

lemma bs_empty_iff: "bt_keys s = [] \<longleftrightarrow> (\<forall>x. \<not> bs_mem x s)"
  by (auto simp: bs_mem_keys)

lemma release_screen_cases:
  "release_screen_if_unwatched pane b = b \<or> release_screen_if_unwatched pane b = drop_screen pane b"
  by (simp add: release_screen_if_unwatched_def Let_def split: option.split)

lemma release_screen_fields [simp]:
  "bk_routes (release_screen_if_unwatched pane b) = bk_routes b"
  "bk_clients (release_screen_if_unwatched pane b) = bk_clients b"
  "bk_state (release_screen_if_unwatched pane b) = bk_state b"
  "bk_next_client (release_screen_if_unwatched pane b) = bk_next_client b"
  "subscription_of (release_screen_if_unwatched pane b) = subscription_of b"
  using release_screen_cases [of pane b] by auto

lemma release_screen_subset:
  "bt_get (bk_screens (release_screen_if_unwatched pane b)) p = Some st \<Longrightarrow>
   bt_get (bk_screens b) p = Some st"
  using release_screen_cases [of pane b] by (auto split: if_splits)

section \<open>Routes and subscriptions\<close>

text \<open>Replacing one route.\<close>

lemma routes_upto_replace:
  assumes "routes_upto P b"
    and r: "\<And>c. bs_mem c (rt_subscribers r) \<longleftrightarrow> linked b' c pane \<or> Q c pane"
    and ok: "route_ok r"
    and same: "bk_routes b' = bt_insert pane r (bk_routes b)"
    and links: "\<And>c p. p \<noteq> pane \<Longrightarrow> linked b' c p = linked b c p \<and> Q c p = P c p"
    and screens: "\<And>p. p \<noteq> pane \<Longrightarrow> bt_contains p (bk_screens b') \<Longrightarrow> bt_contains p (bk_screens b)"
  shows "routes_upto Q b'"
proof -
  have "listed b' c p \<longleftrightarrow> linked b' c p \<or> Q c p" for c p
    using assms(1) r links by (cases "p = pane") (auto simp: routes_upto_def listed_def same)
  moreover have "route_ok r'" if "bt_get (bk_routes b') p = Some r'" for p r'
    using that assms(1) ok by (auto simp: routes_upto_def same split: if_splits)
  moreover have "bt_contains p (bk_routes b')" if "bt_contains p (bk_screens b')" for p
    using that assms(1) screens by (cases "p = pane") (auto simp: routes_upto_def same)
  ultimately show ?thesis by (simp add: routes_upto_def)
qed

lemma route_okI:
  "(\<And>h. rt_control r = Some h \<Longrightarrow> bs_mem h (rt_subscribers r)) \<Longrightarrow>
   (rt_unclaimed r \<longleftrightarrow> bt_keys (rt_subscribers r) = []) \<Longrightarrow> route_ok r"
  by (simp add: route_ok_def)

lemma routes_uptoD:
  assumes "routes_upto P b" "bt_get (bk_routes b) pane = Some r"
  shows "bs_mem c (rt_subscribers r) \<longleftrightarrow> linked b c pane \<or> P c pane" "route_ok r"
proof -
  have "listed b c pane \<longleftrightarrow> linked b c pane \<or> P c pane" using assms(1) by (simp add: routes_upto_def)
  then show "bs_mem c (rt_subscribers r) \<longleftrightarrow> linked b c pane \<or> P c pane"
    using assms(2) by (simp add: listed_def)
  show "route_ok r" using assms by (auto simp: routes_upto_def)
qed

lemma linked_updates [simp]:
  "linked (b\<lparr>bk_routes := rs\<rparr>) = linked b" "linked (b\<lparr>bk_screens := ss\<rparr>) = linked b"
  "linked (drop_screen pane b) = linked b" "linked (release_screen_if_unwatched pane b) = linked b"
  "linked (on_subscription c pane f b) = linked b" "linked (on_route pane g b) = linked b"
  "linked (b\<lparr>bk_state := st\<rparr>) = linked b" "linked (b\<lparr>bk_agent_cards := ac\<rparr>) = linked b"
  by (auto simp: linked_def fun_eq_iff)

text \<open>What a release does to the route.\<close>

definition released :: "client_id \<Rightarrow> route \<Rightarrow> route" where
  "released c r =
     (let r' = r\<lparr>rt_subscribers := bs_remove c (rt_subscribers r)\<rparr>
      in if bt_keys (rt_subscribers r') = [] then r'\<lparr>rt_unclaimed := True, rt_control := None\<rparr>
         else if rt_control r = Some c then r'\<lparr>rt_control := None, rt_access := Observe\<rparr>
         else r')"

lemma released_simps [simp]:
  "rt_subscribers (released c r) = bs_remove c (rt_subscribers r)"
  "rt_control (released c r) = (if bt_keys (bs_remove c (rt_subscribers r)) = [] \<or> rt_control r = Some c
     then None else rt_control r)"
  by (simp_all add: released_def Let_def)

lemma access_cases: "a \<noteq> Control \<longleftrightarrow> a = Observe"
  by (cases a) auto

lemma release_pane_routes:
  "bk_routes (fst (release_pane c pane b)) =
     (case bt_get (bk_routes b) pane of None \<Rightarrow> bk_routes b
      | Some r \<Rightarrow> bt_insert pane (released c r) (bk_routes b))"
  by (auto simp: release_pane_def released_def Let_def bt.ins_ins access_cases split: option.split)

lemma release_pane_fields [simp]:
  "bk_clients (fst (release_pane c pane b)) = bk_clients b"
  "bk_state (fst (release_pane c pane b)) = bk_state b"
  "bk_next_client (fst (release_pane c pane b)) = bk_next_client b"
  "bk_agent_cards (fst (release_pane c pane b)) = bk_agent_cards b"
  using release_screen_cases
  by (auto simp: release_pane_def Let_def release_screen_if_unwatched_def drop_screen_def split: option.split)

lemma subscription_of_clients: "bk_clients b = bk_clients b' \<Longrightarrow> subscription_of b = subscription_of b'"
  by (simp add: subscription_of_def fun_eq_iff)

lemma release_pane_subscription [simp]:
  "subscription_of (fst (release_pane c pane b)) = subscription_of b"
  "linked (fst (release_pane c pane b)) = linked b"
proof -
  show "subscription_of (fst (release_pane c pane b)) = subscription_of b"
    by (rule subscription_of_clients) (rule release_pane_fields)
  then show "linked (fst (release_pane c pane b)) = linked b"
    by (intro ext) (simp only: linked_def)
qed

lemma release_pane_screens:
  "bt_get (bk_screens (fst (release_pane c pane b))) p = Some st \<Longrightarrow> bt_get (bk_screens b) p = Some st"
  by (auto simp: release_pane_def Let_def dest!: release_screen_subset split: option.splits if_splits)

lemma release_pane_upto:
  assumes wf: "routes_upto P b" and gone: "\<not> linked b c pane"
  shows "routes_upto (\<lambda>c' p. P c' p \<and> \<not> (c' = c \<and> p = pane)) (fst (release_pane c pane b))"
proof (cases "bt_get (bk_routes b) pane")
  case None
  then have "\<not> listed b c pane" by (simp add: listed_def)
  then have "\<not> P c pane" using wf by (auto simp: routes_upto_def)
  then have "(\<lambda>c' p. P c' p \<and> \<not> (c' = c \<and> p = pane)) = P" by auto
  then show ?thesis using wf None by (simp add: release_pane_def)
next
  case (Some r)
  note members = routes_uptoD [OF wf Some]
  have ok: "route_ok (released c r)"
    using members(2) by (auto simp: route_ok_def released_def Let_def bs_empty_iff)
  show ?thesis
    by (rule routes_upto_replace [OF wf, where pane = pane and r = "released c r"])
      (use Some ok members(1) gone in \<open>auto simp: release_pane_routes dest: release_pane_screens\<close>)
qed

lemma release_panes_fields [simp]:
  "bk_clients (fst (release_panes c panes b)) = bk_clients b"
  "bk_state (fst (release_panes c panes b)) = bk_state b"
  "bk_next_client (fst (release_panes c panes b)) = bk_next_client b"
  "bk_agent_cards (fst (release_panes c panes b)) = bk_agent_cards b"
  by (induction panes arbitrary: b) (simp_all add: split_beta Let_def)

lemma release_panes_upto:
  assumes "routes_upto P b" "\<And>p. \<not> linked b c p"
  shows "routes_upto (\<lambda>c' p. P c' p \<and> \<not> (c' = c \<and> p \<in> set panes)) (fst (release_panes c panes b))"
  using assms
proof (induction panes arbitrary: P b)
  case Nil
  then show ?case by simp
next
  case (Cons pane panes)
  have "(\<lambda>c' p. (P c' p \<and> \<not> (c' = c \<and> p = pane)) \<and> \<not> (c' = c \<and> p \<in> set panes)) =
      (\<lambda>c' p. P c' p \<and> \<not> (c' = c \<and> p \<in> set (pane # panes)))" by auto
  moreover have "routes_upto (\<lambda>c' p. (P c' p \<and> \<not> (c' = c \<and> p = pane)) \<and> \<not> (c' = c \<and> p \<in> set panes))
      (fst (release_panes c panes (fst (release_pane c pane b))))"
    by (rule Cons.IH [OF release_pane_upto]) (use Cons.prems in simp_all)
  ultimately show ?case by (simp add: split_beta Let_def)
qed

section \<open>Connections\<close>

lemma clients_ok_on_client:
  assumes "clients_ok b"
    and "\<And>session. bt_get (bk_clients b) c = Some session \<Longrightarrow> session_ok session \<Longrightarrow> session_ok (f session)"
  shows "clients_ok (on_client c f b)"
  using assms by (auto simp: clients_ok_def split: if_splits)

lemma clients_ok_same:
  "bk_clients b' = bk_clients b \<Longrightarrow> bk_next_client b' = bk_next_client b \<Longrightarrow> clients_ok b' = clients_ok b"
  by (simp add: clients_ok_def)

lemma routes_upto_same:
  assumes "bk_routes b' = bk_routes b" "linked b' = linked b"
    "\<And>p. bt_contains p (bk_screens b') \<Longrightarrow> bt_contains p (bk_screens b)"
  shows "routes_upto P b \<Longrightarrow> routes_upto P b'"
  using assms by (auto simp: routes_upto_def listed_def)

lemma broker_new_wf: "broker_wf (broker_new version features replies)"
  by (simp add: broker_wf_def routes_upto_def clients_ok_def broker_new_def listed_def linked_def
      subscription_of_def)

lemma connect_fields [simp]:
  "bk_routes (fst (connect b)) = bk_routes b" "bk_screens (fst (connect b)) = bk_screens b"
  "bk_state (fst (connect b)) = bk_state b" "bk_next_client (fst (connect b)) = bk_next_client b + 1"
  "bk_clients (fst (connect b)) = bt_insert (bk_next_client b) client_new (bk_clients b)"
  by (simp_all add: connect_def Let_def)

lemma connect_wf:
  assumes wf: "broker_wf b" and room: "bk_next_client b \<noteq> - 1"
  shows "broker_wf (fst (connect b))"
proof -
  let ?c = "bk_next_client b"
  have fresh: "bt_get (bk_clients b) ?c = None"
    using wf by (cases "bt_get (bk_clients b) ?c") (auto simp: broker_wf_def clients_ok_def)
  have "linked (fst (connect b)) c' p = linked b c' p" for c' p
    using fresh by (cases "c' = ?c") (simp_all add: linked_def subscription_of_def client_new_def)
  then have links: "linked (fst (connect b)) = linked b" by (intro ext)
  have "routes_upto (\<lambda>_ _. False) b" using wf by (simp add: broker_wf_def)
  then have "routes_upto (\<lambda>_ _. False) (fst (connect b))"
    by (rule routes_upto_same [OF connect_fields(1) links, rotated]) simp
  moreover have "clients_ok (fst (connect b))"
    unfolding clients_ok_def
  proof (intro allI impI)
    fix c' session
    assume "bt_get (bk_clients (fst (connect b))) c' = Some session"
    moreover have "session_ok client_new" by (simp add: session_ok_def client_new_def)
    moreover have "?c < ?c + 1" by (rule word_Suc_greater [OF room])
    ultimately show "c' < bk_next_client (fst (connect b)) \<and> session_ok session"
      using wf by (cases "c' = ?c") (auto simp: broker_wf_def clients_ok_def dest: order.strict_trans)
  qed
  ultimately show ?thesis by (simp add: broker_wf_def)
qed

text \<open>What is left to release when a client's record is gone.\<close>

lemma departing:
  assumes wf: "broker_wf b" and at: "bt_get (bk_clients b) c = Some session"
  shows "linked b c' p \<longleftrightarrow> linked (b\<lparr>bk_clients := bt_remove c (bk_clients b)\<rparr>) c' p \<or>
      (c' = c \<and> p \<in> set (bt_keys (cl_panes session)))"
    and "\<not> linked (b\<lparr>bk_clients := bt_remove c (bk_clients b)\<rparr>) c p"
    and "routes_upto (\<lambda>c' p. c' = c \<and> p \<in> set (bt_keys (cl_panes session)))
      (b\<lparr>bk_clients := bt_remove c (bk_clients b)\<rparr>)"
proof -
  let ?b = "b\<lparr>bk_clients := bt_remove c (bk_clients b)\<rparr>"
  have links: "linked b c' p \<longleftrightarrow> linked ?b c' p \<or> (c' = c \<and> p \<in> set (bt_keys (cl_panes session)))" for c' p
    using at by (auto simp: linked_def subscription_of_def set_bt_keys)
  then show "linked b c' p \<longleftrightarrow> linked ?b c' p \<or> (c' = c \<and> p \<in> set (bt_keys (cl_panes session)))" .
  show "\<not> linked ?b c p" by (simp add: linked_def subscription_of_def)
  show "routes_upto (\<lambda>c' p. c' = c \<and> p \<in> set (bt_keys (cl_panes session))) ?b"
    using wf links by (auto simp: broker_wf_def routes_upto_def listed_def)
qed

lemma disconnect_wf:
  assumes wf: "broker_wf b"
  shows "broker_wf (fst (disconnect c b))"
proof (cases "bt_get (bk_clients b) c")
  case None
  then show ?thesis using wf by (simp add: disconnect_def)
next
  case (Some session)
  let ?panes = "bt_keys (cl_panes session)"
  note release_panes_upto [OF departing(3,2) [OF wf Some], of ?panes]
  moreover have "(\<lambda>c' p. (c' = c \<and> p \<in> set ?panes) \<and> \<not> (c' = c \<and> p \<in> set ?panes)) = (\<lambda>_ _. False)" by auto
  ultimately have "routes_upto (\<lambda>_ _. False) (fst (disconnect c b))"
    using Some by (simp add: disconnect_def)
  moreover have "clients_ok (fst (disconnect c b))"
    using wf Some by (auto simp: broker_wf_def clients_ok_def disconnect_def split: if_splits)
  ultimately show ?thesis by (simp add: broker_wf_def)
qed

section \<open>Changes to one client or one route\<close>

lemma subscription_keep_panes:
  "(\<And>session. cl_panes (f session) = cl_panes session) \<Longrightarrow>
   subscription_of (on_client c f b) = subscription_of b"
  by (intro ext) (simp add: subscription_on_client, simp add: subscription_of_def)

lemma routes_upto_subscriptions:
  assumes "bk_routes b' = bk_routes b" "linked b' = linked b" "bk_screens b' = bk_screens b"
  shows "routes_upto P b' = routes_upto P b"
  using assms by (simp add: routes_upto_def listed_def)

lemma on_client_wf:
  assumes wf: "broker_wf b"
    and panes: "\<And>session. cl_panes (f session) = cl_panes session"
    and ok: "\<And>session. session_ok session \<Longrightarrow> session_ok (f session)"
  shows "broker_wf (on_client c f b)"
proof -
  have "linked (on_client c f b) = linked b"
    by (intro ext) (simp add: linked_def subscription_keep_panes [OF panes])
  then have "routes_upto (\<lambda>_ _. False) (on_client c f b)"
    using wf by (simp add: broker_wf_def routes_upto_subscriptions [of "on_client c f b" b])
  then show ?thesis using wf ok by (simp add: broker_wf_def clients_ok_on_client)
qed

lemma bt_adjust_empty [simp]: "bt_adjust k f bt_empty = bt_empty"
  by (rule bt_ext) simp

lemma on_subscription_wf:
  assumes wf: "broker_wf b"
    and short: "\<And>s. subscription_of b c pane = Some s \<Longrightarrow>
      length (sb_outstanding s) \<le> max_outstanding_screen_updates \<Longrightarrow>
      length (sb_outstanding (f s)) \<le> max_outstanding_screen_updates"
  shows "broker_wf (on_subscription c pane f b)"
proof -
  have "routes_upto (\<lambda>_ _. False) (on_subscription c pane f b)"
    using wf by (simp add: broker_wf_def routes_upto_subscriptions [of "on_subscription c pane f b" b])
  moreover have "clients_ok (on_subscription c pane f b)"
    unfolding on_subscription_def
  proof (rule clients_ok_on_client)
    show "clients_ok b" using wf by (simp add: broker_wf_def)
    fix session assume at: "bt_get (bk_clients b) c = Some session" and ok: "session_ok session"
    have "length (sb_outstanding s) \<le> max_outstanding_screen_updates"
      if "bt_get (bt_adjust pane f (cl_panes session)) p = Some s" for p s
      using that at ok short by (cases "p = pane") (auto simp: session_ok_def subscription_of_def)
    then show "session_ok (session\<lparr>cl_panes := bt_adjust pane f (cl_panes session)\<rparr>)"
      using ok by (auto simp: session_ok_def client_new_def)
  qed
  ultimately show ?thesis by (simp add: broker_wf_def)
qed

lemma subscription_outstanding:
  assumes "broker_wf b" "subscription_of b c pane = Some s"
  shows "length (sb_outstanding s) \<le> max_outstanding_screen_updates"
  using assms by (auto simp: broker_wf_def clients_ok_def session_ok_def subscription_of_def
      split: bind_splits)

text \<open>Replacing a route by one with the same subscribers, and removing one.\<close>

lemma replace_route_wf:
  assumes wf: "broker_wf b" and at: "bt_get (bk_routes b) pane = Some r"
    and same: "rt_subscribers r' = rt_subscribers r" and ok: "route_ok r \<Longrightarrow> route_ok r'"
  shows "broker_wf (b\<lparr>bk_routes := bt_insert pane r' (bk_routes b)\<rparr>)"
proof -
  have upto: "routes_upto (\<lambda>_ _. False) b" using wf by (simp add: broker_wf_def)
  note members = routes_uptoD [OF upto at]
  have "routes_upto (\<lambda>_ _. False) (b\<lparr>bk_routes := bt_insert pane r' (bk_routes b)\<rparr>)"
    by (rule routes_upto_replace [OF upto, where pane = pane and r = r'])
      (use members ok same in \<open>auto simp: bs_mem_keys\<close>)
  then show ?thesis using wf by (simp add: broker_wf_def clients_ok_def)
qed

lemma routes_upto_remove:
  assumes "routes_upto P b"
    and same: "bk_routes b' = bt_remove pane (bk_routes b)"
    and gone: "\<And>c. \<not> linked b' c pane \<and> \<not> Q c pane"
    and links: "\<And>c p. p \<noteq> pane \<Longrightarrow> linked b' c p = linked b c p \<and> Q c p = P c p"
    and screens: "\<And>p. bt_contains p (bk_screens b') \<Longrightarrow> p \<noteq> pane \<and> bt_contains p (bk_screens b)"
  shows "routes_upto Q b'"
proof -
  have "listed b' c p \<longleftrightarrow> linked b' c p \<or> Q c p" for c p
    using assms(1) gone links by (cases "p = pane") (auto simp: routes_upto_def listed_def same)
  moreover have "route_ok r'" if "bt_get (bk_routes b') p = Some r'" for p r'
    using that assms(1) by (auto simp: routes_upto_def same split: if_splits)
  moreover have "bt_contains p (bk_routes b')" if "bt_contains p (bk_screens b')" for p
    using screens [OF that] assms(1) by (auto simp: routes_upto_def same)
  ultimately show ?thesis by (simp add: routes_upto_def)
qed

lemma drop_screen_wf: "broker_wf b \<Longrightarrow> broker_wf (drop_screen pane b)"
  by (auto simp: broker_wf_def clients_ok_def routes_upto_def listed_def)

section \<open>Leases\<close>

lemma take_control_wf:
  assumes wf: "broker_wf b"
  shows "broker_wf (fst (take_control c pane only_if_free b))"
proof (cases "bt_get (bk_clients b) c")
  case (Some session)
  show ?thesis
  proof (cases "bt_get (cl_panes session) pane")
    case sub: (Some s)
    show ?thesis
    proof (cases "bt_get (bk_routes b) pane")
      case at: (Some r)
      have "linked b c pane" using Some sub by (simp add: linked_def subscription_of_def)
      then have "bs_mem c (rt_subscribers r)"
        using routes_uptoD(1) [OF wf [unfolded broker_wf_def, THEN conjunct1] at] by simp
      then show ?thesis
        using wf Some sub at by (auto simp: take_control_def Let_def resize_for_control_def
            intro!: replace_route_wf [OF wf at] simp: route_ok_def)
    qed (use wf Some sub in \<open>simp add: take_control_def\<close>)
  qed (use wf Some in \<open>simp add: take_control_def\<close>)
qed (use wf in \<open>simp add: take_control_def\<close>)

lemma route_downgraded_wf: "broker_wf b \<Longrightarrow> broker_wf (fst (route_downgraded pane b))"
  by (auto simp: route_downgraded_def route_ok_def intro!: replace_route_wf split: option.splits)

lemma subscription_forget [simp]:
  "subscription_of (forget_pane pane c b) c' p =
     (if c' = c \<and> p = pane then None else subscription_of b c' p)"
  by (cases "bt_get (bk_clients b) c") (auto simp: forget_pane_def subscription_on_client subscription_of_def)

lemma forget_pane_fields [simp]:
  "bk_routes (forget_pane pane c b) = bk_routes b" "bk_screens (forget_pane pane c b) = bk_screens b"
  "bk_state (forget_pane pane c b) = bk_state b"
  "bk_next_client (forget_pane pane c b) = bk_next_client b"
  by (simp_all add: forget_pane_def)

lemma bt_remove_empty [simp]: "bt_remove k bt_empty = bt_empty"
  by (rule bt_ext) simp

lemma forget_pane_clients: "clients_ok b \<Longrightarrow> clients_ok (forget_pane pane c b)"
  unfolding forget_pane_def
  by (rule clients_ok_on_client) (auto simp: session_ok_def client_new_def split: if_splits)

lemma unsubscribe_wf:
  assumes wf: "broker_wf b"
  shows "broker_wf (fst (release_pane c pane (forget_pane pane c b)))"
proof -
  have "routes_upto (\<lambda>c' p. (c' = c \<and> p = pane) \<and> linked b c pane) (forget_pane pane c b)"
    using wf by (auto simp: broker_wf_def routes_upto_def listed_def linked_def)
  then have "routes_upto (\<lambda>c' p. ((c' = c \<and> p = pane) \<and> linked b c pane) \<and> \<not> (c' = c \<and> p = pane))
      (fst (release_pane c pane (forget_pane pane c b)))"
    by (rule release_pane_upto) (simp add: linked_def)
  moreover have "(\<lambda>c' p. ((c' = c \<and> p = pane) \<and> linked b c pane) \<and> \<not> (c' = c \<and> p = pane)) =
      (\<lambda>_ _. False)" by auto
  moreover have "clients_ok (fst (release_pane c pane (forget_pane pane c b)))"
    using wf forget_pane_clients [of b pane c] by (simp add: broker_wf_def clients_ok_def)
  ultimately show ?thesis by (simp add: broker_wf_def)
qed

section \<open>Routes that end\<close>

lemma fold_forget_pane [simp]:
  "bk_routes (fold (forget_pane pane) cs b) = bk_routes b"
  "bk_screens (fold (forget_pane pane) cs b) = bk_screens b"
  "bk_state (fold (forget_pane pane) cs b) = bk_state b"
  "bk_next_client (fold (forget_pane pane) cs b) = bk_next_client b"
  "subscription_of (fold (forget_pane pane) cs b) c p =
     (if c \<in> set cs \<and> p = pane then None else subscription_of b c p)"
  by (induction cs arbitrary: b) auto

lemma fold_forget_clients: "clients_ok b \<Longrightarrow> clients_ok (fold (forget_pane pane) cs b)"
  by (induction cs arbitrary: b) (simp_all add: forget_pane_clients)

lemma close_if_unclaimed_wf:
  assumes wf: "broker_wf b"
  shows "broker_wf (fst (close_if_unclaimed pane b))"
proof (cases "\<exists>r. bt_get (bk_routes b) pane = Some r \<and> rt_unclaimed r")
  case True
  then obtain r where at: "bt_get (bk_routes b) pane = Some r" and gone: "rt_unclaimed r" by blast
  have upto: "routes_upto (\<lambda>_ _. False) b" using wf by (simp add: broker_wf_def)
  note members = routes_uptoD [OF upto at]
  have "routes_upto (\<lambda>_ _. False) (fst (close_if_unclaimed pane b))"
    by (rule routes_upto_remove [OF upto, where pane = pane])
      (use at gone members in \<open>auto simp: close_if_unclaimed_def route_ok_def bs_mem_keys split: if_splits\<close>)
  then show ?thesis using wf at gone by (simp add: broker_wf_def close_if_unclaimed_def clients_ok_def)
qed (use wf in \<open>auto simp: close_if_unclaimed_def split: option.split\<close>)

lemma pane_route_closed_wf:
  assumes wf: "broker_wf b"
  shows "broker_wf (fst (pane_route_closed pane b))"
proof (cases "bt_get (bk_routes b) pane")
  case (Some r)
  have upto: "routes_upto (\<lambda>_ _. False) b" using wf by (simp add: broker_wf_def)
  note members = routes_uptoD(1) [OF upto Some]
  have "routes_upto (\<lambda>_ _. False) (fst (pane_route_closed pane b))"
    by (rule routes_upto_remove [OF upto, where pane = pane])
      (use Some members in \<open>auto simp: pane_route_closed_def linked_def bs_mem_keys split: if_splits\<close>)
  moreover have "clients_ok (drop_screen pane (b\<lparr>bk_routes := bt_remove pane (bk_routes b)\<rparr>))"
    using wf by (simp add: broker_wf_def clients_ok_def)
  ultimately show ?thesis using Some by (simp add: broker_wf_def pane_route_closed_def fold_forget_clients)
qed (use wf in \<open>simp add: pane_route_closed_def\<close>)

lemma close_routes_wf: "broker_wf b \<Longrightarrow> broker_wf (fst (close_routes panes b))"
  by (induction panes arbitrary: b) (simp_all add: split_beta Let_def pane_route_closed_wf)

lemma broker_wf_publish [simp]:
  "broker_wf (b\<lparr>bk_state := st\<rparr>) = broker_wf b" "broker_wf (b\<lparr>bk_agent_cards := cards\<rparr>) = broker_wf b"
  by (simp_all add: broker_wf_def clients_ok_def routes_upto_def listed_def)

lemma federation_updated_wf: "broker_wf b \<Longrightarrow> broker_wf (fst (federation_updated st b))"
  by (simp add: federation_updated_def close_vanished_routes_def Let_def split_beta close_routes_wf)

lemma agent_cards_updated_wf: "broker_wf b \<Longrightarrow> broker_wf (fst (agent_cards_updated projection b))"
  by (simp add: agent_cards_updated_def)

section \<open>Subscriptions and screens\<close>

lemma put_screen_wf:
  "broker_wf b \<Longrightarrow> bt_contains pane (bk_routes b) \<Longrightarrow>
   broker_wf (b\<lparr>bk_screens := bt_insert pane st (bk_screens b)\<rparr>)"
  by (auto simp: broker_wf_def clients_ok_def routes_upto_def listed_def)

lemma note_sent_outstanding [simp]:
  "length (sb_outstanding (note_sent r s)) = Suc (length (sb_outstanding s))"
  by (simp add: note_sent_def)

lemma note_sent_wf:
  assumes "broker_wf b" "subscription_of b c pane = Some s"
    "length (sb_outstanding s) < max_outstanding_screen_updates"
  shows "broker_wf (on_subscription c pane (note_sent r) b)"
  by (rule on_subscription_wf) (use assms in auto)

lemma render_to_wf: "broker_wf b \<Longrightarrow> broker_wf (fst (render_to pane r cs b))"
proof (induction cs arbitrary: b)
  case (Cons c cs)
  then show ?case
    using note_sent_wf [of b c pane]
    by (cases "subscription_of b c pane") (simp_all add: split_beta Let_def wants_update_def)
qed simp

lemma pane_frame_wf: "broker_wf b \<Longrightarrow> broker_wf (fst (pane_frame vt pane sequence width height full bytes b))"
  by (auto simp: pane_frame_def render_for_def Let_def split_beta
      intro!: render_to_wf put_screen_wf drop_screen_wf split: option.split)

lemma ack_pane_screen_wf:
  assumes wf: "broker_wf b"
  shows "broker_wf (fst (ack_pane_screen c pane sequence b))"
proof (cases "\<exists>s. subscription_of b c pane = Some s \<and> sequence \<in> set (sb_outstanding s)")
  case True
  then obtain s where s: "subscription_of b c pane = Some s" "sequence \<in> set (sb_outstanding s)" by blast
  let ?settle = "\<lambda>s. s\<lparr>sb_outstanding := dropWhile (\<lambda>held. held \<le> sequence) (sb_outstanding s)\<rparr>"
  have settled: "broker_wf (on_subscription c pane ?settle b)"
    by (rule on_subscription_wf [OF wf]) (auto intro: order_trans [OF length_dropWhile_le])
  then show ?thesis
    using s by (auto simp: ack_pane_screen_def Let_def intro!: note_sent_wf split: option.split)
qed (use wf in \<open>auto simp: ack_pane_screen_def split: option.split\<close>)

lemma subscription_insert:
  "bt_get (bk_clients b) c = Some session \<Longrightarrow>
   subscription_of (on_client c (\<lambda>session. session\<lparr>cl_panes := bt_insert pane s (cl_panes session)\<rparr>) b) d p =
     (if d = c \<and> p = pane then Some s else subscription_of b d p)"
  by (auto simp: subscription_on_client subscription_of_def)

text \<open>What a subscription leaves of the route it joins.\<close>

lemma subscribe_route_ok:
  assumes "subscribe_route c pane access cols rows held = (r, es, granted)"
    and "\<And>r. held = Some r \<Longrightarrow> route_ok r"
  shows "route_ok r"
    and "bs_mem c' (rt_subscribers r) \<longleftrightarrow>
      c' = c \<or> (\<exists>r0. held = Some r0 \<and> bs_mem c' (rt_subscribers r0))"
proof -
  have mem: "bs_mem d (rt_subscribers r) \<longleftrightarrow> d = c \<or> (\<exists>r0. held = Some r0 \<and> bs_mem d (rt_subscribers r0))" for d
    using assms(1) by (auto simp: subscribe_route_def Let_def resize_for_control_def
        split: option.splits if_splits)
  then show "bs_mem c' (rt_subscribers r) \<longleftrightarrow> c' = c \<or> (\<exists>r0. held = Some r0 \<and> bs_mem c' (rt_subscribers r0))" .
  have "\<not> rt_unclaimed r"
    using assms(1) by (auto simp: subscribe_route_def Let_def resize_for_control_def
        split: option.splits if_splits)
  moreover have "rt_control r = Some h \<Longrightarrow> h = c \<or> (\<exists>r0. held = Some r0 \<and> rt_control r0 = Some h)" for h
    using assms(1) by (auto simp: subscribe_route_def Let_def resize_for_control_def
        split: option.splits if_splits)
  ultimately show "route_ok r" using mem assms(2) by (auto simp: route_ok_def bs_empty_iff)
qed

lemma subscribe_pane_wf:
  assumes wf: "broker_wf b" and at: "bt_get (bk_clients b) c = Some session" and "cl_greeted session"
  shows "broker_wf (fst (subscribe_pane c pane access cols rows representation b))"
proof -
  let ?s = "\<lparr>sb_requested = access, sb_cols = cols, sb_rows = rows, sb_representation = representation,
    sb_sent = None, sb_outstanding = []\<rparr>"
  let ?b1 = "on_client c (\<lambda>session. session\<lparr>cl_panes := bt_insert pane ?s (cl_panes session)\<rparr>) b"
  have upto: "routes_upto (\<lambda>_ _. False) b" using wf by (simp add: broker_wf_def)
  obtain r es granted where sub: "subscribe_route c pane access cols rows (bt_get (bk_routes b) pane) =
      (r, es, granted)" by (metis prod_cases3)
  let ?b2 = "?b1\<lparr>bk_routes := bt_insert pane r (bk_routes ?b1)\<rparr>"
  have held: "route_ok r0" if "bt_get (bk_routes b) pane = Some r0" for r0
    using routes_uptoD(2) [OF upto that] .
  have ok: "route_ok r" using subscribe_route_ok(1) [OF sub held] .
  have "linked b c' pane \<longleftrightarrow> listed b c' pane" for c' using upto by (simp add: routes_upto_def)
  then have mem: "bs_mem c' (rt_subscribers r) \<longleftrightarrow> c' = c \<or> linked b c' pane" for c'
    using subscribe_route_ok(2) [OF sub held, of c'] by (simp add: listed_def)
  have "routes_upto (\<lambda>_ _. False) ?b2"
    by (rule routes_upto_replace [OF upto, where pane = pane and r = r])
      (use mem ok in \<open>auto simp: linked_def subscription_insert [OF at]\<close>)
  moreover have "clients_ok ?b1"
    using wf at assms(3) by (intro clients_ok_on_client) (auto simp: broker_wf_def session_ok_def split: if_splits)
  ultimately have wf2: "broker_wf ?b2" by (simp add: broker_wf_def clients_ok_def)
  moreover have "subscription_of ?b2 c pane = Some ?s" by (simp add: subscription_insert [OF at])
  ultimately have "broker_wf (on_subscription c pane (\<lambda>s. s\<lparr>sb_sent := q,
      sb_outstanding := sb_outstanding s @ [n]\<rparr>) ?b2)" for q n
    by (intro on_subscription_wf) (auto simp: max_outstanding_screen_updates_def)
  then show ?thesis
    using wf2 at sub by (auto simp: subscribe_pane_def Let_def split: option.split)
qed

section \<open>Handling a message\<close>

lemma with_lease_state [simp]: "fst (with_lease c pane e b) = b"
  by (simp add: with_lease_def split_beta)

lemma on_route_eq:
  "bt_get (bk_routes b) pane = Some r \<Longrightarrow>
   on_route pane f b = b\<lparr>bk_routes := bt_insert pane (f r) (bk_routes b)\<rparr>"
  by (simp add: on_route_def) (rule arg_cong [where f = "\<lambda>rs. b\<lparr>bk_routes := rs\<rparr>"], rule bt_ext, simp)

lemma on_route_none: "bt_get (bk_routes b) pane = None \<Longrightarrow> on_route pane f b = b"
proof -
  assume "bt_get (bk_routes b) pane = None"
  then have "bt_adjust pane f (bk_routes b) = bk_routes b" by (intro bt_ext) simp
  then show ?thesis by (simp add: on_route_def)
qed

lemma resize_wf:
  assumes "broker_wf b"
  shows "broker_wf (on_route pane (\<lambda>r. r\<lparr>rt_cols := cols, rt_rows := rows\<rparr>)
    (on_subscription c pane (\<lambda>s. s\<lparr>sb_cols := cols, sb_rows := rows\<rparr>) b))"
proof -
  let ?b = "on_subscription c pane (\<lambda>s. s\<lparr>sb_cols := cols, sb_rows := rows\<rparr>) b"
  have wf: "broker_wf ?b" by (rule on_subscription_wf [OF assms]) simp
  show ?thesis
  proof (cases "bt_get (bk_routes ?b) pane")
    case (Some r)
    then show ?thesis unfolding on_route_eq [OF Some]
      by (rule replace_route_wf [OF wf]) (simp_all add: route_ok_def)
  qed (use wf in \<open>simp add: on_route_none\<close>)
qed

lemma session_ok_flags:
  "session_ok session \<Longrightarrow> session_ok (session\<lparr>cl_greeted := True\<rparr>)"
  by (simp add: session_ok_def)

lemma greeted_flags_wf:
  assumes "broker_wf b" "bt_get (bk_clients b) c = Some session" "cl_greeted session"
    and "\<And>s. cl_panes (f s) = cl_panes s" "\<And>s. cl_greeted (f s) = cl_greeted s"
  shows "broker_wf (on_client c f b)"
proof -
  have "linked (on_client c f b) = linked b"
    by (intro ext) (simp add: linked_def subscription_keep_panes [OF assms(4)])
  then have "routes_upto (\<lambda>_ _. False) (on_client c f b)"
    using assms(1) by (simp add: broker_wf_def routes_upto_subscriptions [of "on_client c f b" b])
  moreover have "clients_ok (on_client c f b)"
    using assms by (intro clients_ok_on_client) (auto simp: broker_wf_def session_ok_def)
  ultimately show ?thesis by (simp add: broker_wf_def)
qed

lemmas operation_wf = subscribe_pane_wf ack_pane_screen_wf unsubscribe_wf take_control_wf resize_wf
  greeted_flags_wf

lemma handle_greeted_wf:
  assumes "broker_wf b" "bt_get (bk_clients b) c = Some session" "cl_greeted session"
  shows "broker_wf (fst (handle_greeted c message b))"
  using assms
  by (cases message) (simp_all add: handle_greeted_def split_beta Let_def operation_wf)

lemma handle_wf:
  assumes wf: "broker_wf b"
  shows "broker_wf (fst (handle c message b))"
proof (cases "bt_get (bk_clients b) c")
  case (Some session)
  have "broker_wf (on_client c (\<lambda>session. session\<lparr>cl_greeted := True\<rparr>) b)"
    by (rule on_client_wf [OF wf]) (simp_all add: session_ok_flags)
  then have "broker_wf (fst (handle_ungreeted c message b))"
    using wf by (cases message) (simp_all add: handle_ungreeted_def)
  then show ?thesis using Some handle_greeted_wf [OF wf Some] by (simp add: handle_def)
qed (use wf in \<open>simp add: handle_def\<close>)

end
