(* ===== verification/Broker_Events.thy ===== *)
theory Broker_Events
  imports Broker_Invariant
begin

text \<open>
  The broker as a machine driven by the events of \<open>src/src/daemon/server.rs\<close>: connections that
  open, close and send messages, frames and ends of routes, and the published state. The
  counters are \<open>u64\<close>; a step is only taken while the one it increments has room, which is
  2^64 connections or frames of one pane. What the reachable states satisfy, who may cause
  which effect, and how a lease moves.
\<close>

section \<open>Events\<close>

datatype (plugins del: quickcheck_random quickcheck_exhaustive quickcheck_full_exhaustive
  quickcheck_narrowing size lifting transfer extraction) broker_event =
    Connected
  | Disconnected client_id
  | Received client_id client_message
  | FrameArrived pane_id u64 u16 u16 bool "u8 list"
  | RouteEnded pane_id
  | RouteRefused pane_id
  | GraceOver pane_id
  | FederationObserved federation_state
  | CardsProjected agent_card_projection
  | DeviceAlert agent_id ustring ustring
  | AttentionArrived attention_event
  | AttentionRewritten "attention_event list"
  | PairingAsked ustring ustring ustring u64
  | PairingSettled ustring bool ustring
  | OperationFinished client_id request_id bool ustring "plugin_run option"

definition perform :: "'p vt100 \<Rightarrow> broker_event \<Rightarrow> 'p broker \<Rightarrow> 'p step_result" where
  "perform vt event b = (case event of
     Connected \<Rightarrow> (fst (connect b), [])
   | Disconnected c \<Rightarrow> disconnect c b
   | Received c message \<Rightarrow> handle c message b
   | FrameArrived pane sequence width height full bytes \<Rightarrow>
       pane_frame vt pane sequence width height full bytes b
   | RouteEnded pane \<Rightarrow> pane_route_closed pane b
   | RouteRefused pane \<Rightarrow> route_downgraded pane b
   | GraceOver pane \<Rightarrow> close_if_unclaimed pane b
   | FederationObserved st \<Rightarrow> federation_updated st b
   | CardsProjected projection \<Rightarrow> agent_cards_updated projection b
   | DeviceAlert agent title body \<Rightarrow> notify_devices (NotificationMsg agent title body) b
   | AttentionArrived event \<Rightarrow> attention_observed event b
   | AttentionRewritten events \<Rightarrow> attention_changed events b
   | PairingAsked attempt name confirmation expires \<Rightarrow>
       (b, pairing_approval_required attempt name confirmation expires b)
   | PairingSettled attempt approved message \<Rightarrow> (b, pairing_decided attempt approved message b)
   | OperationFinished c request applied message run \<Rightarrow>
       (b, operation_completed c request applied message run b))"

definition has_room :: "'p broker \<Rightarrow> broker_event \<Rightarrow> bool" where
  "has_room b event = (case event of
     Connected \<Rightarrow> bk_next_client b \<noteq> - 1
   | FrameArrived pane _ _ _ _ _ \<Rightarrow>
       (case bt_get (bk_screens b) pane of None \<Rightarrow> True | Some st \<Rightarrow> sn_sequence (ss_last st) \<noteq> - 1)
   | _ \<Rightarrow> True)"

inductive broker_step :: "'p vt100 \<Rightarrow> 'p broker \<Rightarrow> 'p broker \<Rightarrow> bool" for vt where
  performed: "has_room b event \<Longrightarrow> broker_step vt b (fst (perform vt event b))"

section \<open>The invariant\<close>

lemma perform_wf:
  assumes "broker_wf b" "has_room b event"
  shows "broker_wf (fst (perform vt event b))"
  using assms
  by (cases event)
    (simp_all add: perform_def has_room_def connect_wf disconnect_wf handle_wf pane_frame_wf
      pane_route_closed_wf route_downgraded_wf close_if_unclaimed_wf federation_updated_wf
      agent_cards_updated_wf notify_devices_def attention_observed_def attention_changed_def)

inductive_cases broker_stepE: "broker_step vt b b'"

interpretation broker_reach:
  kept_invariant "broker_new version features replies" "broker_step vt" broker_wf
  for version features replies vt
  by unfold_locales (auto elim!: broker_stepE intro: broker_new_wf perform_wf)

section \<open>Who holds the lease\<close>

definition lease_holder :: "'p broker \<Rightarrow> pane_id \<Rightarrow> client_id option" where
  "lease_holder b pane = Option.bind (bt_get (bk_routes b) pane) rt_control"

lemma holds_control_iff: "fst (holds_control c pane b) \<longleftrightarrow> lease_holder b pane = Some c"
  by (simp add: holds_control_def lease_holder_def)

lemma lease_holder_linked: "broker_wf b \<Longrightarrow> lease_holder b pane = Some c \<Longrightarrow> linked b c pane"
  using routes_uptoD [of "\<lambda>_ _. False" b pane]
  by (auto simp: lease_holder_def broker_wf_def route_ok_def split: bind_splits)

text \<open>The panes whose lease an effect needs.\<close>

definition lease_panes :: "effect \<Rightarrow> pane_id list" where
  "lease_panes e = (case e of
     RouteInput pane _ \<Rightarrow> [pane]
   | RouteScroll pane _ _ _ _ _ \<Rightarrow> [pane]
   | PastePaneTextEffect _ _ pane _ \<Rightarrow> [pane]
   | BeginUploadEffect _ _ pane _ _ _ \<Rightarrow> [pane]
   | ResumeUploadEffect _ _ _ pane _ \<Rightarrow> [pane]
   | BeginDownloadEffect _ _ pane _ \<Rightarrow> [pane]
   | TransferBetweenEffect _ _ source _ destination _ \<Rightarrow> [source, destination]
   | _ \<Rightarrow> [])"

definition harmless :: "effect \<Rightarrow> bool" where
  "harmless e \<longleftrightarrow> lease_panes e = []"

lemma harmless_maps [simp]:
  "list_all harmless (map (\<lambda>x. Send (f x) (m x)) xs)" "list_all harmless (broadcast_state msg b)"
  by (simp_all add: harmless_def lease_panes_def list_all_iff broadcast_state_def)

lemma harmless_broadcasts [simp]: "list_all harmless (concat (map (\<lambda>msg. broadcast_state msg b) msgs))"
  by (induction msgs) simp_all

lemma harmless_simps [simp]:
  "harmless (Send c m)" "harmless (CloseRoute p)" "harmless (OpenRoute p a w h)"
  "harmless (RouteResize p w h)" "harmless (RouteUnclaimed p)"
  by (simp_all add: harmless_def lease_panes_def)

lemma take_control_harmless: "list_all harmless (snd (take_control c pane only_if_free b))"
  by (auto simp: take_control_def Let_def resize_for_control_def split: option.split)

lemma release_pane_harmless: "list_all harmless (snd (release_pane c pane b))"
  by (auto simp: release_pane_def Let_def split: option.split)

lemma subscribe_pane_harmless:
  "list_all harmless (snd (subscribe_pane c pane access cols rows representation b))"
  by (auto simp: subscribe_pane_def subscribe_route_def Let_def resize_for_control_def split_beta
      split: option.split)

lemma ack_pane_screen_harmless: "list_all harmless (snd (ack_pane_screen c pane sequence b))"
  by (auto simp: ack_pane_screen_def Let_def split: option.split)

lemmas harmless_operations = take_control_harmless release_pane_harmless subscribe_pane_harmless
  ack_pane_screen_harmless

text \<open>What the effects of a message need, the client that sent it has.\<close>

definition authorised :: "'p broker \<Rightarrow> client_id \<Rightarrow> effect \<Rightarrow> bool" where
  "authorised b c e \<longleftrightarrow> list_all (\<lambda>pane. lease_holder b pane = Some c) (lease_panes e)"

lemma harmless_authorised: "list_all harmless es \<Longrightarrow> list_all (authorised b c) es"
  by (auto simp: list_all_iff harmless_def authorised_def)

lemma with_lease_authorised:
  "list_all (\<lambda>p. p \<noteq> pane \<longrightarrow> lease_holder b p = Some c) (lease_panes e) \<Longrightarrow>
   list_all (authorised b c) (snd (with_lease c pane e b))"
  by (auto simp: with_lease_def holds_control_def lease_holder_def authorised_def lease_panes_def
      list_all_iff)

lemma handle_greeted_authorised: "list_all (authorised b c) (snd (handle_greeted c message b))"
proof (cases message)
  case (TransferBetween request source path destination name)
  then show ?thesis
    by (auto simp: handle_greeted_def Let_def split_beta holds_control_def with_lease_def
        authorised_def lease_panes_def lease_holder_def)
qed (simp_all add: handle_greeted_def harmless_operations [THEN harmless_authorised] split_beta Let_def
    with_lease_authorised lease_panes_def authorised_def refuse_def holds_control_def
    split: option.split)

lemma handle_authorised: "list_all (authorised b c) (snd (handle c message b))"
  using handle_greeted_authorised [of b c message]
  by (cases message)
    (auto simp: handle_def handle_ungreeted_def refuse_def authorised_def lease_panes_def split: option.split)

lemma ungreeted_harmless:
  "bt_get (bk_clients b) c = Some session \<Longrightarrow> \<not> cl_greeted session \<Longrightarrow>
   list_all harmless (snd (handle c message b))"
  by (cases message) (auto simp: handle_def handle_ungreeted_def refuse_def harmless_def lease_panes_def)

lemma release_panes_harmless: "list_all harmless (snd (release_panes c panes b))"
  by (induction panes arbitrary: b) (simp_all add: Let_def split_beta release_pane_harmless)

lemma close_routes_harmless: "list_all harmless (snd (close_routes panes b))"
  by (induction panes arbitrary: b)
    (auto simp: Let_def split_beta pane_route_closed_def split: option.split)

lemma render_to_harmless: "list_all harmless (snd (render_to pane r cs b))"
  by (induction cs arbitrary: b) (auto simp: Let_def split_beta split: option.split)

lemma perform_harmless:
  assumes "\<And>c message. event \<noteq> Received c message"
  shows "list_all harmless (snd (perform vt event b))"
  using assms
  by (cases event)
    (auto simp: perform_def disconnect_def release_panes_harmless pane_frame_def render_for_def
      Let_def split_beta render_to_harmless pane_route_closed_def route_downgraded_def
      close_if_unclaimed_def federation_updated_def close_vanished_routes_def close_routes_harmless
      agent_cards_updated_def notify_devices_def attention_observed_def attention_changed_def
      pairing_approval_required_def pairing_decided_def operation_completed_def split: option.split)

section \<open>How a lease moves\<close>

lemma lease_holder_fields [simp]:
  "lease_holder (on_client c f b) = lease_holder b"
  "lease_holder (on_subscription c pane g b) = lease_holder b"
  "lease_holder (drop_screen pane b) = lease_holder b"
  "lease_holder (release_screen_if_unwatched pane b) = lease_holder b"
  "lease_holder (forget_pane pane c b) = lease_holder b"
  "lease_holder (b\<lparr>bk_screens := ss\<rparr>) = lease_holder b"
  "lease_holder (b\<lparr>bk_clients := cs\<rparr>) = lease_holder b"
  "lease_holder (b\<lparr>bk_state := st\<rparr>) = lease_holder b"
  "lease_holder (b\<lparr>bk_agent_cards := cards\<rparr>) = lease_holder b"
  "lease_holder (fst (connect b)) = lease_holder b"
  by (intro ext, simp add: lease_holder_def)+

lemma lease_holder_insert [simp]:
  "lease_holder (b\<lparr>bk_routes := bt_insert pane r (bk_routes b)\<rparr>) p =
     (if p = pane then rt_control r else lease_holder b p)"
  "lease_holder (b\<lparr>bk_routes := bt_remove pane (bk_routes b)\<rparr>) p =
     (if p = pane then None else lease_holder b p)"
  by (simp_all add: lease_holder_def)

lemma lease_holder_route: "bt_get (bk_routes b) pane = Some r \<Longrightarrow> lease_holder b pane = rt_control r"
  by (simp add: lease_holder_def)

lemma release_pane_holder:
  assumes "routes_upto P b"
  shows "lease_holder (fst (release_pane c pane b)) p =
    (if p = pane \<and> lease_holder b p = Some c then None else lease_holder b p)"
proof (cases "bt_get (bk_routes b) pane")
  case (Some r)
  have "rt_control (released c r) = (if rt_control r = Some c then None else rt_control r)"
    using routes_uptoD(2) [OF assms Some] by (cases "rt_control r") (auto simp: route_ok_def bs_empty_iff)
  then show ?thesis using Some by (auto simp: lease_holder_def release_pane_routes)
qed (auto simp: release_pane_def lease_holder_def)

lemma release_panes_holder:
  assumes "routes_upto P b" "\<And>p. \<not> linked b c p"
  shows "lease_holder (fst (release_panes c panes b)) p =
    (if p \<in> set panes \<and> lease_holder b p = Some c then None else lease_holder b p)"
  using assms
proof (induction panes arbitrary: P b)
  case (Cons pane panes)
  let ?b = "fst (release_pane c pane b)"
  have "lease_holder (fst (release_panes c panes ?b)) p =
      (if p \<in> set panes \<and> lease_holder ?b p = Some c then None else lease_holder ?b p)"
    by (rule Cons.IH [OF release_pane_upto]) (use Cons.prems in simp_all)
  then show ?case using release_pane_holder [OF Cons.prems(1), of c pane p]
    by (auto simp: Let_def split_beta)
qed simp

lemma disconnect_holder:
  assumes wf: "broker_wf b"
  shows "lease_holder (fst (disconnect c b)) p =
    (if lease_holder b p = Some c then None else lease_holder b p)"
proof (cases "bt_get (bk_clients b) c")
  case None
  then have "\<not> linked b c p" by (simp add: linked_def subscription_of_def)
  then have "lease_holder b p \<noteq> Some c" using lease_holder_linked [OF wf, of p c] by blast
  then show ?thesis using None by (simp add: disconnect_def)
next
  case (Some session)
  from release_panes_holder [OF departing(3,2) [OF wf Some], of "bt_keys (cl_panes session)" p]
    departing(1) [OF wf Some, of c p] departing(2) [OF wf Some, of p]
  show ?thesis using Some lease_holder_linked [OF wf, of p c] by (auto simp: disconnect_def)
qed

lemma fold_forget_holder [simp]: "lease_holder (fold (forget_pane pane) cs b) = lease_holder b"
  by (induction cs arbitrary: b) simp_all

lemma pane_route_closed_holder [simp]:
  "lease_holder (fst (pane_route_closed pane b)) p = (if p = pane then None else lease_holder b p)"
  by (auto simp: pane_route_closed_def lease_holder_def split: option.split)

lemma close_routes_holder:
  "lease_holder (fst (close_routes panes b)) p = (if p \<in> set panes then None else lease_holder b p)"
  by (induction panes arbitrary: b) (auto simp: Let_def split_beta)

lemma federation_updated_holder:
  "lease_holder (fst (federation_updated st b)) p =
     (if pane_is_gone (b\<lparr>bk_state := st\<rparr>) p then None else lease_holder b p)"
proof -
  have "lease_holder b p = None" if "p \<notin> set (bt_keys (bk_routes b))"
    using that by (cases "bt_get (bk_routes b) p") (simp_all add: lease_holder_def bt_keys_iff)
  then show ?thesis
    by (auto simp: federation_updated_def close_vanished_routes_def Let_def split_beta close_routes_holder)
qed

lemma route_downgraded_holder:
  "lease_holder (fst (route_downgraded pane b)) p = (if p = pane then None else lease_holder b p)"
  by (auto simp: route_downgraded_def lease_holder_def split: option.split)

lemma close_if_unclaimed_holder:
  assumes "broker_wf b"
  shows "lease_holder (fst (close_if_unclaimed pane b)) = lease_holder b"
proof -
  have "rt_control r = None" if "bt_get (bk_routes b) pane = Some r" "rt_unclaimed r" for r
    using that assms routes_uptoD(2) [of "\<lambda>_ _. False" b pane r]
    by (cases "rt_control r") (auto simp: broker_wf_def route_ok_def bs_empty_iff)
  then show ?thesis
    by (intro ext) (auto simp: close_if_unclaimed_def lease_holder_def split: option.split)
qed

lemma render_to_holder [simp]: "lease_holder (fst (render_to pane r cs b)) = lease_holder b"
  by (induction cs arbitrary: b) (simp_all add: Let_def split_beta split: option.split)

lemma pane_frame_holder [simp]:
  "lease_holder (fst (pane_frame vt pane sequence width height full bytes b)) = lease_holder b"
  by (simp add: pane_frame_def render_for_def Let_def split_beta split: option.split)

lemma ack_pane_screen_holder [simp]: "lease_holder (fst (ack_pane_screen c pane sequence b)) = lease_holder b"
  by (simp add: ack_pane_screen_def Let_def split: option.split)

lemma take_control_holder:
  assumes "broker_wf b"
  shows "lease_holder (fst (take_control c pane only_if_free b)) p =
    (if p = pane \<and> linked b c pane \<and> \<not> (only_if_free \<and> lease_holder b pane \<noteq> None) then Some c
     else lease_holder b p)"
proof -
  have "\<exists>r. bt_get (bk_routes b) pane = Some r" if "linked b c pane"
    using that assms unfolding broker_wf_def routes_upto_def listed_def by blast
  then show ?thesis
    by (auto simp: take_control_def linked_def subscription_of_def resize_for_control_def Let_def
        lease_holder_route split: option.split)
qed

lemma subscribe_pane_holder:
  assumes "bt_get (bk_clients b) c = Some session"
  shows "lease_holder (fst (subscribe_pane c pane access cols rows representation b)) p =
    (if p = pane \<and> access = Control \<and> lease_holder b pane = None then Some c else lease_holder b p)"
  using assms
  by (auto simp: subscribe_pane_def subscribe_route_def resize_for_control_def Let_def split_beta
      lease_holder_def split: option.splits)

lemma resize_holder [simp]:
  "lease_holder (on_route pane (\<lambda>r. r\<lparr>rt_cols := cols, rt_rows := rows\<rparr>) b) = lease_holder b"
  by (intro ext) (auto simp: lease_holder_def split: option.split bind_splits)

lemma unsubscribe_holder:
  assumes wf: "broker_wf b"
  shows "lease_holder (fst (release_pane c pane (forget_pane pane c b))) p =
    (if p = pane \<and> lease_holder b p = Some c then None else lease_holder b p)"
proof -
  have "routes_upto (\<lambda>c' p. (c' = c \<and> p = pane) \<and> linked b c pane) (forget_pane pane c b)"
    using wf by (auto simp: broker_wf_def routes_upto_def listed_def linked_def)
  from release_pane_holder [OF this, of c pane p] show ?thesis by auto
qed

text \<open>The table of leases as a specification of its own: what an event makes of the holder of
  a pane, given who asks and whether that client is subscribed.\<close>

definition greeted :: "'p broker \<Rightarrow> client_id \<Rightarrow> bool" where
  "greeted b c \<longleftrightarrow> (case bt_get (bk_clients b) c of None \<Rightarrow> False | Some session \<Rightarrow> cl_greeted session)"

definition asked_lease :: "client_id \<Rightarrow> client_message \<Rightarrow> bool \<Rightarrow> pane_id \<Rightarrow> client_id option \<Rightarrow> client_id option" where
  "asked_lease c message subscribed pane holder = (case message of
     SubscribePane p access _ _ _ \<Rightarrow>
       if p = pane \<and> access = Control \<and> holder = None then Some c else holder
   | UnsubscribePane p \<Rightarrow> if p = pane \<and> holder = Some c then None else holder
   | TakePaneControl p only_if_free \<Rightarrow>
       if p = pane \<and> subscribed \<and> \<not> (only_if_free \<and> holder \<noteq> None) then Some c else holder
   | _ \<Rightarrow> holder)"

definition lease_after :: "broker_event \<Rightarrow> 'p broker \<Rightarrow> pane_id \<Rightarrow> client_id option \<Rightarrow> client_id option" where
  "lease_after event b pane holder = (case event of
     Disconnected c \<Rightarrow> if holder = Some c then None else holder
   | Received c message \<Rightarrow>
       if greeted b c then asked_lease c message (linked b c pane) pane holder else holder
   | RouteEnded p \<Rightarrow> if p = pane then None else holder
   | RouteRefused p \<Rightarrow> if p = pane then None else holder
   | FederationObserved st \<Rightarrow> if pane_is_gone (b\<lparr>bk_state := st\<rparr>) pane then None else holder
   | _ \<Rightarrow> holder)"

lemma handle_greeted_holder:
  assumes wf: "broker_wf b" and at: "bt_get (bk_clients b) c = Some session"
  shows "lease_holder (fst (handle_greeted c message b)) p =
    asked_lease c message (linked b c p) p (lease_holder b p)"
proof -
  have "lease_holder b p \<noteq> Some c" if "subscription_of b c p = None"
    using that lease_holder_linked [OF wf, of p c] by (auto simp: linked_def)
  then show ?thesis
    by (cases message)
      (auto simp: handle_greeted_def asked_lease_def Let_def split_beta take_control_holder [OF wf]
        subscribe_pane_holder [OF at] unsubscribe_holder [OF wf])
qed

lemma handle_holder:
  assumes wf: "broker_wf b"
  shows "lease_holder (fst (handle c message b)) p =
    (if greeted b c then asked_lease c message (linked b c p) p (lease_holder b p) else lease_holder b p)"
proof (cases "bt_get (bk_clients b) c")
  case (Some session)
  show ?thesis
  proof (cases "cl_greeted session")
    case True
    then show ?thesis using handle_greeted_holder [OF wf Some] Some by (simp add: handle_def greeted_def)
  next
    case False
    then show ?thesis
      using Some by (cases message) (simp_all add: handle_def handle_ungreeted_def greeted_def)
  qed
qed (simp add: handle_def greeted_def)

lemma perform_holder:
  assumes "broker_wf b"
  shows "lease_holder (fst (perform vt event b)) pane = lease_after event b pane (lease_holder b pane)"
  using assms
  by (cases event)
    (simp_all add: perform_def lease_after_def disconnect_holder handle_holder federation_updated_holder
      close_if_unclaimed_holder route_downgraded_holder agent_cards_updated_def notify_devices_def
      attention_observed_def attention_changed_def)

section \<open>Who is served\<close>

text \<open>A client that is sent something it did not ask for has completed the handshake.\<close>

definition reaches_only :: "(client_id \<Rightarrow> bool) \<Rightarrow> effect list \<Rightarrow> bool" where
  "reaches_only P es \<longleftrightarrow> list_all (\<lambda>e. case e of Send d _ \<Rightarrow> P d | _ \<Rightarrow> True) es"

lemma reaches_only_append [simp]: "reaches_only P (xs @ ys) \<longleftrightarrow> reaches_only P xs \<and> reaches_only P ys"
  by (simp add: reaches_only_def)

lemma reaches_only_simps [simp]:
  "reaches_only P []" "reaches_only P (Send d m # es) \<longleftrightarrow> P d \<and> reaches_only P es"
  "reaches_only P (CloseRoute p # es) \<longleftrightarrow> reaches_only P es"
  "reaches_only P (OpenRoute p a w h # es) \<longleftrightarrow> reaches_only P es"
  "reaches_only P (RouteResize p w h # es) \<longleftrightarrow> reaches_only P es"
  "reaches_only P (RouteUnclaimed p # es) \<longleftrightarrow> reaches_only P es"
  by (simp_all add: reaches_only_def)

lemma reaches_only_map: "reaches_only P (map (\<lambda>x. Send (f x) (m x)) xs) \<longleftrightarrow> list_all (\<lambda>x. P (f x)) xs"
  by (induction xs) simp_all

lemma greeted_flag:
  assumes "broker_wf b" "bt_get (bk_clients b) d = Some session" "session \<noteq> client_new"
  shows "greeted b d"
  using assms unfolding broker_wf_def clients_ok_def session_ok_def greeted_def by fastforce

lemma linked_greeted: "broker_wf b \<Longrightarrow> linked b d pane \<Longrightarrow> greeted b d"
  by (cases "bt_get (bk_clients b) d")
    (auto simp: linked_def subscription_of_def client_new_def intro: greeted_flag)

lemma subscriber_greeted:
  assumes "broker_wf b" "bt_get (bk_routes b) pane = Some r" "d \<in> set (bt_keys (rt_subscribers r))"
  shows "greeted b d"
  using assms routes_uptoD(1) [of "\<lambda>_ _. False" b pane r d] linked_greeted [of b d pane]
  by (simp add: broker_wf_def bs_mem_keys)

lemma entry_greeted:
  assumes "broker_wf b" "(d, session) \<in> set (bt_entries (bk_clients b))"
    and "cl_state_subscribed session \<or> cl_agent_cards_subscribed session \<or> cl_notifications_subscribed session"
  shows "greeted b d"
proof (rule greeted_flag [OF assms(1)])
  show "bt_get (bk_clients b) d = Some session" using assms(2) by (simp add: bt_entries_get)
  show "session \<noteq> client_new" using assms(3) by (auto simp: client_new_def)
qed

lemma broadcast_reaches: "broker_wf b \<Longrightarrow> reaches_only (greeted b) (broadcast_state m b)"
  by (auto simp: broadcast_state_def reaches_only_map list_all_iff intro: entry_greeted)

lemma broadcasts_reach:
  "broker_wf b \<Longrightarrow> reaches_only (greeted b) (concat (map (\<lambda>msg. broadcast_state msg b) msgs))"
  by (induction msgs) (simp_all add: broadcast_reaches)

lemma greeted_state [simp]: "greeted (b\<lparr>bk_state := st\<rparr>) = greeted b"
  by (intro ext) (simp add: greeted_def)

lemma pane_route_closed_reaches:
  "broker_wf b \<Longrightarrow> reaches_only (greeted b) (snd (pane_route_closed pane b))"
  by (auto simp: pane_route_closed_def reaches_only_map list_all_iff intro: subscriber_greeted
      split: option.split)

lemma forget_pane_greeted [simp]: "greeted (forget_pane pane c b) = greeted b"
  by (intro ext) (simp add: greeted_def forget_pane_def split: option.split)

lemma fold_forget_greeted [simp]: "greeted (fold (forget_pane pane) cs b) = greeted b"
  by (induction cs arbitrary: b) simp_all

lemma pane_route_closed_greeted [simp]: "greeted (fst (pane_route_closed pane b)) = greeted b"
  by (intro ext) (simp add: pane_route_closed_def split: option.split, simp add: greeted_def)

lemma close_routes_reaches: "broker_wf b \<Longrightarrow> reaches_only (greeted b) (snd (close_routes panes b))"
proof (induction panes arbitrary: b)
  case (Cons pane panes)
  then show ?case
    using Cons.IH [OF pane_route_closed_wf [OF Cons.prems, of pane]] pane_route_closed_reaches [of b pane]
    by (simp add: Let_def split_beta)
qed simp

lemma render_to_reaches: "list_all P cs \<Longrightarrow> reaches_only P (snd (render_to pane r cs b))"
  by (induction cs arbitrary: b) (simp_all add: Let_def split_beta split: option.split)

lemma pane_frame_reaches:
  assumes "broker_wf b"
  shows "reaches_only (greeted b) (snd (pane_frame vt pane sequence width height full bytes b))"
proof (cases "bt_get (bk_routes b) pane")
  case (Some r)
  have "list_all (greeted b) (bt_keys (rt_subscribers r))"
    using subscriber_greeted [OF assms Some] by (simp add: list_all_iff)
  then have "list_all (greeted b) (filter P (bt_keys (rt_subscribers r)))" for P
    by (auto simp: list_all_iff)
  then show ?thesis
    using Some by (simp add: pane_frame_def render_for_def screen_subscribers_def Let_def split_beta
        reaches_only_map render_to_reaches)
qed (simp add: pane_frame_def)

lemma release_pane_reaches:
  assumes wf: "routes_upto P b" and P: "\<And>d q. linked b d q \<or> P d q \<Longrightarrow> Q d"
  shows "reaches_only Q (snd (release_pane c pane b))"
proof (cases "bt_get (bk_routes b) pane")
  case (Some r)
  have "Q d" if "d \<in> set (bt_keys (rt_subscribers r))" for d
    using that routes_uptoD(1) [OF wf Some, of d] P by (auto simp: bs_mem_keys)
  then have "list_all Q (bt_keys (bs_remove c (rt_subscribers r)))"
    by (auto simp: list_all_iff bs_mem_keys [symmetric])
  then show ?thesis
    using Some by (auto simp: release_pane_def Let_def reaches_only_map)
qed (simp add: release_pane_def)

lemma release_panes_reaches:
  assumes "routes_upto P b" "\<And>p. \<not> linked b c p" "\<And>d q. linked b d q \<or> P d q \<Longrightarrow> Q d"
  shows "reaches_only Q (snd (release_panes c panes b))"
  using assms
proof (induction panes arbitrary: P b)
  case (Cons pane panes)
  have "reaches_only Q (snd (release_panes c panes (fst (release_pane c pane b))))"
    by (rule Cons.IH [OF release_pane_upto [OF Cons.prems(1,2)]]) (use Cons.prems in auto)
  then show ?case
    using release_pane_reaches [where Q = Q and c = c and pane = pane, OF Cons.prems(1,3)] by (simp add: Let_def split_beta)
qed simp

lemma disconnect_reaches:
  assumes wf: "broker_wf b"
  shows "reaches_only (greeted b) (snd (disconnect c b))"
proof (cases "bt_get (bk_clients b) c")
  case (Some session)
  then show ?thesis
    using release_panes_reaches [OF departing(3,2) [OF wf Some], of "greeted b" "bt_keys (cl_panes session)"]
      linked_greeted [OF wf] departing(1) [OF wf Some] by (auto simp: disconnect_def)
qed (simp add: disconnect_def)

lemma perform_reaches:
  assumes wf: "broker_wf b"
    and other: "\<And>c message. event \<noteq> Received c message"
      "\<And>c request applied message run. event \<noteq> OperationFinished c request applied message run"
  shows "reaches_only (greeted b) (snd (perform vt event b))"
proof (cases event)
  case (FederationObserved st)
  have "broker_wf (b\<lparr>bk_state := st\<rparr>)" using wf by simp
  from broadcasts_reach [OF this] close_routes_reaches [OF this] show ?thesis
    by (simp add: FederationObserved perform_def federation_updated_def close_vanished_routes_def
        Let_def split_beta)
qed (use wf other entry_greeted [OF wf] subscriber_greeted [OF wf] in
    \<open>auto simp: perform_def disconnect_reaches pane_frame_reaches pane_route_closed_reaches
      route_downgraded_def close_if_unclaimed_def agent_cards_updated_def notify_devices_def
      attention_observed_def attention_changed_def pairing_approval_required_def pairing_decided_def
      broadcast_reaches reaches_only_map list_all_iff split: option.split\<close>)

text \<open>What a message makes the daemon say to the client that sent it, before the handshake.\<close>

lemma handle_answers:
  assumes "\<not> greeted b c" "Send d m \<in> set (snd (handle c message b))"
  shows "d = c \<and> (m = ServerHello protocol_version (bk_server_version b) (bk_features b) (bk_quick_replies b)
    \<or> (\<exists>reason. m = ErrorMsg None reason))"
  using assms by (cases message) (auto simp: handle_def handle_ungreeted_def greeted_def refuse_def
      split: option.splits if_splits)

lemma unsubscribe_reaches:
  assumes wf: "broker_wf b"
  shows "reaches_only (greeted b) (snd (release_pane c pane (forget_pane pane c b)))"
proof (rule release_pane_reaches)
  show "routes_upto (\<lambda>c' p. (c' = c \<and> p = pane) \<and> linked b c pane) (forget_pane pane c b)"
    using wf by (auto simp: broker_wf_def routes_upto_def listed_def linked_def)
  show "greeted b d" if "linked (forget_pane pane c b) d q \<or> (d = c \<and> q = pane) \<and> linked b c pane" for d q
    using that linked_greeted [OF wf] by (auto simp: linked_def split: if_splits)
qed

lemma take_control_reaches:
  assumes wf: "broker_wf b" and "greeted b c"
  shows "reaches_only (greeted b) (snd (take_control c pane only_if_free b))"
proof -
  have "greeted b d" if "lease_holder b pane = Some d" for d
    using that lease_holder_linked [OF wf] linked_greeted [OF wf] by blast
  then show ?thesis using assms(2)
    by (auto simp: take_control_def Let_def resize_for_control_def lease_holder_def split: option.splits)
qed

lemma handle_reaches:
  assumes wf: "broker_wf b" and "greeted b c"
  shows "reaches_only (greeted b) (snd (handle c message b))"
proof -
  obtain session where "bt_get (bk_clients b) c = Some session" "cl_greeted session"
    using assms(2) by (auto simp: greeted_def split: option.splits)
  moreover have "reaches_only (greeted b) (snd (handle_greeted c message b))"
  proof (cases "(\<exists>pane. message = UnsubscribePane pane) \<or> (\<exists>pane f. message = TakePaneControl pane f)")
    case True
    then show ?thesis
      using unsubscribe_reaches [OF wf] take_control_reaches [OF assms] by (auto simp: handle_greeted_def)
  next
    case False
    then show ?thesis
      using assms(2) by (cases message)
        (auto simp: handle_greeted_def Let_def split_beta refuse_def with_lease_def holds_control_def
          subscribe_pane_def subscribe_route_def resize_for_control_def ack_pane_screen_def
          reaches_only_def split: option.split)
  qed
  ultimately show ?thesis by (simp add: handle_def)
qed

section \<open>Runs\<close>

fun run :: "'p vt100 \<Rightarrow> broker_event list \<Rightarrow> 'p broker \<Rightarrow> 'p step_result" where
  "run vt [] b = (b, [])"
| "run vt (event # events) b =
     (let (b1, es1) = perform vt event b; (b2, es2) = run vt events b1 in (b2, es1 @ es2))"

fun roomy :: "'p vt100 \<Rightarrow> broker_event list \<Rightarrow> 'p broker \<Rightarrow> bool" where
  "roomy vt [] b \<longleftrightarrow> True"
| "roomy vt (event # events) b \<longleftrightarrow> has_room b event \<and> roomy vt events (fst (perform vt event b))"

lemma run_reaches:
  "reach (broker_step vt) b0 b \<Longrightarrow> roomy vt events b \<Longrightarrow> reach (broker_step vt) b0 (fst (run vt events b))"
  by (induction events arbitrary: b) (auto simp: Let_def split_beta intro: reach_step performed)

text \<open>A terminal of one line that marks a column for every byte, and two clients of a pane,
  the first of which controls it.\<close>

type_synonym line_terminal = "(u16 \<times> u16) \<times> u16"

definition line_vt :: "line_terminal vt100" where
  "line_vt = \<lparr>vt_new = (\<lambda>rows cols. ((rows, cols), 0)),
     vt_process = (\<lambda>bytes p. (fst p, snd p + of_nat (length bytes))), vt_size = fst,
     vt_cell_at = (\<lambda>p row col. if row = 0 \<and> col < snd p
       then Some \<lparr>vc_contents = [1], vc_has_contents = True, vc_wide_continuation = False,
         vc_fgcolor = VtDefault, vc_bgcolor = VtDefault, vc_bold = True, vc_dim = False,
         vc_italic = False, vc_underline = False, vc_inverse = False\<rparr> else None),
     vt_hide_cursor = (\<lambda>p. False), vt_cursor_position = (\<lambda>p. (0, snd p))\<rparr>"

definition shared_pane :: pane_id where
  "shared_pane = QualifiedId (lit ''alpha'') (lit ''dev'') (lit ''p1'')"

definition two_clients :: "broker_event list" where
  "two_clients =
     [Connected, Received 0 (ClientHello 3 (lit ''tui'')),
      Received 0 (SubscribePane shared_pane Control 2 1 ScreenRepresentation),
      Connected, Received 1 (ClientHello 3 (lit ''web'')),
      Received 1 (SubscribePane shared_pane Observe 8 2 Frames), Connected]"

abbreviation shared_broker :: "line_terminal broker" where
  "shared_broker \<equiv> fst (run line_vt two_clients (broker_new [] [] []))"

lemma shared_broker_reached: "reach (broker_step line_vt) (broker_new [] [] []) shared_broker"
proof (rule run_reaches [OF reach_start])
  show "roomy line_vt two_clients (broker_new [] [] [])" by code_simp
qed

lemma shared_broker_facts:
  "lease_holder shared_broker shared_pane = Some 0" "greeted shared_broker 0" "greeted shared_broker 1"
  "\<not> greeted shared_broker 2"
  by code_simp+

section \<open>Properties\<close>

text \<open>
  C37. In every state the daemon's events lead to, the routes and the subscriptions of the
  clients describe each other, a lease is held by a subscriber of its pane, exactly the routes
  without a subscriber wait to be closed, a screen is kept only for a route, no subscription
  has more than four updates outstanding, and a client that has not said hello has no
  subscription of any kind.
\<close>

theorem broker_reachable_wf:
  "reach (broker_step vt) (broker_new version features replies) b \<Longrightarrow> broker_wf b"
  by (rule broker_reach.reachable_holds)

theorem broker_reachable_wf_witness: "broker_wf shared_broker"
  by (rule broker_reachable_wf [OF shared_broker_reached])

text \<open>
  C1. Input, scrolling, pasting, uploads, downloads and copies between panes reach a pane only
  on a message of the one client that holds that pane's lease; it is subscribed to the pane
  and has completed the handshake. No other event has such an effect.
\<close>

theorem input_needs_lease:
  assumes "reach (broker_step vt) (broker_new version features replies) b"
    and "e \<in> set (snd (perform vt event b))" "pane \<in> set (lease_panes e)"
  shows "\<exists>c message. event = Received c message \<and> lease_holder b pane = Some c \<and>
    subscription_of b c pane \<noteq> None \<and> greeted b c"
proof -
  have wf: "broker_wf b" using assms(1) by (rule broker_reach.reachable_holds)
  have "\<not> harmless e" using assms(3) by (auto simp: harmless_def)
  then obtain c message where event: "event = Received c message"
    using perform_harmless [of event vt b] assms(2) by (auto simp: list_all_iff)
  have "authorised b c e"
    using handle_authorised [of b c message] assms(2) by (auto simp: event perform_def list_all_iff)
  then have held: "lease_holder b pane = Some c" using assms(3) by (auto simp: authorised_def list_all_iff)
  then have "linked b c pane" by (rule lease_holder_linked [OF wf])
  with linked_greeted [OF wf this] held event show ?thesis by (auto simp: linked_def)
qed

theorem input_needs_lease_witness:
  "RouteInput shared_pane [108] \<in>
     set (snd (perform line_vt (Received 0 (PaneInput shared_pane [108])) shared_broker)) \<and>
   lease_holder shared_broker shared_pane = Some 0"
proof -
  have sent: "RouteInput shared_pane [108] \<in>
      set (snd (perform line_vt (Received 0 (PaneInput shared_pane [108])) shared_broker))"
    by code_simp
  from input_needs_lease [OF shared_broker_reached sent, of shared_pane] sent show ?thesis
    by (auto simp: lease_panes_def)
qed

text \<open>
  C2. The broker implements the table of leases: an event gives the lease of a pane to a
  client only when that client asks for it, by subscribing to control a pane nobody controls
  or by taking control of a pane it is subscribed to, and takes it from a client only when
  another takes it explicitly, when it leaves, or when the route is refused, ends or its pane
  is gone; every other event leaves every lease where it was.
\<close>

theorem lease_refines:
  "reach (broker_step vt) (broker_new version features replies) b \<Longrightarrow>
   lease_holder (fst (perform vt event b)) pane = lease_after event b pane (lease_holder b pane)"
  by (rule perform_holder [OF broker_reach.reachable_holds])

theorem lease_refines_witness:
  "lease_holder (fst (perform line_vt (Received 1 (TakePaneControl shared_pane True)) shared_broker))
     shared_pane = Some 0 \<and>
   lease_holder (fst (perform line_vt (Received 1 (TakePaneControl shared_pane False)) shared_broker))
     shared_pane = Some 1"
proof -
  have "linked shared_broker 1 shared_pane" by code_simp
  then show ?thesis
    unfolding lease_refines [OF shared_broker_reached] shared_broker_facts
    by (simp add: lease_after_def asked_lease_def shared_broker_facts)
qed

text \<open>
  C38. Nothing is served before the handshake: the result of an operation apart, a client that
  has not completed it is sent nothing but the greeting or an error, and that only in answer
  to its own message.
\<close>

theorem nothing_before_handshake:
  assumes "reach (broker_step vt) (broker_new version features replies) b"
    and "Send c m \<in> set (snd (perform vt event b))" "\<not> greeted b c"
  shows "(\<exists>message. event = Received c message \<and>
       (m = ServerHello protocol_version (bk_server_version b) (bk_features b) (bk_quick_replies b) \<or>
        (\<exists>reason. m = ErrorMsg None reason))) \<or>
    (\<exists>request applied message run. event = OperationFinished c request applied message run)"
proof -
  have wf: "broker_wf b" using assms(1) by (rule broker_reach.reachable_holds)
  have reached: "\<not> reaches_only (greeted b) (snd (perform vt event b))"
    using assms(2,3) by (force simp: reaches_only_def list_all_iff)
  then consider d message where "event = Received d message"
    | d request applied message run where "event = OperationFinished d request applied message run"
    using perform_reaches [OF wf] by blast
  then show ?thesis
  proof cases
    case 1
    then have "\<not> greeted b d" using reached handle_reaches [OF wf] by (auto simp: perform_def)
    from handle_answers [OF this, of c m message] 1 assms(2) show ?thesis by (auto simp: perform_def)
  next
    case 2
    then show ?thesis using assms(2) by (auto simp: perform_def operation_completed_def split: if_splits)
  qed
qed

theorem nothing_before_handshake_witness:
  "\<exists>message m. Send 2 m \<in> set (snd (perform line_vt (Received 2 SubscribeState) shared_broker)) \<and>
     Received 2 SubscribeState = Received 2 message \<and> (\<exists>reason. m = ErrorMsg None reason)"
proof -
  let ?m = "ErrorMsg None (lit ''the first message must be client.hello'')"
  have sent: "Send 2 ?m \<in> set (snd (perform line_vt (Received 2 SubscribeState) shared_broker))"
    by code_simp
  from nothing_before_handshake [OF shared_broker_reached sent shared_broker_facts(4)] sent
  show ?thesis by auto
qed

end
