(* ===== verification/Broker_Told.thy ===== *)
theory Broker_Told
  imports Broker_Events
begin

text \<open>
  What the clients know of the leases, as a ghost component beside the broker: the last word
  each was told about a pane. Every operation leaves each subscriber told whether it holds
  the lease.
\<close>

section \<open>What a client was told about a lease\<close>

definition hear_lease ::
    "client_id \<Rightarrow> pane_id \<Rightarrow> effect \<Rightarrow> terminal_access option \<Rightarrow> terminal_access option" where
  "hear_lease c pane e told = (case e of
     Send d m \<Rightarrow> if d \<noteq> c then told else (case m of
       PaneLease p access \<Rightarrow> if p = pane then Some access else told
     | PaneClosed p \<Rightarrow> if p = pane then None else told
     | _ \<Rightarrow> told)
   | _ \<Rightarrow> told)"

definition lease_of :: "'p broker \<Rightarrow> client_id \<Rightarrow> pane_id \<Rightarrow> terminal_access" where
  "lease_of b c pane = (if lease_holder b pane = Some c then Control else Observe)"

text \<open>An operation keeps the clients informed when whoever is subscribed afterwards was last
  told the truth, provided it had been before.\<close>

definition tells :: "'p broker \<Rightarrow> 'p step_result \<Rightarrow> bool" where
  "tells b res \<longleftrightarrow> (\<forall>c pane told. linked (fst res) c pane \<longrightarrow>
     (linked b c pane \<longrightarrow> told = Some (lease_of b c pane)) \<longrightarrow>
     fold (hear_lease c pane) (snd res) told = Some (lease_of (fst res) c pane))"

lemma tellsI:
  assumes "\<And>c pane told. linked b' c pane \<Longrightarrow> (linked b c pane \<Longrightarrow> told = Some (lease_of b c pane)) \<Longrightarrow>
    fold (hear_lease c pane) es told = Some (lease_of b' c pane)"
  shows "tells b (b', es)"
  using assms by (auto simp: tells_def)

lemma tells_trans:
  assumes "tells b res" "tells (fst res) res'"
  shows "tells b (fst res', snd res @ snd res')"
proof (rule tellsI)
  fix c pane told
  assume "linked (fst res') c pane" and before: "linked b c pane \<Longrightarrow> told = Some (lease_of b c pane)"
  then show "fold (hear_lease c pane) (snd res @ snd res') told = Some (lease_of (fst res') c pane)"
    using assms(1)[unfolded tells_def] assms(2)[unfolded tells_def] by auto
qed

text \<open>Effects that say nothing about leases.\<close>

definition says_nothing :: "effect \<Rightarrow> bool" where
  "says_nothing e \<longleftrightarrow> (case e of
     Send _ m \<Rightarrow> (case m of PaneLease _ _ \<Rightarrow> False | PaneClosed _ \<Rightarrow> False | _ \<Rightarrow> True) | _ \<Rightarrow> True)"

lemma hear_nothing: "says_nothing e \<Longrightarrow> hear_lease c pane e told = told"
  by (auto simp: says_nothing_def hear_lease_def split: effect.splits server_message.splits)

lemma fold_hear_nothing: "list_all says_nothing es \<Longrightarrow> fold (hear_lease c pane) es told = told"
  by (induction es) (auto simp: hear_nothing)

lemma hear_lease_simps [simp]:
  "hear_lease c pane (Send d (PaneLease p access)) told =
     (if d = c \<and> p = pane then Some access else told)"
  "hear_lease c pane (Send d (PaneClosed p)) told = (if d = c \<and> p = pane then None else told)"
  by (simp_all add: hear_lease_def)

lemma hear_leases [simp]:
  "fold (hear_lease c pane) (map (\<lambda>d. Send d (PaneLease p access)) ds) told =
     (if p = pane \<and> c \<in> set ds then Some access else told)"
  by (induction ds arbitrary: told) auto

lemma tells_silent:
  assumes "\<And>c pane. linked b' c pane \<Longrightarrow> linked b c pane"
    and "\<And>c pane. linked b' c pane \<Longrightarrow> lease_of b' c pane = lease_of b c pane" "list_all says_nothing es"
  shows "tells b (b', es)"
  by (rule tellsI) (simp add: assms fold_hear_nothing)

lemma says_nothing_simps [simp]:
  "says_nothing (CloseRoute p)" "says_nothing (OpenRoute p a w h)" "says_nothing (RouteResize p w h)"
  "says_nothing (RouteUnclaimed p)" "says_nothing (Send c (PaneScreen p s))"
  "says_nothing (Send c (PaneScreenDiff p d))" "says_nothing (Send c (PaneFrame p n w h f bs))"
  "says_nothing (Send c (ErrorMsg r e))" "says_nothing (Send c (TargetStateMsg k t))"
  "says_nothing (Send c (update_for subscription p update))"
  by (simp_all add: says_nothing_def update_for_def split: option.split)

lemma hear_simps [simp]: "says_nothing e \<Longrightarrow> hear_lease c pane e = (\<lambda>told. told)"
  by (intro ext) (rule hear_nothing)

lemma broadcast_says_nothing:
  "(\<And>d. says_nothing (Send d m)) \<Longrightarrow> list_all says_nothing (broadcast_state m b)"
  by (simp add: broadcast_state_def list_all_iff)

section \<open>Every operation keeps the clients informed\<close>

lemma lease_of_fields [simp]:
  "lease_of (on_client c f b) = lease_of b" "lease_of (on_subscription c pane g b) = lease_of b"
  "lease_of (drop_screen pane b) = lease_of b" "lease_of (forget_pane pane c b) = lease_of b"
  "lease_of (b\<lparr>bk_screens := ss\<rparr>) = lease_of b" "lease_of (b\<lparr>bk_clients := cs\<rparr>) = lease_of b"
  "lease_of (b\<lparr>bk_state := st\<rparr>) = lease_of b" "lease_of (b\<lparr>bk_agent_cards := cards\<rparr>) = lease_of b"
  "lease_of (fst (connect b)) = lease_of b"
  by (intro ext, simp add: lease_of_def)+

lemma routes_upto_listed:
  assumes "routes_upto P b" "linked b c pane"
  obtains r where "bt_get (bk_routes b) pane = Some r" "bs_mem c (rt_subscribers r)"
  using assms unfolding routes_upto_def listed_def by blast

lemma release_pane_tells:
  assumes wf: "routes_upto P b" and gone: "\<not> linked b c pane"
  shows "tells b (release_pane c pane b)"
proof -
  have "tells b (fst (release_pane c pane b), snd (release_pane c pane b))"
  proof (rule tellsI)
    fix d p told
    assume linked: "linked (fst (release_pane c pane b)) d p"
      and before: "linked b d p \<Longrightarrow> told = Some (lease_of b d p)"
    then have told: "told = Some (lease_of b d p)" by simp
    obtain r where at: "bt_get (bk_routes b) p = Some r" and mem: "bs_mem d (rt_subscribers r)"
      using routes_upto_listed [OF wf] linked by auto
    have other: "d \<noteq> c" if "p = pane" using that gone linked by auto
    show "fold (hear_lease d p) (snd (release_pane c pane b)) told =
        Some (lease_of (fst (release_pane c pane b)) d p)"
    proof (cases "p = pane")
      case True
      then have "bt_keys (bs_remove c (rt_subscribers r)) \<noteq> []"
        using mem other by (auto simp: bs_empty_iff)
      moreover have "d \<in> set (bt_keys (bs_remove c (rt_subscribers r)))"
        using mem other True by (auto simp: bs_mem_keys [symmetric])
      ultimately show ?thesis
        using True at told other release_pane_holder [OF wf, of c pane pane]
        by (auto simp: release_pane_def Let_def lease_of_def lease_holder_route)
    next
      case False
      then show ?thesis
        using at told release_pane_holder [OF wf, of c pane p]
        by (auto simp: release_pane_def Let_def lease_of_def split: option.split)
    qed
  qed
  then show ?thesis by simp
qed

lemma release_panes_tells:
  assumes "routes_upto P b" "\<And>p. \<not> linked b c p"
  shows "tells b (release_panes c panes b)"
  using assms
proof (induction panes arbitrary: P b)
  case Nil
  then show ?case by (simp add: tells_silent)
next
  case (Cons pane panes)
  have "tells (fst (release_pane c pane b)) (release_panes c panes (fst (release_pane c pane b)))"
    by (rule Cons.IH [OF release_pane_upto [OF Cons.prems]]) (simp add: Cons.prems)
  from tells_trans [OF release_pane_tells [OF Cons.prems] this] show ?case
    by (simp add: Let_def split_beta)
qed

lemma tells_after:
  assumes "tells b1 res" "\<And>c pane. linked b1 c pane \<Longrightarrow> linked b c pane" "lease_of b1 = lease_of b"
  shows "tells b res"
  using tells_trans [OF tells_silent, of b1 b "[]" res] assms by simp

lemma disconnect_tells:
  assumes wf: "broker_wf b"
  shows "tells b (disconnect c b)"
proof (cases "bt_get (bk_clients b) c")
  case (Some session)
  show ?thesis
    using tells_after [OF release_panes_tells [OF departing(3,2) [OF wf Some]], of b "bt_keys (cl_panes session)"]
      departing(1) [OF wf Some] Some by (simp add: disconnect_def)
qed (simp add: disconnect_def tells_silent)

lemma unsubscribe_tells:
  assumes wf: "broker_wf b"
  shows "tells b (release_pane c pane (forget_pane pane c b))"
proof (rule tells_after)
  have "routes_upto (\<lambda>c' p. (c' = c \<and> p = pane) \<and> linked b c pane) (forget_pane pane c b)"
    using wf by (auto simp: broker_wf_def routes_upto_def listed_def linked_def)
  then show "tells (forget_pane pane c b) (release_pane c pane (forget_pane pane c b))"
    by (rule release_pane_tells) (simp add: linked_def)
  show "linked b d p" if "linked (forget_pane pane c b) d p" for d p
    using that by (auto simp: linked_def split: if_splits)
qed simp

lemma take_control_tells:
  assumes wf: "broker_wf b"
  shows "tells b (take_control c pane only_if_free b)"
proof (cases "linked b c pane")
  case False
  then show ?thesis
    by (auto simp: take_control_def linked_def subscription_of_def intro!: tells_silent
        split: option.splits)
next
  case True
  then obtain session s where s: "bt_get (bk_clients b) c = Some session" "bt_get (cl_panes session) pane = Some s"
    by (auto simp: linked_def subscription_of_def split: bind_splits)
  obtain r where r: "bt_get (bk_routes b) pane = Some r"
    using wf True routes_upto_listed unfolding broker_wf_def by metis
  note holder = take_control_holder [OF wf, of c pane only_if_free]
  have "linked (fst (take_control c pane only_if_free b)) = linked b"
    using s r by (simp add: take_control_def Let_def split_beta)
  then have "tells b (fst (take_control c pane only_if_free b), snd (take_control c pane only_if_free b))"
    using True s r
    by (intro tellsI) (auto simp: lease_of_def holder, auto simp: take_control_def Let_def resize_for_control_def
        lease_holder_route split: option.splits)
  then show ?thesis by simp
qed

lemma tells_pair: "tells b (fst res, snd res) \<Longrightarrow> tells b res"
  by simp

text \<open>The record a new subscription leaves.\<close>

definition joined :: "terminal_access \<Rightarrow> u16 \<Rightarrow> u16 \<Rightarrow> pane_representation \<Rightarrow> 'p screen_state option \<Rightarrow> pane_subscription" where
  "joined access cols rows representation held =
     (let sent = (if representation = ScreenRepresentation then map_option (\<lambda>st. sn_sequence (ss_last st)) held else None)
      in \<lparr>sb_requested = access, sb_cols = cols, sb_rows = rows, sb_representation = representation,
          sb_sent = sent, sb_outstanding = (case sent of None \<Rightarrow> [] | Some q \<Rightarrow> [q])\<rparr>)"

lemma subscribe_pane_subscription:
  assumes "bt_get (bk_clients b) c = Some session"
  shows "subscription_of (fst (subscribe_pane c pane access cols rows representation b)) d p =
    (if d = c \<and> p = pane then Some (joined access cols rows representation (bt_get (bk_screens b) pane))
     else subscription_of b d p)"
  using assms
  by (auto simp: subscribe_pane_def Let_def split_beta subscription_insert joined_def split: option.split)

lemma subscribe_pane_linked:
  assumes "bt_get (bk_clients b) c = Some session"
  shows "linked (fst (subscribe_pane c pane access cols rows representation b)) d p \<longleftrightarrow>
    (d = c \<and> p = pane) \<or> linked b d p"
  by (auto simp: linked_def subscribe_pane_subscription [OF assms])

text \<open>The last thing a new subscriber is told is its lease.\<close>

lemma subscribe_pane_effects:
  assumes "bt_get (bk_clients b) c = Some session"
  shows "\<exists>es. snd (subscribe_pane c pane access cols rows representation b) =
      es @ [Send c (PaneLease pane (lease_of (fst (subscribe_pane c pane access cols rows representation b)) c pane))]
    \<and> list_all says_nothing es"
  using assms
  by (cases access) (auto simp: subscribe_pane_def subscribe_route_def resize_for_control_def Let_def split_beta
      lease_of_def lease_holder_def split: option.splits)

lemma subscribe_pane_tells:
  assumes at: "bt_get (bk_clients b) c = Some session"
  shows "tells b (subscribe_pane c pane access cols rows representation b)"
proof (rule tells_pair, rule tellsI)
  let ?res = "subscribe_pane c pane access cols rows representation b"
  fix d p told
  assume "linked (fst ?res) d p" and before: "linked b d p \<Longrightarrow> told = Some (lease_of b d p)"
  then have new: "(d = c \<and> p = pane) \<or> linked b d p" by (simp add: subscribe_pane_linked [OF at])
  obtain es where es: "snd ?res = es @ [Send c (PaneLease pane (lease_of (fst ?res) c pane))]"
    "list_all says_nothing es"
    using subscribe_pane_effects [OF at] by blast
  have "lease_of (fst ?res) d p = lease_of b d p" if "\<not> (d = c \<and> p = pane)"
    using that by (auto simp: lease_of_def subscribe_pane_holder [OF at])
  then show "fold (hear_lease d p) (snd ?res) told = Some (lease_of (fst ?res) d p)"
    using new before es by (auto simp: fold_hear_nothing)
qed

lemma route_downgraded_tells:
  assumes wf: "broker_wf b"
  shows "tells b (route_downgraded pane b)"
proof (rule tells_pair, rule tellsI)
  fix d p told
  assume linked: "linked (fst (route_downgraded pane b)) d p"
    and before: "linked b d p \<Longrightarrow> told = Some (lease_of b d p)"
  have links: "linked b d p" using linked by (auto simp: route_downgraded_def split: option.splits if_splits)
  then obtain r where r: "bt_get (bk_routes b) p = Some r" "bs_mem d (rt_subscribers r)"
    using wf routes_upto_listed unfolding broker_wf_def by metis
  show "fold (hear_lease d p) (snd (route_downgraded pane b)) told =
      Some (lease_of (fst (route_downgraded pane b)) d p)"
    using before [OF links] r
    by (cases "p = pane") (auto simp: lease_of_def route_downgraded_holder, auto simp: route_downgraded_def
        lease_holder_def bs_mem_keys split: option.split)
qed

lemma pane_route_closed_linked:
  assumes wf: "broker_wf b"
  shows "linked (fst (pane_route_closed pane b)) d p \<longleftrightarrow> p \<noteq> pane \<and> linked b d p"
proof -
  have "\<exists>r. bt_get (bk_routes b) pane = Some r \<and> d \<in> set (bt_keys (rt_subscribers r))" if "linked b d pane"
    using that wf routes_upto_listed unfolding broker_wf_def bs_mem_keys by metis
  then show ?thesis
    by (cases "bt_get (bk_routes b) pane") (auto simp: pane_route_closed_def linked_def split: if_splits)
qed

lemma hear_closed [simp]:
  "fold (hear_lease c pane) (map (\<lambda>d. Send d (PaneClosed p)) ds) told =
     (if p = pane \<and> c \<in> set ds then None else told)"
  by (induction ds arbitrary: told) auto

lemma pane_route_closed_tells:
  assumes wf: "broker_wf b"
  shows "tells b (pane_route_closed pane b)"
proof (rule tells_pair, rule tellsI)
  fix d p told
  assume "linked (fst (pane_route_closed pane b)) d p"
    and before: "linked b d p \<Longrightarrow> told = Some (lease_of b d p)"
  then show "fold (hear_lease d p) (snd (pane_route_closed pane b)) told =
      Some (lease_of (fst (pane_route_closed pane b)) d p)"
    by (simp add: pane_route_closed_linked [OF wf] lease_of_def)
      (auto simp: pane_route_closed_def lease_of_def split: option.split)
qed

lemma close_routes_tells: "broker_wf b \<Longrightarrow> tells b (close_routes panes b)"
proof (induction panes arbitrary: b)
  case Nil
  then show ?case by (simp add: tells_silent)
next
  case (Cons pane panes)
  show ?case
    using tells_trans [OF pane_route_closed_tells [OF Cons.prems, of pane]
        Cons.IH [OF pane_route_closed_wf [OF Cons.prems, of pane]]]
    by (simp add: Let_def split_beta)
qed

lemma federation_updated_tells:
  assumes wf: "broker_wf b"
  shows "tells b (federation_updated st b)"
proof -
  let ?b = "b\<lparr>bk_state := st\<rparr>"
  let ?sends = "concat (map (\<lambda>message. broadcast_state message ?b) (federation_changes (bk_state b) st))"
  have "list_all says_nothing ?sends"
    by (auto simp: list_all_iff federation_changes_def broadcast_state_def)
  then have "tells b (?b, ?sends)" by (intro tells_silent) simp_all
  then have "tells b (fst (close_vanished_routes ?b), ?sends @ snd (close_vanished_routes ?b))"
    using tells_trans [of b "(?b, ?sends)" "close_vanished_routes ?b"] wf
    by (simp add: close_vanished_routes_def close_routes_tells)
  then show ?thesis by (simp add: federation_updated_def Let_def split_beta)
qed

lemma close_if_unclaimed_tells: "broker_wf b \<Longrightarrow> tells b (close_if_unclaimed pane b)"
  by (rule tells_pair, rule tells_silent)
    (auto simp: lease_of_def close_if_unclaimed_holder, auto simp: close_if_unclaimed_def split: option.splits if_splits)

lemma render_to_linked [simp]: "linked (fst (render_to pane r cs b)) = linked b"
  by (induction cs arbitrary: b) (simp_all add: Let_def split_beta split: option.split)

lemma render_to_says_nothing: "list_all says_nothing (snd (render_to pane r cs b))"
  by (induction cs arbitrary: b) (simp_all add: Let_def split_beta split: option.split)

lemma pane_frame_tells: "tells b (pane_frame vt pane sequence width height full bytes b)"
proof (rule tells_pair, rule tells_silent)
  let ?res = "pane_frame vt pane sequence width height full bytes b"
  have links: "linked (fst ?res) = linked b"
    by (simp add: pane_frame_def render_for_def Let_def split_beta split: option.split)
  then show "linked b c p" if "linked (fst ?res) c p" for c p using that by simp
  show "lease_of (fst ?res) c p = lease_of b c p" for c p by (simp add: lease_of_def)
  show "list_all says_nothing (snd ?res)"
    by (simp add: pane_frame_def render_for_def Let_def split_beta render_to_says_nothing list_all_iff [of _ "map _ _"]
        split: option.split)
qed

lemma ack_pane_screen_tells: "tells b (ack_pane_screen c pane sequence b)"
  by (rule tells_pair, rule tells_silent)
    (auto simp: lease_of_def, auto simp: ack_pane_screen_def Let_def split: option.splits if_splits)

lemma says_nothing_handled [simp]:
  "says_nothing (Send c (FederationStateMsg st))" "says_nothing (SendAttentionHistory c)"
  "says_nothing (Send c (AgentCards cards))" "says_nothing (Send c (ServerHello v sv fs qs))"
  "says_nothing (Send c (NotificationMsg agent title body))" "says_nothing (Send c (AttentionMsg event))"
  "says_nothing (Send c (AttentionHistory events))" "says_nothing (Disconnect c reason)"
  "says_nothing (Send c (PairingApprovalRequired a n word t))" "says_nothing (Send c (PairingDecision a ok reason))"
  "says_nothing (Send c (OperationResult q ok message plugin_run))" "says_nothing (RouteInput p bs)"
  "says_nothing (RouteScroll p dir l x y k)" "says_nothing (PastePaneTextEffect c q p words)"
  "says_nothing (BeginUploadEffect c q p mime name len)" "says_nothing (ResumeUploadEffect c q tr p len)"
  "says_nothing (BeginDownloadEffect c q p path)" "says_nothing (TransferBetweenEffect c q p path p' name)"
  by (simp_all add: says_nothing_def)

lemma with_lease_tells: "says_nothing e \<Longrightarrow> tells b (with_lease c pane e b)"
  by (auto simp: with_lease_def holds_control_def intro: tells_silent)

lemma flags_tell:
  assumes "\<And>session. cl_panes (f session) = cl_panes session" "list_all says_nothing es"
  shows "tells b (on_client c f b, es)"
proof (rule tells_silent)
  show "linked b d p" if "linked (on_client c f b) d p" for d p
    using that subscription_keep_panes [of f c b, OF assms(1)] by (simp add: linked_def)
qed (simp_all add: assms)

lemma linked_resize [simp]: "linked (on_route pane g (on_subscription c pane f b)) = linked b"
  by simp

lemma lease_of_resize [simp]:
  "lease_of (on_route pane (\<lambda>r. r\<lparr>rt_cols := cols, rt_rows := rows\<rparr>) b) = lease_of b"
  by (intro ext) (simp add: lease_of_def)

lemma resize_tells:
  "tells b (on_route pane (\<lambda>r. r\<lparr>rt_cols := cols, rt_rows := rows\<rparr>)
     (on_subscription c pane (\<lambda>s. s\<lparr>sb_cols := cols, sb_rows := rows\<rparr>) b), [RouteResize pane cols rows])"
  by (rule tells_silent) (auto simp only: linked_resize lease_of_resize lease_of_fields list.pred_inject says_nothing_simps)

lemma handle_greeted_tells:
  assumes wf: "broker_wf b" and at: "bt_get (bk_clients b) c = Some session"
  shows "tells b (handle_greeted c message b)"
proof (cases message)
  case (TransferBetween request source path destination name)
  then show ?thesis
    by (simp add: handle_greeted_def Let_def split_beta with_lease_tells)
      (simp add: holds_control_def tells_silent)
next
  case (PaneResize pane cols rows)
  then show ?thesis
    by (simp add: handle_greeted_def Let_def split_beta resize_tells) (simp add: holds_control_def tells_silent)
qed (simp_all add: handle_greeted_def subscribe_pane_tells [OF at] take_control_tells [OF wf]
    unsubscribe_tells [OF wf] ack_pane_screen_tells with_lease_tells flags_tell tells_silent refuse_def
    says_nothing_def split: option.split)

lemma handle_tells:
  assumes wf: "broker_wf b"
  shows "tells b (handle c message b)"
proof (cases "bt_get (bk_clients b) c")
  case (Some session)
  have "tells b (handle_ungreeted c message b)"
    by (cases message) (simp_all add: handle_ungreeted_def flags_tell tells_silent refuse_def)
  then show ?thesis using Some handle_greeted_tells [OF wf Some] by (simp add: handle_def)
qed (simp add: handle_def tells_silent)

lemma connect_linked:
  assumes "broker_wf b"
  shows "linked (fst (connect b)) d p \<Longrightarrow> linked b d p"
  by (auto simp: linked_def subscription_of_def client_new_def split: if_splits)

lemma agent_cards_updated_tells: "tells b (agent_cards_updated projection b)"
  by (rule tells_pair, rule tells_silent) (auto simp: agent_cards_updated_def list_all_iff split: if_splits)

lemma perform_tells:
  assumes wf: "broker_wf b"
  shows "tells b (perform vt event b)"
  by (cases event)
    (simp_all add: perform_def disconnect_tells [OF wf] handle_tells [OF wf] pane_frame_tells
      pane_route_closed_tells [OF wf] route_downgraded_tells [OF wf] close_if_unclaimed_tells [OF wf]
      federation_updated_tells [OF wf] agent_cards_updated_tells notify_devices_def attention_observed_def
      attention_changed_def pairing_approval_required_def pairing_decided_def operation_completed_def
      tells_silent broadcast_says_nothing connect_linked [OF wf] list_all_iff [of _ "map _ _"])

section \<open>A lease on an observing stream\<close>

text \<open>
  A client that subscribes to control a pane which is only observed is given the lease and
  told so, but the stream stays an observing one: nothing reopens it, and taking control
  afterwards does nothing because the lease is already held.
\<close>

theorem subscribed_control_stays_observe:
  assumes "bt_get (bk_clients b) c = Some session"
    and "bt_get (bk_routes b) pane = Some r" "rt_control r = None" "rt_access r = Observe"
  shows "(let (b', es) = subscribe_pane c pane Control cols rows representation b in
    lease_holder b' pane = Some c \<and> last es = Send c (PaneLease pane Control) \<and>
    map_option rt_access (bt_get (bk_routes b') pane) = Some Observe \<and>
    list_all (\<lambda>e. \<forall>p access w h. e \<noteq> OpenRoute p access w h) es \<and>
    take_control c pane only_if_free b' = (b', []))"
proof -
  let ?b = "fst (subscribe_pane c pane Control cols rows representation b)"
  have "linked ?b c pane" by (simp add: subscribe_pane_linked [OF assms(1)])
  then obtain session' where "bt_get (bk_clients ?b) c = Some session'" "bt_get (cl_panes session') pane \<noteq> None"
    by (auto simp: linked_def subscription_of_def split: bind_splits)
  moreover have "map_option (\<lambda>r. (rt_control r, rt_access r)) (bt_get (bk_routes ?b) pane) = Some (Some c, Observe)"
    using assms by (auto simp: subscribe_pane_def subscribe_route_def resize_for_control_def Let_def split_beta
        split: option.split)
  then obtain r' where r': "bt_get (bk_routes ?b) pane = Some r'" "rt_control r' = Some c" "rt_access r' = Observe"
    by auto
  ultimately have "take_control c pane only_if_free ?b = (?b, [])"
    by (auto simp: take_control_def split: option.splits)
  moreover have "last (snd (subscribe_pane c pane Control cols rows representation b)) = Send c (PaneLease pane Control) \<and>
      list_all (\<lambda>e. \<forall>p access w h. e \<noteq> OpenRoute p access w h)
        (snd (subscribe_pane c pane Control cols rows representation b))"
    using assms by (auto simp: subscribe_pane_def subscribe_route_def resize_for_control_def Let_def split_beta
        split: option.split)
  ultimately show ?thesis using r' by (simp add: Let_def split_beta lease_holder_def)
qed

abbreviation observed_broker :: "line_terminal broker" where
  "observed_broker \<equiv> fst (run line_vt
     [Connected, Received 0 (ClientHello 3 []), Received 0 (SubscribePane shared_pane Observe 2 1 Frames),
      Connected, Received 1 (ClientHello 3 [])] (broker_new [] [] []))"

theorem subscribed_control_stays_observe_witness:
  "let (b', es) = subscribe_pane 1 shared_pane Control 4 2 Frames observed_broker in
     lease_holder b' shared_pane = Some 1 \<and>
     map_option rt_access (bt_get (bk_routes b') shared_pane) = Some Observe"
proof -
  have "map_option (\<lambda>r. (rt_control r, rt_access r)) (bt_get (bk_routes observed_broker) shared_pane) = Some (None, Observe)"
    "bt_get (bk_clients observed_broker) 1 \<noteq> None" by code_simp+
  then obtain r session where "bt_get (bk_routes observed_broker) shared_pane = Some r" "rt_control r = None"
    "rt_access r = Observe" "bt_get (bk_clients observed_broker) 1 = Some session" by auto
  from subscribed_control_stays_observe [OF this(4,1,2,3), of 4 2 Frames False] show ?thesis
    by (simp add: Let_def split_beta)
qed

end
