(* ===== verification/Broker_Viewers.thy ===== *)
theory Broker_Viewers
  imports Broker_Told
begin

text \<open>
  What the clients see, as a second ghost component: the screen each viewer has built from the
  whole screens and the diffs it was sent with \<open>Snapshot::apply\<close> of \<open>src/src/screen.rs\<close>. A
  viewer is torn when it is sent a diff it cannot apply. In every reachable state no viewer
  is torn, and one the daemon counts as up to date shows exactly the pane's screen.
\<close>

section \<open>Viewers\<close>

datatype viewer = NoScreen | Shows snapshot | Torn

definition show_diff :: "diff \<Rightarrow> viewer \<Rightarrow> viewer" where
  "show_diff d v = (case v of
     Shows held \<Rightarrow> (case snapshot_apply held d of (held', Inr _) \<Rightarrow> Shows held' | (_, Inl _) \<Rightarrow> Torn)
   | _ \<Rightarrow> Torn)"

definition hear_screen :: "client_id \<Rightarrow> pane_id \<Rightarrow> effect \<Rightarrow> viewer \<Rightarrow> viewer" where
  "hear_screen c pane e v = (case e of
     Send d m \<Rightarrow> if d \<noteq> c then v else (case m of
       PaneScreen p screen \<Rightarrow> if p = pane then Shows screen else v
     | PaneScreenDiff p diff \<Rightarrow> if p = pane then show_diff diff v else v
     | PaneClosed p \<Rightarrow> if p = pane then NoScreen else v
     | _ \<Rightarrow> v)
   | _ \<Rightarrow> v)"

text \<open>What a subscription's record promises about the viewer and the screen.\<close>

definition record_ok :: "pane_subscription \<Rightarrow> 'p screen_state option \<Rightarrow> viewer \<Rightarrow> bool" where
  "record_ok s screen v \<longleftrightarrow> (case sb_sent s of
     None \<Rightarrow> sb_outstanding s = []
   | Some sent \<Rightarrow> sb_representation s = ScreenRepresentation \<and>
       sorted_wrt (<) (sb_outstanding s) \<and> (\<forall>n \<in> set (sb_outstanding s). n \<le> sent) \<and>
       (\<exists>st held. screen = Some st \<and> v = Shows held \<and> sn_sequence held = sent \<and>
          sent \<le> sn_sequence (ss_last st) \<and> (sent = sn_sequence (ss_last st) \<longrightarrow> held = ss_last st)))"

definition seen_ok :: "'p broker \<Rightarrow> client_id \<Rightarrow> pane_id \<Rightarrow> viewer \<Rightarrow> bool" where
  "seen_ok b c pane v \<longleftrightarrow> v \<noteq> Torn \<and>
     (\<forall>s. subscription_of b c pane = Some s \<longrightarrow> record_ok s (bt_get (bk_screens b) pane) v)"

definition screens_ok :: "'p broker \<Rightarrow> bool" where
  "screens_ok b \<longleftrightarrow> (\<forall>pane st. bt_get (bk_screens b) pane = Some st \<longrightarrow> snapshot_wf (ss_last st))"

definition shows_to :: "'p broker \<Rightarrow> 'p step_result \<Rightarrow> bool" where
  "shows_to b res \<longleftrightarrow> (\<forall>c pane v. seen_ok b c pane v \<longrightarrow>
     seen_ok (fst res) c pane (fold (hear_screen c pane) (snd res) v))"

lemma shows_toI:
  "(\<And>c pane v. seen_ok b c pane v \<Longrightarrow> seen_ok b' c pane (fold (hear_screen c pane) es v)) \<Longrightarrow> shows_to b (b', es)"
  by (simp add: shows_to_def)

lemma shows_to_pair: "shows_to b (fst res, snd res) \<Longrightarrow> shows_to b res"
  by simp

lemma shows_to_trans:
  "shows_to b res \<Longrightarrow> shows_to (fst res) res' \<Longrightarrow> shows_to b (fst res', snd res @ snd res')"
  by (simp add: shows_to_def)

text \<open>Effects that show nothing.\<close>

definition paints_nothing :: "effect \<Rightarrow> bool" where
  "paints_nothing e \<longleftrightarrow> (case e of
     Send _ m \<Rightarrow> (case m of PaneScreen _ _ \<Rightarrow> False | PaneScreenDiff _ _ \<Rightarrow> False | PaneClosed _ \<Rightarrow> False
       | _ \<Rightarrow> True) | _ \<Rightarrow> True)"

lemma paint_nothing [simp]: "paints_nothing e \<Longrightarrow> hear_screen c pane e v = v"
  by (auto simp: paints_nothing_def hear_screen_def split: effect.splits server_message.splits)

lemma fold_paint_nothing: "list_all paints_nothing es \<Longrightarrow> fold (hear_screen c pane) es v = v"
  by (induction es) auto

lemma hear_screen_simps [simp]:
  "hear_screen c pane (Send d (PaneScreen p screen)) v = (if d = c \<and> p = pane then Shows screen else v)"
  "hear_screen c pane (Send d (PaneScreenDiff p diff)) v = (if d = c \<and> p = pane then show_diff diff v else v)"
  "hear_screen c pane (Send d (PaneClosed p)) v = (if d = c \<and> p = pane then NoScreen else v)"
  by (simp_all add: hear_screen_def)

lemma paints_nothing_simps [simp]:
  "paints_nothing (CloseRoute p)" "paints_nothing (OpenRoute p a w h)" "paints_nothing (RouteResize p w h)"
  "paints_nothing (RouteUnclaimed p)" "paints_nothing (Send c (PaneLease p a))"
  "paints_nothing (Send c (PaneFrame p n w h f bs))" "paints_nothing (Send c (ErrorMsg q e))"
  "paints_nothing (Send c (TargetStateMsg k t))"
  by (simp_all add: paints_nothing_def)

lemma shows_silent:
  assumes "list_all paints_nothing es"
    and same: "\<And>c pane s v. subscription_of b' c pane = Some s \<Longrightarrow> seen_ok b c pane v \<Longrightarrow>
      \<exists>s0. subscription_of b c pane = Some s0 \<and>
        (sb_sent s, sb_outstanding s, sb_representation s) = (sb_sent s0, sb_outstanding s0, sb_representation s0) \<and>
        (sb_sent s0 \<noteq> None \<longrightarrow> bt_get (bk_screens b') pane = bt_get (bk_screens b) pane)"
  shows "shows_to b (b', es)"
proof (rule shows_toI)
  fix c pane v
  assume seen: "seen_ok b c pane v"
  have "record_ok s (bt_get (bk_screens b') pane) v" if s: "subscription_of b' c pane = Some s" for s
  proof -
    obtain s0 where s0: "subscription_of b c pane = Some s0"
      "(sb_sent s, sb_outstanding s, sb_representation s) = (sb_sent s0, sb_outstanding s0, sb_representation s0)"
      "sb_sent s0 \<noteq> None \<Longrightarrow> bt_get (bk_screens b') pane = bt_get (bk_screens b) pane"
      using same [OF s seen] by blast
    have "record_ok s0 (bt_get (bk_screens b) pane) v" using seen s0(1) by (simp add: seen_ok_def)
    then show ?thesis using s0 by (cases "sb_sent s0") (simp_all add: record_ok_def)
  qed
  then show "seen_ok b' c pane (fold (hear_screen c pane) es v)"
    using seen by (simp add: fold_paint_nothing [OF assms(1)] seen_ok_def)
qed

lemma shows_same:
  assumes "list_all paints_nothing es"
    and "\<And>c pane s. subscription_of b' c pane = Some s \<Longrightarrow> subscription_of b c pane = Some s"
    and "bk_screens b' = bk_screens b"
  shows "shows_to b (b', es)"
  by (rule shows_silent [OF assms(1)]) (simp add: assms(2,3))

text \<open>A screen nobody watches can be dropped.\<close>

lemma record_watched: "record_ok s screen v \<Longrightarrow> sb_sent s \<noteq> None \<Longrightarrow> sb_representation s = ScreenRepresentation"
  by (auto simp: record_ok_def)

lemma watched_subscriber:
  assumes "routes_upto P b" "subscription_of b c pane = Some s" "sb_representation s = ScreenRepresentation"
  obtains r where "bt_get (bk_routes b) pane = Some r" "c \<in> set (screen_subscribers b pane r)"
proof -
  have "linked b c pane" using assms(2) by (simp add: linked_def)
  then obtain r where "bt_get (bk_routes b) pane = Some r" "bs_mem c (rt_subscribers r)"
    using routes_upto_listed [OF assms(1)] by blast
  then show ?thesis
    using assms(2,3) that by (auto simp: screen_subscribers_def representation_of_def bs_mem_keys)
qed

lemma drop_unwatched_shows:
  assumes wf: "routes_upto P b" and "list_all paints_nothing es"
    and "\<And>r. bt_get (bk_routes b) pane = Some r \<Longrightarrow> screen_subscribers b pane r = []"
  shows "shows_to b (drop_screen pane b, es)"
proof (rule shows_silent [OF assms(2)], intro exI conjI)
  fix c p s v
  assume s: "subscription_of (drop_screen pane b) c p = Some s" and seen: "seen_ok b c p v"
  show "subscription_of b c p = Some s" using s by simp
  show "sb_sent s \<noteq> None \<longrightarrow> bt_get (bk_screens (drop_screen pane b)) p = bt_get (bk_screens b) p"
  proof
    assume "sb_sent s \<noteq> None"
    then have "sb_representation s = ScreenRepresentation"
      using s seen record_watched by (auto simp: seen_ok_def)
    with s assms(3) have "p \<noteq> pane" using watched_subscriber [OF wf, of c p s] by fastforce
    then show "bt_get (bk_screens (drop_screen pane b)) p = bt_get (bk_screens b) p" by simp
  qed
qed simp

section \<open>Every operation keeps the viewers whole\<close>

lemma screen_subscribers_routes [simp]:
  "screen_subscribers (b\<lparr>bk_routes := rs\<rparr>) pane r = screen_subscribers b pane r"
  by (simp add: screen_subscribers_def representation_of_def)

lemma release_pane_screen:
  assumes gone: "\<not> linked b c pane"
  shows "bk_screens (fst (release_pane c pane b)) = bk_screens b \<or>
    bk_screens (fst (release_pane c pane b)) = bt_remove pane (bk_screens b) \<and>
    (\<forall>r. bt_get (bk_routes b) pane = Some r \<longrightarrow> screen_subscribers b pane r = [])"
proof -
  have "representation_of b c pane = Frames" using gone by (simp add: representation_of_def linked_def)
  then have "screen_subscribers b pane (r\<lparr>rt_subscribers := bs_remove c (rt_subscribers r)\<rparr>) = [] \<Longrightarrow>
      screen_subscribers b pane r = []" for r
    by (auto simp: screen_subscribers_def filter_empty_conv bs_mem_keys [symmetric])
  then show ?thesis
    by (auto simp: release_pane_def Let_def release_screen_if_unwatched_def split: option.split)
qed

lemma release_pane_paints: "list_all paints_nothing (snd (release_pane c pane b))"
  by (auto simp: release_pane_def Let_def list_all_iff split: option.split)

lemma release_pane_shows:
  assumes wf: "routes_upto P b" and gone: "\<not> linked b c pane"
  shows "shows_to b (release_pane c pane b)"
  using release_pane_screen [OF gone]
proof
  assume "bk_screens (fst (release_pane c pane b)) = bk_screens b"
  then show ?thesis
    by (intro shows_to_pair [OF shows_same]) (simp_all add: release_pane_paints)
next
  assume dropped: "bk_screens (fst (release_pane c pane b)) = bt_remove pane (bk_screens b) \<and>
    (\<forall>r. bt_get (bk_routes b) pane = Some r \<longrightarrow> screen_subscribers b pane r = [])"
  have "shows_to b (drop_screen pane b, [])"
    by (rule drop_unwatched_shows [OF wf]) (use dropped in simp_all)
  moreover have "shows_to (drop_screen pane b) (fst (release_pane c pane b), snd (release_pane c pane b))"
    by (rule shows_same) (use dropped in \<open>simp_all add: release_pane_paints\<close>)
  ultimately show ?thesis using shows_to_trans [of b "(drop_screen pane b, [])"] by fastforce
qed

lemma release_panes_shows:
  assumes "routes_upto P b" "\<And>p. \<not> linked b c p"
  shows "shows_to b (release_panes c panes b)"
  using assms
proof (induction panes arbitrary: P b)
  case Nil
  then show ?case by (simp add: shows_same)
next
  case (Cons pane panes)
  have "shows_to (fst (release_pane c pane b)) (release_panes c panes (fst (release_pane c pane b)))"
    by (rule Cons.IH [OF release_pane_upto [OF Cons.prems]]) (simp add: Cons.prems)
  from shows_to_trans [OF release_pane_shows [OF Cons.prems] this] show ?case
    by (simp add: Let_def split_beta)
qed

lemma shows_after:
  assumes "shows_to b1 res" "\<And>c pane s. subscription_of b1 c pane = Some s \<Longrightarrow> subscription_of b c pane = Some s"
    "bk_screens b1 = bk_screens b"
  shows "shows_to b res"
  using shows_to_trans [OF shows_same, of "[]" b1 b res] assms by simp

lemma disconnect_shows:
  assumes wf: "broker_wf b"
  shows "shows_to b (disconnect c b)"
proof (cases "bt_get (bk_clients b) c")
  case (Some session)
  have "shows_to b (release_panes c (bt_keys (cl_panes session)) (b\<lparr>bk_clients := bt_remove c (bk_clients b)\<rparr>))"
    by (rule shows_after [OF release_panes_shows [OF departing(3,2) [OF wf Some]]])
      (auto simp: subscription_of_def split: bind_splits if_splits)
  then show ?thesis using Some by (simp add: disconnect_def)
qed (simp add: disconnect_def shows_same)

lemma unsubscribe_shows:
  assumes wf: "broker_wf b"
  shows "shows_to b (release_pane c pane (forget_pane pane c b))"
proof (rule shows_after)
  have "routes_upto (\<lambda>c' p. (c' = c \<and> p = pane) \<and> linked b c pane) (forget_pane pane c b)"
    using wf by (auto simp: broker_wf_def routes_upto_def listed_def linked_def)
  then show "shows_to (forget_pane pane c b) (release_pane c pane (forget_pane pane c b))"
    by (rule release_pane_shows) (simp add: linked_def)
qed (auto split: if_splits)

lemma take_control_shows: "shows_to b (take_control c pane only_if_free b)"
  by (rule shows_to_pair, rule shows_same)
    (auto simp: take_control_def Let_def resize_for_control_def split_beta split: option.splits if_splits)

lemma route_downgraded_shows: "shows_to b (route_downgraded pane b)"
  by (rule shows_to_pair, rule shows_same)
    (auto simp: route_downgraded_def list_all_iff split: option.splits if_splits)

lemma subscribe_pane_shows:
  assumes at: "bt_get (bk_clients b) c = Some session"
  shows "shows_to b (subscribe_pane c pane access cols rows representation b)"
proof (rule shows_to_pair, rule shows_toI)
  let ?res = "subscribe_pane c pane access cols rows representation b"
  fix d p v
  assume seen: "seen_ok b d p v"
  have screens: "bk_screens (fst ?res) = bk_screens b"
    using at by (simp add: subscribe_pane_def Let_def split_beta split: option.split)
  have heard: "fold (hear_screen d p) (snd ?res) v =
      (case bt_get (bk_screens b) pane of
         Some st \<Rightarrow> if d = c \<and> p = pane \<and> representation = ScreenRepresentation then Shows (ss_last st) else v
       | None \<Rightarrow> v)"
    using at by (auto simp: subscribe_pane_def subscribe_route_def resize_for_control_def Let_def split_beta
        split: option.split)
  show "seen_ok (fst ?res) d p (fold (hear_screen d p) (snd ?res) v)"
    using seen unfolding heard
    by (auto simp: seen_ok_def screens subscribe_pane_subscription [OF at] joined_def record_ok_def Let_def
        split: option.splits if_splits)
qed

lemma fold_closed:
  "fold (hear_screen c pane) (map (\<lambda>d. Send d (PaneClosed p)) ds) v =
     (if p = pane \<and> c \<in> set ds then NoScreen else v)"
  by (induction ds arbitrary: v) auto

lemma pane_route_closed_shows:
  assumes wf: "broker_wf b"
  shows "shows_to b (pane_route_closed pane b)"
proof (cases "bt_get (bk_routes b) pane")
  case (Some r)
  show ?thesis
  proof (rule shows_to_pair, rule shows_toI)
    fix d p v
    assume seen: "seen_ok b d p v"
    have gone: "subscription_of (fst (pane_route_closed pane b)) d pane = None"
      using pane_route_closed_linked [OF wf, of pane d pane] by (simp add: linked_def)
    show "seen_ok (fst (pane_route_closed pane b)) d p (fold (hear_screen d p) (snd (pane_route_closed pane b)) v)"
    proof (cases "p = pane")
      case True
      then show ?thesis using seen gone Some by (simp add: seen_ok_def) (simp add: pane_route_closed_def fold_closed)
    next
      case False
      then show ?thesis using seen Some by (simp add: seen_ok_def pane_route_closed_def fold_closed)
    qed
  qed
qed (simp add: pane_route_closed_def shows_same)

lemma close_routes_shows: "broker_wf b \<Longrightarrow> shows_to b (close_routes panes b)"
proof (induction panes arbitrary: b)
  case Nil
  then show ?case by (simp add: shows_same)
next
  case (Cons pane panes)
  show ?case
    using shows_to_trans [OF pane_route_closed_shows [OF Cons.prems, of pane]
        Cons.IH [OF pane_route_closed_wf [OF Cons.prems, of pane]]]
    by (simp add: Let_def split_beta)
qed

lemma federation_updated_shows:
  assumes wf: "broker_wf b"
  shows "shows_to b (federation_updated st b)"
proof -
  let ?b = "b\<lparr>bk_state := st\<rparr>"
  let ?sends = "concat (map (\<lambda>message. broadcast_state message ?b) (federation_changes (bk_state b) st))"
  have "list_all paints_nothing ?sends"
    by (auto simp: list_all_iff federation_changes_def broadcast_state_def)
  then have "shows_to b (?b, ?sends)" by (intro shows_same) simp_all
  then have "shows_to b (fst (close_vanished_routes ?b), ?sends @ snd (close_vanished_routes ?b))"
    using shows_to_trans [of b "(?b, ?sends)" "close_vanished_routes ?b"] wf
    by (simp add: close_vanished_routes_def close_routes_shows)
  then show ?thesis by (simp add: federation_updated_def Let_def split_beta)
qed

lemma close_if_unclaimed_shows:
  assumes wf: "broker_wf b"
  shows "shows_to b (close_if_unclaimed pane b)"
proof (cases "\<exists>r. bt_get (bk_routes b) pane = Some r \<and> rt_unclaimed r")
  case True
  then obtain r where r: "bt_get (bk_routes b) pane = Some r" "rt_unclaimed r" by blast
  have upto: "routes_upto (\<lambda>_ _. False) b" using wf by (simp add: broker_wf_def)
  have "screen_subscribers b pane r = []"
    using routes_uptoD(2) [OF upto r(1)] r(2) by (simp add: route_ok_def screen_subscribers_def)
  then have "shows_to b (drop_screen pane b, [CloseRoute pane])"
    using r(1) by (intro drop_unwatched_shows [OF upto]) simp_all
  then have "shows_to b (drop_screen pane (b\<lparr>bk_routes := bt_remove pane (bk_routes b)\<rparr>), [CloseRoute pane])"
    by (simp add: shows_to_def seen_ok_def)
  then show ?thesis using r by (simp add: close_if_unclaimed_def)
qed (auto simp: close_if_unclaimed_def shows_same split: option.split)

section \<open>Rendering a frame\<close>

text \<open>Each subscriber of the list is sent at most one update, from its own record.\<close>

lemma render_to_subscription:
  "distinct cs \<Longrightarrow> subscription_of (fst (render_to pane r cs b)) c p =
     (if p = pane \<and> c \<in> set cs
      then map_option (\<lambda>s. if wants_update r s then note_sent r s else s) (subscription_of b c p)
      else subscription_of b c p)"
  by (induction cs arbitrary: b) (auto simp: Let_def split_beta split: option.split)

lemma render_to_screens [simp]: "bk_screens (fst (render_to pane r cs b)) = bk_screens b"
  by (induction cs arbitrary: b) (simp_all add: Let_def split_beta split: option.split)

lemma hear_update:
  "hear_screen c p (Send d (update_for s pane r)) v =
     (if d = c \<and> p = pane then hear_screen c pane (Send c (update_for s pane r)) v else v)"
  by (auto simp: update_for_def split: option.split)

lemma render_to_heard:
  "distinct cs \<Longrightarrow> fold (hear_screen c p) (snd (render_to pane r cs b)) v =
     (if p = pane \<and> c \<in> set cs
      then (case subscription_of b c pane of
              Some s \<Rightarrow> if wants_update r s then hear_screen c pane (Send c (update_for s pane r)) v else v
            | None \<Rightarrow> v)
      else v)"
proof (induction cs arbitrary: b v)
  case (Cons d ds)
  show ?case
  proof (cases "subscription_of b d pane")
    case None
    then show ?thesis using Cons by (auto split: option.split)
  next
    case (Some s)
    then show ?thesis
      using Cons hear_update [of c p d s pane r v] by (auto simp: Let_def split_beta split: option.split)
  qed
qed simp

text \<open>What the emulator makes of a frame: the sequence moves on exactly when something
  changed, and a diff leads from the last screen to this one.\<close>

lemma screen_advance_cases:
  assumes "screen_advance vt width height full bytes st0 = (st, r)"
  obtains (quiet) "ss_last st = ss_last st0" "rd_screen r = ss_last st0" "rd_diff r = None" "\<not> rd_changed r"
  | (moved) parser where "ss_last st = snapshot_of vt parser (sn_sequence (ss_last st0) + 1)"
      "rd_screen r = ss_last st" "rd_diff r = diff_between (ss_last st0) (ss_last st)" "rd_changed r"
proof -
  define parser where "parser = vt_process vt bytes
    (if full \<or> fst (vt_size vt (ss_parser st0)) \<noteq> height \<or> snd (vt_size vt (ss_parser st0)) \<noteq> width
     then vt_new vt height width else ss_parser st0)"
  define screen where "screen = snapshot_of vt parser (sn_sequence (ss_last st0) + 1)"
  define same where "same \<longleftrightarrow> sn_width screen = sn_width (ss_last st0) \<and>
    sn_height screen = sn_height (ss_last st0) \<and> sn_rows screen = sn_rows (ss_last st0) \<and>
    sn_cursor screen = sn_cursor (ss_last st0)"
  have adv: "(st, r) =
      (if same then (\<lparr>ss_parser = parser, ss_last = ss_last st0\<rparr>,
             \<lparr>rd_screen = ss_last st0, rd_diff = None, rd_changed = False\<rparr>)
       else (\<lparr>ss_parser = parser, ss_last = screen\<rparr>,
             \<lparr>rd_screen = screen, rd_diff = diff_between (ss_last st0) screen, rd_changed = True\<rparr>))"
    unfolding assms [symmetric] same_def screen_def screen_advance_def Let_def split_beta parser_def ..
  show ?thesis
  proof (cases same)
    case True
    then show ?thesis using adv quiet by simp
  next
    case False
    then show ?thesis using adv moved [of parser] by (simp add: screen_def)
  qed
qed

lemma diff_between_follows: "diff_between s t = Some d \<Longrightarrow> df_follows d = sn_sequence s"
  by (auto simp: diff_between_def split: if_splits)

lemma screen_advance_facts:
  assumes "screen_advance vt width height full bytes st0 = (st, r)" "sn_sequence (ss_last st0) \<noteq> - 1"
  shows "rd_screen r = ss_last st"
    and "rd_changed r \<Longrightarrow> sn_sequence (ss_last st0) < sn_sequence (ss_last st)"
    and "\<not> rd_changed r \<Longrightarrow> ss_last st = ss_last st0 \<and> rd_diff r = None"
    and "snapshot_wf (ss_last st0) \<Longrightarrow> snapshot_wf (ss_last st)"
    and "snapshot_wf (ss_last st0) \<Longrightarrow> rd_diff r = Some d \<Longrightarrow>
      df_follows d = sn_sequence (ss_last st0) \<and> snapshot_apply (ss_last st0) d = (ss_last st, Inr ())"
proof -
  note cases = screen_advance_cases [OF assms(1)]
  show "rd_screen r = ss_last st" by (rule cases) simp_all
  show "rd_changed r \<Longrightarrow> sn_sequence (ss_last st0) < sn_sequence (ss_last st)"
    using word_Suc_greater [OF assms(2)] by - (rule cases, simp_all)
  show "\<not> rd_changed r \<Longrightarrow> ss_last st = ss_last st0 \<and> rd_diff r = None" by (rule cases) simp_all
  show wf: "snapshot_wf (ss_last st)" if "snapshot_wf (ss_last st0)"
    using that by - (rule cases, simp_all add: snapshot_of_wf)
  show "df_follows d = sn_sequence (ss_last st0) \<and> snapshot_apply (ss_last st0) d = (ss_last st, Inr ())"
    if "snapshot_wf (ss_last st0)" "rd_diff r = Some d"
  proof (rule cases)
    assume "rd_diff r = diff_between (ss_last st0) (ss_last st)"
    then have d: "diff_between (ss_last st0) (ss_last st) = Some d" using that by simp
    show ?thesis using diff_between_follows [OF d] diff_between_applies [OF that(1) wf [OF that(1)] d] by simp
  qed (use that in simp)
qed

text \<open>One viewer of the pane and one frame: its record is kept or it is sent the update.\<close>

lemma record_skipped:
  assumes adv: "screen_advance vt width height full bytes st0 = (st, r)" "sn_sequence (ss_last st0) \<noteq> - 1"
    and old: "record_ok s screen v" "screen = None \<or> screen = Some st0" and skip: "\<not> wants_update r s"
  shows "record_ok s (Some st) v"
proof (cases "sb_sent s")
  case (Some sent)
  note facts = screen_advance_facts [OF adv]
  have before: "sent \<le> sn_sequence (ss_last st0)" using old Some by (auto simp: record_ok_def)
  show ?thesis
  proof (cases "rd_changed r")
    case True
    have "sent < sn_sequence (ss_last st)" using before facts(2) [OF True] by simp
    then show ?thesis using old Some by (auto simp: record_ok_def)
  next
    case False
    then show ?thesis using facts(3) old Some by (auto simp: record_ok_def)
  qed
qed (use old in \<open>auto simp: record_ok_def\<close>)

lemma record_updated:
  assumes adv: "screen_advance vt width height full bytes st0 = (st, r)" "sn_sequence (ss_last st0) \<noteq> - 1"
    and old: "record_ok s screen v" "screen = None \<or> screen = Some st0" and wf: "snapshot_wf (ss_last st0)"
    and wants: "wants_update r s" and rep: "sb_representation s = ScreenRepresentation"
  shows "hear_screen c pane (Send c (update_for s pane r)) v = Shows (ss_last st)"
    and "record_ok (note_sent r s) (Some st) (Shows (ss_last st))"
proof -
  note facts = screen_advance_facts [OF adv]
  show "hear_screen c pane (Send c (update_for s pane r)) v = Shows (ss_last st)"
  proof (cases "\<exists>d. rd_diff r = Some d \<and> sb_sent s = Some (df_follows d)")
    case True
    then obtain d where d: "rd_diff r = Some d" "sb_sent s = Some (df_follows d)" by blast
    note apply_d = facts(5) [OF wf d(1)]
    then have "v = Shows (ss_last st0)" using old d(2) by (auto simp: record_ok_def)
    then show ?thesis using d apply_d by (simp add: update_for_def show_diff_def)
  next
    case False
    then show ?thesis using facts(1) by (auto simp: update_for_def split: option.split)
  qed
  have fresh: "sent < sn_sequence (ss_last st)" if "sb_sent s = Some sent" for sent
  proof -
    have "sent \<le> sn_sequence (ss_last st0)" using old that by (auto simp: record_ok_def)
    then show ?thesis
      using facts(1,2,3) wants that by (cases "rd_changed r") (auto simp: wants_update_def)
  qed
  have "sorted_wrt (<) (sb_outstanding s @ [sn_sequence (ss_last st)]) \<and>
      (\<forall>n \<in> set (sb_outstanding s). n \<le> sn_sequence (ss_last st))"
    using old(1) fresh by (cases "sb_sent s") (auto simp: record_ok_def sorted_wrt_append less_imp_le
        dest: order.strict_trans1)
  then show "record_ok (note_sent r s) (Some st) (Shows (ss_last st))"
    using rep facts(1) by (simp add: record_ok_def note_sent_def)
qed

lemma screen_state_new_last [simp]:
  "sn_sequence (ss_last (screen_state_new vt width height)) = 0"
  "snapshot_wf (ss_last (screen_state_new vt width height))"
  by (simp_all add: screen_state_new_def Let_def snapshot_of_wf)

lemma render_for_shows:
  assumes wf: "broker_wf b" and ok: "screens_ok b" and r: "bt_get (bk_routes b) pane = Some r"
    and room: "\<And>st. bt_get (bk_screens b) pane = Some st \<Longrightarrow> sn_sequence (ss_last st) \<noteq> - 1"
  shows "shows_to b (render_for vt pane width height full bytes (screen_subscribers b pane r) b)"
proof -
  define st0 where "st0 = unwrap_or (screen_state_new vt width height) (bt_get (bk_screens b) pane)"
  obtain st rd where adv: "screen_advance vt width height full bytes st0 = (st, rd)" by fastforce
  have st0: "sn_sequence (ss_last st0) \<noteq> - 1" "snapshot_wf (ss_last st0)"
    using room ok by (cases "bt_get (bk_screens b) pane"; simp add: st0_def screens_ok_def)+
  have held: "bt_get (bk_screens b) pane = None \<or> bt_get (bk_screens b) pane = Some st0"
    by (cases "bt_get (bk_screens b) pane") (simp_all add: st0_def)
  let ?cs = "screen_subscribers b pane r"
  let ?b = "b\<lparr>bk_screens := bt_insert pane st (bk_screens b)\<rparr>"
  have res: "render_for vt pane width height full bytes ?cs b = render_to pane rd ?cs ?b"
    by (simp add: render_for_def Let_def st0_def [symmetric] adv)
  have distinct: "distinct ?cs" by (simp add: screen_subscribers_def)
  have "shows_to b (fst (render_to pane rd ?cs ?b), snd (render_to pane rd ?cs ?b))"
  proof (rule shows_toI)
    fix c p v
    assume seen: "seen_ok b c p v"
    show "seen_ok (fst (render_to pane rd ?cs ?b)) c p (fold (hear_screen c p) (snd (render_to pane rd ?cs ?b)) v)"
    proof (cases "p = pane \<and> subscription_of b c pane \<noteq> None")
      case True
      then obtain s where p: "p = pane" and s: "subscription_of b c pane = Some s" by auto
      have old: "record_ok s (bt_get (bk_screens b) pane) v" using seen s p by (simp add: seen_ok_def)
      have upto: "routes_upto (\<lambda>_ _. False) b" using wf by (simp add: broker_wf_def)
      have watched: "c \<in> set ?cs \<longleftrightarrow> sb_representation s = ScreenRepresentation"
        using watched_subscriber [OF upto s] r s
        by (auto simp: screen_subscribers_def representation_of_def)
      show ?thesis
      proof (cases "c \<in> set ?cs \<and> wants_update rd s")
        case True
        then show ?thesis
          using record_updated(1) [OF adv st0(1) old held st0(2), of c pane]
            record_updated(2) [OF adv st0(1) old held st0(2)] watched s p
          by (simp add: seen_ok_def render_to_subscription [OF distinct] render_to_heard [OF distinct])
      next
        case False
        have "record_ok s (Some st) v"
        proof (cases "sb_representation s = ScreenRepresentation")
          case True
          then show ?thesis
            using record_skipped [OF adv st0(1) old held] False watched by simp
        next
          case other: False
          then show ?thesis using old by (auto simp: record_ok_def split: option.splits)
        qed
        then show ?thesis
          using False s p seen
          by (auto simp: seen_ok_def render_to_subscription [OF distinct] render_to_heard [OF distinct])
      qed
    next
      case False
      then show ?thesis
        using seen by (auto simp: seen_ok_def render_to_subscription [OF distinct] render_to_heard [OF distinct])
    qed
  qed
  then show ?thesis by (simp add: res)
qed

lemma pane_frame_shows:
  assumes wf: "broker_wf b" and ok: "screens_ok b"
    and room: "\<And>st. bt_get (bk_screens b) pane = Some st \<Longrightarrow> sn_sequence (ss_last st) \<noteq> - 1"
  shows "shows_to b (pane_frame vt pane sequence width height full bytes b)"
proof (cases "bt_get (bk_routes b) pane")
  case (Some r)
  let ?sends = "map (\<lambda>c. Send c (PaneFrame pane sequence width height full bytes))
    (filter (\<lambda>c. representation_of b c pane \<noteq> ScreenRepresentation) (bt_keys (rt_subscribers r)))"
  have quiet: "list_all paints_nothing ?sends" by (simp add: list_all_iff)
  have upto: "routes_upto (\<lambda>_ _. False) b" using wf by (simp add: broker_wf_def)
  have dropped: "shows_to b (drop_screen pane b, ?sends)" if "screen_subscribers b pane r = []"
    by (rule drop_unwatched_shows [OF upto quiet]) (use that Some in simp)
  have "shows_to b (b, ?sends)" by (rule shows_same [OF quiet]) simp_all
  then have "shows_to b (fst (render_for vt pane width height full bytes (screen_subscribers b pane r) b),
      ?sends @ snd (render_for vt pane width height full bytes (screen_subscribers b pane r) b))"
    using shows_to_trans [of b "(b, ?sends)"] render_for_shows [OF wf ok Some room] by simp
  then show ?thesis using Some dropped by (simp add: pane_frame_def Let_def split_beta)
qed (simp add: pane_frame_def shows_same)

section \<open>Acknowledgements\<close>

text \<open>The queue is increasing, so an acknowledgement of something in it makes room.\<close>

lemma settle_makes_room:
  assumes "sorted_wrt (<) (xs :: u64 list)" "n \<in> set xs"
  shows "length (dropWhile (\<lambda>held. held \<le> n) xs) < length xs"
  using assms by (cases xs) (auto simp: less_Suc_eq_le length_dropWhile_le less_imp_le)

lemma record_settled:
  "record_ok s screen v \<Longrightarrow> record_ok (s\<lparr>sb_outstanding := dropWhile P (sb_outstanding s)\<rparr>) screen v"
  by (auto simp: record_ok_def sorted_wrt_dropWhile dest: set_dropWhileD split: option.splits)

lemma record_caught_up:
  assumes "record_ok s (Some st) v" "sb_sent s \<noteq> None" "sb_sent s \<noteq> Some (sn_sequence (ss_last st))"
    and "rd_screen r = ss_last st"
  shows "record_ok (note_sent r s) (Some st) (Shows (ss_last st))"
proof -
  obtain sent where sent: "sb_sent s = Some sent" using assms(2) by blast
  then have "sent < sn_sequence (ss_last st)" using assms(1,3) by (auto simp: record_ok_def)
  then show ?thesis
    using assms(1,4) sent by (auto simp: record_ok_def note_sent_def sorted_wrt_append less_imp_le
        dest: order.strict_trans1)
qed

text \<open>What an acknowledgement of an outstanding update leaves: the viewer shows the pane's
  screen.\<close>

lemma ack_pane_screen_seen:
  assumes wf: "broker_wf b" and seen: "seen_ok b c pane v"
    and s: "subscription_of b c pane = Some s" "sequence \<in> set (sb_outstanding s)"
  shows "\<exists>st s'. bt_get (bk_screens b) pane = Some st \<and>
    fold (hear_screen c pane) (snd (ack_pane_screen c pane sequence b)) v = Shows (ss_last st) \<and>
    subscription_of (fst (ack_pane_screen c pane sequence b)) c pane = Some s' \<and>
    record_ok s' (Some st) (Shows (ss_last st)) \<and> sb_sent s' = Some (sn_sequence (ss_last st))"
proof -
  let ?s = "s\<lparr>sb_outstanding := dropWhile (\<lambda>held. held \<le> sequence) (sb_outstanding s)\<rparr>"
  have rec: "record_ok s (bt_get (bk_screens b) pane) v" using seen s(1) by (simp add: seen_ok_def)
  then have "sb_sent s \<noteq> None" using s(2) by (auto simp: record_ok_def split: option.splits)
  then obtain sent st held where sent: "sb_sent s = Some sent" and st: "bt_get (bk_screens b) pane = Some st"
    and v: "v = Shows held" "sent = sn_sequence (ss_last st) \<Longrightarrow> held = ss_last st"
    and inc: "sorted_wrt (<) (sb_outstanding s)"
    using rec by (auto simp: record_ok_def)
  have settled: "record_ok ?s (Some st) v" using record_settled rec st by auto
  have room: "length (sb_outstanding ?s) < max_outstanding_screen_updates"
    using settle_makes_room [OF inc s(2)] subscription_outstanding [OF wf s(1)] by simp
  show ?thesis
  proof (cases "sent = sn_sequence (ss_last st)")
    case True
    then show ?thesis
      using s st sent v settled by (auto simp: ack_pane_screen_def Let_def)
  next
    case False
    let ?r = "\<lparr>rd_screen = ss_last st, rd_diff = None, rd_changed = True\<rparr>"
    have "record_ok (note_sent ?r ?s) (Some st) (Shows (ss_last st))"
      by (rule record_caught_up [OF settled]) (use False sent in simp_all)
    then show ?thesis
      using s st sent False room
      by (simp add: ack_pane_screen_def Let_def update_for_def) (simp add: note_sent_def)
  qed
qed

lemma ack_pane_screen_other:
  "\<not> (d = c \<and> p = pane) \<Longrightarrow>
   subscription_of (fst (ack_pane_screen c pane sequence b)) d p = subscription_of b d p \<and>
   fold (hear_screen d p) (snd (ack_pane_screen c pane sequence b)) v = v"
  by (auto simp: ack_pane_screen_def Let_def update_for_def split: option.split)

lemma ack_pane_screen_screens [simp]: "bk_screens (fst (ack_pane_screen c pane sequence b)) = bk_screens b"
  by (simp add: ack_pane_screen_def Let_def split: option.split)

lemma ack_pane_screen_shows:
  assumes wf: "broker_wf b"
  shows "shows_to b (ack_pane_screen c pane sequence b)"
proof (rule shows_to_pair, rule shows_toI)
  fix d p v
  assume seen: "seen_ok b d p v"
  let ?res = "ack_pane_screen c pane sequence b"
  show "seen_ok (fst ?res) d p (fold (hear_screen d p) (snd ?res) v)"
  proof (cases "d = c \<and> p = pane")
    case False
    then show ?thesis using seen ack_pane_screen_other [OF False, of sequence b v] by (simp add: seen_ok_def)
  next
    case True
    show ?thesis
    proof (cases "\<exists>s. subscription_of b c pane = Some s \<and> sequence \<in> set (sb_outstanding s)")
      case acked: True
      then obtain s where s: "subscription_of b c pane = Some s" "sequence \<in> set (sb_outstanding s)" by blast
      from ack_pane_screen_seen [OF wf _ this, of v] seen True show ?thesis by (auto simp: seen_ok_def)
    next
      case False
      then have "?res = (b, [])" by (auto simp: ack_pane_screen_def split: option.split)
      then show ?thesis using seen by simp
    qed
  qed
qed

section \<open>The machine with its audience\<close>

lemma paints_nothing_handled [simp]:
  "paints_nothing (Send c (FederationStateMsg st))" "paints_nothing (SendAttentionHistory c)"
  "paints_nothing (Send c (AgentCards cards))" "paints_nothing (Send c (ServerHello v sv fs qs))"
  "paints_nothing (Send c (NotificationMsg agent title body))" "paints_nothing (Send c (AttentionMsg event))"
  "paints_nothing (Send c (AttentionHistory events))" "paints_nothing (Disconnect c reason)"
  "paints_nothing (Send c (PairingApprovalRequired a n word t))"
  "paints_nothing (Send c (PairingDecision a ok reason))"
  "paints_nothing (Send c (OperationResult q ok message plugin_run))" "paints_nothing (RouteInput p bs)"
  "paints_nothing (RouteScroll p dir l x y k)" "paints_nothing (PastePaneTextEffect c q p words)"
  "paints_nothing (BeginUploadEffect c q p mime name len)" "paints_nothing (ResumeUploadEffect c q tr p len)"
  "paints_nothing (BeginDownloadEffect c q p path)" "paints_nothing (TransferBetweenEffect c q p path p' name)"
  by (simp_all add: paints_nothing_def)

lemma with_lease_shows: "paints_nothing e \<Longrightarrow> shows_to b (with_lease c pane e b)"
  by (auto simp: with_lease_def holds_control_def intro: shows_same)

lemma flags_show:
  assumes "\<And>session. cl_panes (f session) = cl_panes session" "list_all paints_nothing es"
  shows "shows_to b (on_client c f b, es)"
  by (rule shows_same [OF assms(2)]) (simp_all add: subscription_keep_panes [OF assms(1)])

lemma resize_shows:
  "shows_to b (on_route pane (\<lambda>r. r\<lparr>rt_cols := cols, rt_rows := rows\<rparr>)
     (on_subscription c pane (\<lambda>s. s\<lparr>sb_cols := cols, sb_rows := rows\<rparr>) b), [RouteResize pane cols rows])"
  by (rule shows_silent) (auto split: if_splits)

lemma handle_greeted_shows:
  assumes wf: "broker_wf b" and at: "bt_get (bk_clients b) c = Some session"
  shows "shows_to b (handle_greeted c message b)"
proof (cases message)
  case (TransferBetween request source path destination name)
  then show ?thesis
    by (simp add: handle_greeted_def Let_def split_beta with_lease_shows)
      (simp add: holds_control_def shows_same)
next
  case (PaneResize pane cols rows)
  then show ?thesis
    by (simp add: handle_greeted_def Let_def split_beta resize_shows) (simp add: holds_control_def shows_same)
qed (simp_all add: handle_greeted_def subscribe_pane_shows [OF at] take_control_shows
    unsubscribe_shows [OF wf] ack_pane_screen_shows [OF wf] with_lease_shows flags_show shows_same refuse_def
    paints_nothing_def split: option.split)

lemma handle_shows:
  assumes wf: "broker_wf b"
  shows "shows_to b (handle c message b)"
proof (cases "bt_get (bk_clients b) c")
  case (Some session)
  have "shows_to b (handle_ungreeted c message b)"
    by (cases message) (simp_all add: handle_ungreeted_def flags_show shows_same refuse_def)
  then show ?thesis using Some handle_greeted_shows [OF wf Some] by (simp add: handle_def)
qed (simp add: handle_def shows_same)

lemma connect_shows: "shows_to b (fst (connect b), [])"
  by (rule shows_same) (auto simp: subscription_of_def client_new_def split: if_splits)

lemma agent_cards_updated_shows: "shows_to b (agent_cards_updated projection b)"
  by (rule shows_to_pair, rule shows_same) (auto simp: agent_cards_updated_def list_all_iff split: if_splits)

lemma broadcast_paints_nothing:
  "(\<And>d. paints_nothing (Send d m)) \<Longrightarrow> list_all paints_nothing (broadcast_state m b)"
  by (simp add: broadcast_state_def list_all_iff)

lemma perform_shows:
  assumes wf: "broker_wf b" and ok: "screens_ok b" and room: "has_room b event"
  shows "shows_to b (perform vt event b)"
proof (cases event)
  case (FrameArrived pane sequence width height full bytes)
  then show ?thesis using pane_frame_shows [OF wf ok, of pane] room
    by (auto simp: perform_def has_room_def split: option.splits)
qed (simp_all add: perform_def connect_shows disconnect_shows [OF wf] handle_shows [OF wf]
    pane_route_closed_shows [OF wf] route_downgraded_shows close_if_unclaimed_shows [OF wf]
    federation_updated_shows [OF wf] agent_cards_updated_shows notify_devices_def attention_observed_def
    attention_changed_def pairing_approval_required_def pairing_decided_def operation_completed_def
    shows_same broadcast_paints_nothing list_all_iff [of _ "map _ _"])

end
