(* ===== verification/Connection.thy ===== *)
theory Connection
  imports Protocol
begin

text \<open>
  One connection between a client and the daemon, as a stream of bytes: the lines both sides
  write and read (\<open>src/src/daemon/server.rs\<close>, \<open>src/src/client.rs\<close>), the client's side of the
  handshake and what it makes of the messages it receives. A stream is the list of the bytes
  that arrive before it ends.
\<close>

section \<open>Lines\<close>

text \<open>\<open>take(MAX_MESSAGE_BYTES).read_until(b'\n')\<close>: the line, with its newline if there is one
  within the bound, and the bytes that are left.\<close>

definition read_line :: "u8 list \<Rightarrow> u8 list \<times> u8 list" where
  "read_line bytes =
     (let window = take max_message_bytes bytes;
          line = (if 10 \<in> set window then takeWhile (\<lambda>x. x \<noteq> 10) window @ [10] else window)
      in (line, drop (length line) bytes))"

text \<open>One turn of the reading loop: the next message, or the end of the connection.\<close>

definition receive_one :: "(u8 list \<Rightarrow> 'm result) \<Rightarrow> u8 list \<Rightarrow> ('m \<times> u8 list) option" where
  "receive_one from_slice bytes =
     (let (line, rest) = read_line bytes
      in if line = [] \<or> last line \<noteq> 10 then None
         else (case decode from_slice (butlast line) of Inl _ \<Rightarrow> None | Inr m \<Rightarrow> Some (m, rest)))"

lemma receive_one_shorter: "receive_one from_slice bytes = Some (m, rest) \<Longrightarrow> length rest < length bytes"
  by (cases "bytes = []")
    (auto simp: receive_one_def read_line_def Let_def split: if_splits sum.splits prod.splits)

function receive_all :: "(u8 list \<Rightarrow> 'm result) \<Rightarrow> u8 list \<Rightarrow> 'm list" where
  "receive_all from_slice bytes =
     (case receive_one from_slice bytes of
        None \<Rightarrow> []
      | Some (m, rest) \<Rightarrow> m # receive_all from_slice rest)"
  by pat_completeness auto
termination
  by (relation "measure (\<lambda>(f, bytes). length bytes)") (auto simp: receive_one_shorter)

declare receive_all.simps [simp del]

text \<open>The writing loop: a message that cannot be encoded is skipped.\<close>

fun send_all :: "('m \<Rightarrow> u8 list result) \<Rightarrow> 'm list \<Rightarrow> u8 list" where
  "send_all to_vec [] = []"
| "send_all to_vec (m # ms) =
     (case encode to_vec m of Inl _ \<Rightarrow> send_all to_vec ms | Inr line \<Rightarrow> line @ send_all to_vec ms)"

section \<open>The client\<close>

text \<open>What the client makes of the daemon's first message.\<close>

definition accept_greeting :: "server_message \<Rightarrow> unit result" where
  "accept_greeting m = (case m of
     ServerHello protocol _ _ _ \<Rightarrow>
       if protocol = protocol_version then Inr ()
       else Inl (lit ''the daemon speaks protocol '' @ show_word protocol @ lit ''; this client speaks ''
         @ show_word protocol_version)
   | ErrorMsg _ message \<Rightarrow> Inl (lit ''the daemon refused this connection: '' @ message)
   | _ \<Rightarrow> Inl (lit ''the daemon answered the handshake with something else''))"

text \<open>What it makes of a later one: the state it publishes to the frontend, and the messages it
  hands on.\<close>

definition client_state :: "server_message \<Rightarrow> federation_state \<Rightarrow> federation_state" where
  "client_state m st = (case m of
     FederationStateMsg whole \<Rightarrow> whole
   | TargetStateMsg target one \<Rightarrow>
       st\<lparr>fs_targets := (case one of Some t \<Rightarrow> bt_insert target t (fs_targets st)
            | None \<Rightarrow> bt_remove target (fs_targets st)),
          fs_revision := saturating_add (fs_revision st) 1\<rparr>
   | _ \<Rightarrow> st)"

definition client_event :: "server_message \<Rightarrow> server_message option" where
  "client_event m = (case m of
     FederationStateMsg _ \<Rightarrow> None | TargetStateMsg _ _ \<Rightarrow> None | other \<Rightarrow> Some other)"

section \<open>Lines carry messages\<close>

lemma max_message_bytes_pos: "0 < max_message_bytes"
  by (simp add: max_message_bytes_def)

lemma read_line_whole:
  assumes "10 \<notin> set line" "length line < max_message_bytes"
  shows "read_line (line @ 10 # rest) = (line @ [10], rest)"
proof -
  have "take max_message_bytes (line @ 10 # rest) = line @ 10 # take (max_message_bytes - length line - 1) rest"
    using assms(2) by (cases "max_message_bytes - length line") simp_all
  moreover have "takeWhile (\<lambda>x. x \<noteq> 10) (line @ 10 # t) = line" for t
    using assms(1) by (induction line) auto
  ultimately show ?thesis by (simp add: read_line_def Let_def)
qed

lemma read_line_cut:
  assumes "10 \<notin> set bytes"
  shows "read_line bytes = (take max_message_bytes bytes, drop max_message_bytes bytes)"
  using assms by (auto simp: read_line_def Let_def dest: in_set_takeD) (simp add: min_def)

lemma receive_cut:
  assumes "10 \<notin> set bytes"
  shows "receive_all from_slice bytes = []"
proof -
  have "last (take max_message_bytes bytes) \<noteq> 10" if "take max_message_bytes bytes \<noteq> []"
    using last_in_set [OF that] assms by (metis in_set_takeD)
  then have "receive_one from_slice bytes = None"
    using assms by (auto simp: receive_one_def read_line_cut Let_def)
  then show ?thesis by (subst receive_all.simps) simp
qed

text \<open>What the serializer promises: reading back what it wrote, on one line.\<close>

definition line_codec :: "('m \<Rightarrow> u8 list result) \<Rightarrow> (u8 list \<Rightarrow> 'm result) \<Rightarrow> bool" where
  "line_codec to_vec from_slice \<longleftrightarrow>
     (\<forall>m line. to_vec m = Inr line \<longrightarrow> from_slice line = Inr m \<and> 10 \<notin> set line)"

lemma receive_message:
  assumes "line_codec to_vec from_slice" "encode to_vec m = Inr bs"
  shows "receive_all from_slice (bs @ rest) = m # receive_all from_slice rest"
proof -
  obtain line where line: "to_vec m = Inr line" "length line < max_message_bytes" "bs = line @ [10]"
    using assms(2) by (auto simp: encode_eq_Inr)
  then have codec: "from_slice line = Inr m" "10 \<notin> set line" using assms(1) by (auto simp: line_codec_def)
  have "receive_one from_slice (bs @ rest) = Some (m, rest)"
    using line codec by (simp add: receive_one_def read_line_whole decode_def)
  then show ?thesis by (subst receive_all.simps) simp
qed

lemma encoded_newline:
  assumes "line_codec to_vec from_slice" "encode to_vec m = Inr bs" "n < length bs"
  shows "10 \<notin> set (take n bs)"
proof -
  obtain line where "to_vec m = Inr line" "bs = line @ [10]" using assms(2) by (auto simp: encode_eq_Inr)
  then show ?thesis using assms(1,3) by (auto simp: line_codec_def dest!: in_set_takeD)
qed

lemma receive_prefix:
  assumes "line_codec to_vec from_slice"
  shows "\<exists>k. receive_all from_slice (take n (send_all to_vec ms)) =
    take k (filter (\<lambda>m. is_ok (encode to_vec m)) ms)"
proof (induction ms arbitrary: n)
  case Nil
  then show ?case by (simp add: receive_cut)
next
  case (Cons m ms)
  show ?case
  proof (cases "encode to_vec m")
    case (Inl e)
    then show ?thesis using Cons.IH [of n] by simp
  next
    case (Inr bs)
    show ?thesis
    proof (cases "n < length bs")
      case True
      then have "receive_all from_slice (take n (send_all to_vec (m # ms))) = take 0 (filter (\<lambda>m. is_ok (encode to_vec m)) (m # ms))"
        using Inr encoded_newline [OF assms Inr True] by (simp add: receive_cut)
      then show ?thesis by blast
    next
      case False
      obtain k where "receive_all from_slice (take (n - length bs) (send_all to_vec ms)) =
          take k (filter (\<lambda>m. is_ok (encode to_vec m)) ms)" using Cons.IH by blast
      then have "receive_all from_slice (take n (send_all to_vec (m # ms))) =
          take (Suc k) (filter (\<lambda>m. is_ok (encode to_vec m)) (m # ms))"
        using Inr False receive_message [OF assms Inr] by simp
      then show ?thesis by blast
    qed
  qed
qed

lemma receive_sent:
  "line_codec to_vec from_slice \<Longrightarrow>
   receive_all from_slice (send_all to_vec ms) = filter (\<lambda>m. is_ok (encode to_vec m)) ms"
  by (induction ms) (simp_all add: receive_cut receive_message split: sum.split)

section \<open>Properties\<close>

text \<open>
  C39. A connection delivers what was written to it: the messages the far side reads are exactly
  those that could be encoded, in order, none cut or merged although the reader bounds every
  line to the same number of bytes as the writer; and a connection that breaks anywhere, even
  inside a line, has delivered the first few of them.
\<close>

theorem connection_delivers:
  assumes "line_codec to_vec from_slice"
  shows "receive_all from_slice (send_all to_vec ms) = filter (\<lambda>m. is_ok (encode to_vec m)) ms \<and>
    (\<exists>k. receive_all from_slice (take n (send_all to_vec ms)) =
      take k (filter (\<lambda>m. is_ok (encode to_vec m)) ms))"
  using receive_sent [OF assms] receive_prefix [OF assms] by blast

text \<open>A serializer of two messages, as JSON has them.\<close>

definition bool_vec :: "bool \<Rightarrow> u8 list result" where
  "bool_vec m = Inr (if m then [116, 114, 117, 101] else [102, 97, 108, 115, 101])"

definition bool_slice :: "u8 list \<Rightarrow> bool result" where
  "bool_slice line = (if line = [116, 114, 117, 101] then Inr True
     else if line = [102, 97, 108, 115, 101] then Inr False else Inl (lit ''expected value''))"

theorem connection_delivers_witness:
  "line_codec bool_vec bool_slice \<and>
   receive_all bool_slice (send_all bool_vec [True, False]) = [True, False]"
proof
  show codec: "line_codec bool_vec bool_slice"
    by (auto simp: line_codec_def bool_vec_def bool_slice_def)
  have "is_ok (encode bool_vec m)" for m
    by (cases m) (simp_all add: encode_def bool_vec_def max_message_bytes_def)
  then show "receive_all bool_slice (send_all bool_vec [True, False]) = [True, False]"
    using connection_delivers [OF codec, of "[True, False]"] by simp
qed

end
