(* ===== verification/Broker_Published.thy ===== *)
theory Broker_Published
  imports Broker_Viewers Connection
begin

text \<open>
  What the clients know of the federation: a client that subscribed to the state is sent the
  whole of it once and then only the targets that changed. Its view, rebuilt from those
  messages, agrees with the daemon's state on everything a client can act on, in every
  reachable state.
\<close>

section \<open>A client's view of the targets\<close>

text \<open>The client applies the messages with \<open>client_state\<close>, from the default state on.\<close>

lemma client_state_simps [simp]:
  "client_state (FederationStateMsg st) view = st"
  "fs_targets (client_state (TargetStateMsg key (Some target)) view) = bt_insert key target (fs_targets view)"
  "fs_targets (client_state (TargetStateMsg key None) view) = bt_remove key (fs_targets view)"
  by (simp_all add: client_state_def)

definition hear_state :: "client_id \<Rightarrow> effect \<Rightarrow> federation_state \<Rightarrow> federation_state" where
  "hear_state c e view = (case e of Send d m \<Rightarrow> if d = c then client_state m view else view | _ \<Rightarrow> view)"

definition alike :: "target_runtime_state option \<Rightarrow> target_runtime_state option \<Rightarrow> bool" where
  "alike a b = (case (a, b) of
     (None, None) \<Rightarrow> True | (Some s, Some t) \<Rightarrow> \<not> differs_for_clients s t | _ \<Rightarrow> False)"

lemma alike_refl [simp]: "alike a a"
  by (cases a) (simp_all add: alike_def differs_for_clients_def)

lemma differs_irrefl [simp]: "\<not> differs_for_clients t t"
  by (simp add: differs_for_clients_def)

lemma alike_trans: "alike a b \<Longrightarrow> alike b c \<Longrightarrow> alike a c"
  by (auto simp: alike_def differs_for_clients_def split: option.splits)

definition follows_state :: "'p broker \<Rightarrow> client_id \<Rightarrow> bool" where
  "follows_state b c \<longleftrightarrow>
     (case bt_get (bk_clients b) c of None \<Rightarrow> False | Some session \<Rightarrow> cl_state_subscribed session)"

definition view_ok :: "'p broker \<Rightarrow> client_id \<Rightarrow> federation_state \<Rightarrow> bool" where
  "view_ok b c view \<longleftrightarrow> (follows_state b c \<longrightarrow>
     (\<forall>key. alike (bt_get (fs_targets view) key) (bt_get (fs_targets (bk_state b)) key)))"

definition publishes :: "'p broker \<Rightarrow> 'p step_result \<Rightarrow> bool" where
  "publishes b res \<longleftrightarrow> (\<forall>c view. view_ok b c view \<longrightarrow>
     view_ok (fst res) c (fold (hear_state c) (snd res) view))"

section \<open>Operations that publish nothing\<close>

definition stateless :: "effect \<Rightarrow> bool" where
  "stateless e \<longleftrightarrow> (case e of
     Send _ m \<Rightarrow> (case m of FederationStateMsg _ \<Rightarrow> False | TargetStateMsg _ _ \<Rightarrow> False | _ \<Rightarrow> True) | _ \<Rightarrow> True)"

lemma hear_stateless [simp]: "stateless e \<Longrightarrow> hear_state c e view = view"
  by (auto simp: stateless_def hear_state_def client_state_def split: effect.splits server_message.splits)

lemma fold_stateless: "list_all stateless es \<Longrightarrow> fold (hear_state c) es view = view"
  by (induction es) auto

lemma stateless_simps [simp]:
  "stateless (Send c (PaneLease p a))" "stateless (Send c (PaneClosed p))" "stateless (Send c (PaneScreen p s))"
  "stateless (Send c (PaneFrame p n w h f bs))" "stateless (Send c (ErrorMsg q e))"
  "stateless (Send c (AgentCards cards))" "stateless (Send c (ServerHello v sv fs qs))"
  "stateless (Send c (update_for subscription p update))" "stateless (CloseRoute p)"
  "stateless (OpenRoute p a w h)" "stateless (RouteResize p w h)" "stateless (RouteUnclaimed p)"
  "stateless (SendAttentionHistory c)" "stateless (Disconnect c reason)"
  by (simp_all add: stateless_def update_for_def split: option.split)

text \<open>What the silent operations leave alone.\<close>

definition silent :: "'p broker \<Rightarrow> 'p step_result \<Rightarrow> bool" where
  "silent b res \<longleftrightarrow> list_all stateless (snd res) \<and> bk_state (fst res) = bk_state b \<and>
     (\<forall>c. follows_state (fst res) c \<longrightarrow> follows_state b c)"

lemma silent_publishes: "silent b res \<Longrightarrow> publishes b res"
  by (auto simp: silent_def publishes_def view_ok_def fold_stateless)

lemma silentI [intro]:
  "list_all stateless es \<Longrightarrow> bk_state b' = bk_state b \<Longrightarrow> (\<And>c. follows_state b' c \<Longrightarrow> follows_state b c) \<Longrightarrow>
   silent b (b', es)"
  by (simp add: silent_def)

lemma silent_trans: "silent b res \<Longrightarrow> silent (fst res) res' \<Longrightarrow> silent b (fst res', snd res @ snd res')"
  by (simp add: silent_def)

lemma follows_fields [simp]:
  "follows_state (b\<lparr>bk_routes := rs\<rparr>) = follows_state b" "follows_state (b\<lparr>bk_screens := ss\<rparr>) = follows_state b"
  "follows_state (drop_screen pane b) = follows_state b" "follows_state (on_route pane g b) = follows_state b"
  "follows_state (b\<lparr>bk_state := st\<rparr>) = follows_state b"
  "follows_state (b\<lparr>bk_agent_cards := cards\<rparr>) = follows_state b"
  "follows_state (release_screen_if_unwatched pane b) = follows_state b"
  by (intro ext, simp add: follows_state_def)+

lemma follows_on_client:
  "(\<And>session. cl_state_subscribed (f session) = cl_state_subscribed session) \<Longrightarrow>
   follows_state (on_client c f b) = follows_state b"
  by (intro ext) (auto simp: follows_state_def split: option.split)

lemma follows_subscription [simp]:
  "follows_state (on_subscription c pane f b) = follows_state b"
  "follows_state (forget_pane pane c b) = follows_state b"
  by (simp_all add: on_subscription_def forget_pane_def follows_on_client)

lemma follows_fold_forget [simp]: "follows_state (fold (forget_pane pane) cs b) = follows_state b"
  by (induction cs arbitrary: b) simp_all

lemma release_pane_silent: "silent b (release_pane c pane b)"
proof -
  have "follows_state (fst (release_pane c pane b)) = follows_state b"
    by (intro ext) (simp add: follows_state_def)
  then show ?thesis by (auto simp: silent_def) (auto simp: release_pane_def Let_def list_all_iff split: option.split)
qed

lemma release_panes_silent: "silent b (release_panes c panes b)"
proof (induction panes arbitrary: b)
  case (Cons pane panes)
  show ?case using silent_trans [OF release_pane_silent [of b c pane] Cons.IH] by (simp add: Let_def split_beta)
qed auto

lemma disconnect_silent: "silent b (disconnect c b)"
proof (cases "bt_get (bk_clients b) c")
  case (Some session)
  let ?b = "b\<lparr>bk_clients := bt_remove c (bk_clients b)\<rparr>"
  have "silent b (?b, [])" by (auto simp: follows_state_def split: option.splits if_splits)
  from silent_trans [OF this release_panes_silent, of c "bt_keys (cl_panes session)"] Some
  show ?thesis by (simp add: disconnect_def)
qed (auto simp: disconnect_def)

lemma pane_route_closed_silent: "silent b (pane_route_closed pane b)"
  by (auto simp: pane_route_closed_def silent_def list_all_iff split: option.split)

lemma close_routes_silent: "silent b (close_routes panes b)"
proof (induction panes arbitrary: b)
  case (Cons pane panes)
  show ?case using silent_trans [OF pane_route_closed_silent [of b pane] Cons.IH] by (simp add: Let_def split_beta)
qed auto

lemma render_to_follows [simp]: "follows_state (fst (render_to pane r cs b)) = follows_state b"
  by (induction cs arbitrary: b) (simp_all add: Let_def split_beta split: option.split)

lemma render_to_silent: "silent b (render_to pane r cs b)"
proof -
  have "list_all stateless (snd (render_to pane r cs b)) \<and> bk_state (fst (render_to pane r cs b)) = bk_state b"
    by (induction cs arbitrary: b) (simp_all add: Let_def split_beta split: option.split)
  then show ?thesis by (simp add: silent_def)
qed

lemma pane_frame_silent: "silent b (pane_frame vt pane sequence width height full bytes b)"
proof (cases "bt_get (bk_routes b) pane")
  case (Some r)
  have "silent b (render_for vt pane width height full bytes cs b)" for cs
    using render_to_silent [of "b\<lparr>bk_screens := ss\<rparr>" for ss]
    by (simp add: render_for_def Let_def split_beta silent_def)
  then show ?thesis
    using Some by (auto simp: pane_frame_def Let_def split_beta silent_def list_all_iff)
qed (auto simp: pane_frame_def)

lemma take_control_silent: "silent b (take_control c pane only_if_free b)"
  by (auto simp: take_control_def Let_def split_beta resize_for_control_def silent_def split: option.split)

lemma subscribe_pane_silent: "silent b (subscribe_pane c pane access cols rows representation b)"
  by (auto simp: subscribe_pane_def subscribe_route_def resize_for_control_def Let_def split_beta silent_def
      follows_on_client split: option.split)

lemma ack_pane_screen_silent: "silent b (ack_pane_screen c pane sequence b)"
  by (auto simp: ack_pane_screen_def Let_def silent_def split: option.split)

lemma unsubscribe_silent: "silent b (release_pane c pane (forget_pane pane c b))"
  using release_pane_silent [of "forget_pane pane c b" c pane] by (simp add: silent_def)

lemma with_lease_silent: "stateless e \<Longrightarrow> silent b (with_lease c pane e b)"
  by (auto simp: with_lease_def holds_control_def)

lemmas silent_operations = take_control_silent subscribe_pane_silent ack_pane_screen_silent
  unsubscribe_silent with_lease_silent

lemma handle_greeted_silent:
  assumes "message \<noteq> SubscribeState"
  shows "silent b (handle_greeted c message b)"
proof (cases message)
  case (TransferBetween request source path destination name)
  then show ?thesis
    by (simp add: handle_greeted_def Let_def split_beta with_lease_silent stateless_def)
      (simp add: holds_control_def silent_def)
qed (use assms in \<open>auto simp: handle_greeted_def silent_operations Let_def split_beta follows_on_client
    refuse_def stateless_def holds_control_def split: option.split\<close>)

lemma subscribe_state_publishes:
  assumes "bt_get (bk_clients b) c = Some session"
  shows "publishes b (handle_greeted c SubscribeState b)"
  unfolding publishes_def
proof (intro allI impI)
  fix d view
  assume "view_ok b d view"
  then show "view_ok (fst (handle_greeted c SubscribeState b)) d
      (fold (hear_state d) (snd (handle_greeted c SubscribeState b)) view)"
    by (cases "d = c") (auto simp: handle_greeted_def view_ok_def follows_state_def hear_state_def
        split: option.splits)
qed

lemma handle_publishes: "publishes b (handle c message b)"
proof (cases "bt_get (bk_clients b) c")
  case (Some session)
  have "silent b (handle_ungreeted c message b)"
    by (cases message) (auto simp: handle_ungreeted_def refuse_def follows_on_client)
  moreover have "publishes b (handle_greeted c message b)"
    using handle_greeted_silent [of message b c] subscribe_state_publishes [OF Some]
    by (cases "message = SubscribeState") (auto intro: silent_publishes)
  ultimately show ?thesis using Some by (simp add: handle_def silent_publishes)
qed (simp add: handle_def publishes_def)

section \<open>Publishing a new federation\<close>

text \<open>A message broadcast to everyone who follows the state reaches each of them once.\<close>

lemma fold_told_one:
  "distinct (map fst es) \<Longrightarrow> fold (hear_state c) (map (\<lambda>e. Send (fst e) m) es) view =
     (if c \<in> fst ` set es then client_state m view else view)"
  by (induction es arbitrary: view) (auto simp: hear_state_def)

lemma broadcast_heard:
  "fold (hear_state c) (broadcast_state m b) view =
     (if follows_state b c then client_state m view else view)"
proof -
  have "c \<in> fst ` set (filter (\<lambda>e. cl_state_subscribed (snd e)) (bt_entries (bk_clients b))) \<longleftrightarrow> follows_state b c"
  proof -
    have "c \<in> fst ` set (filter (\<lambda>e. cl_state_subscribed (snd e)) (bt_entries (bk_clients b))) \<longleftrightarrow>
        (\<exists>session. (c, session) \<in> set (bt_entries (bk_clients b)) \<and> cl_state_subscribed session)"
      by force
    then show ?thesis by (simp add: bt_entries_get follows_state_def split: option.split)
  qed
  moreover have "distinct (map fst (filter (\<lambda>e. cl_state_subscribed (snd e)) (bt_entries (bk_clients b))))"
    using bt_keys_distinct [of "bk_clients b"] by (simp add: bt_keys_def distinct_map_filter)
  ultimately show ?thesis by (simp add: broadcast_state_def fold_told_one)
qed

lemma broadcasts_heard:
  "fold (hear_state c) (concat (map (\<lambda>m. broadcast_state m b) ms)) view =
     (if follows_state b c then fold client_state ms view else view)"
  by (induction ms arbitrary: view) (auto simp: broadcast_heard)

text \<open>The changes, applied one after the other.\<close>

lemma apply_updates:
  assumes "distinct (map fst es)"
  shows "bt_get (fs_targets (fold client_state (map (\<lambda>e. TargetStateMsg (fst e) (Some (snd e))) es) view)) key =
    (case map_of es key of Some t \<Rightarrow> Some t | None \<Rightarrow> bt_get (fs_targets view) key)"
  using assms
proof (induction es arbitrary: view)
  case (Cons e es)
  moreover have "map_of es (fst e) = None" using Cons.prems by (simp add: map_of_eq_None_iff)
  ultimately show ?case by (auto split: option.split)
qed simp

lemma apply_removals:
  "bt_get (fs_targets (fold client_state (map (\<lambda>key. TargetStateMsg key None) keys) view)) key =
     (if key \<in> set keys then None else bt_get (fs_targets view) key)"
  by (induction keys arbitrary: view) auto

lemma map_of_filter_entries:
  "map_of (filter P (bt_entries m)) key =
     (case bt_get m key of Some t \<Rightarrow> if P (key, t) then Some t else None | None \<Rightarrow> None)"
proof -
  have "distinct (map fst (filter P (bt_entries m)))"
    using bt_keys_distinct [of m] by (auto simp: bt_keys_def distinct_map_filter)
  then have found: "map_of (filter P (bt_entries m)) key = Some t \<longleftrightarrow> bt_get m key = Some t \<and> P (key, t)" for t
    by (simp add: map_of_eq_Some_iff bt_entries_get)
  show ?thesis
  proof (cases "map_of (filter P (bt_entries m)) key")
    case None
    then show ?thesis using found by (cases "bt_get m key") auto
  next
    case (Some t)
    then show ?thesis using found [of t] by simp
  qed
qed

lemma federation_changes_applied:
  assumes view: "\<And>key. alike (bt_get (fs_targets view) key) (bt_get (fs_targets old) key)"
  shows "alike (bt_get (fs_targets (fold client_state (federation_changes old new) view)) key)
    (bt_get (fs_targets new) key)"
proof -
  let ?changed = "\<lambda>e. case bt_get (fs_targets old) (fst e) of
    Some previous \<Rightarrow> differs_for_clients previous (snd e) | None \<Rightarrow> True"
  have "distinct (map fst (filter ?changed (bt_entries (fs_targets new))))"
    using bt_keys_distinct [of "fs_targets new"] by (auto simp: bt_keys_def distinct_map_filter)
  note get = federation_changes_def apply_removals apply_updates [OF this] map_of_filter_entries
  show ?thesis
  proof (cases "bt_get (fs_targets new) key")
    case None
    then show ?thesis using view [of key]
      by (auto simp: get bt_keys_iff alike_def split: option.splits)
  next
    case (Some t)
    then show ?thesis using view [of key] alike_trans [OF view [of key], of "Some t"]
      by (cases "bt_get (fs_targets old) key") (auto simp: get alike_def split: option.splits)
  qed
qed

lemma federation_updated_publishes: "publishes b (federation_updated st b)"
  unfolding publishes_def
proof (intro allI impI)
  fix c view
  assume ok: "view_ok b c view"
  let ?b = "b\<lparr>bk_state := st\<rparr>"
  let ?sends = "concat (map (\<lambda>message. broadcast_state message ?b) (federation_changes (bk_state b) st))"
  have "view_ok ?b c (fold (hear_state c) ?sends view)"
    using ok federation_changes_applied [of view "bk_state b"]
    by (simp add: view_ok_def broadcasts_heard)
  then have "view_ok (fst (close_vanished_routes ?b)) c
      (fold (hear_state c) (snd (close_vanished_routes ?b)) (fold (hear_state c) ?sends view))"
    using silent_publishes [OF close_routes_silent, of ?b "filter (pane_is_gone ?b) (bt_keys (bk_routes ?b))"]
    unfolding publishes_def close_vanished_routes_def by blast
  then show "view_ok (fst (federation_updated st b)) c (fold (hear_state c) (snd (federation_updated st b)) view)"
    by (simp add: federation_updated_def Let_def split_beta)
qed

lemma perform_silent:
  "silent b (route_downgraded pane b)" "silent b (close_if_unclaimed pane b)"
  "silent b (agent_cards_updated projection b)" "silent b (notify_devices (NotificationMsg agent title body) b)"
  "silent b (attention_observed event b)" "silent b (attention_changed events b)"
  "silent b (b, pairing_approval_required attempt name confirmation expires b)"
  "silent b (b, pairing_decided attempt approved message b)"
  "silent b (b, operation_completed c request applied message done b)"
  by (auto simp: route_downgraded_def close_if_unclaimed_def agent_cards_updated_def notify_devices_def
      attention_observed_def attention_changed_def pairing_approval_required_def pairing_decided_def
      operation_completed_def broadcast_state_def silent_def list_all_iff stateless_def split: option.split)

lemma connect_silent: "silent b (fst (connect b), [])"
  unfolding silent_def by (auto simp: follows_state_def client_new_def split: option.splits if_splits)

lemma perform_publishes: "publishes b (perform vt event b)"
  by (cases event)
    (simp_all add: perform_def handle_publishes federation_updated_publishes silent_publishes perform_silent
      connect_silent disconnect_silent pane_frame_silent pane_route_closed_silent)

end
