(* ===== verification/Broker_Audience.thy ===== *)
theory Broker_Audience
  imports Broker_Viewers Broker_Published
begin

text \<open>
  The broker together with what its clients were told, shown and sent of the federation: three
  ghost components that follow the effects of every step. In every reachable state a
  subscriber was last told the truth about its lease, no viewer was sent a diff it could not
  apply, an accepted acknowledgement leaves the viewer with the pane's current screen, and a
  client that follows the state has the daemon's targets before it.
\<close>

record 'p audience =
  au_broker :: "'p broker"
  au_told :: "client_id \<Rightarrow> pane_id \<Rightarrow> terminal_access option"
  au_shown :: "client_id \<Rightarrow> pane_id \<Rightarrow> viewer"
  au_view :: "client_id \<Rightarrow> federation_state"

definition audience_new :: "ustring \<Rightarrow> ustring list \<Rightarrow> quick_reply list \<Rightarrow> 'p audience" where
  "audience_new version features replies =
     \<lparr>au_broker = broker_new version features replies, au_told = (\<lambda>_ _. None),
      au_shown = (\<lambda>_ _. NoScreen), au_view = (\<lambda>_. federation_default)\<rparr>"

definition attend :: "'p vt100 \<Rightarrow> broker_event \<Rightarrow> 'p audience \<Rightarrow> 'p audience" where
  "attend vt event a =
     (let (b, es) = perform vt event (au_broker a)
      in \<lparr>au_broker = b, au_told = (\<lambda>c pane. fold (hear_lease c pane) es (au_told a c pane)),
          au_shown = (\<lambda>c pane. fold (hear_screen c pane) es (au_shown a c pane)),
          au_view = (\<lambda>c. fold (hear_state c) es (au_view a c))\<rparr>)"

inductive audience_step :: "'p vt100 \<Rightarrow> 'p audience \<Rightarrow> 'p audience \<Rightarrow> bool" for vt where
  attended: "has_room (au_broker a) event \<Longrightarrow> audience_step vt a (attend vt event a)"

inductive_cases audience_stepE: "audience_step vt a a'"

section \<open>The invariant\<close>

definition audience_ok :: "'p audience \<Rightarrow> bool" where
  [inv_defs]: "audience_ok a \<longleftrightarrow> broker_wf (au_broker a) \<and> screens_ok (au_broker a) \<and>
     (\<forall>c pane. linked (au_broker a) c pane \<longrightarrow> au_told a c pane = Some (lease_of (au_broker a) c pane)) \<and>
     (\<forall>c pane. seen_ok (au_broker a) c pane (au_shown a c pane)) \<and>
     (\<forall>c. view_ok (au_broker a) c (au_view a c))"

text \<open>Screens only come from the emulator.\<close>

lemma screens_ok_subset:
  "screens_ok b \<Longrightarrow> (\<And>p st. bt_get (bk_screens b') p = Some st \<Longrightarrow> bt_get (bk_screens b) p = Some st) \<Longrightarrow> screens_ok b'"
  unfolding screens_ok_def by blast

lemma release_panes_screens:
  "bt_get (bk_screens (fst (release_panes c panes b))) p = Some st \<Longrightarrow> bt_get (bk_screens b) p = Some st"
  by (induction panes arbitrary: b) (auto simp: Let_def split_beta dest: release_pane_screens)

lemma close_routes_screens:
  "bt_get (bk_screens (fst (close_routes panes b))) p = Some st \<Longrightarrow> bt_get (bk_screens b) p = Some st"
proof (induction panes arbitrary: b)
  case (Cons pane panes)
  then have "bt_get (bk_screens (fst (pane_route_closed pane b))) p = Some st" by (simp add: Let_def split_beta)
  then show ?case by (auto simp: pane_route_closed_def split: option.splits if_splits)
qed simp

lemma handle_screens:
  "bt_get (bk_screens (fst (handle c message b))) p = Some st \<Longrightarrow> bt_get (bk_screens b) p = Some st"
  by (cases message)
    (auto simp: handle_def handle_ungreeted_def handle_greeted_def Let_def split_beta take_control_def
      subscribe_pane_def dest!: release_pane_screens split: option.splits if_splits)

lemma pane_frame_screens_ok:
  assumes ok: "screens_ok b"
    and room: "\<And>st. bt_get (bk_screens b) pane = Some st \<Longrightarrow> sn_sequence (ss_last st) \<noteq> - 1"
  shows "screens_ok (fst (pane_frame vt pane sequence width height full bytes b))"
proof -
  define st0 where "st0 = unwrap_or (screen_state_new vt width height) (bt_get (bk_screens b) pane)"
  obtain st r where adv: "screen_advance vt width height full bytes st0 = (st, r)" by fastforce
  have st0: "sn_sequence (ss_last st0) \<noteq> - 1" "snapshot_wf (ss_last st0)"
    using room ok by (cases "bt_get (bk_screens b) pane"; simp add: st0_def screens_ok_def)+
  then have "snapshot_wf (ss_last st)" using screen_advance_facts(4) [OF adv] by simp
  then show ?thesis
    using ok by (auto simp: pane_frame_def render_for_def Let_def split_beta st0_def [symmetric] adv
        screens_ok_def split: option.splits if_splits)
qed

lemma perform_screens_ok:
  assumes ok: "screens_ok b" and room: "has_room b event"
  shows "screens_ok (fst (perform vt event b))"
proof (cases event)
  case (FrameArrived pane sequence width height full bytes)
  then show ?thesis using pane_frame_screens_ok [OF ok, of pane] room
    by (auto simp: perform_def has_room_def split: option.splits)
qed (rule screens_ok_subset [OF ok],
    auto simp: perform_def disconnect_def route_downgraded_def pane_route_closed_def close_if_unclaimed_def
      federation_updated_def close_vanished_routes_def agent_cards_updated_def notify_devices_def
      attention_observed_def attention_changed_def Let_def split_beta
    dest: handle_screens release_panes_screens close_routes_screens split: option.splits if_splits)+

lemma attend_ok:
  assumes ok: "audience_ok a" and room: "has_room (au_broker a) event"
  shows "audience_ok (attend vt event a)"
proof -
  have wf: "broker_wf (au_broker a)" and screens: "screens_ok (au_broker a)"
    using ok by (simp_all add: audience_ok_def)
  show ?thesis
    using perform_wf [OF wf room, of vt] perform_screens_ok [OF screens room, of vt]
      perform_tells [OF wf, of vt event] perform_shows [OF wf screens room, of vt]
      perform_publishes [of "au_broker a" vt event] ok
    by (simp add: audience_ok_def attend_def split_beta Let_def tells_def shows_to_def publishes_def)
qed

lemma audience_new_ok: "audience_ok (audience_new version features replies)"
  by (simp add: audience_ok_def audience_new_def broker_new_wf)
    (simp add: screens_ok_def linked_def seen_ok_def subscription_of_def broker_new_def view_ok_def follows_state_def)

interpretation audience_reach:
  kept_invariant "audience_new version features replies" "audience_step vt" audience_ok
  for version features replies vt
  by unfold_locales (auto elim!: audience_stepE intro: audience_new_ok attend_ok)

section \<open>Properties\<close>

text \<open>
  C34. Whatever happens, the last thing a client was told about a pane it is subscribed to is
  whether it holds the pane's control lease; so a person whose lease was taken, refused or
  lost knows it, and nobody believes to hold a lease that is someone else's.
\<close>

theorem lease_told_truth:
  assumes "reach (audience_step vt) (audience_new version features replies) a"
    and "subscription_of (au_broker a) c pane \<noteq> None"
  shows "au_told a c pane =
    Some (if lease_holder (au_broker a) pane = Some c then Control else Observe)"
  using audience_reach.reachable_holds [OF assms(1)] assms(2)
  by (simp add: audience_ok_def linked_def lease_of_def)

text \<open>
  C3. No viewer is ever sent a diff it cannot apply, and a viewer whose record says it was sent
  the newest update shows exactly the screen the daemon holds for the pane, built from
  whatever mixture of whole screens and diffs it received.
\<close>

theorem viewers_whole:
  assumes "reach (audience_step vt) (audience_new version features replies) a"
  shows "au_shown a c pane \<noteq> Torn \<and>
    (case (subscription_of (au_broker a) c pane, bt_get (bk_screens (au_broker a)) pane) of
       (Some s, Some st) \<Rightarrow>
         sb_sent s \<noteq> Some (sn_sequence (ss_last st)) \<or> au_shown a c pane = Shows (ss_last st)
     | (Some s, None) \<Rightarrow> sb_sent s = None
     | _ \<Rightarrow> True)"
proof -
  have "seen_ok (au_broker a) c pane (au_shown a c pane)"
    using audience_reach.reachable_holds [OF assms] by (simp add: audience_ok_def)
  then show ?thesis by (auto simp: seen_ok_def record_ok_def split: option.splits)
qed

text \<open>
  C35. A viewer never stays behind: once the daemon accepts an acknowledgement, of any update the
  viewer was sent and has not acknowledged, the viewer shows the pane's current screen, however
  many updates it was not sent in between.
\<close>

theorem ack_catches_up:
  assumes "reach (audience_step vt) (audience_new version features replies) a"
    and "subscription_of (au_broker a) c pane = Some s" "sequence \<in> set (sb_outstanding s)"
  shows "\<exists>st. bt_get (bk_screens (au_broker a)) pane = Some st \<and>
    au_shown (attend vt (Received c (AckPaneScreen pane sequence)) a) c pane = Shows (ss_last st)"
proof -
  have ok: "audience_ok a" by (rule audience_reach.reachable_holds [OF assms(1)])
  then have wf: "broker_wf (au_broker a)" and seen: "seen_ok (au_broker a) c pane (au_shown a c pane)"
    by (simp_all add: audience_ok_def)
  have "greeted (au_broker a) c" by (rule linked_greeted [OF wf, of c pane]) (simp add: linked_def assms(2))
  then have "perform vt (Received c (AckPaneScreen pane sequence)) (au_broker a) =
      ack_pane_screen c pane sequence (au_broker a)"
    by (auto simp: perform_def handle_def handle_greeted_def greeted_def split: option.splits)
  with ack_pane_screen_seen [OF wf seen assms(2,3)] show ?thesis
    by (auto simp: attend_def Let_def split_beta)
qed

text \<open>
  C36. A client that follows the state agrees with the daemon: the targets it has, rebuilt from
  the one whole state and the changes it was sent since, are the daemon's targets, each the same
  in everything but the daemon's own clock readings.
\<close>

theorem view_follows_state:
  assumes "reach (audience_step vt) (audience_new version features replies) a"
    and "bt_get (bk_clients (au_broker a)) c = Some session" "cl_state_subscribed session"
  shows "bt_keys (fs_targets (au_view a c)) = bt_keys (fs_targets (bk_state (au_broker a))) \<and>
    list_all (\<lambda>key. alike (bt_get (fs_targets (au_view a c)) key) (bt_get (fs_targets (bk_state (au_broker a))) key))
      (bt_keys (fs_targets (au_view a c)))"
proof -
  have "view_ok (au_broker a) c (au_view a c)"
    using audience_reach.reachable_holds [OF assms(1)] by (simp add: audience_ok_def)
  then have view: "alike (bt_get (fs_targets (au_view a c)) key) (bt_get (fs_targets (bk_state (au_broker a))) key)" for key
    using assms(2,3) by (auto simp: view_ok_def follows_state_def)
  have "(\<exists>t. bt_get (fs_targets (au_view a c)) key = Some t) \<longleftrightarrow>
      (\<exists>t. bt_get (fs_targets (bk_state (au_broker a))) key = Some t)" for key
    using view [of key] by (auto simp: alike_def split: option.splits)
  then have "set (bt_keys (fs_targets (au_view a c))) = set (bt_keys (fs_targets (bk_state (au_broker a))))"
    by (auto simp: bt_keys_iff)
  then have "bt_keys (fs_targets (au_view a c)) = bt_keys (fs_targets (bk_state (au_broker a)))"
    by (intro strict_sorted_equal bt_keys_sorted)
  then show ?thesis using view by (simp add: list_all_iff)
qed

section \<open>A concrete audience\<close>

lemma attends_broker: "au_broker (fold (attend vt) events a) = fst (run vt events (au_broker a))"
  by (induction events arbitrary: a) (simp_all add: attend_def Let_def split_beta)

lemma attends_reach:
  assumes "reach (audience_step vt) a0 a" "roomy vt events (au_broker a)"
  shows "reach (audience_step vt) a0 (fold (attend vt) events a)"
  using assms
proof (induction events arbitrary: a)
  case (Cons event events)
  have "reach (audience_step vt) a0 (attend vt event a)"
    using Cons.prems by (auto intro: reach_step attended)
  then show ?case
    using Cons.prems(2) Cons.IH by (simp add: attend_def Let_def split_beta)
qed simp

text \<open>The two clients of a pane, then frames: a whole one and one more byte.\<close>

definition watched_frames :: "broker_event list" where
  "watched_frames = two_clients @
     [FrameArrived shared_pane 1 2 1 True [108], FrameArrived shared_pane 2 2 1 False [115]]"

abbreviation shared_audience :: "line_terminal audience" where
  "shared_audience \<equiv> fold (attend line_vt) watched_frames (audience_new [] [] [])"

lemma shared_audience_broker: "au_broker shared_audience = fst (run line_vt watched_frames (broker_new [] [] []))"
  by (simp add: attends_broker audience_new_def)

lemma shared_audience_reached: "reach (audience_step line_vt) (audience_new [] [] []) shared_audience"
proof (rule attends_reach [OF reach_start])
  have "roomy line_vt watched_frames (broker_new [] [] [])" by code_simp
  then show "roomy line_vt watched_frames (au_broker (audience_new [] [] []))" by (simp add: audience_new_def)
qed

theorem lease_told_truth_witness:
  "au_told shared_audience 0 shared_pane = Some Control \<and> au_told shared_audience 1 shared_pane = Some Observe"
proof -
  have "subscription_of (au_broker shared_audience) 0 shared_pane \<noteq> None"
    "subscription_of (au_broker shared_audience) 1 shared_pane \<noteq> None"
    "lease_holder (au_broker shared_audience) shared_pane = Some 0"
    unfolding shared_audience_broker by code_simp+
  then show ?thesis by (simp add: lease_told_truth [OF shared_audience_reached])
qed

theorem viewers_whole_witness:
  "\<exists>st. bt_get (bk_screens (au_broker shared_audience)) shared_pane = Some st \<and>
     sn_sequence (ss_last st) = 2 \<and> au_shown shared_audience 0 shared_pane = Shows (ss_last st)"
proof -
  have "map_option (\<lambda>st. sn_sequence (ss_last st)) (bt_get (bk_screens (au_broker shared_audience)) shared_pane) = Some 2"
    "map_option sb_sent (subscription_of (au_broker shared_audience) 0 shared_pane) = Some (Some 2)"
    unfolding shared_audience_broker by code_simp+
  then show ?thesis
    using viewers_whole [OF shared_audience_reached, of 0 shared_pane] by auto
qed

theorem ack_catches_up_witness:
  "\<exists>st. bt_get (bk_screens (au_broker shared_audience)) shared_pane = Some st \<and>
     au_shown (attend line_vt (Received 0 (AckPaneScreen shared_pane 1)) shared_audience) 0 shared_pane =
       Shows (ss_last st)"
proof -
  have "map_option sb_outstanding (subscription_of (au_broker shared_audience) 0 shared_pane) = Some [1, 2]"
    unfolding shared_audience_broker by code_simp
  then obtain s where "subscription_of (au_broker shared_audience) 0 shared_pane = Some s"
    "1 \<in> set (sb_outstanding s)" by auto
  from ack_catches_up [OF shared_audience_reached this] show ?thesis .
qed

text \<open>A third client follows the state; then the first host of the sample federation reports.\<close>

definition followed_events :: "broker_event list" where
  "followed_events = [Connected, Received 0 (ClientHello 3 []), Received 0 SubscribeState,
     FederationObserved (sample_federation (lit ''working'')),
     FederationObserved (sample_federation (lit ''blocked''))]"

abbreviation following_audience :: "line_terminal audience" where
  "following_audience \<equiv> fold (attend line_vt) followed_events (audience_new [] [] [])"

theorem view_follows_state_witness:
  "bt_keys (fs_targets (au_view following_audience 0)) = [TargetSession (lit ''alpha'') (lit ''dev''), TargetSession (lit ''beta'') (lit ''dev'')]"
proof -
  have broker: "au_broker following_audience = fst (run line_vt followed_events (broker_new [] [] []))"
    by (simp add: attends_broker audience_new_def)
  have reached: "reach (audience_step line_vt) (audience_new [] [] []) following_audience"
  proof (rule attends_reach [OF reach_start])
    have "roomy line_vt followed_events (broker_new [] [] [])"
      by (simp add: followed_events_def has_room_def broker_new_def)
    then show "roomy line_vt followed_events (au_broker (audience_new [] [] []))" by (simp add: audience_new_def)
  qed
  have "map_option cl_state_subscribed (bt_get (bk_clients (au_broker following_audience)) 0) = Some True"
    and keys: "bt_keys (fs_targets (bk_state (au_broker following_audience))) =
      [TargetSession (lit ''alpha'') (lit ''dev''), TargetSession (lit ''beta'') (lit ''dev'')]"
    unfolding broker by code_simp+
  then obtain session where "bt_get (bk_clients (au_broker following_audience)) 0 = Some session"
    "cl_state_subscribed session" by auto
  from view_follows_state [OF reached this] show ?thesis by (auto simp: keys)
qed

end
