(* ===== verification/Workspace_Move.thy ===== *)
theory Workspace_Move
  imports Protocol
begin

text \<open>
  Moving and recreating a workspace, \<open>src/src/workspace_move.rs\<close>: an exported split tree is
  reduced to the pane that opens the destination tab and the splits that rebuild the other
  panes around it, in order. Herdr and its private API are not part of the sources: the API
  is a parameter that answers one request after the other. JSON values are read through the
  accessors of \<open>json\<close> and \<open>as_f64\<close>; the numbers of ratios are of any type \<open>'f\<close>.
\<close>

section \<open>Plans\<close>

definition max_layout_depth :: nat where
  "max_layout_depth = 64"

record 'f split_move =
  sm_pane :: ustring
  sm_target_pane :: ustring
  sm_direction :: split_direction
  sm_ratio :: "'f option"

record 'f tab_move_plan =
  tp_anchor_pane :: ustring
  tp_splits :: "'f split_move list"

definition node_type :: "'v json \<Rightarrow> 'v \<Rightarrow> ustring option" where
  "node_type J node = optional_string J node (lit ''type'')"

definition too_deep :: ustring where
  "too_deep = lit ''exported layout is nested too deeply''"

definition unsupported_node :: ustring where
  "unsupported_node = lit ''exported layout contained an unsupported node''"

function leftmost_pane :: "'v json \<Rightarrow> 'v \<Rightarrow> nat \<Rightarrow> ustring result" where
  "leftmost_pane J node depth =
     (if depth > max_layout_depth then Inl too_deep
      else if node_type J node = Some (lit ''pane'')
      then ok_or (optional_string J node (lit ''pane_id'')) (lit ''exported layout pane has no identifier'')
      else if node_type J node = Some (lit ''split'')
      then (case jv_get J node (lit ''first'') of
              None \<Rightarrow> Inl (lit ''exported layout split has no first child'')
            | Some first \<Rightarrow> leftmost_pane J first (depth + 1))
      else Inl unsupported_node)"
  by pat_completeness auto
termination by (relation "measure (\<lambda>(J, node, depth). Suc max_layout_depth - depth)") auto

definition split_direction_of :: "'v json \<Rightarrow> 'v \<Rightarrow> split_direction result" where
  "split_direction_of J node = ok_or (Option.bind (optional_string J node (lit ''direction'')) split_from_api_value)
     (lit ''exported layout split has an unsupported direction'')"

definition child_of :: "'v json \<Rightarrow> 'v \<Rightarrow> string \<Rightarrow> 'v result" where
  "child_of J node which = ok_or (jv_get J node (lit which))
     (lit ''exported layout split has no '' @ lit which @ lit '' child'')"

definition split_ratio :: "'v json \<Rightarrow> ('v \<Rightarrow> 'f option) \<Rightarrow> 'v \<Rightarrow> 'f option" where
  "split_ratio J as_f64 node = Option.bind (jv_get J node (lit ''ratio'')) as_f64"

text \<open>The splits of a tree, in the order the source pushes them.\<close>

function collect_splits :: "'v json \<Rightarrow> ('v \<Rightarrow> 'f option) \<Rightarrow> 'v \<Rightarrow> nat \<Rightarrow> 'f split_move list result" where
  "collect_splits J as_f64 node depth =
     (if depth > max_layout_depth then Inl too_deep
      else if node_type J node = Some (lit ''pane'') then Inr []
      else if node_type J node = Some (lit ''split'')
      then (case child_of J node ''first'' of Inl e \<Rightarrow> Inl e | Inr first \<Rightarrow>
           (case child_of J node ''second'' of Inl e \<Rightarrow> Inl e | Inr second \<Rightarrow>
            and_then (split_direction_of J node) (\<lambda>direction.
            and_then (leftmost_pane J second (depth + 1)) (\<lambda>pane.
            and_then (leftmost_pane J first (depth + 1)) (\<lambda>target_pane.
            and_then (collect_splits J as_f64 first (depth + 1)) (\<lambda>splits1.
            and_then (collect_splits J as_f64 second (depth + 1)) (\<lambda>splits2.
              Inr (\<lparr>sm_pane = pane, sm_target_pane = target_pane, sm_direction = direction,
                    sm_ratio = split_ratio J as_f64 node\<rparr> # splits1 @ splits2))))))))
      else Inl unsupported_node)"
  by pat_completeness auto
termination by (relation "measure (\<lambda>(J, f, node, depth). Suc max_layout_depth - depth)") auto

declare leftmost_pane.simps [simp del] collect_splits.simps [simp del]

definition plan_tab_move :: "'v json \<Rightarrow> ('v \<Rightarrow> 'f option) \<Rightarrow> 'v \<Rightarrow> 'f tab_move_plan result" where
  "plan_tab_move J as_f64 root =
     and_then (leftmost_pane J root 0) (\<lambda>anchor_pane.
     and_then (collect_splits J as_f64 root 0) (\<lambda>splits.
       Inr \<lparr>tp_anchor_pane = anchor_pane, tp_splits = splits\<rparr>))"

section \<open>Recreation\<close>

definition max_recreated_panes :: nat where
  "max_recreated_panes = 64"

text \<open>The JSON the recreation builds: a pane with its directory and label, or a split.\<close>

datatype 'f recreated =
    RecreatedPane (rc_cwd: "ustring option") (rc_label: "ustring option")
  | RecreatedSplit split_direction 'f "'f recreated" "'f recreated"

definition nonempty :: "ustring option \<Rightarrow> ustring option" where
  "nonempty s = Option.bind s (\<lambda>t. if t = [] then None else Some t)"

function recreatable_layout ::
    "'v json \<Rightarrow> ('v \<Rightarrow> 'f option) \<Rightarrow> 'f \<Rightarrow> 'v \<Rightarrow> nat \<Rightarrow> ('f recreated \<times> u64) result" where
  "recreatable_layout J as_f64 half node depth =
     (if depth > max_layout_depth then Inl too_deep
      else if node_type J node = Some (lit ''pane'')
      then Inr (RecreatedPane (nonempty (optional_string J node (lit ''cwd'')))
        (nonempty (optional_string J node (lit ''label''))), 1)
      else if node_type J node = Some (lit ''split'')
      then and_then (split_direction_of J node) (\<lambda>direction.
           (case child_of J node ''first'' of Inl e \<Rightarrow> Inl e | Inr first \<Rightarrow>
           (case child_of J node ''second'' of Inl e \<Rightarrow> Inl e | Inr second \<Rightarrow>
            and_then (recreatable_layout J as_f64 half first (depth + 1)) (\<lambda>(first, first_panes).
            and_then (recreatable_layout J as_f64 half second (depth + 1)) (\<lambda>(second, second_panes).
              Inr (RecreatedSplit direction (unwrap_or half (split_ratio J as_f64 node)) first second,
                   saturating_add first_panes second_panes))))))
      else Inl unsupported_node)"
  by pat_completeness auto
termination by (relation "measure (\<lambda>(J, f, h, node, depth). Suc max_layout_depth - depth)") auto

declare recreatable_layout.simps [simp del]

record 'v exported_tab =
  et_label :: "ustring option"
  et_root :: 'v

record 'f recreatable_tab =
  rb_label :: "ustring option"
  rb_root :: "'f recreated"

fun recreatable_from ::
    "'v json \<Rightarrow> ('v \<Rightarrow> 'f option) \<Rightarrow> 'f \<Rightarrow> 'v exported_tab list \<Rightarrow> u64 \<Rightarrow> ('f recreatable_tab list \<times> u64) result" where
  "recreatable_from J as_f64 half [] panes = Inr ([], panes)"
| "recreatable_from J as_f64 half (tab # tabs) panes =
     and_then (recreatable_layout J as_f64 half (et_root tab) 0) (\<lambda>(root, tab_panes).
       let panes = saturating_add panes tab_panes
       in if unat panes > max_recreated_panes
          then Inl (lit ''recreating this workspace would start more than '' @ show_nat max_recreated_panes
            @ lit '' panes'')
          else and_then (recreatable_from J as_f64 half tabs panes) (\<lambda>(layouts, total).
            Inr (\<lparr>rb_label = et_label tab, rb_root = root\<rparr> # layouts, total)))"

definition recreatable_layouts ::
    "'v json \<Rightarrow> ('v \<Rightarrow> 'f option) \<Rightarrow> 'f \<Rightarrow> 'v exported_tab list \<Rightarrow> ('f recreatable_tab list \<times> u64) result" where
  "recreatable_layouts J as_f64 half exported = recreatable_from J as_f64 half exported 0"

section \<open>The requests\<close>

text \<open>The requests of Herdr's API the two operations send, with their parameters.\<close>

datatype 'f api_request =
    TabList ustring
  | LayoutExport ustring
  | MoveToNewTab (mv_pane: ustring) (mv_workspace: ustring) (mv_label: "ustring option")
  | MoveToTab (mv_pane: ustring) (mv_tab: ustring) (mv_split: ustring) (mv_target: ustring) (mv_ratio: "'f option")
  | WorkspaceCreate "ustring option" bool
  | LayoutApply (ap_place: "ustring + ustring") (ap_label: "ustring option") (ap_root: "'f recreated") (ap_focus: bool)

text \<open>An open session: its state, and how it answers a request.\<close>

type_synonym ('s, 'f, 'v) api = "'s \<Rightarrow> 'f api_request \<Rightarrow> 's \<times> 'v result"

text \<open>A fallible action on a session gives the session it leaves and its result.\<close>

definition thenS :: "'s \<times> 'a result \<Rightarrow> ('s \<Rightarrow> 'a \<Rightarrow> 's \<times> 'b result) \<Rightarrow> 's \<times> 'b result" where
  "thenS m f = (case m of (s, Inl e) \<Rightarrow> (s, Inl e) | (s, Inr x) \<Rightarrow> f s x)"

lemma thenS_simps [simp]: "thenS (s, Inl e) f = (s, Inl e)" "thenS (s, Inr x) f = f s x"
  by (simp_all add: thenS_def)

section \<open>Exporting\<close>

definition tab_id_of :: "'v json \<Rightarrow> 'v \<Rightarrow> ustring result" where
  "tab_id_of J tab = ok_or (optional_string J tab (lit ''tab_id''))
     (lit ''Herdr listed a tab without an identifier'')"

definition exported_root :: "'v json \<Rightarrow> 'v \<Rightarrow> 'v result" where
  "exported_root J response = ok_or (Option.bind (jv_get J response (lit ''layout''))
       (\<lambda>layout. jv_get J layout (lit ''root'')))
     (lit ''Herdr exported a tab without a layout'')"

fun export_tabs :: "'v json \<Rightarrow> ('s, 'f, 'v) api \<Rightarrow> 's \<Rightarrow> 'v list \<Rightarrow> 's \<times> 'v exported_tab list result" where
  "export_tabs J api s [] = (s, Inr [])"
| "export_tabs J api s (tab # tabs) =
     thenS (s, tab_id_of J tab) (\<lambda>s tab_id.
     thenS (api s (LayoutExport tab_id)) (\<lambda>s response.
     thenS (s, exported_root J response) (\<lambda>s root.
     thenS (export_tabs J api s tabs) (\<lambda>s exported.
       (s, Inr (\<lparr>et_label = nonempty (optional_string J tab (lit ''label'')), et_root = root\<rparr> # exported))))))"

definition export_workspace_tabs ::
    "'v json \<Rightarrow> ('s, 'f, 'v) api \<Rightarrow> 's \<Rightarrow> ustring \<Rightarrow> 's \<times> 'v exported_tab list result" where
  "export_workspace_tabs J api s workspace =
     thenS (api s (TabList workspace)) (\<lambda>s listed.
       let tabs = json_collection J listed (lit ''tabs'')
       in if tabs = [] then (s, Inl (lit ''the source workspace has no tabs''))
          else export_tabs J api s tabs)"

section \<open>Moving\<close>

record workspace_move_summary =
  sum_tabs :: u64
  sum_panes :: u64
  sum_source_closed :: bool

definition summary_default :: workspace_move_summary where
  "summary_default = \<lparr>sum_tabs = 0, sum_panes = 0, sum_source_closed = False\<rparr>"

definition moved_pane :: "'v json \<Rightarrow> 'v \<Rightarrow> ustring option" where
  "moved_pane J response = Option.bind (jv_get J response (lit ''move_result'')) (\<lambda>result.
     Option.bind (jv_get J result (lit ''pane'')) (\<lambda>pane. optional_string J pane (lit ''pane_id'')))"

definition closed_workspace :: "'v json \<Rightarrow> 'v \<Rightarrow> ustring option" where
  "closed_workspace J response = Option.bind (jv_get J response (lit ''move_result'')) (\<lambda>result.
     optional_string J result (lit ''closed_workspace_id''))"

definition created_tab_of :: "'v json \<Rightarrow> 'v \<Rightarrow> ustring option" where
  "created_tab_of J response = Option.bind (jv_get J response (lit ''move_result'')) (\<lambda>result.
     Option.bind (jv_get J result (lit ''created_tab'')) (\<lambda>tab. optional_string J tab (lit ''tab_id'')))"

type_synonym moved_ids = "ustring \<Rightarrow> ustring option"

definition record_move ::
    "'v json \<Rightarrow> ustring \<Rightarrow> 'v \<Rightarrow> moved_ids \<times> workspace_move_summary \<Rightarrow> moved_ids \<times> workspace_move_summary" where
  "record_move J source_pane response ms =
     (let (moved_ids, summary) = ms;
          moved_ids = (case moved_pane J response of
             Some moved \<Rightarrow> moved_ids(source_pane \<mapsto> moved) | None \<Rightarrow> moved_ids);
          summary = (if closed_workspace J response \<noteq> None then summary\<lparr>sum_source_closed := True\<rparr> else summary)
      in (moved_ids, summary\<lparr>sum_panes := saturating_add (sum_panes summary) 1\<rparr>))"

fun place_splits ::
    "'v json \<Rightarrow> ('s, 'f, 'v) api \<Rightarrow> ustring \<Rightarrow> 's \<Rightarrow> moved_ids \<times> workspace_move_summary \<Rightarrow> 'f split_move list
     \<Rightarrow> 's \<times> (moved_ids \<times> workspace_move_summary) result" where
  "place_splits J api created_tab s ms [] = (s, Inr ms)"
| "place_splits J api created_tab s ms (split # splits) =
     (let target_pane = unwrap_or (sm_target_pane split) (fst ms (sm_target_pane split))
      in thenS (api s (MoveToTab (sm_pane split) created_tab (split_cli_value (sm_direction split))
           target_pane (sm_ratio split))) (\<lambda>s placed.
         place_splits J api created_tab s (record_move J (sm_pane split) placed ms) splits))"

text \<open>One round of the loop over the exported tabs.\<close>

definition move_tab ::
    "'v json \<Rightarrow> ('v \<Rightarrow> 'f option) \<Rightarrow> ('s, 'f, 'v) api \<Rightarrow> ustring \<Rightarrow> 's \<Rightarrow> moved_ids \<times> workspace_move_summary \<Rightarrow>
     'v exported_tab \<Rightarrow> 's \<times> (moved_ids \<times> workspace_move_summary) result" where
  "move_tab J as_f64 api destination_workspace s ms tab =
     thenS (s, plan_tab_move J as_f64 (et_root tab)) (\<lambda>s plan.
     thenS (api s (MoveToNewTab (tp_anchor_pane plan) destination_workspace (et_label tab))) (\<lambda>s opened.
       let (moved_ids, summary) = record_move J (tp_anchor_pane plan) opened ms
       in thenS (s, ok_or (created_tab_of J opened) (lit ''Herdr did not report the created destination tab''))
         (\<lambda>s created_tab.
           place_splits J api created_tab s
             (moved_ids, summary\<lparr>sum_tabs := saturating_add (sum_tabs summary) 1\<rparr>) (tp_splits plan))))"

fun move_tabs ::
    "'v json \<Rightarrow> ('v \<Rightarrow> 'f option) \<Rightarrow> ('s, 'f, 'v) api \<Rightarrow> ustring \<Rightarrow> 's \<Rightarrow> moved_ids \<times> workspace_move_summary \<Rightarrow>
     'v exported_tab list \<Rightarrow> 's \<times> (moved_ids \<times> workspace_move_summary) result" where
  "move_tabs J as_f64 api destination s ms [] = (s, Inr ms)"
| "move_tabs J as_f64 api destination s ms (tab # tabs) =
     thenS (move_tab J as_f64 api destination s ms tab) (\<lambda>s ms. move_tabs J as_f64 api destination s ms tabs)"

text \<open>The state of the session is kept when the operation fails after it was opened.\<close>

definition move_workspace ::
    "'v json \<Rightarrow> ('v \<Rightarrow> 'f option) \<Rightarrow> ('s, 'f, 'v) api \<Rightarrow> 's result \<Rightarrow> ustring \<Rightarrow> ustring \<Rightarrow>
     's option \<times> workspace_move_summary result" where
  "move_workspace J as_f64 api session source destination =
     (if source = destination then (None, Inl (lit ''a workspace cannot be moved into itself''))
      else (case session of Inl e \<Rightarrow> (None, Inl e)
            | Inr s \<Rightarrow>
                (case thenS (export_workspace_tabs J api s source) (\<lambda>s exported.
                   thenS (move_tabs J as_f64 api destination s (\<lambda>_. None, summary_default) exported)
                     (\<lambda>s (moved_ids, summary). (s, Inr summary)))
                 of (s, r) \<Rightarrow> (Some s, r))))"

section \<open>Recreating\<close>

record workspace_recreate_summary =
  rsum_workspace :: ustring
  rsum_tabs :: u64
  rsum_panes :: u64

definition created_workspace :: "'v json \<Rightarrow> 'v \<Rightarrow> ustring result" where
  "created_workspace J created = ok_or (Option.bind (jv_get J created (lit ''workspace''))
       (\<lambda>workspace. optional_string J workspace (lit ''workspace_id'')))
     (lit ''Herdr did not report the created destination workspace'')"

definition first_tab_of :: "'v json \<Rightarrow> 'v \<Rightarrow> ustring option" where
  "first_tab_of J created = Option.bind (jv_get J created (lit ''tab''))
     (\<lambda>tab. optional_string J tab (lit ''tab_id''))"

fun apply_layouts ::
    "('s, 'f, 'v) api \<Rightarrow> ustring \<Rightarrow> ustring option \<Rightarrow> nat \<Rightarrow> 's \<Rightarrow> u64 \<Rightarrow> 'f recreatable_tab list \<Rightarrow> 's \<times> u64 result" where
  "apply_layouts api workspace first_tab total_tabs s tabs [] = (s, Inr tabs)"
| "apply_layouts api workspace first_tab total_tabs s tabs (tab # layouts) =
     (let place = (case first_tab of Some tab_id \<Rightarrow> Inl tab_id | None \<Rightarrow> Inr workspace)
      in case api s (LayoutApply place (rb_label tab) (rb_root tab) False) of
           (s, Inl e) \<Rightarrow> (s, Inl (e @ lit ''; workspace '' @ workspace @ lit '' on the destination holds ''
              @ show_word tabs @ lit '' of '' @ show_nat total_tabs @ lit '' recreated tab(s)''))
         | (s, Inr _) \<Rightarrow> apply_layouts api workspace None total_tabs s (saturating_add tabs 1) layouts)"

text \<open>The source's session and the destination's; the latter is opened once the layouts are
  known to be recreatable.\<close>

definition recreate_workspace ::
    "'v json \<Rightarrow> ('v \<Rightarrow> 'f option) \<Rightarrow> 'f \<Rightarrow> ('s, 'f, 'v) api \<Rightarrow> 's result \<Rightarrow> 's result \<Rightarrow> ustring \<Rightarrow> ustring option \<Rightarrow>
     's option \<times> workspace_recreate_summary result" where
  "recreate_workspace J as_f64 half api source_opened destination_opened source_workspace label =
     (case and_then source_opened (\<lambda>s.
             and_then (snd (export_workspace_tabs J api s source_workspace)) (recreatable_layouts J as_f64 half))
      of Inl e \<Rightarrow> (None, Inl e)
       | Inr (layouts, panes) \<Rightarrow>
           (case destination_opened of Inl e \<Rightarrow> (None, Inl e)
            | Inr s \<Rightarrow>
                (case thenS (api s (WorkspaceCreate label False)) (\<lambda>s created.
                   thenS (s, created_workspace J created) (\<lambda>s workspace.
                   thenS (apply_layouts api workspace (first_tab_of J created) (length layouts) s 0 layouts)
                     (\<lambda>s tabs. (s, Inr \<lparr>rsum_workspace = workspace, rsum_tabs = tabs, rsum_panes = panes\<rparr>))))
                 of (s, r) \<Rightarrow> (Some s, r))))"

section \<open>Split trees\<close>

text \<open>The tree an exported layout describes: what Herdr shows in a tab.\<close>

datatype ('a, 'f) layout =
    LPane 'a
  | LSplit split_direction "'f option" "('a, 'f) layout" "('a, 'f) layout"

primrec leaves :: "('a, 'f) layout \<Rightarrow> 'a list" where
  "leaves (LPane p) = [p]"
| "leaves (LSplit d r a b) = leaves a @ leaves b"

primrec leftmost :: "('a, 'f) layout \<Rightarrow> 'a" where
  "leftmost (LPane p) = p"
| "leftmost (LSplit d r a b) = leftmost a"

primrec rename :: "('a \<Rightarrow> 'b) \<Rightarrow> ('a, 'f) layout \<Rightarrow> ('b, 'f) layout" where
  "rename g (LPane p) = LPane (g p)"
| "rename g (LSplit d r a b) = LSplit d r (rename g a) (rename g b)"

text \<open>The leaf \<open>p\<close> replaced by a tree.\<close>

primrec graft :: "'a \<Rightarrow> ('a, 'f) layout \<Rightarrow> ('a, 'f) layout \<Rightarrow> ('a, 'f) layout" where
  "graft p u (LPane q) = (if q = p then u else LPane q)"
| "graft p u (LSplit d r a b) = LSplit d r (graft p u a) (graft p u b)"

function read_layout :: "'v json \<Rightarrow> ('v \<Rightarrow> 'f option) \<Rightarrow> 'v \<Rightarrow> nat \<Rightarrow> (ustring, 'f) layout option" where
  "read_layout J as_f64 node depth =
     (if depth > max_layout_depth then None
      else if node_type J node = Some (lit ''pane'')
      then map_option LPane (optional_string J node (lit ''pane_id''))
      else if node_type J node = Some (lit ''split'')
      then Option.bind (jv_get J node (lit ''first'')) (\<lambda>first.
           Option.bind (jv_get J node (lit ''second'')) (\<lambda>second.
           Option.bind (Option.bind (optional_string J node (lit ''direction'')) split_from_api_value) (\<lambda>direction.
           Option.bind (read_layout J as_f64 first (depth + 1)) (\<lambda>a.
           Option.bind (read_layout J as_f64 second (depth + 1)) (\<lambda>b.
             Some (LSplit direction (split_ratio J as_f64 node) a b))))))
      else None)"
  by pat_completeness auto
termination by (relation "measure (\<lambda>(J, f, node, depth). Suc max_layout_depth - depth)") auto

declare read_layout.simps [simp del]

primrec splits_of :: "(ustring, 'f) layout \<Rightarrow> 'f split_move list" where
  "splits_of (LPane p) = []"
| "splits_of (LSplit d r a b) =
     \<lparr>sm_pane = leftmost b, sm_target_pane = leftmost a, sm_direction = d, sm_ratio = r\<rparr> # splits_of a @ splits_of b"

lemma leftmost_leaf [simp]: "leftmost t \<in> set (leaves t)"
  by (induction t) auto

lemma leaves_nonempty [simp]: "leaves t \<noteq> []"
  by (induction t) auto

lemma leaves_rename [simp]: "leaves (rename g t) = map g (leaves t)"
  by (induction t) auto

lemma leftmost_rename [simp]: "leftmost (rename g t) = g (leftmost t)"
  by (induction t) auto

lemma rename_cong: "(\<And>p. p \<in> set (leaves t) \<Longrightarrow> g p = h p) \<Longrightarrow> rename g t = rename h t"
  by (induction t) auto

lemma length_splits_of: "Suc (length (splits_of t)) = length (leaves t)"
  by (induction t) auto

lemma graft_fresh: "p \<notin> set (leaves t) \<Longrightarrow> graft p u t = t"
  by (induction t) auto

lemma leaves_graft:
  "set (leaves (graft p u t)) = (set (leaves t) - {p}) \<union> (if p \<in> set (leaves t) then set (leaves u) else {})"
  by (induction t) auto

lemma graft_leaf [simp]: "graft p u (LPane p) = u"
  by simp

lemma graft_graft: "graft p s (graft p u t) = graft p (graft p s u) t"
  by (induction t) auto

lemma graft_inside: "q \<notin> set (leaves t) \<Longrightarrow> graft q s (graft p u t) = graft p (graft q s u) t"
  by (induction t) auto

lemma rename_graft:
  "inj_on g (insert p (set (leaves t))) \<Longrightarrow> rename g (graft p u t) = graft (g p) (rename g u) (rename g t)"
proof (induction t)
  case (LPane q)
  then show ?case by (auto simp: inj_on_def)
next
  case (LSplit d r a b)
  then show ?case by (auto intro: inj_on_subset)
qed

section \<open>What a plan is\<close>

text \<open>Reading the leftmost pane and the splits directly from the JSON is reading the tree.\<close>

lemma pane_not_split [simp]: "lit ''split'' \<noteq> lit ''pane''" "lit ''pane'' \<noteq> lit ''split''"
  by (simp_all add: lit_def)

lemma read_layout_pane:
  "read_layout J f node depth = Some (LPane p) \<longleftrightarrow>
   depth \<le> max_layout_depth \<and> node_type J node = Some (lit ''pane'') \<and> optional_string J node (lit ''pane_id'') = Some p"
  by (subst read_layout.simps) (auto split: bind_splits)

lemma read_layout_split:
  "read_layout J f node depth = Some (LSplit d r a b) \<longleftrightarrow>
   depth \<le> max_layout_depth \<and> node_type J node = Some (lit ''split'') \<and> split_direction_of J node = Inr d
   \<and> r = split_ratio J f node
   \<and> (\<exists>first second. child_of J node ''first'' = Inr first \<and> child_of J node ''second'' = Inr second
       \<and> read_layout J f first (depth + 1) = Some a \<and> read_layout J f second (depth + 1) = Some b)"
  by (subst read_layout.simps) (auto simp: child_of_def split_direction_of_def bind_eq_Some_conv)

lemma leftmost_pane_read: "read_layout J f node depth = Some t \<Longrightarrow> leftmost_pane J node depth = Inr (leftmost t)"
  by (induction t arbitrary: node depth; subst leftmost_pane.simps)
    (auto simp: read_layout_pane read_layout_split child_of_def)

lemma collect_splits_read: "read_layout J f node depth = Some t \<Longrightarrow> collect_splits J f node depth = Inr (splits_of t)"
  by (induction t arbitrary: node depth; subst collect_splits.simps)
    (auto simp: read_layout_pane read_layout_split leftmost_pane_read [where f = f])

lemma read_collect_splits:
  "leftmost_pane J node depth = Inr p \<Longrightarrow> collect_splits J f node depth = Inr ss \<Longrightarrow>
   \<exists>t. read_layout J f node depth = Some t"
proof (induction J f node depth arbitrary: p ss rule: read_layout.induct)
  case (1 J f node depth)
  show ?case
  proof (cases "node_type J node = Some (lit ''split'')")
    case False
    with 1(3,4) show ?thesis
      by (subst read_layout.simps, subst (asm) leftmost_pane.simps)
        (auto split: if_splits)
  next
    case True
    have split: "lit ''split'' \<noteq> lit ''pane''" by (simp add: lit_def)
    with True 1(4) have depth: "\<not> max_layout_depth < depth"
      by (subst (asm) collect_splits.simps) (simp split: if_splits)
    from True split depth 1(4) obtain first second d p1 p2 ss1 ss2 where parts:
      "jv_get J node (lit ''first'') = Some first" "jv_get J node (lit ''second'') = Some second"
      "Option.bind (optional_string J node (lit ''direction'')) split_from_api_value = Some d"
      "leftmost_pane J second (depth + 1) = Inr p2" "leftmost_pane J first (depth + 1) = Inr p1"
      "collect_splits J f first (depth + 1) = Inr ss1" "collect_splits J f second (depth + 1) = Inr ss2"
      by (subst (asm) collect_splits.simps)
        (auto simp: child_of_def split_direction_of_def and_then_eq_Inr split: sum.splits)
    from True split depth parts 1(1) [of first second d] obtain a where
      a: "read_layout J f first (depth + 1) = Some a" by auto
    with True split depth parts 1(2) [of first second d a] obtain b where
      "read_layout J f second (depth + 1) = Some b" by auto
    with True split depth parts a show ?thesis by (subst read_layout.simps) simp
  qed
qed

lemma plan_tab_move_eq:
  "plan_tab_move J f root = Inr plan \<longleftrightarrow>
   (\<exists>t. read_layout J f root 0 = Some t \<and> plan = \<lparr>tp_anchor_pane = leftmost t, tp_splits = splits_of t\<rparr>)"
  by (auto simp: plan_tab_move_def and_then_eq_Inr leftmost_pane_read collect_splits_read
      dest: read_collect_splits) (metis Inr_inject collect_splits_read leftmost_pane_read read_collect_splits)

section \<open>Replaying a plan\<close>

text \<open>One split acts on a tree by splitting the leaf it targets.\<close>

definition place_split :: "'f split_move \<Rightarrow> (ustring, 'f) layout \<Rightarrow> (ustring, 'f) layout" where
  "place_split m = graft (sm_target_pane m)
     (LSplit (sm_direction m) (sm_ratio m) (LPane (sm_target_pane m)) (LPane (sm_pane m)))"

text \<open>Each split targets a pane that is placed and places one that is not.\<close>

fun placeable :: "(ustring, 'f) layout \<Rightarrow> 'f split_move list \<Rightarrow> bool" where
  "placeable t [] \<longleftrightarrow> True"
| "placeable t (m # ms) \<longleftrightarrow> sm_target_pane m \<in> set (leaves t) \<and> sm_pane m \<notin> set (leaves t)
     \<and> placeable (place_split m t) ms"

lemma placeable_append: "placeable t (ms @ ns) \<longleftrightarrow> placeable t ms \<and> placeable (fold place_split ms t) ns"
  by (induction ms arbitrary: t) auto

lemma replay_splits:
  assumes "distinct (leaves t)" and "leftmost t \<in> set (leaves c)"
    and "\<And>p. p \<in> set (leaves t) \<Longrightarrow> p \<noteq> leftmost t \<Longrightarrow> p \<notin> set (leaves c)"
  shows "placeable c (splits_of t) \<and> fold place_split (splits_of t) c = graft (leftmost t) t c"
  using assms
proof (induction t arbitrary: c)
  case (LPane p)
  have "graft p (LPane p) c = c" by (induction c) auto
  then show ?case by simp
next
  case (LSplit d r a b)
  let ?fa = "leftmost a" and ?fb = "leftmost b"
  let ?m = "\<lparr>sm_pane = ?fb, sm_target_pane = ?fa, sm_direction = d, sm_ratio = r\<rparr>"
  let ?c1 = "place_split ?m c" and ?c2 = "graft ?fa (LSplit d r a (LPane ?fb)) c"
  have disj: "set (leaves a) \<inter> set (leaves b) = {}" and dist: "distinct (leaves a)" "distinct (leaves b)"
    using LSplit.prems(1) by auto
  have fb: "?fb \<notin> set (leaves a)" "?fa \<noteq> ?fb" "?fa \<notin> set (leaves b)"
    using disj leftmost_leaf [of a] leftmost_leaf [of b] by (auto simp del: leftmost_leaf)
  have fb_c: "?fb \<notin> set (leaves c)" using LSplit.prems(3) [of ?fb] fb by simp
  have fa_c: "?fa \<in> set (leaves c)" using LSplit.prems(2) by simp
  have c1: "set (leaves ?c1) = insert ?fb (set (leaves c))"
    using fa_c by (auto simp: place_split_def leaves_graft)
  have c2: "set (leaves ?c2) = set (leaves c) \<union> set (leaves a) \<union> {?fb}"
    using fa_c leftmost_leaf [of a] by (auto simp: leaves_graft)
  have "placeable ?c1 (splits_of a) \<and> fold place_split (splits_of a) ?c1 = graft ?fa a ?c1"
    using c1 fa_c fb dist LSplit.prems(3) by (intro LSplit.IH(1)) auto
  moreover have "graft ?fa a ?c1 = ?c2"
    using fb by (simp add: place_split_def graft_graft)
  moreover have "placeable ?c2 (splits_of b) \<and> fold place_split (splits_of b) ?c2 = graft ?fb b ?c2"
    using c2 fb dist disj LSplit.prems(3) by (intro LSplit.IH(2)) auto
  moreover have "graft ?fb b ?c2 = graft ?fa (LSplit d r a b) c"
    using fb fb_c by (simp add: graft_inside graft_fresh)
  ultimately show ?case
    using fa_c fb_c by (simp add: placeable_append)
qed

lemma replay_plan:
  assumes "distinct (leaves t)"
  shows "placeable (LPane (leftmost t)) (splits_of t)" and "fold place_split (splits_of t) (LPane (leftmost t)) = t"
  using replay_splits [of t "LPane (leftmost t)"] assms by auto

section \<open>A moved tab\<close>

text \<open>
  What Herdr documents of \<open>pane.move\<close>, for the trees \<open>shown s tab\<close> that a session shows: a
  pane moved to a new tab is the only pane of the tab the response names, a pane moved into a
  tab splits the pane it targets there; the response carries the identifier the pane has from
  then on, which no other pane of the tab has.
\<close>

definition pane_move_documented ::
    "'v json \<Rightarrow> ('s, 'f, 'v) api \<Rightarrow> ('s \<Rightarrow> ustring \<Rightarrow> (ustring, 'f) layout option) \<Rightarrow> bool" where
  "pane_move_documented J api shown \<longleftrightarrow>
     (\<forall>s pane workspace label s' response.
        api s (MoveToNewTab pane workspace label) = (s', Inr response) \<longrightarrow>
        (\<exists>tab new. created_tab_of J response = Some tab \<and> moved_pane J response = Some new
           \<and> shown s' tab = Some (LPane new)))
   \<and> (\<forall>s pane tab direction target ratio t s' response.
        api s (MoveToTab pane tab (split_cli_value direction) target ratio) = (s', Inr response) \<longrightarrow>
        shown s tab = Some t \<longrightarrow> target \<in> set (leaves t) \<longrightarrow>
        (\<exists>new. moved_pane J response = Some new \<and> new \<notin> set (leaves t)
           \<and> shown s' tab = Some (graft target (LSplit direction ratio (LPane target) (LPane new)) t)))"

lemma move_to_new_tab:
  assumes "pane_move_documented J api shown" and "api s (MoveToNewTab pane workspace label) = (s', Inr response)"
  obtains tab new where "created_tab_of J response = Some tab" "moved_pane J response = Some new"
    "shown s' tab = Some (LPane new)"
  using assms unfolding pane_move_documented_def by meson

lemma move_to_tab:
  assumes "pane_move_documented J api shown"
    and "api s (MoveToTab pane tab (split_cli_value direction) target ratio) = (s', Inr response)"
    and "shown s tab = Some t" and "target \<in> set (leaves t)"
  obtains new where "moved_pane J response = Some new" "new \<notin> set (leaves t)"
    "shown s' tab = Some (graft target (LSplit direction ratio (LPane target) (LPane new)) t)"
  using assms unfolding pane_move_documented_def by meson

text \<open>The tab shows the tree \<open>t\<close> of source panes under the identifiers recorded so far.\<close>

definition shows_moved ::
    "('s \<Rightarrow> ustring \<Rightarrow> (ustring, 'f) layout option) \<Rightarrow> 's \<Rightarrow> ustring \<Rightarrow> moved_ids \<Rightarrow> (ustring, 'f) layout \<Rightarrow> bool" where
  "shows_moved shown s tab moved t \<longleftrightarrow> (\<forall>p \<in> set (leaves t). moved p \<noteq> None)
     \<and> inj_on (\<lambda>p. the (moved p)) (set (leaves t)) \<and> shown s tab = Some (rename (\<lambda>p. the (moved p)) t)"

text \<open>An error of an operation is one Herdr answered with.\<close>

definition api_error :: "('s, 'f, 'v) api \<Rightarrow> ustring \<Rightarrow> bool" where
  "api_error api e \<longleftrightarrow> (\<exists>s request s'. api s request = (s', Inl e))"

lemma place_split_shown:
  assumes "shows_moved shown s tab moved t" and "sm_target_pane m \<in> set (leaves t)" and "sm_pane m \<notin> set (leaves t)"
    and "new \<notin> set (leaves (rename (\<lambda>p. the (moved p)) t))"
    and "shown s' tab = Some (graft (the (moved (sm_target_pane m))) (LSplit (sm_direction m) (sm_ratio m)
           (LPane (the (moved (sm_target_pane m)))) (LPane new)) (rename (\<lambda>p. the (moved p)) t))"
  shows "shows_moved shown s' tab (moved(sm_pane m \<mapsto> new)) (place_split m t)"
proof -
  let ?moved = "moved(sm_pane m \<mapsto> new)"
  let ?g = "\<lambda>p. the (moved p)" and ?h = "\<lambda>p. the (?moved p)"
  have leaves: "set (leaves (place_split m t)) = insert (sm_pane m) (set (leaves t))"
    using assms(2) by (auto simp: place_split_def leaves_graft)
  have same: "?h p = ?g p" if "p \<in> set (leaves t)" for p using that assms(3) by auto
  have "inj_on ?g (set (leaves t))" using assms(1) by (simp add: shows_moved_def)
  then have inj: "inj_on ?h (set (leaves t))" using same by (simp cong: inj_on_cong)
  have "?h (sm_pane m) \<notin> ?h ` set (leaves t)" using assms(4) same by auto
  with inj have inj': "inj_on ?h (insert (sm_pane m) (set (leaves t)))" using assms(3) by simp
  have "rename ?h t = rename ?g t" by (rule rename_cong) (rule same)
  moreover have "rename ?h (place_split m t) = graft (?h (sm_target_pane m)) (LSplit (sm_direction m) (sm_ratio m)
      (LPane (?h (sm_target_pane m))) (LPane (?h (sm_pane m)))) (rename ?h t)"
    unfolding place_split_def using inj assms(2) by (subst rename_graft) (simp_all add: insert_absorb)
  ultimately have "shown s' tab = Some (rename ?h (place_split m t))"
    using assms(2,3,5) same by (simp del: fun_upd_apply) simp
  then show ?thesis
    using assms(1) inj' unfolding shows_moved_def leaves by auto
qed

lemma place_splits_shown:
  assumes "pane_move_documented J api shown" and "placeable t splits" and "shows_moved shown s tab (fst ms) t"
    and "place_splits J api tab s ms splits = (s', result)"
  shows "(\<exists>ms'. result = Inr ms' \<and> shows_moved shown s' tab (fst ms') (fold place_split splits t)
        \<and> unat (sum_panes (snd ms')) = min (unat (sum_panes (snd ms)) + length splits) (2 ^ 64 - 1)
        \<and> sum_tabs (snd ms') = sum_tabs (snd ms))
     \<or> (\<exists>e. result = Inl e \<and> api_error api e)"
  using assms(2-)
proof (induction splits arbitrary: t s ms)
  case Nil
  moreover have "unat (sum_panes (snd ms)) < 2 ^ 64" using unsigned_less [of "sum_panes (snd ms)"] by simp
  ultimately show ?case by (cases ms) auto
next
  case (Cons m splits)
  let ?target = "the (fst ms (sm_target_pane m))"
  let ?request = "MoveToTab (sm_pane m) tab (split_cli_value (sm_direction m)) ?target (sm_ratio m)"
  from Cons.prems have target: "sm_target_pane m \<in> set (leaves t)" "fst ms (sm_target_pane m) = Some ?target"
    by (auto simp: shows_moved_def)
  then have unwrap: "unwrap_or (sm_target_pane m) (fst ms (sm_target_pane m)) = ?target"
    by (cases "fst ms (sm_target_pane m)") auto
  have shown: "shown s tab = Some (rename (\<lambda>p. the (fst ms p)) t)" using Cons.prems by (simp add: shows_moved_def)
  obtain s1 answer where answer: "api s ?request = (s1, answer)" by fastforce
  show ?case
  proof (cases answer)
    case (Inl e)
    with answer unwrap Cons.prems(3) have "result = Inl e" by simp
    with answer Inl show ?thesis by (auto simp: api_error_def)
  next
    case (Inr placed)
    obtain new where new: "moved_pane J placed = Some new" "new \<notin> set (leaves (rename (\<lambda>p. the (fst ms p)) t))"
      "shown s1 tab = Some (graft ?target (LSplit (sm_direction m) (sm_ratio m) (LPane ?target) (LPane new))
         (rename (\<lambda>p. the (fst ms p)) t))"
      using target by (rule_tac move_to_tab [OF assms(1) answer [unfolded Inr] shown]) auto
    let ?ms = "record_move J (sm_pane m) placed ms"
    have moved: "fst ?ms = (fst ms)(sm_pane m \<mapsto> new)"
      and panes: "sum_panes (snd ?ms) = saturating_add (sum_panes (snd ms)) 1" "sum_tabs (snd ?ms) = sum_tabs (snd ms)"
      using new(1) by (simp_all add: record_move_def Let_def split_beta)
    have "shows_moved shown s1 tab (fst ?ms) (place_split m t)"
      unfolding moved using Cons.prems target new by (intro place_split_shown) auto
    moreover have "place_splits J api tab s1 ?ms splits = (s', result)"
      using Cons.prems(3) answer Inr unwrap by simp
    moreover have "placeable (place_split m t) splits" using Cons.prems by simp
    ultimately show ?thesis
      using Cons.IH [of "place_split m t" s1 ?ms] panes by (auto simp: unat_saturating_add)
  qed
qed

text \<open>
  C6. Moving a tab rebuilds it. Take an exported layout that reads as a tree of distinct panes,
  and a Herdr that moves panes as documented. Either the round of \<open>move_workspace\<close> for this tab
  fails with an error Herdr answered, or it ends with a destination tab that shows exactly the
  exported tree - the same splits, directions and ratios, every pane in its place under the
  identifier recorded for it - and the summary counts one more tab and each of its panes once.
  A layout that does not read as a tree is refused before anything is moved.
\<close>

theorem move_tab_rebuilds:
  assumes "pane_move_documented J api shown"
    and "move_tab J as_f64 api destination s ms tab = (s', result)"
  shows "(case read_layout J as_f64 (et_root tab) 0 of
       None \<Rightarrow> s' = s \<and> (\<exists>e. result = Inl e)
     | Some t \<Rightarrow> distinct (leaves t) \<longrightarrow>
         (\<exists>e. result = Inl e \<and> api_error api e)
       \<or> (\<exists>created ms'. result = Inr ms' \<and> shows_moved shown s' created (fst ms') t
            \<and> unat (sum_panes (snd ms')) = min (unat (sum_panes (snd ms)) + length (leaves t)) (2 ^ 64 - 1)
            \<and> sum_tabs (snd ms') = saturating_add (sum_tabs (snd ms)) 1))"
proof (cases "read_layout J as_f64 (et_root tab) 0")
  case None
  then obtain e where "plan_tab_move J as_f64 (et_root tab) = Inl e"
    using plan_tab_move_eq [of J as_f64 "et_root tab"] by (cases "plan_tab_move J as_f64 (et_root tab)") auto
  with assms(2) None show ?thesis by (auto simp: move_tab_def)
next
  case (Some t)
  then have plan: "plan_tab_move J as_f64 (et_root tab) = Inr \<lparr>tp_anchor_pane = leftmost t, tp_splits = splits_of t\<rparr>"
    by (simp add: plan_tab_move_eq)
  obtain s1 answer where answer: "api s (MoveToNewTab (leftmost t) destination (et_label tab)) = (s1, answer)"
    by fastforce
  show ?thesis
  proof (cases answer)
    case (Inl e)
    with assms(2) answer plan have "result = Inl e" by (simp add: move_tab_def)
    with answer Inl Some show ?thesis by (auto simp: api_error_def)
  next
    case (Inr opened)
    obtain created new where new: "created_tab_of J opened = Some created" "moved_pane J opened = Some new"
      "shown s1 created = Some (LPane new)" by (rule move_to_new_tab [OF assms(1) answer [unfolded Inr]])
    obtain moved summary where ms: "record_move J (leftmost t) opened ms = (moved, summary)" by fastforce
    let ?ms = "(moved, summary\<lparr>sum_tabs := saturating_add (sum_tabs summary) 1\<rparr>)"
    have moved: "moved (leftmost t) = Some new" "sum_panes summary = saturating_add (sum_panes (snd ms)) 1"
      "sum_tabs summary = sum_tabs (snd ms)"
      using ms new(2) by (auto simp: record_move_def Let_def split_beta)
    have placed: "place_splits J api created s1 ?ms (splits_of t) = (s', result)"
      using assms(2) answer Inr plan ms new(1) by (simp add: move_tab_def)
    have "shows_moved shown s1 created (fst ?ms) (LPane (leftmost t))"
      using moved new(3) by (simp add: shows_moved_def)
    moreover have "min (unat (sum_panes summary) + length (splits_of t)) (2 ^ 64 - 1)
        = min (unat (sum_panes (snd ms)) + length (leaves t)) (2 ^ 64 - 1)"
      unfolding moved(2) length_splits_of [of t, symmetric] by (simp add: unat_saturating_add)
    ultimately have "distinct (leaves t) \<longrightarrow> (\<exists>e. result = Inl e \<and> api_error api e)
       \<or> (\<exists>ms'. result = Inr ms' \<and> shows_moved shown s' created (fst ms') t
            \<and> unat (sum_panes (snd ms')) = min (unat (sum_panes (snd ms)) + length (leaves t)) (2 ^ 64 - 1)
            \<and> sum_tabs (snd ms') = saturating_add (sum_tabs (snd ms)) 1)"
      using replay_plan [of t] place_splits_shown [OF assms(1) _ _ placed, of "LPane (leftmost t)"] moved(3)
      by fastforce
    with Some show ?thesis by auto
  qed
qed

text \<open>A session that keeps the trees of its tabs and moves panes as documented.\<close>

type_synonym tab_trees = "ustring \<Rightarrow> (ustring, u64) layout option"

definition move_response :: "ustring \<Rightarrow> ustring \<Rightarrow> document" where
  "move_response tab pane = DocObject [(lit ''move_result'', DocObject
     [(lit ''pane'', DocObject [(lit ''pane_id'', DocString pane)]),
      (lit ''created_tab'', DocObject [(lit ''tab_id'', DocString tab)])])]"

definition tab_server :: "(tab_trees, u64, document) api" where
  "tab_server s request = (case request of
     MoveToNewTab pane workspace label \<Rightarrow> (s(workspace \<mapsto> LPane pane), Inr (move_response workspace pane))
   | MoveToTab pane tab direction target ratio \<Rightarrow>
       (case (s tab, split_from_api_value direction) of
          (Some t, Some d) \<Rightarrow>
            let new = concat (leaves t) @ [0]
            in (s(tab \<mapsto> graft target (LSplit d ratio (LPane target) (LPane new)) t), Inr (move_response tab new))
        | _ \<Rightarrow> (s, Inl (lit ''no such tab'')))
   | _ \<Rightarrow> (s, Inl (lit ''not served'')))"

lemma moved_pane_response [simp]:
  "moved_pane document_json (move_response tab pane) = Some pane"
  "created_tab_of document_json (move_response tab pane) = Some tab"
  by (simp_all add: moved_pane_def created_tab_of_def optional_string_def move_response_def document_json_def lit_def)

lemma concat_fresh: "x \<in> set xs \<Longrightarrow> length x \<le> length (concat xs)"
  by (induction xs) auto

lemma split_value_roundtrip [simp]: "split_from_api_value (split_cli_value d) = Some d"
  by (cases d) (simp_all add: split_from_api_value_def split_cli_value_def lit_def)

lemma tab_server_documented: "pane_move_documented document_json tab_server (\<lambda>s. s)"
proof -
  have "concat xs @ [0] \<notin> set xs" for xs :: "ustring list"
    using concat_fresh [of "concat xs @ [0]" xs] by auto
  then show ?thesis
    by (auto simp: pane_move_documented_def tab_server_def Let_def)
qed

definition pane_node :: "string \<Rightarrow> document" where
  "pane_node p = DocObject [(lit ''type'', DocString (lit ''pane'')), (lit ''pane_id'', DocString (lit p))]"

definition split_node :: "string \<Rightarrow> u64 \<Rightarrow> document \<Rightarrow> document \<Rightarrow> document" where
  "split_node d r a b = DocObject [(lit ''type'', DocString (lit ''split'')), (lit ''direction'', DocString (lit d)),
     (lit ''ratio'', DocNumber r), (lit ''first'', a), (lit ''second'', b)]"

definition doc_ratio :: "document \<Rightarrow> u64 option" where
  "doc_ratio v = jv_as_u64 document_json v"

definition nested_tab :: "document exported_tab" where
  "nested_tab = \<lparr>et_label = None, et_root = split_node ''right'' 50
     (split_node ''down'' 25 (pane_node ''p1'') (pane_node ''p2'')) (pane_node ''p3'')\<rparr>"

definition nested_tree :: "(ustring, u64) layout" where
  "nested_tree = LSplit SplitRight (Some 50)
     (LSplit SplitDown (Some 25) (LPane (lit ''p1'')) (LPane (lit ''p2''))) (LPane (lit ''p3''))"

definition nested_move :: "tab_trees \<times> (moved_ids \<times> workspace_move_summary) result" where
  "nested_move = move_tab document_json doc_ratio tab_server (lit ''w9'') (\<lambda>_. None) (\<lambda>_. None, summary_default) nested_tab"

theorem move_tab_rebuilds_witness:
  "\<exists>created ms'. snd nested_move = Inr ms' \<and> shows_moved (\<lambda>s. s) (fst nested_move) created (fst ms') nested_tree
     \<and> unat (sum_panes (snd ms')) = 3"
proof -
  have "read_layout document_json doc_ratio (et_root nested_tab) 0 = Some nested_tree"
    "distinct (leaves nested_tree)" "length (leaves nested_tree) = 3" by code_simp+
  moreover have "\<not> isl (snd nested_move)" by code_simp
  moreover have "unat (sum_panes summary_default) = 0" by (simp add: summary_default_def)
  ultimately show ?thesis
    using move_tab_rebuilds [OF tab_server_documented, of doc_ratio "lit ''w9''" "\<lambda>_. None" "(\<lambda>_. None, summary_default)"
        nested_tab "fst nested_move" "snd nested_move"]
    by (auto simp flip: nested_move_def)
qed

section \<open>A recreated workspace\<close>

primrec recreated_panes :: "'f recreated \<Rightarrow> nat" where
  "recreated_panes (RecreatedPane cwd label) = 1"
| "recreated_panes (RecreatedSplit d r a b) = recreated_panes a + recreated_panes b"

text \<open>The same splits, directions and ratios; a ratio that is not recorded is one half.\<close>

fun same_shape :: "'f \<Rightarrow> ('a, 'f) layout \<Rightarrow> 'f recreated \<Rightarrow> bool" where
  "same_shape half (LPane p) (RecreatedPane cwd label) \<longleftrightarrow> True"
| "same_shape half (LSplit d r a b) (RecreatedSplit d' r' a' b') \<longleftrightarrow>
     d' = d \<and> r' = unwrap_or half r \<and> same_shape half a a' \<and> same_shape half b b'"
| "same_shape half _ _ \<longleftrightarrow> False"

lemma recreatable_layout_pane:
  "recreatable_layout J f half node depth = Inr (RecreatedPane cwd label, n) \<longleftrightarrow>
   depth \<le> max_layout_depth \<and> node_type J node = Some (lit ''pane'') \<and> n = 1
   \<and> cwd = nonempty (optional_string J node (lit ''cwd'')) \<and> label = nonempty (optional_string J node (lit ''label''))"
  by (subst recreatable_layout.simps) (auto simp: and_then_eq_Inr split: sum.splits)

lemma recreatable_layout_split:
  "recreatable_layout J f half node depth = Inr (RecreatedSplit d r a b, n) \<longleftrightarrow>
   depth \<le> max_layout_depth \<and> node_type J node = Some (lit ''split'') \<and> split_direction_of J node = Inr d
   \<and> r = unwrap_or half (split_ratio J f node)
   \<and> (\<exists>first second k m. child_of J node ''first'' = Inr first \<and> child_of J node ''second'' = Inr second
       \<and> recreatable_layout J f half first (depth + 1) = Inr (a, k)
       \<and> recreatable_layout J f half second (depth + 1) = Inr (b, m) \<and> n = saturating_add k m)"
  by (subst recreatable_layout.simps; cases "child_of J node ''first''"; cases "child_of J node ''second''")
    (auto simp: and_then_eq_Inr)

lemma recreatable_layout_panes:
  "recreatable_layout J f half node depth = Inr (t, n) \<Longrightarrow> unat n = min (recreated_panes t) (2 ^ 64 - 1)"
proof (induction t arbitrary: node depth n)
  case (RecreatedPane cwd label)
  then show ?case by (simp add: recreatable_layout_pane)
next
  case (RecreatedSplit d r a b)
  then obtain first second k m where
    "recreatable_layout J f half first (depth + 1) = Inr (a, k)"
    "recreatable_layout J f half second (depth + 1) = Inr (b, m)" "n = saturating_add k m"
    by (auto simp: recreatable_layout_split)
  with RecreatedSplit.IH show ?case by (simp add: unat_saturating_add)
qed

lemma recreatable_layout_shape:
  "read_layout J f node depth = Some t \<Longrightarrow> recreatable_layout J f half node depth = Inr (r, n) \<Longrightarrow> same_shape half t r"
proof (induction t arbitrary: node depth r n)
  case (LPane p)
  then show ?case by (cases r) (auto simp: read_layout_pane recreatable_layout_split)
next
  case (LSplit d q a b)
  then show ?case
    by (cases r) (fastforce simp: read_layout_split recreatable_layout_pane recreatable_layout_split)+
qed

text \<open>One recreated tab for each exported tab, under the same label and in the same shape.\<close>

definition recreates_tab :: "'v json \<Rightarrow> ('v \<Rightarrow> 'f option) \<Rightarrow> 'f \<Rightarrow> 'v exported_tab \<Rightarrow> 'f recreatable_tab \<Rightarrow> bool" where
  "recreates_tab J f half tab layout \<longleftrightarrow> rb_label layout = et_label tab
     \<and> (\<forall>t. read_layout J f (et_root tab) 0 = Some t \<longrightarrow> same_shape half t (rb_root layout))"

lemma recreatable_from_ok:
  "recreatable_from J f half tabs panes = Inr (layouts, n) \<Longrightarrow> unat panes \<le> max_recreated_panes \<Longrightarrow>
   list_all2 (recreates_tab J f half) tabs layouts \<and> unat n \<le> max_recreated_panes
   \<and> unat n = unat panes + sum_list (map (recreated_panes \<circ> rb_root) layouts)"
proof (induction tabs arbitrary: panes layouts)
  case (Cons tab tabs)
  then obtain root k rest where step: "recreatable_layout J f half (et_root tab) 0 = Inr (root, k)"
    "unat (saturating_add panes k) \<le> max_recreated_panes"
    "recreatable_from J f half tabs (saturating_add panes k) = Inr (rest, n)"
    "layouts = \<lparr>rb_label = et_label tab, rb_root = root\<rparr> # rest"
    by (auto simp: and_then_eq_Inr Let_def split: if_splits)
  have "unat (saturating_add panes k) = unat panes + recreated_panes root"
    using step(2) recreatable_layout_panes [OF step(1)]
    by (simp add: unat_saturating_add max_recreated_panes_def)
  with Cons.IH [OF step(3,2)] step(4) recreatable_layout_shape [OF _ step(1)] show ?case
    by (simp add: recreates_tab_def)
qed simp

lemma apply_layouts_count:
  "apply_layouts api workspace first_tab n s tabs layouts = (s', Inr done) \<Longrightarrow>
   unat done = min (unat tabs + length layouts) (2 ^ 64 - 1)"
proof (induction layouts arbitrary: first_tab s tabs)
  case Nil
  have "unat tabs < 2 ^ 64" using unsigned_less [of tabs] by simp
  with Nil show ?case by simp
next
  case (Cons tab layouts)
  then obtain s1 where "apply_layouts api workspace None n s1 (saturating_add tabs 1) layouts = (s', Inr done)"
    by (auto simp: Let_def split: prod.splits sum.splits)
  then show ?case by (simp add: Cons.IH unat_saturating_add)
qed

text \<open>
  Recreating a workspace is bounded and faithful. When the destination is contacted at all,
  the source workspace was exported, every exported tab has one recreated tab in order, with its
  label and with the splits, directions and ratios of its layout, and all of them together start
  at most 64 panes, also when a hostile export would have saturated the counter. A summary
  reports that number of panes.
\<close>

theorem recreate_bounded:
  assumes "recreate_workspace J as_f64 half api source_opened destination_opened workspace label = (Some dest, result)"
  shows "\<exists>s exported layouts. source_opened = Inr s \<and> snd (export_workspace_tabs J api s workspace) = Inr exported
     \<and> list_all2 (recreates_tab J as_f64 half) exported layouts
     \<and> sum_list (map (recreated_panes \<circ> rb_root) layouts) \<le> 64
     \<and> (\<forall>summary. result = Inr summary \<longrightarrow>
          unat (rsum_panes summary) = sum_list (map (recreated_panes \<circ> rb_root) layouts)
        \<and> unat (rsum_tabs summary) = min (length exported) (2 ^ 64 - 1))"
proof -
  obtain s exported layouts panes where source: "source_opened = Inr s"
    "snd (export_workspace_tabs J api s workspace) = Inr exported"
    and ok: "recreatable_layouts J as_f64 half exported = Inr (layouts, panes)"
    using assms by (auto simp: recreate_workspace_def and_then_def split: sum.splits prod.splits)
  have layouts: "list_all2 (recreates_tab J as_f64 half) exported layouts" "unat panes \<le> 64"
    "unat panes = sum_list (map (recreated_panes \<circ> rb_root) layouts)"
    using recreatable_from_ok [OF ok [unfolded recreatable_layouts_def]] by (simp_all add: max_recreated_panes_def)
  have "unat (rsum_panes summary) = unat panes \<and> unat (rsum_tabs summary) = min (length layouts) (2 ^ 64 - 1)"
    if summary: "result = Inr summary" for summary
  proof -
    obtain s1 ws first_tab tabs where
      "apply_layouts api ws first_tab (length layouts) s1 0 layouts = (dest, Inr tabs)"
      "summary = \<lparr>rsum_workspace = ws, rsum_tabs = tabs, rsum_panes = panes\<rparr>"
      using assms summary source ok
      by (auto simp: recreate_workspace_def thenS_def split: sum.splits prod.splits)
    then show ?thesis using apply_layouts_count [of api ws first_tab "length layouts" s1 0 layouts dest tabs] by simp
  qed
  with source layouts show ?thesis using list_all2_lengthD [OF layouts(1)] by metis
qed

text \<open>A session with one exported tab that creates what it is asked to.\<close>

definition export_server :: "(unit, u64, document) api" where
  "export_server s request = ((), Inr (case request of
     TabList workspace \<Rightarrow> DocObject [(lit ''tabs'', DocArray [DocObject [(lit ''tab_id'', DocString (lit ''t1''))]])]
   | LayoutExport tab \<Rightarrow> DocObject [(lit ''layout'', DocObject [(lit ''root'', et_root nested_tab)])]
   | WorkspaceCreate label focus \<Rightarrow> DocObject
       [(lit ''workspace'', DocObject [(lit ''workspace_id'', DocString (lit ''w5''))])]
   | _ \<Rightarrow> DocNull))"

theorem recreate_bounded_witness:
  "\<exists>layouts. list_all2 (recreates_tab document_json doc_ratio 50) [nested_tab] layouts
     \<and> sum_list (map (recreated_panes \<circ> rb_root) layouts) \<le> 64"
proof -
  have "fst (recreate_workspace document_json doc_ratio 50 export_server (Inr ()) (Inr ()) (lit ''w1'') None) = Some ()"
    "snd (export_workspace_tabs document_json export_server () (lit ''w1'')) = Inr [nested_tab]"
    by code_simp+
  then show ?thesis
    using recreate_bounded [of document_json doc_ratio 50 export_server "Inr ()" "Inr ()" "lit ''w1''" None "()"
        "snd (recreate_workspace document_json doc_ratio 50 export_server (Inr ()) (Inr ()) (lit ''w1'') None)"]
    by (auto simp: prod_eq_iff)
qed

end
