(* ===== verification/Utf8.thy ===== *)
theory Utf8
  imports Prelude
begin

text \<open>
  The bytes of strings, \<open>str::bytes\<close> and \<open>String::from_utf8\<close>, and their lines and words. A decoded sequence is a scalar
  value in its shortest form that is no surrogate and within the Unicode range, as the standard
  library requires.
\<close>

section \<open>Encoding\<close>

definition utf8_codes :: "uchar \<Rightarrow> nat list" where
  "utf8_codes c =
     (if c < 128 then [c]
      else if c < 2048 then [192 + c div 64, 128 + c mod 64]
      else if c < 65536 then [224 + c div 4096, 128 + c div 64 mod 64, 128 + c mod 64]
      else [240 + c div 262144, 128 + c div 4096 mod 64, 128 + c div 64 mod 64, 128 + c mod 64])"

definition utf8_char :: "uchar \<Rightarrow> u8 list" where
  "utf8_char c = map of_nat (utf8_codes c)"

definition utf8_bytes :: "ustring \<Rightarrow> u8 list" where
  "utf8_bytes s = concat (map utf8_char s)"

definition is_scalar :: "uchar \<Rightarrow> bool" where
  "is_scalar c \<longleftrightarrow> c < 55296 \<or> (57344 \<le> c \<and> c < 1114112)"

section \<open>Decoding\<close>

definition is_continuation :: "nat \<Rightarrow> bool" where
  "is_continuation b \<longleftrightarrow> 128 \<le> b \<and> b < 192"

definition keep_char :: "bool \<Rightarrow> uchar \<Rightarrow> ustring option \<Rightarrow> ustring option" where
  "keep_char valid c rest = (if valid then map_option (Cons c) rest else None)"

fun decode_codes :: "nat list \<Rightarrow> ustring option" where
  "decode_codes [] = Some []"
| "decode_codes (a # rest) =
     (if a < 128 then keep_char True a (decode_codes rest)
      else if a < 224 then
        (case rest of b # rest \<Rightarrow>
           keep_char (194 \<le> a \<and> is_continuation b) ((a - 192) * 64 + (b - 128)) (decode_codes rest)
         | _ \<Rightarrow> None)
      else if a < 240 then
        (case rest of b # c # rest \<Rightarrow>
           let v = (a - 224) * 4096 + (b - 128) * 64 + (c - 128)
           in keep_char (is_continuation b \<and> is_continuation c \<and> 2048 \<le> v \<and> is_scalar v) v (decode_codes rest)
         | _ \<Rightarrow> None)
      else
        (case rest of b # c # d # rest \<Rightarrow>
           let v = (a - 240) * 262144 + (b - 128) * 4096 + (c - 128) * 64 + (d - 128)
           in keep_char (is_continuation b \<and> is_continuation c \<and> is_continuation d \<and> 65536 \<le> v \<and> v < 1114112)
                v (decode_codes rest)
         | _ \<Rightarrow> None))"

definition from_utf8 :: "u8 list \<Rightarrow> ustring option" where
  "from_utf8 bytes = decode_codes (map unat bytes)"

section \<open>Lines and words\<close>

text \<open>\<open>str::contains\<close> and \<open>str::lines\<close>: a final line break ends the last line, a carriage
  return before it is dropped.\<close>

fun contains_str :: "ustring \<Rightarrow> ustring \<Rightarrow> bool" where
  "contains_str part [] \<longleftrightarrow> part = []"
| "contains_str part (c # cs) \<longleftrightarrow> take (length part) (c # cs) = part \<or> contains_str part cs"

definition strip_cr :: "ustring \<Rightarrow> ustring" where
  "strip_cr line = (if line \<noteq> [] \<and> last line = 13 then butlast line else line)"

definition str_lines :: "ustring \<Rightarrow> ustring list" where
  "str_lines s = (let parts = split_on (\<lambda>c. c = 10) s
     in map strip_cr (butlast parts) @ (if last parts = [] then [] else [last parts]))"

text \<open>\<open>str::split_whitespace\<close>.\<close>

definition split_whitespace :: "ustring \<Rightarrow> ustring list" where
  "split_whitespace s = filter (\<lambda>word. word \<noteq> []) (split_on is_whitespace s)"

section \<open>Lemmas\<close>

lemma length_utf8_bytes: "length (utf8_bytes s) = utf8_len s"
  by (induction s) (simp_all add: utf8_bytes_def utf8_len_def utf8_char_def utf8_codes_def utf8_width_def)

lemma utf8_bytes_simps [simp]: "utf8_bytes [] = []" "utf8_bytes (c # s) = utf8_char c @ utf8_bytes s"
  "utf8_bytes (s @ t) = utf8_bytes s @ utf8_bytes t"
  by (simp_all add: utf8_bytes_def)

lemma utf8_codes_byte: "is_scalar c \<Longrightarrow> b \<in> set (utf8_codes c) \<Longrightarrow> b < 256"
  by (auto simp: utf8_codes_def is_scalar_def split: if_splits)

lemma unat_utf8_char: "is_scalar c \<Longrightarrow> map unat (utf8_char c) = utf8_codes c"
  using utf8_codes_byte [of c] by (auto simp: utf8_char_def unat_of_nat intro!: map_idI)

lemma decode_two: "decode_codes ((192 + c div 64) # (128 + c mod 64) # rest) = map_option (Cons c) (decode_codes rest)"
  if "128 \<le> c" "c < 2048" for c
proof -
  have "c div 64 < 32" "2 \<le> c div 64" using that by auto
  then show ?thesis by (simp add: keep_char_def is_continuation_def)
qed

lemma sixty_fours: "c div 4096 = c div 64 div 64" "c div 262144 = c div 64 div 64 div 64" for c :: nat
  by (simp_all add: div_mult2_eq [symmetric])

lemma base_64: "c div 64 div 64 * 4096 + c div 64 mod 64 * 64 + c mod 64 = c" for c :: nat
  using div_mult_mod_eq [of c 64] div_mult_mod_eq [of "c div 64" 64] by linarith

lemma base_64': "c div 64 div 64 div 64 * 262144 + c div 64 div 64 mod 64 * 4096 + c div 64 mod 64 * 64 + c mod 64 = c"
  for c :: nat
  using base_64 [of c] div_mult_mod_eq [of "c div 64 div 64" 64] by linarith

lemma decode_three:
  assumes "2048 \<le> c" "c < 65536" "is_scalar c"
  shows "decode_codes ((224 + c div 4096) # (128 + c div 64 mod 64) # (128 + c mod 64) # rest)
    = map_option (Cons c) (decode_codes rest)"
proof -
  have "c div 64 div 64 < 16" using assms by (simp add: sixty_fours [symmetric])
  then show ?thesis
    using assms by (simp add: keep_char_def is_continuation_def Let_def sixty_fours base_64 del: div_mult2_numeral_eq)
qed

lemma decode_four:
  assumes "65536 \<le> c" "c < 1114112"
  shows "decode_codes ((240 + c div 262144) # (128 + c div 4096 mod 64) # (128 + c div 64 mod 64) # (128 + c mod 64) # rest)
    = map_option (Cons c) (decode_codes rest)"
  using assms by (simp add: keep_char_def is_continuation_def Let_def sixty_fours base_64' del: div_mult2_numeral_eq)

lemma decode_codes_char:
  assumes "is_scalar c"
  shows "decode_codes (utf8_codes c @ rest) = map_option (Cons c) (decode_codes rest)"
proof -
  consider "c < 128" | "128 \<le> c" "c < 2048" | "2048 \<le> c" "c < 65536" | "65536 \<le> c" "c < 1114112"
    using assms unfolding is_scalar_def by linarith
  then show ?thesis
  proof cases
    case 1
    then show ?thesis by (simp add: utf8_codes_def keep_char_def)
  next
    case 2
    then show ?thesis using decode_two [of c rest] by (simp add: utf8_codes_def del: decode_codes.simps)
  next
    case 3
    then show ?thesis using decode_three [of c rest] assms by (simp add: utf8_codes_def del: decode_codes.simps)
  next
    case 4
    then show ?thesis using decode_four [of c rest] by (simp add: utf8_codes_def del: decode_codes.simps)
  qed
qed

text \<open>What a string is encoded to is decoded to it.\<close>

lemma from_utf8_bytes: "\<forall>c \<in> set s. is_scalar c \<Longrightarrow> from_utf8 (utf8_bytes s) = Some s"
  by (induction s) (simp_all add: from_utf8_def unat_utf8_char decode_codes_char)

lemma zero_byte_char: "is_scalar c \<Longrightarrow> 0 \<in> set (utf8_char c) \<longleftrightarrow> c = 0"
proof -
  assume c: "is_scalar c"
  have "0 \<in> set (utf8_char c) \<longleftrightarrow> 0 \<in> set (map unat (utf8_char c))"
    by (force simp: unat_eq_zero)
  then show "0 \<in> set (utf8_char c) \<longleftrightarrow> c = 0" by (simp add: unat_utf8_char [OF c]) (auto simp: utf8_codes_def)
qed

definition is_ascii :: "ustring \<Rightarrow> bool" where
  "is_ascii s \<longleftrightarrow> (\<forall>c \<in> set s. c < 128)"

lemma utf8_bytes_ascii: "is_ascii s \<Longrightarrow> utf8_bytes s = map of_nat s"
  by (induction s) (simp_all add: is_ascii_def utf8_char_def utf8_codes_def)

end
