(* ===== verification/Notifications.thy ===== *)
theory Notifications
  imports Attention Utf8
begin

text \<open>
  Desktop and device notifications, \<open>src/src/notifications.rs\<close>: the queue that gathers attention
  events, the text of a delivery, and how a click is reported. Instants are integers counting
  nanoseconds on the monotonic clock; showing the notification and the environment it needs
  are not part of the model.
\<close>

section \<open>Text\<close>

type_synonym instant = int

definition seconds :: "u64 \<Rightarrow> int" where
  "seconds n = uint n * 1000000000"

definition coalesce_window :: int where
  "coalesce_window = 500000000"

definition max_pending_metadata :: nat where
  "max_pending_metadata = 16"

definition jump_action :: ustring where
  "jump_action = lit ''jump''"

definition should_notify :: "notifications_config \<Rightarrow> attention_event_kind \<Rightarrow> bool" where
  "should_notify config kind = (case kind of
     NeedsAttention \<Rightarrow> nc_needs_attention config
   | WorkingEvent \<Rightarrow> nc_working config
   | Completed \<Rightarrow> nc_completed config
   | StatusChanged \<Rightarrow> nc_status_changed config
   | Disappeared \<Rightarrow> nc_disappeared config)"

record notification_delivery =
  nd_title :: ustring
  nd_body :: ustring
  nd_pane :: "pane_id option"
  nd_timeout :: int

definition notification_title :: "u64 \<Rightarrow> attention_event \<Rightarrow> ustring" where
  "notification_title count latest =
     (if count > 1 then show_word count @ lit '' Super-Herdr agent updates''
      else (case ae_kind latest of
          NeedsAttention \<Rightarrow> lit ''Agent needs attention''
        | WorkingEvent \<Rightarrow> lit ''Agent started working''
        | Completed \<Rightarrow> lit ''Agent completed''
        | StatusChanged \<Rightarrow> lit ''Agent status changed''
        | Disappeared \<Rightarrow> lit ''Agent disappeared''))"

definition notification_metadata :: "ustring \<Rightarrow> nat \<Rightarrow> ustring" where
  "notification_metadata value maximum_characters =
     take maximum_characters (map (\<lambda>character. if is_control character then 32 else character) value)"

text \<open>The separator of the source is a middle dot between blanks.\<close>

definition middle_dot :: ustring where
  "middle_dot = [32, 183, 32]"

definition notification_body :: "u64 \<Rightarrow> attention_event \<Rightarrow> ustring" where
  "notification_body count latest =
     (if count > 1 then lit ''Latest of '' @ show_word count @ lit '': '' else [])
     @ notification_metadata (ae_agent latest) 128 @ middle_dot @ notification_metadata (ae_workspace latest) 128
     @ [10] @ notification_metadata (qid_target (ae_pane latest)) 128 @ lit ''/''
     @ notification_metadata (qid_session (ae_pane latest)) 128 @ middle_dot @ event_kind_label (ae_kind latest)"

section \<open>The queue\<close>

record notification_queue =
  nq_config :: notifications_config
  nq_last_seen_id :: "u64 option"
  nq_pending :: "attention_event list"
  nq_pending_count :: u64
  nq_queued_at :: "instant option"
  nq_last_attempt :: "instant option"

definition queue_new :: "notifications_config \<Rightarrow> u64 option \<Rightarrow> notification_queue" where
  "queue_new config last_seen_id = \<lparr>nq_config = config, nq_last_seen_id = last_seen_id, nq_pending = [],
     nq_pending_count = 0, nq_queued_at = None, nq_last_attempt = None\<rparr>"

definition clear_pending :: "notification_queue \<Rightarrow> notification_queue" where
  "clear_pending q = q\<lparr>nq_pending := [], nq_pending_count := 0, nq_queued_at := None\<rparr>"

definition reconfigure :: "notifications_config \<Rightarrow> notification_queue \<Rightarrow> notification_queue \<times> bool" where
  "reconfigure config q = (if nq_config q = config then (q, False)
     else (clear_pending (q\<lparr>nq_config := config\<rparr>), True))"

definition enqueue :: "attention_event \<Rightarrow> instant \<Rightarrow> notification_queue \<Rightarrow> notification_queue \<times> bool" where
  "enqueue event now q =
     (if (case nq_last_seen_id q of None \<Rightarrow> False | Some seen \<Rightarrow> ae_id event \<le> seen) then (q, False)
      else let q = q\<lparr>nq_last_seen_id := Some (ae_id event)\<rparr>
        in if \<not> nc_enabled (nq_config q) \<or> \<not> should_notify (nq_config q) (ae_kind event) then (q, False)
           else (q\<lparr>nq_pending_count := saturating_add (nq_pending_count q) 1,
                   nq_pending := keep_last max_pending_metadata (nq_pending q @ [event]),
                   nq_queued_at := Some (unwrap_or now (nq_queued_at q))\<rparr>, True))"

definition take_ready :: "instant \<Rightarrow> notification_queue \<Rightarrow> notification_queue \<times> notification_delivery option" where
  "take_ready now q =
     (if \<not> nc_enabled (nq_config q) \<or> nq_pending_count q = 0 then (q, None)
      else (case nq_queued_at q of None \<Rightarrow> (q, None)
        | Some queued_at \<Rightarrow>
            let coalesced_at = queued_at + coalesce_window;
                rate_limited_at = (case nq_last_attempt q of None \<Rightarrow> queued_at
                  | Some attempt \<Rightarrow> attempt + seconds (nc_minimum_interval_seconds (nq_config q)))
            in if now < max coalesced_at rate_limited_at then (q, None)
               else if nq_pending q = [] then (q, None)
               else let count = nq_pending_count q; latest = last (nq_pending q)
                 in ((clear_pending q)\<lparr>nq_last_attempt := Some now\<rparr>,
                     Some \<lparr>nd_title = notification_title count latest, nd_body = notification_body count latest,
                           nd_pane = Some (ae_pane latest),
                           nd_timeout = seconds (nc_command_timeout_seconds (nq_config q))\<rparr>)))"

section \<open>Delivery\<close>

definition test_delivery :: "notifications_config \<Rightarrow> notification_delivery result" where
  "test_delivery config =
     (if \<not> nc_enabled config then Inl (lit ''notifications are disabled in configuration'')
      else Inr \<lparr>nd_title = lit ''Super-Herdr notification test'',
                nd_body = lit ''Native metadata-only notification delivery is working'',
                nd_pane = None, nd_timeout = seconds (nc_command_timeout_seconds config)\<rparr>)"

definition parse_notify_send_capabilities :: "ustring \<Rightarrow> bool" where
  "parse_notify_send_capabilities help \<longleftrightarrow> contains_str (lit ''--action'') help \<and> contains_str (lit ''--wait'') help"

definition offers_action :: "bool \<Rightarrow> notification_delivery \<Rightarrow> bool" where
  "offers_action actions delivery \<longleftrightarrow> actions \<and> nd_pane delivery \<noteq> None"

definition freedesktop_command :: "notification_delivery \<Rightarrow> bool \<Rightarrow> ustring list" where
  "freedesktop_command delivery activation =
     [lit ''notify-send'', lit ''--app-name=Super-Herdr'', lit ''--expire-time=10000'']
     @ (if activation then [lit ''--wait'', lit ''--action='' @ jump_action @ lit ''=Jump to pane''] else [])
     @ [nd_title delivery, nd_body delivery]"

definition activated_pane :: "ustring \<Rightarrow> pane_id option \<Rightarrow> pane_id option" where
  "activated_pane stdout pane =
     (if \<exists>line \<in> set (str_lines stdout). trim line = jump_action then pane else None)"

section \<open>An unbounded queue\<close>

text \<open>
  What the queue promises, with a state that keeps everything: the events accepted and not yet
  announced, in order, and every announcement with its time and the interval in force.
\<close>

record announced =
  an_at :: instant
  an_interval :: int
  an_events :: "attention_event list"
  an_first :: instant
  an_delivery :: notification_delivery

record watched_queue =
  wq_queue :: notification_queue
  wq_clock :: instant
  wq_waiting :: "(instant \<times> attention_event) list"
  wq_announced :: "announced list"

datatype queue_event = Offer attention_event | TakeReady | Reconfigure notifications_config

definition watch :: "instant \<Rightarrow> queue_event \<Rightarrow> watched_queue \<Rightarrow> watched_queue" where
  "watch now event w = (case event of
     Offer e \<Rightarrow> (let (q, accepted) = enqueue e now (wq_queue w)
       in w\<lparr>wq_queue := q, wq_clock := now, wq_waiting := wq_waiting w @ (if accepted then [(now, e)] else [])\<rparr>)
   | TakeReady \<Rightarrow> (case take_ready now (wq_queue w) of
       (q, None) \<Rightarrow> w\<lparr>wq_queue := q, wq_clock := now\<rparr>
     | (q, Some d) \<Rightarrow> w\<lparr>wq_queue := q, wq_clock := now, wq_waiting := [],
         wq_announced := \<lparr>an_at = now, an_interval = seconds (nc_minimum_interval_seconds (nq_config (wq_queue w))),
           an_events = map snd (wq_waiting w), an_first = fst (hd (wq_waiting w)), an_delivery = d\<rparr> # wq_announced w\<rparr>)
   | Reconfigure config \<Rightarrow> (let (q, changed) = reconfigure config (wq_queue w)
       in w\<lparr>wq_queue := q, wq_clock := now, wq_waiting := (if changed then [] else wq_waiting w)\<rparr>))"

inductive queue_step :: "watched_queue \<Rightarrow> watched_queue \<Rightarrow> bool" where
  "wq_clock w \<le> now \<Longrightarrow> queue_step w (watch now event w)"

inductive_cases queue_stepE: "queue_step w w'"

definition watched_new :: "notifications_config \<Rightarrow> u64 option \<Rightarrow> instant \<Rightarrow> watched_queue" where
  "watched_new config last_seen start = \<lparr>wq_queue = queue_new config last_seen, wq_clock = start,
     wq_waiting = [], wq_announced = []\<rparr>"

text \<open>A count of a \<open>usize\<close> that saturates.\<close>

definition counted :: "'a list \<Rightarrow> u64" where
  "counted xs = of_nat (min (length xs) (2 ^ 64 - 1))"

text \<open>An announcement tells of all its events: their number and the latest of them.\<close>

definition tells_all :: "announced \<Rightarrow> bool" where
  "tells_all a \<longleftrightarrow> an_events a \<noteq> []
     \<and> nd_title (an_delivery a) = notification_title (counted (an_events a)) (last (an_events a))
     \<and> nd_body (an_delivery a) = notification_body (counted (an_events a)) (last (an_events a))
     \<and> nd_pane (an_delivery a) = Some (ae_pane (last (an_events a)))
     \<and> an_first a + coalesce_window \<le> an_at a"

text \<open>Newest first: each announcement keeps the interval in force from the one before it.\<close>

fun paced :: "announced list \<Rightarrow> bool" where
  "paced [] \<longleftrightarrow> True"
| "paced [a] \<longleftrightarrow> True"
| "paced (a # b # rest) \<longleftrightarrow> an_at b + an_interval a \<le> an_at a \<and> paced (b # rest)"

definition ids_of :: "watched_queue \<Rightarrow> u64 list" where
  "ids_of w = concat (map (map ae_id \<circ> an_events) (rev (wq_announced w))) @ map (ae_id \<circ> snd) (wq_waiting w)"

definition seen_id :: "notification_queue \<Rightarrow> u64 \<Rightarrow> bool" where
  "seen_id q i = (case nq_last_seen_id q of None \<Rightarrow> False | Some seen \<Rightarrow> i \<le> seen)"

definition watched_ok :: "watched_queue \<Rightarrow> bool" where
  "watched_ok w \<longleftrightarrow>
     (let q = wq_queue w; waiting = map snd (wq_waiting w)
      in nq_pending q = keep_last max_pending_metadata waiting
       \<and> nq_pending_count q = counted waiting
       \<and> nq_queued_at q = (if wq_waiting w = [] then None else Some (fst (hd (wq_waiting w))))
       \<and> nq_last_attempt q = (case wq_announced w of [] \<Rightarrow> None | a # _ \<Rightarrow> Some (an_at a))
       \<and> (\<forall>a \<in> set (wq_announced w). tells_all a) \<and> paced (wq_announced w)
       \<and> sorted_wrt (<) (ids_of w)
       \<and> (\<forall>i \<in> set (ids_of w). seen_id q i))"

section \<open>The queue keeps its promises\<close>

lemma unat_counted: "unat (counted xs) = min (length xs) (2 ^ 64 - 1)"
  by (simp add: counted_def unat_of_nat)

lemma counted_snoc: "counted (xs @ [x]) = saturating_add (counted xs) 1"
  by (simp add: word_unat_eq_iff unat_counted unat_saturating_add)

lemma counted_Nil [simp]: "counted [] = 0"
  by (simp add: counted_def)

lemma counted_eq_0 [simp]: "counted xs = 0 \<longleftrightarrow> xs = []"
  using unat_counted [of xs] by (cases xs) (auto simp: word_unat_eq_iff)

lemma last_keep_last: "0 < n \<Longrightarrow> xs \<noteq> [] \<Longrightarrow> last (keep_last n xs) = last xs"
  by (auto simp: keep_last_def last_drop)

lemma keep_last_Nil [simp]: "keep_last n [] = []"
  by (simp add: keep_last_def)

lemma keep_last_eq_Nil: "0 < n \<Longrightarrow> keep_last n xs = [] \<longleftrightarrow> xs = []"
  by (cases xs) (auto simp: keep_last_def)

lemma keep_last_keep_last: "0 < n \<Longrightarrow> keep_last n (keep_last n xs @ [x]) = keep_last n (xs @ [x])"
  by (cases "length xs \<le> n") (simp_all add: keep_last_def Suc_diff_le)

lemma enqueue_accepted:
  "enqueue e now q = (q', True) \<longleftrightarrow>
   \<not> seen_id q (ae_id e) \<and> nc_enabled (nq_config q) \<and> should_notify (nq_config q) (ae_kind e)
   \<and> q' = q\<lparr>nq_last_seen_id := Some (ae_id e), nq_pending_count := saturating_add (nq_pending_count q) 1,
        nq_pending := keep_last max_pending_metadata (nq_pending q @ [e]),
        nq_queued_at := Some (unwrap_or now (nq_queued_at q))\<rparr>"
  by (auto simp: enqueue_def seen_id_def Let_def split: option.splits)

lemma enqueue_refused:
  "enqueue e now q = (q', False) \<Longrightarrow> q' = q \<or> \<not> seen_id q (ae_id e) \<and> q' = q\<lparr>nq_last_seen_id := Some (ae_id e)\<rparr>"
  by (auto simp: enqueue_def seen_id_def Let_def split: option.splits if_splits)

lemma seen_id_older: "seen_id q i \<Longrightarrow> \<not> seen_id q j \<Longrightarrow> i < j"
  by (auto simp: seen_id_def split: option.splits)

lemma seen_id_next: "\<not> seen_id q j \<Longrightarrow> seen_id q i \<Longrightarrow> seen_id (q\<lparr>nq_last_seen_id := Some j\<rparr>) i"
  using seen_id_older [of q i j] by (simp add: seen_id_def)

lemma take_ready_Some:
  "take_ready now q = (q', Some d) \<longleftrightarrow>
   nc_enabled (nq_config q) \<and> nq_pending_count q \<noteq> 0 \<and> nq_pending q \<noteq> []
   \<and> (\<exists>queued_at. nq_queued_at q = Some queued_at \<and> queued_at + coalesce_window \<le> now)
   \<and> (case nq_last_attempt q of None \<Rightarrow> True
      | Some attempt \<Rightarrow> attempt + seconds (nc_minimum_interval_seconds (nq_config q)) \<le> now)
   \<and> q' = (clear_pending q)\<lparr>nq_last_attempt := Some now\<rparr>
   \<and> d = \<lparr>nd_title = notification_title (nq_pending_count q) (last (nq_pending q)),
          nd_body = notification_body (nq_pending_count q) (last (nq_pending q)),
          nd_pane = Some (ae_pane (last (nq_pending q))),
          nd_timeout = seconds (nc_command_timeout_seconds (nq_config q))\<rparr>"
  by (auto simp: take_ready_def Let_def coalesce_window_def split: option.splits if_splits)

lemma take_ready_None: "take_ready now q = (q', None) \<Longrightarrow> q' = q"
  by (auto simp: take_ready_def Let_def split: option.splits if_splits)

lemma ids_of_same [simp]: "ids_of (w\<lparr>wq_queue := q, wq_clock := now\<rparr>) = ids_of w"
  by (simp add: ids_of_def)

lemma watched_new_ok: "watched_ok (watched_new config last_seen start)"
  by (simp add: watched_ok_def watched_new_def queue_new_def ids_of_def)

lemma watch_offer_ok:
  assumes ok: "watched_ok w"
  shows "watched_ok (watch now (Offer e) w)"
proof (cases "enqueue e now (wq_queue w)")
  case (Pair q accepted)
  show ?thesis
  proof (cases accepted)
    case False
    with Pair have "q = wq_queue w \<or>
        \<not> seen_id (wq_queue w) (ae_id e) \<and> q = (wq_queue w)\<lparr>nq_last_seen_id := Some (ae_id e)\<rparr>"
      by (simp add: enqueue_refused)
    with Pair False ok show ?thesis
      by (auto simp: watch_def watched_ok_def Let_def seen_id_next)
  next
    case True
    with Pair have q: "q = (wq_queue w)\<lparr>nq_last_seen_id := Some (ae_id e),
        nq_pending_count := saturating_add (nq_pending_count (wq_queue w)) 1,
        nq_pending := keep_last max_pending_metadata (nq_pending (wq_queue w) @ [e]),
        nq_queued_at := Some (unwrap_or now (nq_queued_at (wq_queue w)))\<rparr>"
      and fresh: "\<not> seen_id (wq_queue w) (ae_id e)"
      by (simp_all add: enqueue_accepted)
    have newer: "i < ae_id e" if "i \<in> set (ids_of w)" for i
      using that ok fresh by (auto simp: watched_ok_def Let_def intro: seen_id_older)
    have "ids_of (watch now (Offer e) w) = ids_of w @ [ae_id e]"
      using Pair True by (simp add: watch_def ids_of_def)
    then show ?thesis
      using ok Pair True newer
      by (auto simp: watched_ok_def watch_def Let_def q counted_snoc keep_last_keep_last seen_id_def
          max_pending_metadata_def sorted_wrt_append intro: less_imp_le)
  qed
qed

lemma ids_of_clear:
  "sorted_wrt (<) (ids_of w) \<Longrightarrow> sorted_wrt (<) (ids_of (w\<lparr>wq_queue := q, wq_clock := now, wq_waiting := []\<rparr>))"
  "set (ids_of (w\<lparr>wq_queue := q, wq_clock := now, wq_waiting := []\<rparr>)) \<subseteq> set (ids_of w)"
  by (auto simp: ids_of_def sorted_wrt_append)

lemma watch_reconfigure_ok:
  assumes ok: "watched_ok w"
  shows "watched_ok (watch now (Reconfigure config) w)"
proof (cases "nq_config (wq_queue w) = config")
  case True
  with ok show ?thesis by (simp add: watch_def reconfigure_def watched_ok_def Let_def ids_of_def)
next
  case False
  let ?q = "clear_pending ((wq_queue w)\<lparr>nq_config := config\<rparr>)"
  have "watch now (Reconfigure config) w = w\<lparr>wq_queue := ?q, wq_clock := now, wq_waiting := []\<rparr>"
    using False by (simp add: watch_def reconfigure_def)
  moreover have "seen_id ?q = seen_id (wq_queue w)"
    by (simp add: fun_eq_iff seen_id_def clear_pending_def)
  ultimately show ?thesis
    using ok ids_of_clear [where w = w and q = ?q and now = now]
    by (auto simp: watched_ok_def Let_def clear_pending_def)
qed

lemma paced_Cons: "paced (a # as) \<longleftrightarrow> (as = [] \<or> an_at (hd as) + an_interval a \<le> an_at a) \<and> paced as"
  by (cases as) auto

lemma watch_take_ok:
  assumes ok: "watched_ok w"
  shows "watched_ok (watch now TakeReady w)"
proof (cases "take_ready now (wq_queue w)")
  case (Pair q d)
  show ?thesis
  proof (cases d)
    case None
    with Pair have "q = wq_queue w" by (simp add: take_ready_None)
    with Pair None ok show ?thesis by (simp add: watch_def watched_ok_def Let_def ids_of_def)
  next
    case (Some delivery)
    let ?a = "\<lparr>an_at = now, an_interval = seconds (nc_minimum_interval_seconds (nq_config (wq_queue w))),
       an_events = map snd (wq_waiting w), an_first = fst (hd (wq_waiting w)), an_delivery = delivery\<rparr>"
    have watch: "watch now TakeReady w
        = w\<lparr>wq_queue := q, wq_clock := now, wq_waiting := [], wq_announced := ?a # wq_announced w\<rparr>" (is "_ = ?w")
      using Pair Some by (simp add: watch_def)
    have taken: "take_ready now (wq_queue w) = (q, Some delivery)" using Pair Some by simp
    note taken = taken [unfolded take_ready_Some]
    have q: "q = (clear_pending (wq_queue w))\<lparr>nq_last_attempt := Some now\<rparr>" using taken by blast
    have waiting: "wq_waiting w \<noteq> []" using taken ok by (auto simp: watched_ok_def Let_def)
    have "tells_all ?a"
      using taken ok waiting
      by (auto simp: tells_all_def watched_ok_def Let_def last_keep_last max_pending_metadata_def)
    moreover have "paced (?a # wq_announced w)"
      using taken ok by (auto simp: paced_Cons watched_ok_def Let_def split: list.splits)
    moreover have "ids_of ?w = ids_of w" by (simp add: ids_of_def comp_def)
    moreover have "seen_id q = seen_id (wq_queue w)" by (simp add: fun_eq_iff seen_id_def clear_pending_def q)
    ultimately show ?thesis
      using ok unfolding watch by (simp add: watched_ok_def Let_def q clear_pending_def)
  qed
qed

interpretation queue_reach: kept_invariant "watched_new config last_seen start" queue_step watched_ok
  for config last_seen start
proof unfold_locales
  show "watched_ok (watched_new config last_seen start)" by (rule watched_new_ok)
  show "watched_ok t" if "watched_ok s" "queue_step s t" for s t
    using that(2)
  proof (rule queue_stepE)
    fix now event
    assume "t = watch now event s"
    with that(1) show ?thesis
      by (cases event) (simp_all add: watch_offer_ok watch_take_ok watch_reconfigure_ok)
  qed
qed

section \<open>Properties\<close>

lemma ids_announced:
  "sorted_wrt (<) (ids_of w) \<Longrightarrow> distinct (concat (map (map ae_id \<circ> an_events) (rev (wq_announced w))))"
  by (auto simp: ids_of_def sorted_wrt_append strict_sorted_iff)

text \<open>
  C8. Notifications are paced and tell everything. Whatever events are offered and however often
  the queue is asked on a clock that does not run backwards, every notification comes at least
  the configured interval after the one before it and at least half a second after the oldest
  event it tells of; its title and body give the number of all events accepted since the last
  one, although only sixteen are kept, and the latest of them; and no event is announced twice.
\<close>

theorem notifications_paced:
  assumes "reach queue_step (watched_new config last_seen start) w"
  shows "paced (wq_announced w) \<and> (\<forall>a \<in> set (wq_announced w). tells_all a)
    \<and> distinct (concat (map (map ae_id \<circ> an_events) (rev (wq_announced w))))
    \<and> length (nq_pending (wq_queue w)) \<le> 16"
proof -
  have "watched_ok w" by (rule queue_reach.reachable_holds [OF assms])
  then show ?thesis by (simp add: watched_ok_def Let_def ids_announced max_pending_metadata_def)
qed

text \<open>
  Nothing waits for ever. When events are waiting and notifications are on, asking the queue
  once half a second has passed since the first of them and the interval since the previous
  notification announces all that wait; asking earlier announces nothing and loses nothing.
\<close>

theorem waiting_announced:
  assumes "reach queue_step (watched_new config last_seen start) w"
    and "nc_enabled (nq_config (wq_queue w))" and "wq_waiting w \<noteq> []"
  defines "due \<equiv> max (fst (hd (wq_waiting w)) + coalesce_window)
     (case wq_announced w of [] \<Rightarrow> fst (hd (wq_waiting w))
      | a # _ \<Rightarrow> an_at a + seconds (nc_minimum_interval_seconds (nq_config (wq_queue w))))"
  shows "if due \<le> now
    then \<exists>a. wq_announced (watch now TakeReady w) = a # wq_announced w \<and> an_at a = now
           \<and> an_events a = map snd (wq_waiting w) \<and> wq_waiting (watch now TakeReady w) = []
    else wq_announced (watch now TakeReady w) = wq_announced w \<and> wq_waiting (watch now TakeReady w) = wq_waiting w"
proof -
  have ok: "watched_ok w" by (rule queue_reach.reachable_holds [OF assms(1)])
  then have "nq_pending (wq_queue w) \<noteq> []" "nq_pending_count (wq_queue w) \<noteq> 0"
    "nq_queued_at (wq_queue w) = Some (fst (hd (wq_waiting w)))"
    "nq_last_attempt (wq_queue w) = (case wq_announced w of [] \<Rightarrow> None | a # _ \<Rightarrow> Some (an_at a))"
    using assms(3) by (simp_all add: watched_ok_def Let_def keep_last_eq_Nil max_pending_metadata_def)
  with assms(2) show ?thesis
    by (auto simp: watch_def take_ready_def Let_def due_def coalesce_window_def split: list.splits)
qed

text \<open>Three events within half a second are announced together; the next must wait five seconds.\<close>

definition notify_all :: notifications_config where
  "notify_all = notifications_default\<lparr>nc_enabled := True, nc_working := True\<rparr>"

definition burst :: watched_queue where
  "burst = watch 600000000 TakeReady (watch 300 (Offer (sample_event 3)) (watch 200 (Offer (sample_event 2))
     (watch 100 (Offer (sample_event 1)) (watched_new notify_all None 0))))"

definition after_burst :: watched_queue where
  "after_burst = watch 5600000000 TakeReady (watch 2000000000 TakeReady (watch 700000000 (Offer (sample_event 4)) burst))"

lemma watched_new_simps [simp]: "wq_clock (watched_new config last_seen start) = start"
  by (simp add: watched_new_def)

lemma wq_clock_watch [simp]: "wq_clock (watch now event w) = now"
  by (auto simp: watch_def Let_def split_beta split: queue_event.splits option.splits prod.splits)

lemma reach_watch:
  "reach queue_step w0 w \<Longrightarrow> wq_clock w \<le> now \<Longrightarrow> reach queue_step w0 (watch now event w)"
  by (auto intro: reach_step queue_step.intros)

lemma burst_reached:
  "reach queue_step (watched_new notify_all None 0) (watch 700000000 (Offer (sample_event 4)) burst)"
  unfolding burst_def by (intro reach_watch reach_start) simp_all

theorem notifications_paced_witness:
  "length (wq_announced after_burst) = 2 \<and> paced (wq_announced after_burst)"
proof -
  have "reach queue_step (watched_new notify_all None 0) after_burst"
    unfolding after_burst_def by (intro reach_watch burst_reached) simp_all
  moreover have "length (wq_announced after_burst) = 2" by code_simp
  ultimately show ?thesis using notifications_paced by blast
qed

theorem waiting_announced_witness:
  "\<exists>a. wq_announced (watch 5600000000 TakeReady (watch 700000000 (Offer (sample_event 4)) burst)) = a # wq_announced burst
     \<and> an_events a = [sample_event 4]"
proof -
  let ?w = "watch 700000000 (Offer (sample_event 4)) burst"
  have "nc_enabled (nq_config (wq_queue ?w))" "map snd (wq_waiting ?w) = [sample_event 4]" "wq_waiting ?w \<noteq> []"
    "wq_announced ?w = wq_announced burst" "max (fst (hd (wq_waiting ?w)) + coalesce_window)
     (case wq_announced ?w of [] \<Rightarrow> fst (hd (wq_waiting ?w))
      | a # _ \<Rightarrow> an_at a + seconds (nc_minimum_interval_seconds (nq_config (wq_queue ?w)))) \<le> 5600000000"
    by code_simp+
  then show ?thesis using waiting_announced [OF burst_reached, of 5600000000] by auto
qed

text \<open>What is shown is bounded and carries no control character but the line break between its two lines.\<close>

lemma bounded_metadata_clean:
  "length (notification_metadata s n) \<le> n \<and> (\<forall>c \<in> set (notification_metadata s n). \<not> is_control c)"
  by (auto simp: notification_metadata_def is_control_def dest!: in_set_takeD split: if_splits)

lemma notification_body_lines:
  assumes "count \<le> 1"
  shows "filter is_control (notification_body count event) = [10]"
proof -
  have "filter is_control (notification_metadata s n) = []" for s n
    using bounded_metadata_clean [of s n] by (simp add: filter_empty_conv)
  moreover have "\<not> 1 < count" using assms by simp
  ultimately show ?thesis
    by (simp add: notification_body_def middle_dot_def is_control_def event_kind_label_def lit_def
        split: attention_event_kind.split)
qed

lemma click_needs_action: "activated_pane stdout pane = Some p \<Longrightarrow> pane = Some p \<and> str_lines stdout \<noteq> []"
  by (auto simp: activated_pane_def split: if_splits)

end
