(* ===== verification/Pairing.thy ===== *)
theory Pairing
  imports State Utf8
begin

text \<open>
  Device pairing, \<open>src/src/pairing.rs\<close> with the normalization of codes it shares with
  \<open>src/crates/bridge/src/lib.rs\<close> and the addresses \<open>src/src/daemon/web.rs\<close> will bind:
  codes and tokens, the comparison of digests, one outstanding code with its attempts, and the
  addresses a pairing may be offered at. Random bytes are an argument, the digest is a
  parameter, and times are integers counting nanoseconds since the epoch.
\<close>

unbundle bit_operations_syntax

section \<open>Codes and tokens\<close>

type_synonym system_time = int

definition code_alphabet :: ustring where
  "code_alphabet = lit ''ABCDEFGHJKLMNPQRSTUVWXYZ23456789''"

definition code_characters :: nat where
  "code_characters = 8"

definition token_bytes :: nat where
  "token_bytes = 32"

definition code_lifetime :: int where
  "code_lifetime = 300 * 1000000000"

definition hex_digit :: "nat \<Rightarrow> uchar" where
  "hex_digit n = (if n < 10 then 48 + n else 87 + n)"

definition hex :: "u8 list \<Rightarrow> ustring" where
  "hex bytes = concat (map (\<lambda>byte. [hex_digit (unat byte div 16), hex_digit (unat byte mod 16)]) bytes)"

definition token :: "u8 list result \<Rightarrow> ustring result" where
  "token secret_bytes = and_then secret_bytes (\<lambda>bytes. Inr (hex bytes))"

definition pairing_code :: "u8 list result \<Rightarrow> ustring result" where
  "pairing_code secret_bytes = and_then secret_bytes (\<lambda>bytes.
     let code = map (\<lambda>byte. code_alphabet ! unat (byte mod 32)) bytes
     in Inr (take 4 code @ lit ''-'' @ drop 4 code))"

definition is_ascii_alphanumeric :: "uchar \<Rightarrow> bool" where
  "is_ascii_alphanumeric c \<longleftrightarrow> (48 \<le> c \<and> c \<le> 57) \<or> (65 \<le> c \<and> c \<le> 90) \<or> (97 \<le> c \<and> c \<le> 122)"

definition is_ascii_digit :: "uchar \<Rightarrow> bool" where
  "is_ascii_digit c \<longleftrightarrow> 48 \<le> c \<and> c \<le> 57"

definition normalize_pairing_code :: "ustring \<Rightarrow> ustring" where
  "normalize_pairing_code entered =
     take code_characters (map ascii_upper (filter is_ascii_alphanumeric entered))"

section \<open>Comparison\<close>

definition matches :: "ustring \<Rightarrow> ustring \<Rightarrow> bool" where
  "matches left right =
     (if utf8_len left \<noteq> utf8_len right then False
      else fold (\<lambda>(l, r) difference. difference OR (l XOR r)) (zip (utf8_bytes left) (utf8_bytes right)) 0 = (0 :: u8))"

section \<open>One outstanding code\<close>

definition max_attempts :: u32 where
  "max_attempts = 5"

record pending_pairing =
  pp_code :: ustring
  pp_expires_at :: system_time
  pp_attempts :: u32

definition pending_new :: "u8 list result \<Rightarrow> system_time \<Rightarrow> pending_pairing result" where
  "pending_new secret_bytes now = and_then (pairing_code secret_bytes) (\<lambda>code.
     Inr \<lparr>pp_code = code, pp_expires_at = now + code_lifetime, pp_attempts = 0\<rparr>)"

definition expired :: "pending_pairing \<Rightarrow> system_time \<Rightarrow> bool" where
  "expired p now \<longleftrightarrow> pp_expires_at p \<le> now"

definition accepts :: "pending_pairing \<Rightarrow> ustring \<Rightarrow> system_time \<Rightarrow> bool" where
  "accepts p entered now \<longleftrightarrow> \<not> expired p now
     \<and> matches (normalize_pairing_code entered) (normalize_pairing_code (pp_code p))"

definition record_failure :: "pending_pairing \<Rightarrow> pending_pairing \<times> bool" where
  "record_failure p = (let p = p\<lparr>pp_attempts := saturating_add (pp_attempts p) 1\<rparr>
     in (p, max_attempts \<le> pp_attempts p))"

definition attempts_remaining :: "pending_pairing \<Rightarrow> u32" where
  "attempts_remaining p = saturating_sub max_attempts (pp_attempts p)"

section \<open>Addresses\<close>

datatype ip_addr = V4 u8 u8 u8 u8 | V6 "u16 list"

definition is_loopback_v4 :: "u8 \<Rightarrow> bool" where
  "is_loopback_v4 a \<longleftrightarrow> a = 127"

definition is_private_v4 :: "u8 \<Rightarrow> u8 \<Rightarrow> bool" where
  "is_private_v4 a b \<longleftrightarrow> a = 10 \<or> (a = 172 \<and> 16 \<le> b \<and> b \<le> 31) \<or> (a = 192 \<and> b = 168)"

definition is_link_local_v4 :: "u8 \<Rightarrow> u8 \<Rightarrow> bool" where
  "is_link_local_v4 a b \<longleftrightarrow> a = 169 \<and> b = 254"

definition bindable :: "ip_addr \<Rightarrow> bool" where
  "bindable address = (case address of
     V4 a b c d \<Rightarrow> is_loopback_v4 a \<or> is_private_v4 a b \<or> is_link_local_v4 a b \<or> (a = 100 \<and> 64 \<le> b \<and> b < 128)
   | V6 segments \<Rightarrow> segments = [0, 0, 0, 0, 0, 0, 0, 1]
       \<or> (hd segments AND 0xfe00) = 0xfc00 \<or> (hd segments AND 0xffc0) = 0xfe80)"

text \<open>
  \<open>str::parse::<IpAddr>\<close>. The parser of the standard library reads a prefix and gives back the
  rest; a number is a maximal run of digits within its radix, length and type.
\<close>

definition to_digit :: "nat \<Rightarrow> uchar \<Rightarrow> nat option" where
  "to_digit radix c =
     (let d = (if 48 \<le> c \<and> c \<le> 57 then c - 48 else if 97 \<le> c \<and> c \<le> 122 then c - 87
               else if 65 \<le> c \<and> c \<le> 90 then c - 55 else radix)
      in if d < radix then Some d else None)"

definition read_number :: "nat \<Rightarrow> nat \<Rightarrow> nat \<Rightarrow> bool \<Rightarrow> ustring \<Rightarrow> (nat \<times> ustring) option" where
  "read_number radix max_digits limit allow_zero_prefix s =
     (let digits = takeWhile (\<lambda>c. to_digit radix c \<noteq> None) s;
          n = foldl (\<lambda>acc c. acc * radix + unwrap_or 0 (to_digit radix c)) 0 digits
      in if digits = [] \<or> length digits > max_digits \<or> limit \<le> n
            \<or> (\<not> allow_zero_prefix \<and> hd digits = 48 \<and> length digits > 1)
         then None else Some (n, drop (length digits) s))"

definition read_given_char :: "uchar \<Rightarrow> ustring \<Rightarrow> ustring option" where
  "read_given_char c s = (case s of [] \<Rightarrow> None | x # rest \<Rightarrow> if x = c then Some rest else None)"

definition read_octet :: "ustring \<Rightarrow> (u8 \<times> ustring) option" where
  "read_octet s = map_option (\<lambda>(n, rest). (of_nat n, rest)) (read_number 10 3 256 False s)"

definition read_dot_octet :: "ustring \<Rightarrow> (u8 \<times> ustring) option" where
  "read_dot_octet s = Option.bind (read_given_char 46 s) read_octet"

definition read_ipv4_addr :: "ustring \<Rightarrow> ((u8 \<times> u8 \<times> u8 \<times> u8) \<times> ustring) option" where
  "read_ipv4_addr s =
     Option.bind (read_octet s) (\<lambda>(a, s). Option.bind (read_dot_octet s) (\<lambda>(b, s).
     Option.bind (read_dot_octet s) (\<lambda>(c, s). Option.bind (read_dot_octet s) (\<lambda>(d, s).
       Some ((a, b, c, d), s)))))"

definition read_separator :: "nat \<Rightarrow> ustring \<Rightarrow> ustring option" where
  "read_separator i s = (if i = 0 then Some s else read_given_char 58 s)"

text \<open>At most \<open>limit\<close> groups, the last two of which may be an embedded IPv4 address.\<close>

function read_groups :: "nat \<Rightarrow> nat \<Rightarrow> ustring \<Rightarrow> u16 list \<times> bool \<times> ustring" where
  "read_groups limit i s =
     (if limit \<le> i then ([], False, s)
      else case (if i + 1 < limit then Option.bind (read_separator i s) read_ipv4_addr else None) of
        Some ((a, b, c, d), rest) \<Rightarrow> ([ucast a * 256 + ucast b, ucast c * 256 + ucast d], True, rest)
      | None \<Rightarrow>
          (case Option.bind (read_separator i s) (read_number 16 4 65536 True) of
             None \<Rightarrow> ([], False, s)
           | Some (n, rest) \<Rightarrow> (let (groups, v4, rest) = read_groups limit (i + 1) rest in (of_nat n # groups, v4, rest))))"
  by pat_completeness auto
termination by (relation "measure (\<lambda>(limit, i, s). limit - i)") auto

declare read_groups.simps [simp del]

definition read_ipv6_addr :: "ustring \<Rightarrow> (u16 list \<times> ustring) option" where
  "read_ipv6_addr s =
     (let (head, v4, rest) = read_groups 8 0 s
      in if length head = 8 then Some (head, rest)
         else if v4 then None
         else Option.bind (read_given_char 58 rest) (\<lambda>rest. Option.bind (read_given_char 58 rest) (\<lambda>rest.
           let (tail, _, rest) = read_groups (8 - (length head + 1)) 0 rest
           in Some (head @ replicate (8 - length head - length tail) 0 @ tail, rest))))"

definition parse_ip :: "ustring \<Rightarrow> ip_addr option" where
  "parse_ip s =
     (case read_ipv4_addr s of
        Some ((a, b, c, d), rest) \<Rightarrow> if rest = [] then Some (V4 a b c d) else None
      | None \<Rightarrow> (case read_ipv6_addr s of
          Some (segments, rest) \<Rightarrow> if rest = [] then Some (V6 segments) else None
        | None \<Rightarrow> None))"

text \<open>\<open>str::ends_with\<close>, \<open>str::strip_prefix\<close> of one character, \<open>str::split_once\<close> and
  \<open>str::trim_end_matches\<close>.\<close>

definition ends_with :: "ustring \<Rightarrow> ustring \<Rightarrow> bool" where
  "ends_with s suffix \<longleftrightarrow> drop (length s - length suffix) s = suffix"

fun split_once :: "ustring \<Rightarrow> ustring \<Rightarrow> (ustring \<times> ustring) option" where
  "split_once sep s =
     (if take (length sep) s = sep then Some ([], drop (length sep) s)
      else (case s of [] \<Rightarrow> None
            | c # cs \<Rightarrow> map_option (\<lambda>(before, after). (c # before, after)) (split_once sep cs)))"

declare split_once.simps [simp del]

definition trim_end_matches :: "uchar \<Rightarrow> ustring \<Rightarrow> ustring" where
  "trim_end_matches c s = rev (dropWhile (\<lambda>x. x = c) (rev s))"

definition host_name :: "ustring \<Rightarrow> ustring" where
  "host_name host =
     (let host = last (split_on (\<lambda>c. c = 64) host)
      in case host of
           c # rest \<Rightarrow> if c = 91 then hd (split_on (\<lambda>c. c = 93) rest) else hd (split_on (\<lambda>c. c = 58) host)
         | [] \<Rightarrow> hd (split_on (\<lambda>c. c = 58) host))"

definition reachable_privately :: "ustring \<Rightarrow> bool" where
  "reachable_privately host =
     (let name = host_name host
      in if to_ascii_lowercase name = lit ''localhost'' \<or> ends_with (to_ascii_lowercase name) (lit ''.local'')
         then True
         else (case parse_ip name of None \<Rightarrow> False | Some address \<Rightarrow> bindable address))"

definition url_host :: "ustring \<Rightarrow> ustring" where
  "url_host rest = hd (split_on (\<lambda>c. c = 47 \<or> c = 63 \<or> c = 35) rest)"

text \<open>The text between quotes of the second error is the debug form of the scheme.\<close>

definition pairing_url :: "(ustring \<Rightarrow> ustring) \<Rightarrow> ustring \<Rightarrow> ustring result" where
  "pairing_url show_debug url =
     (let trimmed = trim url
      in case split_once (lit ''://'') trimmed of
           None \<Rightarrow> Inl (lit ''a pairing URL needs a scheme, as in https://host.example:8790'')
         | Some (scheme, rest) \<Rightarrow>
             if scheme \<noteq> lit ''http'' \<and> scheme \<noteq> lit ''https''
             then Inl (lit ''a pairing URL must be http or https; '' @ show_debug scheme @ lit '' is neither'')
             else if url_host rest = [] then Inl (lit ''a pairing URL needs a host'')
             else if scheme = lit ''http'' \<and> \<not> reachable_privately (url_host rest)
             then Inl (lit ''a pairing URL over http would carry the code in clear; use https'')
             else if 35 \<in> set trimmed
             then Inl (lit ''a pairing URL cannot carry a fragment; device-login codes stay out of URLs'')
             else Inr (trim_end_matches 47 trimmed))"

section \<open>Comparison is equality\<close>

lemma word_or_eq_0: "a OR b = 0 \<longleftrightarrow> a = 0 \<and> b = (0 :: 'a::len word)"
  by (auto simp: bit_eq_iff bit_or_iff)

lemma word_xor_eq_0: "a XOR b = 0 \<longleftrightarrow> a = (b :: 'a::len word)"
  by (auto simp: bit_eq_iff bit_xor_iff)

lemma fold_difference:
  "fold (\<lambda>(l, r) difference. difference OR (l XOR r)) ps d = 0 \<longleftrightarrow> d = 0 \<and> (\<forall>(l, r) \<in> set ps. l = (r :: u8))"
  by (induction ps arbitrary: d) (auto simp: word_or_eq_0 word_xor_eq_0)

lemma zip_all_eq: "length xs = length ys \<Longrightarrow> (\<forall>(l, r) \<in> set (zip xs ys). l = r) \<longleftrightarrow> xs = ys"
  by (induction xs ys rule: list_induct2) auto

lemma matches_bytes: "matches left right \<longleftrightarrow> utf8_bytes left = utf8_bytes right"
proof (cases "utf8_len left = utf8_len right")
  case True
  then show ?thesis
    by (simp add: matches_def fold_difference zip_all_eq length_utf8_bytes)
next
  case False
  then have "utf8_bytes left \<noteq> utf8_bytes right" by (metis length_utf8_bytes)
  with False show ?thesis by (simp add: matches_def)
qed

lemma matches_ascii:
  assumes "is_ascii left" and "is_ascii right"
  shows "matches left right \<longleftrightarrow> left = right"
proof -
  have "inj_on (of_nat :: nat \<Rightarrow> u8) {c. c < 128}"
    by (rule inj_onI) (simp add: word_unat_eq_iff unat_of_nat)
  with assms show ?thesis
    by (auto simp: matches_bytes utf8_bytes_ascii is_ascii_def intro!: map_inj_on [of of_nat left right]
        elim: inj_on_subset)
qed

section \<open>Codes\<close>

lemma normalized_ascii [simp]: "is_ascii (normalize_pairing_code s)"
  by (auto simp: is_ascii_def normalize_pairing_code_def is_ascii_alphanumeric_def ascii_upper_def
      dest!: in_set_takeD split: if_splits)

lemma accepts_iff:
  "accepts p entered now \<longleftrightarrow>
   now < pp_expires_at p \<and> normalize_pairing_code entered = normalize_pairing_code (pp_code p)"
  by (auto simp: accepts_def expired_def matches_ascii)

lemma code_alphabet_letter:
  assumes "n < 32"
  shows "is_ascii_alphanumeric (code_alphabet ! n) \<and> ascii_upper (code_alphabet ! n) = code_alphabet ! n"
proof -
  have "list_all (\<lambda>c. is_ascii_alphanumeric c \<and> ascii_upper c = c) code_alphabet" "length code_alphabet = 32"
    by (simp_all add: code_alphabet_def lit_def is_ascii_alphanumeric_def ascii_upper_def)
  with assms show ?thesis by (simp add: list_all_length)
qed

lemma pairing_code_shape:
  assumes "pairing_code (Inr bytes) = Inr code" and "length bytes = code_characters"
  shows "length code = 9 \<and> code ! 4 = 45
    \<and> normalize_pairing_code code = map (\<lambda>byte. code_alphabet ! unat (byte mod 32)) bytes"
proof -
  let ?letters = "map (\<lambda>byte. code_alphabet ! unat (byte mod 32)) bytes"
  have code: "code = take 4 ?letters @ [45] @ drop 4 ?letters"
    using assms(1) by (simp add: pairing_code_def Let_def lit_def)
  have "unat (byte mod 32) < 32" for byte :: u8 by (simp add: unat_mod)
  then have letter: "is_ascii_alphanumeric c \<and> ascii_upper c = c" if "c \<in> set ?letters" for c
    using that code_alphabet_letter by auto
  then have "filter is_ascii_alphanumeric (take 4 ?letters) = take 4 ?letters"
    "filter is_ascii_alphanumeric (drop 4 ?letters) = drop 4 ?letters"
    by (auto intro!: filter_True dest!: in_set_takeD in_set_dropD)
  moreover have "\<not> is_ascii_alphanumeric 45" by (simp add: is_ascii_alphanumeric_def)
  ultimately have "filter is_ascii_alphanumeric code = ?letters"
    unfolding code by (simp del: drop_map take_map add: append_take_drop_id)
  moreover have "map ascii_upper ?letters = ?letters" using letter by (auto intro: map_idI)
  ultimately show ?thesis
    using assms(2) code by (simp add: normalize_pairing_code_def code_characters_def nth_append)
qed

section \<open>Where a pairing may be offered\<close>

text \<open>A number printed in decimal is read back by the address parser.\<close>

lemma to_digit_decimal [simp]: "d < 10 \<Longrightarrow> to_digit 10 (48 + d) = Some d"
  by (simp add: to_digit_def)

lemma to_digit_stop [simp]: "to_digit 10 46 = None" "to_digit 10 58 = None"
  by (simp_all add: to_digit_def)

lemma show_nat_digits:
  "c \<in> set (show_nat n) \<Longrightarrow> \<exists>d < 10. c = 48 + d"
proof (induction n rule: show_nat.induct)
  case (1 n)
  then show ?case by (subst (asm) show_nat.simps) (auto split: if_splits)
qed

lemma show_nat_value:
  "foldl (\<lambda>acc c. acc * 10 + unwrap_or 0 (to_digit 10 c)) 0 (show_nat n) = n"
proof (induction n rule: show_nat.induct)
  case (1 n)
  then show ?case by (subst show_nat.simps) (auto simp: div_mod_decomp)
qed

lemma show_nat_nonempty [simp]: "show_nat n \<noteq> []"
  by (subst show_nat.simps) auto

lemma show_nat_small: "n < 1000 \<Longrightarrow> length (show_nat n) \<le> 3"
  by (subst show_nat.simps, subst show_nat.simps, subst show_nat.simps) auto

lemma show_nat_head: "hd (show_nat n) = 48 \<Longrightarrow> length (show_nat n) = 1"
proof (induction n rule: show_nat.induct)
  case (1 n)
  show ?case
  proof (cases "n < 10")
    case False
    then have "hd (show_nat n) = hd (show_nat (n div 10))" by (subst show_nat.simps) simp
    with 1 False have "length (show_nat (n div 10)) = 1" "hd (show_nat (n div 10)) = 48" by auto
    then have "show_nat (n div 10) = [48]" by (metis hd_Cons_tl length_0_conv length_tl diff_self_eq_0 list.size(3) show_nat_nonempty)
    then have "n div 10 = 0" using show_nat_value [of "n div 10"] by (simp add: to_digit_def)
    with False show ?thesis by simp
  qed (subst show_nat.simps, simp)
qed

lemma read_octet_show:
  assumes "rest = [] \<or> to_digit 10 (hd rest) = None"
  shows "read_octet (show_nat (unat a) @ rest) = Some (a, rest)"
proof -
  let ?s = "show_nat (unat a)"
  have "\<forall>c \<in> set ?s. to_digit 10 c \<noteq> None" using show_nat_digits [of _ "unat a"] by fastforce
  then have "takeWhile (\<lambda>c. to_digit 10 c \<noteq> None) (?s @ rest) = ?s"
    using assms by (cases rest) (auto simp: takeWhile_append)
  moreover have "unat a < 256" using unsigned_less [of a] by simp
  moreover have "length ?s \<le> 3" using \<open>unat a < 256\<close> by (intro show_nat_small) simp
  moreover have "hd ?s = 48 \<longrightarrow> length ?s = 1" using show_nat_head by blast
  ultimately show ?thesis
    by (auto simp: read_octet_def read_number_def Let_def show_nat_value)
qed

definition show_ipv4 :: "u8 \<Rightarrow> u8 \<Rightarrow> u8 \<Rightarrow> u8 \<Rightarrow> ustring" where
  "show_ipv4 a b c d = show_word a @ 46 # show_word b @ 46 # show_word c @ 46 # show_word d"

lemma parse_show_ipv4: "parse_ip (show_ipv4 a b c d) = Some (V4 a b c d)"
  by (simp add: parse_ip_def read_ipv4_addr_def read_dot_octet_def read_given_char_def show_ipv4_def show_word_def
      read_octet_show read_octet_show [where rest = "[]", simplified])

lemma split_on_none: "\<forall>c \<in> set s. \<not> p c \<Longrightarrow> split_on p s = [s]"
  by (induction s) auto

lemma split_on_first: "\<forall>c \<in> set s. \<not> p c \<Longrightarrow> p x \<Longrightarrow> hd (split_on p (s @ x # rest)) = s"
proof (induction s)
  case (Cons a s)
  then show ?case by (cases "split_on p (s @ x # rest)") auto
qed simp

lemma dropWhile_none: "\<forall>c \<in> set s. \<not> p c \<Longrightarrow> dropWhile p s = s"
  by (cases s) auto

lemma trim_none: "\<forall>c \<in> set s. \<not> is_whitespace c \<Longrightarrow> trim s = s"
  by (simp add: trim_def trim_start_def trim_end_def dropWhile_none)

definition address_char :: "uchar \<Rightarrow> bool" where
  "address_char c \<longleftrightarrow> (48 \<le> c \<and> c \<le> 57) \<or> c = 46"

lemma show_ipv4_chars: "c \<in> set (show_ipv4 a b c' d) \<Longrightarrow> address_char c"
  by (auto simp: show_ipv4_def show_word_def address_char_def dest: show_nat_digits)

lemma show_ipv4_head: "\<exists>x xs. show_ipv4 a b c d = x # xs"
  by (cases "show_ipv4 a b c d") (auto simp: show_ipv4_def)

lemma host_name_address:
  assumes "\<And>c. c \<in> set s \<Longrightarrow> address_char c" and "s \<noteq> []" and "\<And>c. c \<in> set port \<Longrightarrow> address_char c"
  shows "host_name (s @ 58 # port) = s"
proof -
  have chars: "\<forall>c \<in> set (s @ 58 # port). c \<noteq> 64"
    using assms(1,3) by (fastforce simp: address_char_def)
  have "hd (split_on (\<lambda>c. c = 58) (s @ 58 # port)) = s"
    using assms(1) by (intro split_on_first) (fastforce simp: address_char_def)+
  moreover obtain c cs where "s = c # cs" "c \<noteq> 91"
    using assms(1,2) by (cases s) (fastforce simp: address_char_def)+
  ultimately show ?thesis using chars by (simp add: host_name_def split_on_none Let_def)
qed

lemma split_once_scheme:
  "split_once (lit ''://'') (lit ''http://'' @ rest) = Some (lit ''http'', rest)"
  by (simp add: lit_def split_once.simps)

text \<open>What pairing at a bound listener looks like in a URL.\<close>

definition listener_url :: "u8 \<Rightarrow> u8 \<Rightarrow> u8 \<Rightarrow> u8 \<Rightarrow> u16 \<Rightarrow> ustring" where
  "listener_url a b c d port = lit ''http://'' @ show_ipv4 a b c d @ 58 # show_word port"

lemma listener_url_accepted:
  assumes bindable: "bindable (V4 a b c d)"
  shows "pairing_url show_debug (listener_url a b c d port) = Inr (listener_url a b c d port)"
proof -
  let ?s = "show_ipv4 a b c d" and ?port = "show_word port"
  let ?url = "listener_url a b c d port"
  have port: "address_char x" if "x \<in> set ?port" for x
    using that by (auto simp: show_word_def address_char_def dest: show_nat_digits)
  have chars: "address_char x \<or> x \<in> set (lit ''htp:/'')" if "x \<in> set ?url" for x
    using that port show_ipv4_chars by (auto simp: listener_url_def lit_def)
  then have "trim ?url = ?url" "35 \<notin> set ?url"
    by (auto intro!: trim_none simp: address_char_def is_whitespace_def lit_def) (fastforce)+
  moreover have "split_once (lit ''://'') ?url = Some (lit ''http'', ?s @ 58 # ?port)"
    by (simp add: listener_url_def split_once_scheme)
  moreover have "url_host (?s @ 58 # ?port) = ?s @ 58 # ?port"
    using port show_ipv4_chars unfolding url_host_def
    by (subst split_on_none) (fastforce simp: address_char_def)+
  moreover have "host_name (?s @ 58 # ?port) = ?s"
    using port show_ipv4_chars show_ipv4_head [of a b c d] by (intro host_name_address) auto
  moreover have "trim_end_matches 47 ?url = ?url"
  proof -
    obtain x xs where x: "?port = xs @ [x]" by (cases ?port rule: rev_cases) (auto simp: show_word_def)
    then have "x \<noteq> 47" using port [of x] by (auto simp: address_char_def)
    with x show ?thesis by (simp add: trim_end_matches_def listener_url_def)
  qed
  ultimately show "pairing_url show_debug ?url = Inr ?url"
    using bindable by (simp add: pairing_url_def Let_def reachable_privately_def parse_show_ipv4)
qed

text \<open>
  C10. A pairing is offered where the network protects it, and wherever the daemon listens. A URL
  that is accepted is \<open>https\<close>, or its host is on this machine, a \<open>.local\<close> name, or an address
  of a range the listener binds; it has no fragment, so no code is in it. And the plain URL of
  every IPv4 address and port the daemon is willing to bind is accepted as it is.
\<close>

theorem pairing_url_private:
  "(\<forall>url base. pairing_url show_debug url = Inr base \<longrightarrow>
      (\<exists>scheme rest. split_once (lit ''://'') (trim url) = Some (scheme, rest) \<and> url_host rest \<noteq> []
        \<and> 35 \<notin> set (trim url) \<and> base = trim_end_matches 47 (trim url)
        \<and> (scheme = lit ''https'' \<or> scheme = lit ''http'' \<and>
            (to_ascii_lowercase (host_name (url_host rest)) = lit ''localhost''
             \<or> ends_with (to_ascii_lowercase (host_name (url_host rest))) (lit ''.local'')
             \<or> (\<exists>address. parse_ip (host_name (url_host rest)) = Some address \<and> bindable address)))))
   \<and> (\<forall>a b c d port. bindable (V4 a b c d) \<longrightarrow>
        pairing_url show_debug (listener_url a b c d port) = Inr (listener_url a b c d port))"
proof (intro conjI allI impI)
  fix url base
  assume "pairing_url show_debug url = Inr base"
  then show "\<exists>scheme rest. split_once (lit ''://'') (trim url) = Some (scheme, rest) \<and> url_host rest \<noteq> []
        \<and> 35 \<notin> set (trim url) \<and> base = trim_end_matches 47 (trim url)
        \<and> (scheme = lit ''https'' \<or> scheme = lit ''http'' \<and>
            (to_ascii_lowercase (host_name (url_host rest)) = lit ''localhost''
             \<or> ends_with (to_ascii_lowercase (host_name (url_host rest))) (lit ''.local'')
             \<or> (\<exists>address. parse_ip (host_name (url_host rest)) = Some address \<and> bindable address)))"
    by (auto simp: pairing_url_def Let_def reachable_privately_def split: option.splits prod.splits if_splits)
qed (rule listener_url_accepted)

theorem pairing_url_private_witness:
  "bindable (V4 192 168 1 4) \<and> pairing_url (\<lambda>s. s) (listener_url 192 168 1 4 8790) = Inr (listener_url 192 168 1 4 8790)"
proof -
  have "bindable (V4 192 168 1 4)" by (simp add: bindable_def is_private_v4_def)
  then show ?thesis using pairing_url_private [of "\<lambda>s. s"] by blast
qed

end
