(* ===== verification/Device_Pairing.thy ===== *)
theory Device_Pairing
  imports Pairing Broker
begin

text \<open>
  How the daemon pairs a device: the policy the web server asks (\<open>DevicePolicy\<close> in
  \<open>src/src/daemon/server.rs\<close>), the code it issues, the approvals that wait for a trusted
  client, and the devices the configuration records (\<open>Config::add_device_file\<close> and
  \<open>remove_device_file\<close> in \<open>src/src/config.rs\<close>). The web server's threads talk to the event
  loop through an inbox. Times, random bytes and the outcome of writing the file are arguments
  of the operations; the digest of a token is a parameter.
\<close>

section \<open>Devices\<close>

record device =
  dv_name :: ustring
  dv_token_sha256 :: ustring
  dv_paired_at_ms :: u64

definition device_name :: "ustring \<Rightarrow> ustring" where
  "device_name offered =
     (let cleaned = take 48 (filter (\<lambda>c. is_ascii_alphanumeric c \<or> c \<in> {32, 45, 95, 46}) offered);
          trimmed = trim cleaned
      in if trimmed = [] then lit ''paired device'' else trimmed)"

text \<open>The first suffix that is free; one of as many candidates as there are devices and one
  more always is.\<close>

definition unique_device_name :: "ustring \<Rightarrow> device list \<Rightarrow> ustring" where
  "unique_device_name offered existing =
     (let base = device_name offered; taken = map dv_name existing
      in if base \<notin> set taken then base
         else unwrap_or base (find (\<lambda>candidate. candidate \<notin> set taken)
           (map (\<lambda>suffix. base @ 32 # show_nat suffix) [2..<2 + Suc (length existing)])))"

text \<open>The debug form of a name, for names without characters that are escaped in it.\<close>

definition quoted :: "ustring \<Rightarrow> ustring" where
  "quoted name = 34 # name @ [34]"

definition add_device :: "unit result \<Rightarrow> device \<Rightarrow> device list \<Rightarrow> device list result" where
  "add_device written d devices =
     (if dv_name d \<in> set (map dv_name devices)
      then Inl (lit ''a device named '' @ quoted (dv_name d) @ lit '' is already paired'')
      else and_then written (\<lambda>_. Inr (devices @ [d])))"

definition remove_device :: "unit result \<Rightarrow> ustring \<Rightarrow> device list \<Rightarrow> device list result" where
  "remove_device written name devices =
     (let kept = filter (\<lambda>d. dv_name d \<noteq> name) devices
      in if length kept = length devices then Inl (lit ''no device named '' @ quoted name @ lit '' is paired'')
         else and_then written (\<lambda>_. Inr kept))"

definition admits :: "(ustring \<Rightarrow> ustring) \<Rightarrow> device list \<Rightarrow> ustring \<Rightarrow> bool" where
  "admits fingerprint current offered \<longleftrightarrow>
     (\<exists>d \<in> set current. matches (dv_token_sha256 d) (fingerprint offered))"

section \<open>The desk\<close>

record pairing_request =
  pr_attempt :: ustring
  pr_name :: ustring
  pr_confirmation :: ustring
  pr_expires_at :: system_time

record pending_approval =
  ap_name :: ustring
  ap_expires_at :: system_time

record desk =
  dk_config :: bool
  dk_devices :: "device list"
  dk_pending :: "pending_pairing option"
  dk_bridge :: "ustring option option"
  dk_inbox :: "pairing_request list"
  dk_approvals :: "(ustring, pending_approval) btmap"

text \<open>At the start nothing is outstanding; a configured bridge publishes no code.\<close>

definition desk_new :: "bool \<Rightarrow> device list \<Rightarrow> bool \<Rightarrow> desk" where
  "desk_new config devices bridge = \<lparr>dk_config = config, dk_devices = devices, dk_pending = None,
     dk_bridge = (if bridge then Some None else None), dk_inbox = [], dk_approvals = bt_empty\<rparr>"

definition max_pending_pairing_approvals :: nat where
  "max_pending_pairing_approvals = 16"

definition pairing_approval_lifetime :: int where
  "pairing_approval_lifetime = 60 * 1000000000"

definition publish_bridge :: "ustring option \<Rightarrow> desk \<Rightarrow> desk" where
  "publish_bridge code k = (case dk_bridge k of None \<Rightarrow> k | Some _ \<Rightarrow> k\<lparr>dk_bridge := Some code\<rparr>)"

definition clear_bridge_pairing :: "desk \<Rightarrow> desk" where
  "clear_bridge_pairing k = publish_bridge None k"

text \<open>Seconds left, none when the time has passed; a \<open>u64\<close> holds them.\<close>

definition seconds_left :: "system_time \<Rightarrow> system_time \<Rightarrow> u64" where
  "seconds_left until now = (if until < now then 0 else of_int ((until - now) div 1000000000))"

definition issue_pairing_code ::
    "u8 list result \<Rightarrow> system_time \<Rightarrow> request_id \<Rightarrow> ustring option \<Rightarrow> desk \<Rightarrow> desk \<times> server_message" where
  "issue_pairing_code secret_bytes now request web_url k =
     (case pending_new secret_bytes now of
        Inl e \<Rightarrow> (k, ErrorMsg (Some request) e)
      | Inr pending \<Rightarrow>
          (publish_bridge (Some (pp_code pending)) (k\<lparr>dk_pending := Some pending\<rparr>),
           PairingCode request (pp_code pending) (seconds_left (pp_expires_at pending) now) web_url))"

definition valid_confirmation :: "ustring \<Rightarrow> bool" where
  "valid_confirmation confirmation \<longleftrightarrow> utf8_len confirmation = 6 \<and> (\<forall>c \<in> set confirmation. is_ascii_digit c)"

text \<open>The web server's request to pair; \<open>alive\<close> says whether the event loop still listens.\<close>

definition pair ::
    "u8 list result \<Rightarrow> bool \<Rightarrow> system_time \<Rightarrow> ustring \<Rightarrow> ustring \<Rightarrow> ustring \<Rightarrow> desk \<Rightarrow> desk \<times> ustring result" where
  "pair secret_bytes alive now code name confirmation k =
     (if \<not> dk_config k then (k, Inl (lit ''this daemon has no configuration file to record a device in''))
      else if \<not> valid_confirmation confirmation
      then (k, Inl (lit ''the browser did not provide a valid confirmation number''))
      else (case token secret_bytes of
        Inl e \<Rightarrow> (k, Inl e)
      | Inr attempt \<Rightarrow>
          (case dk_pending k of
             None \<Rightarrow> (k, Inl (lit ''no pairing code is waiting; ask for one from the terminal client''))
           | Some pending \<Rightarrow>
               if expired pending now
               then (clear_bridge_pairing (k\<lparr>dk_pending := None\<rparr>),
                     Inl (lit ''that pairing code has expired; ask for another''))
               else if \<not> accepts pending code now
               then (let (pending, spent) = record_failure pending
                     in if spent then (clear_bridge_pairing (k\<lparr>dk_pending := None\<rparr>),
                                       Inl (lit ''too many wrong codes; ask for another''))
                        else (k\<lparr>dk_pending := Some pending\<rparr>,
                              Inl (lit ''that is not the code waiting; '' @ show_word (attempts_remaining pending)
                                @ lit '' attempt(s) left before it is discarded'')))
               else let k = clear_bridge_pairing (k\<lparr>dk_pending := None\<rparr>)
                 in if \<not> alive then (k, Inl (lit ''the daemon stopped before it could ask for approval''))
                    else (k\<lparr>dk_inbox := dk_inbox k @ [\<lparr>pr_attempt = attempt,
                            pr_name = unique_device_name name (dk_devices k), pr_confirmation = confirmation,
                            pr_expires_at = now + pairing_approval_lifetime\<rparr>]\<rparr>, Inr attempt))))"

text \<open>What the browser that waits for the decision is sent.\<close>

type_synonym answers = "(ustring \<times> ustring result) list"

definition pairing_requested ::
    "system_time \<Rightarrow> 'p broker \<Rightarrow> desk \<Rightarrow> desk \<times> effect list \<times> answers" where
  "pairing_requested now b k =
     (case dk_inbox k of
        [] \<Rightarrow> (k, [], [])
      | r # inbox \<Rightarrow>
          (let k = k\<lparr>dk_inbox := inbox\<rparr>
           in if max_pending_pairing_approvals \<le> bt_len (dk_approvals k)
              then (k, [], [(pr_attempt r, Inl (lit ''too many device approvals are already waiting''))])
              else (k\<lparr>dk_approvals := bt_insert (pr_attempt r)
                        \<lparr>ap_name = pr_name r, ap_expires_at = pr_expires_at r\<rparr> (dk_approvals k)\<rparr>,
                    pairing_approval_required (pr_attempt r) (pr_name r) (pr_confirmation r)
                      (seconds_left (pr_expires_at r) now) b, [])))"

text \<open>
  The decision of a trusted client. \<open>closed\<close> says whether the browser has left when the
  approval is looked up, \<open>gone\<close> whether it has left when the token is sent.
\<close>

definition decide_pairing ::
    "(ustring \<Rightarrow> ustring) \<Rightarrow> u8 list result \<Rightarrow> unit result \<Rightarrow> bool \<Rightarrow> bool \<Rightarrow> system_time \<Rightarrow> u64 \<Rightarrow> ustring \<Rightarrow> bool \<Rightarrow>
     'p broker \<Rightarrow> desk \<Rightarrow> desk \<times> effect list \<times> answers" where
  "decide_pairing fingerprint secret_bytes written closed gone now now_ms attempt approve b k =
     (case bt_get (dk_approvals k) attempt of
        None \<Rightarrow> (k, pairing_decided attempt False (lit ''that device approval is no longer waiting'') b, [])
      | Some pending \<Rightarrow>
          (let k = k\<lparr>dk_approvals := bt_remove attempt (dk_approvals k)\<rparr>
           in if ap_expires_at pending \<le> now \<or> closed
              then (k, pairing_decided attempt False (lit ''device approval expired'') b,
                    [(attempt, Inl (lit ''device approval expired''))])
              else if \<not> approve
              then (k, pairing_decided attempt False (ap_name pending @ lit '' was not paired'') b,
                    [(attempt, Inl (lit ''device approval was rejected''))])
              else (case (if \<not> dk_config k
                            then Inl (lit ''this daemon has no configuration file to record a device in'')
                            else and_then (token secret_bytes) (\<lambda>secret.
                              and_then (add_device written \<lparr>dv_name = ap_name pending,
                                  dv_token_sha256 = fingerprint secret, dv_paired_at_ms = now_ms\<rparr> (dk_devices k))
                                (\<lambda>devices. Inr (devices, secret)))) of
                      Inr (devices, secret) \<Rightarrow>
                        (k\<lparr>dk_devices := devices\<rparr>,
                         pairing_decided attempt (\<not> gone)
                           (if \<not> gone then ap_name pending @ lit '' paired''
                            else lit ''the browser left before approval completed'') b,
                         if gone then [] else [(attempt, Inr secret)])
                    | Inl message \<Rightarrow> (k, pairing_decided attempt False message b, [(attempt, Inl message)]))))"

text \<open>Approvals that expired, or whose browser has left, are given up.\<close>

definition sweep_pairing_approvals ::
    "system_time \<Rightarrow> (ustring \<Rightarrow> bool) \<Rightarrow> 'p broker \<Rightarrow> desk \<Rightarrow> desk \<times> effect list \<times> answers" where
  "sweep_pairing_approvals now closed b k =
     (let given_up = map fst (filter (\<lambda>(attempt, pending). ap_expires_at pending \<le> now \<or> closed attempt)
            (bt_entries (dk_approvals k)))
      in (k\<lparr>dk_approvals := fold bt_remove given_up (dk_approvals k)\<rparr>,
          concat (map (\<lambda>attempt. pairing_decided attempt False (lit ''device approval expired'') b) given_up),
          map (\<lambda>attempt. (attempt, Inl (lit ''device approval expired''))) given_up))"

section \<open>Names\<close>

lemma show_nat_inj: "show_nat m = show_nat n \<Longrightarrow> m = n"
  by (metis show_nat_value)

text \<open>The bounded search finds what the source's unbounded one would.\<close>

lemma unique_device_name_fresh: "unique_device_name offered existing \<notin> dv_name ` set existing"
proof (cases "device_name offered \<in> dv_name ` set existing")
  case False
  then show ?thesis by (simp add: unique_device_name_def Let_def)
next
  case True
  let ?base = "device_name offered" and ?taken = "map dv_name existing"
  let ?candidates = "map (\<lambda>suffix. ?base @ 32 # show_nat suffix) [2..<2 + Suc (length existing)]"
  have "distinct ?candidates" by (auto simp: distinct_map inj_on_def dest: show_nat_inj)
  then have "card (set ?candidates) = length ?candidates" by (rule distinct_card)
  then have "card (set ?candidates) = Suc (length existing)" by (simp del: upt_Suc)
  moreover have "card (set ?taken) \<le> length existing" using card_length [of ?taken] by simp
  ultimately have "\<not> set ?candidates \<subseteq> set ?taken" using card_mono [of "set ?taken" "set ?candidates"] by auto
  then obtain x where "find (\<lambda>candidate. candidate \<notin> set ?taken) ?candidates = Some x"
    by (cases "find (\<lambda>candidate. candidate \<notin> set ?taken) ?candidates") (auto simp: find_None_iff)
  moreover from this have "x \<notin> set ?taken" by (auto simp: find_Some_iff simp del: upt_Suc)
  ultimately show ?thesis using True by (simp add: unique_device_name_def Let_def del: upt_Suc)
qed

section \<open>The desk and its history\<close>

text \<open>
  How a code was used: the number of the code, when it was issued, what was entered and when,
  after how many wrong entries. The history keeps for every code where its use stands.
\<close>

record code_use =
  cu_serial :: nat
  cu_code :: ustring
  cu_issued_at :: system_time
  cu_entered :: ustring
  cu_entered_at :: system_time
  cu_failures :: u32

datatype stage = Unissued | Outstanding | Sent | Waiting ustring | Paired

record pairing_history =
  ph_desk :: desk
  ph_clock :: system_time
  ph_issued :: nat
  ph_issued_at :: system_time
  ph_stage :: "nat \<Rightarrow> stage"
  ph_sent :: "code_use list"
  ph_waiting :: "ustring \<Rightarrow> code_use option"
  ph_paired :: "(device \<times> code_use \<times> system_time) list"

definition history_new :: "desk \<Rightarrow> system_time \<Rightarrow> pairing_history" where
  "history_new k start = \<lparr>ph_desk = k, ph_clock = start, ph_issued = 0, ph_issued_at = start,
     ph_stage = (\<lambda>_. Unissued), ph_sent = [], ph_waiting = (\<lambda>_. None), ph_paired = []\<rparr>"

datatype desk_event =
    IssueCode "u8 list result" request_id "ustring option"
  | EnterCode "u8 list result" bool ustring ustring ustring
  | RequestArrives
  | Decide "u8 list result" "unit result" bool bool u64 ustring bool
  | Sweep "ustring \<Rightarrow> bool"
  | Revoke "unit result" ustring

text \<open>The code that is outstanding is the last one issued.\<close>

definition current_use :: "pairing_history \<Rightarrow> pending_pairing \<Rightarrow> ustring \<Rightarrow> system_time \<Rightarrow> code_use" where
  "current_use h p entered now = \<lparr>cu_serial = ph_issued h - 1, cu_code = pp_code p, cu_issued_at = ph_issued_at h,
     cu_entered = entered, cu_entered_at = now, cu_failures = pp_attempts p\<rparr>"

definition observe_desk :: "(ustring \<Rightarrow> ustring) \<Rightarrow> 'p broker \<Rightarrow> system_time \<Rightarrow> desk_event \<Rightarrow> pairing_history \<Rightarrow> pairing_history" where
  "observe_desk fingerprint b now event h = (let k = ph_desk h; h = h\<lparr>ph_clock := now\<rparr> in case event of
     IssueCode secret request url \<Rightarrow>
       (let h' = h\<lparr>ph_desk := fst (issue_pairing_code secret now request url k)\<rparr>
        in case pending_new secret now of
             Inl _ \<Rightarrow> h'
           | Inr _ \<Rightarrow> h'\<lparr>ph_issued := ph_issued h + 1, ph_issued_at := now,
                ph_stage := (ph_stage h)(ph_issued h := Outstanding)\<rparr>)
   | EnterCode secret alive code name confirmation \<Rightarrow>
       (let (k', r) = pair secret alive now code name confirmation k; h' = h\<lparr>ph_desk := k'\<rparr>
        in case r of
             Inl _ \<Rightarrow> h'
           | Inr _ \<Rightarrow> h'\<lparr>ph_sent := ph_sent h @ [current_use h (the (dk_pending k)) code now],
                ph_stage := (ph_stage h)(ph_issued h - 1 := Sent)\<rparr>)
   | RequestArrives \<Rightarrow>
       (let (k', _, answers) = pairing_requested now b k; h' = h\<lparr>ph_desk := k'\<rparr>
        in case (dk_inbox k, ph_sent h) of
             (r # _, u # us) \<Rightarrow>
               if answers \<noteq> [] then h'\<lparr>ph_sent := us\<rparr>
               else h'\<lparr>ph_sent := us, ph_waiting := (ph_waiting h)(pr_attempt r \<mapsto> u),
                 ph_stage := (ph_stage h)(cu_serial u := Waiting (pr_attempt r))\<rparr>
           | _ \<Rightarrow> h')
   | Decide secret written closed gone now_ms attempt approve \<Rightarrow>
       (let (k', _, _) = decide_pairing fingerprint secret written closed gone now now_ms attempt approve b k;
            h' = h\<lparr>ph_desk := k'\<rparr>
        in if dk_devices k' = dk_devices k then h'
           else let u = the (ph_waiting h attempt)
             in h'\<lparr>ph_paired := (last (dk_devices k'), u, now) # ph_paired h,
                  ph_stage := (ph_stage h)(cu_serial u := Paired)\<rparr>)
   | Sweep closed \<Rightarrow> h\<lparr>ph_desk := fst (sweep_pairing_approvals now closed b k)\<rparr>
   | Revoke written name \<Rightarrow> (case remove_device written name (dk_devices k) of
         Inl _ \<Rightarrow> h | Inr devices \<Rightarrow> h\<lparr>ph_desk := k\<lparr>dk_devices := devices\<rparr>\<rparr>))"

inductive desk_step :: "(ustring \<Rightarrow> ustring) \<Rightarrow> 'p broker \<Rightarrow> pairing_history \<Rightarrow> pairing_history \<Rightarrow> bool" for fingerprint b where
  "ph_clock h \<le> now \<Longrightarrow> desk_step fingerprint b h (observe_desk fingerprint b now event h)"

inductive_cases desk_stepE: "desk_step fingerprint b h h'"

text \<open>The code was entered as issued, in time and within the attempts allowed.\<close>

definition good_use :: "code_use \<Rightarrow> bool" where
  "good_use u \<longleftrightarrow> normalize_pairing_code (cu_entered u) = normalize_pairing_code (cu_code u)
     \<and> cu_issued_at u \<le> cu_entered_at u \<and> cu_entered_at u < cu_issued_at u + code_lifetime \<and> cu_failures u < max_attempts"

definition good_pairing :: "device \<times> code_use \<times> system_time \<Rightarrow> bool" where
  "good_pairing e = (case e of (d, u, at) \<Rightarrow> good_use u \<and> at < cu_entered_at u + pairing_approval_lifetime)"

definition history_ok :: "device list \<Rightarrow> pairing_history \<Rightarrow> bool" where
  "history_ok initial h \<longleftrightarrow> (let k = ph_desk h in
       ph_issued_at h \<le> ph_clock h
     \<and> (\<forall>n \<ge> ph_issued h. ph_stage h n = Unissued)
     \<and> (\<forall>p. dk_pending k = Some p \<longrightarrow> 0 < ph_issued h \<and> ph_stage h (ph_issued h - 1) = Outstanding
          \<and> pp_expires_at p = ph_issued_at h + code_lifetime \<and> pp_attempts p < max_attempts)
     \<and> list_all2 (\<lambda>r u. good_use u \<and> pr_expires_at r = cu_entered_at u + pairing_approval_lifetime
          \<and> ph_stage h (cu_serial u) = Sent) (dk_inbox k) (ph_sent h)
     \<and> distinct (map cu_serial (ph_sent h))
     \<and> (\<forall>attempt p. bt_get (dk_approvals k) attempt = Some p \<longrightarrow>
          (\<exists>u. ph_waiting h attempt = Some u \<and> good_use u
             \<and> ap_expires_at p = cu_entered_at u + pairing_approval_lifetime
             \<and> ph_stage h (cu_serial u) = Waiting attempt))
     \<and> (\<forall>e \<in> set (ph_paired h). good_pairing e \<and> ph_stage h (cu_serial (fst (snd e))) = Paired)
     \<and> distinct (map (cu_serial \<circ> fst \<circ> snd) (ph_paired h))
     \<and> set (dk_devices k) \<subseteq> set initial \<union> fst ` set (ph_paired h))"

lemma history_new_ok: "history_ok devices (history_new (desk_new config devices bridge) start)"
  by (simp add: history_ok_def history_new_def desk_new_def Let_def)

lemma publish_simps [simp]:
  "dk_pending (publish_bridge code k) = dk_pending k" "dk_inbox (publish_bridge code k) = dk_inbox k"
  "dk_approvals (publish_bridge code k) = dk_approvals k" "dk_devices (publish_bridge code k) = dk_devices k"
  "dk_config (publish_bridge code k) = dk_config k"
  by (simp_all add: publish_bridge_def split: option.split)

lemma clear_bridge_simps [simp]:
  "dk_pending (clear_bridge_pairing k) = dk_pending k" "dk_inbox (clear_bridge_pairing k) = dk_inbox k"
  "dk_approvals (clear_bridge_pairing k) = dk_approvals k" "dk_devices (clear_bridge_pairing k) = dk_devices k"
  "dk_config (clear_bridge_pairing k) = dk_config k"
  by (simp_all add: clear_bridge_pairing_def)

text \<open>What the history promises of each part, for the stages a step does not touch.\<close>

lemma history_parts:
  assumes "history_ok initial h"
  shows "ph_issued_at h \<le> ph_clock h" and "ph_issued h \<le> n \<Longrightarrow> ph_stage h n = Unissued"
    and "dk_pending (ph_desk h) = Some p \<Longrightarrow> 0 < ph_issued h \<and> ph_stage h (ph_issued h - 1) = Outstanding
          \<and> pp_expires_at p = ph_issued_at h + code_lifetime \<and> pp_attempts p < max_attempts"
    and "list_all2 (\<lambda>r u. good_use u \<and> pr_expires_at r = cu_entered_at u + pairing_approval_lifetime
          \<and> ph_stage h (cu_serial u) = Sent) (dk_inbox (ph_desk h)) (ph_sent h)"
    and "distinct (map cu_serial (ph_sent h))"
    and "bt_get (dk_approvals (ph_desk h)) attempt = Some a \<Longrightarrow> \<exists>u. ph_waiting h attempt = Some u \<and> good_use u
             \<and> ap_expires_at a = cu_entered_at u + pairing_approval_lifetime
             \<and> ph_stage h (cu_serial u) = Waiting attempt"
    and "e \<in> set (ph_paired h) \<Longrightarrow> good_pairing e \<and> ph_stage h (cu_serial (fst (snd e))) = Paired"
    and "distinct (map (cu_serial \<circ> fst \<circ> snd) (ph_paired h))"
    and "set (dk_devices (ph_desk h)) \<subseteq> set initial \<union> fst ` set (ph_paired h)"
  using assms by (simp_all add: history_ok_def Let_def)

lemma sent_stage: "history_ok initial h \<Longrightarrow> u \<in> set (ph_sent h) \<Longrightarrow> ph_stage h (cu_serial u) = Sent"
  using history_parts(4) [of initial h] by (auto simp: list_all2_conv_all_nth in_set_conv_nth)

text \<open>A step that changes the stage of one code leaves the promises about the others.\<close>

lemma history_okI:
  assumes ok: "history_ok initial h"
    and clock: "ph_clock h \<le> now" "ph_clock h' = now"
    and same: "ph_issued h' = ph_issued h" "ph_issued_at h' = ph_issued_at h" "ph_stage h' = ph_stage h"
      "ph_sent h' = ph_sent h" "ph_waiting h' = ph_waiting h" "ph_paired h' = ph_paired h"
      "dk_inbox (ph_desk h') = dk_inbox (ph_desk h)"
    and approvals: "\<And>attempt a. bt_get (dk_approvals (ph_desk h')) attempt = Some a \<Longrightarrow>
          bt_get (dk_approvals (ph_desk h)) attempt = Some a"
    and pending: "\<And>p. dk_pending (ph_desk h') = Some p \<Longrightarrow> pp_attempts p < max_attempts
          \<and> (\<exists>q. dk_pending (ph_desk h) = Some q \<and> pp_expires_at p = pp_expires_at q)"
    and devices: "set (dk_devices (ph_desk h')) \<subseteq> set (dk_devices (ph_desk h))"
  shows "history_ok initial h'"
proof -
  note parts = history_parts [OF ok]
  show ?thesis
    unfolding history_ok_def Let_def same
    using parts(1,2,4,5,7-9) clock devices approvals parts(6) pending parts(3)
    by (intro conjI) (fastforce simp: same)+
qed

lemma bt_get_fold_remove: "bt_get (fold bt_remove ks m) k = Some v \<Longrightarrow> bt_get m k = Some v"
proof (induction ks arbitrary: m)
  case (Cons a ks)
  from Cons.IH [of "bt_remove a m"] Cons.prems have "bt_get (bt_remove a m) k = Some v"
    by (simp del: bt_get_remove)
  then show ?case by (simp split: if_splits)
qed simp

lemma observe_issue_ok:
  assumes ok: "history_ok initial h" and clock: "ph_clock h \<le> now"
  shows "history_ok initial (observe_desk fingerprint b now (IssueCode secret request url) h)"
proof (cases "pending_new secret now")
  case (Inl e)
  then show ?thesis
    by (intro history_okI [OF ok clock])
      (auto simp: observe_desk_def Let_def issue_pairing_code_def dest: history_parts(3) [OF ok])
next
  case (Inr p)
  note parts = history_parts [OF ok]
  have p: "pp_expires_at p = now + code_lifetime" "pp_attempts p = 0"
    using Inr by (auto simp: pending_new_def and_then_eq_Inr)
  have old: "n \<noteq> ph_issued h" if "ph_stage h n \<noteq> Unissued" for n using parts(2) that by auto
  have sent: "list_all2 (\<lambda>r u. good_use u \<and> pr_expires_at r = cu_entered_at u + pairing_approval_lifetime
      \<and> ((ph_stage h)(ph_issued h := Outstanding)) (cu_serial u) = Sent) (dk_inbox (ph_desk h)) (ph_sent h)"
    using parts(4) by (rule list_all2_mono) (use old in force)
  have waiting: "\<exists>u. ph_waiting h attempt = Some u \<and> good_use u
      \<and> ap_expires_at a = cu_entered_at u + pairing_approval_lifetime
      \<and> ((ph_stage h)(ph_issued h := Outstanding)) (cu_serial u) = Waiting attempt"
    if "bt_get (dk_approvals (ph_desk h)) attempt = Some a" for attempt a
    using parts(6) [OF that] old by fastforce
  have paired: "good_pairing e \<and> ((ph_stage h)(ph_issued h := Outstanding)) (cu_serial (fst (snd e))) = Paired"
    if "e \<in> set (ph_paired h)" for e using parts(7) [OF that] old by force
  show ?thesis
    using Inr p parts(2,5,8,9) sent waiting paired clock
    by (simp add: history_ok_def observe_desk_def Let_def issue_pairing_code_def max_attempts_def)
qed

lemma pair_accepted:
  assumes "pair secret alive now code name confirmation k = (k', Inr attempt)"
  obtains p where "dk_pending k = Some p" "now < pp_expires_at p"
    "normalize_pairing_code code = normalize_pairing_code (pp_code p)" "dk_pending k' = None"
    "dk_approvals k' = dk_approvals k" "dk_devices k' = dk_devices k"
    "dk_inbox k' = dk_inbox k @ [\<lparr>pr_attempt = attempt, pr_name = unique_device_name name (dk_devices k),
       pr_confirmation = confirmation, pr_expires_at = now + pairing_approval_lifetime\<rparr>]"
  using assms
  by (auto simp: pair_def Let_def accepts_iff split_beta split: if_splits sum.splits option.splits)

lemma pair_refused:
  assumes "pair secret alive now code name confirmation k = (k', Inl e)"
  shows "dk_inbox k' = dk_inbox k \<and> dk_approvals k' = dk_approvals k \<and> dk_devices k' = dk_devices k
    \<and> (dk_pending k' = None \<or> dk_pending k' = dk_pending k
       \<or> (\<exists>p. dk_pending k = Some p \<and> \<not> expired p now \<and> \<not> accepts p code now
            \<and> dk_pending k' = Some (p\<lparr>pp_attempts := saturating_add (pp_attempts p) 1\<rparr>)
            \<and> saturating_add (pp_attempts p) 1 < max_attempts))"
  using assms
  by (auto simp: pair_def Let_def record_failure_def split_beta not_le split: if_splits sum.splits option.splits)

lemma observe_enter_ok:
  assumes ok: "history_ok initial h" and clock: "ph_clock h \<le> now"
  shows "history_ok initial (observe_desk fingerprint b now (EnterCode secret alive code name confirmation) h)"
proof (cases "pair secret alive now code name confirmation (ph_desk h)")
  case (Pair k r)
  note parts = history_parts [OF ok]
  show ?thesis
  proof (cases r)
    case (Inl e)
    with Pair have refused: "pair secret alive now code name confirmation (ph_desk h) = (k, Inl e)" by simp
    show ?thesis
      using pair_refused [OF refused] Pair Inl
      by (intro history_okI [OF ok clock]) (auto simp: observe_desk_def Let_def eq_commute [of "Some _" "dk_pending _"] dest: parts(3))
  next
    case (Inr attempt)
    with Pair have accepted: "pair secret alive now code name confirmation (ph_desk h) = (k, Inr attempt)" by simp
    from pair_accepted [OF accepted] obtain p where p: "dk_pending (ph_desk h) = Some p" "now < pp_expires_at p"
      "normalize_pairing_code code = normalize_pairing_code (pp_code p)" "dk_pending k = None"
      "dk_approvals k = dk_approvals (ph_desk h)" "dk_devices k = dk_devices (ph_desk h)"
      "dk_inbox k = dk_inbox (ph_desk h) @ [\<lparr>pr_attempt = attempt,
         pr_name = unique_device_name name (dk_devices (ph_desk h)),
         pr_confirmation = confirmation, pr_expires_at = now + pairing_approval_lifetime\<rparr>]" by blast
    let ?n = "ph_issued h - 1" and ?u = "current_use h p code now"
    have pending: "0 < ph_issued h" "ph_stage h ?n = Outstanding" "pp_expires_at p = ph_issued_at h + code_lifetime"
      "pp_attempts p < max_attempts" using parts(3) [OF p(1)] by blast+
    have use: "good_use ?u" "cu_serial ?u = ?n" "cu_entered_at ?u = now"
      using p pending parts(1) clock by (simp_all add: good_use_def current_use_def)
    have others: "n \<noteq> ?n" if "ph_stage h n \<noteq> Outstanding" for n using pending(2) that by auto
    have sent: "list_all2 (\<lambda>r u. good_use u \<and> pr_expires_at r = cu_entered_at u + pairing_approval_lifetime
        \<and> ((ph_stage h)(?n := Sent)) (cu_serial u) = Sent) (dk_inbox k) (ph_sent h @ [?u])"
      unfolding p(7) using list_all2_mono [OF parts(4)] use by (intro list_all2_appendI) auto
    have distinct: "distinct (map cu_serial (ph_sent h @ [?u]))"
      using parts(5) use others sent_stage [OF ok] by force
    have waiting: "\<exists>u. ph_waiting h a = Some u \<and> good_use u
        \<and> ap_expires_at w = cu_entered_at u + pairing_approval_lifetime
        \<and> ((ph_stage h)(?n := Sent)) (cu_serial u) = Waiting a"
      if "bt_get (dk_approvals (ph_desk h)) a = Some w" for a w
      using parts(6) [OF that] others by fastforce
    have paired: "good_pairing e \<and> ((ph_stage h)(?n := Sent)) (cu_serial (fst (snd e))) = Paired"
      if "e \<in> set (ph_paired h)" for e using parts(7) [OF that] others by force
    have observed: "observe_desk fingerprint b now (EnterCode secret alive code name confirmation) h
        = h\<lparr>ph_clock := now, ph_desk := k, ph_sent := ph_sent h @ [?u], ph_stage := (ph_stage h)(?n := Sent)\<rparr>"
      using Pair Inr p(1) by (simp add: observe_desk_def Let_def current_use_def)
    show ?thesis
      unfolding observed history_ok_def Let_def
      using sent distinct waiting paired parts(1,2,8,9) clock pending(1) p
      by (simp del: map_append)
  qed
qed

lemma observe_arrives_ok:
  assumes ok: "history_ok initial h" and clock: "ph_clock h \<le> now"
  shows "history_ok initial (observe_desk fingerprint b now RequestArrives h)"
proof (cases "dk_inbox (ph_desk h)")
  case Nil
  then show ?thesis
    by (intro history_okI [OF ok clock])
      (auto simp: observe_desk_def Let_def pairing_requested_def dest: history_parts(3) [OF ok])
next
  case (Cons r inbox)
  note parts = history_parts [OF ok]
  from parts(4) Cons obtain u us where sent: "ph_sent h = u # us"
    and u: "good_use u" "pr_expires_at r = cu_entered_at u + pairing_approval_lifetime" "ph_stage h (cu_serial u) = Sent"
    and us: "list_all2 (\<lambda>r u. good_use u \<and> pr_expires_at r = cu_entered_at u + pairing_approval_lifetime
          \<and> ph_stage h (cu_serial u) = Sent) inbox us"
    by (auto simp: list_all2_Cons1)
  show ?thesis
  proof (cases "max_pending_pairing_approvals \<le> bt_len (dk_approvals (ph_desk h))")
    case True
    then show ?thesis
      using Cons sent us parts clock
      by (auto simp: history_ok_def observe_desk_def Let_def pairing_requested_def)
  next
    case False
    let ?stage = "(ph_stage h)(cu_serial u := Waiting (pr_attempt r))"
    have observed: "observe_desk fingerprint b now RequestArrives h = h\<lparr>ph_clock := now,
        ph_desk := (ph_desk h)\<lparr>dk_inbox := inbox, dk_approvals := bt_insert (pr_attempt r)
          \<lparr>ap_name = pr_name r, ap_expires_at = pr_expires_at r\<rparr> (dk_approvals (ph_desk h))\<rparr>,
        ph_sent := us, ph_waiting := (ph_waiting h)(pr_attempt r \<mapsto> u), ph_stage := ?stage\<rparr>"
      using Cons sent False by (simp add: observe_desk_def Let_def pairing_requested_def)
    have others: "n \<noteq> cu_serial u" if "ph_stage h n \<noteq> Sent" for n using u(3) that by auto
    have distinct: "cu_serial u \<notin> cu_serial ` set us" "distinct (map cu_serial us)"
      using parts(5) sent by auto
    have us': "list_all2 (\<lambda>r v. good_use v \<and> pr_expires_at r = cu_entered_at v + pairing_approval_lifetime
          \<and> ?stage (cu_serial v) = Sent) inbox us"
      using us distinct(1) by (auto simp: list_all2_conv_all_nth) (metis image_eqI nth_mem)
    have waiting: "\<exists>v. ((ph_waiting h)(pr_attempt r \<mapsto> u)) a = Some v \<and> good_use v
        \<and> ap_expires_at w = cu_entered_at v + pairing_approval_lifetime \<and> ?stage (cu_serial v) = Waiting a"
      if "bt_get (bt_insert (pr_attempt r) \<lparr>ap_name = pr_name r, ap_expires_at = pr_expires_at r\<rparr>
            (dk_approvals (ph_desk h))) a = Some w" for a w
    proof (cases "a = pr_attempt r")
      case True
      with that u show ?thesis by auto
    next
      case False
      with that parts(6) [of a w] others show ?thesis by fastforce
    qed
    have paired: "good_pairing e \<and> ?stage (cu_serial (fst (snd e))) = Paired"
      if "e \<in> set (ph_paired h)" for e using parts(7) [OF that] others by force
    have unissued: "?stage n = Unissued" if "ph_issued h \<le> n" for n
      using parts(2) [OF that] others [of n] by simp
    have pending: "0 < ph_issued h \<and> ?stage (ph_issued h - 1) = Outstanding
        \<and> pp_expires_at p = ph_issued_at h + code_lifetime \<and> pp_attempts p < max_attempts"
      if "dk_pending (ph_desk h) = Some p" for p
      using parts(3) [OF that] others [of "ph_issued h - 1"] by simp
    show ?thesis
      unfolding observed history_ok_def Let_def
      using us' distinct(2) waiting paired unissued pending parts(1,8,9) clock by simp
  qed
qed

lemma decide_unchanged:
  assumes "decide_pairing fingerprint secret written closed gone now now_ms attempt approve b k = (k', effects, answers)"
    and "dk_devices k' = dk_devices k"
  shows "dk_inbox k' = dk_inbox k \<and> dk_pending k' = dk_pending k
    \<and> (\<forall>a w. bt_get (dk_approvals k') a = Some w \<longrightarrow> bt_get (dk_approvals k) a = Some w)"
  using assms
  by (auto simp: decide_pairing_def Let_def split: option.splits if_splits sum.splits)

lemma decide_paired:
  assumes "decide_pairing fingerprint secret written closed gone now now_ms attempt approve b k = (k', effects, answers)"
    and "dk_devices k' \<noteq> dk_devices k"
  obtains pending d where "bt_get (dk_approvals k) attempt = Some pending" "now < ap_expires_at pending" "approve"
    "k' = k\<lparr>dk_approvals := bt_remove attempt (dk_approvals k), dk_devices := dk_devices k @ [d]\<rparr>"
    "dv_name d = ap_name pending"
  using assms
  by (auto simp: decide_pairing_def Let_def add_device_def and_then_eq_Inr
      split: option.splits if_splits sum.splits)

lemma observe_decide_ok:
  assumes ok: "history_ok initial h" and clock: "ph_clock h \<le> now"
  shows "history_ok initial (observe_desk fingerprint b now (Decide secret written closed gone now_ms attempt approve) h)"
proof -
  note parts = history_parts [OF ok]
  obtain k effects answers where decided:
    "decide_pairing fingerprint secret written closed gone now now_ms attempt approve b (ph_desk h) = (k, effects, answers)"
    using prod_cases3 by blast
  show ?thesis
  proof (cases "dk_devices k = dk_devices (ph_desk h)")
    case True
    with decide_unchanged [OF decided] decided show ?thesis
      by (intro history_okI [OF ok clock]) (auto simp: observe_desk_def Let_def dest: parts(3))
  next
    case False
    from decide_paired [OF decided False] obtain pending d where
      pending: "bt_get (dk_approvals (ph_desk h)) attempt = Some pending" "now < ap_expires_at pending"
      and k: "k = (ph_desk h)\<lparr>dk_approvals := bt_remove attempt (dk_approvals (ph_desk h)),
                dk_devices := dk_devices (ph_desk h) @ [d]\<rparr>" by blast
    from parts(6) [OF pending(1)] obtain u where u: "ph_waiting h attempt = Some u" "good_use u"
      "ap_expires_at pending = cu_entered_at u + pairing_approval_lifetime"
      "ph_stage h (cu_serial u) = Waiting attempt" by blast
    let ?stage = "(ph_stage h)(cu_serial u := Paired)"
    have observed: "observe_desk fingerprint b now (Decide secret written closed gone now_ms attempt approve) h
        = h\<lparr>ph_clock := now, ph_desk := k, ph_paired := (d, u, now) # ph_paired h, ph_stage := ?stage\<rparr>"
      using decided False u(1) by (simp add: observe_desk_def Let_def k)
    have others: "n \<noteq> cu_serial u" if "ph_stage h n \<noteq> Waiting attempt" for n using u(4) that by auto
    have sent: "list_all2 (\<lambda>r v. good_use v \<and> pr_expires_at r = cu_entered_at v + pairing_approval_lifetime
          \<and> ?stage (cu_serial v) = Sent) (dk_inbox (ph_desk h)) (ph_sent h)"
      using parts(4) by (rule list_all2_mono) (use others in force)
    have waiting: "\<exists>v. ph_waiting h a = Some v \<and> good_use v
        \<and> ap_expires_at w = cu_entered_at v + pairing_approval_lifetime \<and> ?stage (cu_serial v) = Waiting a"
      if "bt_get (bt_remove attempt (dk_approvals (ph_desk h))) a = Some w" for a w
    proof -
      have "a \<noteq> attempt" "bt_get (dk_approvals (ph_desk h)) a = Some w" using that by (auto split: if_splits)
      with parts(6) [of a w] u(4) show ?thesis by fastforce
    qed
    have paired: "good_pairing e \<and> ?stage (cu_serial (fst (snd e))) = Paired"
      if "e \<in> set ((d, u, now) # ph_paired h)" for e
      using that parts(7) [of e] u pending(2) by (auto simp: good_pairing_def)
    have distinct: "distinct (map (cu_serial \<circ> fst \<circ> snd) ((d, u, now) # ph_paired h))"
      using parts(8) parts(7) others by force
    have unissued: "?stage n = Unissued" if "ph_issued h \<le> n" for n
      using parts(2) [OF that] others [of n] by simp
    have current: "0 < ph_issued h \<and> ?stage (ph_issued h - 1) = Outstanding
        \<and> pp_expires_at p = ph_issued_at h + code_lifetime \<and> pp_attempts p < max_attempts"
      if "dk_pending (ph_desk h) = Some p" for p
      using parts(3) [OF that] others [of "ph_issued h - 1"] by simp
    show ?thesis
      unfolding observed history_ok_def Let_def
      using sent waiting paired distinct unissued current parts(1,5,9) clock by (auto simp: k)
  qed
qed

lemma observe_rest_ok:
  assumes ok: "history_ok initial h" and clock: "ph_clock h \<le> now"
  shows "history_ok initial (observe_desk fingerprint b now (Sweep left) h)"
    and "history_ok initial (observe_desk fingerprint b now (Revoke written name) h)"
proof -
  show "history_ok initial (observe_desk fingerprint b now (Sweep left) h)"
    by (rule history_okI [OF ok clock])
      (auto simp: observe_desk_def Let_def sweep_pairing_approvals_def
        dest: history_parts(3) [OF ok] bt_get_fold_remove simp del: bt_get_remove)
  show "history_ok initial (observe_desk fingerprint b now (Revoke written name) h)"
    by (rule history_okI [OF ok clock])
      (auto simp: observe_desk_def Let_def remove_device_def and_then_eq_Inr
        dest: history_parts(3) [OF ok] split: sum.splits if_splits)
qed

interpretation pairing_reach:
  kept_invariant "history_new (desk_new config devices bridge) start" "desk_step fingerprint b" "history_ok devices"
  for config devices bridge start fingerprint b
proof unfold_locales
  show "history_ok devices (history_new (desk_new config devices bridge) start)" by (rule history_new_ok)
  show "history_ok devices t" if "history_ok devices s" "desk_step fingerprint b s t" for s t
    using that(2)
  proof (rule desk_stepE)
    fix now event
    assume "t = observe_desk fingerprint b now event s" "ph_clock s \<le> now"
    with that(1) show ?thesis
      by (cases event)
        (simp_all add: observe_issue_ok observe_enter_ok observe_arrives_ok observe_decide_ok observe_rest_ok)
  qed
qed

section \<open>Properties\<close>


text \<open>A browser's request to pair, as it arrives at the daemon.\<close>

record entry =
  en_secret :: "u8 list"
  en_now :: system_time
  en_code :: ustring
  en_name :: ustring
  en_confirmation :: ustring

definition enter :: "entry \<Rightarrow> desk \<Rightarrow> desk" where
  "enter e k = fst (pair (Inr (en_secret e)) True (en_now e) (en_code e) (en_name e) (en_confirmation e) k)"

lemma enter_none: "dk_pending k = None \<Longrightarrow> enter e k = k"
  by (simp add: enter_def pair_def token_def)

lemma enter_wrong:
  assumes "dk_pending k = Some p" and "dk_config k" and "valid_confirmation (en_confirmation e)"
    and "normalize_pairing_code (en_code e) \<noteq> normalize_pairing_code (pp_code p)"
  shows "dk_inbox (enter e k) = dk_inbox k \<and> dk_config (enter e k) = dk_config k \<and>
    (dk_pending (enter e k) = None \<or>
     dk_pending (enter e k) = Some (p\<lparr>pp_attempts := saturating_add (pp_attempts p) 1\<rparr>)
       \<and> saturating_add (pp_attempts p) 1 < max_attempts)"
  using assms by (auto simp: enter_def pair_def token_def Let_def record_failure_def accepts_iff not_le)

lemma enter_all_none: "dk_pending k = None \<Longrightarrow> fold enter es k = k"
  by (induction es) (simp_all add: enter_none)

lemma enter_all_wrong:
  assumes "dk_pending k = Some p" and "dk_config k" and "5 \<le> unat (pp_attempts p) + length es"
    and "pp_attempts p < max_attempts"
    and "\<And>e. e \<in> set es \<Longrightarrow> valid_confirmation (en_confirmation e)
        \<and> normalize_pairing_code (en_code e) \<noteq> normalize_pairing_code (pp_code p)"
  shows "dk_pending (fold enter es k) = None \<and> dk_inbox (fold enter es k) = dk_inbox k"
  using assms
proof (induction es arbitrary: k p)
  case Nil
  then show ?case by (simp add: max_attempts_def word_less_nat_alt)
next
  case (Cons e es)
  from enter_wrong [of k p e] Cons.prems(1,2) Cons.prems(5) [of e]
  have wrong: "dk_inbox (enter e k) = dk_inbox k" "dk_config (enter e k) = dk_config k"
    "dk_pending (enter e k) = None \<or>
     dk_pending (enter e k) = Some (p\<lparr>pp_attempts := saturating_add (pp_attempts p) 1\<rparr>)
       \<and> saturating_add (pp_attempts p) 1 < max_attempts" by auto
  from wrong(3) show ?case
  proof
    assume "dk_pending (enter e k) = None"
    then show ?thesis using wrong(1) by (simp add: enter_all_none)
  next
    let ?p = "p\<lparr>pp_attempts := saturating_add (pp_attempts p) 1\<rparr>"
    assume counted: "dk_pending (enter e k) = Some ?p \<and> saturating_add (pp_attempts p) 1 < max_attempts"
    have "unat (saturating_add (pp_attempts p) 1) = unat (pp_attempts p) + 1"
      using Cons.prems(4) by (simp add: unat_saturating_add max_attempts_def word_less_nat_alt)
    then have "dk_pending (fold enter es (enter e k)) = None \<and> dk_inbox (fold enter es (enter e k)) = dk_inbox (enter e k)"
      using counted Cons.prems wrong(2) by (intro Cons.IH [of _ ?p]) auto
    with wrong(1) show ?thesis by simp
  qed
qed

text \<open>
  A code survives four wrong entries and no more. Five requests in a row that are complete but
  do not name the outstanding code leave no code outstanding, and none of them asks anyone for
  an approval; the right code entered afterwards is refused.
\<close>

theorem wrong_codes_discard:
  assumes "pending_new secret now = Inr p" and "dk_config k" and "dk_pending k = Some p" and "5 \<le> length es"
    and "\<forall>e \<in> set es. valid_confirmation (en_confirmation e)
        \<and> normalize_pairing_code (en_code e) \<noteq> normalize_pairing_code (pp_code p)"
  shows "dk_pending (fold enter es k) = None \<and> dk_inbox (fold enter es k) = dk_inbox k
    \<and> enter right (fold enter es k) = fold enter es k"
proof -
  have "pp_attempts p = 0" using assms(1) by (auto simp: pending_new_def and_then_eq_Inr)
  then have "dk_pending (fold enter es k) = None \<and> dk_inbox (fold enter es k) = dk_inbox k"
    using assms(2-) by (intro enter_all_wrong) (auto simp: max_attempts_def)
  then show ?thesis by (simp add: enter_none)
qed

text \<open>
  C11. Pairing works. With a configuration file to write, a code that is entered in any spelling
  within its five minutes, that reaches the trusted clients while fewer than sixteen devices
  wait, and that is approved within a minute while the browser still waits, ends with the
  browser receiving a token the daemon admits from then on, under a name no other device has.
\<close>

theorem pairing_completes:
  assumes "dk_config k" and "dk_inbox k = []" and "bt_len (dk_approvals k) < 16" and "valid_confirmation confirmation"
    and "pairing_code (Inr bytes) = Inr code" and "normalize_pairing_code entered = normalize_pairing_code code"
    and "issued \<le> entry" and "entry < issued + code_lifetime" and "decision < entry + pairing_approval_lifetime"
    and k1_def: "k1 = fst (issue_pairing_code (Inr bytes) issued request url k)"
    and k2_def: "k2 = fst (pair (Inr nonce) True entry entered name confirmation k1)"
    and k3_def: "k3 = fst (pairing_requested arrival b k2)"
    and decided_def: "decided = decide_pairing fingerprint (Inr secret) (Inr ()) False False decision decision_ms (hex nonce) True b"
  shows "snd (snd (decided k3)) = [(hex nonce, Inr (hex secret))]
    \<and> admits fingerprint (dk_devices (fst (decided k3))) (hex secret)
    \<and> (\<exists>d. dk_devices (fst (decided k3)) = dk_devices k @ [d] \<and> dv_name d \<notin> dv_name ` set (dk_devices k))"
proof -
  let ?name = "unique_device_name name (dk_devices k)"
  let ?p = "\<lparr>pp_code = code, pp_expires_at = issued + code_lifetime, pp_attempts = 0\<rparr>"
  have k1: "dk_pending k1 = Some ?p" "dk_config k1" "dk_inbox k1 = []" "dk_devices k1 = dk_devices k"
    "dk_approvals k1 = dk_approvals k"
    using assms(1,2,5) by (simp_all add: k1_def issue_pairing_code_def pending_new_def)
  have k2: "dk_config k2" "dk_devices k2 = dk_devices k" "dk_approvals k2 = dk_approvals k"
    "dk_inbox k2 = [\<lparr>pr_attempt = hex nonce, pr_name = ?name, pr_confirmation = confirmation,
       pr_expires_at = entry + pairing_approval_lifetime\<rparr>]"
    using k1 assms(4,6,8) by (simp_all add: k2_def pair_def token_def Let_def accepts_iff expired_def)
  have k3: "dk_config k3" "dk_devices k3 = dk_devices k"
    "bt_get (dk_approvals k3) (hex nonce) = Some \<lparr>ap_name = ?name, ap_expires_at = entry + pairing_approval_lifetime\<rparr>"
    using k2 assms(3) by (simp_all add: k3_def pairing_requested_def Let_def max_pending_pairing_approvals_def)
  have "?name \<notin> dv_name ` set (dk_devices k)" by (rule unique_device_name_fresh)
  then show ?thesis
    using k3 assms(9)
    by (simp add: decided_def decide_pairing_def Let_def token_def add_device_def admits_def matches_bytes)
qed

text \<open>
  A name is made unique against the devices that are recorded when the code is entered: when two
  devices that offered one name are both waiting, approving the second one fails.
\<close>

lemma second_of_one_name_refused:
  assumes "bt_get (dk_approvals k) attempt = Some first" and "bt_get (dk_approvals k) other = Some second"
    and "ap_name second = ap_name first" and "other \<noteq> attempt" and "dk_config k"
    and "now < ap_expires_at first" and "now < ap_expires_at second"
    and "ap_name first \<notin> dv_name ` set (dk_devices k)"
    and decided_def: "decided = decide_pairing fingerprint (Inr secret) (Inr ()) False False now now_ms"
  shows "\<exists>message. snd (snd (decided other True b (fst (decided attempt True b k)))) = [(other, Inl message)]"
  using assms(1-8) by (simp add: decided_def decide_pairing_def Let_def token_def add_device_def)

section \<open>Witnesses\<close>

definition code_bytes :: "u8 list" where
  "code_bytes = [0, 1, 2, 3, 4, 5, 6, 7]"

definition listening :: "unit broker" where
  "listening = broker_new [] [] []"

definition sample_desk :: desk where
  "sample_desk = desk_new True [] True"

definition six_digits :: ustring where
  "six_digits = lit ''123456''"

definition sample_history :: pairing_history where
  "sample_history = fold (\<lambda>(now, event). observe_desk (\<lambda>t. t) listening now event)
     [(1, IssueCode (Inr code_bytes) 1 None),
      (2, EnterCode (Inr [1]) True (lit ''wrong'') (lit ''phone'') six_digits),
      (3, EnterCode (Inr [2]) True (lit ''abcd efgh'') (lit ''phone'') six_digits),
      (4, RequestArrives),
      (5, Decide (Inr [3]) (Inr ()) False False 0 (hex [2]) True)] (history_new sample_desk 0)"

lemma ph_clock_observe [simp]: "ph_clock (observe_desk fingerprint b now event h) = now"
  by (auto simp: observe_desk_def Let_def split_beta split: desk_event.splits sum.splits list.splits if_splits)

lemma reach_observe:
  "reach (desk_step fingerprint b) h0 h \<Longrightarrow> ph_clock h \<le> now \<Longrightarrow>
   reach (desk_step fingerprint b) h0 (observe_desk fingerprint b now event h)"
  by (auto intro: reach_step desk_step.intros)


definition wrong_entry :: entry where
  "wrong_entry = \<lparr>en_secret = [1], en_now = 2, en_code = lit ''WRONG'', en_name = [], en_confirmation = six_digits\<rparr>"

definition sample_code :: ustring where
  "sample_code = lit ''ABCD-EFGH''"

definition sample_pending :: pending_pairing where
  "sample_pending = \<lparr>pp_code = sample_code, pp_expires_at = 1 + code_lifetime, pp_attempts = 0\<rparr>"

theorem wrong_codes_discard_witness:
  "dk_pending (fold enter (replicate 5 wrong_entry) (sample_desk\<lparr>dk_pending := Some sample_pending\<rparr>)) = None"
proof -
  have "pending_new (Inr code_bytes) 1 = Inr sample_pending" "valid_confirmation (en_confirmation wrong_entry)"
    "normalize_pairing_code (en_code wrong_entry) \<noteq> normalize_pairing_code (pp_code sample_pending)"
    "dk_config (sample_desk\<lparr>dk_pending := Some sample_pending\<rparr>)"
    by code_simp+
  then show ?thesis
    using wrong_codes_discard [of "Inr code_bytes" 1 sample_pending "sample_desk\<lparr>dk_pending := Some sample_pending\<rparr>"
        "replicate 5 wrong_entry"] by simp
qed

definition sample_pairing :: "desk \<times> effect list \<times> answers" where
  "sample_pairing = decide_pairing (\<lambda>t. t) (Inr [3]) (Inr ()) False False 3 0 (hex [2]) True listening
     (fst (pairing_requested 3 listening (fst (pair (Inr [2]) True 2 (lit ''abcdefgh'') [] six_digits
       (fst (issue_pairing_code (Inr code_bytes) 1 1 None sample_desk))))))"

theorem pairing_completes_witness:
  "snd (snd sample_pairing) = [(hex [2], Inr (hex [3]))] \<and> admits (\<lambda>t. t) (dk_devices (fst sample_pairing)) (hex [3])"
proof -
  have "dk_config sample_desk" "dk_inbox sample_desk = []" "bt_len (dk_approvals sample_desk) < 16"
    "valid_confirmation six_digits" "pairing_code (Inr code_bytes) = Inr sample_code"
    "normalize_pairing_code (lit ''abcdefgh'') = normalize_pairing_code sample_code"
    "(1 :: int) \<le> 2" "2 < 1 + code_lifetime" "3 < 2 + pairing_approval_lifetime"
    by code_simp+
  from pairing_completes [where request = 1 and url = None and nonce = "[2]" and name = "[]" and arrival = 3
      and b = listening and fingerprint = "\<lambda>t. t" and secret = "[3]" and decision_ms = 0,
      OF this refl refl refl refl]
  show ?thesis by (simp add: sample_pairing_def)
qed

end
