(* ===== verification/Config_Check.thy ===== *)
theory Config_Check
  imports Config Pairing
begin

text \<open>
  The validation every configuration passes before it is used or written,
  \<open>Config::validate\<close> in \<open>src/src/config.rs\<close>, with the records it reads. The debug form
  of a string in an error message is the parameter \<open>show_debug\<close>.
\<close>

section \<open>Records\<close>

record transport_config =
  tc_ssh_bin :: ustring
  tc_batch_mode :: bool
  tc_connect_timeout_seconds :: u64
  tc_command_timeout_seconds :: u64

record web_config =
  wc_port :: "u16 option"
  wc_address :: "ip_addr option"
  wc_url :: "ustring option"
  wc_bridge :: bool

record config =
  cf_transport :: transport_config
  cf_notifications :: notifications_config
  cf_web :: web_config
  cf_targets :: "target list"
  cf_quick_replies :: "quick_reply list option"

definition max_quick_replies :: nat where "max_quick_replies = 8"
definition max_target_roots :: nat where "max_target_roots = 8"
definition max_target_tags :: nat where "max_target_tags = 8"
definition max_tag_characters :: nat where "max_tag_characters = 24"
definition max_quick_reply_label_characters :: nat where "max_quick_reply_label_characters = 24"
definition max_quick_reply_send_bytes :: nat where "max_quick_reply_send_bytes = 256"

definition served_port :: "web_config \<Rightarrow> u16 option" where
  "served_port w = Option.bind (wc_port w) (\<lambda>port. if port \<noteq> 0 then Some port else None)"

section \<open>Validation\<close>

definition require :: "bool \<Rightarrow> ustring \<Rightarrow> unit result" where
  "require ok message = (if ok then Inr () else Inl message)"

definition andalso :: "unit result \<Rightarrow> unit result \<Rightarrow> unit result" where
  "andalso r s = and_then r (\<lambda>_. s)"

fun check_each :: "('a \<Rightarrow> unit result) \<Rightarrow> 'a list \<Rightarrow> unit result" where
  "check_each f [] = Inr ()"
| "check_each f (x # xs) = andalso (f x) (check_each f xs)"

definition has_control :: "ustring \<Rightarrow> bool" where
  "has_control s \<longleftrightarrow> (\<exists>c \<in> set s. is_control c)"

definition has_dotdot :: "ustring \<Rightarrow> bool" where
  "has_dotdot s \<longleftrightarrow> lit ''..'' \<in> set (split_on (\<lambda>c. c = 47) s)"

definition validate_reply :: "(ustring \<Rightarrow> ustring) \<Rightarrow> quick_reply \<Rightarrow> unit result" where
  "validate_reply show_debug reply = (let label = trim (qr_label reply) in
     andalso (require (\<not> (label = [] \<or> length label > max_quick_reply_label_characters \<or> has_control label))
       (lit ''a quick reply label must be 1 to 24 characters and contain no control characters''))
     (andalso (require (\<not> (qr_send reply = [] \<or> utf8_len (qr_send reply) > max_quick_reply_send_bytes))
       (lit ''quick reply '' @ show_debug label @ lit '' must send 1 to 256 bytes''))
     (require (\<not> has_control (qr_send reply))
       (lit ''quick reply '' @ show_debug label
         @ lit '' must not send control characters; Enter, Escape, Tab and Ctrl-C are separate terminal keys''))))"

definition validate_replies :: "(ustring \<Rightarrow> ustring) \<Rightarrow> quick_reply list option \<Rightarrow> unit result" where
  "validate_replies show_debug replies = (case replies of None \<Rightarrow> Inr ()
   | Some replies \<Rightarrow> andalso
       (require (length replies \<le> max_quick_replies) (lit ''at most 8 [[quick_replies]] entries are supported''))
       (check_each (validate_reply show_debug) replies))"

definition valid_tag :: "ustring \<Rightarrow> bool" where
  "valid_tag tag \<longleftrightarrow> \<not> (tag = [] \<or> length tag > max_tag_characters
     \<or> (\<exists>c \<in> set tag. is_control c \<or> is_whitespace c \<or> c = 44))"

definition valid_root :: "ustring \<Rightarrow> bool" where
  "valid_root root \<longleftrightarrow> \<not> (take 1 root \<noteq> [47] \<or> has_control root \<or> has_dotdot root)"

definition valid_destination :: "ustring \<Rightarrow> bool" where
  "valid_destination d \<longleftrightarrow> \<not> (d = [] \<or> take 1 d = [45] \<or> (\<exists>c \<in> set d. is_whitespace c) \<or> has_control d)"

definition valid_session :: "ustring \<Rightarrow> bool" where
  "valid_session s \<longleftrightarrow> \<not> (s = [] \<or> 47 \<in> set s \<or> has_control s)"

definition valid_socket :: "ustring \<Rightarrow> bool" where
  "valid_socket s \<longleftrightarrow> \<not> (s = [] \<or> take 1 s \<noteq> [47] \<or> has_control s)"

definition validate_target :: "(ustring \<Rightarrow> ustring) \<Rightarrow> ustring list \<Rightarrow> target \<Rightarrow> unit result" where
  "validate_target show_debug names t = (let named = lit ''target '' @ show_debug (tg_name t) in
     andalso (require (\<not> (trim (tg_name t) = [] \<or> 47 \<in> set (tg_name t) \<or> has_control (tg_name t)))
       (lit ''target name must be non-empty and contain no '' @ [39, 47, 39] @ lit '' or control characters''))
     (andalso (require (tg_name t \<notin> set names) (lit ''duplicate target name '' @ show_debug (tg_name t)))
     (andalso (require (\<not> (tg_herdr_bins t = [] \<or> (\<exists>binary \<in> set (tg_herdr_bins t). trim binary = [])))
       (named @ lit '' has an empty herdr_bins entry''))
     (andalso (require (length (tg_tags t) \<le> max_target_tags) (named @ lit '' carries more than 8 tags''))
     (andalso (check_each (\<lambda>tag. require (valid_tag tag)
       (named @ lit '' has a tag that is not 1 to 24 characters without spaces or commas'')) (tg_tags t))
     (andalso (require (length (tg_roots t) \<le> max_target_roots) (named @ lit '' declares more than 8 roots''))
     (andalso (check_each (\<lambda>root. require (valid_root root)
       (named @ lit '' has a root that is not an absolute path without '' @ [39, 46, 46, 39])) (tg_roots t))
     (andalso (require (\<forall>destination \<in> set_option (tg_ssh t). valid_destination destination)
       (named @ lit '' has an invalid SSH destination''))
     (andalso (require (\<forall>session \<in> set_option (tg_session t). valid_session session)
       (named @ lit '' has an invalid session name''))
     (andalso (require (\<forall>socket \<in> set_option (tg_socket t). valid_socket socket)
       (named @ lit '' has an invalid socket path''))
     (require (\<forall>socket \<in> set_option (tg_socket t). \<not> (tg_ssh t \<noteq> None \<and> 58 \<in> set socket))
       (named @ lit '' has a socket path incompatible with SSH forwarding''))))))))))))"

fun validate_targets :: "(ustring \<Rightarrow> ustring) \<Rightarrow> ustring list \<Rightarrow> target list \<Rightarrow> unit result" where
  "validate_targets show_debug names [] = Inr ()"
| "validate_targets show_debug names (t # ts) =
     andalso (validate_target show_debug names t) (validate_targets show_debug (tg_name t # names) ts)"

definition validate :: "(ustring \<Rightarrow> ustring) \<Rightarrow> config \<Rightarrow> unit result" where
  "validate show_debug c =
     andalso (require (cf_targets c \<noteq> []) (lit ''configuration must contain at least one [[targets]] entry''))
     (andalso (require (trim (tc_ssh_bin (cf_transport c)) \<noteq> []) (lit ''transport.ssh_bin must not be empty''))
     (andalso (require (tc_connect_timeout_seconds (cf_transport c) \<noteq> 0)
       (lit ''transport.connect_timeout_seconds must be greater than zero''))
     (andalso (require (tc_command_timeout_seconds (cf_transport c) \<noteq> 0)
       (lit ''transport.command_timeout_seconds must be greater than zero''))
     (andalso (case wc_url (cf_web c) of None \<Rightarrow> Inr ()
       | Some url \<Rightarrow> and_then (pairing_url show_debug url) (\<lambda>_. Inr ()))
     (andalso (require (\<not> (served_port (cf_web c) = None \<and> (wc_url (cf_web c) \<noteq> None \<or> wc_address (cf_web c) \<noteq> None)))
       (lit ''web.port = 0 serves no browser client for web.url or web.address to reach''))
     (andalso (let interval = nc_minimum_interval_seconds (cf_notifications c)
       in require (\<not> (interval = 0 \<or> interval > 3600))
         (lit ''notifications.minimum_interval_seconds must be between 1 and 3600''))
     (andalso (let timeout = nc_command_timeout_seconds (cf_notifications c)
       in require (\<not> (timeout = 0 \<or> timeout > 30))
         (lit ''notifications.command_timeout_seconds must be between 1 and 30''))
     (andalso (validate_replies show_debug (cf_quick_replies c))
     (validate_targets show_debug [] (cf_targets c))))))))))"

section \<open>What a valid configuration is\<close>

lemma require_ok [simp]: "require ok message = Inr () \<longleftrightarrow> ok"
  by (simp add: require_def)

lemma andalso_ok [simp]: "andalso r s = Inr () \<longleftrightarrow> r = Inr () \<and> s = Inr ()"
  by (cases r) (simp_all add: andalso_def)

lemma check_each_ok [simp]: "check_each f xs = Inr () \<longleftrightarrow> (\<forall>x \<in> set xs. f x = Inr ())"
  by (induction xs) auto

definition target_ok :: "target \<Rightarrow> bool" where
  "target_ok t \<longleftrightarrow> trim (tg_name t) \<noteq> [] \<and> 47 \<notin> set (tg_name t) \<and> \<not> has_control (tg_name t)
     \<and> tg_herdr_bins t \<noteq> [] \<and> (\<forall>binary \<in> set (tg_herdr_bins t). trim binary \<noteq> [])
     \<and> length (tg_tags t) \<le> 8 \<and> (\<forall>tag \<in> set (tg_tags t). valid_tag tag)
     \<and> length (tg_roots t) \<le> 8 \<and> (\<forall>root \<in> set (tg_roots t). valid_root root)
     \<and> (\<forall>d. tg_ssh t = Some d \<longrightarrow> valid_destination d) \<and> (\<forall>s. tg_session t = Some s \<longrightarrow> valid_session s)
     \<and> (\<forall>s. tg_socket t = Some s \<longrightarrow> valid_socket s \<and> (tg_ssh t \<noteq> None \<longrightarrow> 58 \<notin> set s))"

lemma validate_target_ok:
  "validate_target show_debug names t = Inr () \<longleftrightarrow> target_ok t \<and> tg_name t \<notin> set names"
  by (auto simp: validate_target_def Let_def target_ok_def max_target_tags_def max_target_roots_def)

lemma validate_targets_ok:
  "validate_targets show_debug names ts = Inr () \<longleftrightarrow>
   (\<forall>t \<in> set ts. target_ok t) \<and> distinct (map tg_name ts) \<and> set (map tg_name ts) \<inter> set names = {}"
  by (induction ts arbitrary: names) (auto simp: validate_target_ok)

lemma validate_targets_of:
  "validate show_debug c = Inr () \<Longrightarrow> (\<forall>t \<in> set (cf_targets c). target_ok t) \<and> distinct (map tg_name (cf_targets c))"
  by (simp add: validate_def validate_targets_ok)

section \<open>Where the browser client is served\<close>

definition default_bridge_url :: ustring where
  "default_bridge_url = lit ''https://super-herdr.key-value.co''"

definition hosted_bridge_requested :: "web_config \<Rightarrow> bool" where
  "hosted_bridge_requested w = (if wc_address w \<noteq> None then False
     else (case wc_url w of Some url \<Rightarrow> trim_end_matches 47 (trim url) = default_bridge_url | None \<Rightarrow> wc_bridge w))"

definition is_loopback :: "ip_addr \<Rightarrow> bool" where
  "is_loopback address = (case address of V4 a b c d \<Rightarrow> is_loopback_v4 a | V6 s \<Rightarrow> s = [0, 0, 0, 0, 0, 0, 0, 1])"

text \<open>The text of an IPv6 address is a parameter.\<close>

definition scannable_url_from :: "(u16 list \<Rightarrow> ustring) \<Rightarrow> web_config \<Rightarrow> ip_addr option \<Rightarrow> ustring option" where
  "scannable_url_from show_ipv6 w detected =
     (case wc_url w of Some url \<Rightarrow> Some url
      | None \<Rightarrow> Option.bind (served_port w) (\<lambda>port.
          Option.bind (case wc_address w of Some a \<Rightarrow> Some a | None \<Rightarrow> detected) (\<lambda>address.
            if is_loopback address \<or> \<not> bindable address then None
            else Some (case address of
                V4 a b c d \<Rightarrow> lit ''http://'' @ show_ipv4 a b c d @ 58 # show_word port
              | V6 segments \<Rightarrow> lit ''http://['' @ show_ipv6 segments @ lit '']:'' @ show_word port))))"

definition bind_address_from :: "web_config \<Rightarrow> ip_addr option \<Rightarrow> ip_addr option" where
  "bind_address_from w detected = Option.bind (served_port w) (\<lambda>_.
     case wc_address w of Some a \<Rightarrow> Some a | None \<Rightarrow> if wc_url w = None then detected else None)"

record resolved_web =
  rw_port :: "u16 option"
  rw_address :: "ip_addr option"
  rw_url :: "ustring option"
  rw_bridge :: "ustring option"

text \<open>A route of Tailscale Serve, as its status reports it: what to bind and the URL outside.\<close>

record tailscale_web_route =
  ts_bind_address :: ip_addr
  ts_bind_port :: u16
  ts_url :: ustring

definition resolve_from ::
    "(u16 list \<Rightarrow> ustring) \<Rightarrow> (u16 \<Rightarrow> tailscale_web_route option) \<Rightarrow> web_config \<Rightarrow> ip_addr option \<Rightarrow> resolved_web" where
  "resolve_from show_ipv6 serve_route w detected =
     (let direct = \<lparr>rw_port = served_port w, rw_address = bind_address_from w detected,
            rw_url = scannable_url_from show_ipv6 w detected, rw_bridge = None\<rparr>
      in if wc_address w = None \<and> wc_url w = None
         then (case Option.bind (served_port w) serve_route of
             Some route \<Rightarrow> \<lparr>rw_port = Some (ts_bind_port route), rw_address = Some (ts_bind_address route),
                            rw_url = Some (ts_url route), rw_bridge = None\<rparr>
           | None \<Rightarrow> direct)
         else direct)"

definition resolve_web ::
    "(u16 list \<Rightarrow> ustring) \<Rightarrow> (u16 \<Rightarrow> tailscale_web_route option) \<Rightarrow> web_config \<Rightarrow> ip_addr option \<Rightarrow> resolved_web" where
  "resolve_web show_ipv6 serve_route w detected =
     (if served_port w = None \<or> wc_address w \<noteq> None then resolve_from show_ipv6 (\<lambda>_. None) w detected
      else if hosted_bridge_requested w
      then \<lparr>rw_port = served_port w, rw_address = Some (V4 127 0 0 1), rw_url = Some default_bridge_url,
            rw_bridge = Some default_bridge_url\<rparr>
      else if wc_url w \<noteq> None then resolve_from show_ipv6 (\<lambda>_. None) w detected
      else resolve_from show_ipv6 serve_route w detected)"

section \<open>Properties\<close>

lemma split_unique: "x \<notin> set a \<Longrightarrow> x \<notin> set c \<Longrightarrow> a @ x # b = c @ x # d \<longleftrightarrow> a = c \<and> b = d"
proof (induction a arbitrary: c)
  case Nil
  then show ?case by (cases c) auto
next
  case (Cons y a)
  then show ?case by (cases c) auto
qed

lemma default_bridge_accepted: "pairing_url show_debug default_bridge_url = Inr default_bridge_url"
proof -
  have "trim default_bridge_url = default_bridge_url"
    by (rule trim_none) (simp add: default_bridge_url_def lit_def is_whitespace_def)
  then show ?thesis
    by (simp add: pairing_url_def Let_def, simp add: default_bridge_url_def lit_def split_once.simps url_host_def
        trim_end_matches_def)
qed

lemma displayed_identity:
  assumes "47 \<notin> set (qid_target p)" "47 \<notin> set (qid_session p)" "47 \<notin> set (qid_target q)" "47 \<notin> set (qid_session q)"
    and "show_qualified_id p = show_qualified_id q"
  shows "p = q"
  using assms by (cases p; cases q) (auto simp: show_qualified_id_def lit_def split_unique)

text \<open>
  What a person reads names one resource. In a configuration that passed validation, two
  resources of configured targets that are displayed alike as \<open>target/session/resource\<close> belong
  to one target and session and are the same, as long as their sessions are named as the
  validation demands of configured ones; nothing in the displayed names can move the cursor or
  start a line.
\<close>

theorem validated_identities:
  assumes "validate show_debug c = Inr ()" and "s \<in> set (cf_targets c)" and "t \<in> set (cf_targets c)"
    and "qid_target p = tg_name s" and "qid_target q = tg_name t"
    and "valid_session (qid_session p)" and "valid_session (qid_session q)"
    and "show_qualified_id p = show_qualified_id q"
  shows "s = t \<and> p = q \<and> \<not> has_control (show_target_session (qid_target_session p))"
proof -
  have ok: "target_ok s" "target_ok t" "distinct (map tg_name (cf_targets c))"
    using validate_targets_of [OF assms(1)] assms(2,3) by auto
  have "p = q"
    using ok(1,2) assms(4-8) by (intro displayed_identity) (auto simp: target_ok_def valid_session_def)
  moreover from this have "s = t"
    using ok(3) assms(2-5) by (auto simp: distinct_map inj_on_def)
  moreover have "\<not> has_control (show_target_session (qid_target_session p))"
    using ok(1) assms(4,6)
    by (cases p) (auto simp: target_ok_def valid_session_def has_control_def show_target_session_def lit_def is_control_def)
  ultimately show ?thesis by blast
qed

text \<open>
  A phone is never shown an address that does not work. For a configuration that passed
  validation, on a machine whose detected address is an IPv4 address, every URL resolved
  without a Tailscale route is one that pairing accepts, so it is \<open>https\<close> or stays in a private
  network; and when nothing is served no URL is resolved either.
\<close>

theorem resolved_url_pairs:
  assumes "validate show_debug c = Inr ()"
    and "rw_url (resolve_web show_ipv6 (\<lambda>_. None) (cf_web c) (Some (V4 a1 a2 a3 a4))) = Some url"
    and "\<forall>segments. wc_address (cf_web c) \<noteq> Some (V6 segments)"
  shows "(\<exists>base. pairing_url show_debug url = Inr base) \<and> served_port (cf_web c) \<noteq> None"
proof -
  let ?w = "cf_web c"
  note bridge = default_bridge_accepted [of show_debug]
  have configured: "pairing_url show_debug u \<noteq> Inl e" if "wc_url ?w = Some u" for u e
    using assms(1) that by (auto simp: validate_def and_then_def split: sum.splits)
  have served: "served_port ?w \<noteq> None" if "wc_url ?w \<noteq> None"
    using assms(1) that by (simp add: validate_def)
  have direct: "\<exists>base. pairing_url show_debug u = Inr base"
    if scanned: "scannable_url_from show_ipv6 ?w (Some (V4 a1 a2 a3 a4)) = Some u" "wc_url ?w = None" for u
  proof -
    obtain a b e d where address: "(case wc_address ?w of Some a \<Rightarrow> Some a | None \<Rightarrow> Some (V4 a1 a2 a3 a4)) = Some (V4 a b e d)"
      using assms(3) by (cases "wc_address ?w") (auto, metis ip_addr.exhaust)
    then obtain port where "u = listener_url a b e d port" "bindable (V4 a b e d)"
      using scanned by (auto simp: scannable_url_from_def bind_eq_Some_conv listener_url_def split: if_splits)
    then show ?thesis using listener_url_accepted [of a b e d show_debug port] by auto
  qed
  have "\<exists>base. pairing_url show_debug url = Inr base"
  proof (cases "wc_url ?w")
    case None
    with assms(2) direct bridge show ?thesis
      by (auto simp: resolve_web_def resolve_from_def Let_def split: if_splits option.splits)
  next
    case (Some u)
    then have "url = u \<or> url = default_bridge_url"
      using assms(2) by (auto simp: resolve_web_def resolve_from_def Let_def scannable_url_from_def split: if_splits)
    with configured [OF Some] bridge show ?thesis by (metis sum.exhaust)
  qed
  moreover have "served_port ?w \<noteq> None"
    using assms(2) served
    by (cases "wc_url ?w"; cases "served_port ?w")
      (auto simp: resolve_web_def resolve_from_def Let_def scannable_url_from_def split: if_splits)
  ultimately show ?thesis by blast
qed

section \<open>Witnesses\<close>

definition sample_target :: target where
  "sample_target = \<lparr>tg_name = lit ''alpha'', tg_ssh = None, tg_discover_sessions = False, tg_session = None,
     tg_socket = None, tg_herdr_bins = [lit ''herdr''], tg_tags = [], tg_roots = [lit ''/srv'']\<rparr>"

definition sample_config :: config where
  "sample_config = \<lparr>cf_transport = \<lparr>tc_ssh_bin = lit ''ssh'', tc_batch_mode = True,
       tc_connect_timeout_seconds = 10, tc_command_timeout_seconds = 20\<rparr>,
     cf_notifications = notifications_default,
     cf_web = \<lparr>wc_port = Some 8790, wc_address = None, wc_url = None, wc_bridge = False\<rparr>,
     cf_targets = [sample_target], cf_quick_replies = None\<rparr>"

lemma sample_target_ok: "target_ok sample_target"
proof -
  have "trim (lit ''alpha'') = lit ''alpha''" "trim (lit ''herdr'') = lit ''herdr''"
    by (rule trim_none, simp add: lit_def is_whitespace_def)+
  then show ?thesis
    by (simp add: target_ok_def sample_target_def lit_def has_control_def is_control_def valid_root_def has_dotdot_def)
qed

lemma sample_config_valid: "validate show_debug sample_config = Inr ()"
proof -
  have "trim (lit ''ssh'') = lit ''ssh''" by (rule trim_none) (simp add: lit_def is_whitespace_def)
  then show ?thesis
    using sample_target_ok
    by (simp add: validate_def sample_config_def validate_replies_def validate_target_ok served_port_def
        notifications_default_def, simp add: lit_def)
qed

definition sample_resource :: pane_id where
  "sample_resource = QualifiedId (lit ''alpha'') (lit ''dev'') (lit ''w1:p1'')"

theorem validated_identities_witness:
  "\<not> has_control (show_target_session (qid_target_session sample_resource))"
proof -
  have "sample_target \<in> set (cf_targets sample_config)" "qid_target sample_resource = tg_name sample_target"
    by (simp_all add: sample_config_def sample_resource_def sample_target_def)
  moreover have "valid_session (qid_session sample_resource)"
    by (simp add: valid_session_def sample_resource_def lit_def has_control_def is_control_def)
  ultimately show ?thesis
    using validated_identities [OF sample_config_valid [of "\<lambda>s. s"]] by blast
qed

theorem resolved_url_pairs_witness:
  "rw_url (resolve_web (\<lambda>_. []) (\<lambda>_. None) (cf_web sample_config) (Some (V4 100 64 0 9))) = Some (listener_url 100 64 0 9 8790)
   \<and> served_port (cf_web sample_config) \<noteq> None"
proof -
  have "rw_url (resolve_web (\<lambda>_. []) (\<lambda>_. None) (cf_web sample_config) (Some (V4 100 64 0 9))) = Some (listener_url 100 64 0 9 8790)"
    by (simp add: resolve_web_def resolve_from_def sample_config_def served_port_def hosted_bridge_requested_def
        scannable_url_from_def is_loopback_def is_loopback_v4_def bindable_def listener_url_def)
  then show ?thesis
    using resolved_url_pairs [OF sample_config_valid [of "\<lambda>s. s"], of "\<lambda>_. []" 100 64 0 9]
    by (simp add: sample_config_def)
qed

end
