(* ===== verification/Remote_Files.thy ===== *)
theory Remote_Files
  imports Config_Check Protocol
begin

text \<open>
  Browsing and searching a target's files, \<open>src/src/remote_files.rs\<close>: which requests a host is
  ever sent, and what its answer is read as. The host is a parameter: it is given one of the two
  scripts and the text on its standard input and answers with its output or an error. What the
  scripts do on the host is not part of the model.
\<close>

section \<open>Requests\<close>

definition max_entries :: nat where "max_entries = 500"
definition max_search_depth :: nat where "max_search_depth = 6"
definition max_output_bytes :: nat where "max_output_bytes = 64 * 1024"
definition max_query_characters :: nat where "max_query_characters = 128"
definition max_relative_characters :: nat where "max_relative_characters = 1024"

datatype script = ListScript | SearchScript

type_synonym host = "script \<Rightarrow> ustring \<Rightarrow> u8 list result"

definition roots :: "target \<Rightarrow> ustring list" where
  "roots t = tg_roots t"

definition permitted_root :: "target \<Rightarrow> ustring \<Rightarrow> ustring result" where
  "permitted_root t root = ok_or (find (\<lambda>declared. declared = root) (tg_roots t))
     (lit ''that path is not one of this target's configured roots'')"

definition checked_relative :: "ustring \<Rightarrow> ustring result" where
  "checked_relative relative =
     (let relative = dropWhile (\<lambda>c. c = 47) relative
      in if \<not> (length relative \<le> max_relative_characters \<and> \<not> has_control relative)
         then Inl (lit ''that path is too long or contains control characters'')
         else if has_dotdot relative then Inl (lit ''a path inside a root may not climb out of it'')
         else Inr relative)"

definition glob_special :: "uchar \<Rightarrow> bool" where
  "glob_special c \<longleftrightarrow> c \<in> {42, 63, 91, 93, 92}"

primrec escape_glob :: "ustring \<Rightarrow> ustring" where
  "escape_glob [] = []"
| "escape_glob (c # query) = (if glob_special c then [92, c] else [c]) @ escape_glob query"

section \<open>Answers\<close>

text \<open>Complete fields: everything up to the last NUL, without empty ones.\<close>

definition is_nul :: "u8 \<Rightarrow> bool" where
  "is_nul b \<longleftrightarrow> b = 0"

fun split_bytes :: "u8 list \<Rightarrow> u8 list \<Rightarrow> u8 list list" where
  "split_bytes field [] = []"
| "split_bytes field (b # bytes) = (if is_nul b then rev field # split_bytes [] bytes else split_bytes (b # field) bytes)"

definition split_nul :: "u8 list \<Rightarrow> u8 list list" where
  "split_nul output = filter (\<lambda>field. field \<noteq> []) (split_bytes [] output)"

definition entry_kind :: "u8 list \<Rightarrow> remote_entry_kind" where
  "entry_kind kind = (if kind = [100] then DirectoryEntry else if kind = [102] then FileEntry else OtherEntry)"

fun pair_entries :: "u8 list list \<Rightarrow> remote_entry list" where
  "pair_entries (kind # name # rest) =
     (case from_utf8 name of None \<Rightarrow> [] | Some name \<Rightarrow> [\<lparr>re_kind = entry_kind kind, re_name = name\<rparr>])
     @ pair_entries rest"
| "pair_entries _ = []"

definition limit_entries :: "remote_entry list \<Rightarrow> remote_entry list \<times> bool" where
  "limit_entries entries = (take max_entries entries, max_entries \<le> length entries)"

definition parse_entries :: "u8 list \<Rightarrow> remote_entry list \<times> bool" where
  "parse_entries output = limit_entries (pair_entries (split_nul output))"

definition path_name :: "ustring \<Rightarrow> ustring" where
  "path_name path = (if take 2 path = lit ''./'' then drop 2 path else path)"

definition path_entry :: "u8 list \<Rightarrow> remote_entry option" where
  "path_entry path = Option.bind (from_utf8 path) (\<lambda>path.
     let name = path_name path in if name = [] then None else Some \<lparr>re_kind = FileEntry, re_name = name\<rparr>)"

definition parse_paths :: "u8 list \<Rightarrow> remote_entry list \<times> bool" where
  "parse_paths output = limit_entries (List.map_filter path_entry (split_nul output))"

section \<open>Operations\<close>

definition stdin_lines :: "ustring list \<Rightarrow> ustring" where
  "stdin_lines arguments = concat (map (\<lambda>argument. argument @ [10]) arguments)"

definition run_script :: "host \<Rightarrow> script \<Rightarrow> ustring list \<Rightarrow> u8 list result" where
  "run_script host script arguments =
     and_then (host script (stdin_lines arguments)) (\<lambda>bytes. Inr (take max_output_bytes bytes))"

definition list_files :: "host \<Rightarrow> target \<Rightarrow> ustring \<Rightarrow> ustring \<Rightarrow> remote_listing result" where
  "list_files host t root relative =
     and_then (permitted_root t root) (\<lambda>root.
     and_then (checked_relative relative) (\<lambda>relative.
     and_then (run_script host ListScript [root, relative]) (\<lambda>output.
       let (entries, truncated) = parse_entries output
       in Inr \<lparr>rl_root = root, rl_path = relative, rl_entries = entries, rl_truncated = truncated\<rparr>)))"

definition search_pattern :: "ustring \<Rightarrow> bool \<Rightarrow> ustring" where
  "search_pattern query glob = (if glob then query else 42 # escape_glob query @ [42])"

definition search_files :: "host \<Rightarrow> target \<Rightarrow> ustring \<Rightarrow> ustring \<Rightarrow> bool \<Rightarrow> remote_listing result" where
  "search_files host t root query glob =
     and_then (permitted_root t root) (\<lambda>root.
       if \<not> (query \<noteq> [] \<and> length query \<le> max_query_characters \<and> \<not> has_control query)
       then Inl (lit ''a search must be 1 to 128 characters of ordinary text'')
       else and_then (run_script host SearchScript [root, search_pattern query glob, show_nat max_search_depth]) (\<lambda>output.
         let (entries, truncated) = parse_paths output
         in Inr \<lparr>rl_root = root, rl_path = [], rl_entries = sort_key re_name entries, rl_truncated = truncated\<rparr>))"

section \<open>What a host is asked\<close>

text \<open>
  A request that stays in bounds: what the script reads line by line is a declared root and a
  path below it that does not climb, or a bounded pattern and the depth of the search.
\<close>

definition safe_request :: "target \<Rightarrow> script \<Rightarrow> ustring \<Rightarrow> bool" where
  "safe_request t script input = (\<exists>root \<in> set (tg_roots t). case script of
     ListScript \<Rightarrow> \<exists>relative. split_on (\<lambda>c. c = 10) input = [root, relative, []]
       \<and> length relative \<le> 1024 \<and> \<not> has_control relative \<and> \<not> has_dotdot relative \<and> take 1 relative \<noteq> [47]
   | SearchScript \<Rightarrow> \<exists>pattern. split_on (\<lambda>c. c = 10) input = [root, pattern, lit ''6'', []]
       \<and> length pattern \<le> 258 \<and> \<not> has_control pattern)"

lemma split_on_line: "\<forall>c \<in> set a. \<not> p c \<Longrightarrow> p x \<Longrightarrow> split_on p (a @ x # rest) = a # split_on p rest"
  by (induction a) auto

lemma split_stdin_lines:
  "\<forall>a \<in> set arguments. \<not> has_control a \<Longrightarrow> split_on (\<lambda>c. c = 10) (stdin_lines arguments) = arguments @ [[]]"
proof (induction arguments)
  case (Cons a arguments)
  have "\<forall>c \<in> set a. c \<noteq> 10" using Cons.prems by (auto simp: has_control_def is_control_def)
  then show ?case using Cons by (simp add: stdin_lines_def split_on_line)
qed (simp add: stdin_lines_def)

lemma escape_glob_control: "has_control (escape_glob query) \<longleftrightarrow> has_control query"
  by (induction query) (auto simp: has_control_def is_control_def)

lemma length_escape_glob: "length (escape_glob query) \<le> 2 * length query"
  by (induction query) auto

lemma find_same: "find (\<lambda>x. x = y) xs = (if y \<in> set xs then Some y else None)"
  by (induction xs) auto

lemma permitted_root_ok: "permitted_root t root = Inr r \<longleftrightarrow> r = root \<and> root \<in> set (tg_roots t)"
  by (auto simp: permitted_root_def find_same)

lemma dropWhile_head: "take 1 (dropWhile (\<lambda>c. c = x) s) \<noteq> [x]"
  by (induction s) auto

lemma checked_relative_ok:
  "checked_relative relative = Inr r \<Longrightarrow>
   length r \<le> 1024 \<and> \<not> has_control r \<and> \<not> has_dotdot r \<and> take 1 r \<noteq> [47] \<and> r = dropWhile (\<lambda>c. c = 47) relative"
  using dropWhile_head [of 47 relative]
  by (auto simp: checked_relative_def Let_def max_relative_characters_def split: if_splits)

lemma depth_line: "show_nat max_search_depth = lit ''6''" "\<not> has_control (lit ''6'')"
  by (simp_all add: max_search_depth_def show_nat.simps lit_def has_control_def is_control_def)

lemma list_request_safe:
  assumes "target_ok t" and "permitted_root t root = Inr r" and "checked_relative relative = Inr rel"
  shows "safe_request t ListScript (stdin_lines [r, rel])"
proof -
  have "\<not> has_control r" "r \<in> set (tg_roots t)"
    using assms(1,2) by (auto simp: permitted_root_ok target_ok_def valid_root_def)
  then show ?thesis
    using checked_relative_ok [OF assms(3)] split_stdin_lines [of "[r, rel]"] by (auto simp: safe_request_def)
qed

lemma search_request_safe:
  assumes "target_ok t" and "permitted_root t root = Inr r"
    and "length query \<le> max_query_characters" and "\<not> has_control query"
  shows "safe_request t SearchScript (stdin_lines [r, search_pattern query glob, show_nat max_search_depth])"
proof -
  have "\<not> has_control r" "r \<in> set (tg_roots t)"
    using assms(1,2) by (auto simp: permitted_root_ok target_ok_def valid_root_def)
  moreover have "\<not> has_control (search_pattern query glob)"
    using assms(4) escape_glob_control [of query] by (auto simp: search_pattern_def has_control_def is_control_def)
  moreover have "length (search_pattern query glob) \<le> 258"
    using assms(3) length_escape_glob [of query] by (simp add: search_pattern_def max_query_characters_def)
  ultimately show ?thesis
    using split_stdin_lines [of "[r, search_pattern query glob, lit ''6'']"] depth_line(2)
    by (auto simp: safe_request_def depth_line(1))
qed

text \<open>
  C9. A client cannot make a host do anything but list or search below the roots its owner
  declared. For a target that passed validation, whatever root, path, query and mode are asked
  for, the only inputs a host is given are those whose lines are one declared root and a path
  that does not leave it, or a bounded pattern: hosts that agree on these cannot be told apart.
\<close>

theorem hosts_asked_safely:
  assumes "target_ok t" and "\<And>script input. safe_request t script input \<Longrightarrow> host script input = host' script input"
  shows "list_files host t root relative = list_files host' t root relative
    \<and> search_files host t root query glob = search_files host' t root query glob"
proof (rule conjI)
  show "list_files host t root relative = list_files host' t root relative"
  proof (cases "permitted_root t root"; cases "checked_relative relative")
    fix r rel
    assume ok: "permitted_root t root = Inr r" "checked_relative relative = Inr rel"
    then have "host ListScript (stdin_lines [r, rel]) = host' ListScript (stdin_lines [r, rel])"
      by (intro assms(2) list_request_safe [OF assms(1)])
    with ok show ?thesis by (simp add: list_files_def run_script_def)
  qed (simp_all add: list_files_def)
  show "search_files host t root query glob = search_files host' t root query glob"
  proof (cases "permitted_root t root")
    case (Inr r)
    have "host SearchScript (stdin_lines [r, search_pattern query glob, show_nat max_search_depth])
        = host' SearchScript (stdin_lines [r, search_pattern query glob, show_nat max_search_depth])"
      if "length query \<le> max_query_characters" "\<not> has_control query"
      using that by (intro assms(2) search_request_safe [OF assms(1) Inr])
    with Inr show ?thesis by (auto simp: search_files_def run_script_def)
  qed (simp add: search_files_def)
qed

section \<open>What a search finds\<close>

text \<open>
  The patterns of \<open>find -name\<close> as far as an escaped query uses them: a star matches any text, a
  backslash makes the next character match itself, and an ordinary character matches itself.
\<close>

definition glob_documented :: "(ustring \<Rightarrow> ustring \<Rightarrow> bool) \<Rightarrow> bool" where
  "glob_documented m \<longleftrightarrow> (\<forall>s. m [] s \<longleftrightarrow> s = [])
     \<and> (\<forall>p s. m (42 # p) s \<longleftrightarrow> (\<exists>a b. s = a @ b \<and> m p b))
     \<and> (\<forall>c p s. m (92 # c # p) s \<longleftrightarrow> (\<exists>b. s = c # b \<and> m p b))
     \<and> (\<forall>c p s. \<not> glob_special c \<longrightarrow> m (c # p) s \<longleftrightarrow> (\<exists>b. s = c # b \<and> m p b))"

lemma escaped_prefix:
  assumes "glob_documented m"
  shows "m (escape_glob query @ p) s \<longleftrightarrow> (\<exists>b. s = query @ b \<and> m p b)"
proof (induction query arbitrary: s)
  case (Cons c query)
  have "m ((if glob_special c then [92, c] else [c]) @ rest) s \<longleftrightarrow> (\<exists>b. s = c # b \<and> m rest b)" for rest
    using assms by (cases "glob_special c") (simp_all add: glob_documented_def)
  with Cons show ?case by auto
qed (use assms in \<open>auto simp: glob_documented_def\<close>)

text \<open>
  A plain search finds exactly the names that contain the query. Without the glob option the
  pattern a host is given matches a name, by the documented rules of patterns, if and only if
  the query occurs in the name as text, whatever stars, brackets or backslashes are in it.
\<close>

theorem plain_search_literal:
  assumes "glob_documented m"
  shows "m (search_pattern query False) name \<longleftrightarrow> (\<exists>before after. name = before @ query @ after)"
proof -
  have star: "m (42 # p) s \<longleftrightarrow> (\<exists>a b. s = a @ b \<and> m p b)" and last: "m [] s \<longleftrightarrow> s = []" for p s
    using assms by (simp_all add: glob_documented_def)
  show ?thesis
    by (simp add: search_pattern_def star escaped_prefix [OF assms] last) blast
qed

section \<open>What a listing shows\<close>

definition kind_byte :: "remote_entry_kind \<Rightarrow> u8" where
  "kind_byte k = (case k of DirectoryEntry \<Rightarrow> 100 | FileEntry \<Rightarrow> 102 | OtherEntry \<Rightarrow> 111)"

text \<open>What the script prints for the entries of a directory.\<close>

definition printed :: "remote_entry list \<Rightarrow> u8 list" where
  "printed entries = concat (map (\<lambda>e. kind_byte (re_kind e) # 0 # utf8_bytes (re_name e) @ [0]) entries)"

definition printable_entry :: "remote_entry \<Rightarrow> bool" where
  "printable_entry e \<longleftrightarrow> re_name e \<noteq> [] \<and> (\<forall>c \<in> set (re_name e). is_scalar c \<and> 0 < c)"

lemma utf8_bytes_nul: "\<forall>c \<in> set s. is_scalar c \<and> 0 < c \<Longrightarrow> \<forall>b \<in> set (utf8_bytes s). \<not> is_nul b"
  by (induction s) (auto simp: is_nul_def zero_byte_char)

lemma split_bytes_field:
  "\<forall>b \<in> set field. \<not> is_nul b \<Longrightarrow> split_bytes acc (field @ rest) = split_bytes (rev field @ acc) rest"
  by (induction field arbitrary: acc) auto

lemma utf8_bytes_nonempty: "s \<noteq> [] \<Longrightarrow> utf8_bytes s \<noteq> []"
  by (cases s) (auto simp: utf8_char_def utf8_codes_def)

lemma entry_kind_byte: "entry_kind [kind_byte k] = k"
  by (cases k) (simp_all add: entry_kind_def kind_byte_def)

lemma kind_byte_nul: "\<not> is_nul (kind_byte k)"
  by (cases k) (simp_all add: is_nul_def kind_byte_def)

lemma split_nul_printed:
  "\<forall>e \<in> set es. printable_entry e \<Longrightarrow>
   split_nul (printed es) = concat (map (\<lambda>e. [[kind_byte (re_kind e)], utf8_bytes (re_name e)]) es)"
proof (induction es)
  case (Cons e es)
  have name: "\<forall>b \<in> set (utf8_bytes (re_name e)). \<not> is_nul b" "utf8_bytes (re_name e) \<noteq> []"
    using Cons.prems utf8_bytes_nul [of "re_name e"] utf8_bytes_nonempty [of "re_name e"]
    by (auto simp: printable_entry_def)
  have "printed (e # es) = kind_byte (re_kind e) # 0 # utf8_bytes (re_name e) @ 0 # printed es"
    by (simp add: printed_def)
  then have "split_bytes [] (printed (e # es)) = [kind_byte (re_kind e)] # utf8_bytes (re_name e) # split_bytes [] (printed es)"
    using name(1) by (simp add: kind_byte_nul split_bytes_field) (simp add: is_nul_def)
  with Cons name(2) show ?case by (simp add: split_nul_def)
qed (simp add: printed_def split_nul_def)

lemma pair_entries_printed: "\<forall>e \<in> set es. printable_entry e \<Longrightarrow> pair_entries (split_nul (printed es)) = es"
  unfolding split_nul_printed
  by (induction es) (simp_all add: split_nul_printed printable_entry_def from_utf8_bytes entry_kind_byte)

text \<open>
  A listing is what the host printed. When the output of the listing script fits into the
  64 KiB that are read, the entries shown are those of the directory, in order, with their kinds
  and names, up to five hundred of them, and the listing says whether there were that many.
\<close>

theorem listing_faithful:
  assumes "permitted_root t root = Inr r" and "checked_relative relative = Inr rel"
    and "host ListScript (stdin_lines [r, rel]) = Inr (printed entries)"
    and "\<forall>e \<in> set entries. printable_entry e" and "length (printed entries) \<le> 64 * 1024"
  shows "list_files host t root relative = Inr \<lparr>rl_root = root, rl_path = rel,
    rl_entries = take 500 entries, rl_truncated = (500 \<le> length entries)\<rparr>"
proof -
  have "r = root" using assms(1) by (simp add: permitted_root_ok)
  with assms show ?thesis
    by (simp add: list_files_def run_script_def max_output_bytes_def parse_entries_def limit_entries_def
        pair_entries_printed max_entries_def)
qed

text \<open>A listing that is cut by its size in bytes does not say so.\<close>

lemma split_bytes_prefix: "\<exists>rest. split_bytes acc (xs @ ys) = split_bytes acc xs @ rest"
  by (induction xs arbitrary: acc) auto

lemma split_bytes_weight:
  "sum_list (map length (split_bytes acc xs)) + length (split_bytes acc xs) \<le> length acc + length xs"
proof (induction xs arbitrary: acc)
  case (Cons x xs)
  then show ?case using Cons.IH [of "[]"] Cons.IH [of "x # acc"] by auto
qed simp

lemma split_bytes_printed_weight:
  "\<forall>e \<in> set es. printable_entry e \<Longrightarrow>
   sum_list (map length (split_nul (printed es))) + length (split_nul (printed es)) = length (printed es)"
  unfolding split_nul_printed by (induction es) (simp_all add: split_nul_printed printed_def)

lemma pair_entries_length: "2 * length (pair_entries fs) \<le> length fs"
  by (induction fs rule: pair_entries.induct) (auto split: option.split)

lemma filter_weight: "sum_list (map length (filter p xs)) + length (filter p xs) \<le> sum_list (map length xs) + length xs"
  by (induction xs) auto

lemma cut_listing_short:
  assumes "\<forall>e \<in> set es. printable_entry e" and "max_output_bytes < length (printed es)"
  shows "length (pair_entries (split_nul (take max_output_bytes (printed es)))) < length es"
proof (rule ccontr)
  let ?cut = "take max_output_bytes (printed es)"
  let ?fields = "split_nul ?cut"
  assume "\<not> ?thesis"
  then have enough: "2 * length es \<le> length ?fields" using pair_entries_length [of ?fields] by simp
  obtain rest where "split_bytes [] (printed es) = split_bytes [] ?cut @ rest"
    using split_bytes_prefix [of "[]" ?cut "drop max_output_bytes (printed es)"] by (auto simp: append_take_drop_id)
  then have prefix: "split_nul (printed es) = ?fields @ filter (\<lambda>f. f \<noteq> []) rest" by (simp add: split_nul_def)
  have "length (split_nul (printed es)) = 2 * length es"
    unfolding split_nul_printed [OF assms(1)] by (induction es) simp_all
  with prefix have "length ?fields + length (filter (\<lambda>f. f \<noteq> []) rest) = 2 * length es" by simp
  with enough have "length (filter (\<lambda>f. f \<noteq> []) rest) = 0" by linarith
  with prefix have same: "?fields = split_nul (printed es)" by simp
  have "sum_list (map length ?fields) + length ?fields
      \<le> sum_list (map length (split_bytes [] ?cut)) + length (split_bytes [] ?cut)"
    unfolding split_nul_def by (rule filter_weight)
  also have "\<dots> \<le> max_output_bytes" using split_bytes_weight [of "[]" ?cut] by simp
  finally show False using assms(2) same split_bytes_printed_weight [OF assms(1)] by simp
qed

definition long_entry :: remote_entry where
  "long_entry = \<lparr>re_kind = FileEntry, re_name = replicate 250 97\<rparr>"

lemma long_names_cut_silently:
  assumes "permitted_root t root = Inr r" and "checked_relative relative = Inr rel"
    and "host ListScript (stdin_lines [r, rel]) = Inr (printed (replicate 300 long_entry))"
  shows "\<exists>l. list_files host t root relative = Inr l \<and> \<not> rl_truncated l \<and> length (rl_entries l) < 300"
proof -
  let ?es = "replicate 300 long_entry"
  have printable: "\<forall>e \<in> set ?es. printable_entry e"
    by (simp add: printable_entry_def long_entry_def is_scalar_def)
  have "utf8_bytes (replicate n 97) = replicate n 97" for n
    by (induction n) (simp_all add: utf8_char_def utf8_codes_def)
  then have "length (utf8_bytes (re_name long_entry)) = 250" by (simp add: long_entry_def)
  then have "length (printed ?es) = 300 * 253"
    by (simp add: printed_def length_concat comp_def sum_list_replicate)
  then have "length (pair_entries (split_nul (take max_output_bytes (printed ?es)))) < 300"
    using cut_listing_short [OF printable] by (simp add: max_output_bytes_def)
  with assms show ?thesis
    by (auto simp: list_files_def run_script_def parse_entries_def limit_entries_def max_entries_def Let_def)
qed

section \<open>Witnesses\<close>

text \<open>A matcher of patterns without brackets and question marks.\<close>

fun simple_glob :: "ustring \<Rightarrow> ustring \<Rightarrow> bool" where
  "simple_glob [] s \<longleftrightarrow> s = []"
| "simple_glob (p # ps) s \<longleftrightarrow>
     (if p = 42 then (\<exists>i \<in> set [0..<Suc (length s)]. simple_glob ps (drop i s))
      else if p = 92 \<and> ps \<noteq> [] then (s \<noteq> [] \<and> hd s = hd ps \<and> simple_glob (tl ps) (tl s))
      else (s \<noteq> [] \<and> hd s = p \<and> simple_glob ps (tl s)))"

declare simple_glob.simps(2) [simp del]

lemma simple_glob_star: "simple_glob (42 # p) s \<longleftrightarrow> (\<exists>a b. s = a @ b \<and> simple_glob p b)"
proof -
  have "simple_glob (42 # p) s \<longleftrightarrow> (\<exists>i \<le> length s. simple_glob p (drop i s))"
    by (auto simp: simple_glob.simps(2) less_Suc_eq_le simp del: upt_Suc)
  also have "\<dots> \<longleftrightarrow> (\<exists>a b. s = a @ b \<and> simple_glob p b)"
    by (metis append_take_drop_id append_eq_conv_conj le_add1 length_append)
  finally show ?thesis .
qed

lemma simple_glob_documented: "glob_documented simple_glob"
proof -
  have "simple_glob (92 # c # p) s \<longleftrightarrow> (\<exists>b. s = c # b \<and> simple_glob p b)" for c p s
    by (cases s) (auto simp: simple_glob.simps(2))
  moreover have "simple_glob (c # p) s \<longleftrightarrow> (\<exists>b. s = c # b \<and> simple_glob p b)" if "\<not> glob_special c" for c p s
    using that by (cases s) (auto simp: simple_glob.simps(2) glob_special_def)
  ultimately show ?thesis by (simp add: glob_documented_def simple_glob_star)
qed

theorem plain_search_literal_witness:
  "simple_glob (search_pattern (lit ''a*b'') False) (lit ''xa*by'') \<and> \<not> simple_glob (search_pattern (lit ''*'') False) (lit ''ab'')"
proof -
  have "\<exists>before after. lit ''xa*by'' = before @ lit ''a*b'' @ after"
    by (intro exI [of _ "lit ''x''"] exI [of _ "lit ''y''"]) (simp add: lit_def)
  moreover have "\<not> (\<exists>before after. lit ''ab'' = before @ lit ''*'' @ after)"
    by (auto simp: lit_def Cons_eq_append_conv)
  ultimately show ?thesis using plain_search_literal [OF simple_glob_documented] by blast
qed

definition sample_entries :: "remote_entry list" where
  "sample_entries = [\<lparr>re_kind = DirectoryEntry, re_name = lit ''src''\<rparr>, \<lparr>re_kind = FileEntry, re_name = lit ''a b''\<rparr>]"

definition sample_host :: host where
  "sample_host script input = (case script of ListScript \<Rightarrow> Inr (printed sample_entries) | SearchScript \<Rightarrow> Inl [])"

lemma sample_root: "permitted_root sample_target (lit ''/srv'') = Inr (lit ''/srv'')"
  by (simp add: permitted_root_def sample_target_def)

lemma sample_relative: "checked_relative (lit ''/sub'') = Inr (lit ''sub'')"
  by (simp add: checked_relative_def Let_def lit_def max_relative_characters_def has_control_def is_control_def has_dotdot_def)

theorem hosts_asked_safely_witness:
  "list_files sample_host sample_target (lit ''/srv'') (lit ''/sub'')
   = list_files (\<lambda>script input. if safe_request sample_target script input then sample_host script input else Inl [])
       sample_target (lit ''/srv'') (lit ''/sub'')"
  using hosts_asked_safely [OF sample_target_ok, of sample_host
      "\<lambda>script input. if safe_request sample_target script input then sample_host script input else Inl []"] by simp

theorem listing_faithful_witness:
  "list_files sample_host sample_target (lit ''/srv'') (lit ''/sub'') = Inr \<lparr>rl_root = lit ''/srv'', rl_path = lit ''sub'',
     rl_entries = take 500 sample_entries, rl_truncated = (500 \<le> length sample_entries)\<rparr>"
proof -
  have "\<forall>e \<in> set sample_entries. printable_entry e"
    by (simp add: sample_entries_def printable_entry_def lit_def is_scalar_def)
  moreover have "length (printed sample_entries) \<le> 64 * 1024"
    by (simp add: printed_def sample_entries_def utf8_char_def utf8_codes_def lit_def)
  ultimately show ?thesis
    using listing_faithful [OF sample_root sample_relative, of sample_host sample_entries] by (simp add: sample_host_def)
qed

end
