(* ===== verification/Bridge.thy ===== *)
theory Bridge
  imports Pairing
begin

text \<open>
  The hosted bridge, \<open>src/crates/bridge/src/lib.rs\<close>: the packets of a tunnel, the table of
  registered daemons and of the codes they publish, and the limit on pairing attempts. A lock
  is held during each operation on the table, so operations are atomic; senders are opaque
  values, and what is sent through them is part of an operation's result. The digest of a
  secret is a parameter; instants are integers counting nanoseconds.
\<close>

section \<open>Packets\<close>

definition OPEN :: u8 where "OPEN = 1"
definition DEVICE_DATA :: u8 where "DEVICE_DATA = 2"
definition DEVICE_CLOSED :: u8 where "DEVICE_CLOSED = 3"
definition HOST_DATA :: u8 where "HOST_DATA = 4"
definition HOST_CLOSED :: u8 where "HOST_CLOSED = 5"
definition PAIRING_CODE :: u8 where "PAIRING_CODE = 6"
definition packet_head_bytes :: nat where "packet_head_bytes = 9"
definition max_tunnel_chunk_bytes :: nat where "max_tunnel_chunk_bytes = 32 * 1024"

record packet =
  pk_kind :: u8
  pk_connection :: u64
  pk_payload :: "u8 list"

text \<open>A WebSocket message, as far as the tunnel distinguishes them.\<close>

datatype message = BinaryMessage "u8 list" | OtherMessage

text \<open>The big-endian bytes of an unsigned integer.\<close>

fun be_digits :: "nat \<Rightarrow> nat \<Rightarrow> nat list" where
  "be_digits 0 n = []"
| "be_digits (Suc k) n = be_digits k (n div 256) @ [n mod 256]"

definition to_be_bytes :: "u64 \<Rightarrow> u8 list" where
  "to_be_bytes w = map of_nat (be_digits 8 (unat w))"

definition be_value :: "nat list \<Rightarrow> nat" where
  "be_value ds = fold (\<lambda>d acc. acc * 256 + d) ds 0"

definition from_be_bytes :: "u8 list \<Rightarrow> u64" where
  "from_be_bytes bytes = of_nat (be_value (map unat bytes))"

definition encode_packet :: "packet \<Rightarrow> message" where
  "encode_packet p = BinaryMessage (pk_kind p # to_be_bytes (pk_connection p) @ pk_payload p)"

definition decode_packet :: "message \<Rightarrow> packet option" where
  "decode_packet m = (case m of OtherMessage \<Rightarrow> None
   | BinaryMessage bytes \<Rightarrow>
       if length bytes < packet_head_bytes \<or> packet_head_bytes + max_tunnel_chunk_bytes < length bytes then None
       else Some \<lparr>pk_kind = bytes ! 0, pk_connection = from_be_bytes (take 8 (drop 1 bytes)),
                  pk_payload = drop packet_head_bytes bytes\<rparr>)"

section \<open>The relay\<close>

definition route_characters :: nat where "route_characters = 32"
definition secret_characters :: nat where "secret_characters = 64"
definition max_routes :: nat where "max_routes = 4096"
definition max_devices_per_route :: nat where "max_devices_per_route = 16"
definition max_pair_sources :: nat where "max_pair_sources = 4096"
definition max_pair_attempts_per_source :: u32 where "max_pair_attempts_per_source = 10"
definition pair_attempt_window :: int where "pair_attempt_window = 10 * 60 * 1000000000"

definition is_ascii_hexdigit :: "uchar \<Rightarrow> bool" where
  "is_ascii_hexdigit c \<longleftrightarrow> (48 \<le> c \<and> c \<le> 57) \<or> (65 \<le> c \<and> c \<le> 70) \<or> (97 \<le> c \<and> c \<le> 102)"

definition ensure_route :: "ustring \<Rightarrow> unit result" where
  "ensure_route route = (if utf8_len route = route_characters \<and> (\<forall>c \<in> set route. is_ascii_hexdigit c) then Inr ()
     else Inl (lit ''invalid bridge route''))"

definition ensure_secret :: "ustring \<Rightarrow> unit result" where
  "ensure_secret secret = (if utf8_len secret = secret_characters \<and> (\<forall>c \<in> set secret. is_ascii_hexdigit c) then Inr ()
     else Inl (lit ''invalid bridge authorization''))"

definition constant_time_eq :: "u8 list \<Rightarrow> u8 list \<Rightarrow> bool" where
  "constant_time_eq left right \<longleftrightarrow> length left = length right
     \<and> fold (\<lambda>(l, r) difference. difference OR (l XOR r)) (zip left right) 0 = (0 :: u8)"

record ('h, 'd) live_route =
  lr_secret_digest :: "u8 list"
  lr_generation :: u64
  lr_host :: 'h
  lr_devices :: "(u64, 'd) btmap"

record code_route =
  cr_route :: ustring
  cr_generation :: u64
  cr_expires_at :: int

record attempt_window =
  aw_opened_at :: int
  aw_attempts :: u32

record ('h, 'd) relay_state =
  rs_routes :: "(ustring, ('h, 'd) live_route) btmap"
  rs_codes :: "(ustring, code_route list) btmap"
  rs_pair_attempts :: "(ustring, attempt_window) btmap"
  rs_next_generation :: u64
  rs_next_connection :: u64

definition relay_default :: "('h, 'd) relay_state" where
  "relay_default = \<lparr>rs_routes = bt_empty, rs_codes = bt_empty, rs_pair_attempts = bt_empty,
     rs_next_generation = 0, rs_next_connection = 0\<rparr>"

text \<open>\<open>codes.retain\<close> that keeps the entries satisfying \<open>p\<close> and drops codes without any.\<close>

definition retain_codes :: "(code_route \<Rightarrow> bool) \<Rightarrow> (ustring, code_route list) btmap \<Rightarrow> (ustring, code_route list) btmap" where
  "retain_codes p codes = bt_retain (\<lambda>_ held. held \<noteq> []) (bt_update (\<lambda>_ held. filter p held) codes)"

definition published_by :: "ustring \<Rightarrow> u64 \<Rightarrow> code_route \<Rightarrow> bool" where
  "published_by route generation held \<longleftrightarrow> cr_route held = route \<and> cr_generation held = generation"

definition remove_codes :: "ustring \<Rightarrow> u64 \<Rightarrow> ('h, 'd) relay_state \<Rightarrow> ('h, 'd) relay_state" where
  "remove_codes route generation s = s\<lparr>rs_codes := retain_codes (\<lambda>held. \<not> published_by route generation held) (rs_codes s)\<rparr>"

definition close_devices :: "('h, 'd) live_route \<Rightarrow> ('d \<times> packet) list" where
  "close_devices live = map (\<lambda>(connection, device).
     (device, \<lparr>pk_kind = HOST_CLOSED, pk_connection = connection, pk_payload = []\<rparr>)) (bt_entries (lr_devices live))"

definition register ::
    "(ustring \<Rightarrow> u8 list) \<Rightarrow> ustring \<Rightarrow> ustring \<Rightarrow> 'h \<Rightarrow> ('h, 'd) relay_state \<Rightarrow>
     ('h, 'd) relay_state \<times> ('d \<times> packet) list \<times> u64 result" where
  "register digest route secret host s =
     (case and_then (ensure_route route) (\<lambda>_. ensure_secret secret) of
        Inl e \<Rightarrow> (s, [], Inl e)
      | Inr _ \<Rightarrow>
          (let generation = rs_next_generation s;
               s = s\<lparr>rs_next_generation := generation + 1\<rparr>;
               existing = bt_get (rs_routes s) route;
               live = \<lparr>lr_secret_digest = digest secret, lr_generation = generation, lr_host = host, lr_devices = bt_empty\<rparr>
           in case existing of
                Some old \<Rightarrow>
                  if \<not> constant_time_eq (lr_secret_digest old) (digest secret)
                  then (s, [], Inl (lit ''bridge route is already registered''))
                  else (remove_codes route (lr_generation old) (s\<lparr>rs_routes := bt_insert route live (rs_routes s)\<rparr>),
                        close_devices old, Inr generation)
              | None \<Rightarrow>
                  if max_routes \<le> bt_len (rs_routes s)
                  then (s, [], Inl (lit ''bridge route capacity is exhausted''))
                  else (s\<lparr>rs_routes := bt_insert route live (rs_routes s)\<rparr>, [], Inr generation)))"

definition unregister :: "ustring \<Rightarrow> u64 \<Rightarrow> ('h, 'd) relay_state \<Rightarrow> ('h, 'd) relay_state \<times> ('d \<times> packet) list" where
  "unregister route generation s =
     (case bt_get (rs_routes s) route of
        Some live \<Rightarrow>
          if lr_generation live = generation
          then (remove_codes route generation (s\<lparr>rs_routes := bt_remove route (rs_routes s)\<rparr>), close_devices live)
          else (remove_codes route generation s, [])
      | None \<Rightarrow> (remove_codes route generation s, []))"

definition unexpired :: "int \<Rightarrow> code_route \<Rightarrow> bool" where
  "unexpired now held \<longleftrightarrow> now < cr_expires_at held"

text \<open>The code a publication carries, when it is readable and complete.\<close>

definition offered_code :: "u8 list \<Rightarrow> ustring option" where
  "offered_code offered = (if offered = [] then None
     else Option.bind (from_utf8 offered) (\<lambda>offered.
       let code = normalize_pairing_code offered in if utf8_len code \<noteq> code_characters then None else Some code))"

definition register_code :: "int \<Rightarrow> ustring \<Rightarrow> u64 \<Rightarrow> u8 list \<Rightarrow> ('h, 'd) relay_state \<Rightarrow> ('h, 'd) relay_state" where
  "register_code now route generation offered s =
     (let codes = retain_codes (unexpired now) (rs_codes s);
          codes = retain_codes (\<lambda>held. \<not> published_by route generation held) codes
      in case offered_code offered of
           None \<Rightarrow> s\<lparr>rs_codes := codes\<rparr>
         | Some code \<Rightarrow> s\<lparr>rs_codes := bt_insert code (unwrap_or [] (bt_get codes code) @
             [\<lparr>cr_route = route, cr_generation = generation, cr_expires_at = now + code_lifetime\<rparr>]) codes\<rparr>)"

text \<open>A host's publication counts only while the host is the one registered.\<close>

definition publish_code :: "int \<Rightarrow> ustring \<Rightarrow> u64 \<Rightarrow> u8 list \<Rightarrow> ('h, 'd) relay_state \<Rightarrow> ('h, 'd) relay_state" where
  "publish_code now route generation offered s =
     (case bt_get (rs_routes s) route of
        Some live \<Rightarrow> if lr_generation live = generation then register_code now route generation offered s else s
      | None \<Rightarrow> s)"

definition route_for_code ::
    "int \<Rightarrow> ustring \<Rightarrow> ('h, 'd) relay_state \<Rightarrow> ('h, 'd) relay_state \<times> (ustring \<times> ('h, 'd) live_route) option" where
  "route_for_code now offered s =
     (let code = normalize_pairing_code offered
      in if utf8_len code \<noteq> code_characters then (s, None)
         else let codes = retain_codes (unexpired now) (rs_codes s); s = s\<lparr>rs_codes := codes\<rparr>
           in (s, case bt_get codes code of
                Some [held] \<Rightarrow> Option.bind (bt_get (rs_routes s) (cr_route held)) (\<lambda>live.
                  if lr_generation live = cr_generation held then Some (cr_route held, live) else None)
              | _ \<Rightarrow> None))"

definition admit_pair_attempt :: "int \<Rightarrow> ustring \<Rightarrow> ('h, 'd) relay_state \<Rightarrow> ('h, 'd) relay_state \<times> bool" where
  "admit_pair_attempt now source s =
     (let sources = bt_retain (\<lambda>_ window. now - aw_opened_at window < pair_attempt_window) (rs_pair_attempts s)
      in case bt_get sources source of
           None \<Rightarrow>
             if max_pair_sources \<le> bt_len sources then (s\<lparr>rs_pair_attempts := sources\<rparr>, False)
             else (s\<lparr>rs_pair_attempts := bt_insert source \<lparr>aw_opened_at = now, aw_attempts = 1\<rparr> sources\<rparr>, True)
         | Some window \<Rightarrow>
             if max_pair_attempts_per_source \<le> aw_attempts window then (s\<lparr>rs_pair_attempts := sources\<rparr>, False)
             else (s\<lparr>rs_pair_attempts := bt_insert source
                 (window\<lparr>aw_attempts := saturating_add (aw_attempts window) 1\<rparr>) sources\<rparr>, True))"

text \<open>A device takes a place on a route; \<open>fetch_add\<close> numbers its connection.\<close>

definition open_device :: "ustring \<Rightarrow> 'd \<Rightarrow> ('h, 'd) relay_state \<Rightarrow> ('h, 'd) relay_state \<times> u64 option" where
  "open_device route device s =
     (case bt_get (rs_routes s) route of
        None \<Rightarrow> (s, None)
      | Some live \<Rightarrow>
          (let connection = rs_next_connection s;
               s = s\<lparr>rs_next_connection := connection + 1\<rparr>
           in if max_devices_per_route \<le> bt_len (lr_devices live) then (s, None)
              else (s\<lparr>rs_routes := bt_insert route
                  (live\<lparr>lr_devices := bt_insert connection device (lr_devices live)\<rparr>) (rs_routes s)\<rparr>, Some connection)))"

definition close_device :: "ustring \<Rightarrow> u64 \<Rightarrow> u64 \<Rightarrow> ('h, 'd) relay_state \<Rightarrow> ('h, 'd) relay_state" where
  "close_device route generation connection s =
     (case bt_get (rs_routes s) route of
        None \<Rightarrow> s
      | Some live \<Rightarrow> if lr_generation live = generation
          then s\<lparr>rs_routes := bt_insert route (live\<lparr>lr_devices := bt_remove connection (lr_devices live)\<rparr>) (rs_routes s)\<rparr>
          else s)"

section \<open>The packets are read back\<close>

lemma length_be_digits [simp]: "length (be_digits k n) = k"
  by (induction k arbitrary: n) auto

lemma be_digits_bound: "d \<in> set (be_digits k n) \<Longrightarrow> d < 256"
  by (induction k arbitrary: n) auto

lemma be_value_snoc [simp]: "be_value (ds @ [d]) = be_value ds * 256 + d" "be_value [] = 0"
  by (simp_all add: be_value_def)

lemma be_value_digits: "be_value (be_digits k n) = n mod 256 ^ k"
proof (induction k arbitrary: n)
  case (Suc k)
  have "n mod 256 ^ Suc k = n mod 256 + 256 * (n div 256 mod 256 ^ k)" by (simp add: mod_mult2_eq)
  with Suc show ?case by simp
qed simp

lemma be_digits_value:
  "\<forall>d \<in> set ds. d < 256 \<Longrightarrow> be_digits (length ds) (be_value ds) = ds"
  by (induction ds rule: rev_induct) auto

lemma be_value_bound: "\<forall>d \<in> set ds. d < 256 \<Longrightarrow> be_value ds < 256 ^ length ds"
  by (induction ds rule: rev_induct) auto

lemma from_to_be_bytes [simp]: "from_be_bytes (to_be_bytes w) = w"
proof -
  have "map unat (to_be_bytes w) = be_digits 8 (unat w)"
    using be_digits_bound [of _ 8 "unat w"] by (auto simp: to_be_bytes_def unat_of_nat intro!: map_idI)
  moreover have "unat w < 256 ^ 8" using unsigned_less [of w] by simp
  ultimately show ?thesis by (simp add: from_be_bytes_def be_value_digits)
qed

lemma to_from_be_bytes: "length bytes = 8 \<Longrightarrow> to_be_bytes (from_be_bytes bytes) = bytes"
proof -
  assume len: "length bytes = 8"
  have "unat x < 256" for x :: u8 using unsigned_less [of x] by simp
  then have bound: "\<forall>d \<in> set (map unat bytes). d < 256" by simp
  have "be_value (map unat bytes) < 2 ^ 64" using be_value_bound [OF bound] len by simp
  then have "unat (from_be_bytes bytes) = be_value (map unat bytes)"
    by (simp add: from_be_bytes_def unat_of_nat)
  then show ?thesis
    using be_digits_value [OF bound] len by (simp add: to_be_bytes_def comp_def)
qed

lemma length_to_be_bytes [simp]: "length (to_be_bytes w) = 8"
  by (simp add: to_be_bytes_def)

text \<open>
  A packet arrives as it was sent. Decoding what a packet is encoded to gives the packet back
  when its payload is within the chunk of the tunnel, and \<open>None\<close> when it is larger; and every
  message that decodes is the encoding of what it decodes to, so that no two messages are one
  packet.
\<close>

theorem packet_roundtrip:
  "decode_packet (encode_packet p) = (if length (pk_payload p) \<le> max_tunnel_chunk_bytes then Some p else None)
   \<and> (\<forall>m q. decode_packet m = Some q \<longrightarrow> encode_packet q = m)"
proof (intro conjI allI impI)
  show "decode_packet (encode_packet p) = (if length (pk_payload p) \<le> max_tunnel_chunk_bytes then Some p else None)"
    by (simp add: decode_packet_def encode_packet_def packet_head_bytes_def)
next
  fix m q
  assume "decode_packet m = Some q"
  then obtain bytes where m: "m = BinaryMessage bytes" and len: "9 \<le> length bytes"
    and q: "q = \<lparr>pk_kind = bytes ! 0, pk_connection = from_be_bytes (take 8 (drop 1 bytes)), pk_payload = drop 9 bytes\<rparr>"
    by (auto simp: decode_packet_def packet_head_bytes_def split: message.splits if_splits)
  have "bytes = bytes ! 0 # take 8 (drop 1 bytes) @ drop 9 bytes"
  proof -
    obtain b rest where "bytes = b # rest" using len by (cases bytes) auto
    then show ?thesis by (simp add: append_take_drop_id)
  qed
  then show "encode_packet q = m"
    using len by (simp add: encode_packet_def m q to_from_be_bytes)
qed

section \<open>Publications\<close>

text \<open>
  The table of codes seen as a function: which connections hold a code. The map never keeps a
  code nobody holds, so it determines the function and is determined by it.
\<close>

definition held_by :: "('h, 'd) relay_state \<Rightarrow> ustring \<Rightarrow> code_route list" where
  "held_by s code = unwrap_or [] (bt_get (rs_codes s) code)"

lemma get_retain_codes:
  "unwrap_or [] (bt_get (retain_codes p codes) code) = filter p (unwrap_or [] (bt_get codes code))"
  by (cases "bt_get codes code") (auto simp: retain_codes_def)

lemma get_retain_codes_eq:
  "bt_get (retain_codes p codes) code =
   (if filter p (unwrap_or [] (bt_get codes code)) = [] then None else Some (filter p (unwrap_or [] (bt_get codes code))))"
  by (cases "bt_get codes code") (auto simp: retain_codes_def)

lemma held_by_remove: "held_by (remove_codes route generation s) code
    = filter (\<lambda>held. \<not> published_by route generation held) (held_by s code)"
  by (simp add: held_by_def remove_codes_def get_retain_codes)

lemma held_by_register_code:
  "held_by (register_code now route generation offered s) code =
   filter (\<lambda>held. \<not> published_by route generation held) (filter (unexpired now) (held_by s code))
   @ (if offered_code offered = Some code
      then [\<lparr>cr_route = route, cr_generation = generation, cr_expires_at = now + code_lifetime\<rparr>] else [])"
  by (simp add: held_by_def register_code_def Let_def get_retain_codes split: option.split)

section \<open>What is published\<close>

text \<open>
  The specification: the last code each registered connection published and when it expires.
\<close>

type_synonym publications = "ustring \<times> u64 \<Rightarrow> (ustring \<times> int) option"

record ('h, 'd) watched_relay =
  wr_state :: "('h, 'd) relay_state"
  wr_clock :: int
  wr_published :: publications

datatype 'h relay_event =
    Register ustring ustring 'h
  | Unregister ustring u64
  | Publish ustring u64 "u8 list"
  | LookUp ustring
  | Attempt ustring
  | OpenDevice ustring
  | CloseDevice ustring u64 u64

definition relay_watch ::
    "(ustring \<Rightarrow> u8 list) \<Rightarrow> (ustring \<Rightarrow> 'd) \<Rightarrow> int \<Rightarrow> 'h relay_event \<Rightarrow> ('h, 'd) watched_relay \<Rightarrow> ('h, 'd) watched_relay" where
  "relay_watch digest device now event w = (let s = wr_state w; w = w\<lparr>wr_clock := now\<rparr> in case event of
     Register route secret host \<Rightarrow>
       (let (s', _, r) = register digest route secret host s
        in w\<lparr>wr_state := s', wr_published := (case (r, bt_get (rs_routes s) route) of
             (Inr _, Some old) \<Rightarrow> (wr_published w)((route, lr_generation old) := None)
           | _ \<Rightarrow> wr_published w)\<rparr>)
   | Unregister route generation \<Rightarrow> w\<lparr>wr_state := fst (unregister route generation s),
       wr_published := (wr_published w)((route, generation) := None)\<rparr>
   | Publish route generation offered \<Rightarrow>
       w\<lparr>wr_state := publish_code now route generation offered s,
         wr_published := (if map_option lr_generation (bt_get (rs_routes s) route) = Some generation
           then (wr_published w)((route, generation) := map_option (\<lambda>code. (code, now + code_lifetime)) (offered_code offered))
           else wr_published w)\<rparr>
   | LookUp code \<Rightarrow> w\<lparr>wr_state := fst (route_for_code now code s)\<rparr>
   | Attempt source \<Rightarrow> w\<lparr>wr_state := fst (admit_pair_attempt now source s)\<rparr>
   | OpenDevice route \<Rightarrow> w\<lparr>wr_state := fst (open_device route (device route) s)\<rparr>
   | CloseDevice route generation connection \<Rightarrow> w\<lparr>wr_state := close_device route generation connection s\<rparr>)"

inductive relay_step ::
    "(ustring \<Rightarrow> u8 list) \<Rightarrow> (ustring \<Rightarrow> 'd) \<Rightarrow> ('h, 'd) watched_relay \<Rightarrow> ('h, 'd) watched_relay \<Rightarrow> bool"
  for digest device where
  "wr_clock w \<le> now \<Longrightarrow> relay_step digest device w (relay_watch digest device now event w)"

inductive_cases relay_stepE: "relay_step digest device w w'"

definition watched_relay_new :: "int \<Rightarrow> ('h, 'd) watched_relay" where
  "watched_relay_new start = \<lparr>wr_state = relay_default, wr_clock = start, wr_published = (\<lambda>_. None)\<rparr>"

text \<open>What the table holds was published, and holds everything published that has not expired.\<close>

definition holds_published :: "(ustring \<Rightarrow> code_route list) \<Rightarrow> int \<Rightarrow> publications \<Rightarrow> bool" where
  "holds_published held clock published \<longleftrightarrow>
     (\<forall>code. distinct (held code)
        \<and> (\<forall>h \<in> set (held code). published (cr_route h, cr_generation h) = Some (code, cr_expires_at h)))
   \<and> (\<forall>route generation code expires. published (route, generation) = Some (code, expires) \<longrightarrow> clock < expires \<longrightarrow>
        \<lparr>cr_route = route, cr_generation = generation, cr_expires_at = expires\<rparr> \<in> set (held code))"

definition routes_bounded :: "('h, 'd) relay_state \<Rightarrow> bool" where
  "routes_bounded s \<longleftrightarrow> bt_len (rs_routes s) \<le> max_routes
     \<and> (\<forall>route live. bt_get (rs_routes s) route = Some live \<longrightarrow> bt_len (lr_devices live) \<le> max_devices_per_route)
     \<and> bt_len (rs_pair_attempts s) \<le> max_pair_sources
     \<and> (\<forall>source window. bt_get (rs_pair_attempts s) source = Some window \<longrightarrow>
          aw_attempts window \<le> max_pair_attempts_per_source)"

definition watched_relay_ok :: "('h, 'd) watched_relay \<Rightarrow> bool" where
  "watched_relay_ok w \<longleftrightarrow> holds_published (held_by (wr_state w)) (wr_clock w) (wr_published w)
     \<and> routes_bounded (wr_state w)"

lemma holds_published_later:
  "holds_published held clock published \<Longrightarrow> clock \<le> now \<Longrightarrow> holds_published held now published"
  unfolding holds_published_def by (meson le_less_trans)

lemma holds_published_unexpired:
  assumes "holds_published held clock published" and "clock \<le> now"
  shows "holds_published (\<lambda>code. filter (unexpired now) (held code)) now published"
  using holds_published_later [OF assms] unfolding holds_published_def by (auto simp: unexpired_def)

lemma holds_published_withdraw:
  assumes "holds_published held clock published"
  shows "holds_published (\<lambda>code. filter (\<lambda>h. \<not> published_by route generation h) (held code)) clock
    (published((route, generation) := None))"
  using assms unfolding holds_published_def by (auto simp: published_by_def)

lemma holds_published_add:
  assumes ok: "holds_published held clock published" and fresh: "published (route, generation) = None"
    and new_def: "new = \<lparr>cr_route = route, cr_generation = generation, cr_expires_at = expires\<rparr>"
  shows "holds_published (\<lambda>c. held c @ (if Some code = Some c then [new] else [])) clock
    (published((route, generation) := Some (code, expires)))"
proof -
  have known: "published (cr_route h, cr_generation h) = Some (c, cr_expires_at h)" if "h \<in> set (held c)" for c h
    using ok that by (auto simp: holds_published_def)
  then have other: "(cr_route h, cr_generation h) \<noteq> (route, generation)" if "h \<in> set (held c)" for c h
    using fresh that by fastforce
  then have "new \<notin> set (held c)" for c by (metis new_def code_route.select_convs(1,2))
  moreover have "distinct (held c)" for c using ok by (simp add: holds_published_def)
  moreover have "\<lparr>cr_route = r, cr_generation = g, cr_expires_at = e\<rparr> \<in> set (held c)"
    if "published (r, g) = Some (c, e)" "clock < e" for r g c e
    using ok that by (auto simp: holds_published_def)
  ultimately show ?thesis
    unfolding holds_published_def using known other by (auto simp: new_def) blast+
qed

lemma holds_published_register:
  assumes "holds_published held clock published" and "clock \<le> now"
  shows "holds_published (\<lambda>c. filter (\<lambda>h. \<not> published_by route generation h) (filter (unexpired now) (held c))
      @ (if offered = Some c then [\<lparr>cr_route = route, cr_generation = generation, cr_expires_at = expires\<rparr>] else []))
    now (published((route, generation) := map_option (\<lambda>code. (code, expires)) offered))"
proof -
  have withdrawn: "holds_published (\<lambda>c. filter (\<lambda>h. \<not> published_by route generation h) (filter (unexpired now) (held c)))
      now (published((route, generation) := None))"
    by (rule holds_published_withdraw [OF holds_published_unexpired [OF assms]])
  show ?thesis
  proof (cases offered)
    case None
    with withdrawn show ?thesis by simp
  next
    case (Some code)
    with holds_published_add [OF withdrawn, of route generation _ expires code] show ?thesis by simp
  qed
qed

lemma held_by_route_for_code:
  "held_by (fst (route_for_code now offered s)) code = held_by s code
   \<or> held_by (fst (route_for_code now offered s)) code = filter (unexpired now) (held_by s code)"
  by (simp add: route_for_code_def Let_def held_by_def get_retain_codes)

lemma rs_codes_unchanged [simp]:
  "held_by (fst (admit_pair_attempt now source s)) = held_by s"
  "held_by (fst (open_device route device s)) = held_by s"
  "held_by (close_device route generation connection s) = held_by s"
  by (auto simp: fun_eq_iff held_by_def admit_pair_attempt_def open_device_def close_device_def Let_def split: option.splits)

lemma held_by_register:
  assumes "register digest route secret host s = (s', closed, r)"
  shows "held_by s' = (case (r, bt_get (rs_routes s) route) of
      (Inr _, Some old) \<Rightarrow> (\<lambda>code. filter (\<lambda>h. \<not> published_by route (lr_generation old) h) (held_by s code))
    | _ \<Rightarrow> held_by s)"
  using assms
  by (auto simp: register_def Let_def fun_eq_iff held_by_remove split: sum.splits option.splits if_splits)
    (auto simp: held_by_def remove_codes_def get_retain_codes)

lemma held_by_unregister:
  "held_by (fst (unregister route generation s)) code = filter (\<lambda>h. \<not> published_by route generation h) (held_by s code)"
  by (auto simp: unregister_def held_by_def remove_codes_def get_retain_codes split: option.splits)

lemma relay_watch_published:
  assumes "holds_published (held_by (wr_state w)) (wr_clock w) (wr_published w)" and "wr_clock w \<le> now"
  shows "holds_published (held_by (wr_state (relay_watch digest device now event w))) now
    (wr_published (relay_watch digest device now event w))"
proof -
  note later = holds_published_later [OF assms]
  show ?thesis
  proof (cases event)
    case (Register route secret host)
    obtain s' closed r where registered: "register digest route secret host (wr_state w) = (s', closed, r)"
      using prod_cases3 by blast
    show ?thesis
      using later holds_published_withdraw [OF later] held_by_register [OF registered] registered Register
      by (auto simp: relay_watch_def Let_def split: sum.splits option.splits)
  next
    case (Unregister route generation)
    have "held_by (fst (unregister route generation (wr_state w)))
        = (\<lambda>code. filter (\<lambda>h. \<not> published_by route generation h) (held_by (wr_state w) code))"
      by (rule ext) (rule held_by_unregister)
    with holds_published_withdraw [OF later] Unregister show ?thesis by (simp add: relay_watch_def)
  next
    case (Publish route generation offered)
    show ?thesis
    proof (cases "map_option lr_generation (bt_get (rs_routes (wr_state w)) route) = Some generation")
      case True
      then have "publish_code now route generation offered (wr_state w) = register_code now route generation offered (wr_state w)"
        by (auto simp: publish_code_def)
      moreover have "held_by (register_code now route generation offered (wr_state w)) = (\<lambda>c.
          filter (\<lambda>h. \<not> published_by route generation h) (filter (unexpired now) (held_by (wr_state w) c))
          @ (if offered_code offered = Some c
             then [\<lparr>cr_route = route, cr_generation = generation, cr_expires_at = now + code_lifetime\<rparr>] else []))"
        by (rule ext) (rule held_by_register_code)
      ultimately show ?thesis
        using holds_published_register [OF assms, of route generation "offered_code offered" "now + code_lifetime"]
          Publish True by (simp add: relay_watch_def del: filter_filter)
    next
      case False
      then have "publish_code now route generation offered (wr_state w) = wr_state w"
        by (auto simp: publish_code_def split: option.splits)
      with later Publish False show ?thesis by (auto simp: relay_watch_def Let_def)
    qed
  next
    case (LookUp code)
    have "held_by (fst (route_for_code now code (wr_state w))) = held_by (wr_state w)
        \<or> held_by (fst (route_for_code now code (wr_state w))) = (\<lambda>c. filter (unexpired now) (held_by (wr_state w) c))"
      by (simp add: route_for_code_def Let_def held_by_def fun_eq_iff get_retain_codes)
    with later holds_published_unexpired [OF assms] LookUp show ?thesis
      by (auto simp: relay_watch_def)
  qed (use later in \<open>simp_all add: relay_watch_def\<close>)
qed

section \<open>Bounds\<close>

lemma routes_bounded_codes [simp]: "routes_bounded (s\<lparr>rs_codes := codes\<rparr>) = routes_bounded s"
  by (simp add: routes_bounded_def)

lemma routes_bounded_remove_codes [simp]: "routes_bounded (remove_codes route generation s) = routes_bounded s"
  by (simp add: remove_codes_def)

lemma register_bounded:
  "routes_bounded s \<Longrightarrow> routes_bounded (fst (register digest route secret host s))"
  by (auto simp: register_def Let_def routes_bounded_def bt_len_insert remove_codes_def split: sum.splits option.splits if_splits)

lemma unregister_bounded: "routes_bounded s \<Longrightarrow> routes_bounded (fst (unregister route generation s))"
  by (auto simp: unregister_def routes_bounded_def bt_len_remove remove_codes_def split: option.splits if_splits)

lemma publish_bounded [simp]: "routes_bounded (publish_code now route generation offered s) = routes_bounded s"
  by (auto simp: publish_code_def register_code_def Let_def split: option.splits)

lemma look_up_bounded [simp]: "routes_bounded (fst (route_for_code now offered s)) = routes_bounded s"
  by (simp add: route_for_code_def Let_def)

lemma open_device_bounded: "routes_bounded s \<Longrightarrow> routes_bounded (fst (open_device route device s))"
  by (auto simp: open_device_def Let_def routes_bounded_def bt_len_insert split: option.splits if_splits)

lemma close_device_bounded: "routes_bounded s \<Longrightarrow> routes_bounded (close_device route generation connection s)"
  by (auto simp: close_device_def routes_bounded_def bt_len_insert bt_len_remove split: option.splits if_splits
      intro: le_trans [OF diff_le_self])

lemma admit_bounded:
  assumes "routes_bounded s"
  shows "routes_bounded (fst (admit_pair_attempt now source s))"
proof -
  let ?sources = "bt_retain (\<lambda>_ window. now - aw_opened_at window < pair_attempt_window) (rs_pair_attempts s)"
  have kept: "bt_len ?sources \<le> max_pair_sources"
    using assms bt_len_retain [of _ "rs_pair_attempts s"] by (auto simp: routes_bounded_def intro: le_trans)
  have "aw_attempts window \<le> max_pair_attempts_per_source" if "bt_get ?sources x = Some window" for x window
    using assms that by (auto simp: routes_bounded_def split: option.splits if_splits)
  moreover have "saturating_add n 1 \<le> max_pair_attempts_per_source" if "\<not> max_pair_attempts_per_source \<le> n" for n
    using that by (simp add: max_pair_attempts_per_source_def word_le_nat_alt unat_saturating_add)
  moreover have "(1 :: u32) \<le> max_pair_attempts_per_source" by (simp add: max_pair_attempts_per_source_def)
  ultimately show ?thesis
    using assms kept
    by (auto simp: admit_pair_attempt_def Let_def routes_bounded_def bt_len_insert split: option.splits if_splits)
qed

lemma relay_watch_bounded:
  assumes "routes_bounded (wr_state w)"
  shows "routes_bounded (wr_state (relay_watch digest device now event w))"
  using assms register_bounded [OF assms] unregister_bounded [OF assms] open_device_bounded [OF assms]
    close_device_bounded [OF assms] admit_bounded [OF assms]
  by (cases event) (simp_all add: relay_watch_def Let_def split_beta)

lemma wr_clock_relay_watch [simp]: "wr_clock (relay_watch digest device now event w) = now"
  by (cases event) (simp_all add: relay_watch_def Let_def split_beta)

interpretation relay_reach:
  kept_invariant "watched_relay_new start" "relay_step digest device" watched_relay_ok
  for start digest device
proof unfold_locales
  show "watched_relay_ok (watched_relay_new start)"
    by (simp add: watched_relay_ok_def watched_relay_new_def relay_default_def holds_published_def held_by_def
        routes_bounded_def)
  show "watched_relay_ok t" if "watched_relay_ok s" "relay_step digest device s t" for s t
    using that(2)
  proof (rule relay_stepE)
    fix now event
    assume "t = relay_watch digest device now event s" "wr_clock s \<le> now"
    with that(1) show ?thesis
      by (simp add: watched_relay_ok_def relay_watch_published relay_watch_bounded)
  qed
qed

section \<open>Properties of the relay\<close>

lemma distinct_singleton: "distinct xs \<Longrightarrow> xs = [h] \<longleftrightarrow> set xs = {h}"
  by (cases xs; cases "tl xs") auto

text \<open>
  C7. A code leads to the daemon that shows it, or nowhere. Whatever daemons register, reconnect,
  leave and publish, entering a code finds a route exactly when the daemon connected there
  under its present registration published that code last, less than five minutes ago, and no
  other connection's unexpired publication is the same code.
\<close>

theorem code_routes_exactly:
  assumes "reach (relay_step digest device) (watched_relay_new start) w" and "wr_clock w \<le> now"
  shows "snd (route_for_code now offered (wr_state w)) = Some (route, live) \<longleftrightarrow>
    (let code = normalize_pairing_code offered
     in utf8_len code = 8 \<and> bt_get (rs_routes (wr_state w)) route = Some live
      \<and> (\<exists>expires > now. wr_published w (route, lr_generation live) = Some (code, expires))
      \<and> (\<forall>r g expires. wr_published w (r, g) = Some (code, expires) \<and> now < expires \<longrightarrow>
           r = route \<and> g = lr_generation live))"
proof -
  define code where "code = normalize_pairing_code offered"
  define held where "held = filter (unexpired now) (held_by (wr_state w) code)"
  have "watched_relay_ok w" by (rule relay_reach.reachable_holds [OF assms(1)])
  then have "holds_published (\<lambda>c. filter (unexpired now) (held_by (wr_state w) c)) now (wr_published w)"
    using assms(2) by (auto simp: watched_relay_ok_def intro: holds_published_unexpired)
  then have distinct: "distinct held"
    and sound: "h \<in> set held \<Longrightarrow> wr_published w (cr_route h, cr_generation h) = Some (code, cr_expires_at h)"
    and complete: "wr_published w (r, g) = Some (code, e) \<Longrightarrow> now < e \<Longrightarrow>
      \<lparr>cr_route = r, cr_generation = g, cr_expires_at = e\<rparr> \<in> set held" for h r g e
    by (auto simp: holds_published_def held_def)
  have alive: "h \<in> set held \<Longrightarrow> now < cr_expires_at h" for h by (simp add: held_def unexpired_def)
  have single: "held = [h] \<longleftrightarrow> set held = {h}" for h
    using distinct by (rule distinct_singleton)
  have lookup: "snd (route_for_code now offered (wr_state w)) = Some (route, live) \<longleftrightarrow> utf8_len code = 8
      \<and> (\<exists>h. held = [h] \<and> cr_route h = route \<and> bt_get (rs_routes (wr_state w)) route = Some live
           \<and> lr_generation live = cr_generation h)"
    unfolding route_for_code_def Let_def code_def [symmetric] held_def held_by_def
    by (auto simp: get_retain_codes_eq code_characters_def bind_eq_Some_conv split: list.splits if_splits)
  show ?thesis
    unfolding lookup single Let_def code_def [symmetric]
  proof (intro iffI; elim conjE exE)
    fix h
    assume h: "set held = {h}" "cr_route h = route" "lr_generation live = cr_generation h"
      and rest: "utf8_len code = 8" "bt_get (rs_routes (wr_state w)) route = Some live"
    have "\<exists>expires > now. wr_published w (route, lr_generation live) = Some (code, expires)"
      using sound [of h] alive [of h] h by auto
    moreover have "r = route \<and> g = lr_generation live"
      if "wr_published w (r, g) = Some (code, expires)" "now < expires" for r g expires
      using complete [OF that] h by auto
    ultimately show "utf8_len code = 8 \<and> bt_get (rs_routes (wr_state w)) route = Some live
      \<and> (\<exists>expires > now. wr_published w (route, lr_generation live) = Some (code, expires))
      \<and> (\<forall>r g expires. wr_published w (r, g) = Some (code, expires) \<and> now < expires \<longrightarrow>
           r = route \<and> g = lr_generation live)" using rest by blast
  next
    fix expires
    assume published: "wr_published w (route, lr_generation live) = Some (code, expires)" "now < expires"
      and unique: "\<forall>r g expires. wr_published w (r, g) = Some (code, expires) \<and> now < expires \<longrightarrow>
           r = route \<and> g = lr_generation live"
      and rest: "utf8_len code = 8" "bt_get (rs_routes (wr_state w)) route = Some live"
    let ?h = "\<lparr>cr_route = route, cr_generation = lr_generation live, cr_expires_at = expires\<rparr>"
    have "h = ?h" if "h \<in> set held" for h
    proof -
      have "cr_route h = route" "cr_generation h = lr_generation live" "cr_expires_at h = expires"
        using sound [OF that] alive [OF that] unique published by force+
      then show ?thesis by simp
    qed
    with complete [OF published] have "set held = {?h}" by blast
    with rest show "utf8_len code = 8 \<and> (\<exists>h. set held = {h} \<and> cr_route h = route
        \<and> bt_get (rs_routes (wr_state w)) route = Some live \<and> lr_generation live = cr_generation h)"
      by (intro conjI exI [of _ ?h]) auto
  qed
qed

lemma constant_time_eq_iff: "constant_time_eq left right \<longleftrightarrow> left = right"
proof (cases "length left = length right")
  case True
  then show ?thesis by (simp add: constant_time_eq_def fold_difference zip_all_eq)
next
  case False
  then show ?thesis by (auto simp: constant_time_eq_def)
qed

text \<open>
  A route stays with the secret that registered it. In any step of the relay a registered
  route keeps the digest of its secret, and its registration changes only by someone who
  presents a secret of that digest; it ends only when the host connected under its present
  registration leaves.
\<close>

theorem route_not_taken:
  assumes "bt_get (rs_routes (wr_state w)) route = Some live"
  shows "(case bt_get (rs_routes (wr_state (relay_watch digest device now event w))) route of
      None \<Rightarrow> event = Unregister route (lr_generation live)
    | Some live' \<Rightarrow> lr_secret_digest live' = lr_secret_digest live
        \<and> (lr_generation live' = lr_generation live \<or>
           (\<exists>secret host. event = Register route secret host \<and> digest secret = lr_secret_digest live)))"
proof (cases event)
  case (Register route' secret host)
  with assms show ?thesis
    by (auto simp: relay_watch_def Let_def register_def remove_codes_def constant_time_eq_iff
        split: sum.splits option.splits if_splits)
next
  case (Unregister route' generation)
  with assms show ?thesis
    by (auto simp: relay_watch_def Let_def unregister_def remove_codes_def split: option.splits if_splits)
next
  case (Publish route' generation offered)
  with assms show ?thesis
    by (auto simp: relay_watch_def Let_def publish_code_def register_code_def split: option.splits if_splits)
next
  case (LookUp code)
  with assms show ?thesis by (simp add: relay_watch_def Let_def route_for_code_def)
next
  case (Attempt source)
  with assms show ?thesis
    by (auto simp: relay_watch_def Let_def admit_pair_attempt_def split: option.splits)
next
  case (OpenDevice route')
  with assms show ?thesis
    by (auto simp: relay_watch_def Let_def open_device_def split: option.splits if_splits)
next
  case (CloseDevice route' generation connection)
  with assms show ?thesis
    by (auto simp: relay_watch_def Let_def close_device_def split: option.splits if_splits)
qed

section \<open>Attempts\<close>

fun admissions :: "ustring \<Rightarrow> int list \<Rightarrow> ('h, 'd) relay_state \<Rightarrow> nat" where
  "admissions source [] s = 0"
| "admissions source (now # instants) s =
     (let (s, admitted) = admit_pair_attempt now source s in of_bool admitted + admissions source instants s)"

lemma admissions_in_window:
  assumes "bt_get (rs_pair_attempts s) source = Some window" and "aw_attempts window \<le> 10"
    and "\<And>t. t \<in> set instants \<Longrightarrow> t - aw_opened_at window < pair_attempt_window"
  shows "admissions source instants s + unat (aw_attempts window) \<le> 10"
  using assms
proof (induction instants arbitrary: s window)
  case Nil
  then show ?case by (simp add: word_le_nat_alt)
next
  case (Cons now instants)
  let ?next = "window\<lparr>aw_attempts := saturating_add (aw_attempts window) 1\<rparr>"
  obtain s' admitted where step: "admit_pair_attempt now source s = (s', admitted)" by fastforce
  have kept: "now - aw_opened_at window < pair_attempt_window" using Cons.prems(3) by simp
  show ?case
  proof (cases "max_pair_attempts_per_source \<le> aw_attempts window")
    case True
    with step kept Cons.prems(1) have "\<not> admitted" "bt_get (rs_pair_attempts s') source = Some window"
      by (auto simp: admit_pair_attempt_def Let_def)
    with step Cons.IH [of s' window] Cons.prems show ?thesis by simp
  next
    case False
    with step kept Cons.prems(1) have admitted: "admitted" "bt_get (rs_pair_attempts s') source = Some ?next"
      by (auto simp: admit_pair_attempt_def Let_def)
    have "unat (aw_attempts ?next) = unat (aw_attempts window) + 1" "aw_attempts ?next \<le> 10"
      using False by (simp_all add: max_pair_attempts_per_source_def word_le_nat_alt unat_saturating_add)
    with step admitted Cons.IH [of s' ?next] Cons.prems(3) show ?thesis by simp
  qed
qed

text \<open>
  Nobody guesses codes at speed. From any reachable state, of all the attempts one source
  makes within ten minutes, beginning when it has no attempts on record, at most ten are
  admitted, however many it makes; and the table of sources is bounded.
\<close>

theorem attempts_limited:
  assumes "reach (relay_step digest device) (watched_relay_new start) w"
    and "bt_get (rs_pair_attempts (wr_state w)) source = None"
    and "\<forall>s \<in> set instants. \<forall>t \<in> set instants. t - s < pair_attempt_window"
  shows "admissions source instants (wr_state w) \<le> 10 \<and> bt_len (rs_pair_attempts (wr_state w)) \<le> 4096"
proof -
  have "admissions source instants s \<le> 10" if "bt_get (rs_pair_attempts s) source = None" for s :: "('a, 'b) relay_state"
    using that assms(3)
  proof (induction instants arbitrary: s)
    case (Cons now instants)
    obtain s' admitted where step: "admit_pair_attempt now source s = (s', admitted)" by fastforce
    show ?case
    proof (cases admitted)
      case False
      then have "bt_get (rs_pair_attempts s') source = None"
        using step Cons.prems(1) by (auto simp: admit_pair_attempt_def Let_def split: if_splits)
      with step False Cons.IH [of s'] Cons.prems(2) show ?thesis by simp
    next
      case True
      let ?window = "\<lparr>aw_opened_at = now, aw_attempts = 1\<rparr>"
      have "bt_get (rs_pair_attempts s') source = Some ?window"
        using step Cons.prems(1) True by (auto simp: admit_pair_attempt_def Let_def split: if_splits)
      then have "admissions source instants s' + unat (aw_attempts ?window) \<le> 10"
        using Cons.prems(2) by (intro admissions_in_window) auto
      with step True show ?thesis by simp
    qed
  qed simp
  moreover have "watched_relay_ok w" by (rule relay_reach.reachable_holds [OF assms(1)])
  ultimately show ?thesis
    using assms(2) by (simp add: watched_relay_ok_def routes_bounded_def max_pair_sources_def)
qed

section \<open>Requests of devices\<close>

text \<open>
  The head of a device's request, rewritten for the daemon: the target below the route becomes
  the daemon's own, and a header says that the request came over \<open>https\<close>.
\<close>

definition max_http_head_bytes :: nat where "max_http_head_bytes = 16 * 1024"

definition forwarded_header :: ustring where
  "forwarded_header = lit ''X-Forwarded-Proto: https'' @ [13, 10]"

definition insert_before_last_two :: "'a list \<Rightarrow> 'a list \<Rightarrow> 'a list option" where
  "insert_before_last_two extra xs = (if length xs < 2 then None
     else Some (take (length xs - 2) xs @ extra @ drop (length xs - 2) xs))"

definition rewrite_request_target :: "u8 list \<Rightarrow> ustring \<Rightarrow> u8 list option" where
  "rewrite_request_target head local_target =
     Option.bind (from_utf8 head) (\<lambda>text.
       if 10 \<notin> set text then None
       else let first = takeWhile (\<lambda>c. c \<noteq> 10) text @ [10]; rest = drop (length first) text
         in case split_whitespace first of
              method # _ # version # _ \<Rightarrow>
                Option.bind (insert_before_last_two (utf8_bytes forwarded_header)
                    (utf8_bytes (method @ [32] @ local_target @ [32] @ version @ [13, 10]) @ utf8_bytes rest))
                  (\<lambda>rewritten. if length rewritten \<le> max_http_head_bytes then Some rewritten else None)
            | _ \<Rightarrow> None)"

definition device_path :: ustring where
  "device_path = lit ''/r/''"

definition split_at :: "uchar \<Rightarrow> ustring \<Rightarrow> (ustring \<times> ustring) option" where
  "split_at c s = (if c \<in> set s then Some (takeWhile (\<lambda>x. x \<noteq> c) s, tl (dropWhile (\<lambda>x. x \<noteq> c) s)) else None)"

definition rewrite_device_request :: "u8 list \<Rightarrow> ustring \<Rightarrow> (ustring \<times> u8 list) option" where
  "rewrite_device_request head path =
     (if take (length device_path) path \<noteq> device_path then None
      else let rest = drop (length device_path) path;
               (route, suffix) = unwrap_or (rest, []) (split_at 47 rest);
               route = takeWhile (\<lambda>c. c \<noteq> 63) route
        in if ensure_route route \<noteq> Inr () then None
           else let query = map_option snd (split_at 63 path);
                    local_path = (if suffix = [] then [47] else 47 # suffix);
                    local_target = (case query of
                      Some query \<Rightarrow> if 63 \<in> set local_path then local_path else local_path @ 63 # query
                    | None \<Rightarrow> local_path)
             in map_option (\<lambda>rewritten. (route, rewritten)) (rewrite_request_target head local_target))"

lemma insert_before_last_two_append: "length b = 2 \<Longrightarrow> insert_before_last_two extra (a @ b) = Some (a @ extra @ b)"
  by (simp add: insert_before_last_two_def)

lemma rewrite_request_target_text:
  assumes scalar: "\<forall>c \<in> set (line @ 10 # rest @ [x, y]). is_scalar c" and line: "10 \<notin> set line"
    and words: "split_whitespace (line @ [10]) = method # target # version # others"
    and ascii: "x < 128" "y < 128"
    and size: "utf8_len (method @ [32] @ local_target @ [32] @ version @ [13, 10] @ rest @ forwarded_header @ [x, y])
      \<le> max_http_head_bytes"
  shows "rewrite_request_target (utf8_bytes (line @ 10 # rest @ [x, y])) local_target =
    Some (utf8_bytes (method @ [32] @ local_target @ [32] @ version @ [13, 10] @ rest @ forwarded_header @ [x, y]))"
proof -
  have "takeWhile (\<lambda>c. c \<noteq> 10) (line @ 10 # rest @ [x, y]) = line" using line by (induction line) auto
  moreover have "length (utf8_bytes [x, y]) = 2" using ascii by (simp add: utf8_char_def utf8_codes_def)
  ultimately show ?thesis
    using from_utf8_bytes [OF scalar] words size insert_before_last_two_append [of "utf8_bytes [x, y]" "utf8_bytes forwarded_header"
        "utf8_bytes (method @ [32] @ local_target @ [32] @ version @ [13, 10] @ rest)"]
    by (simp add: rewrite_request_target_def Let_def length_utf8_bytes [symmetric])
qed

text \<open>
  A head whose lines end in bare line feeds is accepted as well, but there the header is joined
  to the last line of the head, which loses both.
\<close>

lemma bare_newlines_glued:
  assumes "\<forall>c \<in> set (line @ 10 # headers @ [10, 10]). is_scalar c" and "10 \<notin> set line"
    and "split_whitespace (line @ [10]) = method # target # version # others"
    and "utf8_len (method @ [32] @ local_target @ [32] @ version @ [13, 10] @ headers @ forwarded_header @ [10, 10])
      \<le> max_http_head_bytes"
  shows "rewrite_request_target (utf8_bytes (line @ 10 # headers @ [10, 10])) local_target =
    Some (utf8_bytes (method @ [32] @ local_target @ [32] @ version @ [13, 10]
      @ headers @ lit ''X-Forwarded-Proto: https'' @ [13, 10, 10, 10]))"
  using rewrite_request_target_text [OF assms(1-3) _ _ assms(4)] by (simp add: forwarded_header_def)

section \<open>Witnesses\<close>

theorem packet_roundtrip_witness:
  "decode_packet (encode_packet \<lparr>pk_kind = OPEN, pk_connection = 258, pk_payload = [7]\<rparr>)
   = Some \<lparr>pk_kind = OPEN, pk_connection = 258, pk_payload = [7]\<rparr>"
  using packet_roundtrip [of "\<lparr>pk_kind = OPEN, pk_connection = 258, pk_payload = [7]\<rparr>"]
  by (simp add: max_tunnel_chunk_bytes_def)

definition some_route :: ustring where "some_route = replicate 32 48"
definition some_secret :: ustring where "some_secret = replicate 64 49"
definition some_code :: "u8 list" where "some_code = [65, 66, 67, 68, 45, 69, 70, 71, 72]"

definition one_host :: "(unit, unit) watched_relay" where
  "one_host = relay_watch (\<lambda>_. []) (\<lambda>_. ()) 2 (Publish some_route 0 some_code)
     (relay_watch (\<lambda>_. []) (\<lambda>_. ()) 1 (Register some_route some_secret ()) (watched_relay_new 0))"

lemma reach_relay_watch:
  "reach (relay_step digest device) w0 w \<Longrightarrow> wr_clock w \<le> now \<Longrightarrow>
   reach (relay_step digest device) w0 (relay_watch digest device now event w)"
  by (auto intro: reach_step relay_step.intros)

lemma one_host_reached: "reach (relay_step (\<lambda>_. []) (\<lambda>_. ())) (watched_relay_new 0) one_host"
  unfolding one_host_def by (intro reach_relay_watch reach_start) (simp_all add: watched_relay_new_def)

theorem code_routes_exactly_witness:
  "\<exists>live. snd (route_for_code 3 (lit ''abcd-efgh'') (wr_state one_host)) = Some (some_route, live)
     \<and> wr_published one_host (some_route, lr_generation live) = Some (lit ''ABCDEFGH'', 2 + code_lifetime)"
proof -
  have "map_option fst (snd (route_for_code 3 (lit ''abcd-efgh'') (wr_state one_host))) = Some some_route"
    by code_simp
  then obtain live where live: "snd (route_for_code 3 (lit ''abcd-efgh'') (wr_state one_host)) = Some (some_route, live)"
    by auto
  moreover have "wr_clock one_host \<le> 3" by (simp add: one_host_def)
  ultimately obtain expires where "wr_published one_host (some_route, lr_generation live)
      = Some (normalize_pairing_code (lit ''abcd-efgh''), expires)"
    using code_routes_exactly [OF one_host_reached, of 3 "lit ''abcd-efgh''" some_route live] by (auto simp: Let_def)
  moreover have "wr_published one_host (some_route, 0) = Some (lit ''ABCDEFGH'', 2 + code_lifetime)"
    by code_simp
  moreover have "map_option (lr_generation \<circ> snd) (snd (route_for_code 3 (lit ''abcd-efgh'') (wr_state one_host))) = Some 0"
    by code_simp
  ultimately show ?thesis using live by auto
qed

theorem route_not_taken_witness:
  "bt_get (rs_routes (wr_state (relay_watch (\<lambda>_. []) (\<lambda>_. ()) 3 (LookUp []) one_host))) some_route \<noteq> None"
proof -
  have "bt_get (rs_routes (wr_state one_host)) some_route \<noteq> None" by code_simp
  then obtain live where "bt_get (rs_routes (wr_state one_host)) some_route = Some live" by blast
  from route_not_taken [OF this, where digest = "\<lambda>_. []" and device = "\<lambda>_. ()" and now = 3 and event = "LookUp []"] show ?thesis
    by (auto split: option.splits)
qed

theorem attempts_limited_witness:
  "admissions (lit ''direct'') (replicate 12 3) (wr_state one_host) \<le> 10"
proof -
  have "bt_get (rs_pair_attempts (wr_state one_host)) (lit ''direct'') = None" by code_simp
  then show ?thesis
    using attempts_limited [OF one_host_reached, of "lit ''direct''" "replicate 12 3"]
    by (simp add: pair_attempt_window_def)
qed

end
