(* ===== verification/Capped.thy ===== *)
theory Capped
  imports Ordered_Map
begin

text \<open>
  Maps that keep a bounded number of entries by forgetting the oldest: the entry with the least
  time, and the least key of those. The loop removes one entry at a time.
\<close>

definition oldest_by :: "('v \<Rightarrow> 't::linorder) \<Rightarrow> ('k::linorder, 'v) btmap \<Rightarrow> 'k option" where
  "oldest_by time m =
     (case map (\<lambda>e. (time (snd e), fst e)) (bt_entries m) of
        [] \<Rightarrow> None
      | k # ks \<Rightarrow> Some (snd (fold min ks k)))"

lemma oldest_by_SomeD:
  assumes "oldest_by time m = Some k"
  shows "\<exists>v. bt_get m k = Some v \<and> (\<forall>k' v'. bt_get m k' = Some v' \<longrightarrow> (time v, k) \<le> (time v', k'))"
proof -
  let ?key = "\<lambda>e. (time (snd e), fst e)"
  obtain x xs where xs: "map ?key (bt_entries m) = x # xs" and k: "k = snd (fold min xs x)"
    using assms by (auto simp: oldest_by_def split: list.splits)
  have "fold min xs x \<in> ?key ` set (bt_entries m)"
    using fold_min_in [of xs x] unfolding xs [symmetric] set_map .
  then obtain e where e: "e \<in> set (bt_entries m)" "fold min xs x = ?key e" by blast
  then have v: "bt_get m k = Some (snd e)" "fold min xs x = (time (snd e), k)"
    using k by (auto simp flip: bt_entries_get)
  have "(time (snd e), k) \<le> (time v', k')" if "bt_get m k' = Some v'" for k' v'
    unfolding v(2) [symmetric]
  proof (rule fold_min_le)
    have "?key (k', v') \<in> set (map ?key (bt_entries m))"
      unfolding set_map by (rule imageI) (simp add: bt_entries_get that)
    then show "(time v', k') \<in> set (x # xs)" by (simp add: xs)
  qed
  with v(1) show ?thesis by blast
qed

lemma oldest_by_None: "oldest_by time m = None \<longleftrightarrow> bt_len m = 0"
  by (auto simp: oldest_by_def bt_len_def split: list.split)

lemma bt_len_remove_less:
  assumes "bt_get m k = Some v"
  shows "bt_len (bt_remove k m) < bt_len m"
proof -
  have "bt_len m \<noteq> 0" using assms by (auto simp: bt_len_card)
  with assms show ?thesis by (simp add: bt_len_remove)
qed

lemma oldest_by_removes: "oldest_by time m = Some k \<Longrightarrow> bt_len (bt_remove k m) < bt_len m"
  by (drule oldest_by_SomeD) (auto intro: bt_len_remove_less)

function evict :: "('v \<Rightarrow> 't::linorder) \<Rightarrow> nat \<Rightarrow> ('k::linorder, 'v) btmap \<Rightarrow> ('k, 'v) btmap" where
  "evict time cap m =
     (if cap < bt_len m
      then (case oldest_by time m of None \<Rightarrow> m | Some oldest \<Rightarrow> evict time cap (bt_remove oldest m))
      else m)"
  by pat_completeness auto
termination
  by (relation "measure (\<lambda>(time, cap, m). bt_len m)") (auto intro: oldest_by_removes)

declare evict.simps [simp del]

lemma evict_bounded: "bt_len (evict time cap m) \<le> cap"
proof (induction time cap m rule: evict.induct)
  case (1 time cap m)
  then show ?case by (subst evict.simps) (auto simp: oldest_by_None split: option.split)
qed

lemma evict_id: "bt_len m \<le> cap \<Longrightarrow> evict time cap m = m"
  by (subst evict.simps) simp

lemma evict_subset: "bt_get (evict time cap m) k = Some v \<Longrightarrow> bt_get m k = Some v"
proof (induction time cap m rule: evict.induct)
  case (1 time cap m)
  then show ?case by (subst (asm) evict.simps) (auto split: if_splits option.splits)
qed

text \<open>One entry over the bound costs exactly the oldest.\<close>

lemma evict_one_over:
  assumes "bt_len m = Suc cap"
  obtains oldest where "oldest_by time m = Some oldest" "evict time cap m = bt_remove oldest m"
proof -
  obtain oldest where oldest: "oldest_by time m = Some oldest"
    using assms oldest_by_None [of time m] by fastforce
  then have "bt_len (bt_remove oldest m) \<le> cap" using oldest_by_removes [OF oldest] assms by simp
  then have "evict time cap m = bt_remove oldest m"
    using oldest assms by (subst evict.simps) (simp add: evict_id)
  with oldest that show ?thesis by blast
qed

text \<open>What is inserted later than everything else stays.\<close>

lemma evict_insert_latest:
  assumes "bt_len m \<le> cap" and "0 < cap" and "\<And>k' v'. bt_get m k' = Some v' \<Longrightarrow> k' \<noteq> k \<Longrightarrow> time v' < time v"
  shows "bt_get (evict time cap (bt_insert k v m)) k = Some v"
proof (cases "bt_len (bt_insert k v m) \<le> cap")
  case True
  then show ?thesis by (simp add: evict_id)
next
  case False
  then have over: "bt_len (bt_insert k v m) = Suc cap" using assms(1) by (simp add: bt_len_insert split: if_splits)
  then obtain oldest where oldest: "oldest_by time (bt_insert k v m) = Some oldest"
    "evict time cap (bt_insert k v m) = bt_remove oldest (bt_insert k v m)" by (rule evict_one_over)
  obtain k' where k': "k' \<noteq> k" "bt_get m k' \<noteq> None"
  proof -
    have "bt_get m k = None" "bt_len m = cap"
      using over assms(1) by (auto simp: bt_len_insert split: if_splits)
    then have "{k'. bt_get m k' \<noteq> None} \<noteq> {}" using assms(2) by (metis bt_len_card card.empty less_numeral_extra(3))
    then obtain k' where "bt_get m k' \<noteq> None" by blast
    then show ?thesis using that [of k'] \<open>bt_get m k = None\<close> by metis
  qed
  then obtain v' where "bt_get m k' = Some v'" by blast
  then have "\<not> (time v, k) \<le> (time v', k')" using assms(3) [of k' v'] k'(1) by (auto simp: less_eq_prod_def)
  moreover have "(time v, k) \<le> (time v', k')" if "oldest = k"
    using oldest_by_SomeD [OF oldest(1)] that \<open>bt_get m k' = Some v'\<close> k'(1) by auto
  ultimately have "oldest \<noteq> k" by blast
  then show ?thesis by (simp add: oldest(2))
qed

end
