(* ===== verification/Std_Text.thy ===== *)
theory Std_Text
  imports Pairing
begin

text \<open>
  More of the standard library's text functions: lossy decoding, where every maximal invalid
  sequence becomes one replacement character, numbers, prefixes and searching.
\<close>

section \<open>Lossy decoding\<close>

definition second_of_three :: "nat \<Rightarrow> nat \<Rightarrow> bool" where
  "second_of_three a b \<longleftrightarrow> is_continuation b \<and> (a = 224 \<longrightarrow> 160 \<le> b) \<and> (a = 237 \<longrightarrow> b < 160)"

definition second_of_four :: "nat \<Rightarrow> nat \<Rightarrow> bool" where
  "second_of_four a b \<longleftrightarrow> is_continuation b \<and> (a = 240 \<longrightarrow> 144 \<le> b) \<and> (a = 244 \<longrightarrow> b < 144)"

text \<open>One character or one replacement, and what is left.\<close>

definition lossy_char :: "nat \<Rightarrow> nat list \<Rightarrow> uchar \<times> nat list" where
  "lossy_char a rest =
     (if a < 128 then (a, rest)
      else if 194 \<le> a \<and> a < 224 then
        (case rest of b # ys \<Rightarrow> if is_continuation b then ((a - 192) * 64 + (b - 128), ys) else (65533, rest)
         | [] \<Rightarrow> (65533, rest))
      else if 224 \<le> a \<and> a < 240 then
        (case rest of b # ys \<Rightarrow> if second_of_three a b
           then (case ys of c # ys' \<Rightarrow> if is_continuation c
               then ((a - 224) * 4096 + (b - 128) * 64 + (c - 128), ys') else (65533, ys)
             | [] \<Rightarrow> (65533, ys))
           else (65533, rest)
         | [] \<Rightarrow> (65533, rest))
      else if 240 \<le> a \<and> a < 245 then
        (case rest of b # ys \<Rightarrow> if second_of_four a b
           then (case ys of c # ys' \<Rightarrow> if is_continuation c
               then (case ys' of d # ys'' \<Rightarrow> if is_continuation d
                   then ((a - 240) * 262144 + (b - 128) * 4096 + (c - 128) * 64 + (d - 128), ys'') else (65533, ys')
                 | [] \<Rightarrow> (65533, ys'))
               else (65533, ys)
             | [] \<Rightarrow> (65533, ys))
           else (65533, rest)
         | [] \<Rightarrow> (65533, rest))
      else (65533, rest))"

lemma lossy_char_shorter: "length (snd (lossy_char a rest)) \<le> length rest"
  by (auto simp: lossy_char_def split: list.splits)

function decode_lossy :: "nat list \<Rightarrow> ustring" where
  "decode_lossy [] = []"
| "decode_lossy (a # rest) = (case lossy_char a rest of (c, rest') \<Rightarrow> c # decode_lossy rest')"
  by pat_completeness auto
termination
  by (relation "measure length") (auto, metis le_imp_less_Suc lossy_char_shorter snd_conv)

declare decode_lossy.simps(2) [simp del]

definition from_utf8_lossy :: "u8 list \<Rightarrow> ustring" where
  "from_utf8_lossy bytes = decode_lossy (map unat bytes)"

lemma lossy_char_encoded:
  assumes "is_scalar c"
  shows "\<exists>a codes. utf8_codes c = a # codes \<and> lossy_char a (codes @ rest) = (c, rest)"
proof -
  have two: "lossy_char (192 + c div 64) ([128 + c mod 64] @ rest) = (c, rest)" if "128 \<le> c" "c < 2048"
    using that by (auto simp: lossy_char_def is_continuation_def)
  have three: "lossy_char (224 + c div 4096) ([128 + c div 64 mod 64, 128 + c mod 64] @ rest) = (c, rest)"
    if "2048 \<le> c" "c < 65536"
  proof -
    define q where "q = c div 64"
    have q: "32 \<le> q" "c div 4096 = q div 64" using that by (auto simp: q_def sixty_fours less_eq_div_iff_mult_less_eq)
    have "q mod 64 < 32" if "q div 64 = 13"
    proof -
      have "q \<le> 863 \<or> 896 \<le> q" using assms by (auto simp: is_scalar_def q_def)
      moreover have "q = 832 + q mod 64" using that div_mult_mod_eq [of q 64] by linarith
      moreover have "q mod 64 < 64" by simp
      ultimately show ?thesis by linarith
    qed
    moreover have "32 \<le> q mod 64" if "q div 64 = 0" using q(1) that div_mult_mod_eq [of q 64] by linarith
    ultimately have "second_of_three (224 + c div 4096) (128 + c div 64 mod 64)"
      by (auto simp: second_of_three_def is_continuation_def q(2) q_def [symmetric])
    moreover have "c div 4096 * 4096 + c div 64 mod 64 * 64 + c mod 64 = c"
      using base_64 [of c] by (simp add: sixty_fours)
    moreover have "c div 4096 < 16" using that by (simp add: div_less_iff_less_mult)
    ultimately show ?thesis by (simp add: lossy_char_def is_continuation_def)
  qed
  have four: "lossy_char (240 + c div 262144) ([128 + c div 4096 mod 64, 128 + c div 64 mod 64, 128 + c mod 64] @ rest) = (c, rest)"
    if "65536 \<le> c"
  proof -
    have top: "c < 1114112" using that assms by (simp add: is_scalar_def)
    then have small: "c div 262144 < 5" by (simp add: div_less_iff_less_mult)
    define r where "r = c div 4096"
    have r: "16 \<le> r" "r < 272" "c div 262144 = r div 64"
      using that top by (auto simp: r_def div_mult2_eq [symmetric] less_eq_div_iff_mult_less_eq div_less_iff_less_mult)
    then have "16 \<le> r mod 64" if "r div 64 = 0" using that div_mult_mod_eq [of r 64] by linarith
    moreover have "r mod 64 < 16" if "r div 64 = 4" using r(2) that div_mult_mod_eq [of r 64] by linarith
    ultimately have "second_of_four (240 + c div 262144) (128 + c div 4096 mod 64)"
      by (auto simp: second_of_four_def is_continuation_def r(3) r_def [symmetric])
    moreover have "c div 262144 * 262144 + c div 4096 mod 64 * 4096 + c div 64 mod 64 * 64 + c mod 64 = c"
      using base_64' [of c] by (simp add: sixty_fours)
    ultimately show ?thesis using small by (simp add: lossy_char_def is_continuation_def)
  qed
  consider "c < 128" | "128 \<le> c \<and> c < 2048" | "2048 \<le> c \<and> c < 65536" | "65536 \<le> c" by linarith
  then show ?thesis
    by cases (use two three four in \<open>auto simp: utf8_codes_def lossy_char_def [of c]\<close>)
qed

lemma from_utf8_lossy_bytes: "\<forall>c \<in> set s. is_scalar c \<Longrightarrow> from_utf8_lossy (utf8_bytes s) = s"
proof (induction s)
  case (Cons c s)
  then obtain a codes where "utf8_codes c = a # codes"
    "lossy_char a (codes @ map unat (utf8_bytes s)) = (c, map unat (utf8_bytes s))"
    using lossy_char_encoded by (metis list.set_intros(1))
  with Cons show ?case by (simp add: from_utf8_lossy_def unat_utf8_char decode_lossy.simps(2))
qed (simp add: from_utf8_lossy_def)

lemma newline_char: "is_scalar c \<Longrightarrow> 10 \<in> set (utf8_char c) \<longleftrightarrow> c = 10"
proof -
  assume scalar: "is_scalar c"
  have "(10 = x) = (10 = unat x)" for x :: u8 by (simp add: word_unat_eq_iff)
  then have "10 \<in> set xs \<longleftrightarrow> 10 \<in> set (map unat xs)" for xs :: "u8 list" by (induction xs) simp_all
  then have "10 \<in> set (utf8_char c) \<longleftrightarrow> 10 \<in> set (utf8_codes c)" using unat_utf8_char [OF scalar] by metis
  then show ?thesis by (auto simp: utf8_codes_def)
qed

section \<open>Numbers, prefixes and searching\<close>

text \<open>\<open>str::parse\<close> of an unsigned number: an optional plus and at least one digit, within the type.\<close>

definition parse_digits :: "ustring \<Rightarrow> nat option" where
  "parse_digits s = (if s = [] \<or> (\<exists>c \<in> set s. \<not> is_ascii_digit c) then None
     else Some (foldl (\<lambda>n c. n * 10 + (c - 48)) 0 s))"

definition parse_unsigned :: "ustring \<Rightarrow> 'a::len word option" where
  "parse_unsigned s =
     (case parse_digits (case s of c # rest \<Rightarrow> if c = 43 \<and> rest \<noteq> [] then rest else s | [] \<Rightarrow> s) of
        None \<Rightarrow> None
      | Some n \<Rightarrow> if n < 2 ^ LENGTH('a) then Some (of_nat n) else None)"

definition strip_prefix :: "'a list \<Rightarrow> 'a list \<Rightarrow> 'a list option" where
  "strip_prefix p s = (if take (length p) s = p then Some (drop (length p) s) else None)"

definition starts_with :: "'a list \<Rightarrow> 'a list \<Rightarrow> bool" where
  "starts_with p s \<longleftrightarrow> take (length p) s = p"

text \<open>\<open>str::find\<close>, with what follows the first occurrence.\<close>

fun after_str :: "ustring \<Rightarrow> ustring \<Rightarrow> ustring option" where
  "after_str part [] = (if part = [] then Some [] else None)"
| "after_str part (c # cs) = (case strip_prefix part (c # cs) of Some rest \<Rightarrow> Some rest | None \<Rightarrow> after_str part cs)"

definition eq_ignore_ascii_case :: "ustring \<Rightarrow> ustring \<Rightarrow> bool" where
  "eq_ignore_ascii_case a b \<longleftrightarrow> to_ascii_lowercase a = to_ascii_lowercase b"

definition is_ascii_whitespace :: "nat \<Rightarrow> bool" where
  "is_ascii_whitespace b \<longleftrightarrow> b \<in> {32, 9, 10, 12, 13}"

text \<open>\<open><[u8]>::trim_ascii\<close>.\<close>

definition trim_ascii :: "u8 list \<Rightarrow> u8 list" where
  "trim_ascii bytes = rev (dropWhile (is_ascii_whitespace \<circ> unat) (rev (dropWhile (is_ascii_whitespace \<circ> unat) bytes)))"

fun find_map :: "('a \<Rightarrow> 'b option) \<Rightarrow> 'a list \<Rightarrow> 'b option" where
  "find_map f [] = None"
| "find_map f (x # xs) = (case f x of Some y \<Rightarrow> Some y | None \<Rightarrow> find_map f xs)"

lemma strip_prefix_append [simp]: "strip_prefix p (p @ s) = Some s"
  by (simp add: strip_prefix_def)

lemma strip_prefix_Some: "strip_prefix p s = Some rest \<longleftrightarrow> s = p @ rest"
  by (auto simp: strip_prefix_def) (metis append_take_drop_id)

lemma find_map_append: "find_map f (xs @ ys) = (case find_map f xs of Some y \<Rightarrow> Some y | None \<Rightarrow> find_map f ys)"
  by (induction xs) (auto split: option.splits)

lemma find_map_None: "find_map f xs = None \<longleftrightarrow> (\<forall>x \<in> set xs. f x = None)"
  by (induction xs) (auto split: option.splits)

lemma split_on_append: "\<forall>c \<in> set a. \<not> p c \<Longrightarrow> p x \<Longrightarrow> split_on p (a @ x # s) = a # split_on p s"
  by (induction a) auto

lemma split_on_single: "split_on p s = [part] \<Longrightarrow> s = part"
  by (induction s arbitrary: part) (auto split: if_splits list.splits)

lemma split_on_after: "p x \<Longrightarrow> split_on p (a @ x # s) = split_on p a @ split_on p s"
  by (induction a) (auto split: list.splits simp: Cons_eq_append_conv)

lemma split_once_char: "x \<notin> set a \<Longrightarrow> split_once [x] (a @ x # b) = Some (a, b)"
  by (induction a) (auto simp: split_once.simps)

lemma split_once_absent: "x \<notin> set s \<Longrightarrow> split_once [x] s = None"
  by (induction s) (auto simp: split_once.simps)

section \<open>Hexadecimal digits\<close>

text \<open>\<open>char::is_ascii_hexdigit\<close>.\<close>

definition is_hexdigit :: "uchar \<Rightarrow> bool" where
  "is_hexdigit c \<longleftrightarrow> (48 \<le> c \<and> c \<le> 57) \<or> (65 \<le> c \<and> c \<le> 70) \<or> (97 \<le> c \<and> c \<le> 102)"

lemma byte_halves: "unat (b :: u8) div 16 < 16" "unat (b :: u8) mod 16 < 16"
  using unsigned_less [where ?'a = nat, of b] by (simp_all add: div_less_iff_less_mult)

lemma hex_chars: "\<forall>c \<in> set (hex bytes). is_hexdigit c"
proof -
  have "n < 16 \<Longrightarrow> is_hexdigit (hex_digit n)" for n by (auto simp: hex_digit_def is_hexdigit_def)
  then show ?thesis by (auto simp: hex_def byte_halves)
qed

lemma length_hex: "length (hex bytes) = 2 * length bytes"
  by (induction bytes) (simp_all add: hex_def)

lemma hex_lowercase: "to_ascii_lowercase (hex bytes) = hex bytes"
proof -
  have "n < 16 \<Longrightarrow> ascii_lower (hex_digit n) = hex_digit n" for n by (auto simp: hex_digit_def ascii_lower_def)
  then show ?thesis by (induction bytes) (auto simp: hex_def to_ascii_lowercase_def byte_halves)
qed

lemma utf8_len_ascii: "\<forall>c \<in> set s. c < 128 \<Longrightarrow> utf8_len s = length s"
  by (induction s) (auto simp: utf8_len_def utf8_width_def)

text \<open>A number that was shown is read back, when the type has room for it.\<close>

lemma parse_digits_show: "parse_digits (show_nat n) = Some n"
proof -
  have digit: "c \<in> set (show_nat n) \<Longrightarrow> is_ascii_digit c \<and> unwrap_or 0 (to_digit 10 c) = c - 48" for c n
    using show_nat_digits by (fastforce simp: is_ascii_digit_def to_digit_def)
  have "foldl (\<lambda>m c. m * 10 + (c - 48)) 0 (show_nat n) = foldl (\<lambda>acc c. acc * 10 + unwrap_or 0 (to_digit 10 c)) 0 (show_nat n)"
    by (rule foldl_cong) (auto simp: digit)
  with show_nat_value [of n] digit [of _ n] show ?thesis by (auto simp: parse_digits_def)
qed

lemma parse_unsigned_show:
  "parse_unsigned (show_nat n) = (if n < 2 ^ LENGTH('a::len) then Some (of_nat n :: 'a word) else None)"
proof -
  obtain c cs where shown: "show_nat n = c # cs" by (cases "show_nat n") auto
  then have "c \<noteq> 43" using show_nat_digits [of c n] by auto
  then show ?thesis using parse_digits_show [of n] shown by (simp add: parse_unsigned_def)
qed

lemma length_show_nat: "n < 10 ^ Suc k \<Longrightarrow> length (show_nat n) \<le> Suc k"
proof (induction k arbitrary: n)
  case 0
  then show ?case by (simp add: show_nat.simps [of n])
next
  case (Suc k)
  show ?case
  proof (cases "n < 10")
    case False
    have "n div 10 < 10 ^ Suc k" using Suc.prems by (simp add: div_less_iff_less_mult mult.commute)
    with Suc.IH False show ?thesis by (simp add: show_nat.simps [of n])
  qed (simp add: show_nat.simps [of n])
qed

end
