(* ===== verification/Push.thy ===== *)
theory Push
  imports Capped Std_Text Device_Pairing
begin

text \<open>
  Web push (\<open>src/src/push.rs\<close>): the store of the devices' subscriptions, keyed by the digest of
  a device's token, the sweep that wakes them (\<open>spawn_push_sweep\<close> in
  \<open>src/src/daemon/server.rs\<close>), the origin a push token is signed for and the text of the
  private key. The store is read from its file at every call; the file is a value of the model,
  and the length of its JSON form, the outcome of writing it and the answers of the push
  services are arguments. Signing is not modelled.
\<close>

section \<open>The store\<close>

record push_subscription =
  ps_endpoint :: ustring
  ps_p256dh :: ustring
  ps_auth :: ustring

record persisted_subscription =
  sb_subscription :: push_subscription
  sb_subscribed_at_ms :: u64

record persisted_push_subscriptions =
  pps_version :: u32
  pps_subscriptions :: "(ustring, persisted_subscription) btmap"

definition push_subscriptions_version :: u32 where "push_subscriptions_version = 1"
definition max_push_subscriptions_bytes :: nat where "max_push_subscriptions_bytes = 256 * 1024"
definition max_push_subscriptions :: nat where "max_push_subscriptions = 128"

text \<open>The file: absent, or of some size and, when it can be read and parsed, with its contents.\<close>

datatype push_file = NoFile | PushFile nat "persisted_push_subscriptions option"

definition load_subscriptions :: "push_file \<Rightarrow> persisted_push_subscriptions result" where
  "load_subscriptions f = (case f of
     NoFile \<Rightarrow> Inl (lit ''no push subscriptions are stored'')
   | PushFile written_len contents \<Rightarrow>
       if written_len > max_push_subscriptions_bytes
       then Inl (lit ''persisted push subscriptions exceed the size limit'')
       else (case contents of
           None \<Rightarrow> Inl (lit ''persisted push subscriptions are invalid'')
         | Some persisted \<Rightarrow>
             if pps_version persisted \<noteq> push_subscriptions_version
             then Inl (lit ''persisted push subscriptions have an unsupported version'')
             else if bt_len (pps_subscriptions persisted) > max_push_subscriptions
             then Inl (lit ''persisted push subscriptions name too many devices'')
             else Inr persisted))"

text \<open>\<open>encoded_len\<close> is the length of the JSON text, to which a newline is added.\<close>

definition save_subscriptions ::
    "(persisted_push_subscriptions \<Rightarrow> nat) \<Rightarrow> unit result \<Rightarrow> persisted_push_subscriptions \<Rightarrow> push_file \<Rightarrow>
     push_file \<times> unit result" where
  "save_subscriptions encoded_len written persisted f =
     (let written_len = encoded_len persisted + 1
      in if written_len > max_push_subscriptions_bytes
         then (f, Inl (lit ''encoded push subscriptions exceed the size limit''))
         else (case written of Inl e \<Rightarrow> (f, Inl e) | Inr _ \<Rightarrow> (PushFile written_len (Some persisted), Inr ())))"

definition enforce_push_cap ::
    "(ustring, persisted_subscription) btmap \<Rightarrow> (ustring, persisted_subscription) btmap" where
  "enforce_push_cap subscriptions = evict sb_subscribed_at_ms max_push_subscriptions subscriptions"

definition current_subscriptions :: "push_file \<Rightarrow> (ustring, push_subscription) btmap" where
  "current_subscriptions f = (case load_subscriptions f of
     Inl _ \<Rightarrow> bt_empty
   | Inr persisted \<Rightarrow> bt_collect (map (\<lambda>(k, s). (k, sb_subscription s)) (bt_entries (pps_subscriptions persisted))))"

definition set_subscription ::
    "(persisted_push_subscriptions \<Rightarrow> nat) \<Rightarrow> unit result \<Rightarrow> u64 \<Rightarrow> ustring \<Rightarrow> push_subscription \<Rightarrow> push_file \<Rightarrow>
     push_file \<times> unit result" where
  "set_subscription encoded_len written now_ms token_sha256 subscription f =
     (let persisted = (case load_subscriptions f of Inr p \<Rightarrow> p
            | Inl _ \<Rightarrow> \<lparr>pps_version = push_subscriptions_version, pps_subscriptions = bt_empty\<rparr>);
          subscriptions = bt_insert token_sha256 \<lparr>sb_subscription = subscription, sb_subscribed_at_ms = now_ms\<rparr>
            (pps_subscriptions persisted)
      in save_subscriptions encoded_len written
           (persisted\<lparr>pps_subscriptions := enforce_push_cap subscriptions\<rparr>) f)"

definition remove_subscription ::
    "(persisted_push_subscriptions \<Rightarrow> nat) \<Rightarrow> unit result \<Rightarrow> ustring \<Rightarrow> push_file \<Rightarrow> push_file \<times> unit result" where
  "remove_subscription encoded_len written token_sha256 f = (case load_subscriptions f of
     Inl _ \<Rightarrow> (f, Inr ())
   | Inr persisted \<Rightarrow>
       if bt_get (pps_subscriptions persisted) token_sha256 = None then (f, Inr ())
       else save_subscriptions encoded_len written
              (persisted\<lparr>pps_subscriptions := bt_remove token_sha256 (pps_subscriptions persisted)\<rparr>) f)"

text \<open>What a push service answers a wake with: a status, or nothing that could be read.\<close>

definition gone :: "nat result \<Rightarrow> bool" where
  "gone answer = (case answer of Inl _ \<Rightarrow> False | Inr status \<Rightarrow> status = 404 \<or> status = 410)"

text \<open>Wake every subscription that is stored and forget those that are gone.\<close>

definition push_sweep ::
    "(persisted_push_subscriptions \<Rightarrow> nat) \<Rightarrow> unit result \<Rightarrow> (push_subscription \<Rightarrow> nat result) \<Rightarrow> push_file \<Rightarrow>
     push_file \<times> push_subscription list" where
  "push_sweep encoded_len written service f =
     (let entries = bt_entries (current_subscriptions f)
      in (fold (\<lambda>(token_sha256, s) f. if gone (service s)
             then fst (remove_subscription encoded_len written token_sha256 f) else f) entries f,
          map snd entries))"

definition endpoint_origin :: "ustring \<Rightarrow> ustring result" where
  "endpoint_origin endpoint = (case split_once (lit ''://'') endpoint of
     None \<Rightarrow> Inl (lit ''a push endpoint has no scheme'')
   | Some (scheme, rest) \<Rightarrow>
       (let host = url_host rest
        in if host = [] then Inl (lit ''a push endpoint has no host'') else Inr (scheme @ lit ''://'' @ host)))"

section \<open>The private key\<close>

text \<open>
  Slicing a string inside a character panics. A leading plus is accepted by
  \<open>u8::from_str_radix\<close>.
\<close>

datatype 'a checked = Panics | Fails ustring | Returns 'a

definition hex_pair :: "u8 \<Rightarrow> u8 \<Rightarrow> u8 option" where
  "hex_pair a b =
     (if a = 43 then map_option of_nat (to_digit 16 (unat b))
      else (case (to_digit 16 (unat a), to_digit 16 (unat b)) of
          (Some x, Some y) \<Rightarrow> Some (of_nat (x * 16 + y)) | _ \<Rightarrow> None))"

fun hex_pairs :: "u8 list \<Rightarrow> u8 list checked" where
  "hex_pairs (a # b # rest) =
     (if is_continuation (unat a) \<or> (rest \<noteq> [] \<and> is_continuation (unat (hd rest))) then Panics
      else (case hex_pair a b of
          None \<Rightarrow> Fails (lit ''hex-encoded key has an invalid digit'')
        | Some byte \<Rightarrow> (case hex_pairs rest of Returns bytes \<Rightarrow> Returns (byte # bytes) | other \<Rightarrow> other)))"
| "hex_pairs _ = Returns []"

definition hex_decode :: "ustring \<Rightarrow> u8 list checked" where
  "hex_decode text =
     (if utf8_len text mod 2 \<noteq> 0 then Fails (lit ''hex-encoded key has an odd length'')
      else hex_pairs (utf8_bytes text))"

section \<open>What the store keeps\<close>

text \<open>A file written by this store: it loads, and its size is that of its contents.\<close>

definition push_file_ok :: "push_file \<Rightarrow> bool" where
  "push_file_ok f \<longleftrightarrow> f = NoFile \<or> (\<exists>persisted. load_subscriptions f = Inr persisted)"

lemma save_subscriptions_ok:
  assumes "save_subscriptions encoded_len written persisted f = (f', r)" and "push_file_ok f"
    and "pps_version persisted = push_subscriptions_version"
    and "bt_len (pps_subscriptions persisted) \<le> max_push_subscriptions"
  shows "push_file_ok f' \<and> (case r of Inl _ \<Rightarrow> f' = f | Inr _ \<Rightarrow> load_subscriptions f' = Inr persisted)"
  using assms by (auto simp: save_subscriptions_def push_file_ok_def load_subscriptions_def Let_def
      split: if_splits sum.splits)

lemma load_subscriptions_ok:
  "load_subscriptions f = Inr persisted \<Longrightarrow>
   pps_version persisted = push_subscriptions_version \<and> bt_len (pps_subscriptions persisted) \<le> max_push_subscriptions"
  by (auto simp: load_subscriptions_def split: push_file.splits if_splits option.splits)

definition stored :: "push_file \<Rightarrow> (ustring, persisted_subscription) btmap" where
  "stored f = (case load_subscriptions f of Inl _ \<Rightarrow> bt_empty | Inr persisted \<Rightarrow> pps_subscriptions persisted)"

lemma stored_bounded: "bt_len (stored f) \<le> max_push_subscriptions"
  using load_subscriptions_ok by (fastforce simp: stored_def split: sum.split)

lemma current_stored: "bt_get (current_subscriptions f) k = map_option sb_subscription (bt_get (stored f) k)"
proof -
  have "bt_get (bt_collect (map (\<lambda>(k, s). (k, g s)) (bt_entries m))) k = map_option g (bt_get m k)"
    for g :: "persisted_subscription \<Rightarrow> push_subscription" and m
  proof -
    have "map_of (rev (map (\<lambda>(k, s). (k, g s)) es)) k = map_option g (map_of (rev es) k)" for es
      by (simp add: rev_map map_of_map)
    then show ?thesis by (simp add: bt_get_collect)
  qed
  then show ?thesis by (simp add: current_subscriptions_def stored_def split: sum.split)
qed

lemma set_subscription_stored:
  assumes "set_subscription encoded_len written now_ms device subscription f = (f', r)" and "push_file_ok f"
  shows "push_file_ok f' \<and> (case r of Inl _ \<Rightarrow> f' = f
    | Inr _ \<Rightarrow> stored f' = enforce_push_cap
        (bt_insert device \<lparr>sb_subscription = subscription, sb_subscribed_at_ms = now_ms\<rparr> (stored f)))"
proof -
  let ?p = "case load_subscriptions f of Inr p \<Rightarrow> p
      | Inl _ \<Rightarrow> \<lparr>pps_version = push_subscriptions_version, pps_subscriptions = bt_empty\<rparr>"
  let ?q = "?p\<lparr>pps_subscriptions := enforce_push_cap
        (bt_insert device \<lparr>sb_subscription = subscription, sb_subscribed_at_ms = now_ms\<rparr> (pps_subscriptions ?p))\<rparr>"
  have p: "pps_version ?p = push_subscriptions_version" "pps_subscriptions ?p = stored f"
    using load_subscriptions_ok by (auto simp: stored_def split: sum.split)
  have "save_subscriptions encoded_len written ?q f = (f', r)"
    using assms(1) by (simp add: set_subscription_def Let_def)
  moreover have "pps_version ?q = push_subscriptions_version" "bt_len (pps_subscriptions ?q) \<le> max_push_subscriptions"
    by (simp_all add: p enforce_push_cap_def evict_bounded)
  ultimately have saved: "push_file_ok f' \<and> (case r of Inl _ \<Rightarrow> f' = f | Inr _ \<Rightarrow> load_subscriptions f' = Inr ?q)"
    using assms(2) save_subscriptions_ok by blast
  have "stored f' = pps_subscriptions ?q" if "load_subscriptions f' = Inr ?q"
    using that by (simp add: stored_def)
  with saved show ?thesis by (auto simp: p split: sum.splits)
qed

lemma remove_subscription_stored:
  assumes "remove_subscription encoded_len written device f = (f', r)" and "push_file_ok f"
  shows "push_file_ok f' \<and> (case r of Inl _ \<Rightarrow> f' = f | Inr _ \<Rightarrow> stored f' = bt_remove device (stored f))"
proof (cases "load_subscriptions f")
  case (Inl e)
  then have "bt_remove device (stored f) = stored f" by (auto simp: stored_def intro: bt_ext)
  with Inl assms show ?thesis by (auto simp: remove_subscription_def)
next
  case (Inr p)
  let ?q = "p\<lparr>pps_subscriptions := bt_remove device (pps_subscriptions p)\<rparr>"
  have p: "stored f = pps_subscriptions p" "pps_version p = push_subscriptions_version"
    "bt_len (pps_subscriptions p) \<le> max_push_subscriptions"
    using Inr load_subscriptions_ok by (simp_all add: stored_def)
  show ?thesis
  proof (cases "bt_get (pps_subscriptions p) device = None")
    case True
    then have "bt_remove device (stored f) = stored f" by (auto simp: p intro: bt_ext)
    with True Inr assms show ?thesis by (auto simp: remove_subscription_def)
  next
    case False
    then have saved: "save_subscriptions encoded_len written ?q f = (f', r)"
      using Inr assms(1) by (simp only: remove_subscription_def sum.case if_False)
    have "bt_len (bt_remove device (pps_subscriptions p)) \<le> max_push_subscriptions"
      using p(3) by (auto simp: bt_len_remove)
    with save_subscriptions_ok [OF saved assms(2)] p show ?thesis
      by (auto simp: stored_def split: sum.splits)
  qed
qed


section \<open>Sequences of requests\<close>

datatype push_call =
    SubscribePush "unit result" u64 ustring push_subscription
  | UnsubscribePush "unit result" ustring
  | PushSweep "unit result" "push_subscription \<Rightarrow> nat result"

definition push_change :: "(persisted_push_subscriptions \<Rightarrow> nat) \<Rightarrow> push_call \<Rightarrow> push_file \<Rightarrow> push_file" where
  "push_change encoded_len event f = (case event of
     SubscribePush written now_ms device subscription \<Rightarrow>
       fst (set_subscription encoded_len written now_ms device subscription f)
   | UnsubscribePush written device \<Rightarrow> fst (remove_subscription encoded_len written device f)
   | PushSweep written service \<Rightarrow> fst (push_sweep encoded_len written service f))"

inductive push_step :: "(persisted_push_subscriptions \<Rightarrow> nat) \<Rightarrow> push_file \<Rightarrow> push_file \<Rightarrow> bool"
  for encoded_len where
  "push_step encoded_len f (push_change encoded_len event f)"

lemma remove_subscription_keeps_ok:
  "push_file_ok f \<Longrightarrow> push_file_ok (fst (remove_subscription encoded_len written device f))"
  using remove_subscription_stored by (metis prod.collapse)

lemma push_sweep_keeps_ok: "push_file_ok f \<Longrightarrow> push_file_ok (fst (push_sweep encoded_len written service f))"
proof -
  have "push_file_ok (fold (\<lambda>(device, s) f. if gone (service s)
      then fst (remove_subscription encoded_len written device f) else f) es f)" if "push_file_ok f" for es f
    using that
  proof (induction es arbitrary: f)
    case (Cons e es)
    then show ?case using remove_subscription_keeps_ok by (cases e) simp
  qed simp
  then show "push_file_ok f \<Longrightarrow> ?thesis" by (simp add: push_sweep_def Let_def)
qed

lemma push_change_ok: "push_file_ok f \<Longrightarrow> push_file_ok (push_change encoded_len event f)"
proof (cases event)
  case (SubscribePush written now_ms device subscription)
  assume "push_file_ok f"
  moreover obtain f' r where "set_subscription encoded_len written now_ms device subscription f = (f', r)" by fastforce
  ultimately show ?thesis using set_subscription_stored by (fastforce simp: SubscribePush push_change_def)
qed (simp_all add: push_change_def remove_subscription_keeps_ok push_sweep_keeps_ok)

interpretation push_reach: kept_invariant NoFile "push_step encoded_len" push_file_ok for encoded_len
proof
  show "push_file_ok NoFile" by (simp add: push_file_ok_def)
next
  fix s t
  assume "push_file_ok s" "push_step encoded_len s t"
  then show "push_file_ok t" by (auto simp: push_step.simps push_change_ok)
qed

lemma sweep_fold:
  assumes "push_file_ok f" and "\<And>p. encoded_len p < max_push_subscriptions_bytes"
  shows "stored (fold (\<lambda>(device, s) f. if gone (service s)
      then fst (remove_subscription encoded_len (Inr ()) device f) else f) es f) =
    bt_retain (\<lambda>k _. \<forall>s. (k, s) \<in> set es \<longrightarrow> \<not> gone (service s)) (stored f)"
  using assms(1)
proof (induction es arbitrary: f)
  case Nil
  show ?case by (rule bt_ext) (simp split: option.split)
next
  case (Cons e es)
  obtain device s where e: "e = (device, s)" by (cases e)
  show ?case
  proof (cases "gone (service s)")
    case True
    obtain f' r where removed: "remove_subscription encoded_len (Inr ()) device f = (f', r)" by fastforce
    have "\<not> max_push_subscriptions_bytes < Suc (encoded_len p)" for p using assms(2) [of p] by simp
    then have "\<exists>u. r = Inr u"
      using removed by (auto simp: remove_subscription_def save_subscriptions_def Let_def split: sum.splits if_splits)
    then have "push_file_ok f'" "stored f' = bt_remove device (stored f)"
      using remove_subscription_stored [OF removed Cons.prems] by auto
    with Cons.IH [of f'] show ?thesis
      using True removed e by (auto intro!: bt_ext split: option.split)
  next
    case False
    with Cons e show ?thesis by (auto intro!: bt_ext split: option.split)
  qed
qed

section \<open>Properties\<close>

text \<open>
  The store of push subscriptions stays readable and bounded, and a device that subscribes
  is the last to be forgotten. After any requests and sweeps the file loads and names at most 128
  devices. A device that subscribes later than all others were is stored from then on with what
  it sent, or its request is refused and nothing changes; every other device keeps its
  subscription, except that a full store forgets the one that subscribed first.
\<close>

theorem push_subscribes:
  assumes "reach (push_step encoded_len) NoFile f"
    and "\<forall>k s. bt_get (stored f) k = Some s \<and> k \<noteq> device \<longrightarrow> sb_subscribed_at_ms s < now_ms"
    and "set_subscription encoded_len written now_ms device subscription f = (f', r)"
  shows "bt_len (stored f) \<le> 128 \<and> (f = NoFile \<or> (\<exists>p. load_subscriptions f = Inr p))
    \<and> (case r of Inl _ \<Rightarrow> f' = f
       | Inr _ \<Rightarrow> bt_get (current_subscriptions f') device = Some subscription
           \<and> (\<forall>k s. k \<noteq> device \<and> bt_get (stored f) k = Some s \<longrightarrow> bt_get (stored f') k = Some s
               \<or> bt_len (stored f) = 128 \<and> bt_get (stored f) device = None
                 \<and> (\<forall>l t. bt_get (stored f) l = Some t \<longrightarrow> sb_subscribed_at_ms s \<le> sb_subscribed_at_ms t)))"
proof -
  have ok: "push_file_ok f" by (rule push_reach.reachable_holds [OF assms(1)])
  let ?v = "\<lparr>sb_subscription = subscription, sb_subscribed_at_ms = now_ms\<rparr>"
  let ?m = "bt_insert device ?v (stored f)"
  have set: "case r of Inl _ \<Rightarrow> f' = f | Inr _ \<Rightarrow> stored f' = enforce_push_cap ?m"
    using set_subscription_stored [OF assms(3) ok] by simp
  have latest: "bt_get (enforce_push_cap ?m) device = Some ?v"
    unfolding enforce_push_cap_def
    using assms(2) stored_bounded by (intro evict_insert_latest) (auto simp: max_push_subscriptions_def)
  have others: "bt_get (enforce_push_cap ?m) k = Some s \<or> bt_len (stored f) = 128 \<and> bt_get (stored f) device = None
      \<and> (\<forall>l t. bt_get (stored f) l = Some t \<longrightarrow> sb_subscribed_at_ms s \<le> sb_subscribed_at_ms t)"
    if k: "k \<noteq> device" "bt_get (stored f) k = Some s" for k s
  proof (cases "bt_len ?m \<le> max_push_subscriptions")
    case True
    then show ?thesis using k by (simp add: enforce_push_cap_def evict_id)
  next
    case False
    then have over: "bt_len ?m = Suc max_push_subscriptions" "bt_get (stored f) device = None"
      "bt_len (stored f) = max_push_subscriptions"
      using stored_bounded [of f] by (auto simp: bt_len_insert split: if_splits)
    obtain oldest where oldest: "oldest_by sb_subscribed_at_ms ?m = Some oldest"
      "evict sb_subscribed_at_ms max_push_subscriptions ?m = bt_remove oldest ?m"
      by (rule evict_one_over [OF over(1)])
    obtain v where v: "bt_get ?m oldest = Some v"
      and least: "\<And>l t. bt_get ?m l = Some t \<Longrightarrow> (sb_subscribed_at_ms v, oldest) \<le> (sb_subscribed_at_ms t, l)"
      using oldest_by_SomeD [OF oldest(1)] by blast
    have "sb_subscribed_at_ms s \<le> sb_subscribed_at_ms t" if "oldest = k" "bt_get (stored f) l = Some t" for l t
    proof -
      have "l \<noteq> device" "s = v" using that k v over(2) by auto
      with least [of l t] that(2) show ?thesis by (auto simp: less_eq_prod_def)
    qed
    then show ?thesis using k over oldest(2) by (auto simp: enforce_push_cap_def max_push_subscriptions_def)
  qed
  from set latest others show ?thesis
    using ok stored_bounded [of f]
    by (auto simp: push_file_ok_def max_push_subscriptions_def current_stored split: sum.splits)
qed

text \<open>A sweep forgets exactly the subscriptions whose push service says they are gone.\<close>

lemma sweep_forgets_gone:
  assumes "push_file_ok f" and "\<And>p. encoded_len p < max_push_subscriptions_bytes"
  shows "bt_get (stored (fst (push_sweep encoded_len (Inr ()) service f))) k =
    (case bt_get (stored f) k of None \<Rightarrow> None
     | Some s \<Rightarrow> if gone (service (sb_subscription s)) then None else Some s)"
  by (auto simp: push_sweep_def Let_def sweep_fold [OF assms] bt_entries_get current_stored split: option.split)

text \<open>
  A device that was revoked is woken all the same: the sweep asks for the stored subscriptions
  and for nothing else.
\<close>

lemma sweep_wakes_revoked:
  assumes "bt_get (stored f) (fingerprint secret) = Some s" and "\<not> admits fingerprint devices secret"
  shows "sb_subscription s \<in> set (snd (push_sweep encoded_len written service f))"
proof -
  have "(fingerprint secret, sb_subscription s) \<in> set (bt_entries (current_subscriptions f))"
    using assms(1) by (simp add: bt_entries_get current_stored)
  then show ?thesis by (force simp: push_sweep_def Let_def)
qed

section \<open>The key's text\<close>

lemma hex_pair_digits: "hex_pair (of_nat (hex_digit (unat b div 16))) (of_nat (hex_digit (unat b mod 16))) = Some b"
proof -
  have digit: "to_digit 16 (unat (of_nat (hex_digit n) :: u8)) = Some n" "of_nat (hex_digit n) \<noteq> (43 :: u8)" if "n < 16" for n
  proof -
    have "hex_digit n \<in> {48..57} \<union> {97..102}" using that by (auto simp: hex_digit_def)
    then have unat: "unat (of_nat (hex_digit n) :: u8) = hex_digit n" by (auto simp: unat_of_nat)
    then show "to_digit 16 (unat (of_nat (hex_digit n) :: u8)) = Some n"
      using that by (auto simp: to_digit_def hex_digit_def Let_def)
    show "of_nat (hex_digit n) \<noteq> (43 :: u8)"
      using unat that by (auto simp: hex_digit_def word_unat_eq_iff split: if_splits)
  qed
  show ?thesis
    by (simp add: hex_pair_def digit byte_halves div_mult_mod_eq)
qed

lemma utf8_hex_digit: "n < 16 \<Longrightarrow> utf8_char (hex_digit n) = [of_nat (hex_digit n)]"
  by (simp add: utf8_char_def utf8_codes_def hex_digit_def)

lemma hex_bytes: "utf8_bytes (hex bytes) =
  concat (map (\<lambda>b. [of_nat (hex_digit (unat b div 16)), of_nat (hex_digit (unat b mod 16))]) bytes)"
proof (induction bytes)
  case (Cons b bytes)
  then show ?case by (simp add: hex_def utf8_hex_digit byte_halves)
qed (simp add: hex_def)

text \<open>The private key survives being written and read.\<close>

lemma hex_decode_hex: "hex_decode (hex bytes) = Returns bytes"
proof -
  have not_cont: "\<not> is_continuation (unat (of_nat (hex_digit n) :: u8))" if "n < 16" for n
    using that by (simp add: hex_digit_def is_continuation_def unat_of_nat)
  have "hex_pairs (concat (map (\<lambda>b. [of_nat (hex_digit (unat b div 16)), of_nat (hex_digit (unat b mod 16))]) bytes))
    = Returns bytes"
  proof (induction bytes)
    case (Cons b bytes)
    have "rest \<noteq> [] \<Longrightarrow> \<not> is_continuation (unat (hd rest))"
      if "rest = concat (map (\<lambda>b. [of_nat (hex_digit (unat b div 16)), of_nat (hex_digit (unat b mod 16))]) bytes)" for rest :: "u8 list"
      using that by (cases bytes) (auto simp: not_cont byte_halves)
    with Cons show ?case by (auto simp: not_cont byte_halves hex_pair_digits)
  qed simp
  moreover have "even (utf8_len (hex bytes))"
    by (simp add: hex_bytes flip: length_utf8_bytes) (induction bytes; simp)
  ultimately show ?thesis by (simp add: hex_decode_def hex_bytes even_iff_mod_2_eq_zero)
qed

section \<open>Witness\<close>

definition one_device :: "push_file \<times> unit result" where
  "one_device = set_subscription (\<lambda>_. 10) (Inr ()) 5 (lit ''a'')
     \<lparr>ps_endpoint = lit ''https://push.example/1'', ps_p256dh = [], ps_auth = []\<rparr> NoFile"

theorem push_subscribes_witness:
  "snd one_device = Inr ()
   \<and> bt_get (current_subscriptions (fst one_device)) (lit ''a'') = Some \<lparr>ps_endpoint = lit ''https://push.example/1'', ps_p256dh = [], ps_auth = []\<rparr>"
proof -
  have set: "set_subscription (\<lambda>_. 10) (Inr ()) 5 (lit ''a'')
      \<lparr>ps_endpoint = lit ''https://push.example/1'', ps_p256dh = [], ps_auth = []\<rparr> NoFile = (fst one_device, Inr ())"
    by (simp add: one_device_def set_subscription_def save_subscriptions_def Let_def max_push_subscriptions_bytes_def)
  have "stored NoFile = bt_empty" by (simp add: stored_def load_subscriptions_def)
  then have "bt_get (current_subscriptions (fst one_device)) (lit ''a'')
      = Some \<lparr>ps_endpoint = lit ''https://push.example/1'', ps_p256dh = [], ps_auth = []\<rparr>"
    using push_subscribes [OF reach_start _ set] by simp
  moreover have "snd one_device = Inr ()" using set by (metis one_device_def snd_conv)
  ultimately show ?thesis by blast
qed

end
