(* ===== verification/Web.thy ===== *)
theory Web
  imports Push Connection
begin

text \<open>
  The web client's server (\<open>src/src/daemon/web.rs\<close>): reading a request, routing it, what each
  route asks of the daemon, the answers, and the event stream that carries one attachment's
  lines to a browser. The daemon behind it is \<open>DevicePolicy\<close> of \<open>src/src/daemon/server.rs\<close>.
  A request's bytes are a list that ends where the connection does. The page, the JSON readers,
  clocks, random bytes and outcomes of sending are fields of an environment.
\<close>

section \<open>Requests\<close>

definition max_header_bytes :: nat where "max_header_bytes = 16 * 1024"
definition max_session_chars :: nat where "max_session_chars = 64"
definition cookie_lifetime_seconds :: u64 where "cookie_lifetime_seconds = 60 * 60 * 24 * 30"
definition push_wake_freshness :: int where "push_wake_freshness = 2 * 60 * 1000000000"

definition forwarding_headers :: "ustring list" where
  "forwarding_headers = [lit ''x-forwarded-for'', lit ''x-forwarded-proto'', lit ''x-forwarded-host'',
     lit ''forwarded'', lit ''tailscale-user-login'']"

record request =
  rq_method :: ustring
  rq_path :: ustring
  rq_session :: "ustring option"
  rq_token :: "ustring option"
  rq_forwarded :: bool
  rq_length :: nat

text \<open>\<open>take(limit).read_until(b'\n')\<close>.\<close>

definition read_until :: "nat \<Rightarrow> u8 list \<Rightarrow> u8 list \<times> u8 list" where
  "read_until limit bytes =
     (let window = take limit bytes;
          line = (if 10 \<in> set window then takeWhile (\<lambda>x. x \<noteq> 10) window @ [10] else window)
      in (line, drop (length line) bytes))"

function read_head :: "u8 list \<Rightarrow> u8 list \<Rightarrow> (u8 list \<times> u8 list) option" where
  "read_head head bytes =
     (let remaining = max_header_bytes - length head
      in if remaining = 0 then None
         else let (line, rest) = read_until remaining bytes
           in if line = [] then None
              else if line = [13, 10] \<or> line = [10] then Some (head @ line, rest)
              else read_head (head @ line) rest)"
  by pat_completeness auto
termination
proof (relation "measure (\<lambda>(head, bytes). length bytes)")
  fix head bytes line rest :: "u8 list" and remaining x
  assume "remaining = max_header_bytes - length head" "remaining \<noteq> 0" "x = read_until remaining bytes"
    "(line, rest) = x" "line \<noteq> []"
  then show "((head @ line, rest), (head, bytes)) \<in> measure (\<lambda>(head, bytes). length bytes)"
    by (cases bytes) (auto simp: read_until_def Let_def)
qed simp

declare read_head.simps [simp del]

definition sanitized_session :: "ustring \<Rightarrow> ustring" where
  "sanitized_session value = take max_session_chars (filter (\<lambda>c. is_ascii_alphanumeric c \<or> c = 45) value)"

definition sanitized_token :: "ustring \<Rightarrow> ustring" where
  "sanitized_token value = take 128 (filter is_hexdigit value)"

definition cookie_token :: "ustring \<Rightarrow> ustring option" where
  "cookie_token value = find_map (\<lambda>pair. Option.bind (strip_prefix (lit ''sh_device='') (trim pair))
     (\<lambda>found. let t = sanitized_token found in if t \<noteq> [] then Some t else None)) (split_on (\<lambda>c. c = 59) value)"

text \<open>One header line: its effect on the length, the token and the forwarded mark.\<close>

type_synonym header_fields = "u64 \<times> ustring option \<times> bool"

definition read_header :: "ustring \<Rightarrow> header_fields \<Rightarrow> header_fields" where
  "read_header line so_far = (case split_once [58] line of
     None \<Rightarrow> so_far
   | Some (name, value) \<Rightarrow>
       (let (len, tok, forwarded) = so_far;
            len = (if eq_ignore_ascii_case name (lit ''content-length'') then unwrap_or 0 (parse_unsigned (trim value)) else len);
            forwarded = (forwarded \<or> (\<exists>header \<in> set forwarding_headers. eq_ignore_ascii_case name header));
            tok = (if eq_ignore_ascii_case name (lit ''cookie'') then cookie_token value else tok)
        in (len, tok, forwarded)))"

definition nth_or_empty :: "nat \<Rightarrow> ustring list \<Rightarrow> ustring" where
  "nth_or_empty n words = (if n < length words then words ! n else [])"

definition requested_session :: "ustring \<Rightarrow> ustring option" where
  "requested_session query =
     (case find_map (strip_prefix (lit ''session='')) (split_on (\<lambda>c. c = 38) query) of
        None \<Rightarrow> None
      | Some s \<Rightarrow> let s = sanitized_session s in if s \<noteq> [] then Some s else None)"

definition parse_head :: "ustring \<Rightarrow> request" where
  "parse_head text =
     (let lines = str_lines text;
          words = split_whitespace (nth_or_empty 0 lines);
          requested = nth_or_empty 1 words;
          (path, query) = unwrap_or (requested, []) (split_once [63] requested);
          (len, tok, forwarded) = fold read_header (drop 1 lines) (0, None, False)
      in \<lparr>rq_method = nth_or_empty 0 words, rq_path = path, rq_session = requested_session query,
          rq_token = tok, rq_forwarded = forwarded, rq_length = min (unat len) max_message_bytes\<rparr>)"

definition read_request :: "u8 list \<Rightarrow> (request \<times> u8 list) option" where
  "read_request bytes = map_option (\<lambda>(head, rest). (parse_head (from_utf8_lossy head), rest)) (read_head [] bytes)"

definition read_body :: "nat \<Rightarrow> u8 list \<Rightarrow> u8 list option" where
  "read_body len bytes = (if length bytes < len then None else Some (take len bytes))"

definition json_field :: "ustring \<Rightarrow> ustring \<Rightarrow> ustring option" where
  "json_field text field =
     Option.bind (after_str (34 # field @ [34]) text) (\<lambda>rest.
     Option.bind (strip_prefix [58] (trim_start rest)) (\<lambda>rest.
     Option.bind (strip_prefix [34] (trim_start rest)) (\<lambda>rest.
       if 34 \<in> set rest then Some (takeWhile (\<lambda>c. c \<noteq> 34) rest) else None)))"

section \<open>Answers\<close>

datatype response =
    Page
  | Script
  | Json ustring
  | Status ustring ustring
  | WithCookie ustring ustring
  | EventStream ustring nat
  | AwaitsApproval ustring bool
  | NoAnswer

definition crlf :: ustring where "crlf = [13, 10]"

definition write_json :: "ustring \<Rightarrow> ustring" where
  "write_json body = lit ''HTTP/1.1 200 OK'' @ crlf @ lit ''content-type: application/json'' @ crlf
     @ lit ''content-length: '' @ show_nat (utf8_len body) @ crlf @ lit ''cache-control: no-store'' @ crlf
     @ lit ''connection: close'' @ crlf @ crlf @ body"

definition write_with_cookie :: "ustring \<Rightarrow> ustring \<Rightarrow> ustring" where
  "write_with_cookie status cookie = lit ''HTTP/1.1 '' @ status @ crlf @ lit ''set-cookie: '' @ cookie @ crlf
     @ lit ''content-length: 0'' @ crlf @ lit ''connection: close'' @ crlf @ crlf"

definition write_page :: "ustring \<Rightarrow> ustring" where
  "write_page body = lit ''HTTP/1.1 200 OK'' @ crlf @ lit ''content-type: text/html; charset=utf-8'' @ crlf
     @ lit ''content-length: '' @ show_nat (utf8_len body) @ crlf @ lit ''cache-control: no-store'' @ crlf
     @ lit ''connection: close'' @ crlf @ crlf @ body"

definition write_script :: "ustring \<Rightarrow> ustring" where
  "write_script body = lit ''HTTP/1.1 200 OK'' @ crlf @ lit ''content-type: text/javascript; charset=utf-8'' @ crlf
     @ lit ''content-length: '' @ show_nat (utf8_len body) @ crlf @ lit ''cache-control: no-store'' @ crlf
     @ lit ''service-worker-allowed: /'' @ crlf @ lit ''connection: close'' @ crlf @ crlf @ body"

definition write_status :: "ustring \<Rightarrow> ustring \<Rightarrow> ustring" where
  "write_status status body = lit ''HTTP/1.1 '' @ status @ crlf @ lit ''content-type: text/plain; charset=utf-8'' @ crlf
     @ lit ''content-length: '' @ show_nat (utf8_len body) @ crlf @ lit ''connection: close'' @ crlf @ crlf @ body"

section \<open>Routes\<close>

text \<open>
  What the server keeps: the pairing desk, the push store when there is one, the open event
  streams by session, and what it reports. A stream's queue is named by a number.
\<close>

record web =
  wb_desk :: desk
  wb_push :: "push_file option"
  wb_open :: "(ustring, nat) btmap"
  wb_streams :: nat
  wb_version :: ustring
  wb_vapid :: "ustring option"
  wb_wake :: "(ustring option \<times> int) option"

datatype forwarding = Forwarded | StreamClosed | ClientBusy

record web_env =
  we_fingerprint :: "ustring \<Rightarrow> ustring"
  we_secret :: "u8 list result"
  we_alive :: bool
  we_now :: system_time
  we_now_ms :: u64
  we_instant :: int
  we_written :: "unit result"
  we_encoded_len :: "persisted_push_subscriptions \<Rightarrow> nat"
  we_subscription :: "u8 list \<Rightarrow> push_subscription option"
  we_from_slice :: "u8 list \<Rightarrow> client_message result"
  we_to_vec :: "client_message \<Rightarrow> u8 list result"
  we_attach :: bool
  we_forwarding :: forwarding

definition no_content :: ustring where "no_content = lit ''204 No Content''"
definition forbidden :: ustring where "forbidden = lit ''403 Forbidden''"
definition bad_request :: ustring where "bad_request = lit ''400 Bad Request''"
definition conflict :: ustring where "conflict = lit ''409 Conflict''"
definition not_found :: ustring where "not_found = lit ''404 Not Found''"
definition unavailable :: ustring where "unavailable = lit ''503 Service Unavailable''"
definition internal_error :: ustring where "internal_error = lit ''500 Internal Server Error''"

definition admitted :: "web_env \<Rightarrow> web \<Rightarrow> request \<Rightarrow> bool" where
  "admitted env w req = (case rq_token req of None \<Rightarrow> False
     | Some offered \<Rightarrow> admits (we_fingerprint env) (dk_devices (wb_desk w)) offered)"

definition show_bool :: "bool \<Rightarrow> ustring" where
  "show_bool b = (if b then lit ''true'' else lit ''false'')"

definition session_body :: "bool \<Rightarrow> ustring \<Rightarrow> ustring" where
  "session_body paired version = 123 # 34 # lit ''paired'' @ [34, 58] @ show_bool paired @ [44, 34]
     @ lit ''version'' @ [34, 58, 34] @ filter (\<lambda>c. c \<noteq> 34) version @ [34, 125]"

definition pair_route :: "web_env \<Rightarrow> request \<Rightarrow> u8 list \<Rightarrow> web \<Rightarrow> web \<times> response" where
  "pair_route env req rest w = (case read_body (rq_length req) rest of
     None \<Rightarrow> (w, NoAnswer)
   | Some body \<Rightarrow>
       (let text = from_utf8_lossy body;
            field = (\<lambda>name. unwrap_or [] (json_field text name))
        in case pair (we_secret env) (we_alive env) (we_now env) (field (lit ''code'')) (field (lit ''name''))
               (field (lit ''confirmation'')) (wb_desk w) of
             (k, Inl message) \<Rightarrow> (w\<lparr>wb_desk := k\<rparr>, Status forbidden message)
           | (k, Inr attempt) \<Rightarrow> (w\<lparr>wb_desk := k\<rparr>, AwaitsApproval attempt (rq_forwarded req))))"

text \<open>How the wait for an approval ends.\<close>

datatype approval = Decided "ustring result" | DecisionLost | ApprovalTimedOut

definition device_cookie :: "ustring \<Rightarrow> bool \<Rightarrow> ustring" where
  "device_cookie secret forwarded = lit ''sh_device='' @ secret @ lit ''; Path=/; Max-Age=''
     @ show_word cookie_lifetime_seconds @ lit ''; HttpOnly; SameSite=Strict'' @ (if forwarded then lit ''; Secure'' else [])"

definition pair_answer :: "bool \<Rightarrow> approval \<Rightarrow> response" where
  "pair_answer forwarded outcome = (case outcome of
     Decided (Inr secret) \<Rightarrow> WithCookie no_content (device_cookie secret forwarded)
   | Decided (Inl message) \<Rightarrow> Status forbidden message
   | DecisionLost \<Rightarrow> Status unavailable (lit ''the pairing decision was lost; ask for another code'')
   | ApprovalTimedOut \<Rightarrow> Status (lit ''408 Request Timeout'') (lit ''approval timed out; ask for another code''))"

definition subscribe_push :: "web_env \<Rightarrow> ustring \<Rightarrow> push_subscription \<Rightarrow> web \<Rightarrow> web \<times> unit result" where
  "subscribe_push env secret subscription w = (case wb_push w of
     None \<Rightarrow> (w, Inl (lit ''this daemon has no push subscription store configured''))
   | Some f \<Rightarrow>
       (let (f', r) = set_subscription (we_encoded_len env) (we_written env) (we_now_ms env)
              (we_fingerprint env secret) subscription f
        in (w\<lparr>wb_push := Some f'\<rparr>, r)))"

definition unsubscribe_push :: "web_env \<Rightarrow> ustring \<Rightarrow> web \<Rightarrow> web \<times> unit result" where
  "unsubscribe_push env secret w = (case wb_push w of
     None \<Rightarrow> (w, Inr ())
   | Some f \<Rightarrow>
       (let (f', r) = remove_subscription (we_encoded_len env) (we_written env) (we_fingerprint env secret) f
        in (w\<lparr>wb_push := Some f'\<rparr>, r)))"

text \<open>The last alert's text, unless it is too old or could not be written.\<close>

definition latest_push_notification :: "int \<Rightarrow> web \<Rightarrow> ustring option" where
  "latest_push_notification now w = (case wb_wake w of
     None \<Rightarrow> None
   | Some (text, at) \<Rightarrow> if now - at > push_wake_freshness then None else text)"

definition done_or_error :: "unit result \<Rightarrow> response" where
  "done_or_error r = (case r of Inr _ \<Rightarrow> Status no_content [] | Inl message \<Rightarrow> Status internal_error message)"

definition subscribe_push_route :: "web_env \<Rightarrow> request \<Rightarrow> u8 list \<Rightarrow> web \<Rightarrow> web \<times> response" where
  "subscribe_push_route env req rest w = (case read_body (rq_length req) rest of
     None \<Rightarrow> (w, NoAnswer)
   | Some body \<Rightarrow> (case we_subscription env body of
       None \<Rightarrow> (w, Status bad_request (lit ''unreadable subscription''))
     | Some subscription \<Rightarrow>
         (let (w, r) = subscribe_push env (unwrap_or [] (rq_token req)) subscription w in (w, done_or_error r))))"

definition events_route :: "web_env \<Rightarrow> request \<Rightarrow> web \<Rightarrow> web \<times> response" where
  "events_route env req w = (case rq_session req of
     None \<Rightarrow> (w, Status bad_request (lit ''a session is required''))
   | Some session \<Rightarrow>
       if \<not> we_attach env then (w, Status unavailable (lit ''daemon unavailable''))
       else (w\<lparr>wb_open := bt_insert session (wb_streams w) (wb_open w), wb_streams := wb_streams w + 1\<rparr>,
             EventStream session (wb_streams w)))"

text \<open>A command is answered and, when it can be, put on the queue of the session's stream.\<close>

definition command_route ::
    "web_env \<Rightarrow> request \<Rightarrow> u8 list \<Rightarrow> web \<Rightarrow> response \<times> (nat \<times> u8 list) option" where
  "command_route env req rest w = (case rq_session req of
     None \<Rightarrow> (Status bad_request (lit ''a session is required''), None)
   | Some session \<Rightarrow> (case read_body (rq_length req) rest of
       None \<Rightarrow> (NoAnswer, None)
     | Some body \<Rightarrow> (case bt_get (wb_open w) session of
         None \<Rightarrow> (Status conflict (lit ''no open event stream''), None)
       | Some stream \<Rightarrow>
           (case and_then (decode (we_from_slice env) (trim_ascii body)) (encode (we_to_vec env)) of
              Inl _ \<Rightarrow> (Status bad_request (lit ''unreadable command''), None)
            | Inr line \<Rightarrow> (case we_forwarding env of
                Forwarded \<Rightarrow> (Status no_content [], Some (stream, line))
              | StreamClosed \<Rightarrow> (Status conflict (lit ''event stream closed''), None)
              | ClientBusy \<Rightarrow> (Status unavailable (lit ''client busy''), None))))))"

definition handle_request ::
    "web_env \<Rightarrow> request \<Rightarrow> u8 list \<Rightarrow> web \<Rightarrow> web \<times> response \<times> (nat \<times> u8 list) option" where
  "handle_request env req rest w =
     (let asked = (\<lambda>method path. rq_method req = lit method \<and> rq_path req = lit path);
          paired = admitted env w req;
          keep = (\<lambda>r. (w, r, None));
          changed = (\<lambda>(w, r). (w, r, None))
      in if asked ''GET'' ''/'' \<or> asked ''GET'' ''/index.html'' then keep Page
         else if asked ''GET'' ''/sw.js'' then keep Script
         else if asked ''GET'' ''/session'' then keep (Json (session_body paired (wb_version w)))
         else if asked ''POST'' ''/pair'' then changed (pair_route env req rest w)
         else if \<not> paired then keep (Status (lit ''401 Unauthorized'') (lit ''this device is not paired with this daemon''))
         else if asked ''GET'' ''/push/vapid_public_key''
         then keep (case wb_vapid w of
             Some key \<Rightarrow> Json (123 # 34 # lit ''key'' @ [34, 58, 34] @ key @ [34, 125])
           | None \<Rightarrow> Status not_found (lit ''push is not available''))
         else if asked ''POST'' ''/push/subscribe'' then changed (subscribe_push_route env req rest w)
         else if asked ''POST'' ''/push/unsubscribe''
         then changed (let (w, r) = unsubscribe_push env (unwrap_or [] (rq_token req)) w in (w, done_or_error r))
         else if asked ''GET'' ''/push/wake''
         then keep (case latest_push_notification (we_instant env) w of
             Some body \<Rightarrow> Json body | None \<Rightarrow> Status no_content [])
         else if asked ''GET'' ''/events'' then changed (events_route env req w)
         else if asked ''POST'' ''/command''
         then (let (r, sent) = command_route env req rest w in (w, r, sent))
         else keep (Status not_found (lit ''no such path'')))"

text \<open>What the end of a stream does.\<close>

definition close_stream :: "ustring \<Rightarrow> web \<Rightarrow> web" where
  "close_stream session w = w\<lparr>wb_open := bt_remove session (wb_open w)\<rparr>"

section \<open>The event stream\<close>

text \<open>
  The daemon's bytes arrive one after another, between ticks of the keepalive timer. A line that
  is complete is written as one event; one that fills the limit without ending ends the stream.
\<close>

datatype arrival = Arrive u8 | KeepaliveTick

definition keepalive_comment :: "u8 list" where
  "keepalive_comment = utf8_bytes (lit '': keepalive'' @ [10, 10])"

definition event_of :: "u8 list \<Rightarrow> u8 list" where
  "event_of line = utf8_bytes (lit ''data: '') @ line @ [10]"

fun stream_events :: "u8 list \<Rightarrow> arrival list \<Rightarrow> u8 list list" where
  "stream_events line [] = []"
| "stream_events line (KeepaliveTick # arrivals) = keepalive_comment # stream_events line arrivals"
| "stream_events line (Arrive b # arrivals) =
     (if b = 10 then event_of (line @ [10]) # stream_events [] arrivals
      else if length line + 1 < max_message_bytes then stream_events (line @ [b]) arrivals
      else [])"

section \<open>What an unpaired browser can learn and change\<close>

text \<open>
  C12. A browser without the token of a paired device learns nothing and steers nothing. Take two
  daemons that agree on their pairing desk and version and on nothing else - not on the alerts,
  the keys, the push subscriptions or the open streams. A request whose token is not admitted is
  answered alike by both; no command is forwarded, and nothing but the desk's pending code and
  its inbox of pairing requests changes: no device, no subscription, no stream.
\<close>

theorem unpaired_learns_nothing:
  assumes "handle_request env req rest v = (v', answer, sent)" and "handle_request env req rest w = (w', answer', sent')"
    and "wb_desk v = wb_desk w" and "wb_version v = wb_version w" and "\<not> admitted env w req"
  shows "answer = answer' \<and> sent = None \<and> v' = v\<lparr>wb_desk := wb_desk w'\<rparr>
    \<and> dk_devices (wb_desk w') = dk_devices (wb_desk w) \<and> dk_approvals (wb_desk w') = dk_approvals (wb_desk w)"
proof -
  have same: "admitted env v req = admitted env w req" using assms(3) by (simp add: admitted_def split: option.split)
  have paired: "fst (pair_route env req rest v) = v\<lparr>wb_desk := wb_desk (fst (pair_route env req rest w))\<rparr>
      \<and> snd (pair_route env req rest v) = snd (pair_route env req rest w)"
    using assms(3) by (auto simp: pair_route_def Let_def split: option.split prod.split sum.split)
  have desk: "dk_devices (wb_desk (fst (pair_route env req rest w))) = dk_devices (wb_desk w)
      \<and> dk_approvals (wb_desk (fst (pair_route env req rest w))) = dk_approvals (wb_desk w)"
    by (auto simp: pair_route_def Let_def pair_def clear_bridge_pairing_def publish_bridge_def
        split: option.splits prod.splits sum.splits if_splits)
  have keep: "v\<lparr>wb_desk := wb_desk w\<rparr> = v" using assms(3) [symmetric] by simp
  show ?thesis
  proof (cases "rq_method req = lit ''POST'' \<and> rq_path req = lit ''/pair''")
    case True
    then have "handle_request env req rest x = (fst (pair_route env req rest x), snd (pair_route env req rest x), None)" for x
      by (simp add: handle_request_def Let_def lit_def split: prod.split)
    with assms(1,2) paired desk show ?thesis by auto
  next
    case False
    then have "\<exists>a. handle_request env req rest v = (v, a, None) \<and> handle_request env req rest w = (w, a, None)"
      using assms(3-5) same by (auto simp: handle_request_def Let_def)
    with assms(1,2) keep show ?thesis by auto
  qed
qed

section \<open>The cookie comes back as the token\<close>

lemma read_until_line:
  assumes "10 \<notin> set line" and "length line < limit"
  shows "read_until limit (line @ 10 # rest) = (line @ [10], rest)"
proof -
  have "take limit (line @ 10 # rest) = line @ 10 # take (limit - length line - 1) rest"
    using assms(2) by (simp add: take_Cons')
  moreover have "takeWhile (\<lambda>x. x \<noteq> 10) (line @ 10 # ys) = line" for ys
    using assms(1) by (induction line) auto
  ultimately show ?thesis by (simp add: read_until_def Let_def)
qed

definition header_bytes :: "u8 list list \<Rightarrow> u8 list" where
  "header_bytes ls = concat (map (\<lambda>l. l @ [13, 10]) ls)"

lemma read_head_lines:
  assumes "\<forall>l \<in> set ls. 10 \<notin> set l \<and> l \<noteq> []"
    and "length head + length (header_bytes ls) + 2 \<le> max_header_bytes"
  shows "read_head head (header_bytes ls @ [13, 10] @ body) = Some (head @ header_bytes ls @ [13, 10], body)"
  using assms
proof (induction ls arbitrary: head)
  case Nil
  then have room: "max_header_bytes - length head \<noteq> 0" "1 < max_header_bytes - length head"
    by (simp_all add: header_bytes_def)
  have "read_until (max_header_bytes - length head) ([13] @ 10 # body) = ([13] @ [10], body)"
    by (rule read_until_line) (use room in simp_all)
  with room show ?case by (subst read_head.simps) (simp add: header_bytes_def Let_def)
next
  case (Cons l ls)
  let ?rest = "header_bytes ls @ [13, 10] @ body"
  have room: "max_header_bytes - length head \<noteq> 0" "length (l @ [13]) < max_header_bytes - length head"
    using Cons.prems(2) by (simp_all add: header_bytes_def)
  have "read_until (max_header_bytes - length head) ((l @ [13]) @ 10 # ?rest) = ((l @ [13]) @ [10], ?rest)"
    by (rule read_until_line) (use room Cons.prems(1) in simp_all)
  moreover have "l @ [13, 10] \<noteq> [13, 10]" "l @ [13, 10] \<noteq> [10]" using Cons.prems(1) by (cases l; simp)+
  moreover have "read_head (head @ l @ [13, 10]) ?rest = Some ((head @ l @ [13, 10]) @ header_bytes ls @ [13, 10], body)"
    by (rule Cons.IH) (use Cons.prems in \<open>simp_all add: header_bytes_def\<close>)
  ultimately show ?case using room by (subst read_head.simps) (simp add: header_bytes_def Let_def)
qed

text \<open>A text of lines, each ended by a carriage return and a newline, is read as those lines.\<close>

lemma str_lines_crlf:
  assumes "\<forall>l \<in> set ls. 10 \<notin> set l"
  shows "str_lines (concat (map (\<lambda>l. l @ crlf) ls)) = ls"
proof -
  have "split_on (\<lambda>c. c = 10) (concat (map (\<lambda>l. l @ crlf) ls)) = map (\<lambda>l. l @ [13]) ls @ [[]]"
    using assms
  proof (induction ls)
    case (Cons l ls)
    have "split_on (\<lambda>c. c = 10) ((l @ [13]) @ 10 # s) = (l @ [13]) # split_on (\<lambda>c. c = 10) s" for s
      by (rule split_on_append) (use Cons.prems in auto)
    with Cons show ?case by (simp add: crlf_def)
  qed simp
  then show ?thesis by (simp add: str_lines_def Let_def strip_cr_def map_idI)
qed

lemma split_words:
  assumes "\<forall>c \<in> set a \<union> set b \<union> set d. \<not> is_whitespace c" and "a \<noteq> []" "b \<noteq> []" "d \<noteq> []"
  shows "split_whitespace (a @ [32] @ b @ [32] @ d) = [a, b, d]"
  using assms by (simp add: split_whitespace_def split_on_append split_on_none is_whitespace_def)

text \<open>The request a browser makes with a cookie: the request line and one header.\<close>

definition browser_request :: "ustring \<Rightarrow> ustring \<Rightarrow> ustring \<Rightarrow> u8 list \<Rightarrow> u8 list" where
  "browser_request method path cookie body =
     utf8_bytes (method @ [32] @ path @ [32] @ lit ''HTTP/1.1'' @ crlf @ lit ''Cookie: '' @ cookie @ crlf @ crlf) @ body"

text \<open>What a browser stores of a cookie it is set, and sends back: the part before the first semicolon.\<close>

definition stored_cookie :: "response \<Rightarrow> ustring option" where
  "stored_cookie r = (case r of WithCookie _ cookie \<Rightarrow> Some (takeWhile (\<lambda>c. c \<noteq> 59) cookie) | _ \<Rightarrow> None)"

lemma cookie_token_device:
  assumes "s \<noteq> []" and "length s \<le> 128" and "\<forall>c \<in> set s. is_hexdigit c"
  shows "cookie_token (32 # lit ''sh_device='' @ s) = Some s"
proof -
  have plain: "c \<in> set (32 # lit ''sh_device='' @ s) \<Longrightarrow> c \<noteq> 59" for c
    using assms(3) by (auto simp: lit_def is_hexdigit_def)
  have "\<not> is_whitespace c" if "c \<in> set (lit ''sh_device='' @ s)" for c
    using assms(3) that by (auto simp: lit_def is_hexdigit_def is_whitespace_def)
  then have "trim (lit ''sh_device='' @ s) = lit ''sh_device='' @ s" by (intro trim_none) blast
  moreover have "trim (32 # t) = trim t" for t by (simp add: trim_def trim_start_def is_whitespace_def)
  ultimately have "trim (32 # lit ''sh_device='' @ s) = lit ''sh_device='' @ s" by simp
  moreover have "sanitized_token s = s" using assms(2,3) by (simp add: sanitized_token_def filter_id_conv)
  ultimately show ?thesis using assms(1) plain by (simp add: cookie_token_def split_on_none)
qed

lemma read_cookie_request:
  assumes "\<forall>c \<in> set method \<union> set path. is_scalar c \<and> \<not> is_whitespace c" and "method \<noteq> []" "path \<noteq> []" "63 \<notin> set path"
    and "s \<noteq> []" and "length s \<le> 128" and "\<forall>c \<in> set s. is_hexdigit c"
    and "length (browser_request method path (lit ''sh_device='' @ s) []) \<le> max_header_bytes"
  shows "read_request (browser_request method path (lit ''sh_device='' @ s) body) =
    Some (\<lparr>rq_method = method, rq_path = path, rq_session = None, rq_token = Some s, rq_forwarded = False, rq_length = 0\<rparr>, body)"
proof -
  let ?first = "method @ [32] @ path @ [32] @ lit ''HTTP/1.1''"
  let ?second = "lit ''Cookie: sh_device='' @ s"
  let ?text = "concat (map (\<lambda>l. l @ crlf) [?first, ?second, []])"
  have req: "browser_request method path (lit ''sh_device='' @ s) body = utf8_bytes ?text @ body" for body
    by (simp add: browser_request_def crlf_def lit_def)
  have scalar: "\<forall>c \<in> set ?text. is_scalar c"
    using assms(1,7) by (auto simp: crlf_def lit_def is_scalar_def is_hexdigit_def)
  have no_newline: "\<forall>l \<in> set [?first, ?second, []]. 10 \<notin> set l"
  proof -
    have "is_whitespace 10" "\<not> is_hexdigit 10" by (simp_all add: is_whitespace_def is_hexdigit_def)
    then have "10 \<notin> set method" "10 \<notin> set path" "10 \<notin> set s" using assms(1,7) by blast+
    then show ?thesis by (simp add: lit_def)
  qed
  have newline_byte: "10 \<notin> set (utf8_bytes l)" if "10 \<notin> set l" "\<forall>c \<in> set l. is_scalar c" for l
    using that by (induction l) (auto simp: newline_char)
  have bytes: "utf8_bytes ?text = header_bytes [utf8_bytes ?first, utf8_bytes ?second] @ [13, 10]"
    by (simp add: header_bytes_def crlf_def utf8_char_def utf8_codes_def)
  have "read_head [] (utf8_bytes ?text @ body) = Some (utf8_bytes ?text, body)"
  proof -
    have "length (header_bytes [utf8_bytes ?first, utf8_bytes ?second]) + 2 \<le> max_header_bytes"
      using assms(8) unfolding req append_Nil2 bytes length_append by simp
    moreover have "10 \<notin> set (utf8_bytes ?first)" "10 \<notin> set (utf8_bytes ?second)"
      by (rule newline_byte; use no_newline scalar in auto)+
    moreover have "utf8_bytes ?first \<noteq> []" "utf8_bytes ?second \<noteq> []"
      by (simp_all add: lit_def utf8_char_def utf8_codes_def)
    ultimately show ?thesis
      unfolding bytes append.assoc by (subst read_head_lines) simp_all
  qed
  moreover have "parse_head ?text = \<lparr>rq_method = method, rq_path = path, rq_session = None, rq_token = Some s,
      rq_forwarded = False, rq_length = 0\<rparr>"
  proof -
    have lines: "str_lines ?text = [?first, ?second, []]" by (rule str_lines_crlf [OF no_newline])
    have words: "split_whitespace ?first = [method, path, lit ''HTTP/1.1'']"
      using assms(1-3) by (intro split_words) (auto simp: lit_def is_whitespace_def)
    have header: "read_header ?second (0, None, False) = (0, Some s, False)"
    proof -
      have "split_once [58] (lit ''Cookie'' @ 58 # (32 # lit ''sh_device='' @ s)) = Some (lit ''Cookie'', 32 # lit ''sh_device='' @ s)"
        by (rule split_once_char) (simp add: lit_def)
      moreover have "?second = lit ''Cookie'' @ 58 # (32 # lit ''sh_device='' @ s)" by (simp add: lit_def)
      ultimately show ?thesis
        using cookie_token_device [OF assms(5-7)]
        by (simp add: read_header_def forwarding_headers_def eq_ignore_ascii_case_def)
          (simp add: lit_def to_ascii_lowercase_def ascii_lower_def)
    qed
    have "read_header [] so_far = so_far" for so_far by (simp add: read_header_def split_once_absent)
    with lines words header assms(4) show ?thesis
      by (simp add: parse_head_def nth_or_empty_def split_once_absent requested_session_def strip_prefix_def lit_def)
  qed
  ultimately show ?thesis
    by (simp only: req read_request_def from_utf8_lossy_bytes [OF scalar] option.map prod.case)
qed

lemma stored_device_cookie:
  assumes "\<forall>c \<in> set s. is_hexdigit c"
  shows "stored_cookie (pair_answer forwarded (Decided (Inr s))) = Some (lit ''sh_device='' @ s)"
proof -
  have upto: "takeWhile (\<lambda>c. c \<noteq> 59) (a @ 59 # b) = a" if "59 \<notin> set a" for a b :: ustring
    using that by (induction a) auto
  have "device_cookie s forwarded = (lit ''sh_device='' @ s) @ 59 # (tl (lit ''; Path=/; Max-Age='')
      @ show_word cookie_lifetime_seconds @ lit ''; HttpOnly; SameSite=Strict'' @ (if forwarded then lit ''; Secure'' else []))"
    by (simp add: device_cookie_def lit_def)
  moreover have "59 \<notin> set (lit ''sh_device='' @ s)" using assms by (auto simp: lit_def is_hexdigit_def)
  ultimately have "takeWhile (\<lambda>c. c \<noteq> 59) (device_cookie s forwarded) = lit ''sh_device='' @ s" by (metis upto)
  then show ?thesis by (simp add: stored_cookie_def pair_answer_def)
qed

text \<open>
  Pairing logs a browser in. When an approval answers a browser with the token of a device
  the daemon has recorded, the browser is set a cookie; every later request that carries the part
  of it a browser sends back is read as that request with that token, so that it is admitted, and
  asking for the session reports it as paired.
\<close>

theorem cookie_admits:
  assumes "bytes \<noteq> []" and "length bytes \<le> 64" and "dv_token_sha256 d = we_fingerprint env (hex bytes)"
    and "d \<in> set (dk_devices (wb_desk w))"
    and "\<forall>c \<in> set method \<union> set path. is_scalar c \<and> \<not> is_whitespace c" and "method \<noteq> []" "path \<noteq> []" "63 \<notin> set path"
    and "length (browser_request method path (lit ''sh_device='' @ hex bytes) []) \<le> max_header_bytes"
  shows "\<exists>cookie req. stored_cookie (pair_answer forwarded (Decided (Inr (hex bytes)))) = Some cookie
    \<and> read_request (browser_request method path cookie body) = Some (req, body)
    \<and> rq_method req = method \<and> rq_path req = path \<and> admitted env w req
    \<and> (method = lit ''GET'' \<and> path = lit ''/session'' \<longrightarrow>
         handle_request env req body w = (w, Json (session_body True (wb_version w)), None))"
proof -
  let ?req = "\<lparr>rq_method = method, rq_path = path, rq_session = None, rq_token = Some (hex bytes), rq_forwarded = False, rq_length = 0\<rparr>"
  have "length (hex bytes) \<noteq> 0" "length (hex bytes) \<le> 128" using assms(1,2) by (simp_all add: length_hex)
  then have some: "hex bytes \<noteq> []" "length (hex bytes) \<le> 128" by auto
  have "read_request (browser_request method path (lit ''sh_device='' @ hex bytes) body) = Some (?req, body)"
    by (intro read_cookie_request) (fact assms some hex_chars)+
  moreover have "admitted env w ?req"
    using assms(3,4) by (auto simp: admitted_def admits_def matches_bytes intro!: bexI [of _ d])
  moreover have "handle_request env ?req body w = (w, Json (session_body True (wb_version w)), None)"
    if "method = lit ''GET''" "path = lit ''/session''"
    using that calculation(2) by (simp add: handle_request_def Let_def) (simp add: lit_def)
  ultimately show ?thesis using stored_device_cookie [OF hex_chars] by fastforce
qed

section \<open>The stream carries lines\<close>

fun arrived :: "arrival list \<Rightarrow> u8 list" where
  "arrived [] = []"
| "arrived (Arrive b # as) = b # arrived as"
| "arrived (KeepaliveTick # as) = arrived as"

lemma event_not_comment: "event_of line \<noteq> keepalive_comment"
  by (simp add: event_of_def keepalive_comment_def lit_def utf8_char_def utf8_codes_def)

text \<open>The events of a list of bytes, as if no timer ran.\<close>

lemma stream_without_comments:
  "filter (\<lambda>chunk. chunk \<noteq> keepalive_comment) (stream_events line arrivals)
   = stream_events line (map Arrive (arrived arrivals))"
  by (induction line arrivals rule: stream_events.induct) (simp_all add: event_not_comment)

lemma stream_line:
  assumes "10 \<notin> set l" and "length line + length l < max_message_bytes"
  shows "stream_events line (map Arrive (l @ [10]) @ rest) = event_of (line @ l @ [10]) # stream_events [] rest"
  using assms by (induction l arbitrary: line) simp_all

text \<open>What the browser takes out of an event: the text after \<open>data: \<close>, without the line ends.\<close>

definition event_data :: "u8 list \<Rightarrow> u8 list" where
  "event_data chunk = butlast (butlast (drop 6 chunk))"

lemma event_data_line: "event_data (event_of (l @ [10])) = l"
  by (simp add: event_data_def event_of_def lit_def utf8_char_def utf8_codes_def butlast_append)

lemma stream_lines:
  assumes "\<forall>l \<in> set ls. 10 \<notin> set l \<and> length l < max_message_bytes"
  shows "stream_events [] (map Arrive (concat (map (\<lambda>l. l @ [10]) ls))) = map (\<lambda>l. event_of (l @ [10])) ls"
  using assms
proof (induction ls)
  case (Cons l ls)
  then show ?case using stream_line [of l "[]"] by simp
qed simp

text \<open>
  The browser receives the daemon's messages, whole and in order, whatever the keepalive
  timer does. However the ticks fall between the bytes of the messages the daemon sends, also in
  the middle of one, leaving out the comments the ticks cause gives one event per message, and
  what the browser reads out of the events are the messages.
\<close>

theorem stream_carries_messages:
  assumes "line_codec to_vec from_slice" and "\<forall>m \<in> set ms. encode to_vec m = Inr (sent m)"
    and "arrived arrivals = concat (map sent ms)"
  shows "map (decode from_slice \<circ> event_data) (filter (\<lambda>chunk. chunk \<noteq> keepalive_comment) (stream_events [] arrivals))
    = map Inr ms"
proof -
  have line: "sent m = butlast (sent m) @ [10] \<and> 10 \<notin> set (butlast (sent m)) \<and> length (butlast (sent m)) < max_message_bytes
      \<and> decode from_slice (butlast (sent m)) = Inr m" if "m \<in> set ms" for m
    using assms(1,2) that by (auto simp: line_codec_def encode_eq_Inr decode_def)
  let ?ls = "map (\<lambda>m. butlast (sent m)) ms"
  have "concat (map sent ms) = concat (map (\<lambda>l. l @ [10]) ?ls)"
    using line by (simp add: comp_def cong: map_cong)
  then have "filter (\<lambda>chunk. chunk \<noteq> keepalive_comment) (stream_events [] arrivals) = map (\<lambda>l. event_of (l @ [10])) ?ls"
    using line stream_lines [of ?ls] by (simp add: stream_without_comments assms(3))
  moreover have "decode from_slice (event_data (event_of (butlast (sent m) @ [10]))) = Inr m" if "m \<in> set ms" for m
    unfolding event_data_line using line [OF that] by blast
  ultimately show ?thesis by (simp only: map_map o_def) (rule map_cong [OF refl], simp only:)
qed

section \<open>Two defects\<close>

text \<open>
  A browser that opens its stream again under the same session is cut off when the old stream
  ends: the end removes the session, whoever has it.
\<close>

lemma reopened_stream_cut_off:
  assumes "rq_session req = Some session" and "we_attach env"
    and "events_route env req w = (w1, EventStream session first)"
    and "events_route env req w1 = (w2, EventStream session second)"
    and "rq_session posted = Some session" and "read_body (rq_length posted) rest = Some body"
  shows "first \<noteq> second \<and> bt_get (wb_open w2) session = Some second
    \<and> command_route env posted rest (close_stream session w2) = (Status conflict (lit ''no open event stream''), None)"
  using assms by (auto simp: events_route_def command_route_def close_stream_def)

text \<open>
  The reader of a pairing request takes the first occurrence of a quoted field name, also when
  it is another field's value.
\<close>

lemma device_named_confirmation:
  "json_field (123 # 34 # lit ''name'' @ [34, 58, 34] @ lit ''confirmation'' @ [34, 44, 34] @ lit ''confirmation''
     @ [34, 58, 34] @ lit ''123456'' @ [34, 125]) (lit ''confirmation'') = None"
  by (simp add: json_field_def lit_def strip_prefix_def trim_start_def is_whitespace_def)

section \<open>Witnesses\<close>

definition sample_subscription :: push_subscription where
  "sample_subscription = \<lparr>ps_endpoint = lit ''https://push.example/1'', ps_p256dh = [], ps_auth = []\<rparr>"

definition sample_env :: web_env where
  "sample_env = \<lparr>we_fingerprint = (\<lambda>t. t), we_secret = Inr [1], we_alive = True, we_now = 2, we_now_ms = 5, we_instant = 0,
     we_written = Inr (), we_encoded_len = (\<lambda>_. 10), we_subscription = (\<lambda>_. Some sample_subscription),
     we_from_slice = (\<lambda>_. Inl []), we_to_vec = (\<lambda>_. Inl []), we_attach = True, we_forwarding = Forwarded\<rparr>"

definition paired_web :: web where
  "paired_web = \<lparr>wb_desk = (desk_new True [] False)\<lparr>dk_devices := [\<lparr>dv_name = lit ''phone'', dv_token_sha256 = hex [171], dv_paired_at_ms = 0\<rparr>]\<rparr>,
     wb_push = Some NoFile, wb_open = bt_empty, wb_streams = 0, wb_version = lit ''1'', wb_vapid = Some (lit ''key''),
     wb_wake = Some (Some (lit ''secret''), 0)\<rparr>"

definition wake_request :: "ustring option \<Rightarrow> request" where
  "wake_request tok = \<lparr>rq_method = lit ''GET'', rq_path = lit ''/push/wake'', rq_session = None, rq_token = tok,
     rq_forwarded = False, rq_length = 0\<rparr>"

theorem unpaired_learns_nothing_witness:
  "fst (snd (handle_request sample_env (wake_request (Some (lit ''ff''))) [] paired_web))
    = fst (snd (handle_request sample_env (wake_request (Some (lit ''ff''))) [] (paired_web\<lparr>wb_wake := None\<rparr>)))
   \<and> \<not> admitted sample_env paired_web (wake_request (Some (lit ''ff'')))
   \<and> fst (snd (handle_request sample_env (wake_request (Some (hex [171]))) [] paired_web)) = Json (lit ''secret'')"
proof -
  let ?req = "wake_request (Some (lit ''ff''))"
  obtain v a s where v: "handle_request sample_env ?req [] paired_web = (v, a, s)" using prod_cases3 by blast
  obtain v' a' s' where v': "handle_request sample_env ?req [] (paired_web\<lparr>wb_wake := None\<rparr>) = (v', a', s')" using prod_cases3 by blast
  have out: "\<not> admitted sample_env (paired_web\<lparr>wb_wake := None\<rparr>) ?req" "\<not> admitted sample_env paired_web ?req" by code_simp+
  have "a = a'" using unpaired_learns_nothing [OF v v' _ _ out(1)] by simp
  moreover have "fst (snd (handle_request sample_env (wake_request (Some (hex [171]))) [] paired_web)) = Json (lit ''secret'')"
    by code_simp
  ultimately show ?thesis using v v' out by simp
qed

theorem cookie_admits_witness:
  "\<exists>cookie req. stored_cookie (pair_answer True (Decided (Inr (hex [171])))) = Some cookie
    \<and> read_request (browser_request (lit ''GET'') (lit ''/session'') cookie []) = Some (req, [])
    \<and> handle_request sample_env req [] paired_web = (paired_web, Json (session_body True (lit ''1'')), None)"
proof -
  have "length (browser_request (lit ''GET'') (lit ''/session'') (lit ''sh_device='' @ hex [171]) []) \<le> 100" by code_simp
  then have short: "length (browser_request (lit ''GET'') (lit ''/session'') (lit ''sh_device='' @ hex [171]) []) \<le> max_header_bytes"
    by (simp add: max_header_bytes_def)
  have plain: "\<forall>c \<in> set (lit ''GET'') \<union> set (lit ''/session''). is_scalar c \<and> \<not> is_whitespace c"
    by (simp add: lit_def is_scalar_def is_whitespace_def)
  from cookie_admits [of "[171]" "\<lparr>dv_name = lit ''phone'', dv_token_sha256 = hex [171], dv_paired_at_ms = 0\<rparr>" sample_env
      paired_web "lit ''GET''" "lit ''/session''" True "[]", OF _ _ _ _ plain _ _ _ short]
  show ?thesis by (auto simp: sample_env_def paired_web_def lit_def)
qed

theorem stream_carries_messages_witness:
  "line_codec bool_vec bool_slice \<and>
   map (decode bool_slice \<circ> event_data) (filter (\<lambda>chunk. chunk \<noteq> keepalive_comment)
     (stream_events [] [Arrive 116, KeepaliveTick, Arrive 114, Arrive 117, Arrive 101, Arrive 10, KeepaliveTick])) = [Inr True]"
proof -
  have codec: "line_codec bool_vec bool_slice"
    by (auto simp: line_codec_def bool_vec_def bool_slice_def)
  moreover have "\<forall>m \<in> set [True]. encode bool_vec m = Inr [116, 114, 117, 101, 10]"
    by (simp add: encode_def bool_vec_def max_message_bytes_def)
  moreover have "arrived [Arrive 116, KeepaliveTick, Arrive 114, Arrive 117, Arrive 101, Arrive 10, KeepaliveTick]
      = concat (map (\<lambda>_. [116, 114, 117, 101, 10]) [True])" by simp
  ultimately have "map (decode bool_slice \<circ> event_data) (filter (\<lambda>chunk. chunk \<noteq> keepalive_comment)
     (stream_events [] [Arrive 116, KeepaliveTick, Arrive 114, Arrive 117, Arrive 101, Arrive 10, KeepaliveTick])) = map Inr [True]"
    by (rule stream_carries_messages)
  with codec show ?thesis by (simp only: list.map simp_thms)
qed

end
