(* ===== verification/Download.thy ===== *)
theory Download
  imports Std_Text Protocol
begin

text \<open>
  Reading a file off a host: the daemon's task that sends it in chunks as the client grants
  credit (\<open>download\<close> in \<open>src/src/daemon/server.rs\<close>), the receiving end that counts, checks and
  puts it in place (\<open>src/src/file_save.rs\<close>), and the client's handling of the messages in
  between (\<open>src/src/tui.rs\<close>). The host's file is a list of bytes of which a read takes some;
  SHA-256 and the outcome of writing to the disk are parameters.
\<close>

section \<open>The receiving end\<close>

definition save_window_chunks :: u32 where "save_window_chunks = 8"

record file_save =
  sv_request :: request_id
  sv_destination :: ustring
  sv_length :: u64
  sv_digest :: ustring
  sv_received :: u64
  sv_written :: "u8 list"
  sv_outstanding :: u32

datatype save_progress = Pull u32 | WaitingForMore

text \<open>\<open>Path::file_name\<close> and \<open>Path::join\<close> with a name.\<close>

definition file_name :: "ustring \<Rightarrow> ustring option" where
  "file_name path =
     (let parts = filter (\<lambda>part. part \<noteq> [] \<and> part \<noteq> [46]) (split_on (\<lambda>c. c = 47) path)
      in if parts = [] \<or> last parts = [46, 46] then None else Some (last parts))"

definition join_path :: "ustring \<Rightarrow> ustring \<Rightarrow> ustring" where
  "join_path directory name =
     (if directory = [] then name else if last directory = 47 then directory @ name else directory @ 47 # name)"

type_synonym files = "ustring \<Rightarrow> u8 list option"

definition save_begin ::
    "files \<Rightarrow> unit result \<Rightarrow> request_id \<Rightarrow> ustring \<Rightarrow> ustring \<Rightarrow> u64 \<Rightarrow> ustring \<Rightarrow> file_save result" where
  "save_begin files opened request directory name len digest =
     (case file_name name of
        None \<Rightarrow> Inl (lit ''that file has no name to save it under'')
      | Some name \<Rightarrow>
          (let destination = join_path directory name
           in if files destination \<noteq> None then Inl (destination @ lit '' already exists'')
              else and_then opened (\<lambda>_. Inr \<lparr>sv_request = request, sv_destination = destination, sv_length = len,
                sv_digest = digest, sv_received = 0, sv_written = [], sv_outstanding = 0\<rparr>)))"

definition save_start :: "file_save \<Rightarrow> file_save \<times> save_progress" where
  "save_start s = (s\<lparr>sv_outstanding := save_window_chunks\<rparr>, Pull save_window_chunks)"

definition save_chunk :: "unit result \<Rightarrow> u8 list \<Rightarrow> file_save \<Rightarrow> (file_save \<times> save_progress) result" where
  "save_chunk written bytes s =
     (let remaining = saturating_sub (sv_length s) (sv_received s)
      in if min (length bytes) (2 ^ 64 - 1) > unat remaining then Inl (lit ''that host sent more than it offered'')
         else and_then written (\<lambda>_.
           let s = s\<lparr>sv_written := sv_written s @ bytes, sv_received := sv_received s + of_nat (length bytes),
                     sv_outstanding := saturating_sub (sv_outstanding s) 1\<rparr>
           in Inr (if sv_received s \<ge> sv_length s \<or> sv_outstanding s > 0 then (s, WaitingForMore)
                   else (s\<lparr>sv_outstanding := save_window_chunks\<rparr>, Pull save_window_chunks))))"

text \<open>Checking what arrived and moving it into place, which fails when something is there by now.\<close>

definition save_finish ::
    "(u8 list \<Rightarrow> u8 list) \<Rightarrow> unit result \<Rightarrow> files \<Rightarrow> file_save \<Rightarrow> files \<times> ustring result" where
  "save_finish sha256 synced files s =
     (if sv_received s \<noteq> sv_length s
      then (files, Inl (lit ''that transfer stopped after '' @ show_word (sv_received s) @ lit '' of ''
        @ show_word (sv_length s) @ lit '' bytes''))
      else if sv_digest s \<noteq> [] \<and> hex (sha256 (sv_written s)) \<noteq> sv_digest s
      then (files, Inl (lit ''that file did not match the digest its host reported''))
      else (case synced of
          Inl e \<Rightarrow> (files, Inl e)
        | Inr _ \<Rightarrow>
            if files (sv_destination s) \<noteq> None then (files, Inl (lit ''failed to save '' @ sv_destination s))
            else (files(sv_destination s \<mapsto> sv_written s), Inr (sv_destination s))))"

section \<open>The sending end\<close>

definition download_chunk_bytes :: nat where "download_chunk_bytes = 256 * 1024"
definition max_outstanding_chunks :: u32 where "max_outstanding_chunks = 8"

text \<open>The task's variables, and what the host has not been read of yet.\<close>

record download_task =
  dl_request :: request_id
  dl_length :: u64
  dl_sent :: u64
  dl_credit :: u32
  dl_source :: "u8 list"

datatype download_outcome =
    WantsCredit
  | Sends "u8 list" download_task
  | Runs_short ustring
  | All_sent

text \<open>One turn of the loop; \<open>size_read\<close> bounds what the next read returns.\<close>

definition download_turn :: "nat \<Rightarrow> download_task \<Rightarrow> download_outcome" where
  "download_turn size_read d =
     (if dl_length d \<le> dl_sent d then All_sent
      else if dl_credit d = 0 then WantsCredit
      else (let wanted = min (unat (dl_length d - dl_sent d)) download_chunk_bytes;
                bytes = take (min wanted (max 1 size_read)) (dl_source d)
            in if bytes = []
               then Runs_short (lit ''the host sent '' @ show_word (dl_sent d) @ lit '' of the ''
                 @ show_word (dl_length d) @ lit '' bytes it declared'')
               else Sends bytes (d\<lparr>dl_sent := dl_sent d + of_nat (length bytes), dl_credit := dl_credit d - 1,
                      dl_source := drop (length bytes) (dl_source d)\<rparr>)))"

definition grant_credit :: "u32 \<Rightarrow> download_task \<Rightarrow> download_task" where
  "grant_credit granted d = d\<lparr>dl_credit := min (saturating_add (dl_credit d) granted) max_outstanding_chunks\<rparr>"

section \<open>The client in between\<close>

text \<open>What the terminal client keeps of the file it is saving.\<close>

record saving =
  sa_save :: "file_save option"
  sa_request :: "request_id option"

definition save_offered ::
    "files \<Rightarrow> unit result \<Rightarrow> ustring \<Rightarrow> request_id \<Rightarrow> ustring \<Rightarrow> u64 \<Rightarrow> ustring \<Rightarrow> saving \<Rightarrow> saving \<times> client_message option" where
  "save_offered files opened directory request name len digest a =
     (if sa_request a \<noteq> Some request then (a, None)
      else (case save_begin files opened request directory name len digest of
          Inr s \<Rightarrow> (let (s, progress) = save_start s
                    in (a\<lparr>sa_save := Some s\<rparr>, case progress of Pull n \<Rightarrow> Some (PullDownload request n) | _ \<Rightarrow> None))
        | Inl _ \<Rightarrow> (a\<lparr>sa_request := None\<rparr>, Some (CancelDownload request))))"

definition save_arrived :: "unit result \<Rightarrow> request_id \<Rightarrow> u8 list \<Rightarrow> saving \<Rightarrow> saving \<times> client_message option" where
  "save_arrived written request bytes a = (case sa_save a of
     None \<Rightarrow> (a, None)
   | Some s \<Rightarrow>
       if sv_request s \<noteq> request then (a, None)
       else (case save_chunk written bytes s of
           Inr (s, Pull n) \<Rightarrow> (a\<lparr>sa_save := Some s\<rparr>, Some (PullDownload request n))
         | Inr (s, WaitingForMore) \<Rightarrow> (a\<lparr>sa_save := Some s\<rparr>, None)
         | Inl _ \<Rightarrow> (\<lparr>sa_save = None, sa_request = None\<rparr>, Some (CancelDownload request))))"

text \<open>The save is taken before its request is compared.\<close>

definition save_finished ::
    "(u8 list \<Rightarrow> u8 list) \<Rightarrow> unit result \<Rightarrow> request_id \<Rightarrow> files \<times> saving \<Rightarrow> (files \<times> saving) \<times> ustring result option" where
  "save_finished sha256 synced request fa = (case fa of (files, a) \<Rightarrow>
     (case sa_save a of
        None \<Rightarrow> ((files, a), None)
      | Some s \<Rightarrow>
          (let a = a\<lparr>sa_save := None\<rparr>
           in if sv_request s \<noteq> request then ((files, a), None)
              else let (files, r) = save_finish sha256 synced files s
                in ((files, a\<lparr>sa_request := None\<rparr>), Some r))))"

definition cancel_file_save :: "saving \<Rightarrow> saving \<times> client_message option" where
  "cancel_file_save a = (case sa_request a of
     None \<Rightarrow> (a, None)
   | Some request \<Rightarrow> (\<lparr>sa_save = None, sa_request = None\<rparr>, Some (CancelDownload request)))"

text \<open>Asking for a file, refused only while one is being written.\<close>

definition save_requested :: "request_id \<Rightarrow> saving \<Rightarrow> saving result" where
  "save_requested request a = (if sa_save a \<noteq> None then Inl (lit ''a file is already being saved'')
     else Inr (a\<lparr>sa_request := Some request\<rparr>))"

section \<open>Both ends together\<close>

text \<open>
  One download: the task and its end, the messages and grants on their way, and the client. A
  step is a turn of the task or the client taking the next message; both queues keep their order.
\<close>

record download_run =
  dr_task :: download_task
  dr_ended :: bool
  dr_outbox :: "server_message list"
  dr_grants :: "u32 list"
  dr_saving :: saving
  dr_files :: files
  dr_result :: "ustring result option"

record download_offer =
  of_request :: request_id
  of_name :: ustring
  of_length :: u64
  of_digest :: ustring
  of_directory :: ustring
  of_contents :: "u8 list"

definition run_start :: "download_offer \<Rightarrow> files \<Rightarrow> download_run" where
  "run_start p files = \<lparr>dr_task = \<lparr>dl_request = of_request p, dl_length = of_length p, dl_sent = 0, dl_credit = 0,
       dl_source = of_contents p\<rparr>,
     dr_ended = False, dr_outbox = [DownloadOffer (of_request p) (of_name p) (of_length p) (of_digest p)], dr_grants = [],
     dr_saving = \<lparr>sa_save = None, sa_request = Some (of_request p)\<rparr>, dr_files = files, dr_result = None\<rparr>"

text \<open>The client's answer reaches the daemon: credit is queued, a cancellation ends the task.\<close>

definition client_asks :: "client_message option \<Rightarrow> download_run \<Rightarrow> download_run" where
  "client_asks m t = (case m of
     Some (PullDownload _ n) \<Rightarrow> t\<lparr>dr_grants := dr_grants t @ [n]\<rparr>
   | Some (CancelDownload _) \<Rightarrow> t\<lparr>dr_ended := True\<rparr>
   | _ \<Rightarrow> t)"

definition client_takes :: "(u8 list \<Rightarrow> u8 list) \<Rightarrow> ustring \<Rightarrow> server_message \<Rightarrow> download_run \<Rightarrow> download_run" where
  "client_takes sha256 directory m t = (case m of
     DownloadOffer request name len digest \<Rightarrow>
       (let (a, asked) = save_offered (dr_files t) (Inr ()) directory request name len digest (dr_saving t)
        in client_asks asked (t\<lparr>dr_saving := a\<rparr>))
   | DownloadChunk request bytes \<Rightarrow>
       (let (a, asked) = save_arrived (Inr ()) request bytes (dr_saving t) in client_asks asked (t\<lparr>dr_saving := a\<rparr>))
   | DownloadFinished request \<Rightarrow>
       (let ((files, a), r) = save_finished sha256 (Inr ()) request (dr_files t, dr_saving t)
        in t\<lparr>dr_files := files, dr_saving := a, dr_result := (case r of None \<Rightarrow> dr_result t | some \<Rightarrow> some)\<rparr>)
   | _ \<Rightarrow> t)"

inductive download_step :: "(u8 list \<Rightarrow> u8 list) \<Rightarrow> ustring \<Rightarrow> download_run \<Rightarrow> download_run \<Rightarrow> bool" for sha256 directory where
  reads: "\<not> dr_ended t \<Longrightarrow> download_turn n (dr_task t) = Sends bytes d \<Longrightarrow>
    download_step sha256 directory t (t\<lparr>dr_task := d, dr_outbox := dr_outbox t @ [DownloadChunk (dl_request d) bytes]\<rparr>)"
| granted: "\<not> dr_ended t \<Longrightarrow> download_turn n (dr_task t) = WantsCredit \<Longrightarrow> dr_grants t = g # gs \<Longrightarrow>
    download_step sha256 directory t (t\<lparr>dr_task := grant_credit g (dr_task t), dr_grants := gs\<rparr>)"
| short: "\<not> dr_ended t \<Longrightarrow> download_turn n (dr_task t) = Runs_short e \<Longrightarrow>
    download_step sha256 directory t (t\<lparr>dr_ended := True, dr_outbox := dr_outbox t @ [ErrorMsg (Some (dl_request (dr_task t))) e]\<rparr>)"
| sent: "\<not> dr_ended t \<Longrightarrow> download_turn n (dr_task t) = All_sent \<Longrightarrow>
    download_step sha256 directory t (t\<lparr>dr_ended := True, dr_outbox := dr_outbox t @ [DownloadFinished (dl_request (dr_task t))]\<rparr>)"
| takes: "dr_outbox t = m # rest \<Longrightarrow>
    download_step sha256 directory t (client_takes sha256 directory m (t\<lparr>dr_outbox := rest\<rparr>))"

section \<open>The file arrives\<close>

text \<open>The file a host serves and a client that can save it.\<close>

definition offer_ok :: "(u8 list \<Rightarrow> u8 list) \<Rightarrow> files \<Rightarrow> download_offer \<Rightarrow> ustring \<Rightarrow> bool" where
  "offer_ok sha256 files p destination \<longleftrightarrow>
     unat (of_length p) \<le> length (of_contents p)
     \<and> (of_digest p = [] \<or> of_digest p = hex (sha256 (take (unat (of_length p)) (of_contents p))))
     \<and> (\<exists>name. file_name (of_name p) = Some name \<and> destination = join_path (of_directory p) name)
     \<and> files destination = None"

text \<open>The task has sent a part of the file and reads on from there.\<close>

definition task_ok :: "download_offer \<Rightarrow> download_task \<Rightarrow> bool" where
  "task_ok p d \<longleftrightarrow> dl_request d = of_request p \<and> dl_length d = of_length p \<and> dl_sent d \<le> of_length p
     \<and> dl_source d = drop (unat (dl_sent d)) (of_contents p) \<and> dl_credit d \<le> 8"

definition arriving :: "download_offer \<Rightarrow> u8 list list \<Rightarrow> bool \<Rightarrow> server_message list" where
  "arriving p cs ended = map (DownloadChunk (of_request p)) cs @ (if ended then [DownloadFinished (of_request p)] else [])"

text \<open>Before the offer is taken, while chunks are on their way, and when the file is saved.\<close>

definition run_offered :: "files \<Rightarrow> download_offer \<Rightarrow> download_run \<Rightarrow> bool" where
  "run_offered files p t \<longleftrightarrow> dr_outbox t = DownloadOffer (of_request p) (of_name p) (of_length p) (of_digest p) # arriving p [] (dr_ended t)
     \<and> dr_saving t = \<lparr>sa_save = None, sa_request = Some (of_request p)\<rparr> \<and> dr_result t = None \<and> dr_files t = files
     \<and> dr_grants t = [] \<and> dl_credit (dr_task t) = 0 \<and> dl_sent (dr_task t) = 0"

definition run_saving :: "files \<Rightarrow> download_offer \<Rightarrow> ustring \<Rightarrow> download_run \<Rightarrow> bool" where
  "run_saving files p destination t \<longleftrightarrow> (\<exists>cs s. dr_outbox t = arriving p cs (dr_ended t)
     \<and> dr_saving t = \<lparr>sa_save = Some s, sa_request = Some (of_request p)\<rparr> \<and> dr_result t = None \<and> dr_files t = files
     \<and> sv_request s = of_request p \<and> sv_destination s = destination \<and> sv_length s = of_length p \<and> sv_digest s = of_digest p
     \<and> sv_written s @ concat cs = take (unat (dl_sent (dr_task t))) (of_contents p)
     \<and> unat (sv_received s) = length (sv_written s)
     \<and> unat (sv_outstanding s) = unat (dl_credit (dr_task t)) + sum_list (map unat (dr_grants t)) + length cs
     \<and> (dr_grants t = [] \<or> dr_grants t = [8]) \<and> sv_outstanding s \<le> 8
     \<and> (sv_outstanding s = 0 \<longrightarrow> sv_received s = of_length p))"

definition run_saved :: "download_offer \<Rightarrow> ustring \<Rightarrow> download_run \<Rightarrow> bool" where
  "run_saved p destination t \<longleftrightarrow> dr_result t = Some (Inr destination) \<and> dr_outbox t = [] \<and> dr_ended t
     \<and> dr_files t destination = Some (take (unat (of_length p)) (of_contents p))"

definition run_ok :: "files \<Rightarrow> download_offer \<Rightarrow> ustring \<Rightarrow> download_run \<Rightarrow> bool" where
  "run_ok files p destination t \<longleftrightarrow> task_ok p (dr_task t) \<and> (dr_ended t \<longrightarrow> dl_sent (dr_task t) = of_length p)
     \<and> (run_offered files p t \<or> run_saving files p destination t \<or> run_saved p destination t)"

lemma turn_sends:
  assumes "download_turn n d = Sends bytes d'" and "task_ok p d" and "unat (of_length p) \<le> length (of_contents p)"
  shows "bytes \<noteq> [] \<and> task_ok p d' \<and> unat (dl_credit d) = Suc (unat (dl_credit d')) \<and> dl_sent d < dl_sent d'
    \<and> unat (dl_sent d') = unat (dl_sent d) + length bytes
    \<and> take (unat (dl_sent d')) (of_contents p) = take (unat (dl_sent d)) (of_contents p) @ bytes"
proof -
  let ?wanted = "min (unat (dl_length d - dl_sent d)) download_chunk_bytes"
  have d: "dl_sent d < dl_length d" "dl_credit d \<noteq> 0" "bytes \<noteq> []"
    "bytes = take (min ?wanted (max 1 n)) (dl_source d)"
    "d' = d\<lparr>dl_sent := dl_sent d + of_nat (length bytes), dl_credit := dl_credit d - 1, dl_source := drop (length bytes) (dl_source d)\<rparr>"
    using assms(1) by (auto simp: download_turn_def Let_def not_le split: if_splits)
  note t = assms(2) [unfolded task_ok_def]
  have left: "unat (dl_length d - dl_sent d) = unat (dl_length d) - unat (dl_sent d)" using d(1) by (simp add: unat_sub)
  then have fits: "unat (dl_sent d) + length bytes \<le> unat (dl_length d)" using d(1,4) by (auto simp: word_less_nat_alt)
  then have small: "unat (of_nat (length bytes) :: u64) = length bytes"
    using unsigned_less [where ?'a = nat, of "dl_length d"] by (simp add: unat_of_nat)
  have sent: "unat (dl_sent d') = unat (dl_sent d) + length bytes"
    using fits small unsigned_less [where ?'a = nat, of "dl_length d"] by (simp add: d(5) unat_word_ariths)
  moreover have "unat (dl_credit d) = Suc (unat (dl_credit d'))"
    using d(2,5) by (simp add: unat_minus_one unat_gt_0)
  moreover have "take (unat (dl_sent d) + length bytes) (of_contents p) = take (unat (dl_sent d)) (of_contents p) @ bytes"
  proof -
    have "take (length bytes) (dl_source d) = bytes" using d(4) by (metis append_eq_conv_conj append_take_drop_id)
    with t show ?thesis by (simp add: take_add)
  qed
  ultimately show ?thesis using d(3,5) t fits
    by (auto simp: task_ok_def word_less_nat_alt word_le_nat_alt add.commute)
qed

lemma chunk_taken:
  assumes "unat (sv_received s) = length (sv_written s)" and "length (sv_written s) + length c \<le> unat (sv_length s)"
  obtains s' progress where "save_chunk (Inr ()) c s = Inr (s', progress)" "sv_written s' = sv_written s @ c"
    "unat (sv_received s') = length (sv_written s')" "sv_request s' = sv_request s" "sv_destination s' = sv_destination s"
    "sv_length s' = sv_length s" "sv_digest s' = sv_digest s"
    "if sv_received s' = sv_length s' \<or> saturating_sub (sv_outstanding s) 1 \<noteq> 0
     then progress = WaitingForMore \<and> sv_outstanding s' = saturating_sub (sv_outstanding s) 1
     else progress = Pull 8 \<and> sv_outstanding s' = 8"
proof -
  have small: "unat (of_nat (length c) :: u64) = length c" "length c < 2 ^ 64"
    using assms(2) unsigned_less [where ?'a = nat, of "sv_length s"] by (simp_all add: unat_of_nat)
  have received: "unat (sv_received s + of_nat (length c)) = length (sv_written s) + length c"
    using assms small unsigned_less [where ?'a = nat, of "sv_length s"] by (simp add: unat_word_ariths)
  then have "(sv_length s \<le> sv_received s + of_nat (length c)) = (sv_received s + of_nat (length c) = sv_length s)"
    using assms(2) by (auto simp: word_le_nat_alt word_unat_eq_iff)
  moreover have "\<not> unat (saturating_sub (sv_length s) (sv_received s)) < length c"
    using assms by (simp add: unat_saturating_sub)
  ultimately have chunk: "save_chunk (Inr ()) c s =
      (let s1 = s\<lparr>sv_written := sv_written s @ c, sv_received := sv_received s + of_nat (length c),
                  sv_outstanding := saturating_sub (sv_outstanding s) 1\<rparr>
       in Inr (if sv_received s1 = sv_length s1 \<or> sv_outstanding s1 \<noteq> 0 then (s1, WaitingForMore)
               else (s1\<lparr>sv_outstanding := 8\<rparr>, Pull 8)))"
    by (simp add: save_chunk_def Let_def save_window_chunks_def word_neq_0_conv)
  show ?thesis
    by (cases "sv_received s + of_nat (length c) = sv_length s \<or> saturating_sub (sv_outstanding s) 1 \<noteq> 0";
        rule that; (subst chunk, simp add: Let_def; fail)?; simp add: received)
qed

lemma client_takes_offer:
  assumes "run_offered files p t" and "offer_ok sha256 files p destination" and "task_ok p (dr_task t)"
    and "dr_outbox t = m # rest"
  shows "run_saving files p destination (client_takes sha256 (of_directory p) m (t\<lparr>dr_outbox := rest\<rparr>))"
  using assms by (auto simp: run_offered_def offer_ok_def client_takes_def save_offered_def save_begin_def save_start_def
      save_window_chunks_def client_asks_def run_saving_def arriving_def)

lemma client_takes_chunk:
  assumes saving: "dr_saving t = \<lparr>sa_save = Some s, sa_request = Some (of_request p)\<rparr>" "sv_request s = of_request p"
    and chunk: "save_chunk (Inr ()) c s = Inr (s', progress)"
  shows "client_takes sha256 directory (DownloadChunk (of_request p) c) t =
    (case progress of Pull n \<Rightarrow> t\<lparr>dr_saving := \<lparr>sa_save = Some s', sa_request = Some (of_request p)\<rparr>, dr_grants := dr_grants t @ [n]\<rparr>
     | WaitingForMore \<Rightarrow> t\<lparr>dr_saving := \<lparr>sa_save = Some s', sa_request = Some (of_request p)\<rparr>\<rparr>)"
  using assms by (simp add: client_takes_def save_arrived_def client_asks_def split: save_progress.split)

lemma arriving_head:
  assumes "arriving p cs ended = m # rest"
  obtains c cs' where "cs = c # cs'" "m = DownloadChunk (of_request p) c" "rest = arriving p cs' ended"
  | "cs = []" "ended" "m = DownloadFinished (of_request p)" "rest = []"
  using assms by (cases cs) (auto simp: arriving_def split: if_splits)

lemma client_takes_saving:
  assumes saving: "run_saving files p destination t" and "offer_ok sha256 files p destination"
    and task: "task_ok p (dr_task t)" and ended: "dr_ended t \<longrightarrow> dl_sent (dr_task t) = of_length p"
    and head: "dr_outbox t = m # rest"
  shows "(run_saving files p destination (client_takes sha256 directory m (t\<lparr>dr_outbox := rest\<rparr>))
    \<or> run_saved p destination (client_takes sha256 directory m (t\<lparr>dr_outbox := rest\<rparr>)))
    \<and> dr_ended (client_takes sha256 directory m (t\<lparr>dr_outbox := rest\<rparr>)) = dr_ended t"
proof -
  obtain cs s where cs: "dr_outbox t = arriving p cs (dr_ended t)"
    and s: "dr_saving t = \<lparr>sa_save = Some s, sa_request = Some (of_request p)\<rparr>" "sv_request s = of_request p"
      "sv_destination s = destination" "sv_length s = of_length p" "sv_digest s = of_digest p"
    and result: "dr_result t = None" "dr_files t = files"
    and written: "sv_written s @ concat cs = take (unat (dl_sent (dr_task t))) (of_contents p)"
      "unat (sv_received s) = length (sv_written s)"
    and window: "unat (sv_outstanding s) = unat (dl_credit (dr_task t)) + sum_list (map unat (dr_grants t)) + length cs"
      "dr_grants t = [] \<or> dr_grants t = [8]" "sv_outstanding s \<le> 8" "sv_outstanding s = 0 \<longrightarrow> sv_received s = of_length p"
    using saving unfolding run_saving_def by blast
  have size: "length (sv_written s) + length (concat cs) = unat (dl_sent (dr_task t))"
    "unat (dl_sent (dr_task t)) \<le> unat (of_length p)"
  proof -
    show "unat (dl_sent (dr_task t)) \<le> unat (of_length p)" using task by (simp add: task_ok_def word_le_nat_alt)
    then show "length (sv_written s) + length (concat cs) = unat (dl_sent (dr_task t))"
      using arg_cong [OF written(1), of length] assms(2) by (simp add: offer_ok_def)
  qed
  from head cs have "arriving p cs (dr_ended t) = m # rest" by simp
  then show ?thesis
  proof (cases rule: arriving_head)
    case (1 c cs')
    have "length (sv_written s) + length c \<le> unat (sv_length s)" using size s(4) 1(1) by simp
    from chunk_taken [OF written(2) this] obtain s' progress where chunk: "save_chunk (Inr ()) c s = Inr (s', progress)"
      and s': "sv_written s' = sv_written s @ c" "unat (sv_received s') = length (sv_written s')" "sv_request s' = sv_request s"
        "sv_destination s' = sv_destination s" "sv_length s' = sv_length s" "sv_digest s' = sv_digest s"
      and next_progress: "if sv_received s' = sv_length s' \<or> saturating_sub (sv_outstanding s) 1 \<noteq> 0
         then progress = WaitingForMore \<and> sv_outstanding s' = saturating_sub (sv_outstanding s) 1
         else progress = Pull 8 \<and> sv_outstanding s' = 8" .
    have less: "unat (saturating_sub (sv_outstanding s) 1) = unat (dl_credit (dr_task t)) + sum_list (map unat (dr_grants t)) + length cs'"
      using window(1) 1(1) by (simp add: unat_saturating_sub)
    let ?t = "t\<lparr>dr_outbox := rest\<rparr>"
    have taken: "client_takes sha256 directory m ?t =
      (case progress of Pull n \<Rightarrow> ?t\<lparr>dr_saving := \<lparr>sa_save = Some s', sa_request = Some (of_request p)\<rparr>, dr_grants := dr_grants t @ [n]\<rparr>
       | WaitingForMore \<Rightarrow> ?t\<lparr>dr_saving := \<lparr>sa_save = Some s', sa_request = Some (of_request p)\<rparr>\<rparr>)"
      using client_takes_chunk [OF _ s(2) chunk, of ?t] s(1) by (simp add: 1(2) split: save_progress.split)
    have same: "dr_ended (client_takes sha256 directory m ?t) = dr_ended t" by (simp add: taken split: save_progress.split)
    have bytes: "sv_written s' @ concat cs' = take (unat (dl_sent (dr_task t))) (of_contents p)"
      using written(1) s'(1) 1(1) by simp
    show ?thesis
    proof (cases "sv_received s' = sv_length s' \<or> saturating_sub (sv_outstanding s) 1 \<noteq> 0")
      case True
      then have "progress = WaitingForMore" "sv_outstanding s' = saturating_sub (sv_outstanding s) 1" using next_progress by auto
      then have "run_saving files p destination (client_takes sha256 directory m ?t)"
        unfolding run_saving_def taken
        using s s' result window bytes less True 1(3)
        by (intro exI [of _ cs'] exI [of _ s']) (auto simp: word_le_nat_alt unat_saturating_sub)
      with same show ?thesis by blast
    next
      case False
      then have "progress = Pull 8" "sv_outstanding s' = 8" and zero: "saturating_sub (sv_outstanding s) 1 = 0" using next_progress by auto
      moreover have "dr_grants t = []" "cs' = []" "unat (dl_credit (dr_task t)) = 0"
        using less zero window(2) by auto
      ultimately have "run_saving files p destination (client_takes sha256 directory m ?t)"
        unfolding run_saving_def taken
        using s s'(2-) result bytes 1(3) by (intro exI [of _ cs'] exI [of _ s']) auto
      with same show ?thesis by blast
    qed
  next
    case 2
    then have all: "dl_sent (dr_task t) = of_length p" "sv_written s = take (unat (of_length p)) (of_contents p)"
      "sv_received s = sv_length s"
      using ended written(1) size s(4) written(2) by (auto simp: word_unat_eq_iff)
    then have "save_finish sha256 (Inr ()) files s = (files(destination \<mapsto> sv_written s), Inr destination)"
      using assms(2) s by (auto simp: save_finish_def offer_ok_def)
    then have "run_saved p destination (client_takes sha256 directory m (t\<lparr>dr_outbox := rest\<rparr>))"
      using 2 s result all by (simp add: client_takes_def save_finished_def run_saved_def)
    moreover from this have "dr_ended (client_takes sha256 directory m (t\<lparr>dr_outbox := rest\<rparr>))" by (simp add: run_saved_def)
    ultimately show ?thesis using 2(2) by blast
  qed
qed

lemma turn_not_short:
  assumes "task_ok p d" and "unat (of_length p) \<le> length (of_contents p)"
  shows "download_turn n d \<noteq> Runs_short e"
  using assms by (auto simp: download_turn_def Let_def task_ok_def download_chunk_bytes_def word_less_nat_alt not_le unat_sub
      word_le_nat_alt min_def)

lemma turn_all_sent: "task_ok p d \<Longrightarrow> download_turn n d = All_sent \<Longrightarrow> dl_sent d = of_length p"
  by (auto simp: download_turn_def Let_def task_ok_def split: if_splits)

lemma turn_wants_credit: "download_turn n d = WantsCredit \<Longrightarrow> dl_credit d = 0"
  by (auto simp: download_turn_def Let_def split: if_splits)

lemma saving_reads:
  assumes "run_saving files p destination t" and "\<not> dr_ended t" and "dl_request d = of_request p"
    and "unat (dl_credit (dr_task t)) = Suc (unat (dl_credit d))"
    and "take (unat (dl_sent d)) (of_contents p) = take (unat (dl_sent (dr_task t))) (of_contents p) @ bytes"
  shows "run_saving files p destination (t\<lparr>dr_task := d, dr_outbox := dr_outbox t @ [DownloadChunk (dl_request d) bytes]\<rparr>)"
proof -
  obtain cs s where run: "dr_outbox t = arriving p cs (dr_ended t)"
    "dr_saving t = \<lparr>sa_save = Some s, sa_request = Some (of_request p)\<rparr>" "sv_request s = of_request p"
    "sv_destination s = destination" "sv_length s = of_length p" "sv_digest s = of_digest p"
    "dr_result t = None" "dr_files t = files"
    "sv_written s @ concat cs = take (unat (dl_sent (dr_task t))) (of_contents p)" "unat (sv_received s) = length (sv_written s)"
    "unat (sv_outstanding s) = unat (dl_credit (dr_task t)) + sum_list (map unat (dr_grants t)) + length cs"
    "dr_grants t = [] \<or> dr_grants t = [8]" "sv_outstanding s \<le> 8" "sv_outstanding s = 0 \<longrightarrow> sv_received s = of_length p"
    using assms(1) unfolding run_saving_def by blast
  have "sv_written s @ concat (cs @ [bytes]) = take (unat (dl_sent d)) (of_contents p)" using run(9) assms(5) by simp
  then show ?thesis unfolding run_saving_def
    using run assms(2-4) by (intro exI [of _ "cs @ [bytes]"] exI [of _ s]) (simp add: arriving_def)
qed

lemma saving_granted:
  assumes "run_saving files p destination t" and "dl_credit (dr_task t) = 0" and "dr_grants t = g # gs"
  shows "run_saving files p destination (t\<lparr>dr_task := grant_credit g (dr_task t), dr_grants := gs\<rparr>)"
proof -
  have "gs = []" "g = 8" using assms by (auto simp: run_saving_def)
  moreover have "min (saturating_add (0 :: u32) 8) 8 = 8" by code_simp
  ultimately show ?thesis using assms by (simp add: run_saving_def grant_credit_def max_outstanding_chunks_def)
qed

lemma phase_ends:
  assumes "run_offered files p t \<or> run_saving files p destination t" and "\<not> dr_ended t" and "dl_request (dr_task t) = of_request p"
  shows "run_offered files p (t\<lparr>dr_ended := True, dr_outbox := dr_outbox t @ [DownloadFinished (dl_request (dr_task t))]\<rparr>)
    \<or> run_saving files p destination (t\<lparr>dr_ended := True, dr_outbox := dr_outbox t @ [DownloadFinished (dl_request (dr_task t))]\<rparr>)"
  using assms by (auto simp: run_offered_def run_saving_def arriving_def)

lemma grant_task_ok: "task_ok p d \<Longrightarrow> task_ok p (grant_credit g d)"
  by (simp add: task_ok_def grant_credit_def max_outstanding_chunks_def)

lemma client_takes_keeps_task: "dr_task (client_takes sha256 directory m t) = dr_task t"
  by (simp add: client_takes_def client_asks_def split: server_message.split prod.split option.split client_message.split)

lemma run_step_ok:
  assumes offer: "offer_ok sha256 files p destination" and ok: "run_ok files p destination t"
    and step: "download_step sha256 (of_directory p) t t'"
  shows "run_ok files p destination t'"
proof -
  have contents: "unat (of_length p) \<le> length (of_contents p)" using offer by (simp add: offer_ok_def)
  have task: "task_ok p (dr_task t)" and ended: "dr_ended t \<longrightarrow> dl_sent (dr_task t) = of_length p"
    and phase: "run_offered files p t \<or> run_saving files p destination t \<or> run_saved p destination t"
    using ok by (auto simp: run_ok_def)
  from step show ?thesis
  proof cases
    case (reads n bytes d)
    note sends = turn_sends [OF reads(3) task contents]
    then have d: "task_ok p d" "unat (dl_credit (dr_task t)) = Suc (unat (dl_credit d))"
      "take (unat (dl_sent d)) (of_contents p) = take (unat (dl_sent (dr_task t))) (of_contents p) @ bytes" by blast+
    have "run_saving files p destination t" using phase reads(2) d(2) by (auto simp: run_offered_def run_saved_def)
    moreover have "dl_request d = of_request p" using d(1) by (simp add: task_ok_def)
    ultimately have "run_saving files p destination t'"
      unfolding reads(1) using reads(2) d(2,3) by (intro saving_reads)
    then show ?thesis using d(1) reads(1,2) by (simp add: run_ok_def)
  next
    case (granted n g gs)
    have "run_saving files p destination t" using phase granted(2,4) by (auto simp: run_offered_def run_saved_def)
    from saving_granted [OF this turn_wants_credit [OF granted(3)] granted(4)] grant_task_ok [OF task] show ?thesis
      using granted(1,2) by (simp add: run_ok_def)
  next
    case (short n e)
    then show ?thesis using turn_not_short [OF task contents] by blast
  next
    case (sent n)
    have "run_offered files p t \<or> run_saving files p destination t" using phase sent(2) by (auto simp: run_saved_def)
    from phase_ends [OF this sent(2)] task turn_all_sent [OF task sent(3)] show ?thesis
      unfolding sent(1) run_ok_def by (auto simp: task_ok_def)
  next
    case (takes m rest)
    have same: "dr_task t' = dr_task t" by (simp add: takes(1) client_takes_keeps_task)
    from phase show ?thesis
    proof (elim disjE)
      assume offered: "run_offered files p t"
      have "run_saving files p destination t'"
        using client_takes_offer [OF offered offer task takes(2)] takes(1) by simp
      moreover have "dr_ended t' = dr_ended t"
        using offered offer takes by (auto simp: run_offered_def offer_ok_def client_takes_def save_offered_def save_begin_def save_start_def client_asks_def)
      ultimately show ?thesis using task ended same takes(1) by (simp add: run_ok_def)
    next
      assume saving: "run_saving files p destination t"
      have "(run_saving files p destination t' \<or> run_saved p destination t') \<and> dr_ended t' = dr_ended t"
        using client_takes_saving [OF saving offer task ended takes(2)] takes(1) by simp
      then show ?thesis using task ended same takes(1) by (auto simp: run_ok_def)
    next
      assume "run_saved p destination t"
      then show ?thesis using takes(2) by (simp add: run_saved_def)
    qed
  qed
qed

text \<open>What is left to do: bytes to send, messages and grants on their way, the task's end.\<close>

definition run_measure :: "download_run \<Rightarrow> nat" where
  "run_measure t = 4 * (unat (dl_length (dr_task t)) - unat (dl_sent (dr_task t))) + 2 * length (dr_outbox t)
     + length (dr_grants t) + (if dr_ended t then 0 else 3)"

lemma client_takes_measure:
  "dr_outbox (client_takes sha256 directory m t) = dr_outbox t
   \<and> length (dr_grants (client_takes sha256 directory m t)) \<le> length (dr_grants t) + 1
   \<and> (dr_ended t \<longrightarrow> dr_ended (client_takes sha256 directory m t))"
  by (simp add: client_takes_def client_asks_def split: server_message.split prod.split option.split client_message.split)

lemma run_measure_decreases:
  assumes "run_ok files p destination t" and "unat (of_length p) \<le> length (of_contents p)" and "download_step sha256 directory t t'"
  shows "run_measure t' < run_measure t"
  using assms(3)
proof cases
  case (reads n bytes d)
  note sends = turn_sends [OF reads(3) _ assms(2)]
  have "task_ok p (dr_task t)" using assms(1) by (simp add: run_ok_def)
  from sends [OF this] this have "unat (dl_sent d) = unat (dl_sent (dr_task t)) + length bytes" "bytes \<noteq> []"
    "unat (dl_sent d) \<le> unat (dl_length d)" "unat (dl_length d) = unat (dl_length (dr_task t))"
    by (auto simp: task_ok_def word_le_nat_alt)
  moreover from \<open>bytes \<noteq> []\<close> have "0 < length bytes" by simp
  ultimately have "unat (dl_length d) - unat (dl_sent d) < unat (dl_length (dr_task t)) - unat (dl_sent (dr_task t))" by linarith
  then show ?thesis by (simp add: reads(1) run_measure_def)
next
  case (takes m rest)
  then show ?thesis
    using client_takes_measure [of sha256 directory m "t\<lparr>dr_outbox := rest\<rparr>"]
    by (auto simp: run_measure_def client_takes_keeps_task)
qed (auto simp: run_measure_def grant_credit_def)

lemma run_progress:
  assumes ok: "run_ok files p destination t" and offer: "offer_ok sha256 files p destination"
  shows "(\<exists>t'. download_step sha256 directory t t') \<or> run_saved p destination t"
proof (cases "dr_outbox t = [] \<and> \<not> run_saved p destination t")
  case False
  then show ?thesis by (cases "dr_outbox t") (auto intro: takes)
next
  case True
  then have "run_saving files p destination t" using ok by (auto simp: run_ok_def run_offered_def)
  then obtain cs s where run: "dr_outbox t = arriving p cs (dr_ended t)"
    "dr_saving t = \<lparr>sa_save = Some s, sa_request = Some (of_request p)\<rparr>" "sv_request s = of_request p"
    "sv_destination s = destination" "sv_length s = of_length p" "sv_digest s = of_digest p"
    "dr_result t = None" "dr_files t = files"
    "sv_written s @ concat cs = take (unat (dl_sent (dr_task t))) (of_contents p)"
    "unat (sv_outstanding s) = unat (dl_credit (dr_task t)) + sum_list (map unat (dr_grants t)) + length cs"
    and received: "unat (sv_received s) = length (sv_written s)" "sv_outstanding s = 0 \<longrightarrow> sv_received s = of_length p"
    unfolding run_saving_def by blast
  have "cs = []" "\<not> dr_ended t" using run(1) True by (simp_all add: arriving_def split: if_splits)
  with run(9,10) received have s: "\<not> dr_ended t" "sv_written s = take (unat (dl_sent (dr_task t))) (of_contents p)"
    "unat (sv_received s) = length (sv_written s)"
    "unat (sv_outstanding s) = unat (dl_credit (dr_task t)) + sum_list (map unat (dr_grants t))"
    "sv_outstanding s = 0 \<longrightarrow> sv_received s = of_length p" by simp_all
  have task: "task_ok p (dr_task t)" "unat (of_length p) \<le> length (of_contents p)"
    using ok offer by (auto simp: run_ok_def offer_ok_def)
  show ?thesis
  proof (cases "download_turn 1 (dr_task t)")
    case WantsCredit
    have "dr_grants t \<noteq> []"
    proof
      assume "dr_grants t = []"
      then have "sv_received s = of_length p"
        using s(4,5) turn_wants_credit [OF WantsCredit] by (simp add: unat_eq_zero)
      then have "of_length p \<le> dl_sent (dr_task t)" using s(2,3) by (auto simp: word_le_nat_alt)
      then show False using WantsCredit task by (simp add: download_turn_def task_ok_def)
    qed
    then obtain g gs where "dr_grants t = g # gs" by (cases "dr_grants t") auto
    then show ?thesis using granted [OF s(1) WantsCredit] by blast
  next
    case (Sends bytes d)
    then show ?thesis using reads [OF s(1)] by blast
  next
    case (Runs_short e)
    then show ?thesis using turn_not_short [OF task] by blast
  next
    case All_sent
    then show ?thesis using sent [OF s(1)] by blast
  qed
qed

lemma run_reaches_ok:
  assumes "offer_ok sha256 files p destination"
    and "reach (download_step sha256 (of_directory p)) (run_start p files) t"
  shows "run_ok files p destination t"
  using assms(2)
proof induction
  case reach_start
  show ?case by (simp add: run_ok_def run_start_def task_ok_def run_offered_def arriving_def)
next
  case (reach_step s t)
  then show ?case using run_step_ok [OF assms(1)] by blast
qed

section \<open>Properties\<close>

text \<open>
  C13. A download completes. When a host serves the file it described and the client can save it
  under that name, then however the turns of the daemon and the client interleave and however
  much each read returns, no state is stuck before the file is saved, and every step leaves less
  to do, so that every run ends, with exactly the declared bytes in place. Until then nothing is
  under the file's name, and neither side waits for credit the other does not give.
\<close>

theorem download_completes:
  assumes "offer_ok sha256 files p destination"
    and "reach (download_step sha256 (of_directory p)) (run_start p files) t"
  shows "(\<forall>t'. download_step sha256 (of_directory p) t t' \<longrightarrow> run_measure t' < run_measure t)
    \<and> ((\<exists>t'. download_step sha256 (of_directory p) t t') \<or> dr_result t = Some (Inr destination))
    \<and> dr_files t destination =
        (if dr_result t = None then None else Some (take (unat (of_length p)) (of_contents p)))"
proof -
  have ok: "run_ok files p destination t" by (rule run_reaches_ok [OF assms])
  have "unat (of_length p) \<le> length (of_contents p)" "files destination = None" using assms(1) by (auto simp: offer_ok_def)
  moreover have "(\<exists>t'. download_step sha256 (of_directory p) t t') \<or> run_saved p destination t"
    by (rule run_progress [OF ok assms(1)])
  moreover have "run_offered files p t \<or> run_saving files p destination t \<or> run_saved p destination t" using ok by (simp add: run_ok_def)
  ultimately show ?thesis
    using run_measure_decreases [OF ok]
    by (auto simp: run_offered_def run_saving_def run_saved_def)
qed

text \<open>The messages of any downloads, as the client takes them; a vector has at most \<open>2\<^sup>6\<^sup>3 - 1\<close> bytes.\<close>

inductive save_step :: "(u8 list \<Rightarrow> u8 list) \<Rightarrow> ustring \<Rightarrow> files \<times> saving \<Rightarrow> files \<times> saving \<Rightarrow> bool" for sha256 directory where
  "save_step sha256 directory (files, a) (files, fst (save_offered files opened directory request name len digest a))"
| "length bytes < 2 ^ 63 \<Longrightarrow>
    save_step sha256 directory (files, a) (files, fst (save_arrived written request bytes a))"
| "save_step sha256 directory (files, a) (fst (save_finished sha256 synced request (files, a)))"
| "save_step sha256 directory (files, a) (files, fst (cancel_file_save a))"
| "save_requested request a = Inr a' \<Longrightarrow> save_step sha256 directory (files, a) (files, a')"

definition plain_name :: "ustring \<Rightarrow> bool" where
  "plain_name name \<longleftrightarrow> name \<noteq> [] \<and> 47 \<notin> set name \<and> name \<noteq> [46] \<and> name \<noteq> [46, 46]"

lemma file_name_plain: "file_name path = Some name \<Longrightarrow> plain_name name"
proof -
  assume "file_name path = Some name"
  then have "name \<in> set (filter (\<lambda>part. part \<noteq> [] \<and> part \<noteq> [46]) (split_on (\<lambda>c. c = 47) path))" "name \<noteq> [46, 46]"
    by (auto simp: file_name_def Let_def dest: last_in_set split: if_splits)
  then show ?thesis using split_on_pure by (fastforce simp: plain_name_def)
qed

definition saving_ok :: "files \<Rightarrow> ustring \<Rightarrow> files \<times> saving \<Rightarrow> bool" where
  "saving_ok initial directory fa \<longleftrightarrow> initial \<subseteq>\<^sub>m fst fa
     \<and> (\<forall>s. sa_save (snd fa) = Some s \<longrightarrow> unat (sv_received s) = length (sv_written s) \<and> sv_received s \<le> sv_length s
         \<and> (\<exists>name. plain_name name \<and> sv_destination s = join_path directory name))"

lemma save_chunk_ok:
  assumes "save_chunk written bytes s = Inr (s', progress)" and "unat (sv_received s) = length (sv_written s)"
    and "sv_received s \<le> sv_length s" and "length bytes < 2 ^ 63"
  shows "unat (sv_received s') = length (sv_written s') \<and> sv_received s' \<le> sv_length s' \<and> sv_destination s' = sv_destination s"
proof -
  have fits: "length bytes \<le> unat (sv_length s) - unat (sv_received s)"
    using assms(1,4) by (auto simp: save_chunk_def Let_def unat_saturating_sub min_def split: if_splits)
  then have "unat (of_nat (length bytes) :: u64) = length bytes" "unat (sv_received s) + length bytes < 2 ^ 64"
    using assms(3) unsigned_less [where ?'a = nat, of "sv_length s"] by (auto simp: unat_of_nat word_le_nat_alt)
  then have "unat (sv_received s + of_nat (length bytes)) = unat (sv_received s) + length bytes" by (simp add: unat_word_ariths)
  moreover from fits this assms(3) have "sv_received s + of_nat (length bytes) \<le> sv_length s" by (simp add: word_le_nat_alt)
  ultimately show ?thesis
    using assms(1,2) by (auto simp: save_chunk_def Let_def and_then_eq_Inr split: if_splits)
qed

lemma save_finish_ok:
  assumes "save_finish sha256 synced files s = (files', r)"
  shows "(\<exists>e. r = Inl e) \<and> files' = files \<or> r = Inr (sv_destination s) \<and> files (sv_destination s) = None
    \<and> files' = files(sv_destination s \<mapsto> sv_written s) \<and> sv_received s = sv_length s
    \<and> (sv_digest s \<noteq> [] \<longrightarrow> hex (sha256 (sv_written s)) = sv_digest s)"
  using assms by (auto simp: save_finish_def split: if_splits sum.splits)

lemma map_le_fresh: "m \<subseteq>\<^sub>m f \<Longrightarrow> f k = None \<Longrightarrow> m \<subseteq>\<^sub>m f(k \<mapsto> v)"
  by (force simp: map_le_def dom_def)

lemma saving_ok_step:
  assumes "saving_ok initial directory fa" and "save_step sha256 directory fa fb"
  shows "saving_ok initial directory fb"
  using assms(2,1)
proof cases
  case (1 files a opened request name len digest)
  with assms(1) show ?thesis
    by (auto simp: saving_ok_def save_offered_def save_begin_def save_start_def Let_def and_then_eq_Inr
        dest: file_name_plain split: if_splits sum.splits option.splits)
next
  case (2 bytes files a written request)
  with assms(1) show ?thesis
    by (auto simp: saving_ok_def save_arrived_def dest!: save_chunk_ok [OF _ _ _ 2(3)]
        split: if_splits sum.splits option.splits save_progress.splits)
next
  case (3 files a synced request)
  have "initial \<subseteq>\<^sub>m files'" if "save_finish sha256 synced files s = (files', r)" for s files' r
    using save_finish_ok [OF that] assms(1) 3(1) by (auto simp: saving_ok_def intro: map_le_fresh)
  then have "initial \<subseteq>\<^sub>m fst fb" "sa_save (snd fb) = None"
    using 3 assms(1) by (auto simp: save_finished_def saving_ok_def Let_def split: option.splits if_splits prod.splits)
  then show ?thesis by (simp add: saving_ok_def)
next
  case (4 files a)
  with assms(1) show ?thesis by (auto simp: saving_ok_def cancel_file_save_def split: option.splits)
next
  case (5 request a a' files)
  with assms(1) show ?thesis by (auto simp: saving_ok_def save_requested_def split: if_splits)
qed

interpretation save_reach: kept_invariant "(initial, \<lparr>sa_save = None, sa_request = None\<rparr>)" "save_step sha256 directory"
  "saving_ok initial directory" for initial sha256 directory
proof
  show "saving_ok initial directory (initial, \<lparr>sa_save = None, sa_request = None\<rparr>)" by (simp add: saving_ok_def)
qed (rule saving_ok_step)


text \<open>A file of three bytes, offered and saved.\<close>

definition sample_offer :: download_offer where
  "sample_offer = \<lparr>of_request = 7, of_name = lit ''logs/a.txt'', of_length = 3,
     of_digest = hex [1, 2, 3], of_directory = lit ''/home'', of_contents = [1, 2, 3]\<rparr>"

definition sample_run :: "u64 \<Rightarrow> u32 \<Rightarrow> bool \<Rightarrow> server_message list \<Rightarrow> u32 list \<Rightarrow> saving \<Rightarrow> download_run" where
  "sample_run n credit ended outbox grants a =
     \<lparr>dr_task = \<lparr>dl_request = 7, dl_length = 3, dl_sent = n, dl_credit = credit, dl_source = drop (unat n) [1, 2, 3]\<rparr>,
      dr_ended = ended, dr_outbox = outbox, dr_grants = grants, dr_saving = a, dr_files = Map.empty, dr_result = None\<rparr>"

definition sample_save :: "u8 list \<Rightarrow> u32 \<Rightarrow> saving" where
  "sample_save bytes n = \<lparr>sa_save = Some \<lparr>sv_request = 7, sv_destination = lit ''/home/a.txt'', sv_length = 3,
     sv_digest = hex [1, 2, 3], sv_received = of_nat (length bytes), sv_written = bytes, sv_outstanding = n\<rparr>, sa_request = Some 7\<rparr>"

definition sample_taken :: download_run where
  "sample_taken = (sample_run 3 7 True [] [] \<lparr>sa_save = None, sa_request = None\<rparr>)
     \<lparr>dr_files := Map.empty(lit ''/home/a.txt'' \<mapsto> [1, 2, 3]), dr_result := Some (Inr (lit ''/home/a.txt''))\<rparr>"

lemma sample_names:
  "file_name (lit ''logs/a.txt'') = Some (lit ''a.txt'')" "file_name (lit ''../a.txt'') = Some (lit ''a.txt'')"
  "join_path (lit ''/home'') (lit ''a.txt'') = lit ''/home/a.txt''"
  by code_simp+

lemma sample_offer_ok: "offer_ok id Map.empty sample_offer (lit ''/home/a.txt'')"
  by (simp add: offer_ok_def sample_offer_def sample_names)

lemmas sample_simps = sample_run_def sample_save_def sample_offer_def sample_names client_takes_def save_offered_def
  save_begin_def save_start_def save_window_chunks_def client_asks_def save_arrived_def save_chunk_def save_finished_def
  save_finish_def saturating_sub_def

lemma sample_offer_taken:
  "save_offered Map.empty (Inr ()) (lit ''/home'') 7 name 3 (hex [1, 2, 3]) \<lparr>sa_save = None, sa_request = Some 7\<rparr>
     = (sample_save [] 8, Some (PullDownload 7 8))" if "file_name name = Some (lit ''a.txt'')"
  using that by (simp add: sample_simps)

lemma sample_chunk_taken: "save_arrived (Inr ()) 7 [1, 2, 3] (sample_save [] 8) = (sample_save [1, 2, 3] 7, None)"
  by (simp add: sample_simps)

lemma sample_finish_taken: "save_finished id (Inr ()) 7 (Map.empty, sample_save [1, 2, 3] 7) =
   ((Map.empty(lit ''/home/a.txt'' \<mapsto> [1, 2, 3]), \<lparr>sa_save = None, sa_request = None\<rparr>), Some (Inr (lit ''/home/a.txt'')))"
  by (simp add: sample_simps)

lemma sample_download_reaches:
  "reach (download_step id (of_directory sample_offer)) (run_start sample_offer Map.empty) sample_taken"
proof -
  let ?step = "download_step id (lit ''/home'')"
  have a0: "run_start sample_offer Map.empty = sample_run 0 0 False [DownloadOffer 7 (lit ''logs/a.txt'') 3 (hex [1, 2, 3])] []
      \<lparr>sa_save = None, sa_request = Some 7\<rparr>" (is "_ = ?s0")
    by (simp add: run_start_def sample_offer_def sample_run_def)
  have a1: "?step ?s0 (sample_run 0 0 False [] [8] (sample_save [] 8))" (is "download_step _ _ _ ?s1")
    using takes [of ?s0 "DownloadOffer 7 (lit ''logs/a.txt'') 3 (hex [1, 2, 3])" "[]" id "lit ''/home''"]
    by (simp add: client_takes_def sample_offer_taken sample_names sample_run_def client_asks_def)
  have a2: "?step ?s1 (sample_run 0 8 False [] [] (sample_save [] 8))" (is "download_step _ _ _ ?s2")
    using granted [of ?s1 0 8 "[]" id "lit ''/home''"]
    by (simp add: sample_run_def download_turn_def grant_credit_def max_outstanding_chunks_def saturating_add_def)
  have a3: "?step ?s2 (sample_run 3 7 False [DownloadChunk 7 [1, 2, 3]] [] (sample_save [] 8))" (is "download_step _ _ _ ?s3")
    using reads [of ?s2 3 _ _ id "lit ''/home''"]
    by (simp add: sample_run_def download_turn_def download_chunk_bytes_def)
  have a4: "?step ?s3 (sample_run 3 7 True [DownloadChunk 7 [1, 2, 3], DownloadFinished 7] [] (sample_save [] 8))" (is "download_step _ _ _ ?s4")
    using sent [of ?s3 0 id "lit ''/home''"] by (simp add: sample_run_def download_turn_def)
  have a5: "?step ?s4 (sample_run 3 7 True [DownloadFinished 7] [] (sample_save [1, 2, 3] 7))" (is "download_step _ _ _ ?s5")
    using takes [of ?s4 "DownloadChunk 7 [1, 2, 3]" "[DownloadFinished 7]" id "lit ''/home''"]
    by (simp add: client_takes_def sample_chunk_taken sample_run_def client_asks_def)
  have a6: "?step ?s5 sample_taken"
    using takes [of ?s5 "DownloadFinished 7" "[]" id "lit ''/home''"]
    by (simp add: client_takes_def sample_finish_taken sample_run_def sample_taken_def)
  have a7: "of_directory sample_offer = lit ''/home''" by (simp add: sample_offer_def)
  note next_state = reach_step [where step = ?step and ?s0.0 = ?s0]
  show ?thesis unfolding a0 a7
    by (rule next_state [OF _ a6], rule next_state [OF _ a5], rule next_state [OF _ a4], rule next_state [OF _ a3],
        rule next_state [OF _ a2], rule next_state [OF _ a1], rule reach_start)
qed

theorem download_completes_witness:
  "dr_result sample_taken = Some (Inr (lit ''/home/a.txt'')) \<and> dr_files sample_taken (lit ''/home/a.txt'') = Some [1, 2, 3]"
  using download_completes [OF sample_offer_ok sample_download_reaches]
  by (simp add: sample_taken_def sample_offer_def)

lemma sample_saving_reaches:
  "reach (save_step id (lit ''/home'')) (Map.empty, \<lparr>sa_save = None, sa_request = None\<rparr>) (Map.empty, sample_save [1, 2, 3] 7)"
proof -
  let ?step = "save_step id (lit ''/home'')"
  have "?step (Map.empty, \<lparr>sa_save = None, sa_request = None\<rparr>) (Map.empty, \<lparr>sa_save = None, sa_request = Some 7\<rparr>)"
    by (rule save_step.intros(5)) (simp add: save_requested_def)
  moreover have "?step (Map.empty, \<lparr>sa_save = None, sa_request = Some 7\<rparr>) (Map.empty, sample_save [] 8)"
    using save_step.intros(1) [of id "lit ''/home''" Map.empty _ "Inr ()" 7 "lit ''../a.txt''" 3 "hex [1, 2, 3]"]
    by (metis fst_conv sample_offer_taken sample_names(2))
  moreover have "?step (Map.empty, sample_save [] 8) (Map.empty, sample_save [1, 2, 3] 7)"
    using save_step.intros(2) [of "[1, 2, 3]" id "lit ''/home''" Map.empty "sample_save [] 8" "Inr ()" 7]
    by (simp add: sample_chunk_taken)
  ultimately show ?thesis by (meson reach_start reach_step)
qed


section \<open>Two flaws\<close>

text \<open>
  The end of a download takes the save away before it asks whose end it is. A second file may be
  asked for while the first is not yet offered, and an empty file ends without waiting for
  credit: when the offer of the second file comes first, the end of the first one drops the save
  of the second, whose chunks are then ignored while its request is kept.
\<close>

lemma end_of_empty_file_drops_save:
  assumes "files (join_path directory name) = None" and "plain_name name" and "file_name name = Some name"
    and "first \<noteq> second"
  shows "\<exists>a. reach (save_step sha256 directory) (files, \<lparr>sa_save = None, sa_request = None\<rparr>) (files, a)
    \<and> (\<exists>s. sa_save a = Some s \<and> sv_request s = second)
    \<and> download_turn n \<lparr>dl_request = first, dl_length = 0, dl_sent = 0, dl_credit = 0, dl_source = []\<rparr> = All_sent
    \<and> save_finished sha256 synced first (files, a) = ((files, \<lparr>sa_save = None, sa_request = Some second\<rparr>), None)
    \<and> save_arrived written second bytes \<lparr>sa_save = None, sa_request = Some second\<rparr>
        = (\<lparr>sa_save = None, sa_request = Some second\<rparr>, None)"
proof -
  let ?asked = "\<lambda>r. (files, \<lparr>sa_save = None, sa_request = r\<rparr>) :: files \<times> saving"
  let ?a = "fst (save_offered files (Inr ()) directory second name len digest \<lparr>sa_save = None, sa_request = Some second\<rparr>)"
  have "save_step sha256 directory (?asked None) (?asked (Some first))"
    "save_step sha256 directory (?asked (Some first)) (?asked (Some second))"
    by (auto intro!: save_step.intros(5) simp: save_requested_def)
  moreover have "save_step sha256 directory (?asked (Some second)) (files, ?a)" by (rule save_step.intros(1))
  ultimately have "reach (save_step sha256 directory) (?asked None) (files, ?a)"
    by (meson reach_start reach_step)
  then show ?thesis
    using assms by (intro exI [of _ ?a]) (simp add: save_offered_def save_begin_def save_start_def save_finished_def
        save_arrived_def download_turn_def Let_def)
qed

text \<open>
  Each grant is cut to the number of chunks the daemon means to hold, but grants wait in a queue
  of their own and every one is honoured in turn: a client that asks twice before it takes
  anything has twice that number in the queue to it.
\<close>

fun served :: "nat \<Rightarrow> u32 list \<Rightarrow> download_task \<Rightarrow> u8 list list" where
  "served 0 _ _ = []"
| "served (Suc n) grants d = (case download_turn 1 d of
     Sends bytes d \<Rightarrow> bytes # served n grants d
   | WantsCredit \<Rightarrow> (case grants of [] \<Rightarrow> [] | g # gs \<Rightarrow> served n gs (grant_credit g d))
   | _ \<Rightarrow> [])"

lemma served_credit:
  assumes "unat (dl_credit d) = k" and "k + unat (dl_sent d) \<le> unat (dl_length d)" and "k \<le> length (dl_source d)"
  shows "\<exists>d'. served (k + n) grants d = map (\<lambda>b. [b]) (take k (dl_source d)) @ served n grants d' \<and> dl_credit d' = 0
    \<and> dl_source d' = drop k (dl_source d) \<and> unat (dl_sent d') = unat (dl_sent d) + k \<and> dl_length d' = dl_length d"
  using assms
proof (induction k arbitrary: d)
  case (Suc k)
  then obtain b bs where source: "dl_source d = b # bs" by (cases "dl_source d") auto
  let ?d = "d\<lparr>dl_sent := dl_sent d + 1, dl_credit := dl_credit d - 1, dl_source := bs\<rparr>"
  have credit: "dl_credit d \<noteq> 0" and less: "dl_sent d < dl_length d" using Suc.prems by (auto simp: word_less_nat_alt)
  then have "0 < unat (dl_length d - dl_sent d)" by (simp add: unat_gt_0)
  then have "min (min (unat (dl_length d - dl_sent d)) download_chunk_bytes) (max 1 1) = 1" by (simp add: download_chunk_bytes_def)
  then have turn: "download_turn 1 d = Sends [b] ?d"
    using credit less source by (simp add: download_turn_def not_le Let_def)
  have sent: "unat (dl_sent ?d) = unat (dl_sent d) + 1"
    using Suc.prems(2) unsigned_less [where ?'a = nat, of "dl_length d"] by (simp add: unat_word_ariths)
  have "unat (dl_credit ?d) = k" using Suc.prems(1) credit by (simp add: unat_minus_one)
  moreover have "k + unat (dl_sent ?d) \<le> unat (dl_length ?d)" "k \<le> length (dl_source ?d)"
    using Suc.prems(2,3) sent source by simp_all
  ultimately obtain d' where "served (k + n) grants ?d = map (\<lambda>b. [b]) (take k (dl_source ?d)) @ served n grants d'"
    "dl_credit d' = 0" "dl_source d' = drop k (dl_source ?d)" "unat (dl_sent d') = unat (dl_sent ?d) + k" "dl_length d' = dl_length ?d"
    using Suc.IH by blast
  then show ?case using turn sent source by (intro exI [of _ d']) simp
qed (auto simp: unat_eq_zero)

lemma grants_add_up:
  assumes "\<forall>g\<in>set gs. 8 \<le> g" and "dl_credit d = 0" and "8 * length gs + unat (dl_sent d) < unat (dl_length d)"
    and "8 * length gs \<le> length (dl_source d)"
  shows "length (served (9 * length gs + 1) gs d) = length gs * unat max_outstanding_chunks"
  using assms
proof (induction gs arbitrary: d)
  case Nil
  then show ?case by (simp add: download_turn_def word_le_nat_alt)
next
  case (Cons g gs)
  have waits: "download_turn 1 d = WantsCredit" using Cons.prems by (simp add: download_turn_def word_le_nat_alt)
  let ?d = "grant_credit g d"
  have "dl_credit ?d = 8"
    using Cons.prems(1,2) unsigned_less [where ?'a = nat, of g]
    by (auto simp: grant_credit_def max_outstanding_chunks_def saturating_add_def min_def)
  moreover have same: "dl_source ?d = dl_source d" "dl_sent ?d = dl_sent d" "dl_length ?d = dl_length d" by (simp_all add: grant_credit_def)
  ultimately obtain d' where d': "served (8 + (9 * length gs + 1)) gs ?d = map (\<lambda>b. [b]) (take 8 (dl_source d)) @ served (9 * length gs + 1) gs d'"
    "dl_credit d' = 0" "dl_source d' = drop 8 (dl_source d)" "unat (dl_sent d') = unat (dl_sent d) + 8" "dl_length d' = dl_length d"
    using served_credit [of ?d 8 "9 * length gs + 1" gs] Cons.prems(3,4) by auto
  have "served (9 * length (g # gs) + 1) (g # gs) d = served (8 + (9 * length gs + 1)) gs ?d"
    using waits by (simp del: served.simps add: served.simps(2) [of "8 + (9 * length gs + 1)", simplified])
  moreover have "length (served (9 * length gs + 1) gs d') = length gs * unat max_outstanding_chunks"
    using Cons.prems d'(2-5) by (intro Cons.IH) auto
  ultimately show ?case using d'(1) Cons.prems(4) by (simp add: max_outstanding_chunks_def del: served.simps)
qed

end
