(* ===== verification/Staging.thy ===== *)
theory Staging
  imports Std_Text
begin

text \<open>
  Files staged on a host (\<open>src/src/clipboard.rs\<close>): what a transfer may be called, the private
  directory it lies in, one attempt at moving its bytes there - over SSH or on this machine -
  and the receipt that says what the host now holds. A host is its files; the scripts that run
  there are modelled by what they do, and where a connection breaks is a parameter.
\<close>

type_synonym host_files = "ustring \<Rightarrow> u8 list option"

section \<open>Media\<close>

record marker =
  mk_offset :: nat
  mk_bytes :: "u8 list"

definition marker_matches :: "u8 list \<Rightarrow> marker \<Rightarrow> bool" where
  "marker_matches payload m \<longleftrightarrow> mk_offset m + length (mk_bytes m) \<le> length payload
     \<and> take (length (mk_bytes m)) (drop (mk_offset m) payload) = mk_bytes m"

record clipboard_media =
  md_mime :: ustring
  md_extension :: "ustring option"
  md_signatures :: "marker list list"

abbreviation at_start :: "u8 list \<Rightarrow> marker list" where
  "at_start bytes \<equiv> [\<lparr>mk_offset = 0, mk_bytes = bytes\<rparr>]"

definition media_png :: clipboard_media where
  "media_png = \<lparr>md_mime = lit ''image/png'', md_extension = Some (lit ''png''),
     md_signatures = [at_start [137, 80, 78, 71, 13, 10, 26, 10]]\<rparr>"

definition media_jpeg :: clipboard_media where
  "media_jpeg = \<lparr>md_mime = lit ''image/jpeg'', md_extension = Some (lit ''jpg''),
     md_signatures = [at_start [255, 216, 255]]\<rparr>"

definition media_webp :: clipboard_media where
  "media_webp = \<lparr>md_mime = lit ''image/webp'', md_extension = Some (lit ''webp''),
     md_signatures = [[\<lparr>mk_offset = 0, mk_bytes = utf8_bytes (lit ''RIFF'')\<rparr>,
       \<lparr>mk_offset = 8, mk_bytes = utf8_bytes (lit ''WEBP'')\<rparr>]]\<rparr>"

definition media_gif :: clipboard_media where
  "media_gif = \<lparr>md_mime = lit ''image/gif'', md_extension = Some (lit ''gif''),
     md_signatures = [at_start (utf8_bytes (lit ''GIF87a'')), at_start (utf8_bytes (lit ''GIF89a''))]\<rparr>"

definition media_tiff :: clipboard_media where
  "media_tiff = \<lparr>md_mime = lit ''image/tiff'', md_extension = Some (lit ''tif''),
     md_signatures = [at_start [73, 73, 42, 0], at_start [77, 77, 0, 42]]\<rparr>"

definition media_pdf :: clipboard_media where
  "media_pdf = \<lparr>md_mime = lit ''application/pdf'', md_extension = Some (lit ''pdf''),
     md_signatures = [at_start (utf8_bytes (lit ''%PDF-''))]\<rparr>"

definition media_svg :: clipboard_media where
  "media_svg = \<lparr>md_mime = lit ''image/svg+xml'', md_extension = Some (lit ''svg''), md_signatures = []\<rparr>"

definition media_opaque :: clipboard_media where
  "media_opaque = \<lparr>md_mime = lit ''application/octet-stream'', md_extension = None, md_signatures = []\<rparr>"

definition validate_media :: "clipboard_media \<Rightarrow> u8 list \<Rightarrow> unit result" where
  "validate_media m bytes =
     (if md_signatures m = [] \<or> (\<exists>alternative \<in> set (md_signatures m). list_all (marker_matches bytes) alternative)
      then Inr () else Inl (lit ''clipboard does not contain '' @ md_mime m @ lit '' data''))"

definition payload_name :: "clipboard_media \<Rightarrow> ustring result" where
  "payload_name m = (case md_extension m of
     None \<Rightarrow> Inr (lit ''payload'')
   | Some extension \<Rightarrow>
       if extension = [] \<or> \<not> list_all is_ascii_alphanumeric extension
       then Inl (lit ''unsupported clipboard media extension'')
       else Inr (lit ''payload.'' @ extension))"

definition known_media :: "clipboard_media list" where
  "known_media = [media_png, media_jpeg, media_webp, media_gif, media_tiff, media_pdf, media_svg]"

definition media_for_mime :: "ustring \<Rightarrow> clipboard_media" where
  "media_for_mime mime = (case find (\<lambda>m. md_mime m = mime) known_media of Some m \<Rightarrow> m | None \<Rightarrow> media_opaque)"

section \<open>Names and directories\<close>

definition max_transfer_name_bytes :: nat where "max_transfer_name_bytes = 240"

text \<open>What a transfer is called; \<open>debug\<close> is the debug form of a string, which a refusal shows.\<close>

definition resolve_name :: "(ustring \<Rightarrow> ustring) \<Rightarrow> ustring option \<Rightarrow> clipboard_media \<Rightarrow> ustring result" where
  "resolve_name debug requested m = (case requested of
     None \<Rightarrow> payload_name m
   | Some name \<Rightarrow>
       if name = [] \<or> utf8_len name > max_transfer_name_bytes
       then Inl (lit ''a transfer name must be between 1 and '' @ show_nat max_transfer_name_bytes
         @ lit '' bytes; this one is '' @ show_nat (utf8_len name))
       else if name = lit ''.'' \<or> name = lit ''..'' \<or> contains_str (lit ''..'') name
       then Inl (lit ''a transfer cannot be named '' @ debug name)
       else if 47 \<in> set name \<or> (\<exists>c \<in> set name. is_control c)
       then Inl (lit ''a transfer name must be one printable path component'')
       else Inr name)"

text \<open>\<open>str::rsplit_once\<close> at a character.\<close>

definition rsplit_once :: "uchar \<Rightarrow> ustring \<Rightarrow> (ustring \<times> ustring) option" where
  "rsplit_once c s = (if c \<in> set s
     then Some (rev (tl (dropWhile (\<lambda>x. x \<noteq> c) (rev s))), rev (takeWhile (\<lambda>x. x \<noteq> c) (rev s))) else None)"

definition staging_prefix :: ustring where "staging_prefix = lit ''super-herdr-clipboard.''"

definition removable_upload_directory :: "ustring \<Rightarrow> ustring option" where
  "removable_upload_directory path = (case rsplit_once 47 path of
     None \<Rightarrow> None
   | Some (directory, _) \<Rightarrow>
       (let name = (case rsplit_once 47 directory of None \<Rightarrow> directory | Some (_, tail) \<Rightarrow> tail)
        in if \<not> starts_with [47] directory \<or> \<not> starts_with staging_prefix name \<or> (\<exists>c \<in> set directory. is_control c)
           then None else Some directory))"

text \<open>The shapes the scripts accept: \<open>/*/super-herdr-clipboard.*\<close> before a removal,
  \<open>*/super-herdr-clipboard.*/*\<close> without two dots in a row before a resumption.\<close>

definition removal_shape :: "ustring \<Rightarrow> bool" where
  "removal_shape directory \<longleftrightarrow> starts_with [47] directory \<and> after_str (47 # staging_prefix) (tl directory) \<noteq> None"

definition resume_shape :: "ustring \<Rightarrow> bool" where
  "resume_shape path \<longleftrightarrow> (case after_str (47 # staging_prefix) path of None \<Rightarrow> False | Some rest \<Rightarrow> 47 \<in> set rest)
     \<and> \<not> contains_str (lit ''..'') path"

definition remove_directory :: "ustring \<Rightarrow> host_files \<Rightarrow> host_files" where
  "remove_directory directory h = (\<lambda>path. if starts_with (directory @ [47]) path then None else h path)"

text \<open>Removal is best effort: \<open>removes\<close> says whether the command for it ran.\<close>

definition discard_upload :: "bool \<Rightarrow> bool \<Rightarrow> ustring \<Rightarrow> host_files \<Rightarrow> host_files" where
  "discard_upload remote removes path h = (case removable_upload_directory path of
     None \<Rightarrow> h
   | Some directory \<Rightarrow> if removes \<and> (remote \<longrightarrow> removal_shape directory) then remove_directory directory h else h)"

section \<open>Receipts\<close>

record upload_receipt =
  rc_path :: ustring
  rc_bytes :: u64
  rc_digest :: ustring

definition parse_upload_receipt :: "u8 list \<Rightarrow> upload_receipt result" where
  "parse_upload_receipt bytes = (case from_utf8 bytes of
     None \<Rightarrow> Inl (lit ''remote upload receipt is not UTF-8'')
   | Some text \<Rightarrow>
       (let fields = split_on (\<lambda>c. c = 9) (rev (dropWhile (\<lambda>c. c = 13 \<or> c = 10) (rev text)));
            field = (\<lambda>n. if n < length fields then fields ! n else []);
            path = field 0; digest = field 2
        in if length fields > 3 \<or> \<not> starts_with [47] path \<or> (\<exists>c \<in> set path. is_control c)
             \<or> utf8_len digest \<noteq> 64 \<or> \<not> list_all is_hexdigit digest
           then Inl (lit ''remote clipboard media upload returned an invalid receipt'')
           else (case parse_unsigned (field 1) of
               None \<Rightarrow> Inl (lit ''remote clipboard media upload returned an invalid size'')
             | Some n \<Rightarrow> Inr \<lparr>rc_path = path, rc_bytes = n, rc_digest = to_ascii_lowercase digest\<rparr>)))"

definition read_upload_receipt :: "u8 list \<Rightarrow> upload_receipt result" where
  "read_upload_receipt output =
     (if length output > 4096 then Inl (lit ''the media upload returned an oversized receipt'')
      else parse_upload_receipt output)"

definition parse_source_header :: "ustring \<Rightarrow> (u64 \<times> ustring) result" where
  "parse_source_header line = (case split_once [9] (trim_end_matches 10 line) of
     None \<Rightarrow> Inl (lit ''the host described the file in a shape this does not understand'')
   | Some (len, digest) \<Rightarrow> (case parse_unsigned (trim len) of
       None \<Rightarrow> Inl (lit ''the host reported a length that is not a number'')
     | Some n \<Rightarrow>
         (let digest = trim digest
          in if utf8_len digest = 64 \<and> list_all is_hexdigit digest then Inr (n, digest)
             else Inl (lit ''the host reported a digest that is not a SHA-256''))))"

text \<open>What a client is told a source is called, and which paths are asked for at all.\<close>

definition source_name :: "ustring \<Rightarrow> ustring result" where
  "source_name path =
     (if path = [] \<or> 10 \<in> set path \<or> (\<exists>c \<in> set path. is_control c)
      then Inl (lit ''a source path must be one line of ordinary text'')
      else (let name = (case rsplit_once 47 path of None \<Rightarrow> path | Some (_, tail) \<Rightarrow> tail)
            in if name = [] then Inl (lit ''a source path must name a file'') else Inr name))"

section \<open>One attempt\<close>

datatype staging = Fresh "ustring option" | Resume ustring u64

record transfer_plan =
  pl_media :: clipboard_media
  pl_staging :: staging
  pl_length :: u64

definition plan_staged :: "transfer_plan \<Rightarrow> u64" where
  "plan_staged p = (case pl_staging p of Fresh _ \<Rightarrow> 0 | Resume _ staged \<Rightarrow> staged)"

definition plan_remaining :: "transfer_plan \<Rightarrow> u64" where
  "plan_remaining p = (case pl_staging p of Fresh _ \<Rightarrow> pl_length p | Resume _ staged \<Rightarrow> saturating_sub (pl_length p) staged)"

definition stream_chunk_bytes :: nat where "stream_chunk_bytes = 64 * 1024"

text \<open>
  What an attempt meets: whether the command or the file could be opened, the directory that was
  made for it, after how many bytes writing breaks, whether closing works, whether the script
  lives to print its receipt - and how much of the bytes it stored when it does not - and
  whether a removal works.
\<close>

record attempt =
  at_remote :: bool
  at_opens :: bool
  at_directory :: ustring
  at_breaks :: "nat option"
  at_closes :: bool
  at_reports :: bool
  at_stored :: nat
  at_removes :: bool

text \<open>Copying from a source that is read a piece at a time; \<open>sent\<close> is what was handed over.\<close>

type_synonym 'r reading = "nat \<Rightarrow> 'r \<Rightarrow> u8 list result \<times> 'r"

datatype copy_failure = SourceFailed | SinkFailed | CloseFailed

lemma copy_progress: "m < n \<Longrightarrow> xs \<noteq> [] \<Longrightarrow> n - (m + length xs) < n - m"
  by (cases xs) auto

function copy_bytes :: "'r reading \<Rightarrow> nat option \<Rightarrow> nat \<Rightarrow> u8 list \<Rightarrow> 'r \<Rightarrow> u8 list \<times> copy_failure option \<times> 'r" where
  "copy_bytes read breaks expected sent src =
     (if expected \<le> length sent then (sent, None, src)
      else (case read (min (expected - length sent) stream_chunk_bytes) src of
          (Inl _, src) \<Rightarrow> (sent, Some SourceFailed, src)
        | (Inr bytes, src) \<Rightarrow>
            (let bytes = take (min (expected - length sent) stream_chunk_bytes) bytes
             in if bytes = [] then (sent, None, src)
                else (case breaks of
                    None \<Rightarrow> copy_bytes read breaks expected (sent @ bytes) src
                  | Some n \<Rightarrow> if length (sent @ bytes) > n then (take n (sent @ bytes), Some SinkFailed, src)
                      else copy_bytes read breaks expected (sent @ bytes) src))))"
  by pat_completeness auto
termination
  by (relation "measure (\<lambda>(read, breaks, expected, sent, src). expected - length sent)")
    (auto simp: stream_chunk_bytes_def min_def not_le intro: copy_progress)

definition closing :: "attempt \<Rightarrow> copy_failure option \<Rightarrow> copy_failure option" where
  "closing e failure = (case failure of None \<Rightarrow> if at_closes e then None else Some CloseFailed | some \<Rightarrow> some)"

definition remote_failure :: "copy_failure \<Rightarrow> ustring" where
  "remote_failure f = (case f of SourceFailed \<Rightarrow> lit ''failed to read the upload source''
     | SinkFailed \<Rightarrow> lit ''failed to send upload bytes'' | CloseFailed \<Rightarrow> lit ''failed to finish the media upload'')"

definition local_failure :: "copy_failure \<Rightarrow> ustring" where
  "local_failure f = (case f of SourceFailed \<Rightarrow> lit ''failed to read the upload source''
     | SinkFailed \<Rightarrow> lit ''failed to write the local media'' | CloseFailed \<Rightarrow> lit ''failed to flush the local media file'')"

declare copy_bytes.simps [simp del]

text \<open>The scripts of a fresh and of a resumed upload: the path they print and the file they leave.\<close>

definition staged_file :: "host_files \<Rightarrow> attempt \<Rightarrow> staging \<Rightarrow> ustring \<Rightarrow> ustring option" where
  "staged_file h e where_to heading = (case where_to of
     Fresh _ \<Rightarrow> if heading = [] \<or> heading = lit ''.'' \<or> heading = lit ''..'' \<or> 47 \<in> set heading then None
       else Some (at_directory e @ 47 # heading)
   | Resume _ _ \<Rightarrow> if resume_shape heading \<and> h heading \<noteq> None then Some heading else None)"

definition host_text :: "host_files \<Rightarrow> staging \<Rightarrow> ustring \<Rightarrow> u8 list" where
  "host_text h where_to path = (case where_to of Fresh _ \<Rightarrow> [] | Resume _ _ \<Rightarrow> (case h path of Some bytes \<Rightarrow> bytes | None \<Rightarrow> []))"

definition printed_receipt :: "(u8 list \<Rightarrow> u8 list) \<Rightarrow> ustring \<Rightarrow> u8 list \<Rightarrow> u8 list" where
  "printed_receipt sha256 path contents =
     utf8_bytes (path @ 9 # show_nat (length contents) @ 9 # hex (sha256 contents) @ [10])"

definition remote_attempt ::
    "(u8 list \<Rightarrow> u8 list) \<Rightarrow> attempt \<Rightarrow> ustring \<Rightarrow> transfer_plan \<Rightarrow> 'r reading \<Rightarrow> 'r \<Rightarrow> host_files \<Rightarrow>
     host_files \<times> 'r \<times> upload_receipt result" where
  "remote_attempt sha256 e heading p read src h =
     (if \<not> at_opens e then (h, src, Inl (lit ''failed to start the SSH media upload''))
      else (case copy_bytes read (at_breaks e) (unat (plan_remaining p)) [] src of (sent, failure, src) \<Rightarrow>
        (let failed = (\<lambda>message. Inl (case closing e failure of Some f \<Rightarrow> remote_failure f | None \<Rightarrow> message));
             dead = lit ''SSH media upload failed (diagnostics redacted)''
         in case staged_file h e (pl_staging p) heading of
              None \<Rightarrow> (h, src, failed dead)
            | Some path \<Rightarrow>
                if \<not> at_reports e
                then (h(path \<mapsto> host_text h (pl_staging p) path @ take (at_stored e) sent), src, failed dead)
                else (let contents = host_text h (pl_staging p) path @ sent
                      in (h(path \<mapsto> contents), src,
                          case read_upload_receipt (printed_receipt sha256 path contents) of
                            Inr r \<Rightarrow> Inr r
                          | Inl message \<Rightarrow> failed message)))))"

text \<open>On this machine the file is written, read back and counted with saturation.\<close>

definition counted_bytes :: "u8 list \<Rightarrow> u64" where
  "counted_bytes contents = of_nat (min (length contents) (2 ^ 64 - 1))"

definition local_attempt ::
    "(u8 list \<Rightarrow> u8 list) \<Rightarrow> attempt \<Rightarrow> ustring \<Rightarrow> transfer_plan \<Rightarrow> 'r reading \<Rightarrow> 'r \<Rightarrow> host_files \<Rightarrow>
     host_files \<times> 'r \<times> upload_receipt result" where
  "local_attempt sha256 e heading p read src h =
     (if \<not> at_opens e then (h, src, Inl (lit ''failed to open the local media file''))
      else (case copy_bytes read (at_breaks e) (unat (plan_remaining p)) [] src of (sent, failure, src) \<Rightarrow>
        (let path = (case pl_staging p of Fresh _ \<Rightarrow> at_directory e @ 47 # heading | Resume path _ \<Rightarrow> path);
             contents = host_text h (pl_staging p) path @ sent;
             h' = h(path \<mapsto> contents)
         in if \<not> at_reports e then (h', src, Inl (lit ''failed to verify the local media file''))
            else (case closing e failure of
                Some f \<Rightarrow> if contents = [] then (discard_upload False (at_removes e) path h', src, Inl (local_failure f))
                  else (h', src, Inr \<lparr>rc_path = path, rc_bytes = counted_bytes contents, rc_digest = hex (sha256 contents)\<rparr>)
              | None \<Rightarrow> (h', src, Inr \<lparr>rc_path = path, rc_bytes = counted_bytes contents, rc_digest = hex (sha256 contents)\<rparr>)))))"

record uploaded_file =
  up_path :: ustring
  up_bytes :: u64
  up_mime :: ustring
  up_digest :: ustring

datatype transferred = Complete uploaded_file | Interrupted ustring u64

definition finish_attempt :: "attempt \<Rightarrow> transfer_plan \<Rightarrow> upload_receipt \<Rightarrow> host_files \<Rightarrow> host_files \<times> transferred result" where
  "finish_attempt e p r h =
     (if rc_bytes r < pl_length p then (h, Inr (Interrupted (rc_path r) (rc_bytes r)))
      else if rc_bytes r > pl_length p
      then (discard_upload (at_remote e) (at_removes e) (rc_path r) h,
            Inl (lit ''host stored '' @ show_word (rc_bytes r) @ lit '' bytes of a transfer that declared '' @ show_word (pl_length p)))
      else (h, Inr (Complete \<lparr>up_path = rc_path r, up_bytes = rc_bytes r, up_mime = md_mime (pl_media p), up_digest = rc_digest r\<rparr>)))"

definition run_attempt ::
    "(u8 list \<Rightarrow> u8 list) \<Rightarrow> attempt \<Rightarrow> ustring \<Rightarrow> transfer_plan \<Rightarrow> 'r reading \<Rightarrow> 'r \<Rightarrow> host_files \<Rightarrow>
     host_files \<times> 'r \<times> upload_receipt result" where
  "run_attempt sha256 e heading p read src h =
     (if at_remote e then remote_attempt sha256 e heading p read src h else local_attempt sha256 e heading p read src h)"

definition heading_of :: "(ustring \<Rightarrow> ustring) \<Rightarrow> transfer_plan \<Rightarrow> ustring result" where
  "heading_of debug p = (case pl_staging p of
     Fresh name \<Rightarrow> resolve_name debug name (pl_media p)
   | Resume path _ \<Rightarrow> if removable_upload_directory path = None
       then Inl (lit ''a transfer cannot be resumed into a path this bridge did not stage'') else Inr path)"

definition upload_stream ::
    "(ustring \<Rightarrow> ustring) \<Rightarrow> (u8 list \<Rightarrow> u8 list) \<Rightarrow> attempt \<Rightarrow> transfer_plan \<Rightarrow> 'r reading \<Rightarrow> 'r \<Rightarrow> host_files \<Rightarrow>
     host_files \<times> 'r \<times> transferred result" where
  "upload_stream debug sha256 e p read src h = (case heading_of debug p of
     Inl message \<Rightarrow> (h, src, Inl message)
   | Inr heading \<Rightarrow> (case run_attempt sha256 e heading p read src h of
       (h, src, Inl message) \<Rightarrow> (h, src, Inl message)
     | (h, src, Inr r) \<Rightarrow> (let (h, t) = finish_attempt e p r h in (h, src, t))))"

text \<open>How much of a transfer the host holds; \<open>asks\<close> says whether it could be asked.\<close>

definition staged_bytes :: "bool \<Rightarrow> bool \<Rightarrow> ustring \<Rightarrow> host_files \<Rightarrow> u64 option" where
  "staged_bytes remote asks path h =
     (if removable_upload_directory path = None \<or> \<not> asks \<or> (remote \<and> \<not> resume_shape path) then None
      else map_option (\<lambda>bytes. of_nat (length bytes)) (h path))"

section \<open>What the pieces guarantee\<close>

lemma dropWhile_rev_snoc: "\<not> p x \<Longrightarrow> rev (dropWhile p (rev (a @ [x]))) = a @ [x]"
  by simp

lemma printed_receipt_fields:
  assumes "\<forall>c \<in> set path. is_scalar c"
  shows "\<exists>text. from_utf8 (printed_receipt sha256 path contents) = Some text
    \<and> split_on (\<lambda>c. c = 9) (rev (dropWhile (\<lambda>c. c = 13 \<or> c = 10) (rev text)))
        = split_on (\<lambda>c. c = 9) path @ [show_nat (length contents), hex (sha256 contents)]"
proof -
  let ?size = "show_nat (length contents)" and ?digest = "hex (sha256 contents)"
  have size: "48 \<le> c \<and> c < 58" if "c \<in> set ?size" for c using show_nat_digits [OF that] by auto
  have digest: "is_hexdigit c" if "c \<in> set ?digest" for c using that hex_chars by blast
  have plain: "is_scalar c" "c \<noteq> 9" "c \<noteq> 10" "c \<noteq> 13" if "is_hexdigit c" for c
    using that by (auto simp: is_hexdigit_def is_scalar_def)
  have "from_utf8 (printed_receipt sha256 path contents) = Some (path @ 9 # ?size @ 9 # ?digest @ [10])"
    unfolding printed_receipt_def
    using assms size digest plain(1) by (intro from_utf8_bytes) (fastforce simp: is_scalar_def)
  moreover have "rev (dropWhile (\<lambda>c. c = 13 \<or> c = 10) (rev (path @ 9 # ?size @ 9 # ?digest @ [10]))) = path @ 9 # ?size @ 9 # ?digest"
  proof (cases ?digest rule: rev_cases)
    case Nil
    then show ?thesis using dropWhile_rev_snoc [of "\<lambda>c. c = 13 \<or> c = 10" 9 "path @ 9 # ?size"] by simp
  next
    case (snoc ds d)
    then have "d \<noteq> 13 \<and> d \<noteq> 10" using digest plain by (metis in_set_conv_decomp)
    then show ?thesis using snoc dropWhile_rev_snoc [of "\<lambda>c. c = 13 \<or> c = 10" d "path @ 9 # ?size @ 9 # ds"] by simp
  qed
  moreover have "split_on (\<lambda>c. c = 9) (path @ 9 # ?size @ 9 # ?digest) = split_on (\<lambda>c. c = 9) path @ [?size, ?digest]"
  proof -
    have "\<forall>c \<in> set ?size. c \<noteq> 9" "\<forall>c \<in> set ?digest. c \<noteq> 9" using size digest plain by force+
    then show ?thesis by (simp add: split_on_after split_on_append split_on_none)
  qed
  ultimately show ?thesis by simp
qed

lemma utf8_len_hex: "utf8_len (hex bytes) = 2 * length bytes"
proof -
  have "\<forall>c \<in> set (hex bytes). c < 128" using hex_chars [of bytes] by (auto simp: is_hexdigit_def)
  then show ?thesis by (simp add: utf8_len_ascii length_hex)
qed

text \<open>A receipt that is accepted says what the script printed.\<close>

lemma receipt_faithful:
  assumes "read_upload_receipt (printed_receipt sha256 path contents) = Inr r" and "\<forall>c \<in> set path. is_scalar c"
  shows "r = \<lparr>rc_path = path, rc_bytes = of_nat (length contents), rc_digest = hex (sha256 contents)\<rparr> \<and> length contents < 2 ^ 64"
proof -
  obtain printed where printed: "from_utf8 (printed_receipt sha256 path contents) = Some printed"
    "split_on (\<lambda>c. c = 9) (rev (dropWhile (\<lambda>c. c = 13 \<or> c = 10) (rev printed)))
       = split_on (\<lambda>c. c = 9) path @ [show_nat (length contents), hex (sha256 contents)]"
    using printed_receipt_fields [OF assms(2)] by blast
  obtain part parts where parts: "split_on (\<lambda>c. c = 9) path = part # parts" by (cases "split_on (\<lambda>c. c = 9) path") auto
  have "parts = []"
    using assms(1) printed parts by (auto simp: read_upload_receipt_def parse_upload_receipt_def Let_def split: if_splits)
  with parts have "split_on (\<lambda>c. c = 9) path = [path]" using split_on_single by metis
  then show ?thesis
    using assms(1) printed
    by (auto simp: read_upload_receipt_def parse_upload_receipt_def Let_def parse_unsigned_show hex_lowercase split: if_splits)
qed

lemma receipt_read:
  assumes "starts_with [47] path" and "\<forall>c \<in> set path. is_scalar c \<and> \<not> is_control c" and "length (sha256 contents) = 32"
    and "length contents < 2 ^ 64" and "length (printed_receipt sha256 path contents) \<le> 4096"
  shows "read_upload_receipt (printed_receipt sha256 path contents) =
    Inr \<lparr>rc_path = path, rc_bytes = of_nat (length contents), rc_digest = hex (sha256 contents)\<rparr>"
proof -
  obtain printed where printed: "from_utf8 (printed_receipt sha256 path contents) = Some printed"
    "split_on (\<lambda>c. c = 9) (rev (dropWhile (\<lambda>c. c = 13 \<or> c = 10) (rev printed)))
       = split_on (\<lambda>c. c = 9) path @ [show_nat (length contents), hex (sha256 contents)]"
    using printed_receipt_fields assms(2) by blast
  have "split_on (\<lambda>c. c = 9) path = [path]"
    using assms(2) by (intro split_on_none) (auto simp: is_control_def)
  moreover have "list_all is_hexdigit (hex (sha256 contents))" using hex_chars by (simp add: list_all_iff)
  ultimately show ?thesis
    using assms printed
    by (auto simp: read_upload_receipt_def parse_upload_receipt_def Let_def parse_unsigned_show hex_lowercase utf8_len_hex)
qed

text \<open>Where a transfer may lie: a directory the script or the library made, and a name in it.\<close>

definition plain_component :: "ustring \<Rightarrow> bool" where
  "plain_component name \<longleftrightarrow> name \<noteq> [] \<and> name \<noteq> lit ''.'' \<and> 47 \<notin> set name \<and> (\<forall>c \<in> set name. \<not> is_control c)
     \<and> \<not> contains_str (lit ''..'') name"

definition staging_directory :: "ustring \<Rightarrow> bool" where
  "staging_directory d \<longleftrightarrow> (\<exists>base suffix. d = 47 # base @ 47 # staging_prefix @ suffix \<and> 47 \<notin> set suffix)
     \<and> (\<forall>c \<in> set d. is_scalar c \<and> \<not> is_control c) \<and> \<not> contains_str (lit ''..'') d"

lemma contains_dots: "contains_str (lit ''..'') s \<longleftrightarrow> (\<exists>a b. s = a @ [46, 46] @ b)"
proof (induction s)
  case Nil
  show ?case by (simp add: lit_def)
next
  case (Cons c s)
  have "(\<exists>a b. c # s = a @ [46, 46] @ b) \<longleftrightarrow> take 2 (c # s) = [46, 46] \<or> (\<exists>a b. s = a @ [46, 46] @ b)" (is "?l = ?r")
  proof
    assume ?l
    then obtain a b where "c # s = a @ [46, 46] @ b" by blast
    then show ?r by (cases a) auto
  next
    assume ?r
    then show ?l
    proof
      assume "take 2 (c # s) = [46, 46]"
      then have "c # s = [] @ [46, 46] @ drop 2 (c # s)" by (metis append_Nil append_take_drop_id)
      then show ?l by blast
    next
      assume "\<exists>a b. s = a @ [46, 46] @ b"
      then show ?l by (metis append_Cons)
    qed
  qed
  then show ?case using Cons by (simp add: lit_def)
qed

lemma contains_dots_slash: "contains_str (lit ''..'') (a @ 47 # b) \<longleftrightarrow> contains_str (lit ''..'') a \<or> contains_str (lit ''..'') b"
proof -
  have "(\<exists>x y. a @ 47 # b = x @ [46, 46] @ y) \<longleftrightarrow> (\<exists>x y. a = x @ [46, 46] @ y) \<or> (\<exists>x y. b = x @ [46, 46] @ y)" (is "?l = ?r")
  proof
    assume ?l
    then obtain x y where "a @ 47 # b = x @ 46 # 46 # y" by auto
    then show ?r by (auto simp: append_eq_append_conv2 append_eq_Cons_conv Cons_eq_append_conv)
  next
    assume ?r
    then show ?l
    proof
      assume "\<exists>x y. a = x @ [46, 46] @ y"
      then obtain x y where "a = x @ [46, 46] @ y" by blast
      then have "a @ 47 # b = x @ [46, 46] @ (y @ 47 # b)" by simp
      then show ?l by blast
    next
      assume "\<exists>x y. b = x @ [46, 46] @ y"
      then obtain x y where "b = x @ [46, 46] @ y" by blast
      then have "a @ 47 # b = (a @ 47 # x) @ [46, 46] @ y" by simp
      then show ?l by blast
    qed
  qed
  then show ?thesis by (simp add: contains_dots)
qed

lemma rsplit_once_append: "c \<notin> set b \<Longrightarrow> rsplit_once c (a @ c # b) = Some (a, b)"
  by (auto simp: rsplit_once_def takeWhile_append dropWhile_append)

lemma after_str_here: "after_str part (part @ b) = Some b"
proof (cases "part @ b")
  case (Cons c cs)
  then have "strip_prefix part (c # cs) = Some b" by (metis strip_prefix_append)
  then show ?thesis unfolding Cons by simp
qed simp

lemma after_str_append: "after_str part (a @ part @ b) \<noteq> None"
proof (induction a)
  case Nil
  show ?case by (simp add: after_str_here)
next
  case (Cons c a)
  then show ?case by (simp split: option.split)
qed

lemma after_str_suffix: "after_str part (a @ part @ b) = Some rest \<Longrightarrow> \<exists>c. rest = c @ b"
proof (induction a)
  case Nil
  then show ?case by (simp add: after_str_here)
next
  case (Cons c a)
  show ?case
  proof (cases "strip_prefix part (c # a @ part @ b)")
    case None
    then show ?thesis using Cons by simp
  next
    case (Some r)
    then have "c # a @ part @ b = part @ r" by (simp add: strip_prefix_Some)
    then have "drop (length part) (c # a @ part) @ b = r"
      by (metis append_Cons append_assoc append_eq_conv_conj drop_append diff_is_0_eq drop_0 length_append le_add2 length_Cons)
    then show ?thesis using Some Cons.prems by auto
  qed
qed

lemma resolved_plain:
  assumes "resolve_name debug requested m = Inr name"
  shows "plain_component name"
proof (cases requested)
  case None
  show ?thesis
  proof (cases "md_extension m")
    case None
    with assms \<open>requested = None\<close> have name: "name = lit ''payload''" by (simp add: resolve_name_def payload_name_def)
    show ?thesis unfolding name by code_simp
  next
    case (Some x)
    with assms \<open>requested = None\<close> have name: "name = lit ''payload.'' @ x" "x \<noteq> []" "list_all is_ascii_alphanumeric x"
      by (auto simp: resolve_name_def payload_name_def split: if_splits)
    have plain: "c \<noteq> 46" "c \<noteq> 47" "\<not> is_control c" if "c \<in> set x" for c
      using that name(3) by (auto simp: list_all_iff is_ascii_alphanumeric_def is_ascii_digit_def is_control_def)
    have "lit ''payload.'' @ x \<noteq> a @ [46, 46] @ b" for a b
    proof
      assume eq: "lit ''payload.'' @ x = a @ [46, 46] @ b"
      have "count_list (lit ''payload.'' @ x) 46 = 1" using plain(1) [of 46] by (auto simp: lit_def count_list_0_iff)
      moreover have "count_list (a @ [46, 46] @ b) 46 \<ge> 2" by simp
      ultimately show False using eq by simp
    qed
    then show ?thesis using plain(2,3) by (auto simp: plain_component_def name(1) contains_dots) (auto simp: lit_def is_control_def)
  qed
next
  case (Some n)
  with assms show ?thesis by (auto simp: resolve_name_def plain_component_def split: if_splits)
qed

text \<open>Such a path is recognised: it can be discarded, with its directory and nothing else, and resumed.\<close>

lemma staged_path_recognised:
  assumes "staging_directory d" and "plain_component name"
  shows "removable_upload_directory (d @ 47 # name) = Some d" and "removal_shape d" and "resume_shape (d @ 47 # name)"
    and "starts_with [47] (d @ 47 # name)"
proof -
  obtain base suffix where d: "d = 47 # base @ 47 # staging_prefix @ suffix" "47 \<notin> set suffix"
    and chars: "\<forall>c \<in> set d. is_scalar c \<and> \<not> is_control c" and dots: "\<not> contains_str (lit ''..'') d"
    using assms(1) by (auto simp: staging_directory_def)
  have name: "47 \<notin> set name" "\<not> contains_str (lit ''..'') name" using assms(2) by (auto simp: plain_component_def)
  have "47 \<notin> set (staging_prefix @ suffix)" using d(2) by (simp add: staging_prefix_def lit_def)
  from rsplit_once_append [OF this, of "47 # base"] have "rsplit_once 47 d = Some (47 # base, staging_prefix @ suffix)"
    by (simp add: d(1))
  moreover have "rsplit_once 47 (d @ 47 # name) = Some (d, name)" using name(1) by (rule rsplit_once_append)
  moreover have "starts_with [47] d" "starts_with staging_prefix (staging_prefix @ suffix)" by (simp_all add: starts_with_def d(1))
  ultimately show "removable_upload_directory (d @ 47 # name) = Some d"
    using chars by (simp add: removable_upload_directory_def)
  show "removal_shape d"
    using after_str_append [of "47 # staging_prefix" base suffix] by (simp add: removal_shape_def d(1) starts_with_def)
  have shape: "d @ 47 # name = (47 # base) @ (47 # staging_prefix) @ (suffix @ 47 # name)" by (simp add: d(1))
  obtain rest where rest: "after_str (47 # staging_prefix) (d @ 47 # name) = Some rest"
    using after_str_append [of "47 # staging_prefix" "47 # base" "suffix @ 47 # name"] unfolding shape by blast
  with after_str_suffix [of "47 # staging_prefix" "47 # base" "suffix @ 47 # name"] have "47 \<in> set rest"
    unfolding shape by fastforce
  then show "resume_shape (d @ 47 # name)" using rest dots name(2) by (simp add: resume_shape_def contains_dots_slash)
  show "starts_with [47] (d @ 47 # name)" by (simp add: starts_with_def d(1))
qed

section \<open>What an attempt reports\<close>

definition staged_path :: "attempt \<Rightarrow> transfer_plan \<Rightarrow> ustring \<Rightarrow> ustring" where
  "staged_path e p heading = (case pl_staging p of Fresh _ \<Rightarrow> at_directory e @ 47 # heading | Resume path _ \<Rightarrow> path)"

text \<open>Whatever the paths are made of comes from strings, so every character is a scalar value.\<close>

definition scalar_plan :: "attempt \<Rightarrow> transfer_plan \<Rightarrow> bool" where
  "scalar_plan e p \<longleftrightarrow> (\<forall>c \<in> set (at_directory e). is_scalar c)
     \<and> (case pl_staging p of Fresh name \<Rightarrow> (case name of None \<Rightarrow> True | Some n \<Rightarrow> \<forall>c \<in> set n. is_scalar c)
        | Resume path _ \<Rightarrow> \<forall>c \<in> set path. is_scalar c)"

lemma heading_scalar:
  assumes "heading_of debug p = Inr heading" and "scalar_plan e p"
  shows "\<forall>c \<in> set (staged_path e p heading). is_scalar c" and "pl_staging p = Resume path n \<Longrightarrow> heading = path"
proof -
  have name: "\<forall>c \<in> set heading. is_scalar c" if "pl_staging p = Fresh name" for name
  proof (cases name)
    case None
    then have "payload_name (pl_media p) = Inr heading" using assms(1) that by (simp add: heading_of_def resolve_name_def)
    moreover have "is_ascii_alphanumeric c \<Longrightarrow> is_scalar c" for c
      by (auto simp: is_ascii_alphanumeric_def is_ascii_digit_def is_scalar_def)
    moreover have "\<forall>c \<in> set (lit ''payload.''). is_scalar c" by (simp add: lit_def is_scalar_def)
    ultimately show ?thesis
      by (auto simp: payload_name_def list_all_iff lit_def split: option.splits if_splits)
  next
    case (Some n)
    then have "heading = n" using assms(1) that by (auto simp: heading_of_def resolve_name_def split: if_splits)
    then show ?thesis using assms(2) that Some by (simp add: scalar_plan_def)
  qed
  then show "\<forall>c \<in> set (staged_path e p heading). is_scalar c"
    using assms(2) by (auto simp: staged_path_def scalar_plan_def is_scalar_def split: staging.splits)
  show "pl_staging p = Resume path n \<Longrightarrow> heading = path" using assms(1) by (auto simp: heading_of_def split: if_splits)
qed

lemma staged_file_path:
  "staged_file h e (pl_staging p) heading = Some path \<Longrightarrow> (\<And>q n. pl_staging p = Resume q n \<Longrightarrow> heading = q) \<Longrightarrow>
    path = staged_path e p heading"
  by (auto simp: staged_file_def staged_path_def split: staging.splits if_splits)

text \<open>A receipt describes the file as it is after the attempt.\<close>

lemma attempt_receipt:
  assumes "run_attempt sha256 e heading p read src h = (h', src', Inr r)"
    and "\<And>q n. pl_staging p = Resume q n \<Longrightarrow> heading = q" and "\<forall>c \<in> set (staged_path e p heading). is_scalar c"
  shows "\<exists>sent failure contents. copy_bytes read (at_breaks e) (unat (plan_remaining p)) [] src = (sent, failure, src')
    \<and> contents = host_text h (pl_staging p) (staged_path e p heading) @ sent \<and> h' = h(staged_path e p heading \<mapsto> contents)
    \<and> r = \<lparr>rc_path = staged_path e p heading, rc_bytes = counted_bytes contents, rc_digest = hex (sha256 contents)\<rparr>"
proof -
  obtain sent failure src1 where copied: "copy_bytes read (at_breaks e) (unat (plan_remaining p)) [] src = (sent, failure, src1)"
    by (cases "copy_bytes read (at_breaks e) (unat (plan_remaining p)) [] src")
  show ?thesis
  proof (cases "at_remote e")
    case True
    with assms(1) copied obtain path contents where staged: "staged_file h e (pl_staging p) heading = Some path"
      and contents: "contents = host_text h (pl_staging p) path @ sent" "h' = h(path \<mapsto> contents)" "src' = src1"
      and receipt: "read_upload_receipt (printed_receipt sha256 path contents) = Inr r"
      by (auto simp: run_attempt_def remote_attempt_def Let_def split: if_splits option.splits sum.splits)
    have path: "path = staged_path e p heading" using staged_file_path [OF staged] assms(2) by blast
    from receipt_faithful [OF receipt] assms(3) path
    have "r = \<lparr>rc_path = path, rc_bytes = of_nat (length contents), rc_digest = hex (sha256 contents)\<rparr>" "length contents < 2 ^ 64"
      by auto
    then have "r = \<lparr>rc_path = path, rc_bytes = counted_bytes contents, rc_digest = hex (sha256 contents)\<rparr>"
      by (simp add: counted_bytes_def min_def)
    then show ?thesis using copied contents path by blast
  next
    case False
    with assms(1) copied show ?thesis
      by (auto simp: run_attempt_def local_attempt_def Let_def staged_path_def split: if_splits option.splits)
  qed
qed

lemma counted_bytes_eq: "unat (counted_bytes contents) = min (length contents) (2 ^ 64 - 1)"
  by (simp add: counted_bytes_def unat_of_nat min_def)

lemma upload_reports:
  assumes "upload_stream debug sha256 e p read src h = (h', src', Inr t)" and "scalar_plan e p"
    and "unat (pl_length p) < 2 ^ 64 - 1"
  shows "\<exists>heading sent failure contents. heading_of debug p = Inr heading
    \<and> copy_bytes read (at_breaks e) (unat (plan_remaining p)) [] src = (sent, failure, src')
    \<and> contents = host_text h (pl_staging p) (staged_path e p heading) @ sent \<and> h' = h(staged_path e p heading \<mapsto> contents)
    \<and> (t = Interrupted (staged_path e p heading) (of_nat (length contents)) \<and> length contents < unat (pl_length p)
       \<or> t = Complete \<lparr>up_path = staged_path e p heading, up_bytes = pl_length p, up_mime = md_mime (pl_media p),
              up_digest = hex (sha256 contents)\<rparr> \<and> length contents = unat (pl_length p))"
proof -
  obtain heading where heading: "heading_of debug p = Inr heading"
    using assms(1) by (auto simp: upload_stream_def split: sum.splits)
  obtain h1 r where ran: "run_attempt sha256 e heading p read src h = (h1, src', Inr r)"
    and finish: "finish_attempt e p r h1 = (h', Inr t)"
    using assms(1) heading by (auto simp: upload_stream_def split: sum.splits prod.splits)
  from attempt_receipt [OF ran] heading_scalar [OF heading assms(2)] obtain sent failure contents where
    copied: "copy_bytes read (at_breaks e) (unat (plan_remaining p)) [] src = (sent, failure, src')"
    "contents = host_text h (pl_staging p) (staged_path e p heading) @ sent" "h1 = h(staged_path e p heading \<mapsto> contents)"
    and r: "r = \<lparr>rc_path = staged_path e p heading, rc_bytes = counted_bytes contents, rc_digest = hex (sha256 contents)\<rparr>"
    by blast
  have less: "rc_bytes r < pl_length p \<longleftrightarrow> length contents < unat (pl_length p)"
    and eq: "rc_bytes r = pl_length p \<longleftrightarrow> length contents = unat (pl_length p)"
    using assms(3) by (auto simp: r word_less_nat_alt word_unat_eq_iff counted_bytes_eq min_def)
  have "h' = h1 \<and> (t = Interrupted (staged_path e p heading) (of_nat (length contents)) \<and> length contents < unat (pl_length p)
     \<or> t = Complete \<lparr>up_path = staged_path e p heading, up_bytes = pl_length p, up_mime = md_mime (pl_media p),
            up_digest = hex (sha256 contents)\<rparr> \<and> length contents = unat (pl_length p))"
  proof (cases "length contents < unat (pl_length p)")
    case True
    then have "counted_bytes contents = of_nat (length contents)" using assms(3) by (simp add: counted_bytes_def min_def)
    then show ?thesis using finish True less by (auto simp: finish_attempt_def r)
  next
    case False
    then have "rc_bytes r = pl_length p" using finish less by (auto simp: finish_attempt_def not_less_iff_gr_or_eq split: if_splits)
    then show ?thesis using finish eq by (auto simp: finish_attempt_def r)
  qed
  then show ?thesis using heading copied by blast
qed

end
