(* ===== verification/Transfers.thy ===== *)
theory Transfers
  imports Staging Ordered_Map Protocol
begin

text \<open>
  Files that clients upload through the daemon (\<open>src/src/daemon/server.rs\<close>): the relay that
  reads what a client sends and checks the digest it attests to, the transfers that are kept
  when a connection ends early, and the tokens under which they are resumed. The queue a client
  fills is the list of what it sends before it goes away.
\<close>

section \<open>Reading what a client sends\<close>

datatype relay_item = RelayChunk "u8 list" | RelayFinish ustring | RelayCancel

datatype trailer = TrailerDigest ustring | TrailerOverrun | TrailerMissing

record relay_reader =
  rr_chunks :: "relay_item list"
  rr_pending :: "u8 list"
  rr_attested :: "ustring option"
  rr_cancelled :: bool

definition reader_new :: "relay_item list \<Rightarrow> relay_reader" where
  "reader_new chunks = \<lparr>rr_chunks = chunks, rr_pending = [], rr_attested = None, rr_cancelled = False\<rparr>"

text \<open>One read; an empty chunk is not the end of anything.\<close>

fun skip_empty :: "relay_item list \<Rightarrow> relay_item list" where
  "skip_empty (RelayChunk [] # rest) = skip_empty rest"
| "skip_empty items = items"

definition relay_poll :: "relay_reader reading" where
  "relay_poll n r =
     (if rr_pending r \<noteq> [] then (Inr (take n (rr_pending r)), r\<lparr>rr_pending := drop n (rr_pending r)\<rparr>)
      else (case skip_empty (rr_chunks r) of
          [] \<Rightarrow> (Inr [], r\<lparr>rr_chunks := []\<rparr>)
        | RelayFinish digest # rest \<Rightarrow> (Inr [], r\<lparr>rr_chunks := rest, rr_attested := Some digest\<rparr>)
        | RelayCancel # rest \<Rightarrow> (Inr [], r\<lparr>rr_chunks := rest, rr_cancelled := True\<rparr>)
        | RelayChunk bytes # rest \<Rightarrow> (Inr (take n bytes), r\<lparr>rr_chunks := rest, rr_pending := drop n bytes\<rparr>)))"

text \<open>What is attested after the last declared byte; \<open>in_time\<close> says whether something arrived
  before the timeout.\<close>

definition relay_trailer :: "bool \<Rightarrow> relay_reader \<Rightarrow> relay_reader \<times> trailer" where
  "relay_trailer in_time r = (case rr_attested r of
     Some digest \<Rightarrow> (r\<lparr>rr_attested := None\<rparr>, TrailerDigest digest)
   | None \<Rightarrow>
       if rr_pending r \<noteq> [] then (r, TrailerOverrun)
       else if \<not> in_time then (r, TrailerMissing)
       else (case rr_chunks r of
           RelayFinish digest # rest \<Rightarrow> (r\<lparr>rr_chunks := rest\<rparr>, TrailerDigest digest)
         | RelayChunk _ # rest \<Rightarrow> (r\<lparr>rr_chunks := rest\<rparr>, TrailerOverrun)
         | RelayCancel # rest \<Rightarrow> (r\<lparr>rr_chunks := rest, rr_cancelled := True\<rparr>, TrailerMissing)
         | [] \<Rightarrow> (r, TrailerMissing)))"

datatype relayed = Done ustring u64 | Refused ustring | KeptBack ustring u64 | Withdrawn

definition relay ::
    "(ustring \<Rightarrow> ustring) \<Rightarrow> (u8 list \<Rightarrow> u8 list) \<Rightarrow> attempt \<Rightarrow> bool \<Rightarrow> transfer_plan \<Rightarrow> relay_item list \<Rightarrow> host_files \<Rightarrow>
     host_files \<times> relayed" where
  "relay debug sha256 e in_time p chunks h =
     (let discard = discard_upload (at_remote e) (at_removes e)
      in case upload_stream debug sha256 e p relay_poll (reader_new chunks) h of
           (h, r, Inl message) \<Rightarrow> (h, if rr_cancelled r then Withdrawn else Refused message)
         | (h, r, Inr (Interrupted path staged)) \<Rightarrow>
             if rr_cancelled r then (discard path h, Withdrawn)
             else if rr_attested r \<noteq> None
             then (discard path h, Refused (lit ''transfer ended with '' @ show_word staged @ lit '' of the ''
               @ show_word (pl_length p) @ lit '' bytes it declared''))
             else (h, KeptBack path staged)
         | (h, r, Inr (Complete u)) \<Rightarrow>
             (case relay_trailer in_time r of
                (r, TrailerDigest digest) \<Rightarrow>
                  if digest = up_digest u then (h, Done (up_path u) (up_bytes u))
                  else (discard (up_path u) h, Refused (lit ''transfer does not match the digest its sender attested to''))
              | (r, TrailerOverrun) \<Rightarrow>
                  (discard (up_path u) h, Refused (lit ''transfer sent more than the '' @ show_word (pl_length p) @ lit '' bytes it declared''))
              | (r, TrailerMissing) \<Rightarrow>
                  if rr_cancelled r then (discard (up_path u) h, Withdrawn) else (h, KeptBack (up_path u) (up_bytes u))))"

section \<open>Only what was attested is accepted\<close>

definition reads_from :: "relay_item list \<Rightarrow> relay_reader \<Rightarrow> bool" where
  "reads_from chunks r \<longleftrightarrow> set (rr_chunks r) \<subseteq> set chunks \<and> (\<forall>d. rr_attested r = Some d \<longrightarrow> RelayFinish d \<in> set chunks)"

lemma set_skip_empty: "set (skip_empty items) \<subseteq> set items"
  by (induction items rule: skip_empty.induct) auto

lemma relay_poll_from: "reads_from chunks r \<Longrightarrow> reads_from chunks (snd (relay_poll n r))"
  using set_skip_empty [of "rr_chunks r"]
  by (auto simp: relay_poll_def reads_from_def split: list.splits relay_item.splits)

lemma copy_bytes_keeps:
  assumes "copy_bytes read breaks expected sent src = (sent', failure, src')" and "\<And>n r. I r \<Longrightarrow> I (snd (read n r))" and "I src"
  shows "I src'"
  using assms
proof (induction read breaks expected sent src rule: copy_bytes.induct)
  case (1 read breaks expected sent src)
  show ?case
  proof (cases "expected \<le> length sent")
    case True
    then show ?thesis using "1.prems" by (simp add: copy_bytes.simps)
  next
    case False
    obtain out src1 where poll: "read (min (expected - length sent) stream_chunk_bytes) src = (out, src1)" by fastforce
    have keep: "I src1" using "1.prems"(2) [OF "1.prems"(3), of "min (expected - length sent) stream_chunk_bytes"] poll by simp
    show ?thesis
    proof (cases out)
      case (Inl message)
      then show ?thesis using "1.prems"(1) False poll keep by (subst (asm) copy_bytes.simps) simp
    next
      case (Inr bytes)
      note IH = "1.IH" [OF False poll [symmetric] Inr refl]
      let ?bytes = "take (min (expected - length sent) stream_chunk_bytes) bytes"
      show ?thesis
        using "1.prems" False poll Inr keep IH
        by (subst (asm) copy_bytes.simps) (auto simp: Let_def split: if_splits option.splits)
    qed
  qed
qed

lemma relay_copy_from:
  assumes "copy_bytes relay_poll breaks expected sent (reader_new chunks) = (sent', failure, r)"
  shows "reads_from chunks r"
proof (rule copy_bytes_keeps [where I = "reads_from chunks", OF assms])
  show "reads_from chunks (reader_new chunks)" by (simp add: reads_from_def reader_new_def)
qed (rule relay_poll_from)

lemma relay_trailer_from:
  "relay_trailer in_time r = (r', TrailerDigest d) \<Longrightarrow> reads_from chunks r \<Longrightarrow> RelayFinish d \<in> set chunks"
  by (auto simp: relay_trailer_def reads_from_def split: option.splits if_splits list.splits relay_item.splits)

text \<open>
  C15. A client is told that its upload is complete only when the file is what it attested to. The
  file at the reported path then has exactly the declared length, the client sent the SHA-256
  of these very contents after its bytes, and no other file on the host has changed - also when
  the transfer is one that an earlier attempt began, and however the host or the connection fail.
\<close>

theorem relay_done_verified:
  assumes "relay debug sha256 e in_time p chunks h = (h', Done path bytes)" and "scalar_plan e p"
    and "unat (pl_length p) < 2 ^ 64 - 1"
  shows "\<exists>contents. h' = h(path \<mapsto> contents) \<and> length contents = unat (pl_length p) \<and> bytes = pl_length p
    \<and> RelayFinish (hex (sha256 contents)) \<in> set chunks"
proof -
  obtain r u r' where up: "upload_stream debug sha256 e p relay_poll (reader_new chunks) h = (h', r, Inr (Complete u))"
    "relay_trailer in_time r = (r', TrailerDigest (up_digest u))" "path = up_path u" "bytes = up_bytes u"
    using assms(1) by (auto simp: relay_def Let_def split: prod.splits sum.splits transferred.splits trailer.splits if_splits)
  from upload_reports [OF up(1) assms(2,3)] obtain contents sent failure where
    "copy_bytes relay_poll (at_breaks e) (unat (plan_remaining p)) [] (reader_new chunks) = (sent, failure, r)"
    "h' = h(up_path u \<mapsto> contents)" "up_digest u = hex (sha256 contents)" "up_bytes u = pl_length p"
    "length contents = unat (pl_length p)" by auto
  then show ?thesis using relay_trailer_from [OF up(2) relay_copy_from] up(3,4) by metis
qed

section \<open>Resuming\<close>

text \<open>How a transfer goes on: from where the host says it got to, or from nothing.\<close>

definition resumed_plan :: "bool \<Rightarrow> bool \<Rightarrow> bool \<Rightarrow> clipboard_media \<Rightarrow> ustring option \<Rightarrow> u64 \<Rightarrow> ustring option \<Rightarrow> host_files \<Rightarrow>
    host_files \<times> transfer_plan" where
  "resumed_plan remote asks removes m name len path h =
     (let staged = (case path of Some path \<Rightarrow> unwrap_or 0 (staged_bytes remote asks path h) | None \<Rightarrow> 0)
      in case path of
           Some path \<Rightarrow>
             if staged > 0 then (h, \<lparr>pl_media = m, pl_staging = Resume path staged, pl_length = len\<rparr>)
             else (discard_upload remote removes path h, \<lparr>pl_media = m, pl_staging = Fresh name, pl_length = len\<rparr>)
         | None \<Rightarrow> (h, \<lparr>pl_media = m, pl_staging = Fresh name, pl_length = len\<rparr>))"

text \<open>
  A client that comes back after every interruption: in each attempt it sends what its side of
  the connection makes of the offset it is told, until an attempt is settled.
\<close>

record sending =
  sn_attempt :: attempt
  sn_sends :: "u64 \<Rightarrow> relay_item list"
  sn_in_time :: bool
  sn_asks :: bool

fun carry :: "(ustring \<Rightarrow> ustring) \<Rightarrow> (u8 list \<Rightarrow> u8 list) \<Rightarrow> ustring option \<Rightarrow> transfer_plan \<Rightarrow> sending list \<Rightarrow> host_files \<Rightarrow>
    host_files \<times> relayed option" where
  "carry debug sha256 name p [] h = (h, None)"
| "carry debug sha256 name p (s # rest) h =
     (case relay debug sha256 (sn_attempt s) (sn_in_time s) p (sn_sends s (plan_staged p)) h of
        (h, KeptBack path _) \<Rightarrow>
          (let (h, p) = resumed_plan (at_remote (sn_attempt s)) (sn_asks s) (at_removes (sn_attempt s)) (pl_media p) name (pl_length p) (Some path) h
           in carry debug sha256 name p rest h)
      | (h, outcome) \<Rightarrow> (h, Some outcome))"

text \<open>What a reader still has to give before the end of its chunks.\<close>

definition holds :: "relay_reader \<Rightarrow> u8 list \<Rightarrow> relay_item list \<Rightarrow> bool" where
  "holds r bytes tail \<longleftrightarrow> (\<exists>cs. rr_chunks r = map RelayChunk cs @ tail \<and> [] \<notin> set cs \<and> bytes = rr_pending r @ concat cs)
     \<and> rr_attested r = None \<and> \<not> rr_cancelled r"

lemma take_within: "take (min n (length c)) (c @ x) = take n c" "drop (min n (length c)) (c @ x) = drop n c @ x"
  by (auto simp: min_def)

lemma poll_gives:
  assumes "holds r bytes tail" and "0 < n" and "bytes \<noteq> []"
  obtains k r' where "relay_poll n r = (Inr (take k bytes), r')" "0 < k" "k \<le> n" "k \<le> length bytes" "holds r' (drop k bytes) tail"
proof -
  obtain cs where cs: "rr_chunks r = map RelayChunk cs @ tail" "bytes = rr_pending r @ concat cs" "[] \<notin> set cs"
    and flags: "rr_attested r = None" "\<not> rr_cancelled r" using assms(1) by (auto simp: holds_def)
  show ?thesis
  proof (cases "rr_pending r = []")
    case False
    show ?thesis
    proof (rule that [of "min n (length (rr_pending r))"])
      show "relay_poll n r = (Inr (take (min n (length (rr_pending r))) bytes), r\<lparr>rr_pending := drop n (rr_pending r)\<rparr>)"
        using False cs(2) by (simp add: relay_poll_def min_def)
      show "holds (r\<lparr>rr_pending := drop n (rr_pending r)\<rparr>) (drop (min n (length (rr_pending r))) bytes) tail"
        using cs flags by (auto simp: holds_def min_def)
    qed (use False assms(2) cs(2) in auto)
  next
    case True
    then have "concat cs \<noteq> []" using assms(3) cs(2) by simp
    then obtain b bs cs' where split: "cs = (b # bs) # cs'" using cs(3) by (cases cs; cases "hd cs") auto
    then have skip: "skip_empty (rr_chunks r) = RelayChunk (b # bs) # map RelayChunk cs' @ tail" "concat cs = (b # bs) @ concat cs'"
      by (simp_all add: cs(1))
    have rest: "[] \<notin> set cs'" using cs(3) split by simp
    let ?r = "r\<lparr>rr_chunks := map RelayChunk cs' @ tail, rr_pending := drop n (b # bs)\<rparr>"
    show ?thesis
    proof (rule that [of "min n (length (b # bs))"])
      show "relay_poll n r = (Inr (take (min n (length (b # bs))) bytes), ?r)"
        using True skip(1) unfolding cs(2) skip(2) True append_Nil take_within by (simp add: relay_poll_def True)
      show "holds ?r (drop (min n (length (b # bs))) bytes) tail"
        using flags rest unfolding cs(2) skip(2) True append_Nil take_within holds_def by auto
    qed (use True assms(2) cs(2) skip(2) in auto)
  qed
qed

lemma poll_ends:
  assumes "holds r [] tail" and "tail = [] \<or> tail = [RelayFinish d]"
  obtains r' where "relay_poll n r = (Inr [], r')" "rr_pending r' = []" "\<not> rr_cancelled r'" "rr_chunks r' = []"
    "rr_attested r' = (if tail = [] then None else Some d)"
proof -
  obtain cs where cs: "rr_chunks r = map RelayChunk cs @ tail" "rr_pending r = []" "concat cs = []" "[] \<notin> set cs"
    and flags: "rr_attested r = None" "\<not> rr_cancelled r" using assms(1) by (auto simp: holds_def)
  have "cs = []" using cs(3,4) by (cases cs) auto
  then have "skip_empty (rr_chunks r) = tail" using cs(1) assms(2) by auto
  with assms(2) show ?thesis
  proof (elim disjE)
    assume "tail = []" "skip_empty (rr_chunks r) = tail"
    then show ?thesis using that [of "r\<lparr>rr_chunks := []\<rparr>"] cs(2) flags by (simp add: relay_poll_def)
  next
    assume "tail = [RelayFinish d]" "skip_empty (rr_chunks r) = tail"
    then show ?thesis using that [of "r\<lparr>rr_chunks := [], rr_attested := Some d\<rparr>"] cs(2) flags by (simp add: relay_poll_def)
  qed
qed

text \<open>Copying hands over a prefix of what is held, and all that is wanted when nothing breaks.\<close>

lemma copy_piece:
  assumes "\<not> expected \<le> length sent" and "read (min (expected - length sent) stream_chunk_bytes) src = (Inr bytes, src')"
    and "take (min (expected - length sent) stream_chunk_bytes) bytes = bytes" and "bytes \<noteq> []"
  shows "copy_bytes read breaks expected sent src = (case breaks of
      None \<Rightarrow> copy_bytes read breaks expected (sent @ bytes) src'
    | Some n \<Rightarrow> if length (sent @ bytes) > n then (take n (sent @ bytes), Some SinkFailed, src')
        else copy_bytes read breaks expected (sent @ bytes) src')"
  using assms by (subst copy_bytes.simps) (simp add: Let_def split: option.split)

lemma copy_held:
  assumes "copy_bytes relay_poll breaks expected sent r = (sent', failure, r')" and "holds r bytes tail"
    and "tail = [] \<or> tail = [RelayFinish d]" and "length sent \<le> expected" and "\<And>n. breaks = Some n \<Longrightarrow> length sent \<le> n"
  shows "\<exists>m. sent' = sent @ take m bytes \<and> m \<le> expected - length sent \<and> \<not> rr_cancelled r'
    \<and> (tail = [] \<longrightarrow> rr_attested r' = None)
    \<and> (breaks = None \<longrightarrow> failure = None \<and> m = min (expected - length sent) (length bytes))
    \<and> (expected - length sent \<le> m \<longrightarrow> holds r' (drop m bytes) tail)"
  using assms
proof (induction "expected - length sent" arbitrary: sent r bytes rule: less_induct)
  case less
  show ?case
  proof (cases "expected \<le> length sent")
    case True
    then have "sent' = sent" "failure = None" "r' = r" using less.prems(1) by (simp_all add: copy_bytes.simps)
    then show ?thesis using less.prems(2) True by (intro exI [of _ 0]) (auto simp: holds_def)
  next
    case False
    let ?want = "min (expected - length sent) stream_chunk_bytes"
    have want: "0 < ?want" using False by (simp add: stream_chunk_bytes_def)
    show ?thesis
    proof (cases "bytes = []")
      case True
      with poll_ends [OF _ less.prems(3)] less.prems(2) obtain r1 where
        "relay_poll ?want r = (Inr [], r1)" "\<not> rr_cancelled r1" "rr_attested r1 = (if tail = [] then None else Some d)" by metis
      then have "sent' = sent" "failure = None" "r' = r1" "\<not> rr_cancelled r1" "tail = [] \<longrightarrow> rr_attested r1 = None"
        using less.prems(1) False by (simp_all add: copy_bytes.simps)
      then show ?thesis using True False by (intro exI [of _ 0]) auto
    next
      case some: False
      from poll_gives [OF less.prems(2) want some] obtain k r1 where
        poll: "relay_poll ?want r = (Inr (take k bytes), r1)" and k: "0 < k" "k \<le> ?want" "k \<le> length bytes"
        and held: "holds r1 (drop k bytes) tail" .
      let ?sent = "sent @ take k bytes"
      have piece: "take ?want (take k bytes) = take k bytes" "take k bytes \<noteq> []" using k some by auto
      have length: "length ?sent = length sent + k" using k by simp
      show ?thesis
      proof (cases "\<exists>n. breaks = Some n \<and> length ?sent > n")
        case True
        then obtain n where n: "breaks = Some n" "n < length ?sent" "length sent \<le> n" using less.prems(5) by auto
        then have "sent' = take n ?sent" "r' = r1"
          using less.prems(1) copy_piece [where read = relay_poll, OF False poll piece, of breaks] by simp_all
        then have "sent' = sent @ take (n - length sent) bytes" using n(2,3) length by (simp add: min_absorb1)
        then show ?thesis using n k length held \<open>r' = r1\<close>
          by (intro exI [of _ "n - length sent"]) (auto simp: holds_def)
      next
        case unbroken: False
        have more: "copy_bytes relay_poll breaks expected ?sent r1 = (sent', failure, r')"
          using less.prems(1) copy_piece [where read = relay_poll, OF False poll piece, of breaks] unbroken by (auto split: option.splits if_splits)
        have "expected - length ?sent < expected - length sent" "length ?sent \<le> expected" using k False length by auto
        moreover have "length ?sent \<le> n" if "breaks = Some n" for n using unbroken that by auto
        ultimately obtain m where m: "sent' = ?sent @ take m (drop k bytes)" "m \<le> expected - length ?sent" "\<not> rr_cancelled r'"
          "tail = [] \<longrightarrow> rr_attested r' = None"
          "breaks = None \<longrightarrow> failure = None \<and> m = min (expected - length ?sent) (length (drop k bytes))"
          "expected - length ?sent \<le> m \<longrightarrow> holds r' (drop m (drop k bytes)) tail"
          using less.hyps [OF _ more held less.prems(3)] by blast
        have "sent' = sent @ take (k + m) bytes" using m(1) by (simp add: take_add)
        then show ?thesis using m(2-) k length by (intro exI [of _ "k + m"]) (auto simp: add.commute)
      qed
    qed
  qed
qed

lemma copy_from_start:
  assumes "copy_bytes relay_poll breaks expected [] r = (sent, failure, r')" and "holds r bytes tail"
    and "tail = [] \<or> tail = [RelayFinish d]"
  shows "\<exists>m. sent = take m bytes \<and> m \<le> expected \<and> \<not> rr_cancelled r' \<and> (tail = [] \<longrightarrow> rr_attested r' = None)
    \<and> (breaks = None \<longrightarrow> failure = None \<and> m = min expected (length bytes)) \<and> (expected \<le> m \<longrightarrow> holds r' (drop m bytes) tail)"
  using copy_held [OF assms] by simp

text \<open>An attempt that reaches the host and back, into a directory of the usual shape.\<close>

definition able :: "attempt \<Rightarrow> bool" where
  "able e \<longleftrightarrow> at_opens e \<and> at_reports e \<and> staging_directory (at_directory e) \<and> utf8_len (at_directory e) \<le> 3700
     \<and> (at_remote e \<or> at_breaks e = None \<and> at_closes e)"

definition known_path :: "ustring \<Rightarrow> bool" where
  "known_path path \<longleftrightarrow> (\<exists>d name. path = d @ 47 # name \<and> staging_directory d \<and> utf8_len d \<le> 3700
     \<and> plain_component name \<and> (\<forall>c \<in> set name. is_scalar c) \<and> utf8_len name \<le> 240)"

lemma known_path_facts:
  assumes "known_path path"
  shows "starts_with [47] path" "\<forall>c \<in> set path. is_scalar c \<and> \<not> is_control c" "utf8_len path \<le> 3941" "resume_shape path"
    "removable_upload_directory path \<noteq> None"
proof -
  obtain d name where path: "path = d @ 47 # name" and d: "staging_directory d" "utf8_len d \<le> 3700"
    and name: "plain_component name" "\<forall>c \<in> set name. is_scalar c" "utf8_len name \<le> 240"
    using assms by (auto simp: known_path_def)
  show "starts_with [47] path" "resume_shape path" "removable_upload_directory path \<noteq> None"
    using staged_path_recognised [OF d(1) name(1)] by (simp_all add: path)
  have "is_scalar 47" "\<not> is_control 47" by (simp_all add: is_scalar_def is_control_def)
  then show "\<forall>c \<in> set path. is_scalar c \<and> \<not> is_control c"
    using d(1) name(1,2) by (auto simp: path staging_directory_def plain_component_def)
  show "utf8_len path \<le> 3941" using d(2) name(3) by (simp add: path utf8_len_def utf8_width_def)
qed

lemma receipt_fits:
  assumes "known_path path" and "length contents < 2 ^ 64" and "length (sha256 contents) = 32"
  shows "read_upload_receipt (printed_receipt sha256 path contents) =
    Inr \<lparr>rc_path = path, rc_bytes = counted_bytes contents, rc_digest = hex (sha256 contents)\<rparr>"
proof -
  note path = known_path_facts [OF assms(1)]
  have "length contents < 10 ^ Suc 19" using assms(2) by simp
  then have "length (show_nat (length contents)) \<le> 20" using length_show_nat by fastforce
  moreover have "utf8_len (show_nat (length contents)) = length (show_nat (length contents))"
    using show_nat_digits by (intro utf8_len_ascii) fastforce
  ultimately have "length (printed_receipt sha256 path contents) \<le> 4096"
    using path(3) utf8_len_hex [of "sha256 contents"] assms(3)
    by (simp add: printed_receipt_def length_utf8_bytes utf8_len_def utf8_width_def utf8_char_def utf8_codes_def)
  from receipt_read [OF path(1,2) assms(3,2) this] show ?thesis
    using assms(2) by (simp add: counted_bytes_def min_def)
qed

lemma upload_forward:
  assumes "able e" and "heading_of debug p = Inr heading" and "known_path (staged_path e p heading)"
    and "\<And>path n. pl_staging p = Resume path n \<Longrightarrow> h path \<noteq> None"
    and "\<And>name. pl_staging p = Fresh name \<Longrightarrow> plain_component heading"
    and copied: "copy_bytes read (at_breaks e) (unat (plan_remaining p)) [] src = (sent, failure, src')"
    and contents: "contents = host_text h (pl_staging p) (staged_path e p heading) @ sent" "length contents \<le> unat (pl_length p)"
    and "unat (pl_length p) < 2 ^ 64 - 1" and "length (sha256 contents) = 32"
    and "\<not> at_remote e \<Longrightarrow> failure = None"
  shows "upload_stream debug sha256 e p read src h = (h((staged_path e p heading) \<mapsto> contents), src',
    Inr (if length contents < unat (pl_length p) then Interrupted (staged_path e p heading) (of_nat (length contents))
         else Complete \<lparr>up_path = (staged_path e p heading), up_bytes = pl_length p, up_mime = md_mime (pl_media p), up_digest = hex (sha256 contents)\<rparr>))"
proof -
  let ?path = "staged_path e p heading"
  let ?receipt = "\<lparr>rc_path = ?path, rc_bytes = counted_bytes contents, rc_digest = hex (sha256 contents)\<rparr>"
  have small: "length contents < 2 ^ 64" using contents(2) assms(9) by linarith
  have ran: "run_attempt sha256 e heading p read src h = (h(?path \<mapsto> contents), src', Inr ?receipt)"
  proof (cases "at_remote e")
    case True
    have "staged_file h e (pl_staging p) heading = Some ?path"
    proof (cases "pl_staging p")
      case (Fresh name)
      have "\<not> contains_str (lit ''..'') heading" using assms(5) [OF Fresh] by (simp add: plain_component_def)
      then have "heading \<noteq> lit ''..''" by (auto simp: contains_dots lit_def)
      then show ?thesis using Fresh assms(5) [OF Fresh] by (simp add: staged_file_def staged_path_def plain_component_def)
    next
      case (Resume path n)
      then have "heading = path" using assms(2) by (simp add: heading_of_def split: if_splits)
      then show ?thesis using Resume assms(4) known_path_facts(4) [OF assms(3)] by (simp add: staged_file_def staged_path_def)
    qed
    then show ?thesis
      using True assms(1) copied contents(1) receipt_fits [where ?sha256.0 = sha256, OF assms(3) small assms(10)]
      by (simp add: run_attempt_def remote_attempt_def able_def Let_def)
  next
    case False
    have "closing e failure = None" using False assms(1,11) by (simp add: closing_def able_def)
    then show ?thesis
      using False assms(1) copied contents(1) by (simp add: run_attempt_def local_attempt_def able_def Let_def staged_path_def)
  qed
  have "finish_attempt e p ?receipt (h(?path \<mapsto> contents)) = (h(?path \<mapsto> contents),
    Inr (if length contents < unat (pl_length p) then Interrupted ?path (of_nat (length contents))
         else Complete \<lparr>up_path = ?path, up_bytes = pl_length p, up_mime = md_mime (pl_media p), up_digest = hex (sha256 contents)\<rparr>))"
  proof (cases "length contents < unat (pl_length p)")
    case True
    then have "counted_bytes contents = of_nat (length contents)" "counted_bytes contents < pl_length p"
      using assms(9) by (simp_all add: counted_bytes_def word_less_nat_alt unat_of_nat min_def)
    then show ?thesis using True by (simp add: finish_attempt_def)
  next
    case False
    then have "counted_bytes contents = pl_length p"
      using contents(2) assms(9) by (simp add: counted_bytes_eq word_unat_eq_iff)
    then show ?thesis using False by (simp add: finish_attempt_def)
  qed
  then show ?thesis using assms(2) ran by (simp add: upload_stream_def)
qed

section \<open>A transfer survives its interruptions\<close>

text \<open>A client that sends some of what is missing and goes away, and one that sends all of it and
  attests to it.\<close>

definition sends_some :: "u8 list \<Rightarrow> sending \<Rightarrow> bool" where
  "sends_some c s \<longleftrightarrow> able (sn_attempt s)
     \<and> (\<forall>n. \<exists>cs k. sn_sends s n = map RelayChunk cs \<and> [] \<notin> set cs \<and> concat cs = take k (drop (unat n) c))"

definition sends_rest :: "(u8 list \<Rightarrow> u8 list) \<Rightarrow> u8 list \<Rightarrow> sending \<Rightarrow> bool" where
  "sends_rest sha256 c s \<longleftrightarrow> able (sn_attempt s) \<and> at_breaks (sn_attempt s) = None \<and> sn_in_time s
     \<and> (\<forall>n. \<exists>cs. sn_sends s n = map RelayChunk cs @ [RelayFinish (hex (sha256 c))] \<and> [] \<notin> set cs \<and> concat cs = drop (unat n) c)"

definition plan_ok :: "(ustring \<Rightarrow> ustring) \<Rightarrow> ustring option \<Rightarrow> u8 list \<Rightarrow> host_files \<Rightarrow> transfer_plan \<Rightarrow> bool" where
  "plan_ok debug name c h p \<longleftrightarrow> pl_length p = of_nat (length c) \<and> length c < 2 ^ 64 - 1
     \<and> (\<exists>n. resolve_name debug name (pl_media p) = Inr n \<and> (\<forall>x \<in> set n. is_scalar x) \<and> utf8_len n \<le> 240)
     \<and> (pl_staging p = Fresh name
        \<or> (\<exists>path n. pl_staging p = Resume path n \<and> known_path path \<and> unat n \<le> length c \<and> h path = Some (take (unat n) c)))"

lemma plan_ok_path:
  assumes "plan_ok debug name c h p" and "able e"
  obtains heading where "heading_of debug p = Inr heading" "known_path (staged_path e p heading)"
    "\<And>path n. pl_staging p = Resume path n \<Longrightarrow> h path \<noteq> None" "\<And>name. pl_staging p = Fresh name \<Longrightarrow> plain_component heading"
    "host_text h (pl_staging p) (staged_path e p heading) = take (unat (plan_staged p)) c"
    "unat (plan_staged p) \<le> length c" "unat (plan_remaining p) = length c - unat (plan_staged p)"
proof (cases "pl_staging p")
  case (Fresh name')
  then obtain n where n: "resolve_name debug name (pl_media p) = Inr n" "\<forall>x \<in> set n. is_scalar x" "utf8_len n \<le> 240" "name' = name"
    using assms(1) by (auto simp: plan_ok_def)
  have "plain_component n" by (rule resolved_plain [OF n(1)])
  then have "known_path (staged_path e p n)"
    using n assms(2) Fresh unfolding known_path_def by (auto simp: staged_path_def able_def)
  then show ?thesis
    using that [of n] n Fresh \<open>plain_component n\<close> assms(1)
    by (auto simp: heading_of_def host_text_def plan_staged_def plan_remaining_def plan_ok_def unat_of_nat)
next
  case (Resume path n)
  then have path: "known_path path" "unat n \<le> length c" "h path = Some (take (unat n) c)" "pl_length p = of_nat (length c)" "length c < 2 ^ 64 - 1"
    using assms(1) by (auto simp: plan_ok_def)
  show ?thesis
    using that [of path] path Resume known_path_facts(5) [OF path(1)]
    by (auto simp: heading_of_def staged_path_def host_text_def plan_staged_def plan_remaining_def unat_saturating_sub unat_of_nat)
qed

lemma some_sent_kept:
  assumes ok: "plan_ok debug name c h p" and some: "sends_some c s" and sha: "\<And>x. length (sha256 x) = 32"
  shows "\<exists>path n h'. relay debug sha256 (sn_attempt s) (sn_in_time s) p (sn_sends s (plan_staged p)) h = (h', KeptBack path n)
    \<and> known_path path \<and> unat n \<le> length c \<and> h' path = Some (take (unat n) c)"
proof -
  have able: "able (sn_attempt s)" using some by (simp add: sends_some_def)
  obtain heading where heading: "heading_of debug p = Inr heading" "known_path (staged_path (sn_attempt s) p heading)"
    "\<And>path n. pl_staging p = Resume path n \<Longrightarrow> h path \<noteq> None" "\<And>name. pl_staging p = Fresh name \<Longrightarrow> plain_component heading"
    and staged: "host_text h (pl_staging p) (staged_path (sn_attempt s) p heading) = take (unat (plan_staged p)) c"
    "unat (plan_staged p) \<le> length c" "unat (plan_remaining p) = length c - unat (plan_staged p)"
    by (rule plan_ok_path [OF ok able]) metis
  let ?n = "unat (plan_staged p)" and ?path = "staged_path (sn_attempt s) p heading"
  obtain cs k where cs: "sn_sends s (plan_staged p) = map RelayChunk cs" "[] \<notin> set cs" "concat cs = take k (drop ?n c)"
    using some unfolding sends_some_def by metis
  then have held: "holds (reader_new (sn_sends s (plan_staged p))) (take k (drop ?n c)) []"
    by (auto simp: holds_def reader_new_def)
  obtain sent failure r where copied:
    "copy_bytes relay_poll (at_breaks (sn_attempt s)) (unat (plan_remaining p)) [] (reader_new (sn_sends s (plan_staged p))) = (sent, failure, r)"
    by (rule prod_cases3)
  obtain m where "sent = take m (take k (drop ?n c)) \<and> m \<le> unat (plan_remaining p) \<and> \<not> rr_cancelled r
      \<and> (([] :: relay_item list) = [] \<longrightarrow> rr_attested r = None)
      \<and> (at_breaks (sn_attempt s) = None \<longrightarrow> failure = None \<and> m = min (unat (plan_remaining p)) (length (take k (drop ?n c))))
      \<and> (unat (plan_remaining p) \<le> m \<longrightarrow> holds r (drop m (take k (drop ?n c))) [])"
    by (rule exE [OF copy_from_start [OF copied held disjI1 [OF refl]]])
  then have m: "sent = take m (take k (drop ?n c))" "m \<le> length c - ?n"
    "\<not> rr_cancelled r" "rr_attested r = None" "at_breaks (sn_attempt s) = None \<longrightarrow> failure = None"
    "length c - ?n \<le> m \<longrightarrow> holds r (drop m (take k (drop ?n c))) []"
    using staged(3) by simp_all
  have contents: "take ?n c @ sent = take (?n + min m k) c" by (simp add: m(1) take_add)
  have size: "length c < 2 ^ 64 - 1" "pl_length p = of_nat (length c)" using ok by (auto simp: plan_ok_def)
  then have declared: "unat (pl_length p) = length c" by (simp add: unat_of_nat)
  let ?c = "take (?n + min m k) c"
  have up: "upload_stream debug sha256 (sn_attempt s) p relay_poll (reader_new (sn_sends s (plan_staged p))) h =
    (h(?path \<mapsto> ?c), r, Inr (if length ?c < unat (pl_length p) then Interrupted ?path (of_nat (length ?c))
      else Complete \<lparr>up_path = ?path, up_bytes = pl_length p, up_mime = md_mime (pl_media p), up_digest = hex (sha256 ?c)\<rparr>))"
  proof (rule upload_forward)
    show "?c = host_text h (pl_staging p) ?path @ sent" using contents staged(1) by simp
    show "length ?c \<le> unat (pl_length p)" "unat (pl_length p) < 2 ^ 64 - 1" using declared size by simp_all
    show "length (sha256 ?c) = 32" by (rule sha)
    show "failure = None" if "\<not> at_remote (sn_attempt s)" using that able m(5) by (simp add: able_def)
  qed (fact able heading copied)+
  show ?thesis
  proof (cases "length ?c < unat (pl_length p)")
    case True
    then have "relay debug sha256 (sn_attempt s) (sn_in_time s) p (sn_sends s (plan_staged p)) h
        = (h(?path \<mapsto> ?c), KeptBack ?path (of_nat (length ?c)))"
      using up m(3,4) by (simp add: relay_def)
    moreover have "unat (of_nat (length ?c) :: u64) = length ?c" using size(1) by (simp add: unat_of_nat)
    ultimately show ?thesis
      using heading(2) by (intro exI [of _ ?path] exI [of _ "of_nat (length ?c)"] exI [of _ "h(?path \<mapsto> ?c)"]) (auto simp: min_def)
  next
    case False
    then have all: "length c - ?n \<le> m" "length c - ?n \<le> k" using staged(2) declared by auto
    then have "holds r [] []" using m(6) by simp
    then obtain cs where "rr_chunks r = map RelayChunk cs" "[] \<notin> set cs" "concat cs = []" "rr_pending r = []" by (auto simp: holds_def)
    then have "relay_trailer in_time r = (r, TrailerMissing)" for in_time
      using m(4) by (cases cs) (auto simp: relay_trailer_def)
    then have "relay debug sha256 (sn_attempt s) (sn_in_time s) p (sn_sends s (plan_staged p)) h
        = (h(?path \<mapsto> ?c), KeptBack ?path (pl_length p))"
      using up False m(3) by (simp add: relay_def)
    then show ?thesis
      using heading(2) False declared by (intro exI [of _ ?path] exI [of _ "pl_length p"] exI [of _ "h(?path \<mapsto> ?c)"]) auto
  qed
qed

lemma rest_sent_done:
  assumes ok: "plan_ok debug name c h p" and rest: "sends_rest sha256 c s" and sha: "\<And>x. length (sha256 x) = 32"
  shows "\<exists>path. relay debug sha256 (sn_attempt s) (sn_in_time s) p (sn_sends s (plan_staged p)) h
    = (h(path \<mapsto> c), Done path (of_nat (length c)))"
proof -
  have able: "able (sn_attempt s)" and whole: "at_breaks (sn_attempt s) = None" "sn_in_time s" using rest by (auto simp: sends_rest_def)
  obtain heading where heading: "heading_of debug p = Inr heading" "known_path (staged_path (sn_attempt s) p heading)"
    "\<And>path n. pl_staging p = Resume path n \<Longrightarrow> h path \<noteq> None" "\<And>name. pl_staging p = Fresh name \<Longrightarrow> plain_component heading"
    and staged: "host_text h (pl_staging p) (staged_path (sn_attempt s) p heading) = take (unat (plan_staged p)) c"
    "unat (plan_staged p) \<le> length c" "unat (plan_remaining p) = length c - unat (plan_staged p)"
    by (rule plan_ok_path [OF ok able]) metis
  let ?n = "unat (plan_staged p)" and ?path = "staged_path (sn_attempt s) p heading" and ?tail = "[RelayFinish (hex (sha256 c))]"
  obtain cs where cs: "sn_sends s (plan_staged p) = map RelayChunk cs @ ?tail" "[] \<notin> set cs" "concat cs = drop ?n c"
    using rest unfolding sends_rest_def by metis
  then have held: "holds (reader_new (sn_sends s (plan_staged p))) (drop ?n c) ?tail"
    by (auto simp: holds_def reader_new_def)
  obtain sent failure r where copied:
    "copy_bytes relay_poll (at_breaks (sn_attempt s)) (unat (plan_remaining p)) [] (reader_new (sn_sends s (plan_staged p))) = (sent, failure, r)"
    by (rule prod_cases3)
  obtain m where "sent = take m (drop ?n c) \<and> m \<le> unat (plan_remaining p) \<and> \<not> rr_cancelled r
      \<and> (?tail = [] \<longrightarrow> rr_attested r = None)
      \<and> (at_breaks (sn_attempt s) = None \<longrightarrow> failure = None \<and> m = min (unat (plan_remaining p)) (length (drop ?n c)))
      \<and> (unat (plan_remaining p) \<le> m \<longrightarrow> holds r (drop m (drop ?n c)) ?tail)"
    by (rule exE [OF copy_from_start [OF copied held disjI2 [OF refl]]])
  then have sent: "sent = drop ?n c" "failure = None" "holds r [] ?tail" using staged(3) whole(1) by simp_all
  have size: "length c < 2 ^ 64 - 1" "pl_length p = of_nat (length c)" using ok by (auto simp: plan_ok_def)
  then have declared: "unat (pl_length p) = length c" by (simp add: unat_of_nat)
  have up: "upload_stream debug sha256 (sn_attempt s) p relay_poll (reader_new (sn_sends s (plan_staged p))) h =
    (h(?path \<mapsto> c), r, Inr (if length c < unat (pl_length p) then Interrupted ?path (of_nat (length c))
      else Complete \<lparr>up_path = ?path, up_bytes = pl_length p, up_mime = md_mime (pl_media p), up_digest = hex (sha256 c)\<rparr>))"
  proof (rule upload_forward)
    show "c = host_text h (pl_staging p) ?path @ sent" using sent(1) staged(1) by simp
    show "length c \<le> unat (pl_length p)" "unat (pl_length p) < 2 ^ 64 - 1" using declared size by simp_all
    show "length (sha256 c) = 32" by (rule sha)
    show "failure = None" by (fact sent)
  qed (fact able heading copied)+
  obtain cs' where "rr_chunks r = map RelayChunk cs' @ ?tail" "[] \<notin> set cs'" "concat cs' = []" "rr_pending r = []" "rr_attested r = None"
    using sent(3) by (auto simp: holds_def)
  then have "\<exists>r'. relay_trailer True r = (r', TrailerDigest (hex (sha256 c)))"
    by (cases cs') (auto simp: relay_trailer_def)
  then show ?thesis using up declared size(2) whole(2) by (intro exI [of _ ?path]) (auto simp: relay_def)
qed

lemma resumed_plan_ok:
  fixes n :: u64
  assumes "plan_ok debug name c h p" and "known_path path" and "unat n \<le> length c" and "h' path = Some (take (unat n) c)"
    and "resumed_plan remote asks removes (pl_media p) name (pl_length p) (Some path) h' = (h'', q)"
  shows "plan_ok debug name c h'' q"
proof -
  have "length c < 2 ^ 64 - 1" using assms(1) by (simp add: plan_ok_def)
  with assms(3) have staged: "staged_bytes remote asks path h' = (if asks then Some n else None)"
    using known_path_facts(4,5) [OF assms(2)] assms(4) by (auto simp: staged_bytes_def)
  show ?thesis
    using assms staged by (auto simp: plan_ok_def resumed_plan_def Let_def unwrap_or_def split: if_splits)
qed

text \<open>
  C16. An upload survives its interruptions. A client that is cut off any number of times, each
  time after any part of what it meant to send, and comes back each time to send from where it
  is told, leaves exactly its file on the host: every interrupted attempt is kept, the last one
  completes, with the whole length, and the contents under the reported path are the client's
  file, however the host's pipe broke in between and whether or not it could be asked how far
  an attempt had got.
\<close>

theorem interrupted_upload_completes:
  assumes "plan_ok debug name c h p" and "\<forall>s \<in> set attempts. sends_some c s" and "sends_rest sha256 c final"
    and "\<And>x. length (sha256 x) = 32"
  shows "\<exists>h' path. carry debug sha256 name p (attempts @ [final]) h = (h', Some (Done path (of_nat (length c)))) \<and> h' path = Some c"
  using assms(1,2)
proof (induction attempts arbitrary: p h)
  case Nil
  then show ?case using rest_sent_done [OF Nil(1) assms(3,4)] by auto
next
  case (Cons s attempts)
  from some_sent_kept [OF Cons.prems(1) _ assms(4)] Cons.prems(2) obtain path n h1 where
    kept: "relay debug sha256 (sn_attempt s) (sn_in_time s) p (sn_sends s (plan_staged p)) h = (h1, KeptBack path n)"
    "known_path path" "unat n \<le> length c" "h1 path = Some (take (unat n) c)" by fastforce
  obtain h2 q where plan: "resumed_plan (at_remote (sn_attempt s)) (sn_asks s) (at_removes (sn_attempt s)) (pl_media p) name
    (pl_length p) (Some path) h1 = (h2, q)" by fastforce
  have "plan_ok debug name c h2 q" by (rule resumed_plan_ok [OF Cons.prems(1) kept(2-4) plan])
  with Cons.IH Cons.prems(2) kept(1) plan show ?case by simp
qed

section \<open>From one host to another\<close>

text \<open>
  A file that moves between two hosts: what the source host says of it (\<open>described\<close>, a length and
  a digest), and its bytes as they are read. The copy is kept only if both hosts agree.
\<close>

definition accept_copy :: "attempt \<Rightarrow> ustring \<Rightarrow> uploaded_file \<Rightarrow> ustring \<Rightarrow> ustring \<Rightarrow> host_files \<Rightarrow> host_files \<times> (ustring \<times> u64) result" where
  "accept_copy e destination stored attested source h =
     (if up_digest stored \<noteq> attested
      then (discard_upload (at_remote e) (at_removes e) (up_path stored) h,
            Inl (lit ''what '' @ destination @ lit '' stored is not what '' @ source @ lit '' sent''))
      else (h, Inr (up_path stored, up_bytes stored)))"

definition between ::
    "(ustring \<Rightarrow> ustring) \<Rightarrow> (u8 list \<Rightarrow> u8 list) \<Rightarrow> attempt \<Rightarrow> ustring \<Rightarrow> ustring \<Rightarrow> u64 \<Rightarrow> ustring \<Rightarrow> ustring option \<Rightarrow>
     (u64 \<times> ustring) result \<Rightarrow> 'r reading \<Rightarrow> 'r \<Rightarrow> host_files \<Rightarrow> host_files \<times> (ustring \<times> u64) result" where
  "between debug sha256 e source destination ceiling path name described read src h =
     (case and_then (source_name path) (\<lambda>own. and_then described (\<lambda>(len, digest). Inr (own, len, digest))) of
        Inl message \<Rightarrow> (h, Inl message)
      | Inr (own, len, digest) \<Rightarrow>
          if len > ceiling
          then (h, Inl (lit ''refusing a '' @ show_word len @ lit '' byte transfer; the limit is '' @ show_word ceiling))
          else (let p = \<lparr>pl_media = media_opaque, pl_staging = Fresh (Some (unwrap_or own name)), pl_length = len\<rparr>
            in case upload_stream debug sha256 e p read src h of
                 (h, _, Inl message) \<Rightarrow> (h, Inl message)
               | (h, _, Inr (Interrupted path staged)) \<Rightarrow>
                   (discard_upload (at_remote e) (at_removes e) path h, Inl (lit ''transfer stopped after '' @ show_word staged
                     @ lit '' of '' @ show_word len @ lit '' bytes; the file is untouched on '' @ source))
               | (h, _, Inr (Complete stored)) \<Rightarrow> accept_copy e destination stored digest source h))"

text \<open>
  A file that moved between two hosts is the file the source described. When a move is
  reported, the file at the reported path has the length the source host declared, within the
  daemon's limit, and hashes to the digest the source host computed over its own copy; nothing
  else on the destination has changed.
\<close>

theorem moved_file_described:
  assumes "between debug sha256 e source destination ceiling path name described read src h = (h', Inr (stored, bytes))"
    and "\<forall>c \<in> set (at_directory e) \<union> set path \<union> set (unwrap_or [] name). is_scalar c" and "ceiling < - 1"
  shows "\<exists>contents digest. described = Inr (bytes, digest) \<and> bytes \<le> ceiling \<and> h' = h(stored \<mapsto> contents)
    \<and> length contents = unat bytes \<and> hex (sha256 contents) = digest"
proof -
  obtain own len digest where opened: "source_name path = Inr own" "described = Inr (len, digest)" "len \<le> ceiling"
    using assms(1) by (auto simp: between_def and_then_def Let_def not_le split: sum.splits if_splits)
  let ?p = "\<lparr>pl_media = media_opaque, pl_staging = Fresh (Some (unwrap_or own name)), pl_length = len\<rparr>"
  obtain src' u where up: "upload_stream debug sha256 e ?p read src h = (h', src', Inr (Complete u))"
    "up_digest u = digest" "stored = up_path u" "bytes = up_bytes u"
    using assms(1) opened
    by (auto simp: between_def Let_def accept_copy_def split: prod.splits sum.splits transferred.splits if_splits)
  have "set own \<subseteq> set path"
    using opened(1) by (auto simp: source_name_def rsplit_once_def Let_def dest!: set_takeWhileD split: if_splits option.splits)
  then have "scalar_plan e ?p" using assms(2) by (auto simp: scalar_plan_def unwrap_or_def split: option.splits)
  moreover have "len < - 1" using opened(3) assms(3) by (rule order.strict_trans1)
  then have "unat (pl_length ?p) < 2 ^ 64 - 1" by (simp add: word_less_nat_alt unsigned_minus_1_eq_mask mask_eq_exp_minus_1)
  ultimately obtain contents where "h' = h(up_path u \<mapsto> contents)" "up_digest u = hex (sha256 contents)" "up_bytes u = len"
    "length contents = unat len" using upload_reports [OF up(1)] by auto
  then show ?thesis using opened up by auto
qed

section \<open>Witnesses\<close>

definition sample_sha :: "u8 list \<Rightarrow> u8 list" where
  "sample_sha bytes = replicate 32 (of_nat (length bytes))"

definition sample_attempt :: attempt where
  "sample_attempt = \<lparr>at_remote = True, at_opens = True, at_directory = lit ''/run/super-herdr-clipboard.x'', at_breaks = None,
     at_closes = True, at_reports = True, at_stored = 0, at_removes = True\<rparr>"

definition sample_plan :: transfer_plan where
  "sample_plan = \<lparr>pl_media = media_opaque, pl_staging = Fresh (Some (lit ''a.txt'')), pl_length = 3\<rparr>"

text \<open>One byte and gone; and everything that is missing.\<close>

definition sample_cut :: sending where
  "sample_cut = \<lparr>sn_attempt = sample_attempt\<lparr>at_breaks := Some 7, at_closes := False\<rparr>,
     sn_sends = (\<lambda>n. map RelayChunk (filter (\<lambda>c. c \<noteq> []) [take 1 (drop (unat n) [1, 2, 3])])), sn_in_time = False, sn_asks = True\<rparr>"

definition sample_rest :: sending where
  "sample_rest = \<lparr>sn_attempt = sample_attempt,
     sn_sends = (\<lambda>n. map RelayChunk (filter (\<lambda>c. c \<noteq> []) [drop (unat n) [1, 2, 3]]) @ [RelayFinish (hex (sample_sha [1, 2, 3]))]),
     sn_in_time = True, sn_asks = True\<rparr>"

lemma sample_directory_ok: "staging_directory (lit ''/run/super-herdr-clipboard.x'')"
proof -
  have "lit ''/run/super-herdr-clipboard.x'' = 47 # lit ''run'' @ 47 # staging_prefix @ lit ''x'' \<and> 47 \<notin> set (lit ''x'')"
    by (simp add: lit_def staging_prefix_def)
  moreover have "\<forall>c \<in> set (lit ''/run/super-herdr-clipboard.x''). is_scalar c \<and> \<not> is_control c"
    by (simp add: lit_def is_scalar_def is_control_def)
  moreover have "\<not> contains_str (lit ''..'') (lit ''/run/super-herdr-clipboard.x'')" by code_simp
  ultimately show ?thesis unfolding staging_directory_def by blast
qed

lemma sample_attempt_able: "able sample_attempt" "able (sample_attempt\<lparr>at_breaks := b, at_closes := closes\<rparr>)"
proof -
  have "utf8_len (lit ''/run/super-herdr-clipboard.x'') \<le> 3700" by (simp add: lit_def utf8_len_def utf8_width_def)
  then show "able sample_attempt" "able (sample_attempt\<lparr>at_breaks := b, at_closes := closes\<rparr>)"
    using sample_directory_ok by (simp_all add: able_def sample_attempt_def)
qed

lemma sample_plan_ok: "plan_ok debug (Some (lit ''a.txt'')) [1, 2, 3] h sample_plan"
proof -
  have "resolve_name debug (Some (lit ''a.txt'')) media_opaque = Inr (lit ''a.txt'')"
    by (simp add: resolve_name_def lit_def utf8_len_def utf8_width_def max_transfer_name_bytes_def is_control_def)
  then show ?thesis by (simp add: plan_ok_def sample_plan_def lit_def is_scalar_def utf8_len_def utf8_width_def)
qed

lemma sample_cut_sends: "sends_some [1, 2, 3] sample_cut"
proof -
  have "\<exists>cs k. map RelayChunk (filter (\<lambda>c. c \<noteq> []) [x]) = map RelayChunk cs \<and> [] \<notin> set cs \<and> concat cs = take k y"
    if "x = take 1 y" for x y :: "u8 list"
    using that by (intro exI [of _ "filter (\<lambda>c. c \<noteq> []) [x]"] exI [of _ 1]) simp
  then show ?thesis using sample_attempt_able(2) by (simp add: sends_some_def sample_cut_def del: filter.simps)
qed

lemma sample_rest_sends: "sends_rest sample_sha [1, 2, 3] sample_rest"
proof -
  have "\<exists>cs. map RelayChunk (filter (\<lambda>c. c \<noteq> []) [x]) @ ys = map RelayChunk cs @ ys \<and> [] \<notin> set cs \<and> concat cs = x"
    for x :: "u8 list" and ys
    by (intro exI [of _ "filter (\<lambda>c. c \<noteq> []) [x]"]) simp
  then show ?thesis using sample_attempt_able(1)
    by (simp add: sends_rest_def sample_rest_def sample_attempt_def del: filter.simps)
qed

lemma length_sample_sha: "length (sample_sha bytes) = 32"
  by (simp add: sample_sha_def)

theorem interrupted_upload_completes_witness:
  "\<exists>h' path. carry id sample_sha (Some (lit ''a.txt'')) sample_plan ([sample_cut, sample_cut] @ [sample_rest]) Map.empty
     = (h', Some (Done path 3)) \<and> h' path = Some [1, 2, 3]"
  using interrupted_upload_completes [OF sample_plan_ok _ sample_rest_sends length_sample_sha, of "[sample_cut, sample_cut]" id Map.empty]
    sample_cut_sends by simp

theorem relay_done_verified_witness:
  "\<exists>path contents. relay id sample_sha sample_attempt True sample_plan (sn_sends sample_rest 0) Map.empty
      = (Map.empty(path \<mapsto> contents), Done path 3) \<and> length contents = 3
    \<and> RelayFinish (hex (sample_sha contents)) \<in> set (sn_sends sample_rest 0)"
proof -
  obtain path where ran: "relay id sample_sha sample_attempt True sample_plan (sn_sends sample_rest 0) Map.empty
      = (Map.empty(path \<mapsto> [1, 2, 3]), Done path 3)"
    using rest_sent_done [OF sample_plan_ok [of id Map.empty] sample_rest_sends length_sample_sha]
    by (auto simp: sample_rest_def sample_plan_def plan_staged_def)
  have "scalar_plan sample_attempt sample_plan" "unat (pl_length sample_plan) < 2 ^ 64 - 1"
    by (simp_all add: scalar_plan_def sample_attempt_def sample_plan_def lit_def is_scalar_def)
  from relay_done_verified [OF ran this] obtain contents where
    "Map.empty(path \<mapsto> [1, 2, 3]) = Map.empty(path \<mapsto> contents)" "length contents = unat (pl_length sample_plan)"
    "RelayFinish (hex (sample_sha contents)) \<in> set (sn_sends sample_rest 0)" by blast
  moreover have "unat (pl_length sample_plan) = 3" by (simp add: sample_plan_def)
  ultimately show ?thesis using ran by (intro exI [of _ path] exI [of _ contents]) simp
qed

text \<open>A source that gives its bytes as they are asked for.\<close>

definition list_poll :: "u8 list reading" where
  "list_poll n bytes = (Inr (take n bytes), drop n bytes)"

theorem moved_file_described_witness:
  "\<exists>h' stored contents. between id sample_sha (sample_attempt\<lparr>at_remote := False\<rparr>) (lit ''a'') (lit ''b'') 10 (lit ''/x/a.txt'') None
      (Inr (3, hex (sample_sha [1, 2, 3]))) list_poll [1, 2, 3] Map.empty = (h', Inr (stored, 3))
    \<and> h' stored = Some contents \<and> length contents = 3 \<and> hex (sample_sha contents) = hex (sample_sha [1, 2, 3])"
proof -
  let ?path = "lit ''/run/super-herdr-clipboard.x/a.txt''"
  have copied: "copy_bytes list_poll None 3 [] [1, 2, 3] = ([1, 2, 3], None, [])"
    by (subst copy_bytes.simps, subst copy_bytes.simps) (simp add: list_poll_def stream_chunk_bytes_def Let_def)
  have own: "source_name (lit ''/x/a.txt'') = Inr (lit ''a.txt'')"
    by (simp add: source_name_def lit_def rsplit_once_def is_control_def)
  have "resolve_name id (Some (lit ''a.txt'')) media_opaque = Inr (lit ''a.txt'')"
    by (simp add: resolve_name_def lit_def utf8_len_def utf8_width_def max_transfer_name_bytes_def is_control_def)
  then have moved: "between id sample_sha (sample_attempt\<lparr>at_remote := False\<rparr>) (lit ''a'') (lit ''b'') 10 (lit ''/x/a.txt'') None
      (Inr (3, hex (sample_sha [1, 2, 3]))) list_poll [1, 2, 3] Map.empty = (Map.empty(?path \<mapsto> [1, 2, 3]), Inr (?path, 3))"
    using own copied
    by (simp add: between_def Let_def upload_stream_def heading_of_def run_attempt_def local_attempt_def sample_attempt_def
        plan_remaining_def closing_def host_text_def counted_bytes_def finish_attempt_def accept_copy_def lit_def)
  have "\<forall>c \<in> set (at_directory (sample_attempt\<lparr>at_remote := False\<rparr>)) \<union> set (lit ''/x/a.txt'') \<union> set (unwrap_or [] None). is_scalar c"
    by (simp add: sample_attempt_def lit_def is_scalar_def)
  from moved_file_described [OF moved this] moved show ?thesis by fastforce
qed

end
