(* ===== verification/Retention.thy ===== *)
theory Retention
  imports Transfers Capped Broker
begin

text \<open>
  The transfers a daemon keeps (\<open>src/src/daemon/server.rs\<close>): which uploads are begun, resumed,
  settled and given up. A task is an attempt that runs beside the daemon's loop; an offer is the
  queue of a client's upload that the loop has not yet claimed.
\<close>

section \<open>State and operations\<close>

definition retain_timeout :: int where "retain_timeout = 600 * 1000000000"

definition max_retained_transfers :: nat where "max_retained_transfers = 4"

record kept_transfer =
  kp_pane :: pane_id
  kp_mime :: ustring
  kp_name :: "ustring option"
  kp_length :: u64
  kp_path :: "ustring option"
  kp_staged :: u64
  kp_in_flight :: bool
  kp_expires_at :: int

record transfers =
  tf_offers :: "(client_id \<times> request_id) set"
  tf_kept :: "(ustring, kept_transfer) btmap"
  tf_targets :: "target_session \<Rightarrow> bool"
  tf_ceiling :: u64

text \<open>An attempt that was started: whose it is, under which token, and where it goes on.\<close>

record relay_task =
  tk_client :: client_id
  tk_request :: request_id
  tk_token :: ustring
  tk_pane :: pane_id
  tk_length :: u64
  tk_path :: "ustring option"

text \<open>What is told to a client, what is removed from a host and which attempt is started.\<close>

datatype transfer_effect = Tell client_id server_message | Discard pane_id ustring | Start relay_task

abbreviation refuse_request :: "client_id \<Rightarrow> request_id \<Rightarrow> ustring \<Rightarrow> transfer_effect" where
  "refuse_request client request message \<equiv> Tell client (ErrorMsg (Some request) message)"

definition transfer_target :: "transfers \<Rightarrow> pane_id \<Rightarrow> unit result" where
  "transfer_target st pane = (let key = qid_target_session pane
     in if tf_targets st key then Inr () else Inl (show_target_session key @ lit '' is not a configured target''))"

definition forget_retained :: "ustring \<Rightarrow> transfers \<Rightarrow> transfers \<times> transfer_effect list" where
  "forget_retained transfer st = (case bt_get (tf_kept st) transfer of
     None \<Rightarrow> (st, [])
   | Some k \<Rightarrow> (st\<lparr>tf_kept := bt_remove transfer (tf_kept st)\<rparr>,
       case kp_path k of None \<Rightarrow> []
       | Some path \<Rightarrow> if tf_targets st (qid_target_session (kp_pane k)) then [Discard (kp_pane k) path] else []))"

definition forget_each :: "ustring list \<Rightarrow> transfers \<Rightarrow> transfers \<times> transfer_effect list" where
  "forget_each ts st = fold (\<lambda>transfer (st, es). let (st, more) = forget_retained transfer st in (st, es @ more)) ts (st, [])"

definition lapsed :: "int \<Rightarrow> kept_transfer \<Rightarrow> bool" where
  "lapsed now k \<longleftrightarrow> \<not> kp_in_flight k \<and> kp_expires_at k \<le> now"

definition sweep_retained :: "int \<Rightarrow> transfers \<Rightarrow> transfers \<times> transfer_effect list" where
  "sweep_retained now st = forget_each (map fst (filter (\<lambda>(_, k). lapsed now k) (bt_entries (tf_kept st)))) st"

definition oldest_idle :: "(ustring, kept_transfer) btmap \<Rightarrow> ustring option" where
  "oldest_idle m = oldest_by kp_expires_at (bt_retain (\<lambda>_ k. \<not> kp_in_flight k) m)"

lemma oldest_idle_SomeD: "oldest_idle m = Some transfer \<Longrightarrow> \<exists>k. bt_get m transfer = Some k \<and> \<not> kp_in_flight k"
  unfolding oldest_idle_def by (drule oldest_by_SomeD) (auto simp: bt_get_retain split: option.splits if_splits)

lemma forget_retained_shrinks: "bt_get (tf_kept st) transfer = Some k \<Longrightarrow> bt_len (tf_kept (fst (forget_retained transfer st))) < bt_len (tf_kept st)"
  by (simp add: forget_retained_def bt_len_remove_less)

function evict_retained :: "transfers \<Rightarrow> transfers \<times> transfer_effect list" where
  "evict_retained st =
     (if bt_len (tf_kept st) < max_retained_transfers then (st, [])
      else (case oldest_idle (tf_kept st) of
          None \<Rightarrow> (st, [])
        | Some oldest \<Rightarrow>
            (let (st, es) = forget_retained oldest st; (st, more) = evict_retained st in (st, es @ more))))"
  by pat_completeness auto
termination
  by (relation "measure (\<lambda>st. bt_len (tf_kept st))") (auto dest!: oldest_idle_SomeD dest: forget_retained_shrinks, metis forget_retained_shrinks fst_conv)

declare evict_retained.simps [simp del]

definition begin_relay ::
    "ustring result \<Rightarrow> int \<Rightarrow> client_id \<Rightarrow> request_id \<Rightarrow> pane_id \<Rightarrow> ustring \<Rightarrow> ustring option \<Rightarrow> u64 \<Rightarrow> transfers \<Rightarrow>
     transfers \<times> transfer_effect list" where
  "begin_relay secret now client request pane mime name len st =
     (if (client, request) \<notin> tf_offers st then (st, [refuse_request client request (lit ''no transfer is in progress'')])
      else (let st = st\<lparr>tf_offers := tf_offers st - {(client, request)}\<rparr>
        in if len > tf_ceiling st
           then (st, [refuse_request client request (lit ''refusing a '' @ show_word len @ lit '' byte upload; the limit is '' @ show_word (tf_ceiling st))])
           else (case transfer_target st pane of
               Inl message \<Rightarrow> (st, [refuse_request client request message])
             | Inr _ \<Rightarrow> (case secret of
                 Inl _ \<Rightarrow> (st, [refuse_request client request (lit ''the daemon could not generate a transfer token'')])
               | Inr transfer \<Rightarrow>
                   (let (st, swept) = sweep_retained now st; (st, evicted) = evict_retained st
                    in (st\<lparr>tf_kept := bt_insert transfer \<lparr>kp_pane = pane, kp_mime = mime, kp_name = name, kp_length = len,
                          kp_path = None, kp_staged = 0, kp_in_flight = True, kp_expires_at = now + retain_timeout\<rparr> (tf_kept st)\<rparr>,
                        swept @ evicted @ [Tell client (UploadAccepted request transfer 0),
                          Start \<lparr>tk_client = client, tk_request = request, tk_token = transfer, tk_pane = pane,
                            tk_length = len, tk_path = None\<rparr>]))))))"

definition in_flight :: "bool \<Rightarrow> ustring \<Rightarrow> transfers \<Rightarrow> transfers" where
  "in_flight b transfer st = st\<lparr>tf_kept := bt_adjust transfer (\<lambda>k. k\<lparr>kp_in_flight := b\<rparr>) (tf_kept st)\<rparr>"

definition resume_relay ::
    "int \<Rightarrow> client_id \<Rightarrow> request_id \<Rightarrow> ustring \<Rightarrow> pane_id \<Rightarrow> u64 \<Rightarrow> transfers \<Rightarrow> transfers \<times> transfer_effect list" where
  "resume_relay now client request transfer pane len st =
     (if (client, request) \<notin> tf_offers st then (st, [refuse_request client request (lit ''no transfer is in progress'')])
      else (let (st, swept) = sweep_retained now (st\<lparr>tf_offers := tf_offers st - {(client, request)}\<rparr>)
        in case bt_get (tf_kept st) transfer of
             None \<Rightarrow> (st, swept @ [refuse_request client request (lit ''there is no transfer to resume under that token'')])
           | Some k \<Rightarrow>
               if kp_in_flight k then (st, swept @ [refuse_request client request (lit ''that transfer is still being carried'')])
               else if kp_pane k \<noteq> pane \<or> kp_length k \<noteq> len
               then (st, swept @ [refuse_request client request (lit ''that token belongs to a different transfer'')])
               else (let st = in_flight True transfer st
                 in case transfer_target st pane of
                      Inl message \<Rightarrow> (in_flight False transfer st, swept @ [refuse_request client request message])
                    | Inr _ \<Rightarrow> (st, swept @ [Start \<lparr>tk_client = client, tk_request = request, tk_token = transfer, tk_pane = pane,
                        tk_length = len, tk_path = kp_path k\<rparr>]))))"

text \<open>What the attempt found on the host, and how it ended.\<close>

definition resume_offset :: "client_id \<Rightarrow> request_id \<Rightarrow> ustring \<Rightarrow> u64 \<Rightarrow> transfers \<Rightarrow> transfers \<times> transfer_effect list" where
  "resume_offset client request transfer staged st =
     (st\<lparr>tf_kept := bt_adjust transfer (\<lambda>k. k\<lparr>kp_staged := staged\<rparr>) (tf_kept st)\<rparr>, [Tell client (UploadAccepted request transfer staged)])"

definition relay_finished ::
    "int \<Rightarrow> client_id \<Rightarrow> request_id \<Rightarrow> ustring \<Rightarrow> relayed \<Rightarrow> transfers \<Rightarrow> transfers \<times> transfer_effect list" where
  "relay_finished now client request transfer outcome st =
     (let settled = st\<lparr>tf_kept := bt_remove transfer (tf_kept st)\<rparr>
      in case outcome of
           Done path bytes \<Rightarrow> (settled, [Tell client (UploadComplete request path bytes)])
         | Refused message \<Rightarrow> (settled, [refuse_request client request message])
         | Withdrawn \<Rightarrow> (settled, [])
         | KeptBack path staged \<Rightarrow> (case bt_get (tf_kept st) transfer of
             None \<Rightarrow> (st, [])
           | Some _ \<Rightarrow>
               (st\<lparr>tf_kept := bt_adjust transfer (\<lambda>k. k\<lparr>kp_in_flight := False, kp_path := Some path, kp_staged := staged,
                  kp_expires_at := now + retain_timeout\<rparr>) (tf_kept st)\<rparr>,
                [Tell client (UploadInterrupted request transfer staged)])))"

text \<open>Queues that are offered, claimed by nothing, or whose client is gone; and the end of the daemon.\<close>

definition upload_offered :: "client_id \<Rightarrow> request_id \<Rightarrow> transfers \<Rightarrow> transfers" where
  "upload_offered client request st = st\<lparr>tf_offers := insert (client, request) (tf_offers st)\<rparr>"

definition offer_unclaimed :: "client_id \<Rightarrow> request_id \<Rightarrow> transfers \<Rightarrow> transfers" where
  "offer_unclaimed client request st = st\<lparr>tf_offers := tf_offers st - {(client, request)}\<rparr>"

definition sender_gone :: "client_id \<Rightarrow> transfers \<Rightarrow> transfers" where
  "sender_gone client st = st\<lparr>tf_offers := {offer \<in> tf_offers st. fst offer \<noteq> client}\<rparr>"

definition discard_retained :: "transfers \<Rightarrow> transfers \<times> transfer_effect list" where
  "discard_retained st = (st\<lparr>tf_kept := bt_empty\<rparr>,
     concat (map (\<lambda>(_, k). case kp_path k of None \<Rightarrow> []
        | Some path \<Rightarrow> if tf_targets st (qid_target_session (kp_pane k)) then [Discard (kp_pane k) path] else [])
       (bt_entries (tf_kept st))))"

section \<open>What is given up\<close>

lemma kept_forget: "bt_get (tf_kept (fst (forget_retained transfer st))) x = (if x = transfer then None else bt_get (tf_kept st) x)"
  by (auto simp: forget_retained_def bt_get_remove split: option.split)

lemma forget_same: "tf_targets (fst (forget_retained transfer st)) = tf_targets st" "tf_offers (fst (forget_retained transfer st)) = tf_offers st"
  "tf_ceiling (fst (forget_retained transfer st)) = tf_ceiling st"
  by (auto simp: forget_retained_def split: option.split)

lemma forget_starts: "Start task \<notin> set (snd (forget_retained transfer st))"
  by (auto simp: forget_retained_def split: option.split)

lemma forget_each_facts:
  "(\<forall>x. bt_get (tf_kept (fst (forget_each ts st))) x = (if x \<in> set ts then None else bt_get (tf_kept st) x))
   \<and> tf_targets (fst (forget_each ts st)) = tf_targets st \<and> tf_offers (fst (forget_each ts st)) = tf_offers st
   \<and> tf_ceiling (fst (forget_each ts st)) = tf_ceiling st \<and> (\<forall>task. Start task \<notin> set (snd (forget_each ts st)))"
proof -
  have "(\<forall>x. bt_get (tf_kept (fst (fold (\<lambda>transfer (st, es). let (st, more) = forget_retained transfer st in (st, es @ more)) ts (st, es)))) x
        = (if x \<in> set ts then None else bt_get (tf_kept st) x))
      \<and> tf_targets (fst (fold (\<lambda>transfer (st, es). let (st, more) = forget_retained transfer st in (st, es @ more)) ts (st, es))) = tf_targets st
      \<and> tf_offers (fst (fold (\<lambda>transfer (st, es). let (st, more) = forget_retained transfer st in (st, es @ more)) ts (st, es))) = tf_offers st
      \<and> tf_ceiling (fst (fold (\<lambda>transfer (st, es). let (st, more) = forget_retained transfer st in (st, es @ more)) ts (st, es))) = tf_ceiling st
      \<and> (\<forall>task. Start task \<notin> set (snd (fold (\<lambda>transfer (st, es). let (st, more) = forget_retained transfer st in (st, es @ more)) ts (st, es))))"
    if "\<forall>task. Start task \<notin> set es" for es
    using that
  proof (induction ts arbitrary: st es)
    case (Cons transfer ts)
    obtain st' more where forget: "forget_retained transfer st = (st', more)" by fastforce
    have "\<forall>task. Start task \<notin> set (es @ more)" using Cons.prems forget_starts [of _ transfer st] forget by auto
    from Cons.IH [OF this, of st'] show ?case
      using forget kept_forget [of transfer st] forget_same [of transfer st] by (auto simp: Let_def)
  qed simp
  from this [of "[]"] show ?thesis by (simp add: forget_each_def)
qed

lemma sweep_facts:
  shows "bt_get (tf_kept (fst (sweep_retained now st))) x = (case bt_get (tf_kept st) x of None \<Rightarrow> None
      | Some k \<Rightarrow> if lapsed now k then None else Some k)"
    and "tf_targets (fst (sweep_retained now st)) = tf_targets st" "tf_offers (fst (sweep_retained now st)) = tf_offers st"
    and "tf_ceiling (fst (sweep_retained now st)) = tf_ceiling st" "Start task \<notin> set (snd (sweep_retained now st))"
proof -
  have "x \<in> set (map fst (filter (\<lambda>(_, k). lapsed now k) (bt_entries (tf_kept st)))) \<longleftrightarrow> (\<exists>k. bt_get (tf_kept st) x = Some k \<and> lapsed now k)"
    by (force simp: bt_entries_get)
  then show "bt_get (tf_kept (fst (sweep_retained now st))) x = (case bt_get (tf_kept st) x of None \<Rightarrow> None
      | Some k \<Rightarrow> if lapsed now k then None else Some k)"
    using forget_each_facts [of "map fst (filter (\<lambda>(_, k). lapsed now k) (bt_entries (tf_kept st)))" st]
    unfolding sweep_retained_def by (auto split: option.split)
qed (use forget_each_facts [of "map fst (filter (\<lambda>(_, k). lapsed now k) (bt_entries (tf_kept st)))" st] in \<open>simp_all add: sweep_retained_def\<close>)

text \<open>Sweeping and making room drop idle transfers only.\<close>

definition drops_idle :: "transfers \<Rightarrow> transfers \<Rightarrow> bool" where
  "drops_idle st st' \<longleftrightarrow> tf_targets st' = tf_targets st \<and> tf_ceiling st' = tf_ceiling st
     \<and> (\<forall>x. bt_get (tf_kept st') x = bt_get (tf_kept st) x
          \<or> bt_get (tf_kept st') x = None \<and> (\<forall>k. bt_get (tf_kept st) x = Some k \<longrightarrow> \<not> kp_in_flight k))"

lemma drops_idle_trans: "drops_idle a b \<Longrightarrow> drops_idle b c \<Longrightarrow> drops_idle a c"
  unfolding drops_idle_def by metis

lemma drops_idleD: "drops_idle st st' \<Longrightarrow> bt_get (tf_kept st') x = bt_get (tf_kept st) x \<or> bt_get (tf_kept st') x = None"
  by (simp add: drops_idle_def) metis

lemma sweep_drops_idle: "drops_idle st (fst (sweep_retained now st))"
  by (auto simp: drops_idle_def sweep_facts lapsed_def split: option.split)

lemma evict_facts:
  "drops_idle st (fst (evict_retained st)) \<and> (\<forall>task. Start task \<notin> set (snd (evict_retained st)))"
proof (induction st rule: evict_retained.induct)
  case (1 st)
  show ?case
  proof (cases "bt_len (tf_kept st) < max_retained_transfers")
    case True
    then show ?thesis by (simp add: evict_retained.simps [of st] drops_idle_def)
  next
    case False
    show ?thesis
    proof (cases "oldest_idle (tf_kept st)")
      case None
      with False show ?thesis by (simp add: evict_retained.simps [of st] drops_idle_def)
    next
      case (Some oldest)
      obtain k where k: "bt_get (tf_kept st) oldest = Some k" "\<not> kp_in_flight k" using oldest_idle_SomeD [OF Some] by blast
      obtain st1 es where forget: "forget_retained oldest st = (st1, es)" by fastforce
      have "drops_idle st st1" using kept_forget [of oldest st] forget_same [of oldest st] k forget by (simp add: drops_idle_def)
      moreover have "Start task \<notin> set es" for task using forget_starts [of task oldest st] forget by simp
      moreover note "1.IH" [OF False Some forget [symmetric] refl]
      ultimately show ?thesis
        using False Some forget by (subst (1 2) evict_retained.simps) (auto simp: Let_def split: prod.split intro: drops_idle_trans)
    qed
  qed
qed

section \<open>The daemon and its attempts\<close>

definition started :: "transfer_effect list \<Rightarrow> relay_task list" where
  "started es = concat (map (\<lambda>e. case e of Start task \<Rightarrow> [task] | _ \<Rightarrow> []) es)"

lemma set_started: "task \<in> set (started es) \<longleftrightarrow> Start task \<in> set es"
  by (induction es) (auto simp: started_def split: transfer_effect.splits)

lemma started_append: "started (es @ fs) = started es @ started fs"
  by (simp add: started_def)

lemma started_none: "(\<And>task. Start task \<notin> set es) \<Longrightarrow> started es = []"
  using set_started by (metis last_in_set)

text \<open>Tokens are random, so a new one is not in use.\<close>

inductive transfer_step :: "transfers \<times> relay_task list \<Rightarrow> transfers \<times> relay_task list \<Rightarrow> bool" where
  begins: "begin_relay secret now client request pane mime name len st = (st', es) \<Longrightarrow>
    (\<And>transfer. secret = Inr transfer \<Longrightarrow> bt_get (tf_kept st) transfer = None) \<Longrightarrow>
    transfer_step (st, running) (st', running @ started es)"
| resumes: "resume_relay now client request transfer pane len st = (st', es) \<Longrightarrow>
    transfer_step (st, running) (st', running @ started es)"
| finishes: "task \<in> set running \<Longrightarrow>
    transfer_step (st, running)
      (fst (relay_finished now (tk_client task) (tk_request task) (tk_token task) outcome st), remove1 task running)"
| offset: "transfer_step (st, running) (fst (resume_offset client request transfer staged st), running)"
| sweeps: "transfer_step (st, running) (fst (sweep_retained now st), running)"
| offered: "transfer_step (st, running) (upload_offered client request st, running)"
| unclaimed: "transfer_step (st, running) (offer_unclaimed client request st, running)"
| gone: "transfer_step (st, running) (sender_gone client st, running)"

definition transfers_new :: "(target_session \<Rightarrow> bool) \<Rightarrow> u64 \<Rightarrow> transfers" where
  "transfers_new targets ceiling = \<lparr>tf_offers = {}, tf_kept = bt_empty, tf_targets = targets, tf_ceiling = ceiling\<rparr>"

definition carried :: "(ustring, kept_transfer) btmap \<Rightarrow> relay_task \<Rightarrow> bool" where
  "carried m task \<longleftrightarrow> (\<exists>k. bt_get m (tk_token task) = Some k \<and> kp_in_flight k \<and> kp_pane k = tk_pane task
     \<and> kp_length k = tk_length task)"

definition transfers_ok :: "transfers \<times> relay_task list \<Rightarrow> bool" where
  "transfers_ok c \<longleftrightarrow> distinct (map tk_token (snd c)) \<and> (\<forall>task \<in> set (snd c). carried (tf_kept (fst c)) task)
     \<and> (\<forall>x k. bt_get (tf_kept (fst c)) x = Some k \<longrightarrow>
          (kp_in_flight k \<longrightarrow> x \<in> tk_token ` set (snd c)) \<and> (kp_path k = None \<longrightarrow> kp_in_flight k))"

lemma transfers_ok_drops:
  assumes "transfers_ok (st, running)" and "drops_idle st st'"
  shows "transfers_ok (st', running)"
proof -
  have "carried (tf_kept st') task" if "carried (tf_kept st) task" for task
    using that assms(2) unfolding carried_def drops_idle_def by (metis option.distinct(1))
  moreover have "bt_get (tf_kept st) x = Some k" if "bt_get (tf_kept st') x = Some k" for x k
    using that assms(2) unfolding drops_idle_def by (metis option.distinct(1))
  ultimately show ?thesis using assms(1) unfolding transfers_ok_def fst_conv snd_conv by blast
qed

lemma transfers_ok_offers: "transfers_ok (st\<lparr>tf_offers := offers\<rparr>, running) = transfers_ok (st, running)"
  by (simp add: transfers_ok_def)

lemma transfers_ok_begin:
  assumes "transfers_ok (st, running)" and "bt_get (tf_kept st) transfer = None"
    and "kp_in_flight k" "kp_pane k = tk_pane task" "kp_length k = tk_length task" "tk_token task = transfer"
  shows "transfers_ok (st\<lparr>tf_kept := bt_insert transfer k (tf_kept st)\<rparr>, running @ [task])"
  using assms by (auto simp: transfers_ok_def carried_def bt_get_insert)

lemma transfers_ok_resume:
  assumes "transfers_ok (st, running)" and "bt_get (tf_kept st) transfer = Some k" and "\<not> kp_in_flight k"
    and "kp_pane k = tk_pane task" "kp_length k = tk_length task" "tk_token task = transfer"
  shows "transfers_ok (in_flight True transfer st, running @ [task])"
  using assms by (auto simp: transfers_ok_def carried_def in_flight_def bt_get_adjust split: option.split)

lemma transfers_ok_finish:
  assumes "transfers_ok (st, running)" and "task \<in> set running"
  shows "transfers_ok (fst (relay_finished now client request (tk_token task) outcome st), remove1 task running)"
proof -
  have inj: "inj_on tk_token (set running)" and distinct: "distinct running" "distinct (map tk_token (remove1 task running))"
    using assms(1) by (auto simp: transfers_ok_def distinct_map inj_on_def dest: notin_set_remove1)
  have others: "other \<in> set (remove1 task running) \<longleftrightarrow> other \<in> set running \<and> tk_token other \<noteq> tk_token task" for other
    using inj assms(2) distinct(1) by (auto simp: inj_on_def)
  obtain k where k: "bt_get (tf_kept st) (tk_token task) = Some k" using assms by (auto simp: transfers_ok_def carried_def)
  let ?st = "fst (relay_finished now client request (tk_token task) outcome st)"
  have same: "bt_get (tf_kept ?st) x = bt_get (tf_kept st) x" if "x \<noteq> tk_token task" for x
    using that k by (auto simp: relay_finished_def Let_def bt_get_remove bt_get_adjust split: relayed.split)
  have idle: "\<not> kp_in_flight k' \<and> kp_path k' \<noteq> None" if "bt_get (tf_kept ?st) (tk_token task) = Some k'" for k'
    using that k by (auto simp: relay_finished_def Let_def bt_get_remove bt_get_adjust split: relayed.splits)
  have "carried (tf_kept ?st) other" if "other \<in> set (remove1 task running)" for other
    using that others assms(1) same by (auto simp: transfers_ok_def carried_def)
  moreover have "(kp_in_flight k' \<longrightarrow> x \<in> tk_token ` set (remove1 task running)) \<and> (kp_path k' = None \<longrightarrow> kp_in_flight k')"
    if "bt_get (tf_kept ?st) x = Some k'" for x k'
  proof (cases "x = tk_token task")
    case True
    then show ?thesis using idle that by simp
  next
    case False
    with that same have "bt_get (tf_kept st) x = Some k'" by simp
    with assms(1) have "(kp_in_flight k' \<longrightarrow> x \<in> tk_token ` set running) \<and> (kp_path k' = None \<longrightarrow> kp_in_flight k')"
      by (simp add: transfers_ok_def)
    then show ?thesis using False others by (auto simp: image_iff)
  qed
  ultimately show ?thesis using distinct(2) by (simp add: transfers_ok_def)
qed

lemma begin_relay_ok:
  assumes "transfers_ok (st, running)" and "begin_relay secret now client request pane mime name len st = (st', es)"
    and "\<And>transfer. secret = Inr transfer \<Longrightarrow> bt_get (tf_kept st) transfer = None"
  shows "transfers_ok (st', running @ started es)"
proof (cases "started es = []")
  case True
  then have "tf_kept st' = tf_kept st"
    using assms(2) by (auto simp: begin_relay_def Let_def started_def split: if_splits sum.splits prod.splits)
  then show ?thesis using True assms(1) by (simp add: transfers_ok_def)
next
  case False
  let ?st = "st\<lparr>tf_offers := tf_offers st - {(client, request)}\<rparr>"
  obtain transfer st1 swept st2 evicted where secret: "secret = Inr transfer"
    and rooms: "sweep_retained now ?st = (st1, swept)" "evict_retained st1 = (st2, evicted)"
    and st': "st' = st2\<lparr>tf_kept := bt_insert transfer \<lparr>kp_pane = pane, kp_mime = mime, kp_name = name, kp_length = len,
      kp_path = None, kp_staged = 0, kp_in_flight = True, kp_expires_at = now + retain_timeout\<rparr> (tf_kept st2)\<rparr>"
    and es: "es = swept @ evicted @ [Tell client (UploadAccepted request transfer 0),
      Start \<lparr>tk_client = client, tk_request = request, tk_token = transfer, tk_pane = pane, tk_length = len, tk_path = None\<rparr>]"
    using assms(2) False by (auto simp: begin_relay_def Let_def started_def split: if_splits sum.splits prod.splits)
  have drops: "drops_idle ?st st2"
    using sweep_drops_idle [of ?st now] evict_facts [of st1] rooms by (auto intro: drops_idle_trans)
  then have "bt_get (tf_kept st2) transfer = bt_get (tf_kept ?st) transfer \<or> bt_get (tf_kept st2) transfer = None"
    by (rule drops_idleD)
  then have fresh: "bt_get (tf_kept st2) transfer = None" using assms(3) [OF secret] by auto
  have "transfers_ok (st2, running)" by (rule transfers_ok_drops [OF _ drops]) (simp add: transfers_ok_offers assms(1))
  moreover have "started swept = []" "started evicted = []"
    using sweep_facts(5) [of _ now ?st] evict_facts [of st1] rooms by (auto intro!: started_none)
  then have "started es = [\<lparr>tk_client = client, tk_request = request, tk_token = transfer, tk_pane = pane, tk_length = len, tk_path = None\<rparr>]"
    by (simp add: es started_append) (simp add: started_def)
  ultimately show ?thesis using transfers_ok_begin [OF _ fresh] st' by simp
qed

lemma resume_relay_ok:
  assumes "transfers_ok (st, running)" and "resume_relay now client request transfer pane len st = (st', es)"
  shows "transfers_ok (st', running @ started es)"
proof -
  let ?st = "st\<lparr>tf_offers := tf_offers st - {(client, request)}\<rparr>"
  obtain st1 swept where sweep: "sweep_retained now ?st = (st1, swept)" by fastforce
  have ok: "transfers_ok (st1, running)"
    using transfers_ok_drops [OF _ sweep_drops_idle [of ?st now], of running] sweep assms(1) by (simp add: transfers_ok_offers)
  have quiet: "started swept = []" using sweep_facts(5) [of _ now ?st] sweep by (auto intro!: started_none)
  have unset: "bt_adjust transfer (\<lambda>k. k\<lparr>kp_in_flight := False\<rparr>) (bt_adjust transfer (\<lambda>k. k\<lparr>kp_in_flight := True\<rparr>) m) = m"
    if "bt_get m transfer = Some k" "\<not> kp_in_flight k" for m :: "(ustring, kept_transfer) btmap" and k
    using that by (intro bt_ext) (auto simp: bt_get_adjust split: option.split)
  have undo: "in_flight False transfer (in_flight True transfer st1) = st1"
    if "bt_get (tf_kept st1) transfer = Some k" "\<not> kp_in_flight k" for k
    using unset [OF that] by (simp add: in_flight_def)
  from assms(2) consider "st' = st" "started es = []" | "st' = st1" "started es = []"
    | k where "bt_get (tf_kept st1) transfer = Some k" "\<not> kp_in_flight k" "kp_pane k = pane" "kp_length k = len"
        "st' = in_flight True transfer st1"
        "started es = [\<lparr>tk_client = client, tk_request = request, tk_token = transfer, tk_pane = pane, tk_length = len, tk_path = kp_path k\<rparr>]"
    using sweep quiet undo unfolding resume_relay_def
    by (auto simp: Let_def started_append split: if_splits option.splits sum.splits) (auto simp: started_def)
  then show ?thesis
  proof cases
    case (3 k)
    then show ?thesis using transfers_ok_resume [OF ok 3(1,2)] by simp
  qed (use assms(1) ok in simp_all)
qed

lemma resume_offset_ok:
  assumes "transfers_ok (st, running)"
  shows "transfers_ok (fst (resume_offset client request transfer staged st), running)"
proof -
  have kept: "bt_get (tf_kept (fst (resume_offset client request transfer staged st))) x =
      map_option (if x = transfer then (\<lambda>k. k\<lparr>kp_staged := staged\<rparr>) else (\<lambda>k. k)) (bt_get (tf_kept st) x)" for x
    by (auto simp: resume_offset_def bt_get_adjust option.map_ident split: option.split)
  let ?st = "fst (resume_offset client request transfer staged st)"
  have "carried (tf_kept ?st) task" if "carried (tf_kept st) task" for task
    using that by (auto simp: carried_def kept)
  moreover have "\<exists>k'. bt_get (tf_kept st) x = Some k' \<and> kp_in_flight k' = kp_in_flight k \<and> kp_path k' = kp_path k"
    if "bt_get (tf_kept ?st) x = Some k" for x k
    using that by (auto simp: kept split: if_splits)
  ultimately show ?thesis using assms unfolding transfers_ok_def fst_conv snd_conv by metis
qed

lemma transfer_step_ok: "transfers_ok c \<Longrightarrow> transfer_step c d \<Longrightarrow> transfers_ok d"
  by (erule transfer_step.cases)
    (auto intro: begin_relay_ok resume_relay_ok transfers_ok_finish resume_offset_ok transfers_ok_drops [OF _ sweep_drops_idle]
      simp: upload_offered_def offer_unclaimed_def sender_gone_def transfers_ok_offers)

interpretation transfer_reach: kept_invariant "(transfers_new targets ceiling, [])" transfer_step transfers_ok for targets ceiling
proof
  show "transfers_ok (transfers_new targets ceiling, [])" by (simp add: transfers_ok_def transfers_new_def)
qed (rule transfer_step_ok)

section \<open>Properties\<close>

text \<open>
  C17. One attempt at a time carries a transfer. In every state a daemon reaches - while uploads are
  begun, resumed, finished in any way, swept and crowded out, and senders come and go - no two
  running attempts have one token, each running attempt carries the pane and the length with which
  its transfer was begun, no transfer that is being carried is given up, one that is marked as
  carried is, and one that waits has a file on its host to go on from.
\<close>

theorem transfers_exclusive:
  assumes "reach transfer_step (transfers_new targets ceiling, []) (st, running)"
  shows "distinct (map tk_token running)
    \<and> (\<forall>task \<in> set running. \<exists>k. bt_get (tf_kept st) (tk_token task) = Some k \<and> kp_in_flight k
         \<and> kp_pane k = tk_pane task \<and> kp_length k = tk_length task)
    \<and> (\<forall>transfer k. bt_get (tf_kept st) transfer = Some k \<longrightarrow>
         (if kp_in_flight k then \<exists>task \<in> set running. tk_token task = transfer else kp_path k \<noteq> None))"
proof -
  have "transfers_ok (st, running)" by (rule transfer_reach.reachable_holds [OF assms])
  moreover have "(\<exists>task \<in> set running. tk_token task = x) \<longleftrightarrow> x \<in> tk_token ` set running" for x by auto
  ultimately show ?thesis unfolding transfers_ok_def carried_def fst_conv snd_conv by (simp, metis not_None_eq)
qed

text \<open>
  C18. A token is no authority of its own. A resumption starts an attempt exactly when its queue was
  offered, its pane's target is configured, and the token names a transfer that waits, has not
  expired, and was begun for the same pane with the same length; the attempt then goes on with the
  file kept for it. Every other resumption is answered with one refusal, the last thing it does,
  and leaves every transfer as it is but those whose time has run out.
\<close>

theorem resume_exactly:
  assumes "resume_relay now client request transfer pane len st = (st', es)"
  shows "(Start task \<in> set es \<longleftrightarrow> (client, request) \<in> tf_offers st \<and> tf_targets st (qid_target_session pane)
      \<and> (\<exists>k. bt_get (tf_kept st) transfer = Some k \<and> \<not> kp_in_flight k \<and> now < kp_expires_at k \<and> kp_pane k = pane
          \<and> kp_length k = len \<and> task = \<lparr>tk_client = client, tk_request = request, tk_token = transfer, tk_pane = pane,
            tk_length = len, tk_path = kp_path k\<rparr>))
    \<and> ((\<forall>task. Start task \<notin> set es) \<longrightarrow>
        (\<exists>message. es \<noteq> [] \<and> last es = Tell client (ErrorMsg (Some request) message))
        \<and> (\<forall>x k. bt_get (tf_kept st) x = Some k \<and> \<not> lapsed now k \<longrightarrow> bt_get (tf_kept st') x = Some k))"
proof (cases "(client, request) \<in> tf_offers st")
  case False
  then show ?thesis using assms by (auto simp: resume_relay_def)
next
  case True
  let ?st = "st\<lparr>tf_offers := tf_offers st - {(client, request)}\<rparr>"
  obtain st1 swept where sweep: "sweep_retained now ?st = (st1, swept)" by fastforce
  have quiet: "Start task \<notin> set swept" for task using sweep_facts(5) [of task now ?st] sweep by simp
  have kept: "bt_get (tf_kept st1) x = (case bt_get (tf_kept st) x of None \<Rightarrow> None | Some k \<Rightarrow> if lapsed now k then None else Some k)" for x
    using sweep_facts(1) [of now ?st] sweep by simp
  have same: "tf_targets st1 = tf_targets st" using sweep_facts(2) [of now ?st] sweep by simp
  have undo: "bt_get (tf_kept (in_flight False transfer (in_flight True transfer st1))) x = bt_get (tf_kept st1) x"
    if "bt_get (tf_kept st1) transfer = Some k" "\<not> kp_in_flight k" for x k
    using that by (auto simp: in_flight_def bt_get_adjust split: option.split)
  have flight: "tf_targets (in_flight True transfer st1) = tf_targets st1" by (simp add: in_flight_def)
  have waiting: "(\<exists>k. bt_get (tf_kept st1) transfer = Some k \<and> \<not> kp_in_flight k \<and> P k)
      \<longleftrightarrow> (\<exists>k. bt_get (tf_kept st) transfer = Some k \<and> \<not> kp_in_flight k \<and> now < kp_expires_at k \<and> P k)" for P
    by (auto simp: kept lapsed_def not_le split: option.split)
  let ?task = "\<lambda>k. \<lparr>tk_client = client, tk_request = request, tk_token = transfer, tk_pane = pane, tk_length = len, tk_path = kp_path k\<rparr>"
  have "Start task \<in> set es \<longleftrightarrow> tf_targets st (qid_target_session pane) \<and> (\<exists>k. bt_get (tf_kept st1) transfer = Some k
      \<and> \<not> kp_in_flight k \<and> (kp_pane k = pane \<and> kp_length k = len \<and> task = ?task k))"
    using assms True sweep quiet same flight unfolding resume_relay_def transfer_target_def
    by (auto simp: Let_def split: option.splits if_splits)
  moreover have "(\<exists>message. es \<noteq> [] \<and> last es = Tell client (ErrorMsg (Some request) message))
      \<and> (\<forall>x. bt_get (tf_kept st') x = bt_get (tf_kept st1) x)" if "\<forall>task. Start task \<notin> set es"
    using assms True sweep that undo unfolding resume_relay_def
    by (auto simp: Let_def split: option.splits if_splits sum.splits)
  ultimately show ?thesis using True waiting by (auto simp: kept)
qed

section \<open>Two flaws\<close>

text \<open>
  The number of transfers that wait is not bounded: room is made only when a transfer begins, and
  one that is being carried is never given up, so that any number of uploads may be carried at
  once and be interrupted together.
\<close>

lemma begin_among_carried:
  assumes "\<And>x k. bt_get (tf_kept st) x = Some k \<Longrightarrow> kp_in_flight k" and "\<And>key. tf_targets st key"
    and "bt_get (tf_kept st) transfer = None"
  shows "\<exists>st' es task k. begin_relay (Inr transfer) now client request pane mime name 0 (upload_offered client request st) = (st', es)
    \<and> started es = [task] \<and> tk_token task = transfer \<and> tf_kept st' = bt_insert transfer k (tf_kept st) \<and> kp_in_flight k
    \<and> tf_targets st' = tf_targets st"
proof -
  let ?st = "upload_offered client request st\<lparr>tf_offers := tf_offers (upload_offered client request st) - {(client, request)}\<rparr>"
  obtain st1 swept where sweep: "sweep_retained now ?st = (st1, swept)" by fastforce
  obtain st2 evicted where evict: "evict_retained st1 = (st2, evicted)" by fastforce
  have drops: "drops_idle ?st st2"
    using sweep_drops_idle [of ?st now] evict_facts [of st1] sweep evict by (auto intro: drops_idle_trans)
  have "bt_get (tf_kept st2) x = bt_get (tf_kept st) x" for x
  proof (cases "bt_get (tf_kept st) x")
    case None
    then show ?thesis using drops_idleD [OF drops, of x] by (simp add: upload_offered_def)
  next
    case (Some k)
    then show ?thesis using drops assms(1) [OF Some] unfolding drops_idle_def upload_offered_def by simp metis
  qed
  then have kept: "tf_kept st2 = tf_kept st" by (rule bt_ext)
  have same: "tf_targets st2 = tf_targets st" using drops by (simp add: drops_idle_def upload_offered_def)
  have quiet: "started swept = []" "started evicted = []"
    using sweep_facts(5) [of _ now ?st] evict_facts [of st1] sweep evict by (auto intro!: started_none)
  let ?k = "\<lparr>kp_pane = pane, kp_mime = mime, kp_name = name, kp_length = 0, kp_path = None, kp_staged = 0, kp_in_flight = True,
    kp_expires_at = now + retain_timeout\<rparr>"
  let ?task = "\<lparr>tk_client = client, tk_request = request, tk_token = transfer, tk_pane = pane, tk_length = 0, tk_path = None\<rparr>"
  have begun: "begin_relay (Inr transfer) now client request pane mime name 0 (upload_offered client request st)
      = (st2\<lparr>tf_kept := bt_insert transfer ?k (tf_kept st)\<rparr>, swept @ evicted @ [Tell client (UploadAccepted request transfer 0), Start ?task])"
    using sweep evict assms(2) kept by (simp add: begin_relay_def upload_offered_def transfer_target_def Let_def)
  have "started (swept @ evicted @ [Tell client (UploadAccepted request transfer 0), Start ?task]) = [?task]"
    unfolding started_append quiet by (simp add: started_def)
  with begun same show ?thesis
    by (intro exI [of _ "st2\<lparr>tf_kept := bt_insert transfer ?k (tf_kept st)\<rparr>"]
        exI [of _ "swept @ evicted @ [Tell client (UploadAccepted request transfer 0), Start ?task]"] exI [of _ ?task] exI [of _ ?k]) simp
qed

lemma many_carried:
  "\<exists>st running. reach transfer_step (transfers_new (\<lambda>_. True) ceiling, []) (st, running) \<and> tf_targets st = (\<lambda>_. True)
    \<and> (\<forall>x k. bt_get (tf_kept st) x = Some k \<longrightarrow> kp_in_flight k \<and> length x < n) \<and> bt_len (tf_kept st) = n"
proof (induction n)
  case 0
  show ?case
    by (intro exI [of _ "transfers_new (\<lambda>_. True) ceiling"] exI [of _ "[]"]) (simp add: reach_start, simp add: transfers_new_def)
next
  case (Suc n)
  then obtain st running where st: "reach transfer_step (transfers_new (\<lambda>_. True) ceiling, []) (st, running)" "tf_targets st = (\<lambda>_. True)"
    "\<forall>x k. bt_get (tf_kept st) x = Some k \<longrightarrow> kp_in_flight k \<and> length x < n" "bt_len (tf_kept st) = n" by blast
  let ?token = "replicate n (0 :: nat)"
  have fresh: "bt_get (tf_kept st) ?token = None" using st(3) by (metis length_replicate less_irrefl not_None_eq)
  obtain st' es k where begun: "begin_relay (Inr ?token) 0 1 1 undefined [] None 0 (upload_offered 1 1 st) = (st', es)"
    "tf_kept st' = bt_insert ?token k (tf_kept st)" "kp_in_flight k" "tf_targets st' = tf_targets st"
    using begin_among_carried [where now = 0 and client = 1 and request = 1 and pane = undefined and mime = "[]" and name = None,
      OF _ _ fresh] st(2,3) by auto
  have "reach transfer_step (transfers_new (\<lambda>_. True) ceiling, []) (upload_offered 1 1 st, running)"
    by (rule reach_step [OF st(1) offered])
  moreover have "transfer_step (upload_offered 1 1 st, running) (st', running @ started es)"
    by (rule begins [OF begun(1)]) (use fresh in \<open>simp add: upload_offered_def\<close>)
  ultimately have "reach transfer_step (transfers_new (\<lambda>_. True) ceiling, []) (st', running @ started es)"
    by (rule reach_step)
  moreover have "\<forall>x k. bt_get (tf_kept st') x = Some k \<longrightarrow> kp_in_flight k \<and> length x < Suc n"
    using st(3) begun(2,3) by (auto simp: bt_get_insert split: if_splits dest: less_SucI)
  moreover have "bt_len (tf_kept st') = Suc n" using st(4) begun(2) fresh by (simp add: bt_len_insert)
  ultimately show ?case using begun(4) st(2) by auto
qed

lemma all_interrupted:
  assumes "reach transfer_step (transfers_new targets ceiling, []) (st, running)"
  shows "\<exists>st'. reach transfer_step (transfers_new targets ceiling, []) (st', []) \<and> bt_len (tf_kept st') = bt_len (tf_kept st)"
  using assms
proof (induction "length running" arbitrary: st running)
  case (Suc n)
  then obtain task rest where running: "running = task # rest" by (cases running) auto
  have "transfers_ok (st, running)" by (rule transfer_reach.reachable_holds [OF Suc.prems])
  then obtain k where k: "bt_get (tf_kept st) (tk_token task) = Some k" using running by (auto simp: transfers_ok_def carried_def)
  let ?st = "fst (relay_finished 0 (tk_client task) (tk_request task) (tk_token task) (KeptBack [] 0) st)"
  have "reach transfer_step (transfers_new targets ceiling, []) (?st, rest)"
    using reach_step [OF Suc.prems finishes [of task running st 0 "KeptBack [] 0"]] running by simp
  moreover have "bt_len (tf_kept ?st) = bt_len (tf_kept st)" using k by (simp add: relay_finished_def bt_len_adjust)
  ultimately show ?case using Suc.hyps(1) [of rest ?st] Suc.hyps(2) running by auto
qed auto

lemma no_bound_on_kept:
  "\<exists>st. reach transfer_step (transfers_new (\<lambda>_. True) ceiling, []) (st, []) \<and> bt_len (tf_kept st) = n"
  using many_carried [of ceiling n] all_interrupted by metis

text \<open>
  A resumption whose connection cannot be made is refused, and the transfer is settled; but what
  an earlier attempt left on the host stays there, and nothing asks for its removal.
\<close>

lemma refused_resume_leaks:
  assumes "pl_staging p = Resume path n" and "removable_upload_directory path \<noteq> None" and "\<not> at_opens e" and "at_remote e"
  shows "\<exists>message. relay debug sha256 e in_time p chunks h = (h, Refused message)
    \<and> bt_get (tf_kept (fst (relay_finished now client request transfer (Refused message) st))) transfer = None
    \<and> snd (relay_finished now client request transfer (Refused message) st) = [Tell client (ErrorMsg (Some request) message)]"
  using assms by (auto simp: relay_def upload_stream_def heading_of_def run_attempt_def remote_attempt_def reader_new_def
      relay_finished_def bt_get_remove)

section \<open>Witnesses\<close>

theorem transfers_exclusive_witness:
  "\<exists>st running. reach transfer_step (transfers_new (\<lambda>_. True) 0, []) (st, running) \<and> bt_len (tf_kept st) = 2
    \<and> distinct (map tk_token running)"
  using many_carried [of 0 2] transfers_exclusive by metis

definition sample_kept :: kept_transfer where
  "sample_kept = \<lparr>kp_pane = QualifiedId (lit ''build'') (lit ''main'') (lit ''p1''), kp_mime = [], kp_name = None, kp_length = 3,
     kp_path = Some (lit ''/run/super-herdr-clipboard.x/a.txt''), kp_staged = 1, kp_in_flight = False, kp_expires_at = 100\<rparr>"

definition sample_transfers :: transfers where
  "sample_transfers = \<lparr>tf_offers = {(1, 2)}, tf_kept = bt_insert (lit ''secret'') sample_kept bt_empty,
     tf_targets = (\<lambda>_. True), tf_ceiling = 10\<rparr>"

theorem resume_exactly_witness:
  "Start \<lparr>tk_client = 1, tk_request = 2, tk_token = lit ''secret'', tk_pane = kp_pane sample_kept, tk_length = 3, tk_path = kp_path sample_kept\<rparr>
     \<in> set (snd (resume_relay 50 1 2 (lit ''secret'') (kp_pane sample_kept) 3 sample_transfers))"
  using resume_exactly [OF prod.collapse [symmetric], of _ 50 1 2 "lit ''secret''" "kp_pane sample_kept" 3 sample_transfers]
  by (simp add: sample_transfers_def sample_kept_def bt_get_insert)

end
