(* ===== verification/Transport.thy ===== *)
theory Transport
  imports Config_Check State Std_Text
begin

text \<open>
  Reaching a host (\<open>src/src/transport.rs\<close>): the command lines that run Herdr there or here, the
  choice among the candidate Herdr binaries, the discovery of the sessions of a host, and single
  requests to Herdr's socket. Commands are modelled by what running their argument vector gives,
  JSON by its accessors, and the shell of a host by the quoting rules it honours.
\<close>

section \<open>Command lines\<close>

fun join_with :: "ustring \<Rightarrow> ustring list \<Rightarrow> ustring" where
  "join_with sep [] = []"
| "join_with sep [x] = x"
| "join_with sep (x # y # xs) = x @ sep @ join_with sep (y # xs)"

text \<open>\<open>str::replace\<close> of one character.\<close>

definition replace_char :: "uchar \<Rightarrow> ustring \<Rightarrow> ustring \<Rightarrow> ustring" where
  "replace_char c by s = concat (map (\<lambda>x. if x = c then by else [x]) s)"

definition quote_posix :: "ustring \<Rightarrow> ustring" where
  "quote_posix value = 39 # replace_char 39 [39, 34, 39, 34, 39] value @ [39]"

definition render_remote_command :: "ustring \<Rightarrow> ustring list \<Rightarrow> ustring" where
  "render_remote_command executable args = join_with [32] (map quote_posix (executable # args))"

definition session_args :: "target \<Rightarrow> ustring list \<Rightarrow> ustring list" where
  "session_args t args = (case tg_session t of Some session \<Rightarrow> [lit ''--session'', session] | None \<Rightarrow> []) @ args"

definition build_ssh_command :: "ustring \<Rightarrow> transport_config \<Rightarrow> ustring \<Rightarrow> ustring list" where
  "build_ssh_command destination tc remote = tc_ssh_bin tc
     # (if tc_batch_mode tc then [lit ''-o'', lit ''BatchMode=yes''] else [])
     @ [lit ''-o'', lit ''ConnectTimeout='' @ show_word (tc_connect_timeout_seconds tc), lit ''--'', destination, remote]"

definition build_herdr_command :: "target \<Rightarrow> transport_config \<Rightarrow> ustring \<Rightarrow> ustring list \<Rightarrow> ustring list" where
  "build_herdr_command t tc executable args = (case tg_ssh t of
     Some destination \<Rightarrow> build_ssh_command destination tc (render_remote_command executable (session_args t args))
   | None \<Rightarrow> executable # session_args t args)"

text \<open>How the terminal client quotes the path of an uploaded file before it pastes it.\<close>

definition shell_quoted_path :: "ustring \<Rightarrow> ustring" where
  "shell_quoted_path path = 39 # concat (map (\<lambda>c. if c = 39 then [39, 92, 39, 39] else [c]) path) @ [39]"

definition pasted_paths :: "ustring list \<Rightarrow> ustring" where
  "pasted_paths paths = join_with [32] (map shell_quoted_path paths)"

section \<open>What a shell makes of quoted words\<close>

text \<open>
  The spellings of one word that POSIX documents as inert: text in single quotes, text in double
  quotes without the characters that stay special there, and characters after a backslash. A shell
  honours them when it reads such spellings, separated by spaces, as the words they spell.
\<close>

inductive spelled :: "ustring \<Rightarrow> ustring \<Rightarrow> bool" where
  spelled_nil: "spelled [] []"
| spelled_single: "39 \<notin> set body \<Longrightarrow> spelled q w \<Longrightarrow> spelled (39 # body @ 39 # q) (body @ w)"
| spelled_double: "set body \<inter> {34, 36, 92, 96} = {} \<Longrightarrow> spelled q w \<Longrightarrow> spelled (34 # body @ 34 # q) (body @ w)"
| spelled_escaped: "c \<noteq> 10 \<Longrightarrow> spelled q w \<Longrightarrow> spelled (92 # c # q) (c # w)"

definition posix_shell :: "(ustring \<Rightarrow> ustring list) \<Rightarrow> bool" where
  "posix_shell sh \<longleftrightarrow> sh [] = []
     \<and> (\<forall>q w. q \<noteq> [] \<longrightarrow> spelled q w \<longrightarrow> sh q = [w] \<and> (\<forall>rest. sh (q @ 32 # rest) = w # sh rest))"

lemma posix_words:
  assumes "posix_shell sh" and "\<And>w. w \<in> set ws \<Longrightarrow> quote w \<noteq> [] \<and> spelled (quote w) w"
  shows "sh (join_with [32] (map quote ws)) = ws"
  using assms(2)
proof (induction ws rule: induct_list012)
  case 1
  then show ?case using assms(1) by (simp add: posix_shell_def)
next
  case (2 w)
  then show ?case using assms(1) by (simp add: posix_shell_def)
next
  case (3 w v ws)
  have "quote w \<noteq> [] \<and> spelled (quote w) w" by (rule 3) simp
  then have "sh (quote w @ 32 # join_with [32] (map quote (v # ws))) = w # sh (join_with [32] (map quote (v # ws)))"
    using assms(1) by (simp add: posix_shell_def)
  then show ?case using 3 by simp
qed

lemma spelled_doubled:
  "39 \<notin> set pre \<Longrightarrow> spelled (39 # pre @ replace_char 39 [39, 34, 39, 34, 39] v @ [39]) (pre @ v)"
proof (induction v arbitrary: pre)
  case Nil
  then show ?case using spelled_single [OF _ spelled_nil, of pre] by (simp add: replace_char_def)
next
  case (Cons c v)
  show ?case
  proof (cases "c = 39")
    case True
    have "spelled (39 # [] @ replace_char 39 [39, 34, 39, 34, 39] v @ [39]) ([] @ v)" by (rule Cons.IH) simp
    then have "spelled (34 # [39] @ 34 # 39 # replace_char 39 [39, 34, 39, 34, 39] v @ [39]) ([39] @ v)"
      by (intro spelled_double) simp_all
    from spelled_single [OF Cons.prems this] True show ?thesis by (simp add: replace_char_def)
  next
    case False
    then show ?thesis using Cons.IH [of "pre @ [c]"] Cons.prems by (simp add: replace_char_def)
  qed
qed

lemma quote_posix_spells: "spelled (quote_posix v) v"
  using spelled_doubled [of "[]" v] by (simp add: quote_posix_def)

lemma spelled_escaping:
  "39 \<notin> set pre \<Longrightarrow> spelled (39 # pre @ concat (map (\<lambda>c. if c = 39 then [39, 92, 39, 39] else [c]) v) @ [39]) (pre @ v)"
proof (induction v arbitrary: pre)
  case Nil
  then show ?case using spelled_single [OF _ spelled_nil, of pre] by simp
next
  case (Cons c v)
  show ?case
  proof (cases "c = 39")
    case True
    have "spelled (39 # [] @ concat (map (\<lambda>c. if c = 39 then [39, 92, 39, 39] else [c]) v) @ [39]) ([] @ v)"
      by (rule Cons.IH) simp
    then have "spelled (92 # 39 # 39 # concat (map (\<lambda>c. if c = 39 then [39, 92, 39, 39] else [c]) v) @ [39]) (39 # v)"
      by (intro spelled_escaped) simp_all
    from spelled_single [OF Cons.prems this] True show ?thesis by simp
  next
    case False
    then show ?thesis using Cons.IH [of "pre @ [c]"] Cons.prems by simp
  qed
qed

text \<open>
  C26. A command reaches a host as it was meant. Whatever the arguments contain - quotes, spaces,
  dollar signs, line breaks - the shell of the host reads the one line that SSH hands it as the
  very words that would be run on this machine; and every path that is pasted into a terminal is
  read there as itself.
\<close>

theorem remote_runs_as_local:
  assumes "posix_shell sh" and "tg_ssh t = Some destination"
  shows "(\<exists>options line. build_herdr_command t tc executable args = tc_ssh_bin tc # options @ [lit ''--'', destination, line]
      \<and> sh line = build_herdr_command (t\<lparr>tg_ssh := None\<rparr>) tc executable args)
    \<and> sh (pasted_paths paths) = paths"
proof -
  have "sh (render_remote_command executable (session_args t args)) = executable # session_args t args"
    unfolding render_remote_command_def by (rule posix_words [OF assms(1)]) (simp add: quote_posix_spells, simp add: quote_posix_def)
  then have "\<exists>options line. build_herdr_command t tc executable args = tc_ssh_bin tc # options @ [lit ''--'', destination, line]
      \<and> sh line = build_herdr_command (t\<lparr>tg_ssh := None\<rparr>) tc executable args"
    using assms(2)
    by (intro exI [of _ "(if tc_batch_mode tc then [lit ''-o'', lit ''BatchMode=yes''] else [])
        @ [lit ''-o'', lit ''ConnectTimeout='' @ show_word (tc_connect_timeout_seconds tc)]"])
      (simp add: build_herdr_command_def build_ssh_command_def session_args_def)
  moreover have "sh (pasted_paths paths) = paths"
    unfolding pasted_paths_def using spelled_escaping [of "[]"]
    by (intro posix_words [OF assms(1)]) (simp add: shell_quoted_path_def)
  ultimately show ?thesis by blast
qed

section \<open>Running Herdr\<close>

text \<open>What running an argument vector gives: it could not be started, or it exited.\<close>

datatype command_output = NotStarted ustring | Exited bool ustring "u8 list"

datatype snapshot_error_kind = SnapshotIncompatible | SnapshotTimeout | SnapshotUnavailable

record snapshot_error =
  se_kind :: snapshot_error_kind
  se_message :: ustring

definition unavailable_error :: "ustring \<Rightarrow> snapshot_error" where
  "unavailable_error message = \<lparr>se_kind = SnapshotUnavailable, se_message = message\<rparr>"

definition incompatible_error :: "ustring \<Rightarrow> snapshot_error" where
  "incompatible_error message = \<lparr>se_kind = SnapshotIncompatible, se_message = message\<rparr>"

definition parse_last_json :: "(ustring \<Rightarrow> 'v option) \<Rightarrow> ustring \<Rightarrow> 'v result" where
  "parse_last_json parse output = ok_or (find_map parse (rev (str_lines output))) (lit ''Herdr did not return a JSON response'')"

text \<open>A text on one line, cut after 500 characters with an ellipsis.\<close>

definition compact_text :: "ustring \<Rightarrow> ustring" where
  "compact_text value = (let normalized = join_with [32] (split_whitespace value)
     in if length normalized \<le> 500 then normalized else take 500 normalized @ [8230])"

record attempt_failure =
  af_message :: ustring
  af_protocol_mismatch :: bool

definition other_failure :: "ustring \<Rightarrow> attempt_failure" where
  "other_failure message = \<lparr>af_message = message, af_protocol_mismatch = False\<rparr>"

definition api_failure :: "'v json \<Rightarrow> ('v \<Rightarrow> ustring) \<Rightarrow> 'v \<Rightarrow> attempt_failure option" where
  "api_failure J to_string response = map_option (\<lambda>error.
     \<lparr>af_message = lit ''Herdr API error: '' @ compact_text (to_string error),
      af_protocol_mismatch = (optional_string J error (lit ''code'') = Some (lit ''protocol_mismatch''))\<rparr>)
     (jv_get J response (lit ''error''))"

definition collect_snapshot_once ::
    "'v json \<Rightarrow> (ustring \<Rightarrow> 'v option) \<Rightarrow> ('v \<Rightarrow> ustring) \<Rightarrow> (ustring \<Rightarrow> ustring) \<Rightarrow> (ustring list \<Rightarrow> command_output) \<Rightarrow>
     target \<Rightarrow> transport_config \<Rightarrow> ustring \<Rightarrow> attempt_failure + 'v" where
  "collect_snapshot_once J parse to_string show_debug execute t tc executable =
     (case execute (build_herdr_command t tc executable [lit ''api'', lit ''snapshot'']) of
        NotStarted e \<Rightarrow> Inl (other_failure (lit ''failed to start target '' @ show_debug (tg_name t) @ lit '': '' @ e))
      | Exited success status output \<Rightarrow>
          (let response = parse_last_json parse (from_utf8_lossy output)
           in case (case response of Inr v \<Rightarrow> api_failure J to_string v | Inl _ \<Rightarrow> None) of
                Some failure \<Rightarrow> Inl failure
              | None \<Rightarrow>
                  if \<not> success
                  then Inl (other_failure (lit ''command exited with '' @ status @ lit '' (diagnostic output redacted)''))
                  else (case response of
                      Inl message \<Rightarrow> Inl (other_failure message)
                    | Inr v \<Rightarrow> ok_or (Option.bind (jv_get J v (lit ''result'')) (\<lambda>r. jv_get J r (lit ''snapshot'')))
                        (other_failure (lit ''Herdr response did not contain result.snapshot'')))))"

text \<open>The candidates are tried in turn, and only a protocol mismatch moves on to the next.\<close>

fun try_candidates :: "(ustring \<Rightarrow> attempt_failure + 'v) \<Rightarrow> ustring list \<Rightarrow> ustring list \<Rightarrow> snapshot_error + 'v \<times> ustring" where
  "try_candidates once mismatches [] =
     Inl (incompatible_error (lit ''no compatible Herdr client candidate; '' @ join_with (lit ''; '') mismatches))"
| "try_candidates once mismatches (executable # rest) = (case once executable of
     Inr snapshot \<Rightarrow> Inr (snapshot, executable)
   | Inl failure \<Rightarrow>
       if af_protocol_mismatch failure
       then try_candidates once (mismatches @ [executable @ lit '': '' @ af_message failure]) rest
       else Inl (unavailable_error (executable @ lit '': '' @ af_message failure)))"

definition collect_snapshot ::
    "'v json \<Rightarrow> (ustring \<Rightarrow> 'v option) \<Rightarrow> ('v \<Rightarrow> ustring) \<Rightarrow> (ustring \<Rightarrow> ustring) \<Rightarrow> (ustring list \<Rightarrow> command_output) \<Rightarrow>
     target \<Rightarrow> transport_config \<Rightarrow> snapshot_error + 'v \<times> ustring" where
  "collect_snapshot J parse to_string show_debug execute t tc =
     try_candidates (collect_snapshot_once J parse to_string show_debug execute t tc) [] (tg_herdr_bins t)"

lemma try_candidates_ok:
  "try_candidates once mismatches bins = Inr (v, binary) \<longleftrightarrow>
   (\<exists>before after. bins = before @ binary # after \<and> once binary = Inr v
      \<and> (\<forall>b \<in> set before. \<exists>f. once b = Inl f \<and> af_protocol_mismatch f))"
proof (induction bins arbitrary: mismatches)
  case (Cons b bins)
  show ?case
  proof (cases "once b")
    case (Inl f)
    show ?thesis
    proof
      assume "try_candidates once mismatches (b # bins) = Inr (v, binary)"
      then have "af_protocol_mismatch f" "\<exists>before after. bins = before @ binary # after \<and> once binary = Inr v
          \<and> (\<forall>b \<in> set before. \<exists>f. once b = Inl f \<and> af_protocol_mismatch f)"
        using Inl by (auto simp: Cons.IH split: if_splits)
      then show "\<exists>before after. b # bins = before @ binary # after \<and> once binary = Inr v
          \<and> (\<forall>b \<in> set before. \<exists>f. once b = Inl f \<and> af_protocol_mismatch f)"
        using Inl by (metis Cons_eq_appendI set_ConsD)
    next
      assume "\<exists>before after. b # bins = before @ binary # after \<and> once binary = Inr v
          \<and> (\<forall>b \<in> set before. \<exists>f. once b = Inl f \<and> af_protocol_mismatch f)"
      then show "try_candidates once mismatches (b # bins) = Inr (v, binary)"
        using Inl by (auto simp: Cons.IH Cons_eq_append_conv)
    qed
  qed (auto simp: Cons_eq_append_conv)
qed simp

lemma try_candidates_incompatible:
  "(\<exists>e. try_candidates once mismatches bins = Inl e \<and> se_kind e = SnapshotIncompatible) \<longleftrightarrow>
   (\<forall>b \<in> set bins. \<exists>f. once b = Inl f \<and> af_protocol_mismatch f)"
  by (induction bins arbitrary: mismatches) (auto simp: incompatible_error_def unavailable_error_def split: sum.splits)

text \<open>
  The first Herdr binary that speaks the host's protocol is used, and no other failure is
  taken for an old binary. A snapshot comes from a candidate exactly when its own attempt gave it
  and every candidate before it failed with a protocol mismatch; the host is called incompatible_error,
  which stops it from being retried as a failure, exactly when every candidate mismatched.
\<close>

theorem snapshot_from_first_speaker:
  "(collect_snapshot J parse to_string show_debug execute t tc = Inr (v, binary) \<longleftrightarrow>
     (\<exists>before after. tg_herdr_bins t = before @ binary # after
        \<and> collect_snapshot_once J parse to_string show_debug execute t tc binary = Inr v
        \<and> (\<forall>b \<in> set before. \<exists>f. collect_snapshot_once J parse to_string show_debug execute t tc b = Inl f \<and> af_protocol_mismatch f)))
   \<and> ((\<exists>e. collect_snapshot J parse to_string show_debug execute t tc = Inl e \<and> se_kind e = SnapshotIncompatible) \<longleftrightarrow>
     (\<forall>b \<in> set (tg_herdr_bins t). \<exists>f. collect_snapshot_once J parse to_string show_debug execute t tc b = Inl f \<and> af_protocol_mismatch f))"
  by (simp only: collect_snapshot_def try_candidates_ok try_candidates_incompatible)

section \<open>The sessions of a host\<close>

record discovered_session =
  ds_name :: ustring
  ds_running :: bool
  ds_session_dir :: ustring
  ds_socket_path :: ustring

definition valid_discovered_session :: "discovered_session \<Rightarrow> bool" where
  "valid_discovered_session s \<longleftrightarrow> ds_name s \<noteq> [] \<and> 47 \<notin> set (ds_name s) \<and> \<not> (\<exists>c \<in> set (ds_name s). is_control c)
     \<and> starts_with [47] (ds_socket_path s) \<and> 58 \<notin> set (ds_socket_path s) \<and> \<not> (\<exists>c \<in> set (ds_socket_path s). is_control c)"

text \<open>\<open>Vec::dedup_by\<close> keeps the first of neighbours with one name.\<close>

fun dedup_names :: "discovered_session list \<Rightarrow> discovered_session list" where
  "dedup_names (a # b # rest) = (if ds_name b = ds_name a then dedup_names (a # rest) else a # dedup_names (b # rest))"
| "dedup_names rest = rest"

definition discover_sessions_once ::
    "(ustring \<Rightarrow> 'v option) \<Rightarrow> ('v \<Rightarrow> discovered_session list option) \<Rightarrow> (ustring list \<Rightarrow> command_output) \<Rightarrow>
     target \<Rightarrow> transport_config \<Rightarrow> ustring \<Rightarrow> discovered_session list result" where
  "discover_sessions_once parse read_list execute t tc executable =
     (case execute (build_herdr_command (t\<lparr>tg_session := None, tg_socket := None\<rparr>) tc executable
          [lit ''session'', lit ''list'', lit ''--json'']) of
        NotStarted _ \<Rightarrow> Inl (lit ''failed to start Herdr session discovery'')
      | Exited success _ output \<Rightarrow>
          if \<not> success then Inl (lit ''Herdr session discovery exited unsuccessfully (diagnostics redacted)'')
          else if length output > 1024 * 1024 then Inl (lit ''Herdr session discovery exceeded the size limit'')
          else and_then (parse_last_json parse (from_utf8_lossy output)) (\<lambda>v. case read_list v of
              None \<Rightarrow> Inl (lit ''Herdr session discovery returned an invalid response'')
            | Some sessions \<Rightarrow> Inr (dedup_names (sort_key ds_name (filter (\<lambda>s. ds_running s \<and> valid_discovered_session s) sessions)))))"

fun first_discovery :: "(ustring \<Rightarrow> discovered_session list result) \<Rightarrow> ustring list \<Rightarrow> ustring list \<Rightarrow>
    snapshot_error + discovered_session list \<times> ustring" where
  "first_discovery once failures [] = Inl (unavailable_error (lit ''session discovery failed; '' @ join_with (lit ''; '') failures))"
| "first_discovery once failures (executable # rest) = (case once executable of
     Inr sessions \<Rightarrow> Inr (sessions, executable)
   | Inl error \<Rightarrow> first_discovery once (failures @ [executable @ lit '': '' @ error]) rest)"

definition targets_for_discovered_sessions :: "target \<Rightarrow> discovered_session list \<Rightarrow> target list" where
  "targets_for_discovered_sessions t sessions =
     map (\<lambda>s. t\<lparr>tg_discover_sessions := False, tg_session := Some (ds_name s), tg_socket := Some (ds_socket_path s)\<rparr>) sessions"

text \<open>Discovery of one target; \<open>in_time\<close> says whether its commands ended before the timeout.\<close>

definition expand_discovered_target ::
    "(ustring \<Rightarrow> 'v option) \<Rightarrow> ('v \<Rightarrow> discovered_session list option) \<Rightarrow> (ustring list \<Rightarrow> command_output) \<Rightarrow>
     (target \<Rightarrow> bool) \<Rightarrow> transport_config \<Rightarrow> target \<Rightarrow> target list" where
  "expand_discovered_target parse read_list execute in_time tc t =
     (if \<not> tg_discover_sessions t \<or> \<not> in_time t then [t]
      else (case first_discovery (discover_sessions_once parse read_list execute t tc) [] (tg_herdr_bins t) of
          Inr (sessions, _) \<Rightarrow> targets_for_discovered_sessions t sessions
        | Inl _ \<Rightarrow> [t]))"

definition expand_discovered_sessions ::
    "(ustring \<Rightarrow> 'v option) \<Rightarrow> ('v \<Rightarrow> discovered_session list option) \<Rightarrow> (ustring list \<Rightarrow> command_output) \<Rightarrow>
     (target \<Rightarrow> bool) \<Rightarrow> config \<Rightarrow> config" where
  "expand_discovered_sessions parse read_list execute in_time c =
     c\<lparr>cf_targets := concat (map (expand_discovered_target parse read_list execute in_time (cf_transport c)) (cf_targets c))\<rparr>"

lemma dedup_names_set: "set (dedup_names ss) \<subseteq> set ss"
  by (induction ss rule: dedup_names.induct) auto

lemma dedup_names_sorted:
  "sorted (map ds_name ss) \<Longrightarrow> sorted (map ds_name (dedup_names ss)) \<and> distinct (map ds_name (dedup_names ss))
     \<and> (ss \<noteq> [] \<longrightarrow> dedup_names ss \<noteq> [] \<and> ds_name (hd (dedup_names ss)) = ds_name (hd ss))"
proof (induction ss rule: dedup_names.induct)
  case (1 a b rest)
  show ?case
  proof (cases "ds_name b = ds_name a")
    case True
    then show ?thesis using 1 by simp
  next
    case False
    have smaller: "ds_name a < ds_name b" using 1(3) False by (simp add: order_less_le)
    have ih: "sorted (map ds_name (dedup_names (b # rest)))" "distinct (map ds_name (dedup_names (b # rest)))"
      using 1(2) [OF False] 1(3) by simp_all
    have "\<forall>s \<in> set (dedup_names (b # rest)). ds_name b \<le> ds_name s"
      using dedup_names_set [of "b # rest"] 1(3) by auto
    then have "\<forall>s \<in> set (dedup_names (b # rest)). ds_name a < ds_name s" using smaller by (auto intro: less_le_trans)
    then show ?thesis using False ih by (auto simp: less_imp_le)
  qed
qed simp_all

lemma discovered_sessions:
  assumes "discover_sessions_once parse read_list execute t tc executable = Inr sessions"
  shows "distinct (map ds_name sessions) \<and> (\<forall>s \<in> set sessions. valid_discovered_session s)"
proof -
  obtain listed where listed: "sessions = dedup_names (sort_key ds_name (filter (\<lambda>s. ds_running s \<and> valid_discovered_session s) listed))"
    using assms by (auto simp: discover_sessions_once_def and_then_def split: command_output.splits if_splits sum.splits option.splits)
  show ?thesis
    using dedup_names_sorted [of "sort_key ds_name (filter (\<lambda>s. ds_running s \<and> valid_discovered_session s) listed)"]
      dedup_names_set [of "sort_key ds_name (filter (\<lambda>s. ds_running s \<and> valid_discovered_session s) listed)"]
    unfolding listed by auto
qed

lemma first_discovery_from:
  "first_discovery once failures bins = Inr (sessions, binary) \<Longrightarrow> once binary = Inr sessions"
  by (induction bins arbitrary: failures) (auto split: sum.splits)

lemma discovered_targets:
  assumes "target_ok t" and "distinct (map ds_name ss)" and "\<forall>s \<in> set ss. valid_discovered_session s"
  shows "\<forall>u \<in> set (targets_for_discovered_sessions t ss). target_ok u \<and> tg_name u = tg_name t"
    and "distinct (map target_key (targets_for_discovered_sessions t ss))"
proof -
  show "\<forall>u \<in> set (targets_for_discovered_sessions t ss). target_ok u \<and> tg_name u = tg_name t"
    using assms(1,3)
    by (auto simp: targets_for_discovered_sessions_def target_ok_def valid_session_def valid_socket_def
        has_control_def valid_discovered_session_def starts_with_def)
  have "map target_key (targets_for_discovered_sessions t ss) = map (TargetSession (tg_name t)) (map ds_name ss)"
    by (simp add: targets_for_discovered_sessions_def target_key_def target_session_name_def unwrap_or_def)
  moreover have "inj_on (TargetSession (tg_name t)) A" for A by (simp add: inj_on_def)
  ultimately show "distinct (map target_key (targets_for_discovered_sessions t ss))"
    using assms(2) by (simp only: distinct_map simp_thms)
qed

lemma expanded_target:
  assumes "target_ok t"
  shows "(\<forall>u \<in> set (expand_discovered_target parse read_list execute in_time tc t). target_ok u \<and> tg_name u = tg_name t)
    \<and> distinct (map target_key (expand_discovered_target parse read_list execute in_time tc t))"
proof (cases "expand_discovered_target parse read_list execute in_time tc t = [t]")
  case False
  then obtain sessions binary where "first_discovery (discover_sessions_once parse read_list execute t tc) [] (tg_herdr_bins t) = Inr (sessions, binary)"
    "expand_discovered_target parse read_list execute in_time tc t = targets_for_discovered_sessions t sessions"
    by (auto simp: expand_discovered_target_def split: if_splits sum.splits)
  moreover from first_discovery_from [OF this(1)] have "distinct (map ds_name sessions) \<and> (\<forall>s \<in> set sessions. valid_discovered_session s)"
    by (rule discovered_sessions)
  ultimately show ?thesis using discovered_targets [OF assms, of sessions] by simp
qed (simp add: assms)

text \<open>
  C30. What a host says of its sessions keeps the configuration valid. When a configuration passed
  validation, then after discovery - whatever the hosts answer, in whatever order their listings
  come - every target still passes the rules of validation, and no two targets have the same
  identity, so that the federation state never merges two sessions.
\<close>

theorem discovery_keeps_identities:
  assumes "validate show_debug c = Inr ()"
  shows "(\<forall>t \<in> set (cf_targets (expand_discovered_sessions parse read_list execute in_time c)). target_ok t)
    \<and> distinct (map target_key (cf_targets (expand_discovered_sessions parse read_list execute in_time c)))"
proof -
  note expanded = expanded_target [where parse = parse and read_list = read_list and execute = execute and in_time = in_time and tc = "cf_transport c"]
  let ?x = "expand_discovered_target parse read_list execute in_time (cf_transport c)"
  have ok: "\<forall>t \<in> set (cf_targets c). target_ok t" "distinct (map tg_name (cf_targets c))"
    using validate_targets_of [OF assms] by simp_all
  have "distinct (map target_key (concat (map ?x ts)))"
    if "\<forall>t \<in> set ts. target_ok t" "distinct (map tg_name ts)" for ts
    using that
  proof (induction ts)
    case (Cons t ts)
    have "ts_target ` set (map target_key (?x t)) \<subseteq> {tg_name t}"
      using expanded [of t] Cons.prems(1) by (auto simp: target_key_def)
    moreover have "ts_target ` set (map target_key (concat (map ?x ts))) \<subseteq> set (map tg_name ts)"
    proof -
      have "tg_name u = tg_name w" if "w \<in> set ts" "u \<in> set (?x w)" for w u
        using expanded [of w] Cons.prems(1) that by (meson list.set_intros(2))
      then show ?thesis by (auto simp: target_key_def)
    qed
    ultimately have "set (map target_key (?x t)) \<inter> set (map target_key (concat (map ?x ts))) = {}"
      using Cons.prems(2) by (force simp del: set_map)
    moreover have "distinct (map target_key (?x t))" using expanded [of t] Cons.prems(1) by simp
    ultimately show ?case using Cons by simp
  qed simp
  moreover have "target_ok u" if "t \<in> set (cf_targets c)" "u \<in> set (?x t)" for t u
    using ok(1) expanded [of t] that by blast
  ultimately show ?thesis using ok by (auto simp: expand_discovered_sessions_def)
qed

section \<open>Requests to Herdr's socket\<close>

definition max_api_request_bytes :: nat where "max_api_request_bytes = 1024 * 1024"

definition max_socket_line :: nat where "max_socket_line = 1024 * 1024"

text \<open>One line off the socket: what was read up to and with the line feed, or up to the end.\<close>

definition read_socket_line :: "(u8 list \<Rightarrow> 'v option) \<Rightarrow> u8 list \<Rightarrow> snapshot_error + 'v" where
  "read_socket_line from_slice arrived =
     (let line = takeWhile (\<lambda>b. b \<noteq> 10) arrived @ (if 10 \<in> set arrived then [10] else [])
      in if line = [] then Inl (unavailable_error (lit ''Herdr socket closed''))
         else if length line > max_socket_line then Inl (unavailable_error (lit ''Herdr socket record exceeded size limit''))
         else ok_or (from_slice line) (unavailable_error (lit ''Herdr socket returned invalid JSON'')))"

definition request_id_text :: "ustring \<Rightarrow> u64 \<Rightarrow> ustring" where
  "request_id_text operation n = lit ''super-herdr:'' @ operation @ 58 # show_word n"

text \<open>
  A request on a connection of its own; \<open>exchange\<close> connects, writes the line and gives what comes
  back before the timeout.
\<close>

definition session_request ::
    "'v json \<Rightarrow> (u8 list \<Rightarrow> 'v option) \<Rightarrow> (ustring \<Rightarrow> ustring \<Rightarrow> 'v \<Rightarrow> u8 list option) \<Rightarrow>
     (u8 list \<Rightarrow> snapshot_error + u8 list) \<Rightarrow> ustring \<Rightarrow> 'v \<Rightarrow> u64 \<Rightarrow> u64 \<times> (snapshot_error + 'v)" where
  "session_request J from_slice to_vec exchange operation params n =
     (let n = saturating_add n 1; id = request_id_text operation n
      in (n, case to_vec id operation params of
           None \<Rightarrow> Inl (unavailable_error (lit ''failed to encode '' @ operation))
         | Some encoded \<Rightarrow>
             if length encoded + 1 > max_api_request_bytes
             then Inl (unavailable_error (operation @ lit '' exceeds Herdr'' @ 39 # lit ''s API request size limit''))
             else (case exchange (encoded @ [10]) of
                 Inl e \<Rightarrow> Inl e
               | Inr arrived \<Rightarrow> (case read_socket_line from_slice arrived of
                   Inl e \<Rightarrow> Inl e
                 | Inr response \<Rightarrow>
                     if optional_string J response (lit ''id'') \<noteq> Some id
                     then Inl (unavailable_error (lit ''Herdr returned an unexpected '' @ operation @ lit '' response''))
                     else if jv_get J response (lit ''error'') \<noteq> None
                     then Inl (unavailable_error (lit ''Herdr rejected '' @ operation @ lit '' (diagnostics redacted)''))
                     else ok_or (jv_get J response (lit ''result'')) (unavailable_error (operation @ lit '' returned no result''))))))"

text \<open>The stream of changes: records that are no events are passed over.\<close>

fun next_change :: "'v json \<Rightarrow> (snapshot_error + 'v) list \<Rightarrow> (snapshot_error + unit) option \<times> (snapshot_error + 'v) list" where
  "next_change J [] = (None, [])"
| "next_change J (Inl e # rest) = (Some (Inl e), rest)"
| "next_change J (Inr v # rest) =
     (if optional_string J v (lit ''event'') \<noteq> None then (Some (Inr ()), rest) else next_change J rest)"

text \<open>A request is answered only by a record that names it, and two requests never share a name.\<close>

lemma request_answered:
  assumes "session_request J from_slice to_vec exchange operation params n = (n', Inr v)"
  shows "\<exists>encoded arrived response. to_vec (request_id_text operation n') operation params = Some encoded
    \<and> length encoded < max_api_request_bytes \<and> exchange (encoded @ [10]) = Inr arrived
    \<and> read_socket_line from_slice arrived = Inr response
    \<and> optional_string J response (lit ''id'') = Some (request_id_text operation n') \<and> jv_get J response (lit ''result'') = Some v"
  using assms by (auto simp: session_request_def Let_def ok_or_def split: option.splits sum.splits if_splits)

lemma request_ids_differ: "request_id_text operation m = request_id_text operation n \<longleftrightarrow> m = n"
  by (auto simp: request_id_text_def show_word_def dest!: arg_cong [where f = parse_digits] simp: parse_digits_show word_unat_eq_iff)

section \<open>Pasting into a terminal\<close>

definition bracketed_paste_start :: "u8 list" where "bracketed_paste_start = [27, 91, 50, 48, 48, 126]"
definition bracketed_paste_end :: "u8 list" where "bracketed_paste_end = [27, 91, 50, 48, 49, 126]"

fun contains_bytes :: "u8 list \<Rightarrow> u8 list \<Rightarrow> bool" where
  "contains_bytes part [] \<longleftrightarrow> part = []"
| "contains_bytes part (b # bs) \<longleftrightarrow> starts_with part (b # bs) \<or> contains_bytes part bs"

definition terminal_paste_payload :: "u8 list \<Rightarrow> bool \<Rightarrow> u8 list result" where
  "terminal_paste_payload pasted bracketed =
     (if contains_bytes bracketed_paste_end pasted then Inl (lit ''clipboard text contains a bracketed-paste terminator'')
      else Inr (if bracketed then bracketed_paste_start @ pasted @ bracketed_paste_end else pasted))"

text \<open>The pasted text cannot end its own brackets: the first terminator is the one that was added.\<close>

lemma paste_contained:
  assumes "terminal_paste_payload pasted True = Inr payload"
  shows "\<exists>body. payload = bracketed_paste_start @ body \<and> body = pasted @ bracketed_paste_end
    \<and> (\<forall>before after. body = before @ bracketed_paste_end @ after \<longrightarrow> before = pasted \<and> after = [])"
proof -
  have clean: "\<not> contains_bytes bracketed_paste_end pasted" and payload: "payload = bracketed_paste_start @ pasted @ bracketed_paste_end"
    using assms by (auto simp: terminal_paste_payload_def split: if_splits)
  have "before = pasted \<and> after = []"
    if "\<not> contains_bytes bracketed_paste_end pasted" "pasted @ bracketed_paste_end = before @ bracketed_paste_end @ after"
    for pasted before after
    using that
  proof (induction pasted arbitrary: before)
    case Nil
    then show ?case by (cases before) (auto simp: bracketed_paste_end_def Cons_eq_append_conv)
  next
    case (Cons b pasted)
    show ?case
    proof (cases before)
      case Nil
      have "(b # pasted) @ bracketed_paste_end = bracketed_paste_end @ after" using Cons.prems(2) Nil by simp
      then have "starts_with bracketed_paste_end (b # pasted)"
        by (auto simp: starts_with_def bracketed_paste_end_def append_eq_Cons_conv Cons_eq_append_conv)
      then show ?thesis using Cons.prems(1) by simp
    next
      case (Cons c before')
      then show ?thesis using Cons.IH Cons.prems by simp
    qed
  qed
  with clean payload show ?thesis by blast
qed

section \<open>Witnesses\<close>

text \<open>A shell that reads quotes and backslashes.\<close>

datatype quoting = Bare | Single | Double

fun read_words :: "quoting \<Rightarrow> ustring option \<Rightarrow> ustring \<Rightarrow> ustring list" where
  "read_words q acc [] = (case acc of None \<Rightarrow> [] | Some w \<Rightarrow> [w])"
| "read_words Bare acc (c # s) =
     (if c = 32 then (case acc of None \<Rightarrow> read_words Bare None s | Some w \<Rightarrow> w # read_words Bare None s)
      else if c = 39 then read_words Single (Some (unwrap_or [] acc)) s
      else if c = 34 then read_words Double (Some (unwrap_or [] acc)) s
      else if c = 92 then (case s of [] \<Rightarrow> read_words Bare (Some (unwrap_or [] acc @ [c])) []
        | d # rest \<Rightarrow> read_words Bare (Some (unwrap_or [] acc @ [d])) rest)
      else read_words Bare (Some (unwrap_or [] acc @ [c])) s)"
| "read_words Single acc (c # s) =
     (if c = 39 then read_words Bare acc s else read_words Single (Some (unwrap_or [] acc @ [c])) s)"
| "read_words Double acc (c # s) =
     (if c = 34 then read_words Bare acc s else read_words Double (Some (unwrap_or [] acc @ [c])) s)"

lemma unwrap_or_None [simp]: "unwrap_or d None = d" by (simp add: unwrap_or_def)

lemma unwrap_or_Some [simp]: "unwrap_or d (Some x) = x" by (simp add: unwrap_or_def)

lemma read_words_single: "39 \<notin> set body \<Longrightarrow> read_words Single (Some w) (body @ 39 # s) = read_words Bare (Some (w @ body)) s"
  by (induction body arbitrary: w) auto

lemma read_words_double: "34 \<notin> set body \<Longrightarrow> read_words Double (Some w) (body @ 34 # s) = read_words Bare (Some (w @ body)) s"
  by (induction body arbitrary: w) auto

lemma read_words_spelled:
  "spelled q w \<Longrightarrow> read_words Bare acc (q @ rest) = read_words Bare (if q = [] then acc else Some (unwrap_or [] acc @ w)) rest"
proof (induction arbitrary: acc rule: spelled.induct)
  case (spelled_single body q w)
  then show ?case by (cases q) (auto simp: read_words_single elim: spelled.cases)
next
  case (spelled_double body q w)
  then show ?case by (cases q) (auto simp: read_words_double elim: spelled.cases)
next
  case (spelled_escaped c q w)
  then show ?case by (cases q) (auto elim: spelled.cases)
qed simp

lemma sample_shell: "posix_shell (read_words Bare None)"
proof -
  have "read_words Bare None (q @ []) = [w]" "read_words Bare None (q @ 32 # rest) = w # read_words Bare None rest"
    if "q \<noteq> []" "spelled q w" for q w rest
    using that by (simp_all only: read_words_spelled) simp_all
  then show ?thesis by (simp add: posix_shell_def)
qed

definition remote_host :: target where
  "remote_host = sample_target\<lparr>tg_ssh := Some (lit ''alpha.example''), tg_discover_sessions := True,
     tg_herdr_bins := [lit ''herdr2'', lit ''herdr'']\<rparr>"

definition sample_transport :: transport_config where
  "sample_transport = cf_transport sample_config"

theorem remote_runs_as_local_witness:
  "\<exists>options line. build_herdr_command remote_host sample_transport (lit ''herdr'') [lit ''pane'', [39, 36, 32]]
       = lit ''ssh'' # options @ [lit ''--'', lit ''alpha.example'', line]
     \<and> read_words Bare None line = [lit ''herdr'', lit ''pane'', [39, 36, 32]]"
proof -
  have "tg_ssh remote_host = Some (lit ''alpha.example'')" by (simp add: remote_host_def)
  from remote_runs_as_local [OF sample_shell this, of sample_transport "lit ''herdr''" "[lit ''pane'', [39, 36, 32]]" "[]"]
  show ?thesis
    by (simp add: build_herdr_command_def [of "_\<lparr>tg_ssh := None\<rparr>"] session_args_def)
      (simp add: remote_host_def sample_target_def sample_transport_def sample_config_def)
qed

text \<open>The newer binary does not speak the host's protocol; the older one does.\<close>

definition sample_output :: "ustring list \<Rightarrow> command_output" where
  "sample_output argv = (if contains_str (lit ''herdr2'') (last argv) then Exited False [] [110] else Exited True [] [111])"

definition sample_parse :: "ustring \<Rightarrow> document option" where
  "sample_parse line = Some (if line = [110]
     then DocObject [(lit ''error'', DocObject [(lit ''code'', DocString (lit ''protocol_mismatch''))])]
     else DocObject [(lit ''result'', DocObject [(lit ''snapshot'', DocNumber 7)])])"

theorem snapshot_from_first_speaker_witness:
  "collect_snapshot document_json sample_parse (\<lambda>_. []) id sample_output remote_host sample_transport = Inr (DocNumber 7, lit ''herdr'')"
proof -
  have "case collect_snapshot_once document_json sample_parse (\<lambda>_. []) id sample_output remote_host sample_transport (lit ''herdr2'') of
      Inl f \<Rightarrow> af_protocol_mismatch f | Inr _ \<Rightarrow> False"
    by code_simp
  then have "\<exists>f. collect_snapshot_once document_json sample_parse (\<lambda>_. []) id sample_output remote_host sample_transport (lit ''herdr2'') = Inl f
      \<and> af_protocol_mismatch f"
    by (auto split: sum.splits)
  moreover have "collect_snapshot_once document_json sample_parse (\<lambda>_. []) id sample_output remote_host sample_transport (lit ''herdr'') = Inr (DocNumber 7)"
    by code_simp
  moreover have "tg_herdr_bins remote_host = [lit ''herdr2''] @ lit ''herdr'' # []" by (simp add: remote_host_def)
  ultimately show ?thesis
    by (intro iffD2 [OF conjunct1 [OF snapshot_from_first_speaker]] exI [of _ "[lit ''herdr2'']"] exI [of _ "[]"]) auto
qed

definition sample_listing :: "document \<Rightarrow> discovered_session list option" where
  "sample_listing v = Some [\<lparr>ds_name = lit ''work'', ds_running = True, ds_session_dir = [], ds_socket_path = lit ''/run/work''\<rparr>,
     \<lparr>ds_name = lit ''play'', ds_running = True, ds_session_dir = [], ds_socket_path = lit ''/run/play''\<rparr>,
     \<lparr>ds_name = lit ''work'', ds_running = True, ds_session_dir = [], ds_socket_path = lit ''/run/other''\<rparr>]"

definition sample_sessions :: "discovered_session list" where
  "sample_sessions = [\<lparr>ds_name = lit ''play'', ds_running = True, ds_session_dir = [], ds_socket_path = lit ''/run/play''\<rparr>,
     \<lparr>ds_name = lit ''work'', ds_running = True, ds_session_dir = [], ds_socket_path = lit ''/run/work''\<rparr>]"

definition discovering :: config where
  "discovering = sample_config\<lparr>cf_targets := [sample_target\<lparr>tg_discover_sessions := True\<rparr>]\<rparr>"

theorem discovery_keeps_identities_witness:
  "map ts_session (map target_key (cf_targets (expand_discovered_sessions sample_parse sample_listing sample_output (\<lambda>_. True) discovering)))
     = [lit ''play'', lit ''work'']
   \<and> distinct (map target_key (cf_targets (expand_discovered_sessions sample_parse sample_listing sample_output (\<lambda>_. True) discovering)))"
proof -
  have "validate id discovering = Inr ()"
    using sample_config_valid [of id] by (simp add: discovering_def sample_config_def validate_def validate_target_ok target_ok_def)
  moreover have "map ts_session (map target_key (cf_targets (expand_discovered_sessions sample_parse sample_listing sample_output (\<lambda>_. True) discovering)))
     = [lit ''play'', lit ''work'']"
  proof -
    have "sample_output (build_herdr_command (t\<lparr>tg_session := None, tg_socket := None\<rparr>) sample_transport (lit ''herdr'')
        [lit ''session'', lit ''list'', lit ''--json'']) = Exited True [] [111]" if "tg_ssh t = None" for t
      using that by (simp add: build_herdr_command_def session_args_def sample_output_def lit_def strip_prefix_def)
    moreover have "is_ok (parse_last_json sample_parse (from_utf8_lossy [111]))" by code_simp
    moreover have "dedup_names (sort_key ds_name (filter (\<lambda>s. ds_running s \<and> valid_discovered_session s) (the (sample_listing v)))) = sample_sessions" for v
      unfolding sample_listing_def option.sel by code_simp
    ultimately have "discover_sessions_once sample_parse sample_listing sample_output t sample_transport (lit ''herdr'') = Inr sample_sessions"
      if "tg_ssh t = None" for t
      using that by (simp add: discover_sessions_once_def and_then_def is_ok_def sample_listing_def split: sum.splits del: filter.simps)
    then have "expand_discovered_target sample_parse sample_listing sample_output (\<lambda>_. True) sample_transport (sample_target\<lparr>tg_discover_sessions := True\<rparr>)
      = targets_for_discovered_sessions (sample_target\<lparr>tg_discover_sessions := True\<rparr>) sample_sessions"
      by (simp add: expand_discovered_target_def sample_target_def)
    then show ?thesis
      by (simp add: expand_discovered_sessions_def discovering_def sample_transport_def [symmetric] targets_for_discovered_sessions_def
          sample_sessions_def target_key_def target_session_name_def)
  qed
  ultimately show ?thesis using discovery_keeps_identities by blast
qed

end
