(* ===== verification/Plugins.thy ===== *)
theory Plugins
  imports Transport Protocol
begin

text \<open>
  Plugins of a host (\<open>src/src/plugin.rs\<close>) and what a Herdr can do at all
  (\<open>src/src/herdr_support.rs\<close>): the registries that are read, the context an action is invoked
  with, and the run it starts. A Herdr session is a state and how it answers a request.
\<close>

section \<open>What a Herdr supports\<close>

datatype herdr_feature = PluginActions

definition tested_protocol :: u64 where "tested_protocol = 20"

definition feature_capability :: "herdr_feature \<Rightarrow> ustring" where
  "feature_capability f = (case f of PluginActions \<Rightarrow> lit ''plugins'')"

definition first_protocol :: "herdr_feature \<Rightarrow> u64" where
  "first_protocol f = (case f of PluginActions \<Rightarrow> 20)"

definition herdr_features :: "herdr_feature list" where "herdr_features = [PluginActions]"

definition supports_protocol :: "u64 \<Rightarrow> herdr_feature \<Rightarrow> bool" where
  "supports_protocol protocol f \<longleftrightarrow> protocol \<ge> first_protocol f"

definition herdr_supports :: "normalized_snapshot option \<Rightarrow> herdr_feature \<Rightarrow> bool" where
  "herdr_supports snapshot f = (case snapshot of
     None \<Rightarrow> False
   | Some s \<Rightarrow> bs_mem (feature_capability f) (ns_capabilities s)
       \<or> (case ns_protocol s of None \<Rightarrow> False | Some protocol \<Rightarrow> supports_protocol protocol f))"

datatype protocol_standing = StandingUnknown | StandingLimited | StandingTested | StandingNewer

definition lowest_gate :: u64 where
  "lowest_gate = (case map first_protocol herdr_features of [] \<Rightarrow> 0 | p # ps \<Rightarrow> fold min ps p)"

definition herdr_standing :: "u64 option \<Rightarrow> protocol_standing" where
  "herdr_standing protocol = (case protocol of
     None \<Rightarrow> StandingUnknown
   | Some p \<Rightarrow> if p < lowest_gate then StandingLimited else if p > tested_protocol then StandingNewer else StandingTested)"

text \<open>A host whose protocol stands tested or newer supports every feature; a limited one that
  names no capabilities lacks one.\<close>

lemma standing_supports:
  "ns_protocol s = Some p \<Longrightarrow> herdr_standing (Some p) \<in> {StandingTested, StandingNewer} \<Longrightarrow> herdr_supports (Some s) f"
  "ns_protocol s = Some p \<Longrightarrow> ns_capabilities s = bt_empty \<Longrightarrow> herdr_standing (Some p) = StandingLimited \<Longrightarrow> \<not> herdr_supports (Some s) f"
  by (cases f; auto simp: herdr_supports_def supports_protocol_def herdr_standing_def lowest_gate_def herdr_features_def first_protocol_def
      tested_protocol_def split: if_splits)+

section \<open>The registry of actions\<close>

definition max_plugin_actions :: nat where "max_plugin_actions = 512"
definition max_plugin_runs :: nat where "max_plugin_runs = 64"

record listed_action =
  la_plugin_id :: ustring
  la_action_id :: ustring
  la_title :: ustring
  la_description :: "ustring option"
  la_contexts :: "ustring list"

record action_list =
  al_kind :: ustring
  al_actions :: "listed_action list"

definition context_named :: "ustring \<Rightarrow> plugin_action_context" where
  "context_named name =
     (if name = lit ''global'' then GlobalContext
      else if name = lit ''workspace'' then WorkspaceContext
      else if name = lit ''tab'' then TabContext
      else if name = lit ''pane'' then PaneContext
      else if name = lit ''selection'' then SelectionContext
      else UnsupportedContext)"

text \<open>\<open>listed\<close> is the value read as an action list, if it is one.\<close>

definition parse_action_list :: "target_session \<Rightarrow> action_list option \<Rightarrow> snapshot_error + plugin_action list" where
  "parse_action_list t listed = (case listed of
     None \<Rightarrow> Inl (unavailable_error (lit ''Herdr returned an invalid plugin action registry''))
   | Some l \<Rightarrow>
       if al_kind l \<noteq> lit ''plugin_action_list''
       then Inl (unavailable_error (lit ''Herdr returned an unexpected plugin action response''))
       else if length (al_actions l) > max_plugin_actions
       then Inl (unavailable_error (lit ''Herdr returned more than '' @ show_nat max_plugin_actions @ lit '' plugin actions''))
       else Inr (map (\<lambda>a. \<lparr>pg_id = \<lparr>pi_target = t, pi_plugin_id = la_plugin_id a, pi_action_id = la_action_id a\<rparr>,
           pg_title = la_title a, pg_description = la_description a, pg_contexts = map context_named (la_contexts a)\<rparr>) (al_actions l)))"

lemma parsed_actions:
  assumes "parse_action_list t listed = Inr actions"
  shows "length actions \<le> 512 \<and> (\<forall>a \<in> set actions. pi_target (pg_id a) = t)"
  using assms by (auto simp: parse_action_list_def max_plugin_actions_def split: option.splits if_splits)

text \<open>An action of a newer Herdr with a context that is not known is never taken for a global one.\<close>

lemma unknown_context_hidden:
  assumes "la_contexts a \<noteq> []" and "lit ''global'' \<notin> set (la_contexts a)"
  shows "\<not> plugin_supports \<lparr>pg_id = i, pg_title = ti, pg_description = d, pg_contexts = map context_named (la_contexts a)\<rparr> GlobalContext"
  using assms by (auto simp: plugin_supports_def context_named_def split: if_splits)

section \<open>Requests that can fail\<close>

datatype ('v, 'c) plugin_request =
    PaneGet ustring
  | PaneCurrent
  | TabGet ustring
  | WorkspaceGet ustring
  | PaneList ustring
  | ActionInvoke ustring ustring 'c
  | LogList ustring nat

type_synonym ('s, 'v, 'c) plugin_api = "'s \<Rightarrow> ('v, 'c) plugin_request \<Rightarrow> 's \<times> (snapshot_error + 'v)"

definition then_ok :: "'s \<times> (snapshot_error + 'a) \<Rightarrow> ('s \<Rightarrow> 'a \<Rightarrow> 's \<times> (snapshot_error + 'b)) \<Rightarrow> 's \<times> (snapshot_error + 'b)" where
  "then_ok m f = (case m of (s, Inl e) \<Rightarrow> (s, Inl e) | (s, Inr x) \<Rightarrow> f s x)"

lemma then_ok_simps [simp]: "then_ok (s, Inl e) f = (s, Inl e)" "then_ok (s, Inr x) f = f s x"
  by (simp_all add: then_ok_def)

lemma then_ok_Inr: "then_ok m f = (s, Inr y) \<longleftrightarrow> (\<exists>s' x. m = (s', Inr x) \<and> f s' x = (s, Inr y))"
  by (auto simp: then_ok_def split: prod.splits sum.splits)

definition check :: "bool \<Rightarrow> ustring \<Rightarrow> snapshot_error + unit" where
  "check ok message = (if ok then Inr () else Inl (unavailable_error message))"

lemma check_ok [simp]: "check ok message = Inr x \<longleftrightarrow> ok"
  by (simp add: check_def)

section \<open>The context of an invocation\<close>

text \<open>An object that a response of the expected type carries under a field.\<close>

definition response_object :: "'v json \<Rightarrow> 'v \<Rightarrow> ustring \<Rightarrow> ustring \<Rightarrow> snapshot_error + 'v" where
  "response_object J response expected field =
     (if optional_string J response (lit ''type'') \<noteq> Some expected
      then Inl (unavailable_error (lit ''Herdr returned an unexpected '' @ expected @ lit '' response''))
      else (case jv_get J response field of
          Some v \<Rightarrow> if jv_object J v \<noteq> None then Inr v else Inl (unavailable_error (lit ''Herdr returned invalid '' @ expected @ lit '' data''))
        | None \<Rightarrow> Inl (unavailable_error (lit ''Herdr returned invalid '' @ expected @ lit '' data''))))"

definition asked_object ::
    "'v json \<Rightarrow> ('s, 'v, 'c) plugin_api \<Rightarrow> 's \<Rightarrow> ('v, 'c) plugin_request \<Rightarrow> ustring \<Rightarrow> ustring \<Rightarrow> 's \<times> (snapshot_error + 'v option)" where
  "asked_object J api s request expected field =
     then_ok (api s request) (\<lambda>s response. (s, case response_object J response expected field of Inl e \<Rightarrow> Inl e | Inr v \<Rightarrow> Inr (Some v)))"

definition string_ref :: "'v json \<Rightarrow> 'v option \<Rightarrow> string \<Rightarrow> ustring option" where
  "string_ref J v field = Option.bind v (\<lambda>v. optional_string J v (lit field))"

definition ensure_requested :: "string \<Rightarrow> ustring option \<Rightarrow> ustring option \<Rightarrow> snapshot_error + unit" where
  "ensure_requested resource requested returned =
     check (\<not> (requested \<noteq> None \<and> returned \<noteq> requested))
       (lit ''Herdr returned a different '' @ lit resource @ lit '' while building plugin context'')"

text \<open>The pane of a workspace that stands for a tab: the focused one, or else the first.\<close>

definition in_tab :: "'v json \<Rightarrow> ustring option \<Rightarrow> 'v \<Rightarrow> bool" where
  "in_tab J tab_id v = (case tab_id of None \<Rightarrow> True | Some t \<Rightarrow> optional_string J v (lit ''tab_id'') = Some t)"

definition listed_pane :: "'v json \<Rightarrow> ustring option \<Rightarrow> 'v \<Rightarrow> 'v option" where
  "listed_pane J tab_id listed = (let panes = json_collection J listed (lit ''panes'')
     in Option.bind (or_else (find (\<lambda>v. unwrap_or False (optional_bool J v (lit ''focused''))) (filter (in_tab J tab_id) panes))
            (find (in_tab J tab_id) panes))
          (\<lambda>v. if jv_object J v \<noteq> None then Some v else None))"

record 'v hydrated =
  hy_workspace_id :: "ustring option"
  hy_workspace :: "'v option"
  hy_tab_id :: "ustring option"
  hy_tab :: "'v option"
  hy_pane :: "'v option"

definition pane_for :: "'v json \<Rightarrow> ('s, 'v, 'c) plugin_api \<Rightarrow> 's \<Rightarrow> 'v option \<Rightarrow> ustring option \<Rightarrow> ustring option \<Rightarrow> 's \<times> (snapshot_error + 'v option)" where
  "pane_for J api s pane workspace_id tab_id = (case (pane, workspace_id) of
     (None, Some w) \<Rightarrow> then_ok (api s (PaneList w)) (\<lambda>s listed.
       (s, if optional_string J listed (lit ''type'') \<noteq> Some (lit ''pane_list'')
         then Inl (unavailable_error (lit ''Herdr returned an unexpected pane list while building plugin context''))
         else Inr (listed_pane J tab_id listed)))
   | _ \<Rightarrow> (s, Inr pane))"

text \<open>The checks that end the chain, in their order.\<close>

definition checked_chain :: "'v json \<Rightarrow> ustring option \<Rightarrow> 'v hydrated \<Rightarrow> snapshot_error + 'v hydrated" where
  "checked_chain J requested_pane h =
     and_then (ensure_requested ''pane'' requested_pane (string_ref J (hy_pane h) ''pane_id'')) (\<lambda>_.
     and_then (ensure_requested ''tab'' (hy_tab_id h) (string_ref J (hy_tab h) ''tab_id'')) (\<lambda>_.
     and_then (ensure_requested ''workspace'' (hy_workspace_id h) (string_ref J (hy_workspace h) ''workspace_id'')) (\<lambda>_.
     and_then (check (\<not> (hy_workspace_id h \<noteq> None \<and> hy_pane h = None)) (lit ''Herdr returned no pane in the selected plugin context'')) (\<lambda>_.
       Inr h))))"

text \<open>The chain of workspace, tab and pane that is asked for, from what was requested.\<close>

definition hydrate :: "'v json \<Rightarrow> ('s, 'v, 'c) plugin_api \<Rightarrow> 's \<Rightarrow> plugin_invocation_target \<Rightarrow> 's \<times> (snapshot_error + 'v hydrated)" where
  "hydrate J api s t =
     (let requested_pane = (case t of InvokePane pane \<Rightarrow> Some (server_local_id pane) | _ \<Rightarrow> None);
          requested_tab = (case t of InvokeTab tab \<Rightarrow> Some (server_local_id tab) | _ \<Rightarrow> None);
          requested_workspace = (case t of InvokeWorkspace workspace \<Rightarrow> Some (server_local_id workspace) | _ \<Rightarrow> None)
      in then_ok (case t of
             InvokePane pane \<Rightarrow> asked_object J api s (PaneGet (server_local_id pane)) (lit ''pane_info'') (lit ''pane'')
           | InvokeSession _ \<Rightarrow> asked_object J api s PaneCurrent (lit ''pane_current'') (lit ''pane'')
           | _ \<Rightarrow> (s, Inr None)) (\<lambda>s pane.
         let tab_id = or_else requested_tab (string_ref J pane ''tab_id'');
             workspace_id = or_else requested_workspace (string_ref J pane ''workspace_id'')
         in then_ok (case tab_id of Some tab \<Rightarrow> asked_object J api s (TabGet tab) (lit ''tab_info'') (lit ''tab'') | None \<Rightarrow> (s, Inr None)) (\<lambda>s tab.
           let workspace_id = or_else workspace_id (string_ref J tab ''workspace_id'')
           in then_ok (case workspace_id of Some w \<Rightarrow> asked_object J api s (WorkspaceGet w) (lit ''workspace_info'') (lit ''workspace'')
               | None \<Rightarrow> (s, Inr None)) (\<lambda>s workspace.
             let active = (if tab_id = None then string_ref J workspace ''active_tab_id'' else None)
             in then_ok (case active of Some a \<Rightarrow> asked_object J api s (TabGet a) (lit ''tab_info'') (lit ''tab'') | None \<Rightarrow> (s, Inr tab)) (\<lambda>s tab.
               let tab_id = or_else tab_id active
               in then_ok (pane_for J api s pane workspace_id tab_id) (\<lambda>s pane.
                 (s, checked_chain J requested_pane \<lparr>hy_workspace_id = workspace_id, hy_workspace = workspace,
                   hy_tab_id = tab_id, hy_tab = tab, hy_pane = pane\<rparr>)))))))"

text \<open>What is sent with an invocation.\<close>

record 'v plugin_context =
  pc_workspace_id :: "ustring option"
  pc_workspace_label :: "ustring option"
  pc_workspace_cwd :: "ustring option"
  pc_worktree :: "'v option"
  pc_tab_id :: "ustring option"
  pc_tab_label :: "ustring option"
  pc_focused_pane_id :: "ustring option"
  pc_focused_pane_cwd :: "ustring option"
  pc_focused_pane_agent :: "ustring option"
  pc_focused_pane_status :: "'v option"
  pc_invocation_source :: ustring
  pc_selected_text :: ustring
  pc_clicked_url :: ustring
  pc_link_handler_id :: ustring

definition not_null :: "'v json \<Rightarrow> 'v option \<Rightarrow> string \<Rightarrow> 'v option" where
  "not_null J v field = Option.bind (Option.bind v (\<lambda>v. jv_get J v (lit field))) (\<lambda>x. if jv_is_null J x then None else Some x)"

definition context_of :: "'v json \<Rightarrow> 'v hydrated \<Rightarrow> 'v plugin_context" where
  "context_of J h =
     (let pane_cwd = or_else (string_ref J (hy_pane h) ''foreground_cwd'') (string_ref J (hy_pane h) ''cwd'');
          worktree = not_null J (hy_workspace h) ''worktree''
      in \<lparr>pc_workspace_id = hy_workspace_id h, pc_workspace_label = string_ref J (hy_workspace h) ''label'',
          pc_workspace_cwd = or_else (string_ref J worktree ''checkout_path'') pane_cwd, pc_worktree = worktree,
          pc_tab_id = hy_tab_id h, pc_tab_label = string_ref J (hy_tab h) ''label'',
          pc_focused_pane_id = string_ref J (hy_pane h) ''pane_id'', pc_focused_pane_cwd = pane_cwd,
          pc_focused_pane_agent = or_else (string_ref J (hy_pane h) ''display_agent'') (string_ref J (hy_pane h) ''agent''),
          pc_focused_pane_status = not_null J (hy_pane h) ''agent_status'',
          pc_invocation_source = lit ''super-herdr'', pc_selected_text = [], pc_clicked_url = [], pc_link_handler_id = []\<rparr>)"

section \<open>Invoking an action and following its run\<close>

record command_log =
  cl_log_id :: ustring
  cl_plugin_id :: ustring
  cl_action_id :: "ustring option"
  cl_status :: plugin_run_status

record command_log_list =
  ll_kind :: ustring
  ll_logs :: "command_log list"

definition qualify_run :: "target_session \<Rightarrow> command_log \<Rightarrow> plugin_run" where
  "qualify_run t log = \<lparr>px_id = \<lparr>pr_target = t, pr_plugin_id = cl_plugin_id log, pr_log_id = cl_log_id log\<rparr>,
     px_action_id = cl_action_id log, px_status = cl_status log\<rparr>"

definition started_run :: "'v json \<Rightarrow> ('v \<Rightarrow> command_log option) \<Rightarrow> plugin_action_id \<Rightarrow> 'v \<Rightarrow> snapshot_error + plugin_run" where
  "started_run J read_log action result =
     (if optional_string J result (lit ''type'') \<noteq> Some (lit ''plugin_action_invoked'')
      then Inl (unavailable_error (lit ''Herdr returned an unexpected plugin action result''))
      else (case jv_get J result (lit ''log'') of
          None \<Rightarrow> Inl (unavailable_error (lit ''Herdr returned no plugin action run''))
        | Some v \<Rightarrow> (case read_log v of
            None \<Rightarrow> Inl (unavailable_error (lit ''Herdr returned an invalid plugin action run''))
          | Some log \<Rightarrow>
              (let run = qualify_run (pi_target action) log
               in if pr_plugin_id (px_id run) \<noteq> pi_plugin_id action \<or> px_action_id run \<noteq> Some (pi_action_id action)
                  then Inl (unavailable_error (lit ''Herdr returned a different plugin action run''))
                  else Inr run))))"

definition invoke_action ::
    "'v json \<Rightarrow> ('v \<Rightarrow> command_log option) \<Rightarrow> ('s, 'v, 'v plugin_context) plugin_api \<Rightarrow> 's \<Rightarrow>
     plugin_action_id \<Rightarrow> plugin_invocation_target \<Rightarrow> 's \<times> (snapshot_error + plugin_run)" where
  "invoke_action J read_log api s action t =
     (if pi_target action \<noteq> invocation_session t
      then (s, Inl (unavailable_error (lit ''plugin action and invocation context belong to different Herdr sessions'')))
      else then_ok (hydrate J api s t) (\<lambda>s h.
        then_ok (api s (ActionInvoke (pi_plugin_id action) (pi_action_id action) (context_of J h))) (\<lambda>s result.
          (s, started_run J read_log action result))))"

lemma started_run_named:
  "started_run J read_log action result = Inr run \<Longrightarrow> pr_target (px_id run) = pi_target action
     \<and> pr_plugin_id (px_id run) = pi_plugin_id action \<and> px_action_id run = Some (pi_action_id action)"
  by (auto simp: started_run_def Let_def qualify_run_def split: option.split_asm if_split_asm)

definition run_status ::
    "('v \<Rightarrow> command_log_list option) \<Rightarrow> ('s, 'v, 'c) plugin_api \<Rightarrow> 's \<Rightarrow> plugin_run_id \<Rightarrow> 's \<times> (snapshot_error + plugin_run)" where
  "run_status read_logs api s r =
     then_ok (api s (LogList (pr_plugin_id r) max_plugin_runs)) (\<lambda>s listed.
       (s, case read_logs listed of
            None \<Rightarrow> Inl (unavailable_error (lit ''Herdr returned invalid plugin run state''))
          | Some l \<Rightarrow>
              if ll_kind l \<noteq> lit ''plugin_log_list'' then Inl (unavailable_error (lit ''Herdr returned an unexpected plugin run response''))
              else (case find (\<lambda>log. cl_log_id log = pr_log_id r \<and> cl_plugin_id log = pr_plugin_id r) (ll_logs l) of
                  Some log \<Rightarrow> Inr (qualify_run (pr_target r) log)
                | None \<Rightarrow> Inl (unavailable_error (lit ''Herdr no longer has that plugin run'')))))"

text \<open>The status of a run is the status of that very run.\<close>

lemma find_hit: "find P xs = Some x \<Longrightarrow> x \<in> set xs \<and> P x"
  by (auto simp: find_Some_iff)

lemma run_status_same:
  assumes "run_status read_logs api s r = (s', Inr x)"
  shows "px_id x = r"
proof -
  obtain v where "(case read_logs v of
            None \<Rightarrow> Inl (unavailable_error (lit ''Herdr returned invalid plugin run state''))
          | Some l \<Rightarrow>
              if ll_kind l \<noteq> lit ''plugin_log_list'' then Inl (unavailable_error (lit ''Herdr returned an unexpected plugin run response''))
              else (case find (\<lambda>log. cl_log_id log = pr_log_id r \<and> cl_plugin_id log = pr_plugin_id r) (ll_logs l) of
                  Some log \<Rightarrow> Inr (qualify_run (pr_target r) log)
                | None \<Rightarrow> Inl (unavailable_error (lit ''Herdr no longer has that plugin run'')))) = Inr x"
    using assms unfolding run_status_def then_ok_Inr by auto
  then show ?thesis by (auto simp: qualify_run_def split: option.split_asm if_split_asm dest!: find_hit)
qed

section \<open>The chain belongs together\<close>

text \<open>What was requested is what was found, each part is the part its identifier names, and the pane is in the tab.\<close>

definition chain_ok :: "'v json \<Rightarrow> plugin_invocation_target \<Rightarrow> 'v hydrated \<Rightarrow> bool" where
  "chain_ok J t h \<longleftrightarrow>
     (\<forall>pane. t = InvokePane pane \<longrightarrow> string_ref J (hy_pane h) ''pane_id'' = Some (server_local_id pane))
     \<and> (\<forall>tab. t = InvokeTab tab \<longrightarrow> hy_tab_id h = Some (server_local_id tab))
     \<and> (\<forall>workspace. t = InvokeWorkspace workspace \<longrightarrow> hy_workspace_id h = Some (server_local_id workspace))
     \<and> (\<forall>x. hy_tab_id h = Some x \<longrightarrow> string_ref J (hy_tab h) ''tab_id'' = Some x)
     \<and> (\<forall>w. hy_workspace_id h = Some w \<longrightarrow> string_ref J (hy_workspace h) ''workspace_id'' = Some w \<and> hy_pane h \<noteq> None)
     \<and> (\<forall>x y. hy_tab_id h = Some x \<longrightarrow> string_ref J (hy_pane h) ''tab_id'' = Some y \<longrightarrow> x = y)"

lemma listed_pane_in_tab: "listed_pane J (Some x) listed = Some v \<Longrightarrow> optional_string J v (lit ''tab_id'') = Some x"
  by (auto simp: listed_pane_def Let_def or_else_def in_tab_def bind_eq_Some_conv
      split: option.splits if_splits dest!: find_hit)

lemma checked_chain_ok:
  "checked_chain J requested_pane h = Inr h' \<longleftrightarrow> h' = h
     \<and> (\<forall>x. requested_pane = Some x \<longrightarrow> string_ref J (hy_pane h) ''pane_id'' = Some x)
     \<and> (\<forall>x. hy_tab_id h = Some x \<longrightarrow> string_ref J (hy_tab h) ''tab_id'' = Some x)
     \<and> (\<forall>w. hy_workspace_id h = Some w \<longrightarrow> string_ref J (hy_workspace h) ''workspace_id'' = Some w \<and> hy_pane h \<noteq> None)"
proof -
  have ensured: "ensure_requested resource requested returned = Inr x \<longleftrightarrow> (\<forall>r. requested = Some r \<longrightarrow> returned = Some r)" for resource requested returned x
    by (cases requested) (auto simp: ensure_requested_def)
  have step: "and_then a f = Inr y \<longleftrightarrow> (\<exists>x. a = Inr x \<and> f x = Inr y)" for a :: "'e + 'x" and f :: "'x \<Rightarrow> 'e + 'y" and y
    by (cases a) (auto simp: and_then_def)
  show ?thesis by (auto simp: checked_chain_def step ensured)
qed

lemma pane_for_found:
  assumes "pane_for J api s pane workspace_id tab_id = (s', Inr found)"
  shows "found = pane \<or> (pane = None \<and> (\<forall>v x. found = Some v \<longrightarrow> tab_id = Some x \<longrightarrow> optional_string J v (lit ''tab_id'') = Some x))"
  using assms by (cases pane; cases workspace_id) (auto simp: pane_for_def then_ok_Inr dest: listed_pane_in_tab split: if_split_asm)

lemma hydrate_chain:
  assumes "hydrate J api s t = (s', Inr h)"
  shows "chain_ok J t h"
proof -
  define requested_pane where "requested_pane = (case t of InvokePane pane \<Rightarrow> Some (server_local_id pane) | _ \<Rightarrow> None)"
  define requested_tab where "requested_tab = (case t of InvokeTab tab \<Rightarrow> Some (server_local_id tab) | _ \<Rightarrow> None)"
  define requested_workspace where "requested_workspace = (case t of InvokeWorkspace workspace \<Rightarrow> Some (server_local_id workspace) | _ \<Rightarrow> None)"
  define first where "first = (case t of
             InvokePane pane \<Rightarrow> asked_object J api s (PaneGet (server_local_id pane)) (lit ''pane_info'') (lit ''pane'')
           | InvokeSession _ \<Rightarrow> asked_object J api s PaneCurrent (lit ''pane_current'') (lit ''pane'')
           | _ \<Rightarrow> (s, Inr None))"
  obtain s1 pane tab0 workspace s2 s3 pane' active tab where first: "first = (s1, Inr pane)"
    and found: "pane_for J api s2 pane (or_else (or_else requested_workspace (string_ref J pane ''workspace_id'')) (string_ref J tab0 ''workspace_id''))
      (or_else (or_else requested_tab (string_ref J pane ''tab_id'')) active) = (s3, Inr pane')"
    and chain: "checked_chain J requested_pane \<lparr>
      hy_workspace_id = or_else (or_else requested_workspace (string_ref J pane ''workspace_id'')) (string_ref J tab0 ''workspace_id''),
      hy_workspace = workspace, hy_tab_id = or_else (or_else requested_tab (string_ref J pane ''tab_id'')) active, hy_tab = tab, hy_pane = pane'\<rparr> = Inr h"
    using assms unfolding hydrate_def Let_def then_ok_Inr requested_pane_def [symmetric] requested_tab_def [symmetric] requested_workspace_def [symmetric]
      first_def [symmetric]
    by (elim exE conjE Pair_inject) (rule that)
  note h = chain [unfolded checked_chain_ok]
  have tab_id: "hy_tab_id h = or_else (or_else requested_tab (string_ref J pane ''tab_id'')) active" and pane': "hy_pane h = pane'"
    and workspace_id: "hy_workspace_id h = or_else (or_else requested_workspace (string_ref J pane ''workspace_id'')) (string_ref J tab0 ''workspace_id'')"
    using h by simp_all
  have none: "pane = None" if "requested_tab \<noteq> None"
    using that first by (auto simp: first_def requested_tab_def split: plugin_invocation_target.splits)
  have "x = y" if "hy_tab_id h = Some x" "string_ref J (hy_pane h) ''tab_id'' = Some y" for x y
    using pane_for_found [OF found]
  proof
    assume "pane' = pane"
    then show ?thesis using none that by (cases requested_tab) (auto simp: tab_id pane' or_else_def string_ref_def)
  next
    assume "pane = None \<and> (\<forall>v x. pane' = Some v \<longrightarrow> or_else (or_else requested_tab (string_ref J pane ''tab_id'')) active = Some x
      \<longrightarrow> optional_string J v (lit ''tab_id'') = Some x)"
    then show ?thesis using that by (auto simp: tab_id pane' string_ref_def bind_eq_Some_conv)
  qed
  moreover have "hy_tab_id h = Some r" if "requested_tab = Some r" for r using that by (simp add: tab_id or_else_def)
  moreover have "hy_workspace_id h = Some r" if "requested_workspace = Some r" for r using that by (simp add: workspace_id or_else_def)
  ultimately show ?thesis
    using h unfolding chain_ok_def requested_pane_def requested_tab_def requested_workspace_def
    by (cases t) simp_all
qed


section \<open>Witnesses\<close>

definition clicked_pane :: pane_id where
  "clicked_pane = QualifiedId (lit ''alpha'') (lit ''dev'') (lit ''p'')"

definition clicked_object :: document where
  "clicked_object = DocObject [(lit ''pane_id'', DocString (lit ''p''))]"

definition clicked_action :: plugin_action_id where
  "clicked_action = \<lparr>pi_target = TargetSession (lit ''alpha'') (lit ''dev''), pi_plugin_id = lit ''review'', pi_action_id = lit ''run''\<rparr>"

definition sample_api :: "(nat, document, document plugin_context) plugin_api" where
  "sample_api n request = (n + 1, case request of
     PaneGet _ \<Rightarrow> Inr (DocObject [(lit ''type'', DocString (lit ''pane_info'')), (lit ''pane'', clicked_object)])
   | ActionInvoke _ _ _ \<Rightarrow> Inr (DocObject [(lit ''type'', DocString (lit ''plugin_action_invoked'')), (lit ''log'', DocNull)])
   | _ \<Rightarrow> Inl (unavailable_error []))"

definition sample_log :: command_log where
  "sample_log = \<lparr>cl_log_id = lit ''7'', cl_plugin_id = lit ''review'', cl_action_id = Some (lit ''run''), cl_status = RunRunning\<rparr>"


end
