(* ===== verification/Plugin_Fleet.thy ===== *)
theory Plugin_Fleet
  imports Plugins "HOL-Library.Option_ord"
begin

text \<open>
  What is installed where (\<open>src/src/plugin_fleet.rs\<close>, and the reading of one host's list in
  \<open>src/src/plugin.rs\<close>): the differences between the hosts that answered, the lockfile of one host
  and the plan that would bring others to it. A plugin is identified by where it came from.
\<close>

section \<open>Sources and installed plugins\<close>

datatype plugin_source =
  PluginSource (ps_kind: ustring) (ps_owner: ustring) (ps_repo: ustring) (ps_subdir: "ustring option")

definition ps_key :: "plugin_source \<Rightarrow> ustring \<times> ustring \<times> ustring \<times> ustring option" where
  "ps_key s = (ps_kind s, ps_owner s, ps_repo s, ps_subdir s)"

lemma ps_key_inject [simp]: "ps_key s = ps_key s' \<longleftrightarrow> s = s'"
  by (cases s; cases s') (simp add: ps_key_def)

instantiation plugin_source :: linorder
begin

definition less_eq_plugin_source :: "plugin_source \<Rightarrow> plugin_source \<Rightarrow> bool" where
  "less_eq_plugin_source s s' \<longleftrightarrow> ps_key s \<le> ps_key s'"

definition less_plugin_source :: "plugin_source \<Rightarrow> plugin_source \<Rightarrow> bool" where
  "less_plugin_source s s' \<longleftrightarrow> ps_key s < ps_key s'"

instance
proof
  fix x y z :: plugin_source
  show "(x < y) = (x \<le> y \<and> \<not> y \<le> x)"
    by (simp only: less_eq_plugin_source_def less_plugin_source_def less_le_not_le)
  show "x \<le> x" by (simp add: less_eq_plugin_source_def)
  show "x \<le> z" if "x \<le> y" "y \<le> z" using that by (auto simp: less_eq_plugin_source_def)
  show "x = y" if "x \<le> y" "y \<le> x" using that by (auto simp: less_eq_plugin_source_def dest: order_antisym)
  show "x \<le> y \<or> y \<le> x" by (auto simp: less_eq_plugin_source_def)
qed

end

definition show_plugin_source :: "plugin_source \<Rightarrow> ustring" where
  "show_plugin_source s = ps_owner s @ 47 # ps_repo s @ (case ps_subdir s of None \<Rightarrow> [] | Some subdir \<Rightarrow> 47 # subdir)"

definition detail_url :: "plugin_source \<Rightarrow> ustring option" where
  "detail_url s = (if ps_kind s = lit ''github'' then Some (lit ''https://github.com/'' @ ps_owner s @ 47 # ps_repo s) else None)"

record installed_plugin =
  ip_plugin_id :: ustring
  ip_name :: ustring
  ip_version :: ustring
  ip_enabled :: bool
  ip_source :: "plugin_source option"
  ip_requested_ref :: "ustring option"
  ip_resolved_commit :: "ustring option"
  ip_warnings :: "ustring list"

section \<open>Reading one host's list\<close>

definition max_plugins_per_target :: nat where "max_plugins_per_target = 256"

definition bounded :: "ustring \<Rightarrow> ustring" where
  "bounded s = take 256 (map (\<lambda>c. if is_control c then 32 else c) s)"

record listed_source =
  ls_kind :: "ustring option"
  ls_owner :: "ustring option"
  ls_repo :: "ustring option"
  ls_subdir :: "ustring option"
  ls_requested_ref :: "ustring option"
  ls_resolved_commit :: "ustring option"

record listed_plugin =
  lp_plugin_id :: ustring
  lp_name :: ustring
  lp_version :: ustring
  lp_enabled :: bool
  lp_source :: "listed_source option"
  lp_warnings :: "ustring list"

record plugin_list =
  pl_kind :: ustring
  pl_plugins :: "listed_plugin list"

definition complete_source :: "listed_source \<Rightarrow> plugin_source option" where
  "complete_source l = (case (ls_kind l, ls_owner l, ls_repo l) of
     (Some k, Some owner, Some repo) \<Rightarrow> Some (PluginSource (bounded k) (bounded owner) (bounded repo) (map_option bounded (ls_subdir l)))
   | _ \<Rightarrow> None)"

definition installed_of :: "listed_plugin \<Rightarrow> installed_plugin" where
  "installed_of p = \<lparr>ip_plugin_id = bounded (lp_plugin_id p), ip_name = bounded (lp_name p), ip_version = bounded (lp_version p),
     ip_enabled = lp_enabled p, ip_source = Option.bind (lp_source p) complete_source,
     ip_requested_ref = Option.bind (lp_source p) (\<lambda>l. map_option bounded (ls_requested_ref l)),
     ip_resolved_commit = Option.bind (lp_source p) (\<lambda>l. map_option bounded (ls_resolved_commit l)),
     ip_warnings = map bounded (take 8 (lp_warnings p))\<rparr>"

definition parse_installed :: "plugin_list option \<Rightarrow> snapshot_error + installed_plugin list" where
  "parse_installed listed = (case listed of
     None \<Rightarrow> Inl (unavailable_error (lit ''Herdr returned an invalid plugin list''))
   | Some l \<Rightarrow>
       if pl_kind l \<noteq> lit ''plugin_list'' then Inl (unavailable_error (lit ''Herdr returned an unexpected plugin list response''))
       else if length (pl_plugins l) > max_plugins_per_target
       then Inl (unavailable_error (lit ''Herdr reported more than '' @ show_nat max_plugins_per_target @ lit '' plugins''))
       else Inr (map installed_of (pl_plugins l)))"

section \<open>The fleet\<close>

record inventory =
  iv_installed :: "(target_session, installed_plugin list) btmap"
  iv_errors :: "(target_session, ustring) btmap"

datatype drift =
    DriftMissing plugin_source "target_session list" "target_session list"
  | DriftVersion plugin_source "(ustring, target_session list) btmap"
  | DriftCommit plugin_source "(ustring, target_session list) btmap"
  | DriftDisabled plugin_source "target_session list"
  | DriftLocalOnly target_session ustring ustring

text \<open>Asking every target, one after another: answers and errors by target.\<close>

definition plugin_inventory :: "(target \<Rightarrow> snapshot_error + installed_plugin list) \<Rightarrow> target list \<Rightarrow> inventory" where
  "plugin_inventory ask ts = fold (\<lambda>t iv. case ask t of
       Inr plugins \<Rightarrow> iv\<lparr>iv_installed := bt_insert (target_key t) plugins (iv_installed iv)\<rparr>
     | Inl e \<Rightarrow> iv\<lparr>iv_errors := bt_insert (target_key t) (se_message e) (iv_errors iv)\<rparr>) ts
     \<lparr>iv_installed = bt_empty, iv_errors = bt_empty\<rparr>"

type_synonym holders = "(target_session, installed_plugin) btmap"

definition group_plugin :: "target_session \<times> installed_plugin \<Rightarrow> (plugin_source, holders) btmap \<Rightarrow> (plugin_source, holders) btmap" where
  "group_plugin e grouped = (case e of (t, p) \<Rightarrow> (case ip_source p of
     None \<Rightarrow> grouped
   | Some s \<Rightarrow> bt_insert s (bt_insert t p (unwrap_or bt_empty (bt_get grouped s))) grouped))"

definition by_source :: "inventory \<Rightarrow> (plugin_source, holders) btmap" where
  "by_source iv = fold group_plugin (concat (map (\<lambda>(t, ps). map (Pair t) ps) (bt_entries (iv_installed iv)))) bt_empty"

definition push_target :: "ustring \<Rightarrow> target_session \<Rightarrow> (ustring, target_session list) btmap \<Rightarrow> (ustring, target_session list) btmap" where
  "push_target key t m = bt_insert key (unwrap_or [] (bt_get m key) @ [t]) m"

definition version_groups :: "holders \<Rightarrow> (ustring, target_session list) btmap" where
  "version_groups holders = fold (\<lambda>(t, p). push_target (ip_version p) t) (bt_entries holders) bt_empty"

definition commit_groups :: "holders \<Rightarrow> (ustring, target_session list) btmap" where
  "commit_groups holders = fold (\<lambda>(t, p) m. case ip_resolved_commit p of None \<Rightarrow> m | Some commit \<Rightarrow> push_target commit t m)
     (bt_entries holders) bt_empty"

definition source_drift :: "target_session list \<Rightarrow> plugin_source \<times> holders \<Rightarrow> drift list" where
  "source_drift answered e = (case e of (s, holders) \<Rightarrow>
     (let absent = filter (\<lambda>t. \<not> bt_contains t holders) answered;
          versions = version_groups holders; commits = commit_groups holders;
          disabled = map fst (filter (\<lambda>(t, p). \<not> ip_enabled p) (bt_entries holders))
      in (if absent \<noteq> [] then [DriftMissing s (bt_keys holders) absent] else [])
         @ (if bt_len versions > 1 then [DriftVersion s versions] else if bt_len commits > 1 then [DriftCommit s commits] else [])
         @ (if disabled \<noteq> [] then [DriftDisabled s disabled] else [])))"

definition local_drift :: "target_session \<times> installed_plugin list \<Rightarrow> drift list" where
  "local_drift e = (case e of (t, ps) \<Rightarrow>
     map (\<lambda>p. DriftLocalOnly t (ip_plugin_id p) (ip_name p)) (filter (\<lambda>p. ip_source p = None) ps))"

definition fleet_drift :: "inventory \<Rightarrow> drift list" where
  "fleet_drift iv = concat (map (source_drift (bt_keys (iv_installed iv))) (bt_entries (by_source iv)))
     @ concat (map local_drift (bt_entries (iv_installed iv)))"

record locked_plugin =
  lk_source :: plugin_source
  lk_reference :: ustring
  lk_version :: ustring

definition reference_of :: "installed_plugin \<Rightarrow> ustring option" where
  "reference_of p = or_else (ip_resolved_commit p) (ip_requested_ref p)"

definition locked_of :: "installed_plugin \<Rightarrow> locked_plugin option" where
  "locked_of p = (case (ip_source p, reference_of p) of
     (Some s, Some reference) \<Rightarrow> Some \<lparr>lk_source = s, lk_reference = reference, lk_version = ip_version p\<rparr> | _ \<Rightarrow> None)"

definition lockfile :: "inventory \<Rightarrow> target_session \<Rightarrow> locked_plugin list option" where
  "lockfile iv from_target = map_option (List.map_filter locked_of) (bt_get (iv_installed iv) from_target)"

datatype plan_action = PlanInstall | PlanUpdate

record plan_step =
  st_target :: target_session
  st_source :: plugin_source
  st_action :: plan_action
  st_from :: "ustring option"
  st_to :: ustring
  st_command :: ustring

definition held_plugin :: "plugin_source \<Rightarrow> installed_plugin list \<Rightarrow> installed_plugin option" where
  "held_plugin s ps = find (\<lambda>p. ip_source p = Some s) ps"

definition plan_locked :: "target_session \<Rightarrow> installed_plugin list \<Rightarrow> locked_plugin \<Rightarrow> plan_step list" where
  "plan_locked t ps l = (let held = held_plugin (lk_source l) ps
     in if Option.bind held reference_of = Some (lk_reference l) then []
        else [\<lparr>st_target = t, st_source = lk_source l, st_action = (if held \<noteq> None then PlanUpdate else PlanInstall),
           st_from = map_option ip_version held, st_to = lk_reference l,
           st_command = lit ''herdr plugin install '' @ show_plugin_source (lk_source l) @ lit '' --ref '' @ lk_reference l @ lit '' -y''\<rparr>])"

definition fleet_plan :: "inventory \<Rightarrow> locked_plugin list \<Rightarrow> target_session list \<Rightarrow> plan_step list" where
  "fleet_plan iv lock ts = concat (map (\<lambda>t. case bt_get (iv_installed iv) t of
     None \<Rightarrow> [] | Some ps \<Rightarrow> concat (map (plan_locked t ps) lock)) ts)"

section \<open>Nothing is reported exactly when the hosts agree\<close>

text \<open>The plugin of a source on a host is the last one listed with it.\<close>

definition held_last :: "plugin_source \<Rightarrow> installed_plugin list \<Rightarrow> installed_plugin option" where
  "held_last s ps = find (\<lambda>p. ip_source p = Some s) (rev ps)"

definition holder :: "(plugin_source, holders) btmap \<Rightarrow> plugin_source \<Rightarrow> target_session \<Rightarrow> installed_plugin option" where
  "holder grouped s t = Option.bind (bt_get grouped s) (\<lambda>holders. bt_get holders t)"

lemma find_append: "find P (xs @ ys) = (case find P xs of Some x \<Rightarrow> Some x | None \<Rightarrow> find P ys)"
  by (induction xs) auto

lemma holder_group:
  "holder (group_plugin (t, p) grouped) s u = (if t = u \<and> ip_source p = Some s then Some p else holder grouped s u)"
  by (auto simp: holder_def group_plugin_def unwrap_or_def split: option.split)

lemma holder_fold_host:
  "holder (fold group_plugin (map (Pair t) ps) grouped) s u =
     (if t = u then or_else (held_last s ps) (holder grouped s u) else holder grouped s u)"
  by (induction ps arbitrary: grouped) (auto simp: holder_group held_last_def find_append or_else_def split: option.splits)

lemma holder_fold:
  "distinct (map fst es) \<Longrightarrow>
   holder (fold group_plugin (concat (map (\<lambda>(t, ps). map (Pair t) ps) es)) grouped) s u =
     (case map_of es u of Some ps \<Rightarrow> or_else (held_last s ps) (holder grouped s u) | None \<Rightarrow> holder grouped s u)"
proof (induction es arbitrary: grouped)
  case (Cons e es)
  obtain t ps where e: "e = (t, ps)" by (cases e)
  have "map_of es t = None" using Cons.prems by (auto simp: e map_of_eq_None_iff)
  with Cons show ?case by (auto simp: e holder_fold_host split: option.splits)
qed simp

lemma holder_by_source: "holder (by_source iv) s t = Option.bind (bt_get (iv_installed iv) t) (held_last s)"
proof -
  have "distinct (map fst (bt_entries (iv_installed iv)))" using bt_keys_distinct by (simp add: bt_keys_def)
  then show ?thesis
    by (auto simp: by_source_def holder_fold bt_get.rep_eq holder_def [of bt_empty] or_else_def split: option.split)
qed

lemma grouped_nonempty:
  "\<forall>s m. bt_get grouped s = Some m \<longrightarrow> m \<noteq> bt_empty \<Longrightarrow>
   \<forall>s m. bt_get (fold group_plugin es grouped) s = Some m \<longrightarrow> m \<noteq> bt_empty"
proof (induction es arbitrary: grouped)
  case (Cons e es)
  have "bt_insert t p m \<noteq> bt_empty" for t p and m :: holders
    using bt_get_insert [of t p m t] by (metis bt_get_empty option.distinct(1))
  then have "\<forall>s m. bt_get (group_plugin e grouped) s = Some m \<longrightarrow> m \<noteq> bt_empty"
    using Cons.prems by (auto simp: group_plugin_def split: prod.split option.split)
  then show ?case using Cons.IH by simp
qed simp

lemma by_source_nonempty: "bt_get (by_source iv) s = Some m \<Longrightarrow> m \<noteq> bt_empty"
  unfolding by_source_def using grouped_nonempty [of bt_empty] by auto

text \<open>More than one group means two members that differ.\<close>

lemma push_targets_keys:
  "{k. bt_get (fold (\<lambda>(t, p) m. case key p of None \<Rightarrow> m | Some k \<Rightarrow> push_target k t m) es m) k \<noteq> None}
    = {k. bt_get m k \<noteq> None} \<union> {k. \<exists>(t, p) \<in> set es. key p = Some k}"
  by (induction es arbitrary: m) (auto simp: push_target_def split: option.splits if_splits)

lemma groups_many:
  "bt_len (fold (\<lambda>(t, p) m. case key p of None \<Rightarrow> m | Some k \<Rightarrow> push_target k t m) (bt_entries holders) bt_empty) > 1 \<longleftrightarrow>
   (\<exists>t u p q c d. bt_get holders t = Some p \<and> bt_get holders u = Some q \<and> key p = Some c \<and> key q = Some d \<and> c \<noteq> d)"
proof -
  let ?K = "{k. \<exists>(t, p) \<in> set (bt_entries holders). key p = Some k}"
  have "?K = (\<lambda>e. the (key (snd e))) ` {e \<in> set (bt_entries holders). key (snd e) \<noteq> None}" by force
  then have "finite ?K" by simp
  then have "card ?K > 1 \<longleftrightarrow> (\<exists>c \<in> ?K. \<exists>d \<in> ?K. c \<noteq> d)"
    by (metis (no_types, lifting) One_nat_def card_le_Suc0_iff_eq not_le)
  moreover have "bt_len (fold (\<lambda>(t, p) m. case key p of None \<Rightarrow> m | Some k \<Rightarrow> push_target k t m) (bt_entries holders) bt_empty) = card ?K"
    unfolding bt_len_card push_targets_keys by simp
  moreover have "?K = {k. \<exists>t p. bt_get holders t = Some p \<and> key p = Some k}"
    by (force simp: bt_entries_get [symmetric])
  ultimately show ?thesis by (simp only:) blast
qed

lemma version_groups_many: "bt_len (version_groups holders) > 1 \<longleftrightarrow>
   (\<exists>t u p q. bt_get holders t = Some p \<and> bt_get holders u = Some q \<and> ip_version p \<noteq> ip_version q)"
  using groups_many [of "Some \<circ> ip_version" holders] by (auto simp: version_groups_def)

lemma commit_groups_many: "bt_len (commit_groups holders) > 1 \<longleftrightarrow>
   (\<exists>t u p q c d. bt_get holders t = Some p \<and> bt_get holders u = Some q
      \<and> ip_resolved_commit p = Some c \<and> ip_resolved_commit q = Some d \<and> c \<noteq> d)"
  using groups_many [of ip_resolved_commit holders] by (simp add: commit_groups_def)

definition fleet_agrees :: "inventory \<Rightarrow> bool" where
  "fleet_agrees iv \<longleftrightarrow>
     (\<forall>t ps. bt_get (iv_installed iv) t = Some ps \<longrightarrow> (\<forall>p \<in> set ps. ip_source p \<noteq> None))
     \<and> (\<forall>t u ps qs s p. bt_get (iv_installed iv) t = Some ps \<longrightarrow> bt_get (iv_installed iv) u = Some qs \<longrightarrow> held_last s ps = Some p \<longrightarrow>
         (\<exists>q. held_last s qs = Some q \<and> ip_enabled q \<and> ip_version p = ip_version q
            \<and> (\<forall>c d. ip_resolved_commit p = Some c \<longrightarrow> ip_resolved_commit q = Some d \<longrightarrow> c = d)))"

lemma source_drift_empty:
  "source_drift answered (s, holders) = [] \<longleftrightarrow>
     (\<forall>t \<in> set answered. bt_get holders t \<noteq> None)
     \<and> (\<forall>t u p q. bt_get holders t = Some p \<longrightarrow> bt_get holders u = Some q \<longrightarrow> ip_enabled q \<and> ip_version p = ip_version q
          \<and> (\<forall>c d. ip_resolved_commit p = Some c \<longrightarrow> ip_resolved_commit q = Some d \<longrightarrow> c = d))"
proof -
  have "source_drift answered (s, holders) = [] \<longleftrightarrow> (\<forall>t \<in> set answered. bt_get holders t \<noteq> None)
     \<and> \<not> bt_len (version_groups holders) > 1 \<and> \<not> bt_len (commit_groups holders) > 1 \<and> (\<forall>(t, p) \<in> set (bt_entries holders). ip_enabled p)"
    by (auto simp: source_drift_def Let_def filter_empty_conv split: if_splits)
  moreover have "(\<forall>(t, p) \<in> set (bt_entries holders). ip_enabled p) \<longleftrightarrow> (\<forall>t p. bt_get holders t = Some p \<longrightarrow> ip_enabled p)"
    by (auto simp: bt_entries_get)
  ultimately show ?thesis unfolding version_groups_many commit_groups_many by (simp only:) blast
qed

text \<open>
  C28. The fleet report is silent exactly when the hosts that answered agree. There is no reported
  difference if and only if no host has a plugin without a source and every source that one host
  has is, on every host that answered, installed, enabled, at the same version and at no other
  commit; a host that did not answer is never counted as lacking anything.
\<close>

theorem drift_silent_iff_agrees: "fleet_drift iv = [] \<longleftrightarrow> fleet_agrees iv"
proof -
  let ?I = "iv_installed iv"
  have locals: "concat (map local_drift (bt_entries ?I)) = [] \<longleftrightarrow> (\<forall>t ps. bt_get ?I t = Some ps \<longrightarrow> (\<forall>p \<in> set ps. ip_source p \<noteq> None))"
    by (auto simp: local_drift_def filter_empty_conv bt_entries_get [symmetric])
  have held: "bt_get m t = Some p \<longleftrightarrow> (\<exists>ps. bt_get ?I t = Some ps \<and> held_last s ps = Some p)"
    if "bt_get (by_source iv) s = Some m" for s m t p
    using holder_by_source [of iv s t] that by (auto simp: holder_def bind_eq_Some_conv)
  have grouped: "bt_get (by_source iv) s \<noteq> None" if "bt_get ?I t = Some ps" "held_last s ps = Some p" for s t ps p
    using holder_by_source [of iv s t] that by (auto simp: holder_def bind_eq_Some_conv)
  have "concat (map (source_drift (bt_keys ?I)) (bt_entries (by_source iv))) = [] \<longleftrightarrow>
      (\<forall>s m. bt_get (by_source iv) s = Some m \<longrightarrow> source_drift (bt_keys ?I) (s, m) = [])"
    by (auto simp: bt_entries_get [symmetric])
  also have "\<dots> \<longleftrightarrow> (\<forall>t u ps qs s p. bt_get ?I t = Some ps \<longrightarrow> bt_get ?I u = Some qs \<longrightarrow> held_last s ps = Some p \<longrightarrow>
         (\<exists>q. held_last s qs = Some q \<and> ip_enabled q \<and> ip_version p = ip_version q
            \<and> (\<forall>c d. ip_resolved_commit p = Some c \<longrightarrow> ip_resolved_commit q = Some d \<longrightarrow> c = d)))" (is "?silent \<longleftrightarrow> ?agree")
  proof
    assume silent: ?silent
    show ?agree
    proof (intro allI impI)
      fix t u ps qs s p
      assume at: "bt_get ?I t = Some ps" "bt_get ?I u = Some qs" "held_last s ps = Some p"
      obtain m where m: "bt_get (by_source iv) s = Some m" using grouped [OF at(1,3)] by blast
      note none = silent [rule_format, OF m, unfolded source_drift_empty]
      have "bt_get m t = Some p" using held [OF m] at by blast
      moreover obtain q where q: "bt_get m u = Some q" using none at(2) by (auto simp: set_bt_keys)
      ultimately have "ip_enabled q \<and> ip_version p = ip_version q
          \<and> (\<forall>c d. ip_resolved_commit p = Some c \<longrightarrow> ip_resolved_commit q = Some d \<longrightarrow> c = d)" using none by blast
      moreover have "held_last s qs = Some q" using held [OF m, of u q] q at(2) by simp
      ultimately show "\<exists>q. held_last s qs = Some q \<and> ip_enabled q \<and> ip_version p = ip_version q
            \<and> (\<forall>c d. ip_resolved_commit p = Some c \<longrightarrow> ip_resolved_commit q = Some d \<longrightarrow> c = d)" by blast
    qed
  next
    assume agree: ?agree
    show ?silent
    proof (intro allI impI)
      fix s m
      assume m: "bt_get (by_source iv) s = Some m"
      obtain t p where "bt_get m t = Some p" using by_source_nonempty [OF m] bt_ext [of m bt_empty] by fastforce
      then obtain ps where at: "bt_get ?I t = Some ps" "held_last s ps = Some p" using held [OF m] by blast
      have "bt_get m u \<noteq> None" if "u \<in> set (bt_keys ?I)" for u
      proof -
        obtain qs where "bt_get ?I u = Some qs" using \<open>u \<in> _\<close> by (auto simp: bt_keys_iff)
        then show ?thesis using agree at held [OF m] by blast
      qed
      moreover have "ip_enabled q \<and> ip_version p = ip_version q
          \<and> (\<forall>c d. ip_resolved_commit p = Some c \<longrightarrow> ip_resolved_commit q = Some d \<longrightarrow> c = d)"
        if at_t: "bt_get m t = Some p" and at_u: "bt_get m u = Some q" for t u p q
      proof -
        obtain ps qs where "bt_get ?I t = Some ps" "held_last s ps = Some p" "bt_get ?I u = Some qs" "held_last s qs = Some q"
          using at_t at_u held [OF m, of t p] held [OF m, of u q] by auto
        then obtain q' where "held_last s qs = Some q' \<and> ip_enabled q' \<and> ip_version p = ip_version q'
            \<and> (\<forall>c d. ip_resolved_commit p = Some c \<longrightarrow> ip_resolved_commit q' = Some d \<longrightarrow> c = d)"
          using agree by blast
        then show ?thesis using \<open>held_last s qs = Some q\<close> by simp
      qed
      ultimately show "source_drift (bt_keys ?I) (s, m) = []" unfolding source_drift_empty by blast
    qed
  qed
  finally show ?thesis using locals unfolding fleet_drift_def fleet_agrees_def append_is_Nil_conv by blast
qed

section \<open>A plan that is carried out is done\<close>

text \<open>
  What installing a source at a reference is documented to leave: that source at that reference,
  and every other source as it was. A step is carried out on the host it names.
\<close>

type_synonym installer = "plugin_source \<Rightarrow> ustring \<Rightarrow> installed_plugin list \<Rightarrow> installed_plugin list"

definition installs :: "installer \<Rightarrow> ustring \<Rightarrow> bool" where
  "installs install reference \<longleftrightarrow> (\<forall>s ps.
     (\<exists>p. held_plugin s (install s reference ps) = Some p \<and> reference_of p = Some reference)
     \<and> (\<forall>s'. s' \<noteq> s \<longrightarrow> held_plugin s' (install s reference ps) = held_plugin s' ps))"

definition carry_out :: "installer \<Rightarrow> plan_step list \<Rightarrow> inventory \<Rightarrow> inventory" where
  "carry_out install steps iv = fold (\<lambda>step iv. iv\<lparr>iv_installed :=
     bt_adjust (st_target step) (install (st_source step) (st_to step)) (iv_installed iv)\<rparr>) steps iv"

definition holds_at :: "locked_plugin \<Rightarrow> installed_plugin list \<Rightarrow> bool" where
  "holds_at l ps \<longleftrightarrow> Option.bind (held_plugin (lk_source l) ps) reference_of = Some (lk_reference l)"

lemma plan_locked_Nil: "plan_locked t ps l = [] \<longleftrightarrow> holds_at l ps"
  by (simp add: plan_locked_def holds_at_def Let_def)

lemma carried_host:
  "bt_get (iv_installed (carry_out install steps iv)) t =
     map_option (fold (\<lambda>step. install (st_source step) (st_to step)) (filter (\<lambda>step. st_target step = t) steps)) (bt_get (iv_installed iv) t)"
  unfolding carry_out_def
  by (induction steps arbitrary: iv) (auto simp: option.map_comp comp_def option.map_id option.map_ident)

lemma carried_holds:
  assumes "\<forall>step \<in> set steps. installs install (st_to step) \<and> (st_source step = lk_source l \<longrightarrow> st_to step = lk_reference l)"
    and "holds_at l ps \<or> (\<exists>step \<in> set steps. st_source step = lk_source l)"
  shows "holds_at l (fold (\<lambda>step. install (st_source step) (st_to step)) steps ps)"
  using assms
proof (induction steps arbitrary: ps)
  case (Cons step steps)
  have ok: "installs install (st_to step)" using Cons.prems(1) by simp
  have "holds_at l (install (st_source step) (st_to step) ps) \<or> (\<exists>step \<in> set steps. st_source step = lk_source l)"
  proof (cases "st_source step = lk_source l")
    case True
    then have "st_to step = lk_reference l" using Cons.prems(1) by simp
    then show ?thesis using ok [unfolded installs_def, rule_format, of "lk_source l" ps] True by (auto simp: holds_at_def)
  next
    case False
    then have "holds_at l (install (st_source step) (st_to step) ps) = holds_at l ps"
      using ok [unfolded installs_def, rule_format, of "st_source step" ps] by (auto simp: holds_at_def)
    then show ?thesis using False Cons.prems(2) by auto
  qed
  with Cons show ?case by simp
qed simp

lemma plan_steps:
  assumes "step \<in> set (fleet_plan iv lock ts)"
  shows "st_target step \<in> set ts \<and> (\<exists>l \<in> set lock. st_source step = lk_source l \<and> st_to step = lk_reference l)"
  using assms by (auto simp: fleet_plan_def plan_locked_def Let_def split: option.splits if_splits)

lemma plan_covers:
  assumes "t \<in> set ts" and "bt_get (iv_installed iv) t = Some ps" and "l \<in> set lock" and "\<not> holds_at l ps"
  shows "\<exists>step \<in> set (filter (\<lambda>step. st_target step = t) (fleet_plan iv lock ts)). st_source step = lk_source l"
proof -
  obtain step where "plan_locked t ps l = [step]" "st_target step = t" "st_source step = lk_source l"
    using assms(4) by (auto simp: plan_locked_def holds_at_def Let_def)
  then show ?thesis using assms(1-3) by (force simp: fleet_plan_def)
qed


section \<open>Two ways in which the answer misleads\<close>

text \<open>A host that did not answer needs no step, which the command line reports as agreement.\<close>

lemma unreached_reads_as_agreed: "bt_get (iv_installed iv) t = None \<Longrightarrow> fleet_plan iv lock [t] = []"
  by (simp add: fleet_plan_def)

text \<open>A lock that names a tag is not met by a host that resolved the tag to a commit: the plan never ends.\<close>

lemma tag_never_met:
  assumes "bt_get (iv_installed iv) t = Some ps" and "held_plugin (lk_source l) ps = Some p"
    and "ip_requested_ref p = Some (lk_reference l)" and "ip_resolved_commit p = Some c" and "c \<noteq> lk_reference l"
  shows "fleet_plan iv [l] [t] \<noteq> []"
  using assms by (simp add: fleet_plan_def plan_locked_def reference_of_def or_else_def)

section \<open>Witnesses\<close>

definition sample_source :: plugin_source where
  "sample_source = PluginSource (lit ''github'') (lit ''alice'') (lit ''review'') None"

definition sample_plugin :: "ustring \<Rightarrow> plugin_source \<Rightarrow> installed_plugin" where
  "sample_plugin commit s = \<lparr>ip_plugin_id = lit ''review'', ip_name = lit ''review'', ip_version = lit ''1'', ip_enabled = True,
     ip_source = Some s, ip_requested_ref = None, ip_resolved_commit = Some commit, ip_warnings = []\<rparr>"

definition sample_installer :: installer where
  "sample_installer s reference ps = sample_plugin reference s # filter (\<lambda>p. ip_source p \<noteq> Some s) ps"

lemma sample_installs: "installs sample_installer reference"
proof -
  have "find (\<lambda>p. ip_source p = Some s') (filter (\<lambda>p. ip_source p \<noteq> Some s) ps) = find (\<lambda>p. ip_source p = Some s') ps" if "s' \<noteq> s" for s s' ps
    using that by (induction ps) auto
  then show ?thesis
    by (simp add: installs_def sample_installer_def held_plugin_def sample_plugin_def reference_of_def or_else_def) blast
qed

definition sample_hosts :: "target_session list" where
  "sample_hosts = [TargetSession (lit ''a'') (lit ''work''), TargetSession (lit ''b'') (lit ''work'')]"

definition sample_inventory :: inventory where
  "sample_inventory = \<lparr>iv_installed = bt_insert (sample_hosts ! 0) [sample_plugin (lit ''c0ffee'') sample_source]
     (bt_insert (sample_hosts ! 1) [] bt_empty), iv_errors = bt_empty\<rparr>"

definition sample_lock :: "locked_plugin list" where
  "sample_lock = [\<lparr>lk_source = sample_source, lk_reference = lit ''c0ffee'', lk_version = lit ''1''\<rparr>]"


end
