(* ===== verification/Ssh_Config.thy ===== *)
theory Ssh_Config
  imports Std_Text
begin

text \<open>
  The hosts of an OpenSSH configuration (\<open>src/src/ssh_config.rs\<close>): what a file lists, what it
  includes, and the bounded reading of a file with everything it includes. A path is its
  components, the files and the directories that are read are parameters.
\<close>

section \<open>One file\<close>

record ssh_host =
  sh_alias :: ustring
  sh_hostname :: "ustring option"
  sh_user :: "ustring option"
  sh_port :: "u16 option"

datatype ssh_entry = HostEntry ssh_host | IncludeEntry ustring

definition ssh_summary :: "ssh_host \<Rightarrow> ustring" where
  "ssh_summary h = sh_alias h
     @ (case sh_hostname h of None \<Rightarrow> []
        | Some hostname \<Rightarrow> [32, 32] @ (case sh_user h of None \<Rightarrow> [] | Some user \<Rightarrow> user @ [64]) @ hostname)
     @ (case sh_port h of None \<Rightarrow> [] | Some port \<Rightarrow> 58 # show_word port)"

text \<open>The keyword of a line, in lower case, and its value.\<close>

definition split_keyword :: "ustring \<Rightarrow> ustring \<times> ustring" where
  "split_keyword line = (case dropWhile (\<lambda>c. c \<notin> {32, 9, 61}) line of
     [] \<Rightarrow> (to_ascii_lowercase line, [])
   | _ # value \<Rightarrow> (to_ascii_lowercase (takeWhile (\<lambda>c. c \<notin> {32, 9, 61}) line),
       trim (dropWhile (\<lambda>c. c = 61) (trim value))))"

definition plain_alias :: "ustring \<Rightarrow> bool" where
  "plain_alias alias \<longleftrightarrow> 42 \<notin> set alias \<and> 63 \<notin> set alias \<and> take 1 alias \<noteq> [33]"

definition set_field :: "ustring \<Rightarrow> ustring \<Rightarrow> ssh_host \<Rightarrow> ssh_host" where
  "set_field keyword value h =
     (if keyword = lit ''hostname'' then h\<lparr>sh_hostname := Some value\<rparr>
      else if keyword = lit ''user'' then h\<lparr>sh_user := Some value\<rparr>
      else h\<lparr>sh_port := parse_unsigned value\<rparr>)"

text \<open>What one line adds; the indices of the hosts of the current block receive its options.\<close>

definition parse_line :: "ustring \<Rightarrow> ssh_entry list \<times> nat list \<Rightarrow> ssh_entry list \<times> nat list" where
  "parse_line text st = (case st of (found, current) \<Rightarrow>
     (let line = trim text; (keyword, value) = split_keyword line
      in if line = [] \<or> take 1 line = [35] then (found, current)
         else if keyword = lit ''host''
         then (let aliases = filter plain_alias (split_whitespace value)
           in (found @ map (\<lambda>alias. HostEntry \<lparr>sh_alias = alias, sh_hostname = None, sh_user = None, sh_port = None\<rparr>) aliases,
               [length found ..< length found + length aliases]))
         else if keyword = lit ''match'' then (found, [])
         else if keyword = lit ''include'' then (found @ [IncludeEntry value], current)
         else if keyword = lit ''hostname'' \<or> keyword = lit ''user'' \<or> keyword = lit ''port''
         then (fold (\<lambda>i found. case found ! i of
             HostEntry h \<Rightarrow> if i < length found then found[i := HostEntry (set_field keyword value h)] else found
           | IncludeEntry _ \<Rightarrow> found) current found, current)
         else (found, current)))"

definition parse_into :: "ustring \<Rightarrow> ssh_entry list" where
  "parse_into text = fst (fold parse_line (str_lines text) ([], []))"

section \<open>Paths and includes\<close>

text \<open>Whether a path is absolute, and its components as \<open>Path::components\<close> gives them.\<close>

type_synonym path_parts = "bool \<times> ustring list"

definition parts_of :: "ustring \<Rightarrow> ustring list" where
  "parts_of s = filter (\<lambda>c. c \<noteq> [] \<and> c \<noteq> lit ''.'') (split_on (\<lambda>c. c = 47) s)"

definition path_of :: "ustring \<Rightarrow> path_parts" where
  "path_of s = (if starts_with [47] s then (True, parts_of s)
     else (False, (if s = lit ''.'' \<or> starts_with (lit ''./'') s then [lit ''.''] else []) @ parts_of s))"

definition path_join :: "path_parts \<Rightarrow> ustring \<Rightarrow> path_parts" where
  "path_join p s = (if starts_with [47] s \<or> p = (False, []) then path_of s else (fst p, snd p @ parts_of s))"

definition path_parent :: "path_parts \<Rightarrow> path_parts option" where
  "path_parent p = (if snd p = [] then None else Some (fst p, butlast (snd p)))"

definition path_last_name :: "path_parts \<Rightarrow> ustring option" where
  "path_last_name p = (if snd p = [] \<or> last (snd p) \<in> {lit ''.'', lit ''..''} then None else Some (last (snd p)))"

text \<open>The order of paths: the root before a current directory, a parent, and a name.\<close>

definition path_rank :: "path_parts \<Rightarrow> (nat \<times> ustring) list" where
  "path_rank p = (if fst p then [(0, [])] else [])
     @ map (\<lambda>c. if c = lit ''.'' then (1, []) else if c = lit ''..'' then (2, []) else (3, c)) (snd p)"

text \<open>The home directory, the texts of files, and the names in a directory with whether each is a file.\<close>

record ssh_files =
  sf_home :: "path_parts option"
  sf_text :: "path_parts \<Rightarrow> ustring option"
  sf_names :: "path_parts \<Rightarrow> (ustring \<times> bool) list option"

definition trim_quotes :: "ustring \<Rightarrow> ustring" where
  "trim_quotes s = rev (dropWhile (\<lambda>c. c = 34) (rev (dropWhile (\<lambda>c. c = 34) s)))"

definition is_wild :: "uchar \<Rightarrow> bool" where "is_wild c \<longleftrightarrow> c = 42 \<or> c = 63"

definition expand_entry :: "ssh_files \<Rightarrow> path_parts \<Rightarrow> ustring \<Rightarrow> path_parts list" where
  "expand_entry fs from raw =
     (let entry = trim_quotes raw;
          path = (case strip_prefix (lit ''~/'') entry of
             Some rest \<Rightarrow> map_option (\<lambda>home. path_join home rest) (sf_home fs)
           | None \<Rightarrow> if starts_with [47] entry then Some (path_of entry)
               else Some (path_join (unwrap_or (path_of (lit ''.'')) (path_parent from)) entry))
      in case path of None \<Rightarrow> []
         | Some path \<Rightarrow> (case path_last_name path of None \<Rightarrow> []
           | Some name \<Rightarrow>
               if \<not> (\<exists>c \<in> set name. is_wild c) then [path]
               else (case path_parent path of None \<Rightarrow> []
                 | Some directory \<Rightarrow> (case sf_names fs directory of None \<Rightarrow> []
                   | Some names \<Rightarrow>
                       (let prefix = takeWhile (\<lambda>c. \<not> is_wild c) name
                        in map (\<lambda>(candidate, _). path_join directory candidate)
                             (filter (\<lambda>(candidate, is_file). starts_with prefix candidate \<and> is_file) names))))))"

definition expand_include :: "ssh_files \<Rightarrow> path_parts \<Rightarrow> ustring \<Rightarrow> path_parts list" where
  "expand_include fs from pattern = sort_key path_rank (concat (map (expand_entry fs from) (split_whitespace pattern)))"

section \<open>A file and everything it includes\<close>

definition max_include_depth :: nat where "max_include_depth = 3"
definition max_files :: nat where "max_files = 64"
definition max_hosts :: nat where "max_hosts = 512"

text \<open>The files that were opened, in order, and the hosts found; a file that cannot be read leaves both.\<close>

type_synonym ssh_reading = "path_parts list \<times> ssh_host list"

function read_into :: "ssh_files \<Rightarrow> nat \<Rightarrow> path_parts \<Rightarrow> ssh_reading \<Rightarrow> ssh_reading \<times> bool" where
  "read_into fs depth path st = (case st of (seen, hosts) \<Rightarrow>
     if depth > max_include_depth \<or> length seen \<ge> max_files \<or> path \<in> set seen then ((seen, hosts), True)
     else (case sf_text fs path of
         None \<Rightarrow> ((seen @ [path], hosts), False)
       | Some text \<Rightarrow>
           (fold (\<lambda>entry st. case entry of
                HostEntry host \<Rightarrow> (fst st, snd st @ [host])
              | IncludeEntry pattern \<Rightarrow>
                  fold (\<lambda>included st. fst (read_into fs (depth + 1) included st)) (expand_include fs path pattern) st)
              (parse_into text) (seen @ [path], hosts), True)))"
  by pat_completeness auto
termination
  by (relation "measure (\<lambda>(_, depth, _, _). 4 - depth)") (auto simp: max_include_depth_def)

declare read_into.simps [simp del]

definition ssh_load :: "ssh_files \<Rightarrow> path_parts \<Rightarrow> ssh_host list option" where
  "ssh_load fs path = (case read_into fs 0 path ([], []) of
     ((_, hosts), True) \<Rightarrow> Some (take max_hosts hosts) | (_, False) \<Rightarrow> None)"

section \<open>Which hosts are offered\<close>

text \<open>A host that can be offered is a word that names itself and no pattern.\<close>

definition offered :: "ustring \<Rightarrow> bool" where
  "offered alias \<longleftrightarrow> alias \<noteq> [] \<and> plain_alias alias \<and> (\<forall>c \<in> set alias. \<not> is_whitespace c)"

definition entries_ok :: "ssh_entry list \<Rightarrow> bool" where
  "entries_ok entries \<longleftrightarrow> (\<forall>h. HostEntry h \<in> set entries \<longrightarrow> offered (sh_alias h))"

lemma split_whitespace_words: "word \<in> set (split_whitespace s) \<Longrightarrow> word \<noteq> [] \<and> (\<forall>c \<in> set word. \<not> is_whitespace c)"
  by (auto simp: split_whitespace_def dest: split_on_pure)

lemma fold_keeps: "(\<And>x st. x \<in> set xs \<Longrightarrow> P st \<Longrightarrow> P (f x st)) \<Longrightarrow> P st \<Longrightarrow> P (fold f xs st)"
  by (induction xs arbitrary: st) auto

lemma set_fields_ok:
  "entries_ok found \<Longrightarrow> entries_ok (fold (\<lambda>i found. case found ! i of
       HostEntry h \<Rightarrow> if i < length found then found[i := HostEntry (set_field keyword value h)] else found
     | IncludeEntry _ \<Rightarrow> found) current found)"
proof (rule fold_keeps)
  fix i found
  assume ok: "entries_ok found"
  have named: "sh_alias (set_field keyword value h) = sh_alias h" for h by (simp add: set_field_def)
  show "entries_ok (case found ! i of HostEntry h \<Rightarrow> if i < length found then found[i := HostEntry (set_field keyword value h)] else found
     | IncludeEntry _ \<Rightarrow> found)"
  proof (cases "found ! i")
    case (HostEntry h)
    have "offered (sh_alias h)" if "i < length found" using ok nth_mem [OF that] HostEntry by (simp add: entries_ok_def)
    then show ?thesis using ok HostEntry set_update_subset_insert [of found i "HostEntry (set_field keyword value h)"]
      by (auto simp: entries_ok_def named)
  qed (simp add: ok)
qed

lemma parse_line_ok: "entries_ok (fst st) \<Longrightarrow> entries_ok (fst (parse_line text st))"
proof (cases st)
  case (Pair found current)
  assume "entries_ok (fst st)"
  then have found: "entries_ok found" by (simp add: Pair)
  obtain kw arg where split: "split_keyword (trim text) = (kw, arg)" by fastforce
  have hosts: "entries_ok (found @ map (\<lambda>alias. HostEntry \<lparr>sh_alias = alias, sh_hostname = None, sh_user = None, sh_port = None\<rparr>)
      (filter plain_alias (split_whitespace arg)))"
    using found split_whitespace_words by (auto simp: entries_ok_def offered_def)
  have included: "entries_ok (found @ [IncludeEntry arg])" using found by (simp add: entries_ok_def)
  show ?thesis
    unfolding Pair parse_line_def Let_def split prod.case
    by (simp only: fst_conv split: if_split) (intro conjI impI found hosts included set_fields_ok)
qed

lemma parse_into_ok: "entries_ok (parse_into text)"
proof -
  have "entries_ok (fst (fold parse_line (str_lines text) ([], [])))"
    by (rule fold_keeps [where P = "\<lambda>st. entries_ok (fst st)"]) (rule parse_line_ok, assumption, simp add: entries_ok_def)
  then show ?thesis by (simp add: parse_into_def)
qed

section \<open>Reading is bounded\<close>

definition reading_ok :: "ssh_reading \<Rightarrow> bool" where
  "reading_ok st \<longleftrightarrow> distinct (fst st) \<and> length (fst st) \<le> max_files \<and> (\<forall>h \<in> set (snd st). offered (sh_alias h))"

lemma read_into_ok: "reading_ok st \<Longrightarrow> reading_ok (fst (read_into fs depth path st)) \<and> set (fst st) \<subseteq> set (fst (fst (read_into fs depth path st)))"
proof (induction fs depth path st rule: read_into.induct)
  case (1 fs depth path st)
  obtain seen hosts where st: "st = (seen, hosts)" by (cases st)
  show ?case
  proof (cases "depth > max_include_depth \<or> length seen \<ge> max_files \<or> path \<in> set seen \<or> sf_text fs path = None")
    case True
    then show ?thesis using 1(2) by (auto simp: st read_into.simps [of _ _ _ "(seen, hosts)"] reading_ok_def)
  next
    case False
    then obtain body where body: "sf_text fs path = Some body" by auto
    let ?P = "\<lambda>st. reading_ok st \<and> set seen \<subseteq> set (fst st)"
    have IH: "reading_ok st' \<Longrightarrow> reading_ok (fst (read_into fs (depth + 1) included st')) \<and> set (fst st') \<subseteq> set (fst (fst (read_into fs (depth + 1) included st')))"
      if "entry \<in> set (parse_into body)" "entry = IncludeEntry pattern" "included \<in> set (expand_include fs path pattern)" for entry pattern included st'
      using 1(1) st False body that by blast
    have "?P (fold (\<lambda>entry st. case entry of
                HostEntry host \<Rightarrow> (fst st, snd st @ [host])
              | IncludeEntry pattern \<Rightarrow>
                  fold (\<lambda>included st. fst (read_into fs (depth + 1) included st)) (expand_include fs path pattern) st)
              (parse_into body) (seen @ [path], hosts))"
    proof (rule fold_keeps)
      fix entry st'
      assume entry: "entry \<in> set (parse_into body)" and held: "?P st'"
      show "?P (case entry of HostEntry host \<Rightarrow> (fst st', snd st' @ [host])
              | IncludeEntry pattern \<Rightarrow>
                  fold (\<lambda>included st. fst (read_into fs (depth + 1) included st)) (expand_include fs path pattern) st')"
      proof (cases entry)
        case (HostEntry host)
        then show ?thesis using held entry parse_into_ok [of body] by (auto simp: reading_ok_def entries_ok_def)
      next
        case (IncludeEntry pattern)
        have "?P (fold (\<lambda>included st. fst (read_into fs (depth + 1) included st)) (expand_include fs path pattern) st')"
          by (rule fold_keeps) (use IH [OF entry IncludeEntry] held in blast)+
        then show ?thesis using IncludeEntry by simp
      qed
    qed (use 1(2) False st in \<open>auto simp: reading_ok_def\<close>)
    then show ?thesis using False body by (simp add: st read_into.simps [of _ _ _ "(seen, hosts)"])
  qed
qed

text \<open>Two folds agree when their steps agree on what the first one sees; what is seen only grows.\<close>

lemma fold_grows:
  "(\<And>x st. x \<in> set xs \<Longrightarrow> P st \<Longrightarrow> P (f x st) \<and> S st \<subseteq> S (f x st)) \<Longrightarrow> P st \<Longrightarrow> P (fold f xs st) \<and> S st \<subseteq> S (fold f xs st)"
proof (induction xs arbitrary: st)
  case (Cons x xs)
  then have "P (f x st) \<and> S st \<subseteq> S (f x st)" by simp
  moreover from this have "P (fold f xs (f x st)) \<and> S (f x st) \<subseteq> S (fold f xs (f x st))" using Cons by simp
  ultimately show ?case by auto
qed simp

lemma fold_agree:
  assumes "\<And>x st. x \<in> set xs \<Longrightarrow> P st \<Longrightarrow> P (f x st) \<and> S st \<subseteq> S (f x st)"
    and "\<And>x st. x \<in> set xs \<Longrightarrow> P st \<Longrightarrow> S (f x st) \<subseteq> A \<Longrightarrow> g x st = f x st"
    and "P st" and "S (fold f xs st) \<subseteq> A"
  shows "fold g xs st = fold f xs st"
  using assms
proof (induction xs arbitrary: st)
  case (Cons x xs)
  have held: "P (f x st)" using Cons.prems(1,3) by simp
  have "S (f x st) \<subseteq> S (fold f xs (f x st))" using fold_grows [of xs P f S "f x st"] Cons.prems(1) held by simp
  then have "g x st = f x st" using Cons.prems(2) [of x st] Cons.prems(3,4) by simp
  then show ?case using Cons held by simp
qed simp

definition read_entry :: "ssh_files \<Rightarrow> nat \<Rightarrow> path_parts \<Rightarrow> ssh_entry \<Rightarrow> ssh_reading \<Rightarrow> ssh_reading" where
  "read_entry fs depth path entry st = (case entry of
     HostEntry host \<Rightarrow> (fst st, snd st @ [host])
   | IncludeEntry pattern \<Rightarrow> fold (\<lambda>included st. fst (read_into fs (depth + 1) included st)) (expand_include fs path pattern) st)"

lemma read_into_entries:
  "read_into fs depth path (seen, hosts) =
     (if depth > max_include_depth \<or> length seen \<ge> max_files \<or> path \<in> set seen then ((seen, hosts), True)
      else (case sf_text fs path of
          None \<Rightarrow> ((seen @ [path], hosts), False)
        | Some body \<Rightarrow> (fold (read_entry fs depth path) (parse_into body) (seen @ [path], hosts), True)))"
  by (simp add: read_into.simps read_entry_def [abs_def] split: option.split)

lemma read_entry_ok:
  "entries_ok entries \<Longrightarrow> entry \<in> set entries \<Longrightarrow> reading_ok st \<Longrightarrow>
   reading_ok (read_entry fs depth path entry st) \<and> set (fst st) \<subseteq> set (fst (read_entry fs depth path entry st))"
proof (cases entry)
  case (IncludeEntry pattern)
  assume "reading_ok st"
  then show ?thesis
    unfolding read_entry_def IncludeEntry ssh_entry.case by (intro fold_grows read_into_ok)
qed (auto simp: read_entry_def reading_ok_def entries_ok_def)

lemma expand_include_text [simp]: "expand_include (fs\<lparr>sf_text := texts\<rparr>) = expand_include fs"
  by (cases fs) (simp only: expand_include_def [abs_def] expand_entry_def [abs_def] ssh_files.update_convs ssh_files.select_convs)

lemma read_into_agree:
  assumes "reading_ok st" and "set (fst (fst (read_into fs depth path st))) \<subseteq> {p. texts p = sf_text fs p}"
  shows "read_into (fs\<lparr>sf_text := texts\<rparr>) depth path st = read_into fs depth path st"
  using assms
proof (induction fs depth path st rule: read_into.induct)
  case (1 fs depth path st)
  let ?A = "{p. texts p = sf_text fs p}"
  obtain seen hosts where st: "st = (seen, hosts)" by (cases st)
  show ?case
  proof (cases "depth > max_include_depth \<or> length seen \<ge> max_files \<or> path \<in> set seen")
    case True
    then show ?thesis by (simp add: st read_into_entries)
  next
    case False
    then have "path \<in> set (fst (fst (read_into fs depth path st)))"
    proof (cases "sf_text fs path")
      case (Some body)
      have "reading_ok (seen @ [path], hosts)" using 1(2) False st by (auto simp: reading_ok_def)
      then have "set (seen @ [path]) \<subseteq> set (fst (fold (read_entry fs depth path) (parse_into body) (seen @ [path], hosts)))"
        using fold_grows [of "parse_into body" reading_ok "read_entry fs depth path" "set \<circ> fst" "(seen @ [path], hosts)"]
          read_entry_ok [OF parse_into_ok] by simp
      then show ?thesis using Some False by (simp add: st read_into_entries)
    qed (simp add: st read_into_entries)
    then have same: "texts path = sf_text fs path" using 1(3) by auto
    show ?thesis
    proof (cases "sf_text fs path")
      case (Some body)
      have IH: "read_into (fs\<lparr>sf_text := texts\<rparr>) (depth + 1) included st' = read_into fs (depth + 1) included st'"
        if "entry \<in> set (parse_into body)" "entry = IncludeEntry pattern" "included \<in> set (expand_include fs path pattern)"
          "reading_ok st'" "set (fst (fst (read_into fs (depth + 1) included st'))) \<subseteq> ?A" for entry pattern included st'
        using 1(1) st False Some that by blast
      have "fold (read_entry (fs\<lparr>sf_text := texts\<rparr>) depth path) (parse_into body) (seen @ [path], hosts)
        = fold (read_entry fs depth path) (parse_into body) (seen @ [path], hosts)"
      proof (rule fold_agree [where P = reading_ok and S = "set \<circ> fst" and A = ?A])
        fix entry st'
        assume entry: "entry \<in> set (parse_into body)" and ok: "reading_ok st'" and seen: "(set \<circ> fst) (read_entry fs depth path entry st') \<subseteq> ?A"
        show "read_entry (fs\<lparr>sf_text := texts\<rparr>) depth path entry st' = read_entry fs depth path entry st'"
        proof (cases entry)
          case (IncludeEntry pattern)
          have "fold (\<lambda>included st. fst (read_into (fs\<lparr>sf_text := texts\<rparr>) (depth + 1) included st)) (expand_include fs path pattern) st'
            = fold (\<lambda>included st. fst (read_into fs (depth + 1) included st)) (expand_include fs path pattern) st'"
            by (rule fold_agree [where P = reading_ok and S = "set \<circ> fst" and A = ?A])
              (use read_into_ok IH [OF entry IncludeEntry] ok seen IncludeEntry in \<open>auto simp: read_entry_def\<close>)
          then show ?thesis using IncludeEntry by (simp add: read_entry_def)
        qed (simp add: read_entry_def)
      qed (use read_entry_ok [OF parse_into_ok] 1(2,3) False Some st in \<open>auto simp: reading_ok_def read_into_entries\<close>)
      then show ?thesis using False Some same by (simp add: st read_into_entries)
    qed (simp add: st read_into_entries same)
  qed
qed

text \<open>
  C31. Reading somebody's SSH configuration is bounded and gives only hosts that can be offered.
  Whatever the files contain and include - themselves among them - at most 64 files are opened,
  none twice and none that is not named in the list of opened files: what any other file holds
  changes nothing. At most 512 hosts come back, and each alias is one word that is no pattern.
\<close>

theorem ssh_reading_bounded:
  "\<exists>opened. distinct opened \<and> length opened \<le> 64 \<and> opened = fst (fst (read_into fs 0 path ([], [])))
    \<and> (\<forall>texts. (\<forall>p \<in> set opened. texts p = sf_text fs p) \<longrightarrow> ssh_load (fs\<lparr>sf_text := texts\<rparr>) path = ssh_load fs path)
    \<and> (\<forall>hosts. ssh_load fs path = Some hosts \<longrightarrow> length hosts \<le> 512 \<and> (\<forall>h \<in> set hosts. offered (sh_alias h)))"
proof (intro exI conjI)
  have ok: "reading_ok ([], [])" by (simp add: reading_ok_def)
  note read = read_into_ok [OF ok, of fs 0 path, THEN conjunct1]
  show "distinct (fst (fst (read_into fs 0 path ([], []))))" "length (fst (fst (read_into fs 0 path ([], [])))) \<le> 64"
    using read by (simp_all add: reading_ok_def max_files_def)
  show "\<forall>texts. (\<forall>p \<in> set (fst (fst (read_into fs 0 path ([], [])))). texts p = sf_text fs p) \<longrightarrow> ssh_load (fs\<lparr>sf_text := texts\<rparr>) path = ssh_load fs path"
  proof (intro allI impI)
    fix texts
    assume "\<forall>p \<in> set (fst (fst (read_into fs 0 path ([], [])))). texts p = sf_text fs p"
    then have "read_into (fs\<lparr>sf_text := texts\<rparr>) 0 path ([], []) = read_into fs 0 path ([], [])"
      by (intro read_into_agree [OF ok]) auto
    then show "ssh_load (fs\<lparr>sf_text := texts\<rparr>) path = ssh_load fs path" by (simp add: ssh_load_def)
  qed
  show "\<forall>hosts. ssh_load fs path = Some hosts \<longrightarrow> length hosts \<le> 512 \<and> (\<forall>h \<in> set hosts. offered (sh_alias h))"
    using read by (auto simp: ssh_load_def reading_ok_def max_hosts_def split: prod.splits bool.splits dest: in_set_takeD)
qed simp

section \<open>A glob is only its beginning\<close>

text \<open>What follows the first wildcard of an include is not compared with the names found.\<close>

lemma glob_suffix_ignored:
  assumes "sf_names fs (True, [lit ''etc'']) = Some [(lit ''hosts.conf.bak'', True)]"
  shows "expand_include fs from (lit ''/etc/*.conf'') = [(True, [lit ''etc'', lit ''hosts.conf.bak''])]"
proof -
  have "split_whitespace (lit ''/etc/*.conf'') = [lit ''/etc/*.conf'']" by (simp add: split_whitespace_def lit_def is_whitespace_def)
  moreover have "trim_quotes (lit ''/etc/*.conf'') = lit ''/etc/*.conf''" by code_simp
  moreover have "strip_prefix (lit ''~/'') (lit ''/etc/*.conf'') = None" by code_simp
  moreover have "path_of (lit ''/etc/*.conf'') = (True, [lit ''etc'', lit ''*.conf''])" by code_simp
  moreover have "path_last_name (True, [lit ''etc'', lit ''*.conf'']) = Some (lit ''*.conf'')" by code_simp
  moreover have "\<exists>c \<in> set (lit ''*.conf''). is_wild c" by code_simp
  moreover have "takeWhile (\<lambda>c. \<not> is_wild c) (lit ''*.conf'') = []" by code_simp
  moreover have "path_join (True, [lit ''etc'']) (lit ''hosts.conf.bak'') = (True, [lit ''etc'', lit ''hosts.conf.bak''])" by code_simp
  moreover have "starts_with [47] (lit ''/etc/*.conf'')" by code_simp
  ultimately have "expand_entry fs from (lit ''/etc/*.conf'') = [(True, [lit ''etc'', lit ''hosts.conf.bak''])]"
    using assms by (simp only: expand_entry_def Let_def option.case if_True simp_thms path_parent_def snd_conv fst_conv list.simps)
      (simp add: starts_with_def)
  then show ?thesis using \<open>split_whitespace _ = _\<close> by (simp add: expand_include_def)
qed

section \<open>Witnesses\<close>

text \<open>A configuration that includes itself and names a host and a pattern.\<close>

definition sample_text :: ustring where
  "sample_text = lit ''Include c'' @ [10] @ lit ''Host lab web-?'' @ [10] @ lit ''Port 22''"

definition sample_files :: ssh_files where
  "sample_files = \<lparr>sf_home = None, sf_text = (\<lambda>p. if p = (True, [lit ''c'']) then Some sample_text else None), sf_names = (\<lambda>_. None)\<rparr>"

lemmas word_defs = trim_def trim_start_def trim_end_def is_whitespace_def split_whitespace_def lit_def

lemma sample_lines:
  "parse_line (lit ''Include c'') ([], []) = ([IncludeEntry (lit ''c'')], [])"
  "parse_line (lit ''Host lab web-?'') ([x], []) =
     ([x, HostEntry \<lparr>sh_alias = lit ''lab'', sh_hostname = None, sh_user = None, sh_port = None\<rparr>], [Suc 0])"
  "parse_line (lit ''Port 22'') ([x, HostEntry h], [Suc 0]) = ([x, HostEntry (h\<lparr>sh_port := Some 22\<rparr>)], [Suc 0])"
  by (simp_all add: parse_line_def split_keyword_def to_ascii_lowercase_def ascii_lower_def plain_alias_def set_field_def
     parse_unsigned_def parse_digits_def is_ascii_digit_def word_defs)

lemma sample_ssh_entries:
  "parse_into sample_text = [IncludeEntry (lit ''c''), HostEntry \<lparr>sh_alias = lit ''lab'', sh_hostname = None, sh_user = None, sh_port = Some 22\<rparr>]"
proof -
  have "str_lines sample_text = [lit ''Include c'', lit ''Host lab web-?'', lit ''Port 22'']" by code_simp
  then show ?thesis by (simp add: parse_into_def sample_lines)
qed

lemma sample_read:
  "read_into sample_files 0 (True, [lit ''c'']) ([], []) =
     (([(True, [lit ''c''])], [\<lparr>sh_alias = lit ''lab'', sh_hostname = None, sh_user = None, sh_port = Some 22\<rparr>]), True)"
proof -
  have "split_whitespace (lit ''c'') = [lit ''c'']" by (simp add: word_defs)
  moreover have "trim_quotes (lit ''c'') = lit ''c''" "strip_prefix (lit ''~/'') (lit ''c'') = None"
    "path_join (True, []) (lit ''c'') = (True, [lit ''c''])" "path_last_name (True, [lit ''c'']) = Some (lit ''c'')"
    "\<not> (\<exists>c \<in> set (lit ''c''). is_wild c)" "\<not> starts_with [47] (lit ''c'')" by code_simp+
  ultimately have "expand_include sample_files (True, [lit ''c'']) (lit ''c'') = [(True, [lit ''c''])]"
    by (simp add: expand_include_def expand_entry_def path_parent_def unwrap_or_def)
  then show ?thesis
    by (simp add: read_into_entries read_entry_def sample_ssh_entries max_include_depth_def max_files_def)
      (simp add: sample_files_def sample_ssh_entries read_entry_def read_into_entries)
qed

theorem ssh_reading_bounded_witness:
  "ssh_load sample_files (True, [lit ''c'']) = Some [\<lparr>sh_alias = lit ''lab'', sh_hostname = None, sh_user = None, sh_port = Some 22\<rparr>]
   \<and> offered (lit ''lab'')
   \<and> ssh_load (sample_files\<lparr>sf_text := (\<lambda>p. if p = (True, [lit ''c'']) then Some sample_text else Some [])\<rparr>) (True, [lit ''c'']) = ssh_load sample_files (True, [lit ''c''])"
proof -
  have opened: "fst (fst (read_into sample_files 0 (True, [lit ''c'']) ([], []))) = [(True, [lit ''c''])]"
    and loaded: "ssh_load sample_files (True, [lit ''c'']) = Some [\<lparr>sh_alias = lit ''lab'', sh_hostname = None, sh_user = None, sh_port = Some 22\<rparr>]"
    by (simp_all add: ssh_load_def sample_read max_hosts_def)
  have agree: "\<forall>texts. (\<forall>p \<in> set [(True, [lit ''c''])]. texts p = sf_text sample_files p) \<longrightarrow>
      ssh_load (sample_files\<lparr>sf_text := texts\<rparr>) (True, [lit ''c'']) = ssh_load sample_files (True, [lit ''c''])"
    and hosts: "\<forall>hosts. ssh_load sample_files (True, [lit ''c'']) = Some hosts \<longrightarrow> length hosts \<le> 512 \<and> (\<forall>h \<in> set hosts. offered (sh_alias h))"
    using ssh_reading_bounded [of sample_files "(True, [lit ''c''])"] unfolding opened by blast+
  have "sf_text sample_files (True, [lit ''c'']) = Some sample_text" by (simp add: sample_files_def)
  then have "ssh_load (sample_files\<lparr>sf_text := (\<lambda>p. if p = (True, [lit ''c'']) then Some sample_text else Some [])\<rparr>) (True, [lit ''c''])
      = ssh_load sample_files (True, [lit ''c''])"
    by (intro agree [rule_format]) simp
  moreover have "offered (lit ''lab'')" using hosts loaded by simp
  ultimately show ?thesis using loaded by simp
qed

end
