(* ===== verification/Terminal_Layout.thy ===== *)
theory Terminal_Layout
  imports Samples
begin

text \<open>
  Where the panes of a tab are drawn (\<open>src/src/tui.rs\<close>): the layout that a Herdr server reports is
  scaled onto the local terminal, and the neighbours of a pane are found by its edges. A rectangle
  of the terminal is a \<open>ratatui\<close> \<open>Rect\<close>; what a pane's border leaves of it is a parameter.
\<close>

section \<open>Rectangles\<close>

record rect =
  re_x :: u16
  re_y :: u16
  re_width :: u16
  re_height :: u16

text \<open>The cells of a rectangle, read as natural numbers.\<close>

definition rect_holds :: "rect \<Rightarrow> nat \<Rightarrow> nat \<Rightarrow> bool" where
  "rect_holds r x y \<longleftrightarrow> unat (re_x r) \<le> x \<and> x < unat (re_x r) + unat (re_width r)
     \<and> unat (re_y r) \<le> y \<and> y < unat (re_y r) + unat (re_height r)"

definition layout_holds :: "layout_rect \<Rightarrow> nat \<Rightarrow> nat \<Rightarrow> bool" where
  "layout_holds r x y \<longleftrightarrow> unat (lr_x r) \<le> x \<and> x < unat (lr_x r) + unat (lr_width r)
     \<and> unat (lr_y r) \<le> y \<and> y < unat (lr_y r) + unat (lr_height r)"

section \<open>Scaling a layout onto the terminal\<close>

definition scale_edge :: "u16 \<Rightarrow> u16 \<Rightarrow> u16 \<Rightarrow> u16" where
  "scale_edge offset source_length destination_length =
     ucast ((ucast offset * ucast destination_length :: u32) div ucast source_length)"

definition scale_layout_rect :: "layout_rect \<Rightarrow> layout_rect \<Rightarrow> rect \<Rightarrow> rect option" where
  "scale_layout_rect source pane destination =
     (if lr_width source = 0 \<or> lr_height source = 0 \<or> re_width destination = 0 \<or> re_height destination = 0 then None
      else (let left = scale_edge (saturating_sub (lr_x pane) (lr_x source)) (lr_width source) (re_width destination);
                right = scale_edge (saturating_add (saturating_sub (lr_x pane) (lr_x source)) (lr_width pane)) (lr_width source) (re_width destination);
                top = scale_edge (saturating_sub (lr_y pane) (lr_y source)) (lr_height source) (re_height destination);
                bottom = scale_edge (saturating_add (saturating_sub (lr_y pane) (lr_y source)) (lr_height pane)) (lr_height source) (re_height destination);
                left = min left (re_width destination); right = min right (re_width destination);
                top = min top (re_height destination); bottom = min bottom (re_height destination)
            in if right > left \<and> bottom > top
               then Some \<lparr>re_x = saturating_add (re_x destination) left, re_y = saturating_add (re_y destination) top,
                          re_width = right - left, re_height = bottom - top\<rparr>
               else None))"

definition selected_snapshot_and_pane :: "federation_state \<Rightarrow> pane_id option \<Rightarrow> (normalized_snapshot \<times> pane_state) option" where
  "selected_snapshot_and_pane state selected =
     Option.bind selected (\<lambda>pane. Option.bind (bt_get (fs_targets state) (qid_target_session pane)) (\<lambda>target.
     Option.bind (tr_snapshot target) (\<lambda>snapshot. map_option (Pair snapshot) (bt_get (ns_panes snapshot) pane))))"

definition visible_pane_areas :: "federation_state \<Rightarrow> pane_id option \<Rightarrow> rect \<Rightarrow> (pane_id \<times> rect) list" where
  "visible_pane_areas state selected destination = (case (selected_snapshot_and_pane state selected, selected) of
     (Some (snapshot, selected_state), Some selected) \<Rightarrow>
       (case Option.bind (pn_tab selected_state) (bt_get (ns_layouts snapshot)) of
          None \<Rightarrow> [(selected, destination)]
        | Some layout \<Rightarrow>
            if ly_zoomed layout then [(selected, destination)]
            else (let panes = List.map_filter (\<lambda>pane. map_option (Pair (lp_pane pane)) (scale_layout_rect (ly_area layout) (lp_rect pane) destination))
                    (filter (\<lambda>pane. bt_contains (lp_pane pane) (ns_panes snapshot)) (ly_panes layout))
                  in if panes = [] then [(selected, destination)] else panes))
   | _ \<Rightarrow> [])"

subsection \<open>The arithmetic of the edges\<close>

lemma u16_bound: "unat (w :: u16) < 65536"
proof -
  have "unat w < 2 ^ LENGTH(16)" by (rule unsigned_less)
  then show ?thesis by simp
qed

lemma scale_within: "(o' :: nat) \<le> source \<Longrightarrow> 0 < source \<Longrightarrow> o' * destination div source \<le> destination"
  by (metis div_le_mono mult_le_mono1 nonzero_mult_div_cancel_left not_gr_zero)

lemma unat_scale_edge:
  assumes "unat offset \<le> unat source" and "source \<noteq> 0"
  shows "unat (scale_edge offset source destination) = unat offset * unat destination div unat source"
proof -
  have "unat offset * unat destination \<le> 65535 * 65535"
    using u16_bound [of offset] u16_bound [of destination] by (intro mult_le_mono) linarith+
  then have small: "unat offset * unat destination < 2 ^ 32" by simp
  have "unat offset * unat destination div unat source \<le> unat destination"
    using assms by (intro scale_within) (auto simp: unat_gt_0)
  then have "unat offset * unat destination div unat source < 65536" using u16_bound [of destination] by linarith
  moreover have "unat x mod 4294967296 = unat x" for x :: u16 using u16_bound [of x] by simp
  ultimately show ?thesis using small
    by (simp add: scale_edge_def unsigned_ucast_eq take_bit_eq_mod unat_div unat_word_ariths)
qed

text \<open>One direction of the scaling: both edges of a pane that lies in the source.\<close>

definition scaled :: "u16 \<Rightarrow> u16 \<Rightarrow> nat \<Rightarrow> nat" where
  "scaled source_length destination_length offset = offset * unat destination_length div unat source_length"

lemma scaled_mono: "a \<le> b \<Longrightarrow> scaled s d a \<le> scaled s d b"
  by (simp add: scaled_def div_le_mono)

definition layout_inside :: "layout_rect \<Rightarrow> layout_rect \<Rightarrow> bool" where
  "layout_inside pane source \<longleftrightarrow> lr_x source \<le> lr_x pane \<and> lr_y source \<le> lr_y pane
     \<and> unat (lr_x pane) + unat (lr_width pane) \<le> unat (lr_x source) + unat (lr_width source)
     \<and> unat (lr_y pane) + unat (lr_height pane) \<le> unat (lr_y source) + unat (lr_height source)"

lemma edges_of:
  assumes "x0 \<le> x" and "unat x + unat w \<le> unat x0 + unat len" and "len \<noteq> 0"
  shows "unat (min (scale_edge (saturating_sub x x0) len dlen) dlen) = scaled len dlen (unat x - unat x0)"
    and "unat (min (scale_edge (saturating_add (saturating_sub x x0) w) len dlen) dlen) = scaled len dlen (unat x - unat x0 + unat w)"
    and "scaled len dlen (unat x - unat x0 + unat w) \<le> unat dlen"
proof -
  have len: "0 < unat len" using assms(3) by (simp add: unat_gt_0)
  have fits: "unat x - unat x0 + unat w \<le> unat len" using assms(1,2) by (simp add: word_le_nat_alt)
  then have small: "unat (saturating_sub x x0) + unat w < 2 ^ LENGTH(16)"
    using u16_bound [of len] by (simp add: unat_saturating_sub)
  have bound: "scaled len dlen k \<le> unat dlen" if "k \<le> unat len" for k
    using that len by (simp add: scaled_def scale_within)
  have edge: "unat (min (scale_edge offset len dlen) dlen) = scaled len dlen (unat offset)" if "unat offset \<le> unat len" for offset
    using unat_scale_edge [OF that assms(3), of dlen] bound [OF that]
    by (simp add: scaled_def min_def word_le_nat_alt)
  show "unat (min (scale_edge (saturating_sub x x0) len dlen) dlen) = scaled len dlen (unat x - unat x0)"
    using edge [of "saturating_sub x x0"] fits by (simp add: unat_saturating_sub)
  show "unat (min (scale_edge (saturating_add (saturating_sub x x0) w) len dlen) dlen) = scaled len dlen (unat x - unat x0 + unat w)"
    using edge [of "saturating_add (saturating_sub x x0) w"] fits small by (simp add: unat_saturating_sub unat_saturating_add)
  show "scaled len dlen (unat x - unat x0 + unat w) \<le> unat dlen" using bound fits by blast
qed

definition rect_fits :: "rect \<Rightarrow> bool" where
  "rect_fits r \<longleftrightarrow> unat (re_x r) + unat (re_width r) < 65536 \<and> unat (re_y r) + unat (re_height r) < 65536"

lemma scaled_rect:
  assumes inside: "layout_inside pane source" and fits: "rect_fits dest" and scaled: "scale_layout_rect source pane dest = Some r"
  shows "unat (re_x r) = unat (re_x dest) + scaled (lr_width source) (re_width dest) (unat (lr_x pane) - unat (lr_x source))"
    and "unat (re_x r) + unat (re_width r) = unat (re_x dest) + scaled (lr_width source) (re_width dest) (unat (lr_x pane) - unat (lr_x source) + unat (lr_width pane))"
    and "unat (re_y r) = unat (re_y dest) + scaled (lr_height source) (re_height dest) (unat (lr_y pane) - unat (lr_y source))"
    and "unat (re_y r) + unat (re_height r) = unat (re_y dest) + scaled (lr_height source) (re_height dest) (unat (lr_y pane) - unat (lr_y source) + unat (lr_height pane))"
    and "scaled (lr_width source) (re_width dest) (unat (lr_x pane) - unat (lr_x source) + unat (lr_width pane)) \<le> unat (re_width dest)"
    and "scaled (lr_height source) (re_height dest) (unat (lr_y pane) - unat (lr_y source) + unat (lr_height pane)) \<le> unat (re_height dest)"
proof -
  let ?left = "min (scale_edge (saturating_sub (lr_x pane) (lr_x source)) (lr_width source) (re_width dest)) (re_width dest)"
  let ?right = "min (scale_edge (saturating_add (saturating_sub (lr_x pane) (lr_x source)) (lr_width pane)) (lr_width source) (re_width dest)) (re_width dest)"
  let ?top = "min (scale_edge (saturating_sub (lr_y pane) (lr_y source)) (lr_height source) (re_height dest)) (re_height dest)"
  let ?bottom = "min (scale_edge (saturating_add (saturating_sub (lr_y pane) (lr_y source)) (lr_height pane)) (lr_height source) (re_height dest)) (re_height dest)"
  have some: "lr_width source \<noteq> 0" "lr_height source \<noteq> 0" and order: "?left < ?right" "?top < ?bottom"
    and r: "r = \<lparr>re_x = saturating_add (re_x dest) ?left, re_y = saturating_add (re_y dest) ?top, re_width = ?right - ?left, re_height = ?bottom - ?top\<rparr>"
    using scaled by (auto simp: scale_layout_rect_def Let_def split: if_splits)
  note horizontal = edges_of [OF _ _ some(1), of "lr_x source" "lr_x pane" "lr_width pane" "re_width dest"]
  note vertical = edges_of [OF _ _ some(2), of "lr_y source" "lr_y pane" "lr_height pane" "re_height dest"]
  have h: "lr_x source \<le> lr_x pane" "unat (lr_x pane) + unat (lr_width pane) \<le> unat (lr_x source) + unat (lr_width source)"
    and v: "lr_y source \<le> lr_y pane" "unat (lr_y pane) + unat (lr_height pane) \<le> unat (lr_y source) + unat (lr_height source)"
    using inside by (auto simp: layout_inside_def)
  show bounds: "scaled (lr_width source) (re_width dest) (unat (lr_x pane) - unat (lr_x source) + unat (lr_width pane)) \<le> unat (re_width dest)"
    "scaled (lr_height source) (re_height dest) (unat (lr_y pane) - unat (lr_y source) + unat (lr_height pane)) \<le> unat (re_height dest)"
    using horizontal(3) [OF h] vertical(3) [OF v] by auto
  have left: "unat ?left \<le> unat (re_width dest)" and top: "unat ?top \<le> unat (re_height dest)"
    by (simp_all flip: word_le_nat_alt)
  show x: "unat (re_x r) = unat (re_x dest) + scaled (lr_width source) (re_width dest) (unat (lr_x pane) - unat (lr_x source))"
    using left fits horizontal(1) [OF h] by (simp add: r unat_saturating_add rect_fits_def)
  show y: "unat (re_y r) = unat (re_y dest) + scaled (lr_height source) (re_height dest) (unat (lr_y pane) - unat (lr_y source))"
    using top fits vertical(1) [OF v] by (simp add: r unat_saturating_add rect_fits_def)
  have "unat (?right - ?left) = unat ?right - unat ?left" "unat ?left < unat ?right"
    using order(1) by (auto simp: unat_sub_if' word_less_nat_alt)
  then show "unat (re_x r) + unat (re_width r) = unat (re_x dest) + scaled (lr_width source) (re_width dest) (unat (lr_x pane) - unat (lr_x source) + unat (lr_width pane))"
    using x horizontal(1,2) [OF h] by (simp add: r)
  have "unat (?bottom - ?top) = unat ?bottom - unat ?top" "unat ?top < unat ?bottom"
    using order(2) by (auto simp: unat_sub_if' word_less_nat_alt)
  then show "unat (re_y r) + unat (re_height r) = unat (re_y dest) + scaled (lr_height source) (re_height dest) (unat (lr_y pane) - unat (lr_y source) + unat (lr_height pane))"
    using y vertical(1,2) [OF v] by (simp add: r)
qed

section \<open>The panes that are visible do not overlap\<close>

text \<open>What a server's layout is: one rectangle for each pane, inside of the area, no cell in two of them.\<close>

definition layout_tiles :: "layout_state \<Rightarrow> bool" where
  "layout_tiles layout \<longleftrightarrow> distinct (map lp_pane (ly_panes layout))
     \<and> (\<forall>p \<in> set (ly_panes layout). layout_inside (lp_rect p) (ly_area layout))
     \<and> (\<forall>p \<in> set (ly_panes layout). \<forall>q \<in> set (ly_panes layout). lp_pane p \<noteq> lp_pane q \<longrightarrow>
          (\<forall>x y. \<not> (layout_holds (lp_rect p) x y \<and> layout_holds (lp_rect q) x y)))"

lemma scaled_inside:
  assumes "layout_inside pane source" and "rect_fits dest" and "scale_layout_rect source pane dest = Some r" and "rect_holds r x y"
  shows "rect_holds dest x y"
  using scaled_rect [OF assms(1-3)] assms(4) unfolding rect_holds_def by linarith

text \<open>Intervals that share no point are ordered, and scaling keeps the order.\<close>

lemma scaled_apart:
  assumes p: "layout_inside p source" and q: "layout_inside q source" and fits: "rect_fits dest"
    and rp: "scale_layout_rect source p dest = Some rp" and rq: "scale_layout_rect source q dest = Some rq"
    and apart: "\<And>x y. \<not> (layout_holds p x y \<and> layout_holds q x y)"
  shows "\<not> (rect_holds rp x y \<and> rect_holds rq x y)"
proof
  assume both: "rect_holds rp x y \<and> rect_holds rq x y"
  note sp = scaled_rect [OF p fits rp] and sq = scaled_rect [OF q fits rq]
  let ?fx = "scaled (lr_width source) (re_width dest)" and ?fy = "scaled (lr_height source) (re_height dest)"
  have crossing: "unat (lr_x p) < unat (lr_x q) + unat (lr_width q)" "unat (lr_x q) < unat (lr_x p) + unat (lr_width p)"
    "unat (lr_y p) < unat (lr_y q) + unat (lr_height q)" "unat (lr_y q) < unat (lr_y p) + unat (lr_height p)"
  proof -
    have below: "a < b" if "f (a - c) < f (b - c)" "\<And>m n. m \<le> n \<Longrightarrow> f m \<le> f n" for f :: "nat \<Rightarrow> nat" and a b c :: nat
      using that by (metis diff_le_mono linorder_not_less)
    have px: "unat (lr_x p) - unat (lr_x source) + unat (lr_width p) = unat (lr_x p) + unat (lr_width p) - unat (lr_x source)"
      and qx: "unat (lr_x q) - unat (lr_x source) + unat (lr_width q) = unat (lr_x q) + unat (lr_width q) - unat (lr_x source)"
      and py: "unat (lr_y p) - unat (lr_y source) + unat (lr_height p) = unat (lr_y p) + unat (lr_height p) - unat (lr_y source)"
      and qy: "unat (lr_y q) - unat (lr_y source) + unat (lr_height q) = unat (lr_y q) + unat (lr_height q) - unat (lr_y source)"
      using p q by (auto simp: layout_inside_def word_le_nat_alt)
    have scaled_order: "?fx (unat (lr_x p) - unat (lr_x source)) < ?fx (unat (lr_x q) + unat (lr_width q) - unat (lr_x source))"
      "?fx (unat (lr_x q) - unat (lr_x source)) < ?fx (unat (lr_x p) + unat (lr_width p) - unat (lr_x source))"
      "?fy (unat (lr_y p) - unat (lr_y source)) < ?fy (unat (lr_y q) + unat (lr_height q) - unat (lr_y source))"
      "?fy (unat (lr_y q) - unat (lr_y source)) < ?fy (unat (lr_y p) + unat (lr_height p) - unat (lr_y source))"
      using both sp sq unfolding rect_holds_def px qx py qy by linarith+
    from below [OF scaled_order(1) scaled_mono] show "unat (lr_x p) < unat (lr_x q) + unat (lr_width q)" .
    from below [OF scaled_order(2) scaled_mono] show "unat (lr_x q) < unat (lr_x p) + unat (lr_width p)" .
    from below [OF scaled_order(3) scaled_mono] show "unat (lr_y p) < unat (lr_y q) + unat (lr_height q)" .
    from below [OF scaled_order(4) scaled_mono] show "unat (lr_y q) < unat (lr_y p) + unat (lr_height p)" .
  qed
  have nonempty: "0 < unat (lr_width p)" "0 < unat (lr_height p)" "0 < unat (lr_width q)" "0 < unat (lr_height q)"
    using both sp sq unfolding rect_holds_def by (auto intro!: gr0I)
  have "layout_holds p (max (unat (lr_x p)) (unat (lr_x q))) (max (unat (lr_y p)) (unat (lr_y q)))
      \<and> layout_holds q (max (unat (lr_x p)) (unat (lr_x q))) (max (unat (lr_y p)) (unat (lr_y q)))"
    using crossing nonempty by (auto simp: layout_holds_def max_def)
  with apart show False by blast
qed

lemma visible_cases:
  assumes "(p, r) \<in> set (visible_pane_areas state (Some selected) dest)"
  shows "p = selected \<and> visible_pane_areas state (Some selected) dest = [(selected, dest)]
    \<or> (\<exists>snapshot shown layout lp. selected_snapshot_and_pane state (Some selected) = Some (snapshot, shown)
        \<and> Option.bind (pn_tab shown) (bt_get (ns_layouts snapshot)) = Some layout \<and> lp \<in> set (ly_panes layout)
        \<and> lp_pane lp = p \<and> scale_layout_rect (ly_area layout) (lp_rect lp) dest = Some r)"
proof (cases "selected_snapshot_and_pane state (Some selected)")
  case None
  then show ?thesis using assms by (simp add: visible_pane_areas_def)
next
  case (Some at)
  obtain snapshot shown where at: "at = (snapshot, shown)" by fastforce
  show ?thesis
  proof (cases "Option.bind (pn_tab shown) (bt_get (ns_layouts snapshot))")
    case None
    then show ?thesis using assms Some at by (simp add: visible_pane_areas_def)
  next
    case layout: (Some layout)
    let ?areas = "List.map_filter (\<lambda>pane. map_option (Pair (lp_pane pane)) (scale_layout_rect (ly_area layout) (lp_rect pane) dest))
      (filter (\<lambda>pane. bt_contains (lp_pane pane) (ns_panes snapshot)) (ly_panes layout))"
    have areas: "visible_pane_areas state (Some selected) dest = (if ly_zoomed layout \<or> ?areas = [] then [(selected, dest)] else ?areas)"
      using Some at layout by (simp add: visible_pane_areas_def)
    show ?thesis
    proof (cases "ly_zoomed layout \<or> ?areas = []")
      case True
      then show ?thesis using assms unfolding areas by auto
    next
      case False
      then have "(p, r) \<in> set ?areas" using assms unfolding areas by auto
      then have "\<exists>lp \<in> set (ly_panes layout). lp_pane lp = p \<and> scale_layout_rect (ly_area layout) (lp_rect lp) dest = Some r"
        by (auto simp: List.map_filter_def)
      then show ?thesis using Some at layout by blast
    qed
  qed
qed

text \<open>
  C24. The panes of a tab are drawn where no two of them share a cell and none leaves the screen
  that it is given: whatever the size of the local terminal, when the server's layout is a tiling
  - panes inside of its area that do not overlap - its image on the screen is one, so the cell
  under the pointer belongs to one pane only.
\<close>

theorem visible_panes_apart:
  assumes fits: "rect_fits dest"
    and tiles: "\<forall>snapshot shown layout. selected_snapshot_and_pane state selected = Some (snapshot, shown) \<longrightarrow>
      Option.bind (pn_tab shown) (bt_get (ns_layouts snapshot)) = Some layout \<longrightarrow> layout_tiles layout"
    and p: "(p, rp) \<in> set (visible_pane_areas state selected dest)" and q: "(q, rq) \<in> set (visible_pane_areas state selected dest)"
  shows "(rect_holds rp x y \<longrightarrow> rect_holds dest x y) \<and> (rect_holds rp x y \<and> rect_holds rq x y \<longrightarrow> p = q \<and> rp = rq)"
proof -
  obtain s where s: "selected = Some s"
    using p by (cases selected) (auto simp: visible_pane_areas_def selected_snapshot_and_pane_def)
  show ?thesis
  proof (cases "visible_pane_areas state selected dest = [(s, dest)]")
    case True
    then show ?thesis using p q by auto
  next
    case False
    then obtain snapshot shown layout lp where
      at: "selected_snapshot_and_pane state selected = Some (snapshot, shown)" "Option.bind (pn_tab shown) (bt_get (ns_layouts snapshot)) = Some layout"
      and lp: "lp \<in> set (ly_panes layout)" "lp_pane lp = p" "scale_layout_rect (ly_area layout) (lp_rect lp) dest = Some rp"
      using visible_cases [of p rp state s dest] p s by auto
    obtain lq where lq: "lq \<in> set (ly_panes layout)" "lp_pane lq = q" "scale_layout_rect (ly_area layout) (lp_rect lq) dest = Some rq"
      using visible_cases [of q rq state s dest] q s False at by auto
    have tiling: "layout_tiles layout" using tiles at by blast
    then have inside: "layout_inside (lp_rect lp) (ly_area layout)" "layout_inside (lp_rect lq) (ly_area layout)"
      using lp(1) lq(1) by (auto simp: layout_tiles_def)
    have "lp = lq" if "p = q" using tiling lp lq that by (metis layout_tiles_def distinct_map inj_onD)
    moreover have "\<not> (rect_holds rp x y \<and> rect_holds rq x y)" if "p \<noteq> q"
      using scaled_apart [OF inside fits lp(3) lq(3)] tiling lp(1,2) lq(1,2) that by (auto simp: layout_tiles_def)
    ultimately show ?thesis using scaled_inside [OF inside(1) fits lp(3)] lp(3) lq(3) by (metis option.inject)
  qed
qed

text \<open>
  A pane that the server places outside of its area is not clamped to the screen as the code means
  it to be: the scaled edge is cut to sixteen bits before it is compared with the width.
\<close>

lemma far_pane_wraps:
  "scale_layout_rect \<lparr>lr_x = 0, lr_y = 0, lr_width = 80, lr_height = 24\<rparr> \<lparr>lr_x = 26215, lr_y = 0, lr_width = 40, lr_height = 24\<rparr>
     \<lparr>re_x = 0, re_y = 0, re_width = 200, re_height = 50\<rparr>
   = Some \<lparr>re_x = 1, re_y = 0, re_width = 100, re_height = 50\<rparr>"
  by code_simp

section \<open>Neighbours\<close>

datatype pane_direction = ToLeft | ToRight | ToUp | ToDown

definition interval_distance :: "u32 \<Rightarrow> u32 \<Rightarrow> u32 \<Rightarrow> u32 \<Rightarrow> u32" where
  "interval_distance first_start first_end second_start second_end =
     (if first_end < second_start then second_start - first_end else saturating_sub first_start second_end)"

definition pane_direction_score :: "layout_rect \<Rightarrow> layout_rect \<Rightarrow> pane_direction \<Rightarrow> (u32 \<times> u32) option" where
  "pane_direction_score current candidate direction =
     (let current_right = ucast (lr_x current) + ucast (lr_width current); candidate_right = ucast (lr_x candidate) + ucast (lr_width candidate);
          current_bottom = ucast (lr_y current) + ucast (lr_height current); candidate_bottom = ucast (lr_y candidate) + ucast (lr_height candidate);
          current_x = ucast (lr_x current); candidate_x = ucast (lr_x candidate);
          current_y = ucast (lr_y current); candidate_y = ucast (lr_y candidate)
      in case direction of
           ToLeft \<Rightarrow> if candidate_right \<le> current_x
             then Some (current_x - candidate_right, interval_distance current_y current_bottom candidate_y candidate_bottom) else None
         | ToRight \<Rightarrow> if candidate_x \<ge> current_right
             then Some (candidate_x - current_right, interval_distance current_y current_bottom candidate_y candidate_bottom) else None
         | ToUp \<Rightarrow> if candidate_bottom \<le> current_y
             then Some (current_y - candidate_bottom, interval_distance current_x current_right candidate_x candidate_right) else None
         | ToDown \<Rightarrow> if candidate_y \<ge> current_bottom
             then Some (candidate_y - current_bottom, interval_distance current_x current_right candidate_x candidate_right) else None)"

text \<open>\<open>min_by_key\<close> and \<open>max_by_key\<close>: the first of the smallest, the last of the largest.\<close>

fun min_by_key :: "('a \<Rightarrow> 'k::linorder) \<Rightarrow> 'a list \<Rightarrow> 'a option" where
  "min_by_key f [] = None"
| "min_by_key f (x # xs) = (case min_by_key f xs of None \<Rightarrow> Some x | Some y \<Rightarrow> if f x \<le> f y then Some x else Some y)"

fun max_by_key :: "('a \<Rightarrow> 'k::linorder) \<Rightarrow> 'a list \<Rightarrow> 'a option" where
  "max_by_key f [] = None"
| "max_by_key f (x # xs) = (case max_by_key f xs of None \<Rightarrow> Some x | Some y \<Rightarrow> if f x > f y then Some x else Some y)"

lemma min_by_key_None [simp]: "min_by_key f xs = None \<longleftrightarrow> xs = []"
  by (cases xs) (auto split: option.splits)

lemma max_by_key_None [simp]: "max_by_key f xs = None \<longleftrightarrow> xs = []"
  by (cases xs) (auto split: option.splits)

lemma min_by_key_Some: "min_by_key f xs = Some x \<Longrightarrow> x \<in> set xs \<and> (\<forall>y \<in> set xs. f x \<le> f y)"
  by (induction xs arbitrary: x) (auto split: option.splits if_splits intro: order_trans less_imp_le)

lemma max_by_key_Some: "max_by_key f xs = Some x \<Longrightarrow> x \<in> set xs \<and> (\<forall>y \<in> set xs. f y \<le> f x)"
  by (induction xs arbitrary: x) (auto split: option.splits if_splits intro: order_trans less_imp_le)

definition neighbor_pane :: "layout_state \<Rightarrow> layout_pane \<Rightarrow> pane_direction \<Rightarrow> pane_id option" where
  "neighbor_pane layout current direction =
     map_option snd (min_by_key id (List.map_filter (\<lambda>candidate. map_option (\<lambda>score. (score, lp_pane candidate))
         (pane_direction_score (lp_rect current) (lp_rect candidate) direction))
       (filter (\<lambda>candidate. lp_pane candidate \<noteq> lp_pane current) (ly_panes layout))))"

text \<open>Whether a rectangle lies wholly on one side of another.\<close>

definition lies :: "pane_direction \<Rightarrow> layout_rect \<Rightarrow> layout_rect \<Rightarrow> bool" where
  "lies direction candidate current = (case direction of
     ToLeft \<Rightarrow> unat (lr_x candidate) + unat (lr_width candidate) \<le> unat (lr_x current)
   | ToRight \<Rightarrow> unat (lr_x current) + unat (lr_width current) \<le> unat (lr_x candidate)
   | ToUp \<Rightarrow> unat (lr_y candidate) + unat (lr_height candidate) \<le> unat (lr_y current)
   | ToDown \<Rightarrow> unat (lr_y current) + unat (lr_height current) \<le> unat (lr_y candidate))"

lemma widened: "unat (ucast (a :: u16) + ucast (b :: u16) :: u32) = unat a + unat b" "unat (ucast (a :: u16) :: u32) = unat a"
proof -
  have "unat x mod 4294967296 = unat x" for x :: u16 using u16_bound [of x] by simp
  then show "unat (ucast a + ucast b :: u32) = unat a + unat b" "unat (ucast a :: u32) = unat a"
    using u16_bound [of a] u16_bound [of b] by (simp_all add: unat_word_ariths unsigned_ucast_eq take_bit_eq_mod)
qed

lemma score_lies: "pane_direction_score current candidate direction \<noteq> None \<longleftrightarrow> lies direction candidate current"
  by (cases direction) (simp_all add: pane_direction_score_def lies_def Let_def word_le_nat_alt widened)

text \<open>The neighbour lies on that side, and there is one whenever some other pane does.\<close>

lemma neighbor_lies:
  assumes "neighbor_pane layout current direction = Some pane"
  shows "\<exists>candidate \<in> set (ly_panes layout). lp_pane candidate = pane \<and> pane \<noteq> lp_pane current \<and> lies direction (lp_rect candidate) (lp_rect current)"
proof -
  obtain score where "(score, pane) \<in> set (List.map_filter (\<lambda>candidate. map_option (\<lambda>score. (score, lp_pane candidate))
         (pane_direction_score (lp_rect current) (lp_rect candidate) direction))
       (filter (\<lambda>candidate. lp_pane candidate \<noteq> lp_pane current) (ly_panes layout)))"
    using assms min_by_key_Some unfolding neighbor_pane_def by fastforce
  then obtain candidate where candidate: "candidate \<in> set (ly_panes layout)" "lp_pane candidate \<noteq> lp_pane current" "lp_pane candidate = pane"
    "pane_direction_score (lp_rect current) (lp_rect candidate) direction \<noteq> None"
    by (auto simp: List.map_filter_def)
  then show ?thesis using score_lies by blast
qed

lemma neighbor_found:
  assumes "candidate \<in> set (ly_panes layout)" and "lp_pane candidate \<noteq> lp_pane current" and "lies direction (lp_rect candidate) (lp_rect current)"
  shows "neighbor_pane layout current direction \<noteq> None"
  using assms score_lies by (auto simp: neighbor_pane_def List.map_filter_def filter_empty_conv)

section \<open>Witnesses\<close>

definition split_tab :: tab_id where
  "split_tab = QualifiedId (lit ''alpha'') (lit ''dev'') (lit ''w1:t1'')"

definition split_pane :: "ustring \<Rightarrow> pane_id" where
  "split_pane resource = QualifiedId (lit ''alpha'') (lit ''dev'') resource"

definition split_layout :: layout_state where
  "split_layout = \<lparr>ly_workspace = QualifiedId (lit ''alpha'') (lit ''dev'') (lit ''w1''), ly_tab = split_tab, ly_zoomed = False,
     ly_area = \<lparr>lr_x = 0, lr_y = 0, lr_width = 80, lr_height = 24\<rparr>, ly_focused_pane = split_pane (lit ''p1''),
     ly_panes = [\<lparr>lp_pane = split_pane (lit ''p1''), lp_focused = True, lp_rect = \<lparr>lr_x = 0, lr_y = 0, lr_width = 27, lr_height = 24\<rparr>\<rparr>,
                 \<lparr>lp_pane = split_pane (lit ''p2''), lp_focused = False, lp_rect = \<lparr>lr_x = 27, lr_y = 0, lr_width = 53, lr_height = 24\<rparr>\<rparr>]\<rparr>"

definition split_snapshot :: normalized_snapshot where
  "split_snapshot = sample_snapshot (lit ''alpha'') [] \<lparr>ns_panes := bt_collect (map (\<lambda>p. (p, \<lparr>pn_id = p, pn_workspace = None,
        pn_tab = Some split_tab, pn_terminal = None, pn_label = None, pn_focused = True, pn_agent = None,
        pn_agent_status = None, pn_revision = None\<rparr>)) [split_pane (lit ''p1''), split_pane (lit ''p2'')]),
      ns_layouts := bt_collect [(split_tab, split_layout)]\<rparr>"

definition split_state :: federation_state where
  "split_state = \<lparr>fs_revision = 1, fs_targets = bt_collect [(TargetSession (lit ''alpha'') (lit ''dev''),
     sample_runtime (lit ''alpha'') Live [] \<lparr>tr_snapshot := Some split_snapshot\<rparr>)]\<rparr>"

lemma split_shown: "\<exists>shown. selected_snapshot_and_pane split_state (Some (split_pane (lit ''p1''))) = Some (split_snapshot, shown)
    \<and> Option.bind (pn_tab shown) (bt_get (ns_layouts split_snapshot)) = Some split_layout"
  by (simp add: selected_snapshot_and_pane_def split_state_def split_snapshot_def split_pane_def bt_get_collect)

lemma split_visible: "visible_pane_areas split_state (Some (split_pane (lit ''p1''))) \<lparr>re_x = 20, re_y = 1, re_width = 41, re_height = 10\<rparr>
    = [(split_pane (lit ''p1''), \<lparr>re_x = 20, re_y = 1, re_width = 13, re_height = 10\<rparr>),
       (split_pane (lit ''p2''), \<lparr>re_x = 33, re_y = 1, re_width = 28, re_height = 10\<rparr>)]"
  by code_simp

lemma split_tiles: "layout_tiles split_layout"
proof -
  have "lit ''p1'' \<noteq> lit ''p2''" by code_simp
  then have names: "split_pane (lit ''p1'') \<noteq> split_pane (lit ''p2'')" by (simp add: split_pane_def)
  show ?thesis unfolding layout_tiles_def
  proof (intro conjI)
    show "distinct (map lp_pane (ly_panes split_layout))" using names by (simp add: split_layout_def)
    show "\<forall>p \<in> set (ly_panes split_layout). layout_inside (lp_rect p) (ly_area split_layout)"
      by (simp add: split_layout_def layout_inside_def)
    show "\<forall>p \<in> set (ly_panes split_layout). \<forall>q \<in> set (ly_panes split_layout). lp_pane p \<noteq> lp_pane q \<longrightarrow>
          (\<forall>x y. \<not> (layout_holds (lp_rect p) x y \<and> layout_holds (lp_rect q) x y))"
      by (auto simp: split_layout_def layout_holds_def)
  qed
qed

theorem visible_panes_apart_witness:
  "(\<forall>x y. \<not> (rect_holds \<lparr>re_x = 20, re_y = 1, re_width = 13, re_height = 10\<rparr> x y \<and> rect_holds \<lparr>re_x = 33, re_y = 1, re_width = 28, re_height = 10\<rparr> x y))
   \<and> length (visible_pane_areas split_state (Some (split_pane (lit ''p1''))) \<lparr>re_x = 20, re_y = 1, re_width = 41, re_height = 10\<rparr>) = 2"
proof -
  have "rect_fits \<lparr>re_x = 20, re_y = 1, re_width = 41, re_height = 10\<rparr>" by (simp add: rect_fits_def)
  moreover have "\<forall>snapshot shown layout. selected_snapshot_and_pane split_state (Some (split_pane (lit ''p1''))) = Some (snapshot, shown) \<longrightarrow>
      Option.bind (pn_tab shown) (bt_get (ns_layouts snapshot)) = Some layout \<longrightarrow> layout_tiles layout"
    using split_shown split_tiles by auto
  ultimately have "\<forall>x y. rect_holds \<lparr>re_x = 20, re_y = 1, re_width = 13, re_height = 10\<rparr> x y \<and> rect_holds \<lparr>re_x = 33, re_y = 1, re_width = 28, re_height = 10\<rparr> x y
      \<longrightarrow> split_pane (lit ''p1'') = split_pane (lit ''p2'')"
    using visible_panes_apart [of "\<lparr>re_x = 20, re_y = 1, re_width = 41, re_height = 10\<rparr>" split_state "Some (split_pane (lit ''p1''))"
        "split_pane (lit ''p1'')" "\<lparr>re_x = 20, re_y = 1, re_width = 13, re_height = 10\<rparr>" "split_pane (lit ''p2'')" "\<lparr>re_x = 33, re_y = 1, re_width = 28, re_height = 10\<rparr>"]
    by (auto simp: split_visible)
  moreover have "lit ''p1'' \<noteq> lit ''p2''" by code_simp
  then have "split_pane (lit ''p1'') \<noteq> split_pane (lit ''p2'')" by (simp add: split_pane_def)
  ultimately show ?thesis unfolding split_visible by auto
qed

end
