(* ===== verification/Terminal_Files.thy ===== *)
theory Terminal_Files
  imports Transport Ordered_Map
begin

text \<open>
  Files that are dropped on the terminal client or named in it (\<open>src/src/tui.rs\<close>): how the text of a
  drop is read, and the batches of uploads whose verified paths are pasted together. A path is its
  text; the home directory and which paths are regular files are parameters.
\<close>

section \<open>Reading a drop\<close>

text \<open>What stands inside of a quote, up to the quote that closes it.\<close>

fun read_quoted :: "uchar \<Rightarrow> ustring \<Rightarrow> (ustring \<times> ustring) option" where
  "read_quoted q [] = None"
| "read_quoted q (c # s) =
     (if c = q then Some ([], s)
      else if c = 92 \<and> q = 34
      then (case s of [] \<Rightarrow> None | d # s \<Rightarrow> map_option (map_prod (\<lambda>held. 92 # d # held) id) (read_quoted q s))
      else map_option (map_prod (Cons c) id) (read_quoted q s))"

lemma read_quoted_shorter: "read_quoted q s = Some (held, rest) \<Longrightarrow> length rest < length s"
  by (induction q s arbitrary: held rule: read_quoted.induct) (fastforce split: if_splits list.splits)+

function shell_words_from :: "ustring \<Rightarrow> bool \<Rightarrow> ustring \<Rightarrow> ustring list option" where
  "shell_words_from word started [] = Some (if started then [word] else [])"
| "shell_words_from word started (c # s) =
     (if c = 92 then (case s of [] \<Rightarrow> None | d # s \<Rightarrow> shell_words_from (word @ [92, d]) True s)
      else if c = 39 \<or> c = 34
      then (case read_quoted c s of None \<Rightarrow> None | Some (held, rest) \<Rightarrow> shell_words_from (word @ c # held @ [c]) True rest)
      else if is_whitespace c
      then (if started then map_option (Cons word) (shell_words_from [] False s) else shell_words_from word False s)
      else shell_words_from (word @ [c]) True s)"
  by pat_completeness auto
termination
  by (relation "measure (\<lambda>(_, _, s). length s)") (auto dest: read_quoted_shorter)

definition shell_words :: "ustring \<Rightarrow> ustring list option" where
  "shell_words s = shell_words_from [] False s"

fun unescaped :: "ustring \<Rightarrow> ustring" where
  "unescaped [] = []"
| "unescaped (c # s) = (if c \<noteq> 92 then c # unescaped s else case s of [] \<Rightarrow> [92] | d # s \<Rightarrow> d # unescaped s)"

text \<open>\<open>replace\<close> of a quote that was closed, escaped and opened again.\<close>

fun reopened :: "ustring \<Rightarrow> ustring" where
  "reopened (a # b # c # d # s) =
     (if [a, b, c, d] = [39, 92, 39, 39] then 39 # reopened s else a # reopened (b # c # d # s))"
| "reopened s = s"

definition home_path :: "ustring \<Rightarrow> ustring \<Rightarrow> ustring" where
  "home_path home rest = (if home \<noteq> [] \<and> last home \<noteq> 47 then home @ [47] else home) @ rest"

definition dropped_path :: "ustring option \<Rightarrow> ustring \<Rightarrow> ustring" where
  "dropped_path home raw =
     (let s = trim raw;
          unquoted = (if length s \<ge> 2 \<and> hd s = 39 \<and> last s = 39 then reopened (butlast (tl s))
            else if length s \<ge> 2 \<and> hd s = 34 \<and> last s = 34 then unescaped (butlast (tl s))
            else unescaped s)
      in if starts_with [126] unquoted \<and> (tl unquoted = [] \<or> hd (tl unquoted) = 47)
         then (case home of Some home \<Rightarrow> home_path home (dropWhile (\<lambda>c. c = 47) (tl unquoted)) | None \<Rightarrow> unquoted)
         else unquoted)"

definition dropped_files :: "ustring option \<Rightarrow> (ustring \<Rightarrow> bool) \<Rightarrow> ustring \<Rightarrow> ustring list" where
  "dropped_files home is_file dropped = (case shell_words dropped of
     None \<Rightarrow> []
   | Some words \<Rightarrow>
       if words = [] then []
       else (let paths = map (dropped_path home) words
             in if list_all (\<lambda>path. starts_with [47] path \<and> is_file path) paths then paths else []))"

subsection \<open>What this program spells it also reads\<close>

definition enquoted :: "ustring \<Rightarrow> ustring" where
  "enquoted path = concat (map (\<lambda>c. if c = 39 then [39, 92, 39, 39] else [c]) path)"

lemma enquoted_simps [simp]:
  "enquoted [] = []" "enquoted (39 # s) = 39 # 92 # 39 # 39 # enquoted s" "c \<noteq> 39 \<Longrightarrow> enquoted (c # s) = c # enquoted s"
  "enquoted (s @ t) = enquoted s @ enquoted t"
  by (simp_all add: enquoted_def)

lemma quoted_path_enquoted: "shell_quoted_path path = 39 # enquoted path @ [39]"
  by (simp add: shell_quoted_path_def enquoted_def)

lemma enquoted_plain: "39 \<notin> set s \<Longrightarrow> enquoted s = s"
  by (induction s) auto

lemma read_quoted_plain: "39 \<notin> set s \<Longrightarrow> read_quoted 39 (s @ 39 # rest) = Some (s, rest)"
  by (induction s) auto

lemma shell_words_quoted:
  "shell_words_from word started (39 # enquoted path @ 39 # rest) = shell_words_from (word @ 39 # enquoted path @ [39]) True rest"
proof (induction path arbitrary: word started rule: measure_induct_rule [where f = length])
  case (less path)
  show ?case
  proof (cases "39 \<in> set path")
    case False
    then show ?thesis by (simp add: enquoted_plain read_quoted_plain)
  next
    case True
    then obtain a b where path: "path = a @ 39 # b" "39 \<notin> set a" by (metis split_list_first)
    have "shell_words_from word started (39 # enquoted path @ 39 # rest)
        = shell_words_from (word @ 39 # a @ [39]) True (92 # 39 # 39 # enquoted b @ 39 # rest)"
      by (simp add: path enquoted_plain read_quoted_plain)
    also have "\<dots> = shell_words_from (word @ 39 # a @ [39, 92, 39]) True (39 # enquoted b @ 39 # rest)"
      by simp
    also have "\<dots> = shell_words_from (word @ 39 # a @ [39, 92, 39] @ 39 # enquoted b @ [39]) True rest"
      using less [of b "word @ 39 # a @ [39, 92, 39]" True] path(1) by simp
    finally show ?thesis by (simp add: path enquoted_plain)
  qed
qed

lemma shell_word_first:
  "shell_words_from [] False (shell_quoted_path p @ 32 # rest) = map_option (Cons (shell_quoted_path p)) (shell_words_from [] False rest)"
  "shell_words_from [] False (shell_quoted_path p) = Some [shell_quoted_path p]"
proof -
  have space: "is_whitespace 32" by (simp add: is_whitespace_def)
  have "shell_words_from [] False (shell_quoted_path p @ 32 # rest) = shell_words_from (shell_quoted_path p) True (32 # rest)"
    using shell_words_quoted [of "[]" False p "32 # rest"] unfolding quoted_path_enquoted by (simp only: append_Cons append_Nil append.assoc)
  then show "shell_words_from [] False (shell_quoted_path p @ 32 # rest) = map_option (Cons (shell_quoted_path p)) (shell_words_from [] False rest)"
    using space by simp
  have "shell_words_from [] False (shell_quoted_path p) = shell_words_from (shell_quoted_path p) True []"
    using shell_words_quoted [of "[]" False p "[]"] unfolding quoted_path_enquoted by (simp only: append_Cons append_Nil append.assoc)
  then show "shell_words_from [] False (shell_quoted_path p) = Some [shell_quoted_path p]" by simp
qed

lemma shell_words_pasted: "shell_words (pasted_paths paths) = Some (map shell_quoted_path paths)"
proof -
  have "shell_words_from [] False (join_with [32] (map shell_quoted_path paths)) = Some (map shell_quoted_path paths)"
  proof (induction paths rule: induct_list012)
    case (3 p q paths)
    then show ?case by (simp add: shell_word_first)
  qed (simp_all add: shell_word_first)
  then show ?thesis by (simp add: shell_words_def pasted_paths_def)
qed

lemma reopened_plain: "c \<noteq> 39 \<Longrightarrow> reopened (c # s) = c # reopened s"
  by (cases "(c # s)" rule: reopened.cases) auto

lemma reopened_quote: "reopened (39 # 92 # 39 # 39 # s) = 39 # reopened s"
  by simp

lemma reopened_enquoted: "reopened (enquoted path) = path"
proof (induction path)
  case (Cons c path)
  then show ?case by (cases "c = 39") (simp_all add: reopened_plain reopened_quote del: reopened.simps)
qed simp

lemma dropped_path_quoted:
  assumes "starts_with [47] path"
  shows "dropped_path home (shell_quoted_path path) = path"
proof -
  have quote: "\<not> is_whitespace 39" by (simp add: is_whitespace_def)
  have "trim (shell_quoted_path path) = shell_quoted_path path"
    using quote by (simp add: trim_def trim_start_def trim_end_def quoted_path_enquoted)
  moreover have "path \<noteq> []" "hd path = 47" using assms by (auto simp: starts_with_def take_Suc split: list.splits) (cases path; simp)+
  then have "\<not> starts_with [126] path" by (cases path) (auto simp: starts_with_def)
  ultimately show ?thesis
    by (simp add: dropped_path_def Let_def quoted_path_enquoted reopened_enquoted)
qed

text \<open>
  C23. A path that this program pastes into a terminal is, dropped back on it, the same file. The
  words of the pasted text are read one for one, whatever the paths contain - spaces, quotes,
  backslashes - and when they name regular files exactly those files are sent, in their order.
\<close>

theorem dropped_roundtrip:
  assumes "paths \<noteq> []" and "\<forall>path \<in> set paths. starts_with [47] path \<and> is_file path"
  shows "dropped_files home is_file (pasted_paths paths) = paths"
proof -
  have "map (dropped_path home) (map shell_quoted_path paths) = paths"
    using assms(2) dropped_path_quoted by (simp add: map_idI)
  then show ?thesis using assms
    by (simp add: dropped_files_def shell_words_pasted Let_def list_all_iff del: map_map)
qed

theorem dropped_roundtrip_witness:
  "dropped_files None (\<lambda>path. length path > 1) (pasted_paths [lit ''/a b'', [47, 39, 92, 39, 39, 34]]) = [lit ''/a b'', [47, 39, 92, 39, 39, 34]]"
  by (rule dropped_roundtrip) (simp_all add: starts_with_def lit_def)

text \<open>A file whose name ends in a space, spelled with backslashes as some terminals do, is not found:
  the word is trimmed before it is unescaped, and a backslash is left in place of the space.\<close>

lemma last_space_lost: "dropped_path home (lit ''/a'' @ [92, 32]) = lit ''/a'' @ [92]"
  by (simp add: dropped_path_def trim_def trim_start_def trim_end_def is_whitespace_def lit_def starts_with_def)

section \<open>Batches of uploads\<close>

record pending_upload =
  pu_described :: ustring
  pu_batch :: "(u64 \<times> nat) option"

record upload_batch =
  ub_expected :: nat
  ub_paths :: "(nat, ustring) btmap"
  ub_failures :: "ustring list"

record uploads =
  us_pending :: "(u64, pending_upload) btmap"
  us_batches :: "(u64, upload_batch) btmap"
  us_next :: u64

text \<open>What an answer comes to: a batch that is settled with its report, or an upload of its own.\<close>

datatype upload_outcome =
    BatchSettled u64 "ustring list" "ustring option"
  | PathUploaded ustring ustring
  | UploadRefused ustring

definition settled_batch :: "upload_batch \<Rightarrow> ustring list \<times> ustring option" where
  "settled_batch b = (let paths = bt_values (ub_paths b)
     in (paths, if ub_failures b = [] then None
         else Some (lit ''uploaded '' @ show_nat (length paths) @ lit '' of '' @ show_nat (ub_expected b) @ lit ''; ''
           @ show_nat (length (ub_failures b)) @ lit '' did not arrive: '' @ join_with (lit '', '') (ub_failures b))))"

definition settle_upload_batch :: "u64 \<Rightarrow> uploads \<Rightarrow> uploads \<times> upload_outcome list" where
  "settle_upload_batch batch us = (case bt_get (us_batches us) batch of
     None \<Rightarrow> (us, [])
   | Some b \<Rightarrow>
       if bt_len (ub_paths b) + length (ub_failures b) < ub_expected b then (us, [])
       else (us\<lparr>us_batches := bt_remove batch (us_batches us)\<rparr>,
             case settled_batch b of (paths, report) \<Rightarrow> [BatchSettled batch paths report]))"

definition upload_complete :: "u64 \<Rightarrow> ustring \<Rightarrow> uploads \<Rightarrow> uploads \<times> upload_outcome list" where
  "upload_complete request path us = (case bt_get (us_pending us) request of
     None \<Rightarrow> (us, [])
   | Some pending \<Rightarrow>
       (let us = us\<lparr>us_pending := bt_remove request (us_pending us)\<rparr>
        in case pu_batch pending of
             Some (batch, position) \<Rightarrow>
               settle_upload_batch batch (us\<lparr>us_batches := bt_adjust batch (\<lambda>b. b\<lparr>ub_paths := bt_insert position path (ub_paths b)\<rparr>) (us_batches us)\<rparr>)
           | None \<Rightarrow> (us, [PathUploaded path (pu_described pending)])))"

definition fail_upload :: "u64 \<Rightarrow> ustring \<Rightarrow> uploads \<Rightarrow> uploads \<times> upload_outcome list" where
  "fail_upload request message us = (case bt_get (us_pending us) request of
     None \<Rightarrow> (us, [])
   | Some pending \<Rightarrow>
       (let us = us\<lparr>us_pending := bt_remove request (us_pending us)\<rparr>; line = pu_described pending @ lit '': '' @ message
        in case pu_batch pending of
             Some (batch, position) \<Rightarrow>
               settle_upload_batch batch (us\<lparr>us_batches := bt_adjust batch (\<lambda>b. b\<lparr>ub_failures := ub_failures b @ [line]\<rparr>) (us_batches us)\<rparr>)
           | None \<Rightarrow> (us, [UploadRefused line])))"

text \<open>Offering files: the request that the connection allots to each is given with its name.\<close>

definition send_local_files :: "(u64 \<times> ustring) list \<Rightarrow> uploads \<Rightarrow> uploads" where
  "send_local_files offered us =
     us\<lparr>us_pending := fold (\<lambda>(position, request, name). bt_insert request \<lparr>pu_described = name, pu_batch = Some (us_next us, position)\<rparr>)
          (enumerate 0 offered) (us_pending us),
        us_batches := bt_insert (us_next us) \<lparr>ub_expected = length offered, ub_paths = bt_empty, ub_failures = []\<rparr> (us_batches us),
        us_next := us_next us + 1\<rparr>"

datatype upload_answer = Arrived ustring | Failed ustring

fun answer_upload :: "u64 \<times> upload_answer \<Rightarrow> uploads \<Rightarrow> uploads \<times> upload_outcome list" where
  "answer_upload (request, Arrived path) us = upload_complete request path us"
| "answer_upload (request, Failed message) us = fail_upload request message us"

fun answer_uploads :: "(u64 \<times> upload_answer) list \<Rightarrow> uploads \<Rightarrow> uploads \<times> upload_outcome list" where
  "answer_uploads [] us = (us, [])"
| "answer_uploads (a # answers) us = (let (us, out) = answer_upload a us; (us, more) = answer_uploads answers us in (us, out @ more))"

subsection \<open>A batch is settled once, in the order of its files\<close>

definition arrived_at :: "(u64 \<times> upload_answer) list \<Rightarrow> u64 \<Rightarrow> ustring option" where
  "arrived_at answers request = (case map_of answers request of Some (Arrived path) \<Rightarrow> Some path | _ \<Rightarrow> None)"

definition settles :: "u64 \<Rightarrow> upload_outcome \<Rightarrow> bool" where
  "settles batch outcome = (case outcome of BatchSettled b _ _ \<Rightarrow> b = batch | _ \<Rightarrow> False)"

definition of_batch :: "u64 \<Rightarrow> pending_upload \<Rightarrow> bool" where
  "of_batch batch p \<longleftrightarrow> (\<exists>position. pu_batch p = Some (batch, position))"

text \<open>A batch after some answers: closed once every request has one, and until then holding them.\<close>

definition batch_open :: "u64 \<Rightarrow> u64 list \<Rightarrow> (u64 \<times> upload_answer) list \<Rightarrow> uploads \<Rightarrow> bool" where
  "batch_open batch rs answers us \<longleftrightarrow>
     (\<forall>r \<in> set rs. map_of answers r = None \<longrightarrow> (\<exists>p. bt_get (us_pending us) r = Some p \<and> of_batch batch p))
     \<and> (\<exists>b. bt_get (us_batches us) batch = Some b \<and> ub_expected b = length rs
          \<and> (\<forall>i. bt_get (ub_paths b) i = (if i < length rs then arrived_at answers (rs ! i) else None))
          \<and> length (ub_failures b) = card {i. i < length rs \<and> (\<exists>m. map_of answers (rs ! i) = Some (Failed m))})"

definition batch_tracks :: "u64 \<Rightarrow> u64 list \<Rightarrow> (u64 \<times> upload_answer) list \<Rightarrow> uploads \<Rightarrow> bool" where
  "batch_tracks batch rs answers us \<longleftrightarrow>
     (\<forall>r p. bt_get (us_pending us) r = Some p \<longrightarrow> of_batch batch p \<longrightarrow> (\<exists>i < length rs. rs ! i = r \<and> pu_batch p = Some (batch, i) \<and> map_of answers r = None))
     \<and> (if \<forall>r \<in> set rs. map_of answers r \<noteq> None then bt_get (us_batches us) batch = None
        else batch_open batch rs answers us)"

lemma sorted_values:
  assumes "\<forall>i. bt_get m i \<noteq> None \<longrightarrow> i < n"
  shows "bt_values m = List.map_filter (bt_get m) [0 ..< n]"
proof -
  have "bt_keys m = filter (\<lambda>i. bt_get m i \<noteq> None) [0 ..< n]"
  proof (rule sorted_distinct_set_unique)
    show "sorted (bt_keys m)" using bt_keys_sorted [of m] by (rule strict_sorted_imp_sorted)
    show "set (bt_keys m) = set (filter (\<lambda>i. bt_get m i \<noteq> None) [0 ..< n])" using assms by (auto simp: set_bt_keys)
  qed (simp_all add: sorted_wrt_filter)
  moreover have "bt_values m = map (the \<circ> bt_get m) (bt_keys m)"
    by (auto simp: bt_values_def bt_keys_def bt_entries_get)
  ultimately show ?thesis by (simp add: List.map_filter_def)
qed

lemma not_of_batch: "pu_batch p = Some (other, position) \<Longrightarrow> \<not> of_batch batch p \<Longrightarrow> other \<noteq> batch"
  by (auto simp: of_batch_def)

lemma answer_elsewhere:
  assumes "answer_upload (r, answer) us = (us', out)" and "\<And>p. bt_get (us_pending us) r = Some p \<Longrightarrow> \<not> of_batch batch p"
  shows "bt_get (us_batches us') batch = bt_get (us_batches us) batch \<and> filter (settles batch) out = []
    \<and> (\<forall>r' p. of_batch batch p \<longrightarrow> bt_get (us_pending us') r' = Some p \<longleftrightarrow> bt_get (us_pending us) r' = Some p)"
proof (cases "bt_get (us_pending us) r")
  case None
  then show ?thesis using assms(1) by (cases answer) (auto simp: upload_complete_def fail_upload_def)
next
  case (Some p)
  note other = assms(2) [OF Some]
  show ?thesis
  proof (cases "pu_batch p")
    case None
    then show ?thesis using assms(1) Some other
      by (cases answer) (auto simp: upload_complete_def fail_upload_def settles_def split: if_splits)
  next
    case (Some entry)
    obtain b position where entry: "entry = (b, position)" by fastforce
    then have "b \<noteq> batch" using not_of_batch [of p b position batch] Some other by simp
    then show ?thesis using assms(1) \<open>bt_get (us_pending us) r = Some p\<close> Some entry other
      by (cases answer) (auto simp: upload_complete_def fail_upload_def settle_upload_batch_def settled_batch_def settles_def Let_def
          split: option.splits if_splits)
  qed
qed

lemma map_of_snoc: "map_of (xs @ [(k, v)]) r = (case map_of xs r of None \<Rightarrow> if r = k then Some v else None | Some w \<Rightarrow> Some w)"
  by (auto simp: map_add_def split: option.split)

lemma arrived_snoc: "arrived_at (xs @ [(k, v)]) r = (if map_of xs r = None \<and> r = k then (case v of Arrived path \<Rightarrow> Some path | Failed _ \<Rightarrow> None) else arrived_at xs r)"
  by (auto simp: arrived_at_def map_of_snoc split: option.split upload_answer.split)

text \<open>Every answer is an arrival or a failure, so that the two together count the answers.\<close>

lemma answered_iff: "map_of answers r \<noteq> None \<longleftrightarrow> arrived_at answers r \<noteq> None \<or> (\<exists>m. map_of answers r = Some (Failed m))"
proof (cases "map_of answers r")
  case (Some answer)
  then show ?thesis by (cases answer) (auto simp: arrived_at_def)
qed (simp add: arrived_at_def)

lemma answered_kind: "map_of answers r \<noteq> None \<Longrightarrow> (\<not> (\<exists>m. map_of answers r = Some (Failed m))) \<longleftrightarrow> arrived_at answers r \<noteq> None"
  using answered_iff [of answers r] by (auto simp: arrived_at_def)

lemma answers_counted:
  "card {i. i < n \<and> arrived_at answers (rs ! i) \<noteq> None} + card {i. i < n \<and> (\<exists>m. map_of answers (rs ! i) = Some (Failed m))}
   = card {i. i < n \<and> map_of answers (rs ! i) \<noteq> None}"
proof -
  have "{i. i < n \<and> map_of answers (rs ! i) \<noteq> None}
      = {i. i < n \<and> arrived_at answers (rs ! i) \<noteq> None} \<union> {i. i < n \<and> (\<exists>m. map_of answers (rs ! i) = Some (Failed m))}"
    using answered_iff by blast
  moreover have "{i. i < n \<and> arrived_at answers (rs ! i) \<noteq> None} \<inter> {i. i < n \<and> (\<exists>m. map_of answers (rs ! i) = Some (Failed m))} = {}"
    by (auto simp: arrived_at_def)
  ultimately show ?thesis by (simp add: card_Un_disjoint)
qed

lemma all_answered_card:
  "card {i. i < length rs \<and> map_of answers (rs ! i) \<noteq> None} = length rs \<longleftrightarrow> (\<forall>r \<in> set rs. map_of answers r \<noteq> None)"
proof
  assume full: "card {i. i < length rs \<and> map_of answers (rs ! i) \<noteq> None} = length rs"
  have "{i. i < length rs \<and> map_of answers (rs ! i) \<noteq> None} = {i. i < length rs}"
    using full by (intro card_subset_eq) auto
  then show "\<forall>r \<in> set rs. map_of answers r \<noteq> None" by (metis (mono_tags, lifting) in_set_conv_nth mem_Collect_eq)
next
  assume "\<forall>r \<in> set rs. map_of answers r \<noteq> None"
  then have "{i. i < length rs \<and> map_of answers (rs ! i) \<noteq> None} = {i. i < length rs}" by auto
  then show "card {i. i < length rs \<and> map_of answers (rs ! i) \<noteq> None} = length rs" by simp
qed

lemma map_filter_same: "(\<And>x. x \<in> set xs \<Longrightarrow> f x = g x) \<Longrightarrow> List.map_filter f xs = List.map_filter g xs"
  by (induction xs) (auto simp: List.map_filter_simps split: option.split)

lemma values_in_order:
  assumes "\<forall>i. bt_get m i = (if i < length rs then f (rs ! i) else None)"
  shows "bt_values m = List.map_filter f rs"
proof -
  have "bt_values m = List.map_filter (bt_get m) [0 ..< length rs]" using assms by (intro sorted_values) (auto split: if_splits)
  also have "\<dots> = List.map_filter (f \<circ> (!) rs) [0 ..< length rs]" using assms by (intro map_filter_same) auto
  also have "\<dots> = List.map_filter f (map ((!) rs) [0 ..< length rs])" by (simp add: List.map_filter_def filter_map comp_def)
  finally show ?thesis by (simp only: map_nth)
qed

definition batch_report_ok :: "u64 \<Rightarrow> u64 list \<Rightarrow> (u64 \<times> upload_answer) list \<Rightarrow> upload_outcome list \<Rightarrow> bool" where
  "batch_report_ok batch rs answers out \<longleftrightarrow>
     (\<exists>report. out = [BatchSettled batch (List.map_filter (arrived_at answers) rs) report]
        \<and> (report = None \<longleftrightarrow> (\<forall>r \<in> set rs. arrived_at answers r \<noteq> None)))"

text \<open>A batch that holds what the answers say is settled exactly when they are all there.\<close>

lemma settle_tracks:
  assumes batch: "bt_get (us_batches us) batch = Some b" "ub_expected b = length rs"
    and paths: "\<forall>i. bt_get (ub_paths b) i = (if i < length rs then arrived_at answers (rs ! i) else None)"
    and failures: "length (ub_failures b) = card {i. i < length rs \<and> (\<exists>m. map_of answers (rs ! i) = Some (Failed m))}"
    and step: "settle_upload_batch batch us = (us', out)"
  shows "us_pending us' = us_pending us \<and>
    (if \<forall>r \<in> set rs. map_of answers r \<noteq> None then bt_get (us_batches us') batch = None \<and> batch_report_ok batch rs answers (filter (settles batch) out)
     else us' = us \<and> out = [])"
proof -
  have "{k. bt_get (ub_paths b) k \<noteq> None} = {i. i < length rs \<and> arrived_at answers (rs ! i) \<noteq> None}" using paths by auto
  then have counted: "bt_len (ub_paths b) + length (ub_failures b) = card {i. i < length rs \<and> map_of answers (rs ! i) \<noteq> None}"
    using answers_counted [of "length rs" answers rs] failures by (simp add: bt_len_card)
  have most: "card {i. i < length rs \<and> map_of answers (rs ! i) \<noteq> None} \<le> length rs"
    by (rule order_trans [OF card_mono [where B = "{i. i < length rs}"]]) auto
  have full: "\<not> bt_len (ub_paths b) + length (ub_failures b) < ub_expected b \<longleftrightarrow> (\<forall>r \<in> set rs. map_of answers r \<noteq> None)"
    using all_answered_card [of rs answers] most unfolding counted batch(2) by linarith
  show ?thesis
  proof (cases "\<forall>r \<in> set rs. map_of answers r \<noteq> None")
    case False
    then show ?thesis using step batch(1) full by (auto simp: settle_upload_batch_def)
  next
    case True
    have reported: "ub_failures b = [] \<longleftrightarrow> (\<forall>r \<in> set rs. arrived_at answers r \<noteq> None)"
    proof -
      have "ub_failures b = [] \<longleftrightarrow> {i. i < length rs \<and> (\<exists>m. map_of answers (rs ! i) = Some (Failed m))} = {}"
        using failures card_0_eq [of "{i. i < length rs \<and> (\<exists>m. map_of answers (rs ! i) = Some (Failed m))}"]
        unfolding length_0_conv [symmetric] by simp
      also have "\<dots> \<longleftrightarrow> (\<forall>r \<in> set rs. \<not> (\<exists>m. map_of answers r = Some (Failed m)))" by (auto simp: all_set_conv_all_nth)
      also have "\<dots> \<longleftrightarrow> (\<forall>r \<in> set rs. arrived_at answers r \<noteq> None)"
      proof (rule ball_cong [OF refl])
        fix r
        assume "r \<in> set rs"
        then have "map_of answers r \<noteq> None" using True by blast
        then show "(\<not> (\<exists>m. map_of answers r = Some (Failed m))) \<longleftrightarrow> arrived_at answers r \<noteq> None" by (rule answered_kind)
      qed
      finally show ?thesis .
    qed
    have "us' = us\<lparr>us_batches := bt_remove batch (us_batches us)\<rparr>"
      and "out = [BatchSettled batch (bt_values (ub_paths b)) (snd (settled_batch b))]"
      using step batch(1) True full by (auto simp: settle_upload_batch_def settled_batch_def Let_def)
    then show ?thesis using True reported values_in_order [OF paths]
      by (auto simp: batch_report_ok_def settles_def settled_batch_def Let_def)
  qed
qed

lemma answer_here:
  assumes tracks: "batch_tracks batch rs answers us" and rs: "distinct rs" and i: "i < length rs" and open_at: "map_of answers (rs ! i) = None"
    and step: "answer_upload (rs ! i, answer) us = (us', out)"
  shows "batch_tracks batch rs (answers @ [(rs ! i, answer)]) us'
    \<and> (if \<forall>r \<in> set rs. map_of (answers @ [(rs ! i, answer)]) r \<noteq> None
       then batch_report_ok batch rs (answers @ [(rs ! i, answer)]) (filter (settles batch) out) else filter (settles batch) out = [])"
proof -
  let ?answers = "answers @ [(rs ! i, answer)]"
  have unanswered: "(\<forall>r \<in> set rs. map_of answers r \<noteq> None) = False" using i open_at nth_mem by blast
  have opened: "batch_open batch rs answers us" using tracks unfolding batch_tracks_def by (simp only: unanswered if_False simp_thms)
  obtain p where p: "bt_get (us_pending us) (rs ! i) = Some p" "of_batch batch p"
    using opened open_at nth_mem [OF i] unfolding batch_open_def by blast
  obtain b where b: "bt_get (us_batches us) batch = Some b" "ub_expected b = length rs"
    and paths: "\<forall>k. bt_get (ub_paths b) k = (if k < length rs then arrived_at answers (rs ! k) else None)"
    and failures: "length (ub_failures b) = card {k. k < length rs \<and> (\<exists>m. map_of answers (rs ! k) = Some (Failed m))}"
    using opened unfolding batch_open_def by blast
  have position: "pu_batch p = Some (batch, i)"
    using tracks p rs i unfolding batch_tracks_def by (metis nth_eq_iff_index_eq)
  have same: "rs ! k = rs ! i \<longleftrightarrow> k = i" if "k < length rs" for k using rs i that by (simp add: nth_eq_iff_index_eq)
  define b' where "b' = (case answer of Arrived path \<Rightarrow> b\<lparr>ub_paths := bt_insert i path (ub_paths b)\<rparr>
    | Failed m \<Rightarrow> b\<lparr>ub_failures := ub_failures b @ [pu_described p @ lit '': '' @ m]\<rparr>)"
  define us1 where "us1 = us\<lparr>us_pending := bt_remove (rs ! i) (us_pending us), us_batches := bt_adjust batch (\<lambda>_. b') (us_batches us)\<rparr>"
  have settle: "settle_upload_batch batch us1 = (us', out)"
  proof (cases answer)
    case (Arrived path)
    have "bt_adjust batch (\<lambda>b. b\<lparr>ub_paths := bt_insert i path (ub_paths b)\<rparr>) (us_batches us) = bt_adjust batch (\<lambda>_. b') (us_batches us)"
      by (rule bt_ext) (simp add: b b'_def Arrived)
    then show ?thesis using step p(1) position Arrived by (simp add: upload_complete_def us1_def Let_def)
  next
    case (Failed m)
    have "bt_adjust batch (\<lambda>b. b\<lparr>ub_failures := ub_failures b @ [pu_described p @ lit '': '' @ m]\<rparr>) (us_batches us) = bt_adjust batch (\<lambda>_. b') (us_batches us)"
      by (rule bt_ext) (simp add: b b'_def Failed)
    then show ?thesis using step p(1) position Failed by (simp add: fail_upload_def us1_def Let_def)
  qed
  have at: "bt_get (us_batches us1) batch = Some b'" using b by (simp add: us1_def)
  have expected: "ub_expected b' = length rs" using b by (simp add: b'_def split: upload_answer.split)
  have none: "arrived_at answers (rs ! i) = None" using open_at by (simp add: arrived_at_def)
  have paths': "\<forall>k. bt_get (ub_paths b') k = (if k < length rs then arrived_at ?answers (rs ! k) else None)"
    using paths open_at i same none by (auto simp: b'_def arrived_snoc split: upload_answer.split)
  have failures': "length (ub_failures b') = card {k. k < length rs \<and> (\<exists>m. map_of ?answers (rs ! k) = Some (Failed m))}"
  proof (cases answer)
    case (Arrived path)
    then have "{k. k < length rs \<and> (\<exists>m. map_of ?answers (rs ! k) = Some (Failed m))} = {k. k < length rs \<and> (\<exists>m. map_of answers (rs ! k) = Some (Failed m))}"
      by (auto simp: map_of_snoc simp del: map_of_append split: option.splits if_splits)
    then show ?thesis using Arrived failures by (simp add: b'_def)
  next
    case (Failed m)
    then have "{k. k < length rs \<and> (\<exists>m. map_of ?answers (rs ! k) = Some (Failed m))}
        = insert i {k. k < length rs \<and> (\<exists>m. map_of answers (rs ! k) = Some (Failed m))}"
      using i open_at same by (auto simp: map_of_snoc simp del: map_of_append split: option.splits if_splits)
    then show ?thesis using Failed failures open_at by (simp add: b'_def)
  qed
  note settled = settle_tracks [OF at expected paths' failures' settle]
  have pending: "bt_get (us_pending us') r = (if r = rs ! i then None else bt_get (us_pending us) r)" for r
    using settled by (simp add: us1_def)
  have held: "\<forall>r p. bt_get (us_pending us') r = Some p \<longrightarrow> of_batch batch p \<longrightarrow>
      (\<exists>k < length rs. rs ! k = r \<and> pu_batch p = Some (batch, k) \<and> map_of ?answers r = None)"
  proof (intro allI impI)
    fix r q
    assume q: "bt_get (us_pending us') r = Some q" "of_batch batch q"
    then have r: "r \<noteq> rs ! i" "bt_get (us_pending us) r = Some q" by (auto simp: pending split: if_splits)
    obtain k where k: "k < length rs" "rs ! k = r" "pu_batch q = Some (batch, k)" "map_of answers r = None"
      using tracks r(2) q(2) unfolding batch_tracks_def by blast
    then have "map_of ?answers r = None" using r(1) by (simp add: map_of_snoc del: map_of_append)
    then show "\<exists>k < length rs. rs ! k = r \<and> pu_batch q = Some (batch, k) \<and> map_of ?answers r = None" using k by blast
  qed
  show ?thesis
  proof (cases "\<forall>r \<in> set rs. map_of ?answers r \<noteq> None")
    case True
    have all: "(\<forall>r \<in> set rs. map_of ?answers r \<noteq> None) = True" using True by (rule eqTrueI)
    show ?thesis using settled held unfolding batch_tracks_def by (simp only: all if_True simp_thms)
  next
    case False
    have "\<exists>p. bt_get (us_pending us') r = Some p \<and> of_batch batch p" if "r \<in> set rs" "map_of ?answers r = None" for r
    proof -
      have r: "map_of answers r = None" "r \<noteq> rs ! i" using that(2) by (auto simp: map_of_snoc simp del: map_of_append split: option.splits if_splits)
      then show ?thesis using opened that(1) unfolding batch_open_def pending by simp
    qed
    moreover have rest: "us' = us1" "out = []" using settled False by (simp_all only: if_False simp_thms)
    ultimately have "batch_open batch rs ?answers us'"
      using at expected paths' failures' unfolding batch_open_def by blast
    then show ?thesis using held False rest(2) unfolding batch_tracks_def by (simp only: if_False filter.simps simp_thms)
  qed
qed

abbreviation offer_all :: "u64 \<Rightarrow> (nat \<times> u64 \<times> ustring) list \<Rightarrow> (u64, pending_upload) btmap \<Rightarrow> (u64, pending_upload) btmap" where
  "offer_all batch \<equiv> fold (\<lambda>(position, request, name). bt_insert request \<lparr>pu_described = name, pu_batch = Some (batch, position)\<rparr>)"

lemma offered_others: "r \<notin> fst ` set offered \<Longrightarrow> bt_get (offer_all batch (enumerate k offered) m) r = bt_get m r"
  by (induction offered arbitrary: k m) auto

lemma offered_pending:
  "distinct (map fst offered) \<Longrightarrow> i < length offered \<Longrightarrow>
     bt_get (offer_all batch (enumerate k offered) m) (fst (offered ! i)) = Some \<lparr>pu_described = snd (offered ! i), pu_batch = Some (batch, k + i)\<rparr>"
proof (induction offered arbitrary: k m i)
  case (Cons offer offered)
  then show ?case using offered_others [of "fst offer" offered batch "Suc k"] by (cases offer; cases i) auto
qed simp

lemma offered_tracks:
  assumes "distinct (map fst offered)" and "offered \<noteq> []"
    and fresh: "\<And>r p. bt_get (us_pending us) r = Some p \<Longrightarrow> \<not> of_batch (us_next us) p"
  shows "batch_tracks (us_next us) (map fst offered) [] (send_local_files offered us)"
proof -
  let ?us = "send_local_files offered us"
  have new: "bt_get (us_pending ?us) (fst (offered ! i)) = Some \<lparr>pu_described = snd (offered ! i), pu_batch = Some (us_next us, i)\<rparr>" if "i < length offered" for i
    using offered_pending [OF assms(1) that, of "us_next us" 0 "us_pending us"] by (simp add: send_local_files_def)
  have old: "bt_get (us_pending ?us) r = bt_get (us_pending us) r" if "r \<notin> fst ` set offered" for r
    using offered_others [OF that, of "us_next us" 0 "us_pending us"] by (simp add: send_local_files_def)
  have "\<exists>i < length (map fst offered). map fst offered ! i = r \<and> pu_batch p = Some (us_next us, i)"
    if "bt_get (us_pending ?us) r = Some p" "of_batch (us_next us) p" for r p
  proof -
    have "r \<in> fst ` set offered" using old [of r] fresh that by fastforce
    then obtain i where "i < length offered" "fst (offered ! i) = r" by (auto simp: in_set_conv_nth)
    then show ?thesis using new [of i] that(1) by auto
  qed
  moreover have "\<exists>p. bt_get (us_pending ?us) r = Some p \<and> of_batch (us_next us) p" if r: "r \<in> set (map fst offered)" for r
  proof -
    obtain i where "i < length offered" "fst (offered ! i) = r" using r by (auto simp: in_set_conv_nth)
    then show ?thesis using new [of i] by (auto simp: of_batch_def)
  qed
  moreover have "bt_get (us_batches ?us) (us_next us) = Some \<lparr>ub_expected = length offered, ub_paths = bt_empty, ub_failures = []\<rparr>"
    by (simp add: send_local_files_def)
  moreover have "\<not> (\<forall>r \<in> set (map fst offered). map_of [] r \<noteq> None)" using assms(2) by (cases offered) auto
  ultimately show ?thesis by (auto simp: batch_tracks_def batch_open_def arrived_at_def)
qed

lemma tracks_same:
  assumes tracks: "batch_tracks batch rs answers us" and same: "\<And>r. r \<in> set rs \<Longrightarrow> map_of answers' r = map_of answers r"
    and batches: "bt_get (us_batches us') batch = bt_get (us_batches us) batch"
    and pending: "\<And>r p. of_batch batch p \<Longrightarrow> bt_get (us_pending us') r = Some p \<longleftrightarrow> bt_get (us_pending us) r = Some p"
  shows "batch_tracks batch rs answers' us'"
proof -
  have at: "map_of answers' (rs ! i) = map_of answers (rs ! i)" "arrived_at answers' (rs ! i) = arrived_at answers (rs ! i)" if "i < length rs" for i
    using same [OF nth_mem [OF that]] by (simp_all add: arrived_at_def)
  have all: "(\<forall>r \<in> set rs. map_of answers' r \<noteq> None) = (\<forall>r \<in> set rs. map_of answers r \<noteq> None)" using same by auto
  have failed: "{i. i < length rs \<and> (\<exists>m. map_of answers' (rs ! i) = Some (Failed m))} = {i. i < length rs \<and> (\<exists>m. map_of answers (rs ! i) = Some (Failed m))}"
    using at by auto
  have opened: "batch_open batch rs answers' us'" if "batch_open batch rs answers us"
    using that same pending batches at unfolding batch_open_def failed by (metis (no_types, lifting))
  have "\<exists>i < length rs. rs ! i = r \<and> pu_batch p = Some (batch, i) \<and> map_of answers' r = None"
    if held: "bt_get (us_pending us') r = Some p" and ours: "of_batch batch p" for r p
  proof -
    have "bt_get (us_pending us) r = Some p" using held ours pending by blast
    then obtain i where "i < length rs" "rs ! i = r" "pu_batch p = Some (batch, i)" "map_of answers r = None"
      using tracks ours unfolding batch_tracks_def by blast
    then show ?thesis using at(1) by auto
  qed
  moreover have "if \<forall>r \<in> set rs. map_of answers r \<noteq> None then bt_get (us_batches us') batch = None else batch_open batch rs answers' us'"
    using tracks opened batches unfolding batch_tracks_def by (auto split: if_split_asm)
  ultimately show ?thesis unfolding batch_tracks_def all by blast
qed

lemma report_same:
  assumes "batch_report_ok batch rs answers out" and "\<And>r. r \<in> set rs \<Longrightarrow> map_of answers' r = map_of answers r"
  shows "batch_report_ok batch rs answers' out"
proof -
  have "arrived_at answers' r = arrived_at answers r" if "r \<in> set rs" for r using assms(2) [OF that] by (simp add: arrived_at_def)
  moreover from this have "List.map_filter (arrived_at answers') rs = List.map_filter (arrived_at answers) rs" by (rule map_filter_same)
  ultimately show ?thesis using assms(1) unfolding batch_report_ok_def by auto
qed

lemma answers_track:
  assumes "batch_tracks batch rs before us" and "distinct rs" and "answer_uploads answers us = (us', out)"
  shows "batch_tracks batch rs (before @ answers) us'
    \<and> (if (\<forall>r \<in> set rs. map_of before r \<noteq> None) \<or> \<not> (\<forall>r \<in> set rs. map_of (before @ answers) r \<noteq> None) then filter (settles batch) out = []
       else batch_report_ok batch rs (before @ answers) (filter (settles batch) out))"
  using assms(1,3)
proof (induction answers arbitrary: before us us' out)
  case Nil
  then show ?case by auto
next
  case (Cons a answers)
  obtain r answer where a: "a = (r, answer)" by fastforce
  obtain us1 out1 where step: "answer_upload (r, answer) us = (us1, out1)" by fastforce
  obtain more where rest: "answer_uploads answers us1 = (us', more)" and out: "out = out1 @ more"
    using Cons.prems(2) step a by (auto simp: Let_def split: prod.splits)
  have longer: "before @ a # answers = (before @ [a]) @ answers" by simp
  have grown: "map_of (before @ a # answers) x = map_of (before @ [a]) x" if "map_of (before @ [a]) x \<noteq> None" for x
    using that unfolding longer by (auto simp: map_add_def split: option.splits)
  show ?case
  proof (cases "r \<in> set rs \<and> map_of before r = None")
    case True
    then obtain i where i: "i < length rs" "rs ! i = r" by (auto simp: in_set_conv_nth)
    have here: "batch_tracks batch rs (before @ [a]) us1
      \<and> (if \<forall>x \<in> set rs. map_of (before @ [a]) x \<noteq> None then batch_report_ok batch rs (before @ [a]) (filter (settles batch) out1)
         else filter (settles batch) out1 = [])"
      using answer_here [OF Cons.prems(1) assms(2) i(1), unfolded i(2), OF conjunct2 [OF True] step, folded a] .
    note IH = Cons.IH [OF conjunct1 [OF here] rest, folded longer]
    have first: "(\<forall>x \<in> set rs. map_of before x \<noteq> None) = False" using True by blast
    show ?thesis
    proof (cases "\<forall>x \<in> set rs. map_of (before @ [a]) x \<noteq> None")
      case all: True
      then have allT: "(\<forall>x \<in> set rs. map_of (before @ [a]) x \<noteq> None) = True" by (rule eqTrueI)
      have now: "(\<forall>x \<in> set rs. map_of (before @ a # answers) x \<noteq> None) = True" using all grown by simp
      have "batch_report_ok batch rs (before @ [a]) (filter (settles batch) out1)" using here unfolding allT by simp
      then have "batch_report_ok batch rs (before @ a # answers) (filter (settles batch) out1)"
        by (rule report_same) (use all grown in blast)
      moreover have "filter (settles batch) more = []" using IH unfolding allT by simp
      ultimately show ?thesis using IH unfolding first now out by simp
    next
      case open_still: False
      then have openF: "(\<forall>x \<in> set rs. map_of (before @ [a]) x \<noteq> None) = False" by simp
      have "filter (settles batch) out1 = []" using here unfolding openF by simp
      then show ?thesis using IH unfolding first openF out by simp
    qed
  next
    case False
    have "\<not> of_batch batch p" if held: "bt_get (us_pending us) r = Some p" for p
    proof
      assume "of_batch batch p"
      then obtain i where "i < length rs" "rs ! i = r" "map_of before r = None"
        using Cons.prems(1) held unfolding batch_tracks_def by blast
      then show False using False nth_mem by blast
    qed
    note elsewhere = answer_elsewhere [OF step this]
    have kept: "map_of (before @ [a]) x = map_of before x" if "x \<in> set rs" for x
      using False that by (auto simp: a map_of_snoc simp del: map_of_append split: option.split)
    have "batch_tracks batch rs (before @ [a]) us1"
      using elsewhere by (intro tracks_same [OF Cons.prems(1) kept]) auto
    note IH = Cons.IH [OF this rest, folded longer]
    have "(\<forall>x \<in> set rs. map_of (before @ [a]) x \<noteq> None) = (\<forall>x \<in> set rs. map_of before x \<noteq> None)" using kept by simp
    then show ?thesis using IH elsewhere unfolding out by simp
  qed
qed

text \<open>
  C22. Files that are sent together are pasted together, once and in the order they were chosen.
  However their hosts finish - in any order, some of them failing, between the answers of other
  uploads, answered twice - nothing is pasted before every file has its answer; then the verified
  paths are handed over, each at the place of its file, with a report exactly when one is missing,
  and the batch is forgotten.
\<close>

theorem batch_pasted_in_order:
  assumes "distinct (map fst offered)" and "offered \<noteq> []"
    and "\<forall>r p position. bt_get (us_pending us) r = Some p \<longrightarrow> pu_batch p \<noteq> Some (us_next us, position)"
  shows "case answer_uploads answers (send_local_files offered us) of (us', out) \<Rightarrow>
    if \<forall>r \<in> set (map fst offered). map_of answers r \<noteq> None
    then bt_get (us_batches us') (us_next us) = None
      \<and> (\<exists>report. filter (settles (us_next us)) out = [BatchSettled (us_next us) (List.map_filter (arrived_at answers) (map fst offered)) report]
           \<and> (report = None \<longleftrightarrow> (\<forall>r \<in> set (map fst offered). arrived_at answers r \<noteq> None)))
    else filter (settles (us_next us)) out = []"
proof -
  obtain us' out where run: "answer_uploads answers (send_local_files offered us) = (us', out)" by fastforce
  have "batch_tracks (us_next us) (map fst offered) [] (send_local_files offered us)"
    using assms by (intro offered_tracks) (auto simp: of_batch_def)
  note after = answers_track [OF this assms(1) run, unfolded append_Nil]
  have none: "(\<forall>r \<in> set (map fst offered). map_of [] r \<noteq> None) = False" using assms(2) by (cases offered) auto
  show ?thesis
  proof (cases "\<forall>r \<in> set (map fst offered). map_of answers r \<noteq> None")
    case True
    then have all: "(\<forall>r \<in> set (map fst offered). map_of answers r \<noteq> None) = True" by (rule eqTrueI)
    show ?thesis using after unfolding run prod.case batch_tracks_def batch_report_ok_def by (simp only: none all if_True if_False simp_thms)
  next
    case False
    then have all: "(\<forall>r \<in> set (map fst offered). map_of answers r \<noteq> None) = False" by simp
    show ?thesis using after unfolding run prod.case by (simp only: none all if_True if_False simp_thms)
  qed
qed

definition no_uploads :: uploads where
  "no_uploads = \<lparr>us_pending = bt_empty, us_batches = bt_empty, us_next = 4\<rparr>"

theorem batch_pasted_in_order_witness:
  "\<exists>us' out report. answer_uploads [(2, Arrived (lit ''/t/b'')), (7, Arrived (lit ''/t/x'')), (3, Failed (lit ''full'')), (1, Arrived (lit ''/t/a'')), (1, Failed [])]
       (send_local_files [(1, lit ''a''), (2, lit ''b''), (3, lit ''c'')] no_uploads) = (us', out)
     \<and> filter (settles 4) out = [BatchSettled 4 [lit ''/t/a'', lit ''/t/b''] (Some report)]"
proof -
  let ?answers = "[(2, Arrived (lit ''/t/b'')), (7, Arrived (lit ''/t/x'')), (3, Failed (lit ''full'')), (1, Arrived (lit ''/t/a'')), (1, Failed [])] :: (u64 \<times> upload_answer) list"
  let ?offered = "[(1, lit ''a''), (2, lit ''b''), (3, lit ''c'')] :: (u64 \<times> ustring) list"
  obtain us' out where run: "answer_uploads ?answers (send_local_files ?offered no_uploads) = (us', out)" by fastforce
  have all: "(\<forall>r \<in> set (map fst ?offered). map_of ?answers r \<noteq> None) = True" by simp
  have "\<forall>r p position. bt_get (us_pending no_uploads) r = Some p \<longrightarrow> pu_batch p \<noteq> Some (us_next no_uploads, position)"
    by (simp add: no_uploads_def)
  from batch_pasted_in_order [OF _ _ this, of ?offered ?answers, unfolded run prod.case all if_True]
  obtain report where settled: "filter (settles (us_next no_uploads)) out
        = [BatchSettled (us_next no_uploads) (List.map_filter (arrived_at ?answers) (map fst ?offered)) report]"
    and missing: "report = None \<longleftrightarrow> (\<forall>r \<in> set (map fst ?offered). arrived_at ?answers r \<noteq> None)"
    by (auto simp: distinct_length_2_or_more)
  have "List.map_filter (arrived_at ?answers) (map fst ?offered) = [lit ''/t/a'', lit ''/t/b'']"
    by (simp add: List.map_filter_simps arrived_at_def)
  moreover have "report \<noteq> None" using missing by (simp add: arrived_at_def)
  ultimately show ?thesis using run settled by (auto simp: no_uploads_def)
qed

end
