(* ===== verification/Terminal_Input.thy ===== *)
theory Terminal_Input
  imports Transport Protocol
begin

text \<open>
  What is typed into the terminal client (\<open>src/src/tui.rs\<close>): the decoder that turns the bytes of
  the terminal, one at a time, into keys, mouse reports and pastes.
\<close>

section \<open>Mouse reports\<close>

record mouse_input =
  mo_code :: u16
  mo_column :: u16
  mo_row :: u16
  mo_release :: bool

unbundle bit_operations_syntax

definition is_left_press :: "mouse_input \<Rightarrow> bool" where
  "is_left_press m \<longleftrightarrow> \<not> mo_release m \<and> mo_code m AND 99 = 0"

definition is_left_motion :: "mouse_input \<Rightarrow> bool" where
  "is_left_motion m \<longleftrightarrow> \<not> mo_release m \<and> mo_code m AND 99 = 32"

definition is_left_release :: "mouse_input \<Rightarrow> bool" where
  "is_left_release m \<longleftrightarrow> mo_release m \<and> mo_code m AND 99 = 0"

definition is_right_press :: "mouse_input \<Rightarrow> bool" where
  "is_right_press m \<longleftrightarrow> \<not> mo_release m \<and> mo_code m AND 99 = 2"

definition is_motion :: "mouse_input \<Rightarrow> bool" where
  "is_motion m \<longleftrightarrow> mo_code m AND 32 \<noteq> 0"

definition is_vertical_wheel :: "mouse_input \<Rightarrow> bool" where
  "is_vertical_wheel m \<longleftrightarrow> \<not> mo_release m \<and> mo_code m AND 64 \<noteq> 0 \<and> mo_code m AND 3 \<le> 1"

definition mouse_scroll :: "mouse_input \<Rightarrow> terminal_scroll_direction option" where
  "mouse_scroll m =
     (if \<not> is_vertical_wheel m then None
      else if mo_code m AND 3 = 0 then Some ScrollUp else if mo_code m AND 3 = 1 then Some ScrollDown else None)"

lemma wheel_scrolls: "mouse_scroll m = None \<longleftrightarrow> \<not> is_vertical_wheel m"
proof -
  have "mo_code m AND 3 \<le> 1 \<Longrightarrow> mo_code m AND 3 = 0 \<or> mo_code m AND 3 = 1"
    by (simp add: word_le_nat_alt word_unat_eq_iff) linarith
  then show ?thesis by (auto simp: mouse_scroll_def is_vertical_wheel_def)
qed

definition mouse_shift :: "mouse_input \<Rightarrow> bool" where
  "mouse_shift m \<longleftrightarrow> mo_code m AND 4 \<noteq> 0"

text \<open>Modifiers as crossterm numbers them: shift 1, control 2, alt 4.\<close>

definition key_modifiers :: "mouse_input \<Rightarrow> u8" where
  "key_modifiers m = (if mo_code m AND 4 \<noteq> 0 then 1 else 0) OR (if mo_code m AND 8 \<noteq> 0 then 4 else 0)
     OR (if mo_code m AND 16 \<noteq> 0 then 2 else 0)"

text \<open>A report in the extended encoding: \<open>ESC [ <\<close>, three numbers, and a letter.\<close>

definition parse_sgr_mouse :: "u8 list \<Rightarrow> mouse_input option" where
  "parse_sgr_mouse bytes = Option.bind (strip_prefix [27, 91, 60] bytes) (\<lambda>body.
     if body = [] \<or> last body \<notin> {77, 109} then None
     else Option.bind (from_utf8 (butlast body)) (\<lambda>fields. case split_on (\<lambda>c. c = 59) fields of
         [code, column, row] \<Rightarrow>
           Option.bind (parse_unsigned code) (\<lambda>code. Option.bind (parse_unsigned column) (\<lambda>column.
           Option.bind (parse_unsigned row) (\<lambda>row.
             if column = 0 \<or> row = 0 then None
             else Some \<lparr>mo_code = code, mo_column = column, mo_row = row, mo_release = (last body = 109)\<rparr>)))
       | _ \<Rightarrow> None))"

section \<open>The decoder\<close>

definition max_clipboard_bytes :: nat where "max_clipboard_bytes = 1024 * 1024"

definition input_escape_timeout :: int where "input_escape_timeout = 30 * 1000000"

datatype decoded_input = DecodedBytes "u8 list" | DecodedMouse mouse_input | DecodedPaste "u8 list" | PasteTooLarge

record paste_buffer =
  pb_bytes :: "u8 list"
  pb_overflow_tail :: "u8 list"
  pb_overflowed :: bool

record input_decoder =
  id_pending :: "u8 list"
  id_pending_since :: "int option"
  id_paste :: "paste_buffer option"

definition decoder_new :: input_decoder where
  "decoder_new = \<lparr>id_pending = [], id_pending_since = None, id_paste = None\<rparr>"

definition paste_new :: paste_buffer where
  "paste_new = \<lparr>pb_bytes = [], pb_overflow_tail = [], pb_overflowed = False\<rparr>"

definition vec_ends_with :: "'a list \<Rightarrow> 'a list \<Rightarrow> bool" where
  "vec_ends_with part s \<longleftrightarrow> length part \<le> length s \<and> drop (length s - length part) s = part"

definition flush_bytes :: "input_decoder \<Rightarrow> input_decoder \<times> decoded_input" where
  "flush_bytes d = (d\<lparr>id_pending := [], id_pending_since := None\<rparr>, DecodedBytes (id_pending d))"

definition push_paste :: "u8 \<Rightarrow> paste_buffer \<Rightarrow> paste_buffer option \<times> decoded_input option" where
  "push_paste b p =
     (if pb_overflowed p
      then (let tail = pb_overflow_tail p @ [b];
                tail = (if length tail > length bracketed_paste_end then tl tail else tail)
            in if tail = bracketed_paste_end then (None, Some PasteTooLarge) else (Some (p\<lparr>pb_overflow_tail := tail\<rparr>), None))
      else (let bytes = pb_bytes p @ [b]
            in if vec_ends_with bracketed_paste_end bytes
               then (let bytes = take (length bytes - length bracketed_paste_end) bytes
                     in (None, Some (if length bytes \<le> max_clipboard_bytes then DecodedPaste bytes else PasteTooLarge)))
               else if length bytes > max_clipboard_bytes + length bracketed_paste_end
               then (Some \<lparr>pb_bytes = [], pb_overflow_tail = drop (length bytes - length bracketed_paste_end) bytes, pb_overflowed = True\<rparr>, None)
               else (Some (p\<lparr>pb_bytes := bytes\<rparr>), None)))"

definition is_mouse_prefix :: "u8 list \<Rightarrow> bool" where
  "is_mouse_prefix pending \<longleftrightarrow> pending = [27] \<or> pending = [27, 91] \<or> starts_with [27, 91, 60] pending"

definition decoder_push :: "int \<Rightarrow> u8 \<Rightarrow> input_decoder \<Rightarrow> input_decoder \<times> decoded_input option" where
  "decoder_push now b d = (case id_paste d of
     Some p \<Rightarrow> (let (p, out) = push_paste b p in (d\<lparr>id_paste := p\<rparr>, out))
   | None \<Rightarrow>
       if id_pending d = []
       then (if b = 27 then (d\<lparr>id_pending := [b], id_pending_since := Some now\<rparr>, None) else (d, Some (DecodedBytes [b])))
       else (let d = d\<lparr>id_pending := id_pending d @ [b]\<rparr>; pending = id_pending d
         in if starts_with pending bracketed_paste_start
            then (if pending = bracketed_paste_start
              then (d\<lparr>id_pending := [], id_pending_since := None, id_paste := Some paste_new\<rparr>, None) else (d, None))
            else if \<not> is_mouse_prefix pending \<or> length pending > 64 then map_prod id Some (flush_bytes d)
            else if b = 77 \<or> b = 109
            then (d\<lparr>id_pending := [], id_pending_since := None\<rparr>,
                  Some (case parse_sgr_mouse pending of Some mouse \<Rightarrow> DecodedMouse mouse | None \<Rightarrow> DecodedBytes pending))
            else if \<not> (48 \<le> b \<and> b \<le> 57 \<or> b \<in> {59, 60, 91, 27}) then map_prod id Some (flush_bytes d)
            else (d, None)))"

definition flush_expired :: "int \<Rightarrow> input_decoder \<Rightarrow> input_decoder \<times> decoded_input option" where
  "flush_expired now d = (case id_pending_since d of
     Some since \<Rightarrow> if now - since \<ge> input_escape_timeout then map_prod id Some (flush_bytes d) else (d, None)
   | None \<Rightarrow> (d, None))"

text \<open>What the client does with its terminal: bytes as they come, and the escape timer.\<close>

datatype typed = TypedByte int u8 | TypedNothing int

fun decode_step :: "typed \<Rightarrow> input_decoder \<Rightarrow> input_decoder \<times> decoded_input option" where
  "decode_step (TypedByte now b) d = decoder_push now b d"
| "decode_step (TypedNothing now) d = flush_expired now d"

fun decode_all :: "typed list \<Rightarrow> input_decoder \<Rightarrow> input_decoder \<times> decoded_input list" where
  "decode_all [] d = (d, [])"
| "decode_all (x # xs) d = (let (d, out) = decode_step x d; (d, more) = decode_all xs d
     in (d, (case out of None \<Rightarrow> [] | Some e \<Rightarrow> [e]) @ more))"

fun typed_bytes :: "typed list \<Rightarrow> u8 list" where
  "typed_bytes [] = []"
| "typed_bytes (TypedByte now b # xs) = b # typed_bytes xs"
| "typed_bytes (TypedNothing now # xs) = typed_bytes xs"

section \<open>Nothing is lost\<close>

text \<open>The bytes that an input stands for, and the bytes that a decoder holds back.\<close>

definition contains_end :: "u8 list \<Rightarrow> bool" where
  "contains_end s \<longleftrightarrow> (\<exists>before after. s = before @ bracketed_paste_end @ after)"

lemma ends_with_append: "vec_ends_with part s \<longleftrightarrow> (\<exists>before. s = before @ part)"
  by (auto simp: vec_ends_with_def) (metis append_take_drop_id)

lemma contains_end_snoc: "contains_end (s @ [b]) \<longleftrightarrow> contains_end s \<or> vec_ends_with bracketed_paste_end (s @ [b])"
proof
  assume "contains_end (s @ [b])"
  then obtain before after where split: "s @ [b] = before @ bracketed_paste_end @ after" by (auto simp: contains_end_def)
  show "contains_end s \<or> vec_ends_with bracketed_paste_end (s @ [b])"
  proof (cases after rule: rev_cases)
    case Nil
    then show ?thesis using split by (auto simp: ends_with_append)
  next
    case (snoc ys y)
    then have "s = before @ bracketed_paste_end @ ys" using split by simp
    then show ?thesis by (auto simp: contains_end_def)
  qed
next
  assume "contains_end s \<or> vec_ends_with bracketed_paste_end (s @ [b])"
  then show "contains_end (s @ [b])" by (fastforce simp: contains_end_def ends_with_append)
qed

lemma not_in_front: "\<not> contains_end (s @ t) \<Longrightarrow> \<not> contains_end s"
  by (force simp: contains_end_def)

definition spells :: "decoded_input \<Rightarrow> u8 list \<Rightarrow> bool" where
  "spells e w = (case e of
     DecodedBytes bytes \<Rightarrow> w = bytes \<and> bytes \<noteq> []
   | DecodedMouse m \<Rightarrow> parse_sgr_mouse w = Some m
   | DecodedPaste pasted \<Rightarrow> w = bracketed_paste_start @ pasted @ bracketed_paste_end \<and> \<not> contains_end pasted \<and> length pasted \<le> max_clipboard_bytes
   | PasteTooLarge \<Rightarrow> \<exists>pasted. w = bracketed_paste_start @ pasted @ bracketed_paste_end \<and> \<not> contains_end pasted \<and> length pasted > max_clipboard_bytes)"

definition held_back :: "input_decoder \<Rightarrow> u8 list \<Rightarrow> bool" where
  "held_back d w = (case id_paste d of
     None \<Rightarrow> w = id_pending d \<and> length w \<le> 64
   | Some p \<Rightarrow> id_pending d = [] \<and> (\<exists>body. w = bracketed_paste_start @ body \<and> \<not> contains_end body
       \<and> (if pb_overflowed p
          then length body > max_clipboard_bytes + 6 \<and> pb_overflow_tail p = drop (length body - 6) body \<and> pb_bytes p = []
          else body = pb_bytes p \<and> length body \<le> max_clipboard_bytes + 6 \<and> pb_overflow_tail p = [])))"

lemma paste_end_length [simp]: "length bracketed_paste_end = 6" by (simp add: bracketed_paste_end_def)

text \<open>One byte inside of a paste, as the text that was pasted sees it.\<close>

lemma push_paste_step:
  assumes held: "held_back \<lparr>id_pending = [], id_pending_since = None, id_paste = Some p\<rparr> w"
    and step: "push_paste b p = (q, out)"
  shows "case out of None \<Rightarrow> q \<noteq> None \<and> held_back \<lparr>id_pending = [], id_pending_since = None, id_paste = q\<rparr> (w @ [b])
    | Some e \<Rightarrow> q = None \<and> spells e (w @ [b])"
proof -
  obtain body where w: "w = bracketed_paste_start @ body" and clean: "\<not> contains_end body"
    and rest: "if pb_overflowed p
          then length body > max_clipboard_bytes + 6 \<and> pb_overflow_tail p = drop (length body - 6) body \<and> pb_bytes p = []
          else body = pb_bytes p \<and> length body \<le> max_clipboard_bytes + 6 \<and> pb_overflow_tail p = []"
    using held by (auto simp: held_back_def)
  have ended: "\<exists>pasted. body @ [b] = pasted @ bracketed_paste_end \<and> \<not> contains_end pasted"
    if ends: "vec_ends_with bracketed_paste_end (body @ [b])"
  proof -
    obtain pasted where pasted: "body @ [b] = pasted @ bracketed_paste_end" using ends unfolding ends_with_append by blast
    have "butlast (body @ [b]) = butlast (pasted @ bracketed_paste_end)" using pasted by simp
    then have "body = pasted @ butlast bracketed_paste_end" by (simp add: butlast_append bracketed_paste_end_def)
    then show ?thesis using pasted clean not_in_front by blast
  qed
  show ?thesis
  proof (cases "pb_overflowed p")
    case True
    then have long: "length body > max_clipboard_bytes + 6" and tail: "pb_overflow_tail p = drop (length body - 6) body"
      using rest by auto
    have six: "length (pb_overflow_tail p) = 6" using long tail by simp
    have next_tail: "tl (pb_overflow_tail p @ [b]) = drop (length (body @ [b]) - 6) (body @ [b])"
    proof -
      have "Suc (length body - 6) = length body - 5" using long by simp
      moreover have "pb_overflow_tail p \<noteq> []" using six by auto
      ultimately show ?thesis using long tail by (simp add: drop_Suc [symmetric] tl_drop)
    qed
    have ends: "tl (pb_overflow_tail p @ [b]) = bracketed_paste_end \<longleftrightarrow> vec_ends_with bracketed_paste_end (body @ [b])"
      using long next_tail by (simp add: vec_ends_with_def)
    show ?thesis
    proof (cases "vec_ends_with bracketed_paste_end (body @ [b])")
      case yes: True
      obtain pasted where pasted: "body @ [b] = pasted @ bracketed_paste_end" "\<not> contains_end pasted" using ended [OF yes] by blast
      then have "length pasted + 6 = length body + 1" by (metis length_append paste_end_length length_append_singleton Suc_eq_plus1)
      then have "length pasted > max_clipboard_bytes" using long by simp
      then show ?thesis using step ends True six yes w pasted by (auto simp: push_paste_def Let_def spells_def)
    next
      case no: False
      then show ?thesis using step ends True six w clean long next_tail rest
        by (auto simp: push_paste_def Let_def held_back_def contains_end_snoc simp del: tl_append2)
    qed
  next
    case False
    then have short: "body = pb_bytes p" "length body \<le> max_clipboard_bytes + 6" "pb_overflow_tail p = []" using rest by auto
    show ?thesis
    proof (cases "vec_ends_with bracketed_paste_end (body @ [b])")
      case yes: True
      obtain pasted where pasted: "body @ [b] = pasted @ bracketed_paste_end" "\<not> contains_end pasted" using ended [OF yes] by blast
      then have taken: "take (length (body @ [b]) - length bracketed_paste_end) (body @ [b]) = pasted" by simp
      show ?thesis using step False yes w pasted taken short(1) by (auto simp: push_paste_def Let_def spells_def simp del: take_append)
    next
      case no: False
      then show ?thesis using step False w clean short
        by (auto simp: push_paste_def Let_def held_back_def contains_end_snoc split: if_splits)
    qed
  qed
qed

text \<open>The decoder keeps time exactly while it holds a sequence back.\<close>

definition decoder_wf :: "input_decoder \<Rightarrow> bool" where
  "decoder_wf d \<longleftrightarrow> (id_pending d = [] \<longleftrightarrow> id_pending_since d = None) \<and> (id_paste d \<noteq> None \<longrightarrow> id_pending d = [])"

lemma paste_started: "held_back (d\<lparr>id_pending := [], id_pending_since := None, id_paste := Some paste_new\<rparr>) bracketed_paste_start"
  by (simp add: held_back_def paste_new_def contains_end_def bracketed_paste_end_def)

lemma start_short: "starts_with s bracketed_paste_start \<Longrightarrow> length s \<le> 6"
  by (auto simp: starts_with_def bracketed_paste_start_def dest!: arg_cong [where f = length])

lemma decoder_push_step:
  assumes held: "held_back d w" and wf: "decoder_wf d" and step: "decoder_push now b d = (d', out)"
  shows "decoder_wf d' \<and> (case out of None \<Rightarrow> held_back d' (w @ [b]) | Some e \<Rightarrow> spells e (w @ [b]) \<and> held_back d' [])"
proof (cases "id_paste d")
  case (Some p)
  have d: "d = \<lparr>id_pending = [], id_pending_since = None, id_paste = Some p\<rparr>"
    using wf Some by (cases d) (auto simp: decoder_wf_def)
  obtain q where push: "push_paste b p = (q, out)" and d': "d' = d\<lparr>id_paste := q\<rparr>"
    using step Some by (auto simp: decoder_push_def split: prod.splits)
  have "held_back \<lparr>id_pending = [], id_pending_since = None, id_paste = Some p\<rparr> w" using held unfolding d .
  from push_paste_step [OF this push] show ?thesis
    using d d' by (cases out) (auto simp: decoder_wf_def held_back_def)
next
  case None
  have w: "w = id_pending d" "length w \<le> 64" using held None by (auto simp: held_back_def)
  show ?thesis
  proof (cases "id_pending d = []")
    case True
    then show ?thesis using step None w wf
      by (auto simp: decoder_push_def held_back_def decoder_wf_def spells_def split: if_splits)
  next
    case False
    then have since: "id_pending_since d \<noteq> None" using wf by (simp add: decoder_wf_def)
    show ?thesis
    proof (cases "starts_with (id_pending d @ [b]) bracketed_paste_start")
      case True
      then have "length (id_pending d @ [b]) \<le> 6" by (rule start_short)
      then show ?thesis using True step None False w since paste_started [of d]
        by (auto simp: decoder_push_def Let_def decoder_wf_def split: if_splits) (auto simp: held_back_def)
    next
      case no: False
      show ?thesis using no step None False w since
        by (auto simp: decoder_push_def Let_def decoder_wf_def flush_bytes_def spells_def held_back_def split: if_splits option.splits)
    qed
  qed
qed

lemma flush_expired_step:
  assumes held: "held_back d w" and wf: "decoder_wf d" and step: "flush_expired now d = (d', out)"
  shows "decoder_wf d' \<and> (case out of None \<Rightarrow> held_back d' w | Some e \<Rightarrow> spells e w \<and> held_back d' [])"
  using assms by (auto simp: flush_expired_def flush_bytes_def decoder_wf_def held_back_def spells_def
      split: option.splits if_splits)

lemma decode_step_holds:
  assumes "held_back d w" and "decoder_wf d" and "decode_step x d = (d', out)"
  shows "decoder_wf d' \<and> (case out of None \<Rightarrow> held_back d' (w @ typed_bytes [x])
    | Some e \<Rightarrow> spells e (w @ typed_bytes [x]) \<and> held_back d' [])"
proof (cases x)
  case (TypedByte now b)
  then have "decoder_push now b d = (d', out)" using assms(3) by simp
  from decoder_push_step [OF assms(1,2) this] show ?thesis unfolding TypedByte typed_bytes.simps .
next
  case (TypedNothing now)
  then have "flush_expired now d = (d', out)" using assms(3) by simp
  from flush_expired_step [OF assms(1,2) this] show ?thesis unfolding TypedNothing typed_bytes.simps append_Nil2 .
qed

lemma typed_bytes_Cons: "typed_bytes (x # xs) = typed_bytes [x] @ typed_bytes xs" by (cases x) auto

lemma decode_all_spells:
  assumes "held_back d w" and "decoder_wf d" and "decode_all xs d = (d', events)"
  shows "\<exists>ws held. concat ws @ held = w @ typed_bytes xs \<and> list_all2 spells events ws \<and> held_back d' held \<and> decoder_wf d'"
  using assms
proof (induction xs arbitrary: d w events)
  case Nil
  then show ?case by (intro exI [of _ "[]"] exI [of _ w]) auto
next
  case (Cons x xs)
  obtain d1 out where step: "decode_step x d = (d1, out)" by fastforce
  obtain more where rest: "decode_all xs d1 = (d', more)" and events: "events = (case out of None \<Rightarrow> [] | Some e \<Rightarrow> [e]) @ more"
    using Cons.prems(3) step by (auto simp: Let_def split: prod.splits)
  note after = decode_step_holds [OF Cons.prems(1,2) step]
  show ?case
  proof (cases out)
    case None
    then have "held_back d1 (w @ typed_bytes [x])" "decoder_wf d1" using after by auto
    from Cons.IH [OF this rest] show ?thesis using events None by (simp add: typed_bytes_Cons [of x xs])
  next
    case (Some e)
    then have "held_back d1 []" "decoder_wf d1" and spelt: "spells e (w @ typed_bytes [x])" using after by auto
    from Cons.IH [OF this(1,2) rest] obtain ws held where
      "concat ws @ held = typed_bytes xs" "list_all2 spells more ws" "held_back d' held" "decoder_wf d'" by auto
    then show ?thesis using events Some spelt
      by (intro exI [of _ "(w @ typed_bytes [x]) # ws"] exI [of _ held]) (simp add: typed_bytes_Cons [of x xs])
  qed
qed

text \<open>
  C19. The decoder of the terminal's input neither loses, repeats nor reorders a byte: whatever is
  typed, and whenever the escape timer fires, the inputs it has produced followed by what it holds
  back are exactly the bytes that came. A mouse input is one well-formed report, a paste is the
  text between its two brackets and never contains the closing one, and a paste is refused as too
  large only when it is longer than a mebibyte. What is held back stays bounded: 64 bytes of an
  unfinished sequence, or a paste buffer of a mebibyte and the closing bracket.
\<close>

theorem input_decoded_whole:
  shows "case decode_all xs decoder_new of (d, events) \<Rightarrow>
    (\<exists>ws held. concat ws @ held = typed_bytes xs \<and> list_all2 spells events ws \<and> held_back d held)
    \<and> length (id_pending d) \<le> 64
    \<and> (case id_paste d of None \<Rightarrow> True
       | Some p \<Rightarrow> length (pb_bytes p) \<le> max_clipboard_bytes + 6 \<and> length (pb_overflow_tail p) \<le> 6)"
proof -
  obtain d events where run: "decode_all xs decoder_new = (d, events)" by fastforce
  have "held_back decoder_new []" "decoder_wf decoder_new" by (auto simp: held_back_def decoder_new_def decoder_wf_def)
  from decode_all_spells [OF this run] obtain ws held where
    parts: "concat ws @ held = typed_bytes xs" "list_all2 spells events ws" "held_back d held" by auto
  then show ?thesis using run by (auto simp: held_back_def split: option.splits if_splits)
qed

section \<open>A paste arrives as one\<close>

definition typed_at :: "int \<Rightarrow> u8 list \<Rightarrow> typed list" where
  "typed_at now bytes = map (TypedByte now) bytes"

lemma decode_all_append:
  "decode_all (xs @ ys) d = (let (d, before) = decode_all xs d; (d, after) = decode_all ys d in (d, before @ after))"
  by (induction xs arbitrary: d) (auto simp: Let_def split: prod.splits option.splits)

lemma paste_collects:
  assumes "id_paste d = Some p" and "\<not> pb_overflowed p" and "\<not> contains_end (pb_bytes p @ body)"
    and "length (pb_bytes p @ body) \<le> max_clipboard_bytes + 6"
  shows "decode_all (typed_at now body) d = (d\<lparr>id_paste := Some (p\<lparr>pb_bytes := pb_bytes p @ body\<rparr>)\<rparr>, [])"
  using assms
proof (induction body arbitrary: d p)
  case Nil
  then show ?case by (simp add: typed_at_def)
next
  case (Cons b body)
  have "\<not> contains_end (pb_bytes p @ [b])" using Cons.prems(3) not_in_front [of "pb_bytes p @ [b]" body] by simp
  then have "\<not> vec_ends_with bracketed_paste_end (pb_bytes p @ [b])" by (simp add: contains_end_snoc)
  then have push: "decoder_push now b d = (d\<lparr>id_paste := Some (p\<lparr>pb_bytes := pb_bytes p @ [b]\<rparr>)\<rparr>, None)"
    using Cons.prems by (simp add: decoder_push_def push_paste_def)
  show ?case using Cons.IH [of "d\<lparr>id_paste := Some (p\<lparr>pb_bytes := pb_bytes p @ [b]\<rparr>)\<rparr>" "p\<lparr>pb_bytes := pb_bytes p @ [b]\<rparr>"]
    Cons.prems push by (simp add: typed_at_def)
qed

lemma brackets_open:
  "decode_all (typed_at now bracketed_paste_start) decoder_new = (decoder_new\<lparr>id_paste := Some paste_new\<rparr>, [])"
  by (simp add: typed_at_def bracketed_paste_start_def decoder_push_def decoder_new_def starts_with_def)

text \<open>
  C20. What the client puts between paste brackets for a pane is read back as that very paste: the
  payload of a text that fits, given to a fresh decoder, produces the one input that is the text
  and leaves the decoder as it was, so no part of a pasted text is taken for keys.
\<close>

theorem paste_roundtrip:
  assumes payload: "terminal_paste_payload pasted True = Inr payload" and fits: "length pasted \<le> max_clipboard_bytes"
  shows "decode_all (typed_at now payload) decoder_new = (decoder_new, [DecodedPaste pasted])"
proof -
  obtain parts: "payload = bracketed_paste_start @ pasted @ bracketed_paste_end"
    and only: "\<And>before after. pasted @ bracketed_paste_end = before @ bracketed_paste_end @ after \<Longrightarrow> before = pasted \<and> after = []"
    using paste_contained [OF payload] by blast
  let ?body = "pasted @ butlast bracketed_paste_end"
  have closing: "bracketed_paste_end = butlast bracketed_paste_end @ [126]" by (simp add: bracketed_paste_end_def)
  have clean: "\<not> contains_end ?body"
  proof
    assume "contains_end ?body"
    then obtain before after where "?body = before @ bracketed_paste_end @ after" by (auto simp: contains_end_def)
    then have "pasted @ bracketed_paste_end = before @ bracketed_paste_end @ (after @ [126])" by (subst (1) closing) simp
    from only [OF this] show False by simp
  qed
  let ?p = "paste_new\<lparr>pb_bytes := ?body\<rparr>"
  have collected: "decode_all (typed_at now ?body) (decoder_new\<lparr>id_paste := Some paste_new\<rparr>)
      = (decoder_new\<lparr>id_paste := Some ?p\<rparr>, [])"
    using paste_collects [of "decoder_new\<lparr>id_paste := Some paste_new\<rparr>" paste_new ?body now] clean fits
    by (simp add: paste_new_def bracketed_paste_end_def)
  have "?body @ [126] = pasted @ bracketed_paste_end" using closing by simp
  then have "decoder_push now 126 (decoder_new\<lparr>id_paste := Some ?p\<rparr>) = (decoder_new, Some (DecodedPaste pasted))"
    using fits by (simp add: decoder_push_def push_paste_def paste_new_def decoder_new_def vec_ends_with_def)
  moreover have "typed_at now payload
      = typed_at now bracketed_paste_start @ typed_at now ?body @ [TypedByte now 126]"
    by (simp add: parts typed_at_def bracketed_paste_end_def)
  ultimately show ?thesis using brackets_open collected by (simp add: decode_all_append)
qed

lemma paste_roundtrip_witness:
  "decode_all (typed_at 0 (bracketed_paste_start @ [27, 91, 65, 13] @ bracketed_paste_end)) decoder_new
    = (decoder_new, [DecodedPaste [27, 91, 65, 13]])"
proof (rule paste_roundtrip)
  show "terminal_paste_payload [27, 91, 65, 13] True = Inr (bracketed_paste_start @ [27, 91, 65, 13] @ bracketed_paste_end)"
    by (simp add: terminal_paste_payload_def bracketed_paste_end_def starts_with_def)
  show "length [27, 91, 65, 13 :: u8] \<le> max_clipboard_bytes" by (simp add: max_clipboard_bytes_def)
qed

end
