(* ===== verification/Terminal_Selection.thy ===== *)
theory Terminal_Selection
  imports Terminal_Input
begin

text \<open>
  The mouse of the terminal client (\<open>src/src/tui.rs\<close>): what is reported to the program of a pane and
  in which encoding, and the text that is selected while a pane scrolls under the pointer.
\<close>

section \<open>Reporting the mouse to a pane\<close>

text \<open>The modes and encodings of the emulator.\<close>

datatype mouse_mode = ModeNone | ModePress | ModePressRelease | ModeButtonMotion | ModeAnyMotion
datatype mouse_encoding = EncodingDefault | EncodingUtf8 | EncodingSgr

unbundle bit_operations_syntax

definition mouse_passthrough_enabled :: "mouse_mode \<Rightarrow> bool \<Rightarrow> bool" where
  "mouse_passthrough_enabled mode writable \<longleftrightarrow> writable \<and> mode \<noteq> ModeNone"

definition mouse_event_allowed :: "mouse_mode \<Rightarrow> mouse_input \<Rightarrow> bool" where
  "mouse_event_allowed mode m = (case mode of
     ModeNone \<Rightarrow> False
   | ModePress \<Rightarrow> \<not> mo_release m \<and> \<not> is_motion m
   | ModePressRelease \<Rightarrow> \<not> is_motion m
   | ModeButtonMotion \<Rightarrow> \<not> is_motion m \<or> mo_code m AND 3 \<noteq> 3
   | ModeAnyMotion \<Rightarrow> True)"

definition checked_add :: "u16 \<Rightarrow> u16 \<Rightarrow> u16 option" where
  "checked_add a b = (if unat a + unat b < 65536 then Some (a + b) else None)"

definition released_code :: "mouse_input \<Rightarrow> u16" where
  "released_code m = (if mo_release m then (mo_code m AND NOT 3) OR 3 else mo_code m)"

definition legacy_byte :: "u16 \<Rightarrow> u8 option" where
  "legacy_byte w = Option.bind (checked_add w 32) (\<lambda>w. if unat w < 256 then Some (ucast w) else None)"

definition legacy_char :: "u16 \<Rightarrow> u8 list option" where
  "legacy_char w = Option.bind (checked_add w 32) (\<lambda>w. if is_scalar (unat w) then Some (utf8_bytes [unat w]) else None)"

definition encode_mouse_event :: "mouse_input \<Rightarrow> mouse_encoding \<Rightarrow> u8 list option" where
  "encode_mouse_event m encoding = (case encoding of
     EncodingSgr \<Rightarrow> Some (utf8_bytes ([27, 91, 60] @ show_word (mo_code m) @ 59 # show_word (mo_column m) @ 59 # show_word (mo_row m)
        @ [if mo_release m then 109 else 77]))
   | EncodingDefault \<Rightarrow> Option.bind (legacy_byte (released_code m)) (\<lambda>c. Option.bind (legacy_byte (mo_column m)) (\<lambda>x.
        map_option (\<lambda>y. [27, 91, 77, c, x, y]) (legacy_byte (mo_row m))))
   | EncodingUtf8 \<Rightarrow> Option.bind (legacy_char (released_code m)) (\<lambda>c. Option.bind (legacy_char (mo_column m)) (\<lambda>x.
        map_option (\<lambda>y. [27, 91, 77] @ c @ x @ y) (legacy_char (mo_row m)))))"

subsection \<open>A report arrives as it was made\<close>

lemma pending_grows:
  assumes "starts_with [27, 91, 60] pending" and "length (pending @ bs) \<le> 64" and "\<forall>b \<in> set bs. 48 \<le> b \<and> b \<le> 57 \<or> b = 59"
  shows "decode_all (typed_at now bs) \<lparr>id_pending = pending, id_pending_since = since, id_paste = None\<rparr>
    = (\<lparr>id_pending = pending @ bs, id_pending_since = since, id_paste = None\<rparr>, [])"
  using assms
proof (induction bs arbitrary: pending)
  case Nil
  then show ?case by (simp add: typed_at_def)
next
  case (Cons b bs)
  obtain tail where pending: "pending = 27 # 91 # 60 # tail" using Cons.prems(1)
    by (auto simp: starts_with_def) (metis append_Cons append_Nil append_take_drop_id)
  have more: "starts_with [27, 91, 60] (pending @ [b])" by (simp add: pending starts_with_def)
  have "b \<noteq> 77" "b \<noteq> 109" "48 \<le> b \<and> b \<le> 57 \<or> b \<in> {59, 60, 91, 27}" using Cons.prems(3) by auto
  moreover have "is_mouse_prefix (pending @ [b])" using more by (simp add: is_mouse_prefix_def)
  moreover have "\<not> starts_with (pending @ [b]) bracketed_paste_start" by (simp add: pending starts_with_def bracketed_paste_start_def)
  ultimately have "decoder_push now b \<lparr>id_pending = pending, id_pending_since = since, id_paste = None\<rparr>
      = (\<lparr>id_pending = pending @ [b], id_pending_since = since, id_paste = None\<rparr>, None)"
    using Cons.prems(2) by (simp add: decoder_push_def Let_def pending)
  then show ?case using Cons.IH [OF more] Cons.prems(2,3) by (simp add: typed_at_def)
qed

lemma show_digit: "c \<in> set (show_nat n) \<Longrightarrow> 48 \<le> c \<and> c \<le> 57"
  by (drule show_nat_digits) auto

lemma digit_bytes: "b \<in> set (map of_nat (show_nat n)) \<Longrightarrow> 48 \<le> (b :: u8) \<and> b \<le> 57"
proof -
  assume "b \<in> set (map of_nat (show_nat n))"
  then obtain c where "b = of_nat c" "c \<in> set (show_nat n)" by auto
  then have c: "b = of_nat c" "48 \<le> c" "c \<le> 57" using show_digit by auto
  then have "unat b = c" by (simp add: unat_of_nat)
  then show ?thesis using c by (simp add: word_le_nat_alt)
qed

lemma show_word_short: "length (show_word (w :: u16)) \<le> 5"
proof -
  have "unat w < 2 ^ LENGTH(16)" by (rule unsigned_less)
  then show ?thesis using length_show_nat [of "unat w" 4] by (simp add: show_word_def)
qed

definition sgr_body :: "mouse_input \<Rightarrow> ustring" where
  "sgr_body m = show_word (mo_code m) @ 59 # show_word (mo_column m) @ 59 # show_word (mo_row m)"

lemma sgr_body_chars: "c \<in> set (sgr_body m) \<Longrightarrow> 48 \<le> c \<and> c \<le> 57 \<or> c = 59"
  by (auto simp: sgr_body_def show_word_def dest: show_digit)

lemma encode_sgr: "encode_mouse_event m EncodingSgr
    = Some ([27, 91, 60] @ map of_nat (sgr_body m) @ [if mo_release m then 109 else 77])"
proof -
  have "is_ascii (sgr_body m)" using sgr_body_chars [of _ m] unfolding is_ascii_def by fastforce
  then have "is_ascii ([27, 91, 60] @ sgr_body m @ [if mo_release m then 109 else 77])" by (auto simp: is_ascii_def)
  from utf8_bytes_ascii [OF this] show ?thesis
    by (simp add: encode_mouse_event_def sgr_body_def del: utf8_bytes_simps)
qed

lemma parse_sgr:
  assumes "mo_column m \<noteq> 0" and "mo_row m \<noteq> 0"
  shows "parse_sgr_mouse ([27, 91, 60] @ map of_nat (sgr_body m) @ [if mo_release m then 109 else 77]) = Some m"
proof -
  have ascii: "is_ascii (sgr_body m)" using sgr_body_chars [of _ m] unfolding is_ascii_def by fastforce
  then have read: "from_utf8 (map of_nat (sgr_body m)) = Some (sgr_body m)"
    using from_utf8_bytes [of "sgr_body m"] utf8_bytes_ascii [OF ascii] ascii by (fastforce simp: is_ascii_def is_scalar_def)
  have plain: "\<forall>c \<in> set (show_word w). c \<noteq> 59" for w :: u16 by (auto simp: show_word_def dest: show_digit)
  have "\<forall>c \<in> set s. c \<noteq> 59 \<Longrightarrow> split_on (\<lambda>c. c = 59) s = [s]" for s by (induction s) auto
  then have "split_on (\<lambda>c. c = 59) (show_word w) = [show_word w]" for w :: u16 using plain by blast
  then have split: "split_on (\<lambda>c. c = 59) (sgr_body m) = [show_word (mo_code m), show_word (mo_column m), show_word (mo_row m)]"
    using plain by (simp add: sgr_body_def split_on_append)
  have word: "parse_unsigned (show_word w) = Some w" for w :: u16
    using unsigned_less [of w] by (simp add: show_word_def parse_unsigned_show)
  show ?thesis using assms by (simp add: parse_sgr_mouse_def strip_prefix_def butlast_append read split word)
qed

text \<open>
  C25. A mouse report reaches the program of a pane as the event that the outer terminal reported.
  Whatever the buttons and modifiers, and wherever the pointer is in the pane, the bytes that are
  sent for it in the extended encoding are one report of the very format that is read here: fed
  to a fresh decoder they give back the event, its cell and its release, and nothing else.
\<close>

theorem mouse_roundtrip:
  assumes sent: "encode_mouse_event m EncodingSgr = Some bytes" and cell: "mo_column m \<noteq> 0" "mo_row m \<noteq> 0"
  shows "decode_all (typed_at now bytes) decoder_new = (decoder_new, [DecodedMouse m])"
proof -
  let ?body = "map of_nat (sgr_body m) :: u8 list" and ?last = "if mo_release m then 109 else 77 :: u8"
  have bytes: "bytes = [27, 91, 60] @ ?body @ [?last]" using sent by (simp add: encode_sgr)
  have short: "length (sgr_body m) \<le> 17"
    using show_word_short [of "mo_code m"] show_word_short [of "mo_column m"] show_word_short [of "mo_row m"] by (simp add: sgr_body_def)
  have opened: "decode_all (typed_at now [27, 91, 60]) decoder_new = (\<lparr>id_pending = [27, 91, 60], id_pending_since = Some now, id_paste = None\<rparr>, [])"
    by (simp add: typed_at_def decoder_push_def decoder_new_def starts_with_def bracketed_paste_start_def is_mouse_prefix_def)
  have digits: "\<forall>b \<in> set ?body. 48 \<le> b \<and> b \<le> 57 \<or> b = 59"
  proof
    fix b
    assume "b \<in> set ?body"
    then obtain c where "b = of_nat c" "c \<in> set (sgr_body m)" by auto
    then have c: "b = of_nat c" "48 \<le> c \<and> c \<le> 57 \<or> c = 59" using sgr_body_chars by auto
    then have "unat b = c" by (auto simp: unat_of_nat)
    then show "48 \<le> b \<and> b \<le> 57 \<or> b = 59" using c by (auto simp: word_le_nat_alt)
  qed
  have grown: "decode_all (typed_at now ?body) \<lparr>id_pending = [27, 91, 60], id_pending_since = Some now, id_paste = None\<rparr>
      = (\<lparr>id_pending = [27, 91, 60] @ ?body, id_pending_since = Some now, id_paste = None\<rparr>, [])"
    using short digits by (intro pending_grows) (auto simp: starts_with_def)
  have "decoder_push now ?last \<lparr>id_pending = [27, 91, 60] @ ?body, id_pending_since = Some now, id_paste = None\<rparr>
      = (decoder_new, Some (DecodedMouse m))"
    using parse_sgr [OF cell] short
    by (simp add: decoder_push_def Let_def starts_with_def bracketed_paste_start_def is_mouse_prefix_def decoder_new_def)
  then have ended: "decode_all [TypedByte now ?last] \<lparr>id_pending = [27, 91, 60] @ ?body, id_pending_since = Some now, id_paste = None\<rparr>
      = (decoder_new, [DecodedMouse m])" by simp
  have "typed_at now bytes = typed_at now [27, 91, 60] @ typed_at now ?body @ [TypedByte now ?last]"
    by (simp add: bytes typed_at_def)
  then show ?thesis using opened grown ended by (simp only: decode_all_append Let_def prod.case append_Nil)
qed

theorem mouse_roundtrip_witness:
  "\<exists>bytes. encode_mouse_event \<lparr>mo_code = 20, mo_column = 7, mo_row = 300, mo_release = True\<rparr> EncodingSgr = Some bytes
     \<and> decode_all (typed_at 5 bytes) decoder_new = (decoder_new, [DecodedMouse \<lparr>mo_code = 20, mo_column = 7, mo_row = 300, mo_release = True\<rparr>])"
proof -
  obtain bytes where "encode_mouse_event \<lparr>mo_code = 20, mo_column = 7, mo_row = 300, mo_release = True\<rparr> EncodingSgr = Some bytes"
    by (simp add: encode_sgr)
  from mouse_roundtrip [OF this] this show ?thesis by simp
qed

section \<open>The text that is selected\<close>

datatype captured_cell = CellText ustring | WideContinuation

type_synonym captured_row = "captured_cell list"

record cell_position =
  cp_row :: int
  cp_column :: u16

definition position_le :: "cell_position \<Rightarrow> cell_position \<Rightarrow> bool" where
  "position_le p q \<longleftrightarrow> (cp_row p, cp_column p) \<le> (cp_row q, cp_column q)"

definition min_position :: "cell_position \<Rightarrow> cell_position \<Rightarrow> cell_position" where
  "min_position p q = (if position_le p q then p else q)"

definition max_position :: "cell_position \<Rightarrow> cell_position \<Rightarrow> cell_position" where
  "max_position p q = (if position_le p q then q else p)"

definition from_viewport :: "u16 \<Rightarrow> u16 \<Rightarrow> int \<Rightarrow> cell_position" where
  "from_viewport row column viewport_offset = \<lparr>cp_row = int (unat row) - viewport_offset, cp_column = column\<rparr>"

record terminal_selection =
  ts_pane :: pane_id
  ts_anchor :: cell_position
  ts_head :: cell_position
  ts_viewport_offset :: int
  ts_captured_rows :: "(int, captured_row) btmap"
  ts_dragging :: bool
  ts_forwarded_click :: "mouse_input option"

datatype selection_finish = Retain | ForwardClick mouse_input mouse_input | ClearSelection
datatype autoscroll_direction = ScrollsUp | ScrollsDown

record selection_autoscroll =
  au_pane :: pane_id
  au_direction :: autoscroll_direction
  au_column :: u16
  au_pending_lines :: nat

definition selection_contains :: "cell_position \<Rightarrow> terminal_selection \<Rightarrow> bool" where
  "selection_contains p s \<longleftrightarrow> position_le (min_position (ts_anchor s) (ts_head s)) p \<and> position_le p (max_position (ts_anchor s) (ts_head s))"

definition selection_finished :: "cell_position \<Rightarrow> cell_position \<Rightarrow> mouse_input \<Rightarrow> terminal_selection \<Rightarrow> terminal_selection \<times> selection_finish" where
  "selection_finished position viewport_position release s =
     (let s = s\<lparr>ts_head := position\<rparr>; s = s\<lparr>ts_dragging := ts_dragging s \<or> ts_head s \<noteq> ts_anchor s\<rparr>
      in if ts_dragging s then (s\<lparr>ts_forwarded_click := None\<rparr>, Retain)
         else (case ts_forwarded_click s of
             Some press \<Rightarrow> (s\<lparr>ts_forwarded_click := None\<rparr>,
               ForwardClick press (release\<lparr>mo_column := cp_column position + 1,
                 mo_row := saturating_add (if 0 \<le> cp_row viewport_position \<and> cp_row viewport_position < 65536 then of_int (cp_row viewport_position) else 0) 1\<rparr>))
           | None \<Rightarrow> (s, ClearSelection)))"

text \<open>A row is captured under its number in the history, which the viewport's offset gives.\<close>

definition capture_selection_rows :: "captured_row list \<Rightarrow> terminal_selection \<Rightarrow> terminal_selection" where
  "capture_selection_rows rows s = s\<lparr>ts_captured_rows := fold (\<lambda>(viewport_row, row). bt_insert (int viewport_row - ts_viewport_offset s) row)
     (enumerate 0 (take 65536 rows)) (ts_captured_rows s)\<rparr>"

definition captured_text :: "captured_cell \<Rightarrow> ustring" where
  "captured_text c = (case c of CellText text \<Rightarrow> text | WideContinuation \<Rightarrow> [])"

definition selected_line :: "cell_position \<Rightarrow> cell_position \<Rightarrow> int \<Rightarrow> captured_row \<Rightarrow> ustring" where
  "selected_line start stop row cells =
     (let first_column = (if row = cp_row start then unat (cp_column start) else 0);
          last_column = min (if row = cp_row stop then unat (cp_column stop) else min (length cells - 1) 65535) (length cells - 1);
          line = concat (map captured_text (drop first_column (take (last_column + 1) cells)))
      in rev (dropWhile (\<lambda>c. c = 32) (rev line)))"

definition selected_terminal_text :: "terminal_selection \<Rightarrow> ustring" where
  "selected_terminal_text s =
     (let start = min_position (ts_anchor s) (ts_head s); stop = max_position (ts_anchor s) (ts_head s)
      in join_with [10] (map (\<lambda>row. case bt_get (ts_captured_rows s) row of None \<Rightarrow> [] | Some cells \<Rightarrow> selected_line start stop row cells)
           [cp_row start .. cp_row stop]))"

text \<open>By how many lines a screen moved, as its rows show.\<close>

definition viewport_shift_distance :: "captured_row list \<Rightarrow> captured_row list \<Rightarrow> autoscroll_direction \<Rightarrow> nat option" where
  "viewport_shift_distance before after direction =
     (if length before \<noteq> length after \<or> before = [] \<or> before = after then None
      else if length before = 1 then Some 1
      else find (\<lambda>lines. case direction of
             ScrollsUp \<Rightarrow> take (length before - lines) before = drop lines after
           | ScrollsDown \<Rightarrow> drop lines before = take (length after - lines) after) [1 ..< length before])"

definition update_selection_after_frame ::
    "pane_id \<Rightarrow> autoscroll_direction option \<Rightarrow> captured_row list option \<Rightarrow> captured_row list \<Rightarrow>
     terminal_selection option \<times> selection_autoscroll option \<Rightarrow> terminal_selection option \<times> selection_autoscroll option" where
  "update_selection_after_frame pane pending_direction before after st = (case st of (selection, autoscroll) \<Rightarrow>
     let shift = Option.bind pending_direction (\<lambda>direction. Option.bind before (\<lambda>before. viewport_shift_distance before after direction))
     in case selection of
          Some s \<Rightarrow>
            if ts_pane s \<noteq> pane then (selection, None)
            else (case (shift, pending_direction) of
                (Some lines, Some direction) \<Rightarrow>
                  (let s = s\<lparr>ts_viewport_offset := ts_viewport_offset s + (case direction of ScrollsUp \<Rightarrow> int lines | ScrollsDown \<Rightarrow> - int lines)\<rparr>;
                       viewport_row = (case direction of ScrollsUp \<Rightarrow> 0 | ScrollsDown \<Rightarrow> of_nat (min (length after - 1) 65535));
                       column = (case autoscroll of None \<Rightarrow> cp_column (ts_head s) | Some a \<Rightarrow> au_column a);
                       s = s\<lparr>ts_head := from_viewport viewport_row column (ts_viewport_offset s)\<rparr>
                   in (Some (capture_selection_rows after s), map_option (\<lambda>a. a\<lparr>au_pending_lines := au_pending_lines a - lines\<rparr>) autoscroll))
              | _ \<Rightarrow> (Some (capture_selection_rows after s), autoscroll))
        | None \<Rightarrow> (None, None))"

section \<open>A selection follows the text while the screen moves\<close>

text \<open>A history of rows, and the rows of it that a screen of some height shows at an offset.\<close>

definition shown :: "(int \<Rightarrow> captured_row) \<Rightarrow> nat \<Rightarrow> int \<Rightarrow> captured_row list" where
  "shown doc height at = map (\<lambda>i. doc (int i - at)) [0 ..< height]"

definition moved :: "autoscroll_direction \<Rightarrow> nat \<Rightarrow> int \<Rightarrow> int" where
  "moved direction lines at = (case direction of ScrollsUp \<Rightarrow> at + int lines | ScrollsDown \<Rightarrow> at - int lines)"

text \<open>Two screens look as if one had moved by some lines.\<close>

definition looks_moved :: "autoscroll_direction \<Rightarrow> nat \<Rightarrow> captured_row list \<Rightarrow> captured_row list \<Rightarrow> bool" where
  "looks_moved direction lines before after = (case direction of
     ScrollsUp \<Rightarrow> take (length before - lines) before = drop lines after
   | ScrollsDown \<Rightarrow> drop lines before = take (length after - lines) after)"

lemma length_shown [simp]: "length (shown doc height at) = height"
  by (simp add: shown_def)

lemma nth_shown [simp]: "i < height \<Longrightarrow> shown doc height at ! i = doc (int i - at)"
  by (simp add: shown_def)

lemma shown_moved: "lines \<le> height \<Longrightarrow> looks_moved direction lines (shown doc height at) (shown doc height (moved direction lines at))"
proof (cases direction)
  case ScrollsUp
  have "take (height - lines) (shown doc height at) = drop lines (shown doc height (at + int lines))" if "lines \<le> height"
    by (rule nth_equalityI) (use that in \<open>simp_all add: algebra_simps\<close>)
  then show "lines \<le> height \<Longrightarrow> ?thesis" using ScrollsUp by (simp add: looks_moved_def moved_def)
next
  case ScrollsDown
  have "drop lines (shown doc height at) = take (height - lines) (shown doc height (at - int lines))" if "lines \<le> height"
    by (rule nth_equalityI) (use that in \<open>simp_all add: algebra_simps\<close>)
  then show "lines \<le> height \<Longrightarrow> ?thesis" using ScrollsDown by (simp add: looks_moved_def moved_def)
qed

lemma find_least: "k < n \<Longrightarrow> P k \<Longrightarrow> m \<le> k \<Longrightarrow> \<forall>j. m \<le> j \<and> j < k \<longrightarrow> \<not> P j \<Longrightarrow> find P [m ..< n] = Some k"
proof (induction "k - m" arbitrary: m)
  case 0
  then have "m = k" by simp
  then show ?case using 0 by (simp add: upt_rec)
next
  case (Suc d)
  then have "m < k" "\<not> P m" by auto
  then have "[m ..< n] = m # [Suc m ..< n]" using Suc.prems(1) by (simp add: upt_rec)
  moreover have "find P [Suc m ..< n] = Some k" using Suc \<open>m < k\<close> by (intro Suc.hyps(1)) auto
  ultimately show ?case using \<open>\<not> P m\<close> by simp
qed

text \<open>A move that can be told: the screens differ, and no smaller move looks the same.\<close>

definition tellable :: "(int \<Rightarrow> captured_row) \<Rightarrow> nat \<Rightarrow> int \<Rightarrow> autoscroll_direction \<times> nat \<Rightarrow> bool" where
  "tellable doc height at move = (case move of (direction, lines) \<Rightarrow>
     let before = shown doc height at; after = shown doc height (moved direction lines at)
     in 0 < lines \<and> lines < height \<and> before \<noteq> after \<and> (\<forall>j. 0 < j \<and> j < lines \<longrightarrow> \<not> looks_moved direction j before after))"

lemma shift_told:
  assumes "tellable doc height at (direction, lines)"
  shows "viewport_shift_distance (shown doc height at) (shown doc height (moved direction lines at)) direction = Some lines"
proof -
  let ?before = "shown doc height at" and ?after = "shown doc height (moved direction lines at)"
  have told: "0 < lines" "lines < height" "?before \<noteq> ?after" "\<forall>j. 0 < j \<and> j < lines \<longrightarrow> \<not> looks_moved direction j ?before ?after"
    using assms by (auto simp: tellable_def Let_def)
  have sizes: "length ?before = height" "length ?after = height" by (simp_all add: shown_def)
  have "find (\<lambda>j. looks_moved direction j ?before ?after) [1 ..< height] = Some lines"
    using told shown_moved [of lines height direction doc at] by (intro find_least) auto
  moreover have "?before \<noteq> []" using told(2) by (metis gr_implies_not0 length_0_conv length_shown)
  ultimately show ?thesis using told sizes by (simp add: viewport_shift_distance_def looks_moved_def)
qed

subsection \<open>What is captured\<close>

lemma capture_fold:
  "bt_get (fold (\<lambda>(i, row). bt_insert (int i - off) row) (enumerate k rows) m) r =
     (if int k - off \<le> r \<and> r < int (k + length rows) - off then Some (rows ! nat (r + off - int k)) else bt_get m r)"
proof (induction rows arbitrary: k m)
  case (Cons row rows)
  show ?case
  proof (cases "r = int k - off")
    case True
    then show ?thesis using Cons.IH [of "Suc k" "bt_insert (int k - off) row m"] by simp
  next
    case False
    then have "nat (r + off - int k) = Suc (nat (r + off - int (Suc k)))" if "int k - off \<le> r" using that by linarith
    then show ?thesis using False Cons.IH [of "Suc k" "bt_insert (int k - off) row m"] by auto
  qed
qed auto

lemma captured_get:
  assumes "length rows \<le> 65536"
  shows "bt_get (ts_captured_rows (capture_selection_rows rows s)) r =
    (if - ts_viewport_offset s \<le> r \<and> r < int (length rows) - ts_viewport_offset s then Some (rows ! nat (r + ts_viewport_offset s))
     else bt_get (ts_captured_rows s) r)"
  using assms capture_fold [of "ts_viewport_offset s" 0 rows "ts_captured_rows s" r] by (simp add: capture_selection_rows_def)

text \<open>A selection that follows a history at an offset: its captured rows are rows of it, without a gap.\<close>

definition follows :: "(int \<Rightarrow> captured_row) \<Rightarrow> nat \<Rightarrow> int \<Rightarrow> terminal_selection \<Rightarrow> bool" where
  "follows doc height at s \<longleftrightarrow> ts_viewport_offset s = at
     \<and> (\<exists>lo hi. (\<forall>r. bt_get (ts_captured_rows s) r = (if lo \<le> r \<and> r \<le> hi then Some (doc r) else None))
         \<and> lo \<le> - at \<and> int height - 1 - at \<le> hi
         \<and> lo \<le> cp_row (ts_anchor s) \<and> cp_row (ts_anchor s) \<le> hi \<and> lo \<le> cp_row (ts_head s) \<and> cp_row (ts_head s) \<le> hi)"

lemma follows_text:
  assumes "follows doc height at s"
  shows "selected_terminal_text s =
    (let start = min_position (ts_anchor s) (ts_head s); stop = max_position (ts_anchor s) (ts_head s)
     in join_with [10] (map (\<lambda>row. selected_line start stop row (doc row)) [cp_row start .. cp_row stop]))"
proof -
  obtain lo hi where rows: "\<forall>r. bt_get (ts_captured_rows s) r = (if lo \<le> r \<and> r \<le> hi then Some (doc r) else None)"
    and inside: "lo \<le> cp_row (ts_anchor s)" "cp_row (ts_anchor s) \<le> hi" "lo \<le> cp_row (ts_head s)" "cp_row (ts_head s) \<le> hi"
    using assms by (auto simp: follows_def)
  have "lo \<le> cp_row (min_position (ts_anchor s) (ts_head s))" "cp_row (max_position (ts_anchor s) (ts_head s)) \<le> hi"
    using inside by (simp_all add: min_position_def max_position_def)
  then show ?thesis using rows
    by (auto simp: selected_terminal_text_def Let_def intro!: arg_cong [where f = "join_with [10]"])
qed

lemma captured_follows:
  assumes "length rows = height" and "height \<le> 65536" and rows: "\<And>i. i < height \<Longrightarrow> rows ! i = doc (int i - at)"
    and old: "\<forall>r. bt_get (ts_captured_rows s) r = (if lo \<le> r \<and> r \<le> hi then Some (doc r) else None)"
    and joined: "lo \<le> int height - at" "- at - 1 \<le> hi" and at: "ts_viewport_offset s = at"
  shows "bt_get (ts_captured_rows (capture_selection_rows rows s)) r
    = (if min lo (- at) \<le> r \<and> r \<le> max hi (int height - 1 - at) then Some (doc r) else None)"
proof -
  have "rows ! nat (r + at) = doc r" if "- at \<le> r" "r < int height - at" for r
    using rows [of "nat (r + at)"] that by simp
  then show ?thesis using assms(1,2) old joined at by (auto simp: captured_get)
qed

lemma frame_follows:
  assumes follows: "follows doc height at s" and told: "tellable doc height at (direction, lines)" and height: "height \<le> 65536"
    and s: "ts_pane s = pane"
  shows "\<exists>s' auto'. update_selection_after_frame pane (Some direction) (Some (shown doc height at)) (shown doc height (moved direction lines at)) (Some s, autoscroll) = (Some s', auto')
    \<and> follows doc height (moved direction lines at) s' \<and> ts_pane s' = pane \<and> ts_anchor s' = ts_anchor s
    \<and> cp_row (ts_head s') = (case direction of ScrollsUp \<Rightarrow> - moved direction lines at | ScrollsDown \<Rightarrow> int height - 1 - moved direction lines at)
    \<and> cp_column (ts_head s') = (case autoscroll of None \<Rightarrow> cp_column (ts_head s) | Some a \<Rightarrow> au_column a)
    \<and> map_option au_column auto' = map_option au_column autoscroll"
proof -
  let ?at = "moved direction lines at" and ?column = "case autoscroll of None \<Rightarrow> cp_column (ts_head s) | Some a \<Rightarrow> au_column a"
  let ?row = "(case direction of ScrollsUp \<Rightarrow> 0 | ScrollsDown \<Rightarrow> of_nat (min (height - 1) 65535)) :: u16"
  define s1 where "s1 = s\<lparr>ts_viewport_offset := ?at, ts_head := from_viewport ?row ?column ?at\<rparr>"
  have lines: "0 < lines" "lines < height" using told by (auto simp: tellable_def Let_def)
  have offset: "ts_viewport_offset s = at" using follows by (simp add: follows_def)
  have moved_at: "at + (case direction of ScrollsUp \<Rightarrow> int lines | ScrollsDown \<Rightarrow> - int lines) = ?at" by (cases direction) (simp_all add: moved_def)
  have run: "update_selection_after_frame pane (Some direction) (Some (shown doc height at)) (shown doc height ?at) (Some s, autoscroll)
      = (Some (capture_selection_rows (shown doc height ?at) s1), map_option (\<lambda>a. a\<lparr>au_pending_lines := au_pending_lines a - lines\<rparr>) autoscroll)"
    using shift_told [OF told] s offset moved_at
    by (cases direction; cases autoscroll; simp add: update_selection_after_frame_def Let_def s1_def)
  have "unat ?row = (case direction of ScrollsUp \<Rightarrow> 0 | ScrollsDown \<Rightarrow> height - 1)"
    using height by (cases direction) (simp_all add: unat_of_nat)
  then have head: "cp_row (ts_head s1) = (case direction of ScrollsUp \<Rightarrow> - ?at | ScrollsDown \<Rightarrow> int height - 1 - ?at)" "cp_column (ts_head s1) = ?column"
    using lines by (cases direction; simp add: s1_def from_viewport_def)+
  obtain lo hi where old: "\<forall>r. bt_get (ts_captured_rows s) r = (if lo \<le> r \<and> r \<le> hi then Some (doc r) else None)"
    and inside: "lo \<le> - at" "int height - 1 - at \<le> hi" "lo \<le> cp_row (ts_anchor s)" "cp_row (ts_anchor s) \<le> hi"
    using follows by (auto simp: follows_def)
  have joined: "lo \<le> int height - ?at" "- ?at - 1 \<le> hi" using inside lines by (cases direction; simp add: moved_def)+
  have "bt_get (ts_captured_rows (capture_selection_rows (shown doc height ?at) s1)) r
      = (if min lo (- ?at) \<le> r \<and> r \<le> max hi (int height - 1 - ?at) then Some (doc r) else None)" for r
    by (rule captured_follows [where lo = lo and hi = hi]) (use height old joined in \<open>simp_all add: s1_def\<close>)
  then have "follows doc height ?at (capture_selection_rows (shown doc height ?at) s1)"
    unfolding follows_def using inside head lines
    by (intro conjI exI [of _ "min lo (- ?at)"] exI [of _ "max hi (int height - 1 - ?at)"])
      (auto simp: capture_selection_rows_def s1_def split: autoscroll_direction.splits)
  then show ?thesis using run head s by (auto simp: capture_selection_rows_def s1_def option.map_comp comp_def)
qed

text \<open>Scrolling a pane while something in it is selected: each frame shows the history moved.\<close>

fun drag_scroll ::
    "(int \<Rightarrow> captured_row) \<Rightarrow> nat \<Rightarrow> pane_id \<Rightarrow> (autoscroll_direction \<times> nat) list \<Rightarrow> int \<Rightarrow>
     terminal_selection option \<times> selection_autoscroll option \<Rightarrow> terminal_selection option \<times> selection_autoscroll option" where
  "drag_scroll doc height pane [] at st = st"
| "drag_scroll doc height pane ((direction, lines) # moves) at st =
     drag_scroll doc height pane moves (moved direction lines at)
       (update_selection_after_frame pane (Some direction) (Some (shown doc height at)) (shown doc height (moved direction lines at)) st)"

fun all_tellable :: "(int \<Rightarrow> captured_row) \<Rightarrow> nat \<Rightarrow> (autoscroll_direction \<times> nat) list \<Rightarrow> int \<Rightarrow> bool" where
  "all_tellable doc height [] at \<longleftrightarrow> True"
| "all_tellable doc height (move # moves) at \<longleftrightarrow> tellable doc height at move \<and> all_tellable doc height moves (moved (fst move) (snd move) at)"

definition scrolled_to :: "(autoscroll_direction \<times> nat) list \<Rightarrow> int \<Rightarrow> int" where
  "scrolled_to moves at = fold (\<lambda>(direction, lines). moved direction lines) moves at"

lemma drag_follows:
  assumes "follows doc height at s" and "all_tellable doc height moves at" and "height \<le> 65536" and "ts_pane s = pane" and "moves \<noteq> []"
  shows "\<exists>s' auto'. drag_scroll doc height pane moves at (Some s, Some autoscroll) = (Some s', auto')
    \<and> follows doc height (scrolled_to moves at) s' \<and> ts_anchor s' = ts_anchor s
    \<and> ts_head s' = \<lparr>cp_row = (case fst (last moves) of ScrollsUp \<Rightarrow> - scrolled_to moves at | ScrollsDown \<Rightarrow> int height - 1 - scrolled_to moves at),
        cp_column = au_column autoscroll\<rparr>"
  using assms
proof (induction moves arbitrary: at s autoscroll)
  case (Cons move moves)
  obtain direction lines where move: "move = (direction, lines)" by fastforce
  obtain s' auto' where step: "update_selection_after_frame pane (Some direction) (Some (shown doc height at)) (shown doc height (moved direction lines at)) (Some s, Some autoscroll)
        = (Some s', auto')"
    and s': "follows doc height (moved direction lines at) s'" "ts_pane s' = pane" "ts_anchor s' = ts_anchor s"
      "cp_row (ts_head s') = (case direction of ScrollsUp \<Rightarrow> - moved direction lines at | ScrollsDown \<Rightarrow> int height - 1 - moved direction lines at)"
      "cp_column (ts_head s') = au_column autoscroll" "map_option au_column auto' = Some (au_column autoscroll)"
    using frame_follows [OF Cons.prems(1) _ Cons.prems(3,4), of direction lines "Some autoscroll"] Cons.prems(2) move by auto
  obtain autoscroll' where auto': "auto' = Some autoscroll'" "au_column autoscroll' = au_column autoscroll" using s'(6) by auto
  show ?case
  proof (cases "moves = []")
    case True
    then show ?thesis using step s' move by (auto simp: scrolled_to_def intro!: cell_position.equality split: autoscroll_direction.split)
  next
    case False
    have on: "scrolled_to (move # moves) at = scrolled_to moves (moved direction lines at)" by (simp add: scrolled_to_def move)
    show ?thesis using Cons.IH [OF s'(1) _ Cons.prems(3) s'(2) False, of autoscroll'] Cons.prems(2) step s'(3) auto' False
      unfolding on by (simp add: move)
  qed
qed simp

text \<open>A selection that was just begun where the mouse was pressed.\<close>

definition pressed_selection :: "pane_id \<Rightarrow> u16 \<Rightarrow> u16 \<Rightarrow> mouse_input option \<Rightarrow> captured_row list \<Rightarrow> terminal_selection" where
  "pressed_selection pane row column click rows = capture_selection_rows rows
     \<lparr>ts_pane = pane, ts_anchor = from_viewport row column 0, ts_head = from_viewport row column 0, ts_viewport_offset = 0,
      ts_captured_rows = bt_empty, ts_dragging = False, ts_forwarded_click = click\<rparr>"

lemma pressed_follows:
  assumes "unat row < height" and "height \<le> 65536"
  shows "follows doc height 0 (pressed_selection pane row column click (shown doc height 0))"
proof -
  have "bt_get (ts_captured_rows (pressed_selection pane row column click (shown doc height 0))) r
      = (if 0 \<le> r \<and> r \<le> int height - 1 then Some (doc r) else None)" for r
    using assms(2) by (auto simp: pressed_selection_def captured_get)
  then have rows: "\<forall>r. bt_get (ts_captured_rows (pressed_selection pane row column click (shown doc height 0))) r
      = (if 0 \<le> r \<and> r \<le> int height - 1 then Some (doc r) else None)" by blast
  have at: "cp_row (ts_anchor (pressed_selection pane row column click (shown doc height 0))) = int (unat row)"
    "cp_row (ts_head (pressed_selection pane row column click (shown doc height 0))) = int (unat row)"
    "ts_viewport_offset (pressed_selection pane row column click (shown doc height 0)) = 0"
    unfolding pressed_selection_def capture_selection_rows_def from_viewport_def by simp_all
  have below: "int (unat row) \<le> int height - 1" "0 \<le> int (unat row)" using assms(1) by linarith+
  show ?thesis unfolding follows_def at
    by (rule conjI, rule refl, rule exI [of _ 0], rule exI [of _ "int height - 1"], rule conjI, rule rows)
      (use below in linarith)
qed

text \<open>
  C21. What is copied is what was marked, however far the screen moved under the pointer. A
  selection that begins in the visible part of a history and is dragged past its edge, up or down
  and back, copies exactly the lines of the history between where it began and the edge it was
  last dragged past - rows that have long left the screen among them, cut to the columns of both
  ends and without trailing spaces - as long as each move of the screen can be told from its rows.
\<close>

theorem dragged_text_exact:
  assumes "unat row < height" and "height \<le> 65536" and "all_tellable doc height moves 0" and "moves \<noteq> []"
  shows "\<exists>s auto'. drag_scroll doc height pane moves 0 (Some (pressed_selection pane row column click (shown doc height 0)), Some autoscroll) = (Some s, auto')
    \<and> selected_terminal_text s =
       (let anchor = \<lparr>cp_row = int (unat row), cp_column = column\<rparr>;
            head = \<lparr>cp_row = (case fst (last moves) of ScrollsUp \<Rightarrow> - scrolled_to moves 0 | ScrollsDown \<Rightarrow> int height - 1 - scrolled_to moves 0),
                    cp_column = au_column autoscroll\<rparr>;
            start = min_position anchor head; stop = max_position anchor head
        in join_with [10] (map (\<lambda>r. selected_line start stop r (doc r)) [cp_row start .. cp_row stop]))"
proof -
  let ?s = "pressed_selection pane row column click (shown doc height 0)"
  have "ts_pane ?s = pane" by (simp add: pressed_selection_def capture_selection_rows_def)
  from drag_follows [OF pressed_follows [OF assms(1,2)] assms(3,2) this assms(4)]
  obtain s auto' where run: "drag_scroll doc height pane moves 0 (Some ?s, Some autoscroll) = (Some s, auto')"
    and s: "follows doc height (scrolled_to moves 0) s" "ts_anchor s = ts_anchor ?s"
      "ts_head s = \<lparr>cp_row = (case fst (last moves) of ScrollsUp \<Rightarrow> - scrolled_to moves 0 | ScrollsDown \<Rightarrow> int height - 1 - scrolled_to moves 0),
        cp_column = au_column autoscroll\<rparr>" by blast
  have "ts_anchor s = \<lparr>cp_row = int (unat row), cp_column = column\<rparr>"
    using s(2) by (simp add: pressed_selection_def capture_selection_rows_def from_viewport_def)
  then show ?thesis using run follows_text [OF s(1)] s(3) by (simp add: Let_def)
qed

definition numbered_row :: "int \<Rightarrow> captured_row" where
  "numbered_row r = [CellText (show_nat (nat (r + 8)))]"

theorem dragged_text_exact_witness:
  "\<forall>pane. \<exists>s auto'. drag_scroll numbered_row 2 pane [(ScrollsUp, 1)] 0 (Some (pressed_selection pane 1 0 None (shown numbered_row 2 0)),
       Some \<lparr>au_pane = pane, au_direction = ScrollsUp, au_column = 0, au_pending_lines = 1\<rparr>) = (Some s, auto')
     \<and> selected_terminal_text s = [55, 10, 56, 10, 57]"
proof
  fix pane
  have digits: "show_nat 7 = [55]" "show_nat 8 = [56]" "show_nat 9 = [57]" by (simp_all add: show_nat.simps)
  have "shown numbered_row 2 0 = [numbered_row 0, numbered_row 1]" "shown numbered_row 2 1 = [numbered_row (- 1), numbered_row 0]"
    by (simp_all add: shown_def upt_rec numeral_2_eq_2)
  then have "all_tellable numbered_row 2 [(ScrollsUp, 1)] 0"
    by (simp add: tellable_def Let_def moved_def numbered_row_def digits)
  moreover have "unat (1 :: u16) < 2" by simp
  ultimately obtain s auto' where run: "drag_scroll numbered_row 2 pane [(ScrollsUp, 1)] 0 (Some (pressed_selection pane 1 0 None (shown numbered_row 2 0)),
       Some \<lparr>au_pane = pane, au_direction = ScrollsUp, au_column = 0, au_pending_lines = 1\<rparr>) = (Some s, auto')"
    and copied: "selected_terminal_text s =
       (let anchor = \<lparr>cp_row = int (unat (1 :: u16)), cp_column = 0\<rparr>; head = \<lparr>cp_row = - scrolled_to [(ScrollsUp, 1)] 0, cp_column = 0\<rparr>;
            start = min_position anchor head; stop = max_position anchor head
        in join_with [10] (map (\<lambda>r. selected_line start stop r (numbered_row r)) [cp_row start .. cp_row stop]))"
    using dragged_text_exact [of "1 :: u16" 2 numbered_row "[(ScrollsUp, 1)]" pane 0 None
        "\<lparr>au_pane = pane, au_direction = ScrollsUp, au_column = 0, au_pending_lines = 1\<rparr>"] by auto
  have "[- 1 .. 1 :: int] = [- 1, 0, 1]" by (simp add: upto.simps)
  then have "selected_terminal_text s = [55, 10, 56, 10, 57]"
    unfolding copied by (simp add: scrolled_to_def moved_def min_position_def max_position_def position_le_def selected_line_def numbered_row_def digits captured_text_def)
  then show "\<exists>s auto'. drag_scroll numbered_row 2 pane [(ScrollsUp, 1)] 0 (Some (pressed_selection pane 1 0 None (shown numbered_row 2 0)),
       Some \<lparr>au_pane = pane, au_direction = ScrollsUp, au_column = 0, au_pending_lines = 1\<rparr>) = (Some s, auto')
     \<and> selected_terminal_text s = [55, 10, 56, 10, 57]" using run by blast
qed

end
