(* ===== verification/Spec2Isabelle.thy ===== *)
theory Spec2Isabelle
  imports Broker_Audience Workspace_Move Notifications Device_Pairing Remote_Files Bridge Web Download Retention Plugin_Fleet Ssh_Config Terminal_Layout Terminal_Files Terminal_Selection
begin

text \<open>
  Super-Herdr federates Herdr terminal servers on many hosts. A daemon supervises the configured
  targets, keeps a normalized snapshot of each, derives from the snapshots an attention history and
  an inbox of agent cards, and brokers terminal panes, operations and files to its clients: a
  terminal client that is linked into the same program, and browsers that are paired by a code
  shown on a trusted screen, directly or through a hosted bridge. Paths below are under \<open>src/src/\<close>
  unless they begin with \<open>crates/\<close>.

  \<^bold>\<open>Conventions.\<close> A struct is a record, an enum a datatype with the source's constructors, an
  integer of a fixed width a word; a \<open>String\<close> is the list of its characters (\<open>Utf8\<close>, \<open>Std_Text\<close> give
  its bytes), a \<open>BTreeMap\<close> a sorted association list (\<open>Ordered_Map\<close>), a \<open>Result\<close> a sum with the error
  text on the left. An operation takes the state and returns it, with the effects or messages it
  produced as a list in their order. The order of messages on one connection is kept; tasks that
  run side by side are step relations whose steps interleave freely.

  \<^bold>\<open>The library.\<close> \<open>Prelude\<close> (words, saturating and wrapping arithmetic, results, step relations),
  \<open>Ordered_Map\<close> (the ordered containers; locale \<open>ordered_map\<close>), \<open>Utf8\<close>, \<open>Std_Text\<close>, \<open>Capped\<close> (maps that
  forget their oldest entries). \<open>kept_invariant\<close> is the contract of a machine with an invariant that
  every step keeps, and \<open>persisted_store\<close> that of a file which restores what was saved; every
  component that has such a contract interprets the locale on its own steps. \<open>Samples\<close> holds the
  concrete federation that instances of the properties are evaluated on.

  \<^bold>\<open>Identities, federation and what is derived from it.\<close>
  \<open>Model_Ids\<close> (\<open>model.rs\<close>): target sessions and identifiers qualified by them. \<open>Config\<close>,
  \<open>Config_Check\<close> (\<open>config.rs\<close>): the records of the configuration, its validation, devices and the
  addresses served. \<open>State\<close> (\<open>state.rs\<close>): normalization of a server's snapshot and the recording
  functions of the supervisors; reachable states are well formed. \<open>Screen\<close> (\<open>screen.rs\<close>): rendered
  rows, snapshots and diffs; a diff applied to the screen it follows gives the next one.
  \<open>Attention\<close> (\<open>attention.rs\<close>): an observation appends exactly the transitions of the agents; the
  bounded history, its mirror in a client and its file. \<open>Agent_Marks\<close> (\<open>agent_marks.rs\<close>),
  \<open>Aliases\<close> (\<open>aliases.rs\<close>), \<open>Agent_Card\<close> (\<open>agent_card.rs\<close>): a card is offered exactly when its
  identity leads back to one agent. \<open>Notifications\<close> (\<open>notifications.rs\<close>), \<open>Push\<close> (\<open>push.rs\<close>): pacing,
  texts, and the stored subscriptions of devices.

  \<^bold>\<open>The daemon.\<close>
  \<open>Protocol\<close> (\<open>protocol.rs\<close>, \<open>operation.rs\<close>, \<open>terminal.rs\<close>): the messages and their framing.
  \<open>Broker\<close> (\<open>daemon/broker.rs\<close>): every operation of the broker as a function from state to state and
  effects. \<open>Broker_Invariant\<close> and \<open>Broker_Events\<close> drive it by the events of the daemon and show the
  invariant, that input needs the lease, that nothing is served before the handshake, and that the
  leases refine an abstract lease of one holder per pane. \<open>Broker_Told\<close>, \<open>Broker_Viewers\<close>,
  \<open>Broker_Published\<close> and \<open>Broker_Audience\<close> add what each client was told, shown and sent as ghost
  components, and show these to agree with the broker's state. \<open>Connection\<close> (\<open>daemon/server.rs\<close>,
  \<open>client.rs\<close>): one connection as a stream of bytes. \<open>Pairing\<close>, \<open>Device_Pairing\<close> (\<open>pairing.rs\<close>,
  \<open>daemon/server.rs\<close>): codes, tokens, attempts; every recorded device was approved at a trusted
  screen within its window. \<open>Web\<close> (\<open>daemon/web.rs\<close>): requests, cookies, routes and event streams; an
  unpaired browser learns nothing. \<open>Bridge\<close> (\<open>crates/bridge/src/lib.rs\<close>): the packets and the tables
  of the hosted bridge.

  \<^bold>\<open>Hosts.\<close>
  \<open>Transport\<close> (\<open>transport.rs\<close>, \<open>probe.rs\<close>): the command lines that run Herdr here or over SSH and the
  discovery of sessions. \<open>Ssh_Config\<close> (\<open>ssh_config.rs\<close>). \<open>Workspace_Move\<close> (\<open>workspace_move.rs\<close>): moving and recreating split
  trees. \<open>Remote_Files\<close> (\<open>remote_files.rs\<close>): which files a host may be asked about. \<open>Staging\<close>,
  \<open>Transfers\<close>, \<open>Retention\<close> (\<open>clipboard.rs\<close>, \<open>daemon/server.rs\<close>): files staged on a host, the relay
  that carries them and the transfers kept for their senders; what is reported as done was
  verified, and an interrupted transfer resumes where the host's bytes end. \<open>Download\<close>
  (\<open>daemon/server.rs\<close>, \<open>file_save.rs\<close>, \<open>tui.rs\<close>): chunks under credit, and saving them. \<open>Plugins\<close>, \<open>Plugin_Fleet\<close>
  (\<open>plugin.rs\<close>, \<open>plugin_fleet.rs\<close>, \<open>herdr_support.rs\<close>): invocations, what is installed where, differences and the plan.

  \<^bold>\<open>The terminal client\<close> (\<open>tui.rs\<close>).
  \<open>Terminal_Input\<close>: the decoder of the terminal's bytes. \<open>Terminal_Layout\<close>: the areas of the panes and
  their neighbours. \<open>Terminal_Selection\<close>: mouse reports and the text that is selected.
  \<open>Terminal_Files\<close>: dropped files and batches of uploads.

  \<^bold>\<open>Bounds.\<close> The code's own limits are constants of the model: lines of 4 MiB, histories and marks with
  their caps, four outstanding screens, eight download chunks, four retained transfers, 64 files of an SSH
  configuration nested three deep, layouts nested 64 deep, pending input of 64 bytes and pastes of
  1 MiB. Loops are recursions on what they consume, or carry a measure; recursion over a server's
  split tree and over included files carries the code's own depth limit, so there is no fuel
  that the code does not have. Sequence numbers and revisions are 64-bit words; where a property needs
  that they do not wrap it says so as a hypothesis on how many steps were taken.

  \<^bold>\<open>Parameters.\<close> Code that is not part of the sources is an argument of the definitions: the
  \<open>vt100\<close> emulator, the accessors of \<open>serde_json\<close> values and the JSON form of a message, SHA-256 and
  HMAC, random bytes, clocks, the Herdr API and the scripts a host runs, the shell that reads a
  command line, the file system, the inside of a bordered block.

  \<^bold>\<open>Not modelled.\<close> Sockets, TLS, processes and the set-up of tasks; the drawing of the terminal client,
  its dialogs and its lists; the desktop clipboard; SSH forwarding; the signing and delivery of web
  pushes; command-line parsing, reports and the diagnosis of an installation (\<open>main.rs\<close>,
  \<open>doctor.rs\<close>, most of \<open>probe.rs\<close>); the menus of resource actions. They are calls into the operating
  system and into libraries, or text for a person, with no state of their own that others rely on.
\<close>

end
